(* ===== verification/Prelude.thy ===== *)
theory Prelude
  imports Main "HOL-Library.Word" "HOL-Library.AList" "HOL-Library.Char_ord"
    "HOL-Library.List_Lexorder"
begin

text \<open>
  Shared vocabulary of the development: the machine types of the Rust sources, the
  association-list model of \<^verbatim>\<open>std::collections::HashMap\<close>, arithmetic on 64-bit words
  read through \<^const>\<open>unat\<close>, quorum intersection, and the interface (a locale) of
  join-like operations from which merges of maps inherit their algebra.

  A \<^verbatim>\<open>HashMap\<close> is a list of key/value pairs with distinct keys (\<open>hm_ok\<close>); the list order
  stands for the unspecified iteration order of the hash map.  What a map means is its
  lookup function \<^const>\<open>map_of\<close>, so two maps are interchangeable when their lookup
  functions agree.
\<close>

section \<open>Machine types\<close>

type_synonym u8 = "8 word"
type_synonym u32 = "32 word"
type_synonym u64 = "64 word"
type_synonym usize = "64 word"
type_synonym bytes = "u8 list"

text \<open>A floating point number is its 64-bit pattern.\<close>

type_synonym f64 = "64 word"

text \<open>\<^verbatim>\<open>NodeId(pub String)\<close> is its string; strings are byte strings.\<close>

type_synonym node_id = string

text \<open>Collections of facts: word arithmetic and hash-map rewriting.\<close>

named_theorems word_nat \<open>reading 64-bit words as natural numbers\<close>
named_theorems hm_simps \<open>lookup after a hash-map operation\<close>
named_theorems hm_intros \<open>preservation of distinct keys by hash-map operations\<close>

section \<open>Words\<close>

lemma unat_add_u64 [word_nat]:
  "unat a + unat b < 2 ^ 64 \<Longrightarrow> unat (a + b :: u64) = unat a + unat b"
  by (simp add: unat_word_ariths)

lemma unat_Suc_u64 [word_nat]:
  "unat a + 1 < 2 ^ 64 \<Longrightarrow> unat (a + 1 :: u64) = unat a + 1"
  using unat_add_u64 [of a 1] by simp

lemma unat_diff_u64 [word_nat]: "b \<le> a \<Longrightarrow> unat (a - b :: u64) = unat a - unat b"
  by (rule unat_sub)

lemma unat_of_nat_u64 [word_nat]: "n < 2 ^ 64 \<Longrightarrow> unat (of_nat n :: u64) = n"
  by (simp add: unat_of_nat)

lemma unat_lt_u64: "unat (a :: u64) < 2 ^ 64"
  using unsigned_less [of a] by simp

lemma unat_le_max_u64: "unat (a :: u64) \<le> 18446744073709551615"
  using unat_lt_u64 [of a] by simp

lemma u64_eq_iff_unat: "a = b \<longleftrightarrow> unat a = unat (b :: u64)"
  by (simp add: word_unat_eq_iff)

lemmas u64_order = word_le_nat_alt word_less_nat_alt u64_eq_iff_unat

lemma unat_max_u64: "unat (- 1 :: u64) = 2 ^ 64 - 1"
  by (simp add: unsigned_minus_1_eq_mask mask_eq_exp_minus_1)

lemma unat_not_max_u64: "(a :: u64) \<noteq> - 1 \<Longrightarrow> unat a + 1 < 2 ^ 64"
  using unat_lt_u64 [of a] unat_max_u64 by (fastforce simp: u64_eq_iff_unat)

lemma u64_lt_Suc: "a \<noteq> - 1 \<Longrightarrow> (a :: u64) < a + 1"
  using unat_not_max_u64 [of a] by (simp add: word_less_nat_alt unat_Suc_u64)

lemma u64_gt_zero: "(0 :: u64) < a \<longleftrightarrow> a \<noteq> 0"
  by (rule word_neq_0_conv [symmetric])

text \<open>\<^verbatim>\<open>u64::saturating_sub\<close>.\<close>

definition saturating_sub :: "u64 \<Rightarrow> u64 \<Rightarrow> u64" where
  "saturating_sub a b = (if b \<le> a then a - b else 0)"

lemma unat_saturating_sub [word_nat]: "unat (saturating_sub a b) = unat a - unat b"
  by (auto simp: saturating_sub_def unat_sub word_le_nat_alt)

section \<open>Hash maps\<close>

type_synonym ('k, 'v) hmap = "('k \<times> 'v) list"

definition hm_ok :: "('k, 'v) hmap \<Rightarrow> bool" where
  "hm_ok m \<longleftrightarrow> distinct (map fst m)"

text \<open>\<^verbatim>\<open>get\<close>, \<^verbatim>\<open>insert\<close>, \<^verbatim>\<open>remove\<close>, \<^verbatim>\<open>contains_key\<close>,
  \<^verbatim>\<open>keys\<close>, \<^verbatim>\<open>values\<close>, \<^verbatim>\<open>len\<close>.\<close>

abbreviation hm_get :: "('k, 'v) hmap \<Rightarrow> 'k \<Rightarrow> 'v option" where
  "hm_get \<equiv> map_of"

abbreviation hm_insert :: "'k \<Rightarrow> 'v \<Rightarrow> ('k, 'v) hmap \<Rightarrow> ('k, 'v) hmap" where
  "hm_insert \<equiv> AList.update"

abbreviation hm_remove :: "'k \<Rightarrow> ('k, 'v) hmap \<Rightarrow> ('k, 'v) hmap" where
  "hm_remove \<equiv> AList.delete"

abbreviation hm_contains :: "('k, 'v) hmap \<Rightarrow> 'k \<Rightarrow> bool" where
  "hm_contains m k \<equiv> map_of m k \<noteq> None"

abbreviation hm_keys :: "('k, 'v) hmap \<Rightarrow> 'k list" where
  "hm_keys m \<equiv> map fst m"

abbreviation hm_values :: "('k, 'v) hmap \<Rightarrow> 'v list" where
  "hm_values m \<equiv> map snd m"

abbreviation hm_len :: "('k, 'v) hmap \<Rightarrow> nat" where
  "hm_len \<equiv> length"

text \<open>\<^verbatim>\<open>get(k).copied().unwrap_or(d)\<close>.\<close>

definition hm_get_or :: "('k, 'v) hmap \<Rightarrow> 'k \<Rightarrow> 'v \<Rightarrow> 'v" where
  "hm_get_or m k d = (case hm_get m k of None \<Rightarrow> d | Some v \<Rightarrow> v)"

text \<open>\<^verbatim>\<open>let c = entry(k).or_insert(d); *c = f(*c)\<close>.\<close>

definition hm_upsert :: "'k \<Rightarrow> 'v \<Rightarrow> ('v \<Rightarrow> 'v) \<Rightarrow> ('k, 'v) hmap \<Rightarrow> ('k, 'v) hmap" where
  "hm_upsert k d f m = hm_insert k (f (hm_get_or m k d)) m"

text \<open>\<^verbatim>\<open>for (k, v) in &other { let c = self.entry(k).or_insert(d); *c = f(*c, v) }\<close>.\<close>

definition hm_join ::
    "('v \<Rightarrow> 'v \<Rightarrow> 'v) \<Rightarrow> 'v \<Rightarrow> ('k, 'v) hmap \<Rightarrow> ('k, 'v) hmap \<Rightarrow> ('k, 'v) hmap" where
  "hm_join f d m other = foldl (\<lambda>acc (k, v). hm_upsert k d (\<lambda>c. f c v) acc) m other"

lemma hm_ok_Nil [hm_intros, simp]: "hm_ok []"
  by (simp add: hm_ok_def)

lemma hm_ok_Cons: "hm_ok ((k, v) # m) \<longleftrightarrow> map_of m k = None \<and> hm_ok m"
  by (auto simp: hm_ok_def map_of_eq_None_iff)

lemma hm_ok_insert [hm_intros]: "hm_ok m \<Longrightarrow> hm_ok (hm_insert k v m)"
  by (simp add: hm_ok_def distinct_update)

lemma hm_ok_remove [hm_intros]: "hm_ok m \<Longrightarrow> hm_ok (hm_remove k m)"
  by (simp add: hm_ok_def distinct_delete)

lemma hm_ok_filter [hm_intros]: "hm_ok m \<Longrightarrow> hm_ok (filter P m)"
  by (simp add: hm_ok_def distinct_map_filter)

lemma hm_ok_upsert [hm_intros]: "hm_ok m \<Longrightarrow> hm_ok (hm_upsert k d f m)"
  by (simp add: hm_upsert_def hm_ok_insert)

lemma hm_ok_join [hm_intros]: "hm_ok m \<Longrightarrow> hm_ok (hm_join f d m other)"
  unfolding hm_join_def
  by (induction other arbitrary: m) (auto intro: hm_intros)

lemma hm_get_insert [hm_simps]:
  "hm_get (hm_insert k v m) k' = (if k' = k then Some v else hm_get m k')"
  by (simp add: update_conv')

lemma hm_get_remove [hm_simps]:
  "hm_get (hm_remove k m) k' = (if k' = k then None else hm_get m k')"
  by (simp add: delete_conv')

lemma hm_get_or_insert [hm_simps]:
  "hm_get_or (hm_insert k v m) k' d = (if k' = k then v else hm_get_or m k' d)"
  by (simp add: hm_get_or_def hm_simps)

lemma hm_get_or_remove [hm_simps]:
  "hm_get_or (hm_remove k m) k' d = (if k' = k then d else hm_get_or m k' d)"
  by (simp add: hm_get_or_def hm_simps)

lemma hm_get_upsert [hm_simps]:
  "hm_get (hm_upsert k d f m) k' =
     (if k' = k then Some (f (hm_get_or m k d)) else hm_get m k')"
  by (simp add: hm_upsert_def hm_simps)

lemma hm_get_or_upsert [hm_simps]:
  "hm_get_or (hm_upsert k d f m) k' d' =
     (if k' = k then f (hm_get_or m k d) else hm_get_or m k' d')"
  by (simp add: hm_get_or_def hm_simps)

lemma hm_get_filter [hm_simps]:
  "hm_ok m \<Longrightarrow> hm_get (filter (\<lambda>(k, v). P k v) m) k =
     (case hm_get m k of None \<Rightarrow> None | Some v \<Rightarrow> if P k v then Some v else None)"
  by (induction m) (auto simp: hm_ok_Cons split: option.splits)

lemma hm_get_join [hm_simps]:
  "hm_ok other \<Longrightarrow> hm_get (hm_join f d m other) k =
     (case hm_get other k of
        None \<Rightarrow> hm_get m k
      | Some v \<Rightarrow> Some (f (hm_get_or m k d) v))"
  unfolding hm_join_def
  by (induction other arbitrary: m)
     (auto simp: hm_ok_Cons hm_get_upsert hm_get_or_upsert split: option.splits)

lemma hm_get_or_cong: "hm_get m = hm_get m' \<Longrightarrow> hm_get_or m = hm_get_or m'"
  by (simp add: hm_get_or_def fun_eq_iff)

lemma hm_get_in_set: "hm_ok m \<Longrightarrow> (k, v) \<in> set m \<longleftrightarrow> hm_get m k = Some v"
  by (simp add: hm_ok_def map_of_eq_Some_iff)

lemma hm_len_eq_card: "hm_ok m \<Longrightarrow> hm_len m = card (dom (hm_get m))"
  by (simp add: hm_ok_def dom_map_of_conv_image_fst distinct_card flip: set_map)

lemma hm_values_set: "hm_ok m \<Longrightarrow> v \<in> set (hm_values m) \<longleftrightarrow> (\<exists>k. hm_get m k = Some v)"
  by (force simp flip: hm_get_in_set)

lemma hm_sum_values:
  fixes m :: "('k, 'v :: comm_monoid_add) hmap"
  assumes "hm_ok m"
  shows "sum_list (hm_values m) = (\<Sum>k \<in> dom (hm_get m). the (hm_get m k))"
  using assms
proof (induction m)
  case Nil
  then show ?case by simp
next
  case (Cons kv m)
  obtain k v where kv: "kv = (k, v)" by force
  with Cons.prems have k: "k \<notin> dom (hm_get m)" and ok: "hm_ok m"
    by (auto simp: hm_ok_Cons)
  have "(\<Sum>k' \<in> dom (hm_get m). the (hm_get (kv # m) k')) =
        (\<Sum>k' \<in> dom (hm_get m). the (hm_get m k'))"
    using k by (intro sum.cong) (auto simp: kv)
  moreover have "dom (hm_get (kv # m)) = insert k (dom (hm_get m))" by (auto simp: kv)
  moreover have "the (hm_get (kv # m) k) = v" by (simp add: kv)
  ultimately have "(\<Sum>k' \<in> dom (hm_get (kv # m)). the (hm_get (kv # m) k')) =
      v + (\<Sum>k' \<in> dom (hm_get m). the (hm_get m k'))"
    using k by (simp only: sum.insert finite_dom_map_of not_False_eq_True)
  with Cons.IH [OF ok] show ?case by (simp only: kv list.map sum_list.Cons snd_conv)
qed

section \<open>The interface of a mergeable value\<close>

text \<open>
  The CRDT module merges values with an operation that behaves as a join on the values a
  replica can hold (\<open>ok\<close>): \<^verbatim>\<open>u64::max\<close> with 0, set union with the empty set, the
  last-writer-wins choice with the empty register.  Whatever joins, the entry-wise merge
  of two hash maps joins too.
\<close>

locale join_op =
  fixes ok :: "'k \<Rightarrow> 'v \<Rightarrow> bool" and join :: "'v \<Rightarrow> 'v \<Rightarrow> 'v" and bot :: 'v
  assumes ok_bot: "ok k bot"
    and ok_join: "ok k a \<Longrightarrow> ok k b \<Longrightarrow> ok k (join a b)"
    and join_comm: "ok k a \<Longrightarrow> ok k b \<Longrightarrow> join a b = join b a"
    and join_assoc: "ok k a \<Longrightarrow> ok k b \<Longrightarrow> ok k c \<Longrightarrow> join (join a b) c = join a (join b c)"
    and join_idem: "ok k a \<Longrightarrow> join a a = a"
    and join_bot: "ok k a \<Longrightarrow> join bot a = a"
begin

definition ok_map :: "('k, 'v) hmap \<Rightarrow> bool" where
  "ok_map m \<longleftrightarrow> hm_ok m \<and> (\<forall>k v. hm_get m k = Some v \<longrightarrow> ok k v)"

lemma ok_mapD: "ok_map m \<Longrightarrow> hm_get m k = Some v \<Longrightarrow> ok k v"
  by (auto simp: ok_map_def)

lemma ok_map_hm_ok: "ok_map m \<Longrightarrow> hm_ok m"
  by (simp add: ok_map_def)

lemma ok_get_or: "ok_map m \<Longrightarrow> ok k (hm_get_or m k bot)"
  by (auto simp: hm_get_or_def ok_bot dest: ok_mapD split: option.splits)

lemma get_merge:
  assumes "ok_map m" "ok_map n"
  shows "hm_get (hm_join join bot m n) k =
    (case (hm_get m k, hm_get n k) of
       (None, w) \<Rightarrow> w
     | (Some v, None) \<Rightarrow> Some v
     | (Some v, Some w) \<Rightarrow> Some (join v w))"
  using assms by (auto simp: hm_simps ok_map_hm_ok hm_get_or_def join_bot
      dest: ok_mapD split: option.splits)

lemma ok_map_merge: "ok_map m \<Longrightarrow> ok_map n \<Longrightarrow> ok_map (hm_join join bot m n)"
  unfolding ok_map_def [of "hm_join join bot m n"]
  by (auto simp: get_merge ok_map_hm_ok hm_ok_join split: option.splits intro: ok_join ok_mapD)

lemma merge_map_comm:
  "ok_map m \<Longrightarrow> ok_map n \<Longrightarrow> hm_get (hm_join join bot m n) = hm_get (hm_join join bot n m)"
  by (rule ext) (auto simp: get_merge split: option.splits intro: join_comm ok_mapD)

lemma merge_map_assoc:
  assumes "ok_map m" "ok_map n" "ok_map p"
  shows "hm_get (hm_join join bot (hm_join join bot m n) p) =
         hm_get (hm_join join bot m (hm_join join bot n p))"
  using assms by (intro ext)
    (auto simp: get_merge ok_map_merge split: option.splits intro: join_assoc ok_mapD)

lemma merge_map_idem: "ok_map m \<Longrightarrow> hm_get (hm_join join bot m m) = hm_get m"
  by (rule ext) (auto simp: get_merge split: option.splits intro: join_idem ok_mapD)

lemma merge_map_cong:
  assumes "ok_map m" "ok_map n" "ok_map m'" "ok_map n'"
    and "hm_get m = hm_get m'" "hm_get n = hm_get n'"
  shows "hm_get (hm_join join bot m n) = hm_get (hm_join join bot m' n')"
  using assms by (intro ext) (simp add: get_merge)

end

interpretation max_join: join_op "\<lambda>(_ :: 'k) _. True" max "0 :: u64"
  by unfold_locales (auto simp: max_def)

interpretation union_join: join_op "\<lambda>(_ :: 'k) _. True" "(\<union>)" "{} :: 'a set"
  by unfold_locales auto

section \<open>Quorums\<close>

lemma quorums_intersect:
  assumes "finite E" "S \<subseteq> E" "T \<subseteq> E"
    and "card E div 2 < card S" "card E div 2 < card T"
  shows "\<exists>x. x \<in> S \<and> x \<in> T"
proof (rule ccontr)
  assume "\<not> ?thesis"
  then have "S \<inter> T = {}" by auto
  moreover have "finite S" "finite T" using assms finite_subset by auto
  ultimately have "card S + card T = card (S \<union> T)" by (simp add: card_Un_disjoint)
  also have "\<dots> \<le> card E" using assms by (intro card_mono) auto
  finally show False using assms(4,5) by linarith
qed

end
