(* ===== verification/ReplicatedLog.thy ===== *)
theory ReplicatedLog
  imports Prelude
begin

text \<open>
  The replicated log of \<^verbatim>\<open>crates/aegis-replication/src/log.rs\<close>: a deque of entries, the
  index of its first entry, the commit and applied indices, and the boundary of the last
  snapshot.  Indices and terms are 64-bit words; the locks of the Rust structure are not
  modelled, each operation being one atomic step.  The well-formedness invariant
  \<open>log_wf\<close> says that the deque holds consecutive indices right after the snapshot
  boundary and that no index overflows.  Against the abstract view of a log as a partial
  function from indices to entries (\<open>log_get\<close>), appending is a map update, truncation and
  compaction are map restrictions.
\<close>

section \<open>Data\<close>

type_synonym log_index = u64
type_synonym raft_term = u64

datatype entry_type = Command | ConfigChange | NoOp

record log_entry =
  e_index :: log_index
  e_term :: raft_term
  e_type :: entry_type
  e_data :: bytes
  e_timestamp :: u64

record replicated_log =
  l_entries :: "log_entry list"
  l_first :: log_index
  l_commit :: log_index
  l_applied :: log_index
  l_snap_index :: log_index
  l_snap_term :: raft_term

section \<open>Operations\<close>

text \<open>\<^verbatim>\<open>LogEntry::new\<close> and its three wrappers; the clock reading is an argument.\<close>

definition entry_new :: "u64 \<Rightarrow> log_index \<Rightarrow> raft_term \<Rightarrow> entry_type \<Rightarrow> bytes \<Rightarrow> log_entry" where
  "entry_new now index term ty data =
     \<lparr>e_index = index, e_term = term, e_type = ty, e_data = data, e_timestamp = now\<rparr>"

definition entry_command :: "u64 \<Rightarrow> log_index \<Rightarrow> raft_term \<Rightarrow> bytes \<Rightarrow> log_entry" where
  "entry_command now index term data = entry_new now index term Command data"

definition entry_config_change :: "u64 \<Rightarrow> log_index \<Rightarrow> raft_term \<Rightarrow> bytes \<Rightarrow> log_entry" where
  "entry_config_change now index term data = entry_new now index term ConfigChange data"

definition entry_noop :: "u64 \<Rightarrow> log_index \<Rightarrow> raft_term \<Rightarrow> log_entry" where
  "entry_noop now index term = entry_new now index term NoOp []"

definition log_new :: replicated_log where
  "log_new = \<lparr>l_entries = [], l_first = 1, l_commit = 0, l_applied = 0,
              l_snap_index = 0, l_snap_term = 0\<rparr>"

definition log_append :: "replicated_log \<Rightarrow> log_entry \<Rightarrow> replicated_log \<times> log_index" where
  "log_append l entry = (l\<lparr>l_entries := l_entries l @ [entry]\<rparr>, e_index entry)"

text \<open>The loop of \<^verbatim>\<open>append_entries\<close>: push each entry, remember the last index (0 if none).\<close>

definition log_append_entries ::
    "replicated_log \<Rightarrow> log_entry list \<Rightarrow> replicated_log \<times> log_index" where
  "log_append_entries l new_entries =
     foldl (\<lambda>(l', _) entry. log_append l' entry) (l, 0) new_entries"

definition log_get :: "replicated_log \<Rightarrow> log_index \<Rightarrow> log_entry option" where
  "log_get l index =
     (if index < l_first l then None
      else let offset = unat (index - l_first l)
           in if offset < length (l_entries l) then Some (l_entries l ! offset) else None)"

definition log_get_range ::
    "replicated_log \<Rightarrow> log_index \<Rightarrow> log_index \<Rightarrow> log_entry list" where
  "log_get_range l start stop =
     (if start < l_first l then []
      else let start_offset = start - l_first l;
               end_offset = stop - l_first l
           in take (unat (saturating_sub end_offset start_offset))
                (drop (unat start_offset) (l_entries l)))"

definition last_index :: "replicated_log \<Rightarrow> log_index" where
  "last_index l =
     (if l_entries l = [] then l_snap_index l
      else l_first l + of_nat (length (l_entries l)) - 1)"

definition last_term :: "replicated_log \<Rightarrow> raft_term" where
  "last_term l =
     (if l_entries l \<noteq> [] then e_term (last (l_entries l)) else l_snap_term l)"

definition term_at :: "replicated_log \<Rightarrow> log_index \<Rightarrow> raft_term option" where
  "term_at l index =
     (if index = 0 then Some 0
      else if index = l_snap_index l then Some (l_snap_term l)
      else map_option e_term (log_get l index))"

definition set_commit_index :: "replicated_log \<Rightarrow> log_index \<Rightarrow> replicated_log" where
  "set_commit_index l index = (if index > l_commit l then l\<lparr>l_commit := index\<rparr> else l)"

definition set_last_applied :: "replicated_log \<Rightarrow> log_index \<Rightarrow> replicated_log" where
  "set_last_applied l index = l\<lparr>l_applied := index\<rparr>"

definition has_entries_to_apply :: "replicated_log \<Rightarrow> bool" where
  "has_entries_to_apply l \<longleftrightarrow> l_commit l > l_applied l"

definition next_to_apply :: "replicated_log \<Rightarrow> log_entry option" where
  "next_to_apply l =
     (if l_commit l > l_applied l then log_get l (l_applied l + 1) else None)"

definition truncate_from :: "replicated_log \<Rightarrow> log_index \<Rightarrow> replicated_log" where
  "truncate_from l index =
     (if index < l_first l then l\<lparr>l_entries := []\<rparr>
      else l\<lparr>l_entries := take (unat (index - l_first l)) (l_entries l)\<rparr>)"

definition compact :: "replicated_log \<Rightarrow> log_index \<Rightarrow> raft_term \<Rightarrow> replicated_log" where
  "compact l up_to term =
     (if up_to < l_first l then l
      else let remove_count = unat (up_to - l_first l + 1)
           in l\<lparr>l_entries := drop (min remove_count (length (l_entries l))) (l_entries l),
                l_first := up_to + 1, l_snap_index := up_to, l_snap_term := term\<rparr>)"

definition log_len :: "replicated_log \<Rightarrow> nat" where
  "log_len l = length (l_entries l)"

definition log_is_empty :: "replicated_log \<Rightarrow> bool" where
  "log_is_empty l \<longleftrightarrow> log_len l = 0"

definition is_up_to_date :: "replicated_log \<Rightarrow> log_index \<Rightarrow> raft_term \<Rightarrow> bool" where
  "is_up_to_date l last_log_index last_log_term =
     (let our_last_term = last_term l; our_last_index = last_index l
      in if last_log_term > our_last_term then True
         else if last_log_term = our_last_term \<and> last_log_index \<ge> our_last_index then True
         else False)"

fun find_conflict :: "replicated_log \<Rightarrow> log_entry list \<Rightarrow> log_index option" where
  "find_conflict l [] = None"
| "find_conflict l (entry # es) =
     (case term_at l (e_index entry) of
        Some term \<Rightarrow> if term \<noteq> e_term entry then Some (e_index entry) else find_conflict l es
      | None \<Rightarrow> find_conflict l es)"

section \<open>Well-formedness\<close>

definition consecutive :: "log_index \<Rightarrow> log_entry list \<Rightarrow> bool" where
  "consecutive prev es \<longleftrightarrow>
     unat prev + length es < 2 ^ 64 \<and>
     (\<forall>k < length es. unat (e_index (es ! k)) = unat prev + Suc k)"

definition log_wf :: "replicated_log \<Rightarrow> bool" where
  "log_wf l \<longleftrightarrow>
     unat (l_first l) = unat (l_snap_index l) + 1 \<and>
     consecutive (l_snap_index l) (l_entries l)"

lemma consecutive_Nil [simp]: "consecutive p []"
  using unat_lt_u64 [of p] by (simp add: consecutive_def)

lemma consecutive_snoc:
  "consecutive p (es @ [e]) \<longleftrightarrow>
     consecutive p es \<and> unat p + length es + 1 < 2 ^ 64 \<and>
     unat (e_index e) = unat p + length es + 1"
  by (auto simp: consecutive_def nth_append less_Suc_eq)

lemma consecutive_Cons:
  "consecutive p (e # es) \<longleftrightarrow>
     unat (e_index e) = unat p + 1 \<and> consecutive (e_index e) es"
proof (cases "unat (e_index e) = unat p + 1")
  case True
  then show ?thesis
    by (auto simp: consecutive_def nth_Cons' less_Suc_eq_0_disj)
next
  case False
  then show ?thesis by (auto simp: consecutive_def)
qed

lemma consecutive_take: "consecutive p es \<Longrightarrow> consecutive p (take n es)"
  by (auto simp: consecutive_def)

lemma consecutive_drop:
  "consecutive p es \<Longrightarrow> n \<le> length es \<Longrightarrow> unat q = unat p + n \<Longrightarrow> consecutive q (drop n es)"
  by (auto simp: consecutive_def)

lemma consecutive_index:
  "consecutive p es \<Longrightarrow> e \<in> set es \<Longrightarrow>
     unat p < unat (e_index e) \<and> unat (e_index e) \<le> unat p + length es"
  by (auto simp: consecutive_def in_set_conv_nth)

lemma log_wf_new: "log_wf log_new"
  by (simp add: log_wf_def log_new_def)

lemma unat_last_index: "log_wf l \<Longrightarrow> unat (last_index l) = unat (l_snap_index l) + log_len l"
proof (cases "l_entries l = []")
  case True
  then show "log_wf l \<Longrightarrow> ?thesis" by (simp add: last_index_def log_len_def)
next
  case False
  assume wf: "log_wf l"
  let ?n = "length (l_entries l)"
  have n: "0 < ?n" using False by simp
  have le: "unat (l_snap_index l) + ?n < 2 ^ 64" and
       first: "unat (l_first l) = unat (l_snap_index l) + 1"
    using wf by (auto simp: log_wf_def consecutive_def)
  have "last_index l = l_first l + (of_nat ?n - 1)"
    using False by (simp add: last_index_def)
  also have "of_nat ?n - 1 = (of_nat (?n - 1) :: u64)"
    using n by (cases ?n) simp_all
  finally have eq: "last_index l = l_first l + of_nat (?n - 1)" .
  have off: "unat (of_nat (?n - 1) :: u64) = ?n - 1"
    using le by (intro unat_of_nat_u64) simp
  have "unat (l_first l) + unat (of_nat (?n - 1) :: u64) < 2 ^ 64"
    unfolding off using le first n by linarith
  from unat_add_u64 [OF this] have "unat (last_index l) = unat (l_first l) + (?n - 1)"
    by (simp only: eq off)
  with first n show ?thesis by (simp add: log_len_def)
qed

lemma last_index_less_max: "log_wf l \<Longrightarrow> unat (l_snap_index l) + log_len l < 2 ^ 64"
  by (simp add: log_wf_def consecutive_def log_len_def)

lemma log_get_alt:
  assumes "log_wf l"
  shows "log_get l i =
    (if unat (l_snap_index l) < unat i \<and> unat i \<le> unat (l_snap_index l) + log_len l
     then Some (l_entries l ! (unat i - unat (l_snap_index l) - 1)) else None)"
proof (cases "i < l_first l")
  case True
  with assms show ?thesis
    by (auto simp: log_get_def log_wf_def word_less_nat_alt)
next
  case False
  with assms have "unat (i - l_first l) = unat i - unat (l_snap_index l) - 1"
    and "unat (l_snap_index l) < unat i"
    by (auto simp: log_wf_def word_le_nat_alt not_less unat_diff_u64)
  with False show ?thesis
    by (auto simp: log_get_def log_len_def Let_def)
qed

lemma log_get_None:
  "log_wf l \<Longrightarrow> log_get l i = None \<longleftrightarrow> i \<le> l_snap_index l \<or> last_index l < i"
  by (auto simp: log_get_alt u64_order unat_last_index)

lemma log_get_index: "log_wf l \<Longrightarrow> log_get l i = Some e \<Longrightarrow> e_index e = i"
  by (auto simp: log_get_alt log_wf_def consecutive_def log_len_def u64_eq_iff_unat
      split: if_splits)

lemma log_get_Some_iff:
  assumes "log_wf l"
  shows "log_get l i = Some e \<longleftrightarrow> e \<in> set (l_entries l) \<and> e_index e = i"
proof
  assume "log_get l i = Some e"
  with assms show "e \<in> set (l_entries l) \<and> e_index e = i"
    by (auto simp: log_get_index) (auto simp: log_get_alt log_len_def split: if_splits)
next
  assume "e \<in> set (l_entries l) \<and> e_index e = i"
  then obtain k where k: "k < length (l_entries l)" "l_entries l ! k = e" and i: "e_index e = i"
    by (auto simp: in_set_conv_nth)
  with assms have "unat i = unat (l_snap_index l) + Suc k"
    by (auto simp: log_wf_def consecutive_def)
  with k assms show "log_get l i = Some e" by (simp add: log_get_alt log_len_def)
qed

lemma log_get_cong:
  "l_entries l = l_entries l' \<Longrightarrow> l_first l = l_first l' \<Longrightarrow> log_get l = log_get l'"
  by (simp add: fun_eq_iff log_get_def Let_def)

section \<open>The abstract log: a partial function from indices to entries\<close>

lemma log_wf_append:
  assumes "log_wf l" "last_index l \<noteq> - 1" "e_index e = last_index l + 1"
  shows "log_wf (fst (log_append l e))"
proof -
  have "unat (e_index e) = unat (l_snap_index l) + log_len l + 1"
    using assms unat_not_max_u64 [OF assms(2)]
    by (simp add: unat_Suc_u64 unat_last_index)
  then show ?thesis
    using assms(1) unat_lt_u64 [of "e_index e"]
    by (simp add: log_wf_def log_append_def consecutive_snoc log_len_def)
qed

lemma log_get_append:
  assumes "log_wf l" "last_index l \<noteq> - 1" "e_index e = last_index l + 1"
  shows "log_get (fst (log_append l e)) = (log_get l)(e_index e \<mapsto> e)"
proof
  fix i
  let ?l = "fst (log_append l e)"
  have wf: "log_wf ?l" using assms by (rule log_wf_append)
  have idx: "unat (e_index e) = unat (l_snap_index l) + log_len l + 1"
    using assms unat_not_max_u64 [OF assms(2)]
    by (simp add: unat_Suc_u64 unat_last_index)
  show "log_get ?l i = ((log_get l)(e_index e \<mapsto> e)) i"
    using wf assms(1) idx
    by (auto simp: log_get_alt log_append_def log_len_def nth_append u64_eq_iff_unat)
qed

lemma log_wf_truncate: "log_wf l \<Longrightarrow> log_wf (truncate_from l i)"
  by (auto simp: log_wf_def truncate_from_def consecutive_take)

lemma log_get_truncate:
  assumes "log_wf l"
  shows "log_get (truncate_from l i) = log_get l |` {..<i}"
proof
  fix j
  let ?l = "truncate_from l i"
  have wf: "log_wf ?l" using assms by (rule log_wf_truncate)
  have snap: "l_snap_index ?l = l_snap_index l" by (simp add: truncate_from_def)
  show "log_get ?l j = (log_get l |` {..<i}) j"
  proof (cases "i < l_first l")
    case True
    with assms have "unat i \<le> unat (l_snap_index l)"
      by (simp add: word_less_nat_alt log_wf_def)
    with True wf assms snap show ?thesis
      by (auto simp: log_get_alt restrict_map_def word_less_nat_alt truncate_from_def log_len_def)
  next
    case False
    with assms have "unat (i - l_first l) = unat i - unat (l_snap_index l) - 1"
      "unat (l_snap_index l) < unat i"
      by (auto simp: log_wf_def word_le_nat_alt not_less unat_diff_u64)
    with False wf assms snap show ?thesis
      by (auto simp: log_get_alt restrict_map_def word_less_nat_alt truncate_from_def log_len_def)
  qed
qed

lemma compact_remove_count:
  assumes "log_wf l" "l_first l \<le> up_to"
  shows "unat (up_to - l_first l + 1) = unat up_to - unat (l_snap_index l)"
proof -
  have "unat (up_to - l_first l) = unat up_to - unat (l_snap_index l) - 1"
    and "unat (l_snap_index l) < unat up_to"
    using assms by (auto simp: log_wf_def word_le_nat_alt unat_diff_u64)
  moreover have "unat up_to - unat (l_snap_index l) < 2 ^ 64"
    using unat_lt_u64 [of up_to] by simp
  ultimately show ?thesis by (simp add: unat_Suc_u64)
qed

lemma log_wf_compact:
  assumes "log_wf l" "up_to \<noteq> - 1"
  shows "log_wf (compact l up_to t)"
proof (cases "up_to < l_first l")
  case True
  with assms show ?thesis by (simp add: compact_def)
next
  case False
  let ?n = "unat up_to - unat (l_snap_index l)"
  have "consecutive up_to (drop (min ?n (length (l_entries l))) (l_entries l))"
  proof (cases "?n \<le> length (l_entries l)")
    case True
    with False assms show ?thesis
      by (intro consecutive_drop [where p = "l_snap_index l"])
         (auto simp: log_wf_def word_le_nat_alt not_less)
  next
    case False
    then show ?thesis by simp
  qed
  with False assms unat_not_max_u64 [of up_to] show ?thesis
    by (simp add: log_wf_def compact_def compact_remove_count unat_Suc_u64 not_less)
qed

lemma log_get_compact:
  assumes "log_wf l" "up_to \<noteq> - 1"
  shows "log_get (compact l up_to t) = log_get l |` {up_to<..}"
proof
  fix j
  let ?l = "compact l up_to t"
  have wf: "log_wf ?l" using assms by (rule log_wf_compact)
  show "log_get ?l j = (log_get l |` {up_to<..}) j"
  proof (cases "up_to < l_first l")
    case True
    with assms show ?thesis
      by (auto simp: compact_def log_get_alt restrict_map_def u64_order log_wf_def)
  next
    case False
    let ?n = "unat up_to - unat (l_snap_index l)"
    have ents: "l_entries ?l = drop ?n (l_entries l)" "l_snap_index ?l = up_to"
      using False assms
      by (auto simp: compact_def compact_remove_count not_less min_def Let_def)
    have "unat (l_snap_index l) < unat up_to"
      using False assms by (auto simp: log_wf_def u64_order)
    then show ?thesis
      using wf assms(1)
      by (auto simp: log_get_alt ents log_len_def restrict_map_def u64_order)
  qed
qed

section \<open>The interface the consensus module relies on\<close>

text \<open>
  What Raft needs of its log: an invariant, lookup, the last index, appending one entry
  at the next index, and cutting a suffix off.  The client lemmas say what appending a
  run of consecutive entries and replacing a conflicting suffix do, for every log that
  obeys the laws.
\<close>

locale indexed_log =
  fixes wf :: "'l \<Rightarrow> bool" and get :: "'l \<Rightarrow> u64 \<Rightarrow> log_entry option"
    and lst :: "'l \<Rightarrow> u64" and base :: "'l \<Rightarrow> u64"
    and push :: "'l \<Rightarrow> log_entry \<Rightarrow> 'l" and cut :: "'l \<Rightarrow> u64 \<Rightarrow> 'l"
  assumes wf_push: "wf l \<Longrightarrow> lst l \<noteq> - 1 \<Longrightarrow> e_index e = lst l + 1 \<Longrightarrow> wf (push l e)"
    and get_push: "wf l \<Longrightarrow> lst l \<noteq> - 1 \<Longrightarrow> e_index e = lst l + 1 \<Longrightarrow>
      get (push l e) = (get l)(e_index e \<mapsto> e)"
    and lst_push: "wf l \<Longrightarrow> lst l \<noteq> - 1 \<Longrightarrow> e_index e = lst l + 1 \<Longrightarrow> lst (push l e) = e_index e"
    and wf_cut: "wf l \<Longrightarrow> wf (cut l i)"
    and get_cut: "wf l \<Longrightarrow> get (cut l i) = get l |` {..<i}"
    and lst_cut: "wf l \<Longrightarrow> base l < i \<Longrightarrow> i \<le> lst l \<Longrightarrow> lst (cut l i) = i - 1"
    and get_dom: "wf l \<Longrightarrow> get l i = None \<longleftrightarrow> i \<le> base l \<or> lst l < i"
begin

lemma push_all:
  assumes "wf l" "consecutive (lst l) es"
  shows "wf (foldl push l es)
    \<and> get (foldl push l es) = get l ++ map_of (map (\<lambda>e. (e_index e, e)) es)
    \<and> unat (lst (foldl push l es)) = unat (lst l) + length es"
  using assms
proof (induction es arbitrary: l rule: list.induct)
  case Nil
  then show ?case by simp
next
  case (Cons e es)
  from Cons.prems(2) have e: "unat (e_index e) = unat (lst l) + 1"
    and es: "consecutive (e_index e) es" by (simp_all add: consecutive_Cons)
  have nomax: "lst l \<noteq> - 1"
    using e unat_lt_u64 [of "e_index e"] unat_max_u64 by auto
  have idx: "e_index e = lst l + 1"
    using e unat_not_max_u64 [OF nomax] by (simp add: u64_eq_iff_unat unat_Suc_u64)
  have wf': "wf (push l e)" and get': "get (push l e) = (get l)(e_index e \<mapsto> e)"
    and lst': "lst (push l e) = e_index e"
    using Cons.prems(1) nomax idx by (simp_all add: wf_push get_push lst_push)
  have IH: "wf (foldl push (push l e) es)
    \<and> get (foldl push (push l e) es) =
        get (push l e) ++ map_of (map (\<lambda>e. (e_index e, e)) es)
    \<and> unat (lst (foldl push (push l e) es)) = unat (lst (push l e)) + length es"
    using wf' es lst' by (intro Cons.IH) simp_all
  have fresh: "map_of (map (\<lambda>e. (e_index e, e)) es) (e_index e) = None"
    using es by (auto simp: map_of_eq_None_iff dest: consecutive_index)
  show ?case
    using IH get' lst' e fresh
    by (auto simp: fun_eq_iff map_add_def split: option.splits)
qed

lemma push_all_keeps:
  assumes "wf l" "consecutive (lst l) es" "get l i = Some e"
  shows "get (foldl push l es) i = Some e"
proof -
  have "i \<le> lst l" using assms(1,3) get_dom [of l i] by auto
  then have "map_of (map (\<lambda>e. (e_index e, e)) es) i = None"
    using assms(2) by (auto simp: map_of_eq_None_iff word_le_nat_alt dest: consecutive_index)
  then show ?thesis using push_all [OF assms(1,2)] assms(3) by (simp add: map_add_def)
qed

lemma push_all_adds:
  assumes "wf l" "consecutive (lst l) es" "e \<in> set es"
  shows "get (foldl push l es) (e_index e) = Some e"
proof -
  have "distinct (map e_index es)"
    using assms(2) by (auto simp: distinct_conv_nth consecutive_def u64_eq_iff_unat)
  then have "map_of (map (\<lambda>e. (e_index e, e)) es) (e_index e) = Some e"
    using assms(3) by (intro map_of_is_SomeI) (auto simp: comp_def)
  then show ?thesis using push_all [OF assms(1,2)] by (simp add: map_add_def)
qed

end

text \<open>The replicated log provides the interface.\<close>

lemma last_index_append:
  assumes "log_wf l" "last_index l \<noteq> - 1" "e_index e = last_index l + 1"
  shows "last_index (fst (log_append l e)) = e_index e"
proof -
  have "unat (last_index (fst (log_append l e))) = unat (l_snap_index l) + log_len l + 1"
    using unat_last_index [OF log_wf_append [OF assms]]
    by (simp add: log_append_def log_len_def)
  moreover have "unat (e_index e) = unat (l_snap_index l) + log_len l + 1"
    using assms unat_not_max_u64 [OF assms(2)] by (simp add: unat_Suc_u64 unat_last_index)
  ultimately show ?thesis by (simp add: u64_eq_iff_unat)
qed

lemma last_index_truncate:
  assumes "log_wf l" "l_snap_index l < i" "i \<le> last_index l"
  shows "last_index (truncate_from l i) = i - 1"
proof -
  have first: "unat (l_first l) = unat (l_snap_index l) + 1"
    and i: "unat (l_snap_index l) < unat i" "unat i \<le> unat (l_snap_index l) + log_len l"
    using assms by (auto simp: log_wf_def u64_order unat_last_index)
  then have "\<not> i < l_first l" and off: "unat (i - l_first l) = unat i - unat (l_snap_index l) - 1"
    by (auto simp: u64_order unat_diff_u64)
  then have "unat (last_index (truncate_from l i)) = unat i - 1"
    using i unat_last_index [OF log_wf_truncate [OF assms(1)], of i]
    by (simp add: truncate_from_def log_len_def)
  moreover have "unat (i - 1) = unat i - 1" using i(1) by (simp add: unat_diff_u64 u64_order)
  ultimately show ?thesis by (simp add: u64_eq_iff_unat)
qed

interpretation rlog: indexed_log log_wf log_get last_index l_snap_index
    "\<lambda>l e. fst (log_append l e)" truncate_from
  by unfold_locales
     (auto simp: log_wf_append log_get_append last_index_append log_wf_truncate
        log_get_truncate last_index_truncate log_get_None)

lemma log_append_entries_foldl:
  "fst (log_append_entries l es) = foldl (\<lambda>l e. fst (log_append l e)) l es"
proof -
  have "fst (foldl (\<lambda>(l', _) entry. log_append l' entry) (l, i) es) =
        foldl (\<lambda>l e. fst (log_append l e)) l es" for i
    by (induction es arbitrary: l i) (auto simp: log_append_def)
  then show ?thesis by (simp add: log_append_entries_def)
qed

section \<open>Properties\<close>

text \<open>C21: a well-formed log is a partial function from indices to entries.  Appending the next
  entry is a map update, truncating from an index restricts the map to the smaller indices,
  compacting up to an index restricts it to the larger ones, and all three keep the log
  well formed.\<close>

theorem log_operations_refine:
  assumes "log_wf l"
  shows "(last_index l \<noteq> - 1 \<and> e_index e = last_index l + 1 \<longrightarrow>
      log_wf (fst (log_append l e)) \<and>
      log_get (fst (log_append l e)) = (log_get l)(e_index e \<mapsto> e)) \<and>
    log_wf (truncate_from l i) \<and> log_get (truncate_from l i) = log_get l |` {..<i} \<and>
    (up_to \<noteq> - 1 \<longrightarrow>
      log_wf (compact l up_to t) \<and> log_get (compact l up_to t) = log_get l |` {up_to<..})"
  using assms
  by (simp add: log_wf_append log_get_append log_wf_truncate log_get_truncate
      log_wf_compact log_get_compact)

theorem log_operations_refine_witness:
  "let l = fst (log_append log_new (entry_noop 0 1 7)) in
   log_wf l \<and> log_get (fst (log_append l (entry_noop 0 2 8))) = (log_get l)(2 \<mapsto> entry_noop 0 2 8) \<and>
   log_get (truncate_from l 1) = log_get l |` {..<1} \<and>
   log_get (compact l 1 7) = log_get l |` {1<..}"
proof -
  let ?e = "entry_noop 0 1 7" and ?e2 = "entry_noop 0 2 8"
  let ?l = "fst (log_append log_new ?e)"
  have 1: "log_wf ?l"
    using log_operations_refine [OF log_wf_new, of ?e]
    by (simp add: last_index_def log_new_def entry_noop_def entry_new_def)
  have "log_get (fst (log_append ?l ?e2)) = (log_get ?l)(2 \<mapsto> ?e2)"
    using log_operations_refine [OF 1, of ?e2]
    by (simp add: last_index_def log_append_def log_new_def entry_noop_def entry_new_def)
  moreover have "log_get (compact ?l 1 7) = log_get ?l |` {1<..}"
    using log_operations_refine [OF 1, of ?e 1 1 7] by simp
  moreover have "log_get (truncate_from ?l 1) = log_get ?l |` {..<1}"
    using log_operations_refine [OF 1, of ?e 1 1 7] by blast
  ultimately show ?thesis using 1 by (simp only: Let_def)
qed

text \<open>A suffix of a log may be replaced: appending a run of consecutive entries right after
  the last one keeps every entry the log had, adds exactly the new ones, and moves the last
  index by their number.\<close>

theorem append_entries_run:
  assumes "log_wf l" "consecutive (last_index l) es"
  shows "log_wf (fst (log_append_entries l es))"
    and "log_get (fst (log_append_entries l es)) =
      log_get l ++ map_of (map (\<lambda>e. (e_index e, e)) es)"
    and "unat (last_index (fst (log_append_entries l es))) = unat (last_index l) + length es"
  using rlog.push_all [OF assms] by (simp_all add: log_append_entries_foldl)

theorem append_entries_run_witness:
  "unat (last_index (fst (log_append_entries log_new [entry_noop 0 1 3, entry_noop 0 2 3]))) = 2"
  using append_entries_run(3) [OF log_wf_new, of "[entry_noop 0 1 3, entry_noop 0 2 3]"]
  by (simp add: consecutive_Cons log_new_def last_index_def entry_noop_def entry_new_def)

text \<open>The candidate's log is accepted exactly when its last position is at least the voter's
  in the lexicographic order of (term, index); so of two logs one is always acceptable to
  the other, and acceptance is transitive.\<close>

theorem up_to_date_total_preorder:
  "is_up_to_date l i t \<longleftrightarrow> last_term l < t \<or> last_term l = t \<and> last_index l \<le> i"
  "is_up_to_date l (last_index l') (last_term l') \<or> is_up_to_date l' (last_index l) (last_term l)"
  "is_up_to_date a (last_index b) (last_term b) \<and> is_up_to_date b i t \<longrightarrow> is_up_to_date a i t"
  by (auto simp: is_up_to_date_def Let_def)

theorem up_to_date_total_preorder_witness:
  "is_up_to_date log_new 5 1"
proof -
  let ?b = "fst (log_append log_new (entry_noop 0 1 1))"
  have "is_up_to_date log_new (last_index ?b) (last_term ?b)" "is_up_to_date ?b 5 1"
    by (simp_all add: is_up_to_date_def log_new_def log_append_def last_index_def last_term_def
        entry_noop_def entry_new_def)
  then show ?thesis using up_to_date_total_preorder(3) [of log_new ?b 5 1] by blast
qed

end
