(* ===== verification/StateMachine.thy ===== *)
theory StateMachine
  imports RustText
begin

text \<open>
  The replicated state machine of \<^verbatim>\<open>crates/aegis-replication/src/state.rs\<close>: commands and
  their constructors, the in-memory key-value machine (\<^verbatim>\<open>StateMachine\<close>), the machine
  that delegates to a database (\<^verbatim>\<open>DatabaseStateMachine\<close>, over an arbitrary operation
  handler), and the trait \<^verbatim>\<open>StateMachineBackend\<close> they implement, stated as a locale.
  JSON encoding (\<^verbatim>\<open>serde_json\<close>) is third-party code and is not modelled here; Raft takes
  it as a parameter.
\<close>

section \<open>Commands\<close>

datatype command_type =
    CGet | CSet | CDelete | CompareAndSwap | Increment
  | SqlExecute
  | DocumentInsert | DocumentUpdate | DocumentDelete
  | GraphCreateNode | GraphDeleteNode | GraphCreateEdge | GraphDeleteEdge
  | TransactionBegin | TransactionCommit | TransactionRollback
  | Custom

record command =
  c_type :: command_type
  c_key :: string
  c_value :: "bytes option"
  c_metadata :: "(string, string) hmap"

definition mk_command ::
    "command_type \<Rightarrow> string \<Rightarrow> bytes option \<Rightarrow> (string, string) hmap \<Rightarrow> command" where
  "mk_command t k v m = \<lparr>c_type = t, c_key = k, c_value = v, c_metadata = m\<rparr>"

definition cmd_get :: "string \<Rightarrow> command" where
  "cmd_get key = mk_command CGet key None []"

definition cmd_set :: "string \<Rightarrow> bytes \<Rightarrow> command" where
  "cmd_set key value = mk_command CSet key (Some value) []"

definition cmd_delete :: "string \<Rightarrow> command" where
  "cmd_delete key = mk_command CDelete key None []"

definition cmd_sql :: "string \<Rightarrow> command" where
  "cmd_sql statement = mk_command SqlExecute [] (Some (str_bytes statement)) []"

definition cmd_document_insert :: "string \<Rightarrow> bytes \<Rightarrow> command" where
  "cmd_document_insert collection document = mk_command DocumentInsert collection (Some document) []"

definition cmd_document_update :: "string \<Rightarrow> string \<Rightarrow> bytes \<Rightarrow> command" where
  "cmd_document_update collection doc_id document =
     mk_command DocumentUpdate collection (Some document) (hm_insert ''doc_id'' doc_id [])"

definition cmd_document_delete :: "string \<Rightarrow> string \<Rightarrow> command" where
  "cmd_document_delete collection doc_id =
     mk_command DocumentDelete collection None (hm_insert ''doc_id'' doc_id [])"

definition cmd_graph_create_node :: "string \<Rightarrow> bytes \<Rightarrow> command" where
  "cmd_graph_create_node label properties = mk_command GraphCreateNode label (Some properties) []"

definition cmd_graph_create_edge :: "string \<Rightarrow> string \<Rightarrow> string \<Rightarrow> bytes \<Rightarrow> command" where
  "cmd_graph_create_edge edge_type from_node to_node properties =
     mk_command GraphCreateEdge edge_type (Some properties)
       (hm_insert ''to'' to_node (hm_insert ''from'' from_node []))"

definition cmd_tx_begin :: "u64 \<Rightarrow> command" where
  "cmd_tx_begin tx_id =
     mk_command TransactionBegin [] None (hm_insert ''tx_id'' (u64_to_string tx_id) [])"

definition cmd_tx_commit :: "u64 \<Rightarrow> command" where
  "cmd_tx_commit tx_id =
     mk_command TransactionCommit [] None (hm_insert ''tx_id'' (u64_to_string tx_id) [])"

definition cmd_tx_rollback :: "u64 \<Rightarrow> command" where
  "cmd_tx_rollback tx_id =
     mk_command TransactionRollback [] None (hm_insert ''tx_id'' (u64_to_string tx_id) [])"

definition cmd_is_write :: "command \<Rightarrow> bool" where
  "cmd_is_write c \<longleftrightarrow> c_type c \<noteq> CGet"

definition cmd_sql_statement :: "command \<Rightarrow> string option" where
  "cmd_sql_statement c =
     (if c_type c = SqlExecute
      then (case c_value c of None \<Rightarrow> None | Some v \<Rightarrow> from_utf8 v)
      else None)"

definition cmd_transaction_id :: "command \<Rightarrow> u64 option" where
  "cmd_transaction_id c =
     (case hm_get (c_metadata c) ''tx_id'' of None \<Rightarrow> None | Some s \<Rightarrow> parse_u64 s)"

record command_result =
  r_success :: bool
  r_value :: "bytes option"
  r_error :: "string option"
  r_applied_index :: u64

definition result_success :: "bytes option \<Rightarrow> u64 \<Rightarrow> command_result" where
  "result_success value applied_index =
     \<lparr>r_success = True, r_value = value, r_error = None, r_applied_index = applied_index\<rparr>"

definition result_error :: "string \<Rightarrow> u64 \<Rightarrow> command_result" where
  "result_error message applied_index =
     \<lparr>r_success = False, r_value = None, r_error = Some message, r_applied_index = applied_index\<rparr>"

record snapshot =
  s_data :: "(string, bytes) hmap"
  s_last_applied :: u64
  s_version :: u64

section \<open>The in-memory state machine\<close>

record kv_machine =
  m_data :: "(string, bytes) hmap"
  m_last_applied :: u64
  m_version :: u64

definition kv_new :: kv_machine where
  "kv_new = \<lparr>m_data = [], m_last_applied = 0, m_version = 0\<rparr>"

text \<open>The \<^verbatim>\<open>{:?}\<close> rendering of the command type, used in one error message.\<close>

fun command_type_debug :: "command_type \<Rightarrow> string" where
  "command_type_debug CGet = ''Get''"
| "command_type_debug CSet = ''Set''"
| "command_type_debug CDelete = ''Delete''"
| "command_type_debug CompareAndSwap = ''CompareAndSwap''"
| "command_type_debug Increment = ''Increment''"
| "command_type_debug SqlExecute = ''SqlExecute''"
| "command_type_debug DocumentInsert = ''DocumentInsert''"
| "command_type_debug DocumentUpdate = ''DocumentUpdate''"
| "command_type_debug DocumentDelete = ''DocumentDelete''"
| "command_type_debug GraphCreateNode = ''GraphCreateNode''"
| "command_type_debug GraphDeleteNode = ''GraphDeleteNode''"
| "command_type_debug GraphCreateEdge = ''GraphCreateEdge''"
| "command_type_debug GraphDeleteEdge = ''GraphDeleteEdge''"
| "command_type_debug TransactionBegin = ''TransactionBegin''"
| "command_type_debug TransactionCommit = ''TransactionCommit''"
| "command_type_debug TransactionRollback = ''TransactionRollback''"
| "command_type_debug Custom = ''Custom''"

definition kv_increment_current :: "(string, bytes) hmap \<Rightarrow> string \<Rightarrow> int" where
  "kv_increment_current data key =
     (case Option.bind (Option.bind (hm_get data key) from_utf8) parse_i64 of
        None \<Rightarrow> 0 | Some n \<Rightarrow> n)"

definition apply_kv_command ::
    "command \<Rightarrow> u64 \<Rightarrow> (string, bytes) hmap \<Rightarrow> u64 \<Rightarrow>
     command_result \<times> (string, bytes) hmap \<times> u64" where
  "apply_kv_command command index data version =
     (case c_type command of
        CGet \<Rightarrow> (result_success (hm_get data (c_key command)) index, data, version)
      | CSet \<Rightarrow>
          (case c_value command of
             Some value \<Rightarrow>
               (result_success None index, hm_insert (c_key command) value data, version + 1)
           | None \<Rightarrow> (result_error ''No value provided'' index, data, version))
      | CDelete \<Rightarrow>
          (let old = hm_get data (c_key command)
           in (result_success old index, hm_remove (c_key command) data, version + 1))
      | CompareAndSwap \<Rightarrow>
          (let expected = map_option str_bytes (hm_get (c_metadata command) ''expected'');
               current = hm_get data (c_key command)
           in if current = expected then
                (case c_value command of
                   Some new_value \<Rightarrow>
                     (result_success (Some (str_bytes ''true'')) index,
                      hm_insert (c_key command) new_value data, version + 1)
                 | None \<Rightarrow> (result_error ''No new value provided'' index, data, version))
              else (result_success (Some (str_bytes ''false'')) index, data, version))
      | Increment \<Rightarrow>
          (let current = kv_increment_current data (c_key command);
               new_value = str_bytes (i64_to_string (wrap_i64 (current + 1)))
           in (result_success (Some new_value) index,
               hm_insert (c_key command) new_value data, version + 1))
      | t \<Rightarrow>
          (result_error (''Command type '' @ command_type_debug t
             @ '' not supported by in-memory state machine'') index, data, version))"

definition kv_apply :: "kv_machine \<Rightarrow> command \<Rightarrow> u64 \<Rightarrow> command_result \<times> kv_machine" where
  "kv_apply m command index =
     (if index \<le> m_last_applied m
      then (result_error ''Already applied'' (m_last_applied m), m)
      else case apply_kv_command command index (m_data m) (m_version m) of
        (result, data, version) \<Rightarrow>
          (result, \<lparr>m_data = data, m_last_applied = index, m_version = version\<rparr>))"

definition kv_get :: "kv_machine \<Rightarrow> string \<Rightarrow> bytes option" where
  "kv_get m key = hm_get (m_data m) key"

definition kv_len :: "kv_machine \<Rightarrow> nat" where
  "kv_len m = hm_len (m_data m)"

definition kv_snapshot :: "kv_machine \<Rightarrow> snapshot" where
  "kv_snapshot m = \<lparr>s_data = m_data m, s_last_applied = m_last_applied m, s_version = m_version m\<rparr>"

definition kv_restore :: "kv_machine \<Rightarrow> snapshot \<Rightarrow> kv_machine" where
  "kv_restore m snap =
     m\<lparr>m_data := s_data snap, m_last_applied := s_last_applied snap, m_version := s_version snap\<rparr>"

section \<open>The database-backed state machine\<close>

text \<open>
  \<^verbatim>\<open>DatabaseOperationHandler\<close> is a trait the storage layer implements: a record of
  operations over the handler's own state \<open>'h\<close>; \<open>Inl\<close> is the error string.
\<close>

type_synonym ('h, 'a) handler_call = "(string + 'a) \<times> 'h"

record 'h db_ops =
  execute_sql :: "'h \<Rightarrow> string \<Rightarrow> ('h, bytes) handler_call"
  insert_document :: "'h \<Rightarrow> string \<Rightarrow> bytes \<Rightarrow> ('h, string) handler_call"
  update_document :: "'h \<Rightarrow> string \<Rightarrow> string \<Rightarrow> bytes \<Rightarrow> ('h, unit) handler_call"
  delete_document :: "'h \<Rightarrow> string \<Rightarrow> string \<Rightarrow> ('h, unit) handler_call"
  create_node :: "'h \<Rightarrow> string \<Rightarrow> bytes \<Rightarrow> ('h, string) handler_call"
  delete_node :: "'h \<Rightarrow> string \<Rightarrow> ('h, unit) handler_call"
  create_edge :: "'h \<Rightarrow> string \<Rightarrow> string \<Rightarrow> string \<Rightarrow> bytes \<Rightarrow> ('h, string) handler_call"
  delete_edge :: "'h \<Rightarrow> string \<Rightarrow> ('h, unit) handler_call"
  begin_transaction :: "'h \<Rightarrow> u64 \<Rightarrow> ('h, unit) handler_call"
  commit_transaction :: "'h \<Rightarrow> u64 \<Rightarrow> ('h, unit) handler_call"
  rollback_transaction :: "'h \<Rightarrow> u64 \<Rightarrow> ('h, unit) handler_call"
  create_snapshot :: "'h \<Rightarrow> string + bytes"
  restore_snapshot :: "'h \<Rightarrow> bytes \<Rightarrow> ('h, unit) handler_call"

record 'h db_machine =
  d_handler :: 'h
  d_last_applied :: u64
  d_version :: u64
  d_cache :: "(string, bytes) hmap"

definition db_new :: "'h \<Rightarrow> 'h db_machine" where
  "db_new h = \<lparr>d_handler = h, d_last_applied = 0, d_version = 0, d_cache = []\<rparr>"

text \<open>The \<^verbatim>\<open>match self.handler... { Ok(..) => .., Err(e) => .. }\<close> blocks.\<close>

definition db_call ::
    "'h db_machine \<Rightarrow> ('a \<Rightarrow> bytes option) \<Rightarrow> ('h, 'a) handler_call \<Rightarrow> u64 \<Rightarrow>
     command_result \<times> 'h db_machine" where
  "db_call s f call index =
     ((case fst call of Inl e \<Rightarrow> result_error e index | Inr r \<Rightarrow> result_success (f r) index),
      s\<lparr>d_handler := snd call\<rparr>)"

definition apply_database_command ::
    "'h db_ops \<Rightarrow> 'h db_machine \<Rightarrow> command \<Rightarrow> u64 \<Rightarrow> command_result \<times> 'h db_machine" where
  "apply_database_command ops s command index =
     (let h = d_handler s; fail = (\<lambda>msg. (result_error msg index, s)) in
      case c_type command of
        CGet \<Rightarrow> (result_success (hm_get (d_cache s) (c_key command)) index, s)
      | CSet \<Rightarrow>
          (case c_value command of
             Some value \<Rightarrow>
               (result_success None index,
                s\<lparr>d_cache := hm_insert (c_key command) value (d_cache s)\<rparr>)
           | None \<Rightarrow> fail ''No value provided'')
      | CDelete \<Rightarrow>
          (result_success (hm_get (d_cache s) (c_key command)) index,
           s\<lparr>d_cache := hm_remove (c_key command) (d_cache s)\<rparr>)
      | SqlExecute \<Rightarrow>
          (case cmd_sql_statement command of
             Some sql \<Rightarrow> db_call s Some (execute_sql ops h sql) index
           | None \<Rightarrow> fail ''No SQL statement provided'')
      | DocumentInsert \<Rightarrow>
          (case c_value command of
             Some doc \<Rightarrow>
               db_call s (\<lambda>doc_id. Some (str_bytes doc_id))
                 (insert_document ops h (c_key command) doc) index
           | None \<Rightarrow> fail ''No document provided'')
      | DocumentUpdate \<Rightarrow>
          (case (hm_get (c_metadata command) ''doc_id'', c_value command) of
             (Some doc_id, Some doc) \<Rightarrow>
               db_call s (\<lambda>_. None) (update_document ops h (c_key command) doc_id doc) index
           | _ \<Rightarrow> fail ''Missing doc_id or document'')
      | DocumentDelete \<Rightarrow>
          (case hm_get (c_metadata command) ''doc_id'' of
             Some doc_id \<Rightarrow> db_call s (\<lambda>_. None) (delete_document ops h (c_key command) doc_id) index
           | None \<Rightarrow> fail ''Missing doc_id'')
      | GraphCreateNode \<Rightarrow>
          (case c_value command of
             Some props \<Rightarrow>
               db_call s (\<lambda>node_id. Some (str_bytes node_id))
                 (create_node ops h (c_key command) props) index
           | None \<Rightarrow> fail ''No properties provided'')
      | GraphDeleteNode \<Rightarrow> db_call s (\<lambda>_. None) (delete_node ops h (c_key command)) index
      | GraphCreateEdge \<Rightarrow>
          (case (hm_get (c_metadata command) ''from'', hm_get (c_metadata command) ''to'',
                 c_value command) of
             (Some from_node, Some to_node, Some props) \<Rightarrow>
               db_call s (\<lambda>edge_id. Some (str_bytes edge_id))
                 (create_edge ops h (c_key command) from_node to_node props) index
           | _ \<Rightarrow> fail ''Missing from, to, or properties'')
      | GraphDeleteEdge \<Rightarrow> db_call s (\<lambda>_. None) (delete_edge ops h (c_key command)) index
      | TransactionBegin \<Rightarrow>
          (case cmd_transaction_id command of
             Some tx_id \<Rightarrow> db_call s (\<lambda>_. None) (begin_transaction ops h tx_id) index
           | None \<Rightarrow> fail ''Missing transaction ID'')
      | TransactionCommit \<Rightarrow>
          (case cmd_transaction_id command of
             Some tx_id \<Rightarrow> db_call s (\<lambda>_. None) (commit_transaction ops h tx_id) index
           | None \<Rightarrow> fail ''Missing transaction ID'')
      | TransactionRollback \<Rightarrow>
          (case cmd_transaction_id command of
             Some tx_id \<Rightarrow> db_call s (\<lambda>_. None) (rollback_transaction ops h tx_id) index
           | None \<Rightarrow> fail ''Missing transaction ID'')
      | CompareAndSwap \<Rightarrow> fail ''Use key-value state machine for these operations''
      | Increment \<Rightarrow> fail ''Use key-value state machine for these operations''
      | Custom \<Rightarrow> fail ''Custom commands not handled'')"

definition db_apply ::
    "'h db_ops \<Rightarrow> 'h db_machine \<Rightarrow> command \<Rightarrow> u64 \<Rightarrow> command_result \<times> 'h db_machine" where
  "db_apply ops s command index =
     (if index \<le> d_last_applied s
      then (result_error ''Already applied'' (d_last_applied s), s)
      else case apply_database_command ops s command index of
        (result, s') \<Rightarrow>
          (result, s'\<lparr>d_version := (if r_success result then d_version s' + 1 else d_version s'),
                      d_last_applied := index\<rparr>))"

definition db_get :: "'h db_machine \<Rightarrow> string \<Rightarrow> bytes option" where
  "db_get s key = hm_get (d_cache s) key"

definition db_len :: "'h db_machine \<Rightarrow> nat" where
  "db_len s = hm_len (d_cache s)"

abbreviation db_snapshot_key :: string where
  "db_snapshot_key \<equiv> ''__db_snapshot__''"

definition db_snapshot :: "'h db_ops \<Rightarrow> 'h db_machine \<Rightarrow> snapshot" where
  "db_snapshot ops s =
     \<lparr>s_data = (case create_snapshot ops (d_handler s) of
          Inr db_snap \<Rightarrow> hm_insert db_snapshot_key db_snap (d_cache s)
        | Inl _ \<Rightarrow> d_cache s),
      s_last_applied = d_last_applied s, s_version = d_version s\<rparr>"

definition db_restore :: "'h db_ops \<Rightarrow> 'h db_machine \<Rightarrow> snapshot \<Rightarrow> 'h db_machine" where
  "db_restore ops s snap =
     \<lparr>d_handler = (case hm_get (s_data snap) db_snapshot_key of
          Some db_snap \<Rightarrow> snd (restore_snapshot ops (d_handler s) db_snap)
        | None \<Rightarrow> d_handler s),
      d_last_applied = s_last_applied snap,
      d_version = s_version snap,
      d_cache = filter (\<lambda>(k, _). k \<noteq> db_snapshot_key) (s_data snap)\<rparr>"

text \<open>\<^verbatim>\<open>NoOpDatabaseHandler\<close>: every call succeeds with a fixed answer.\<close>

definition noop_db_ops :: "unit db_ops" where
  "noop_db_ops =
     \<lparr>execute_sql = (\<lambda>h _. (Inr (str_bytes ''OK''), h)),
      insert_document = (\<lambda>h _ _. (Inr ''doc-001'', h)),
      update_document = (\<lambda>h _ _ _. (Inr (), h)),
      delete_document = (\<lambda>h _ _. (Inr (), h)),
      create_node = (\<lambda>h _ _. (Inr ''node-001'', h)),
      delete_node = (\<lambda>h _. (Inr (), h)),
      create_edge = (\<lambda>h _ _ _ _. (Inr ''edge-001'', h)),
      delete_edge = (\<lambda>h _. (Inr (), h)),
      begin_transaction = (\<lambda>h _. (Inr (), h)),
      commit_transaction = (\<lambda>h _. (Inr (), h)),
      rollback_transaction = (\<lambda>h _. (Inr (), h)),
      create_snapshot = (\<lambda>h. Inr []),
      restore_snapshot = (\<lambda>h _. (Inr (), h))\<rparr>"

section \<open>The backend interface\<close>

text \<open>
  \<^verbatim>\<open>StateMachineBackend\<close> as Raft relies on it: an index at or below the last applied one
  is refused without effect, a larger index becomes the last applied one, and a machine
  restored from a snapshot answers every read of a \<open>visible\<close> key, and reports the same
  position and version, as the machine the snapshot was taken of.
\<close>

locale state_machine_backend =
  fixes apply_cmd :: "'s \<Rightarrow> command \<Rightarrow> u64 \<Rightarrow> command_result \<times> 's"
    and get :: "'s \<Rightarrow> string \<Rightarrow> bytes option"
    and last_applied :: "'s \<Rightarrow> u64" and version :: "'s \<Rightarrow> u64"
    and snap :: "'s \<Rightarrow> snapshot" and restore :: "'s \<Rightarrow> snapshot \<Rightarrow> 's"
    and ok :: "'s \<Rightarrow> bool" and visible :: "string \<Rightarrow> bool"
  assumes replay: "i \<le> last_applied s \<Longrightarrow>
      apply_cmd s c i = (result_error ''Already applied'' (last_applied s), s)"
    and applied: "last_applied s < i \<Longrightarrow> last_applied (snd (apply_cmd s c i)) = i"
    and ok_apply: "ok s \<Longrightarrow> ok (snd (apply_cmd s c i))"
    and ok_restore: "ok s \<Longrightarrow> ok (restore t (snap s))"
    and restore_get: "ok s \<Longrightarrow> visible k \<Longrightarrow> get (restore t (snap s)) k = get s k"
    and restore_applied: "last_applied (restore t (snap s)) = last_applied s"
    and restore_version: "version (restore t (snap s)) = version s"
begin

definition apply_all :: "'s \<Rightarrow> (command \<times> u64) list \<Rightarrow> 's" where
  "apply_all s cs = foldl (\<lambda>s (c, i). snd (apply_cmd s c i)) s cs"

lemma apply_all_simps [simp]:
  "apply_all s [] = s"
  "apply_all s ((c, i) # cs) = apply_all (snd (apply_cmd s c i)) cs"
  by (simp_all add: apply_all_def)

lemma last_applied_apply: "last_applied (snd (apply_cmd s c i)) = max (last_applied s) i"
  by (cases "i \<le> last_applied s") (auto simp: replay applied max_def not_le)

lemma last_applied_all:
  "last_applied (apply_all s cs) = foldl max (last_applied s) (map snd cs)"
  by (induction cs arbitrary: s) (auto simp: last_applied_apply)

lemma apply_all_stale:
  "\<forall>(c, i) \<in> set cs. i \<le> last_applied s \<Longrightarrow> apply_all s cs = s"
  by (induction cs) (auto simp: replay)

lemma foldl_max_ge: "i \<in> set xs \<or> i \<le> a \<Longrightarrow> (i :: u64) \<le> foldl max a xs"
proof (induction xs arbitrary: a)
  case Nil
  then show ?case by simp
next
  case (Cons x xs)
  show ?case
  proof (cases "i \<in> set xs")
    case True
    then show ?thesis using Cons.IH [of "max a x"] by simp
  next
    case False
    with Cons.prems have "i \<le> max a x" by (auto simp: le_max_iff_disj)
    then show ?thesis using Cons.IH [of "max a x"] by simp
  qed
qed

lemma apply_all_replay:
  assumes "set ds \<subseteq> set cs"
  shows "apply_all s (cs @ ds) = apply_all s cs"
proof -
  have "\<forall>(c, i) \<in> set ds. i \<le> last_applied (apply_all s cs)"
    using assms by (force simp: last_applied_all intro: foldl_max_ge)
  then have "apply_all (apply_all s cs) ds = apply_all s cs"
    by (rule apply_all_stale)
  then show ?thesis by (simp add: apply_all_def)
qed

lemma ok_apply_all: "ok s \<Longrightarrow> ok (apply_all s cs)"
proof (induction cs arbitrary: s)
  case (Cons ci cs)
  then show ?case using ok_apply [of s "fst ci" "snd ci"] by (cases ci) simp
qed simp

lemma restore_after_run:
  assumes "ok s" "visible k"
  shows "get (restore t (snap (apply_all s cs))) k = get (apply_all s cs) k"
    and "last_applied (restore t (snap (apply_all s cs))) =
         foldl max (last_applied s) (map snd cs)"
  using assms by (simp_all add: restore_get ok_apply_all restore_applied last_applied_all)

end

subsection \<open>The in-memory machine provides it\<close>

lemma kv_restore_snapshot [simp]: "kv_restore t (kv_snapshot m) = m"
  by (simp add: kv_restore_def kv_snapshot_def)

interpretation kv: state_machine_backend kv_apply kv_get m_last_applied m_version
    kv_snapshot kv_restore "\<lambda>_. True" "\<lambda>_. True"
  by unfold_locales (auto simp: kv_apply_def split: prod.splits)

subsection \<open>The database-backed machine provides it\<close>

lemma hm_ok_db_command:
  "hm_ok (d_cache s) \<Longrightarrow> hm_ok (d_cache (snd (apply_database_command ops s c i)))"
  by (auto simp: apply_database_command_def db_call_def Let_def intro: hm_intros
      split: command_type.splits option.splits)

lemma db_command_last_applied:
  "d_last_applied (snd (apply_database_command ops s c i)) = d_last_applied s"
  by (auto simp: apply_database_command_def db_call_def Let_def
      split: command_type.splits option.splits)

interpretation db: state_machine_backend "db_apply ops" db_get d_last_applied d_version
    "db_snapshot ops" "db_restore ops" "\<lambda>s. hm_ok (d_cache s)" "\<lambda>k. k \<noteq> db_snapshot_key"
  for ops :: "'h db_ops"
proof unfold_locales
  fix s :: "'h db_machine" and c i
  show "hm_ok (d_cache s) \<Longrightarrow> hm_ok (d_cache (snd (db_apply ops s c i)))"
    using hm_ok_db_command [of s ops c i]
    by (auto simp: db_apply_def split: prod.splits)
next
  fix s t :: "'h db_machine" and k
  show "hm_ok (d_cache s) \<Longrightarrow> k \<noteq> db_snapshot_key \<Longrightarrow>
      db_get (db_restore ops t (db_snapshot ops s)) k = db_get s k"
    by (auto simp: db_get_def db_restore_def db_snapshot_def hm_simps hm_intros
        split: sum.splits option.splits)
next
  fix s t :: "'h db_machine"
  show "hm_ok (d_cache s) \<Longrightarrow> hm_ok (d_cache (db_restore ops t (db_snapshot ops s)))"
    by (auto simp: db_restore_def db_snapshot_def hm_intros split: sum.splits)
qed (auto simp: db_apply_def db_restore_def db_snapshot_def split: prod.splits)

section \<open>What the key-value machine computes\<close>

text \<open>
  The abstract machine is a map from keys to byte strings; \<open>kv_spec\<close> is what each command
  means on it.  The concrete machine implements it.
\<close>

definition kv_spec :: "command \<Rightarrow> (string \<rightharpoonup> bytes) \<Rightarrow> (string \<rightharpoonup> bytes)" where
  "kv_spec c m =
     (case (c_type c, c_value c) of
        (CSet, Some v) \<Rightarrow> m(c_key c \<mapsto> v)
      | (CDelete, _) \<Rightarrow> m(c_key c := None)
      | (CompareAndSwap, Some v) \<Rightarrow>
          if m (c_key c) = map_option str_bytes (hm_get (c_metadata c) ''expected'')
          then m(c_key c \<mapsto> v) else m
      | (Increment, _) \<Rightarrow>
          m(c_key c \<mapsto> str_bytes (i64_to_string (wrap_i64 (1 +
              (case Option.bind (Option.bind (m (c_key c)) from_utf8) parse_i64 of
                 None \<Rightarrow> 0 | Some n \<Rightarrow> n)))))
      | _ \<Rightarrow> m)"

lemma apply_kv_command_refines:
  "hm_get (fst (snd (apply_kv_command c i data v))) = kv_spec c (hm_get data)"
  by (auto simp: apply_kv_command_def kv_spec_def kv_increment_current_def Let_def fun_eq_iff
      hm_simps add.commute split: command_type.splits option.splits)

lemma kv_apply_refines:
  "kv_get (snd (kv_apply m c i)) =
     (if m_last_applied m < i then kv_spec c (kv_get m) else kv_get m)"
proof -
  have "hm_get (fst (snd (apply_kv_command c i (m_data m) (m_version m)))) =
        kv_spec c (hm_get (m_data m))"
    by (rule apply_kv_command_refines)
  moreover have "kv_get m = hm_get (m_data m)" for m by (rule ext) (simp add: kv_get_def)
  ultimately show ?thesis by (auto simp: kv_apply_def split: prod.splits)
qed

lemma str_bytes_ascii: "\<forall>c \<in> set s. of_char c < (128 :: nat) \<Longrightarrow> utf8_valid (str_bytes s)"
  by (rule utf8_valid_ascii)
     (auto simp: str_bytes_def word_less_nat_alt unat_of_nat)

lemma nat_to_string_ascii: "\<forall>c \<in> set (nat_to_string n). of_char c < (128 :: nat)"
proof (induction n rule: nat_to_string.induct)
  case (1 n)
  then show ?case
    by (cases "n < 10") (auto simp: nat_to_string.simps [of n] digit_char_def)
qed

lemma from_utf8_i64 [simp]: "from_utf8 (str_bytes (i64_to_string i)) = Some (i64_to_string i)"
proof -
  have "\<forall>c \<in> set (i64_to_string i). of_char c < (128 :: nat)"
    using nat_to_string_ascii by (auto simp: i64_to_string_def)
  then show ?thesis by (simp add: from_utf8_def str_bytes_ascii)
qed

section \<open>Properties\<close>

lemma kv_run:
  assumes "sorted_wrt (<) (map snd cs)" "\<forall>(c, i) \<in> set cs. m_last_applied m < i"
  shows "kv_get (kv.apply_all m cs) = foldl (\<lambda>t (c, _). kv_spec c t) (kv_get m) cs"
  using assms
proof (induction cs arbitrary: m)
  case Nil
  then show ?case by simp
next
  case (Cons ci cs)
  obtain c i where ci: "ci = (c, i)" by force
  have "m_last_applied (snd (kv_apply m c i)) = i"
    using Cons.prems(2) by (intro kv.applied) (simp add: ci)
  then show ?case
    using Cons.IH [of "snd (kv_apply m c i)"] Cons.prems by (auto simp: ci kv_apply_refines case_prod_beta)
qed

text \<open>Running any sequence of commands, delivered in log order past the last applied index,
  on the hash-map machine computes the composition of their meanings on the abstract map.\<close>

theorem kv_run_refines:
  assumes "sorted_wrt (<) (map snd cs)" "\<forall>(c, i) \<in> set cs. m_last_applied m < i"
  shows "kv_get (foldl (\<lambda>s (c, i). snd (kv_apply s c i)) m cs) =
    foldl (\<lambda>t (c, _). kv_spec c t) (kv_get m) cs"
  using kv_run [OF assms] by (simp add: kv.apply_all_def)

theorem kv_run_refines_witness:
  "kv_get (foldl (\<lambda>s (c, i). snd (kv_apply s c i)) kv_new
     [(cmd_set ''a'' [1], 1), (cmd_set ''b'' [2], 2), (cmd_delete ''a'', 5)]) = [''b'' \<mapsto> [2]]"
  by (subst kv_run_refines)
     (auto simp: kv_new_def kv_get_def kv_spec_def cmd_set_def cmd_delete_def mk_command_def fun_eq_iff)

text \<open>A command at an index already applied is refused and changes nothing, so delivering
  commands of a run again, in any order and number, leaves the machine as it was; and a
  machine restored from a snapshot of it refuses them as well.  This holds of both
  machines; it is stated for the one backed by a database, over any operation handler.\<close>

theorem db_exactly_once:
  assumes "set ds \<subseteq> set cs"
  shows "foldl (\<lambda>s (c, i). snd (db_apply ops s c i)) m (cs @ ds) =
      foldl (\<lambda>s (c, i). snd (db_apply ops s c i)) m cs \<and>
    d_last_applied (db_restore ops t (db_snapshot ops
        (foldl (\<lambda>s (c, i). snd (db_apply ops s c i)) m (cs @ ds)))) =
      foldl max (d_last_applied m) (map snd cs)"
  using db.apply_all_replay [OF assms, of ops m] db.last_applied_all [of ops m cs]
  by (simp add: db.apply_all_def db.restore_applied)

theorem db_exactly_once_witness:
  "let cs = [(cmd_set ''a'' [1], 1), (cmd_sql ''x'', 2)];
       run = \<lambda>s cs. foldl (\<lambda>s (c, i). snd (db_apply noop_db_ops s c i)) s cs in
   run (db_new ()) (cs @ [(cmd_set ''a'' [1], 1)]) = run (db_new ()) cs"
  using db_exactly_once [of "[(cmd_set ''a'' [1], 1)]" "[(cmd_set ''a'' [1], 1), (cmd_sql ''x'', 2)]"
      noop_db_ops "db_new ()"]
  by (simp only: Let_def) simp

text \<open>Taking a snapshot and restoring it into any machine reproduces the state.  The key-value
  machine is reproduced exactly.  The database-backed machine answers every key but the
  reserved one as before, keeps position and version, and hands its handler exactly the
  bytes the handler's own snapshot produced.\<close>

theorem snapshot_restore_roundtrip:
  fixes u
  assumes "hm_ok (d_cache s)" "k \<noteq> db_snapshot_key" "create_snapshot ops (d_handler s) = Inr b"
  defines "s' \<equiv> db_restore ops u (db_snapshot ops s)"
  shows "kv_restore t (kv_snapshot m) = m \<and>
    db_get s' k = db_get s k \<and> d_last_applied s' = d_last_applied s \<and>
    d_version s' = d_version s \<and> d_handler s' = snd (restore_snapshot ops (d_handler u) b)"
proof -
  have "d_handler s' = snd (restore_snapshot ops (d_handler u) b)"
    using assms(3) by (simp add: s'_def db_restore_def db_snapshot_def hm_simps)
  then show ?thesis
    using db.restore_get [OF assms(1,2), of ops u]
    by (simp add: s'_def db.restore_applied db.restore_version)
qed

theorem snapshot_restore_roundtrip_witness:
  "let s = snd (db_apply noop_db_ops (db_new ()) (cmd_set ''a'' [7]) 4) in
   db_get (db_restore noop_db_ops (db_new ()) (db_snapshot noop_db_ops s)) ''a'' = Some [7]"
  using snapshot_restore_roundtrip
    [of "snd (db_apply noop_db_ops (db_new ()) (cmd_set ''a'' [7]) 4)" "''a''" noop_db_ops "[]" kv_new kv_new "db_new ()"]
  by (simp add: Let_def db_apply_def apply_database_command_def cmd_set_def mk_command_def
      db_new_def noop_db_ops_def result_success_def db_get_def hm_ok_def)

lemma increment_step:
  assumes "m_last_applied m < i"
  shows "m_data (snd (kv_apply m (mk_command Increment k None []) i)) =
      hm_insert k (str_bytes (i64_to_string (wrap_i64 (kv_increment_current (m_data m) k + 1))))
        (m_data m)"
    and "m_last_applied (snd (kv_apply m (mk_command Increment k None []) i)) = i"
  using assms by (auto simp: kv_apply_def apply_kv_command_def mk_command_def Let_def)

lemma increment_run:
  assumes "kv_increment_current (m_data m) k = v" "0 \<le> v" "v + int (length idx) < 2 ^ 63"
    and "sorted_wrt (<) (m_last_applied m # idx)" "idx \<noteq> []"
  shows "kv_get (foldl (\<lambda>s i. snd (kv_apply s (mk_command Increment k None []) i)) m idx) k =
    Some (str_bytes (i64_to_string (v + int (length idx))))"
  using assms
proof (induction idx arbitrary: m v)
  case (Cons i idx)
  let ?m = "snd (kv_apply m (mk_command Increment k None []) i)"
  have lt: "m_last_applied m < i" using Cons.prems by simp
  have w: "wrap_i64 (v + 1) = v + 1" using Cons.prems by (intro wrap_i64_id) auto
  have g: "hm_get (m_data ?m) k = Some (str_bytes (i64_to_string (v + 1)))"
    using increment_step(1) [OF lt] Cons.prems(1) w by (simp add: hm_simps)
  show ?case
  proof (cases "idx = []")
    case True
    then show ?thesis using g by (simp add: kv_get_def add.commute)
  next
    case False
    have cur: "kv_increment_current (m_data ?m) k = v + 1"
      using g Cons.prems by (simp add: kv_increment_current_def)
    show ?thesis
      using Cons.prems False increment_step(2) [OF lt] Cons.IH [OF cur] by (simp add: add.assoc)
  qed
qed simp

text \<open>\<^verbatim>\<open>Increment\<close> counts: on a key that is absent (or holds no number) the \<open>n\<close>-th
  increment stores the decimal numeral of \<open>n\<close>; the stored text is read back as the number
  it denotes, up to the largest \<^verbatim>\<open>i64\<close>.\<close>

theorem increment_counts:
  assumes "kv_increment_current (m_data m) k = 0" "sorted_wrt (<) (m_last_applied m # idx)"
    and "idx \<noteq> []" "length idx < 2 ^ 63"
  shows "kv_get (foldl (\<lambda>s i. snd (kv_apply s (mk_command Increment k None []) i)) m idx) k =
    Some (str_bytes (i64_to_string (int (length idx))))"
  using increment_run [of m k 0 idx] assms by simp

theorem increment_counts_witness:
  "kv_get (foldl (\<lambda>s i. snd (kv_apply s (mk_command Increment ''n'' None []) i)) kv_new [1, 2, 9]) ''n'' =
     Some (str_bytes (i64_to_string 3))"
  using increment_counts [of kv_new "''n''" "[1, 2, 9]"]
  by (simp add: kv_new_def kv_increment_current_def)

text \<open>A transaction command carries its identifier as decimal text and the machine reads back
  the same 64-bit number: a commit at a fresh index calls the handler's commit with that
  identifier, reports the handler's verdict, and counts a version only on success.\<close>

theorem db_commit_dispatch:
  assumes "d_last_applied s < i"
  shows "let r = commit_transaction ops (d_handler s) t; s' = snd (db_apply ops s (cmd_tx_commit t) i)
    in cmd_transaction_id (cmd_tx_commit t) = Some t \<and> d_handler s' = snd r \<and>
       d_last_applied s' = i \<and> d_cache s' = d_cache s \<and>
       (case fst r of
          Inl e \<Rightarrow> fst (db_apply ops s (cmd_tx_commit t) i) = result_error e i \<and>
            d_version s' = d_version s
        | Inr _ \<Rightarrow> fst (db_apply ops s (cmd_tx_commit t) i) = result_success None i \<and>
            d_version s' = d_version s + 1)"
proof -
  have tid: "cmd_transaction_id (cmd_tx_commit t) = Some t"
    by (simp add: cmd_transaction_id_def cmd_tx_commit_def mk_command_def)
  have ty: "c_type (cmd_tx_commit t) = TransactionCommit"
    by (simp add: cmd_tx_commit_def mk_command_def)
  show ?thesis
    using assms
    by (auto simp: Let_def tid ty db_apply_def apply_database_command_def db_call_def
        result_error_def result_success_def split: sum.splits)
qed

theorem db_commit_dispatch_witness:
  "d_version (snd (db_apply noop_db_ops (db_new ()) (cmd_tx_commit 42) 1)) = 1"
  using db_commit_dispatch [of "db_new ()" 1 noop_db_ops 42]
  by (simp add: db_new_def Let_def noop_db_ops_def)

end
