(* ===== verification/RaftNode.thy ===== *)
theory RaftNode
  imports ReplicatedLog StateMachine
begin

text \<open>
  One node of the Raft cluster, \<^verbatim>\<open>crates/aegis-replication/src/raft.rs\<close>: its state as a
  record, and every operation of \<^verbatim>\<open>RaftNode\<close> as a function from the node (and a clock
  reading where the code calls \<^verbatim>\<open>Instant::now()\<close>) to the new node and the returned value.
  The read-write locks of the structure are not modelled: an operation is one atomic step.
  The state machine is any implementation of \<^verbatim>\<open>StateMachineBackend\<close> (a record of its
  operations over its state \<open>'sm\<close>); the JSON codec of commands and snapshots and the CRC-32
  function are third-party code and come as the record \<open>codec\<close>.  Hash sets are lists
  without repetition.
\<close>

section \<open>Data\<close>

datatype node_role = Follower | Candidate | Leader

text \<open>Durations and instants are milliseconds of a monotonic clock.\<close>

record raft_config =
  election_timeout_min :: nat
  election_timeout_max :: nat
  heartbeat_interval :: nat
  max_entries_per_request :: usize
  snapshot_threshold :: u64
  lease_duration :: nat

definition raft_config_default :: raft_config where
  "raft_config_default =
     \<lparr>election_timeout_min = 150, election_timeout_max = 300, heartbeat_interval = 50,
      max_entries_per_request = 100, snapshot_threshold = 10000, lease_duration = 200\<rparr>"

definition with_election_timeout :: "raft_config \<Rightarrow> nat \<Rightarrow> nat \<Rightarrow> raft_config" where
  "with_election_timeout c mn mx = c\<lparr>election_timeout_min := mn, election_timeout_max := mx\<rparr>"

definition with_heartbeat_interval :: "raft_config \<Rightarrow> nat \<Rightarrow> raft_config" where
  "with_heartbeat_interval c i = c\<lparr>heartbeat_interval := i\<rparr>"

record raft_state =
  current_term :: raft_term
  voted_for :: "node_id option"
  commit_index :: log_index
  rs_last_applied :: log_index

definition raft_state_default :: raft_state where
  "raft_state_default =
     \<lparr>current_term = 0, voted_for = None, commit_index = 0, rs_last_applied = 0\<rparr>"

record vote_request =
  vq_term :: raft_term
  vq_candidate :: node_id
  vq_last_log_index :: log_index
  vq_last_log_term :: raft_term

record vote_response =
  vr_term :: raft_term
  vr_granted :: bool
  vr_voter :: node_id

record append_request =
  aq_term :: raft_term
  aq_leader :: node_id
  aq_prev_log_index :: log_index
  aq_prev_log_term :: raft_term
  aq_entries :: "log_entry list"
  aq_leader_commit :: log_index

record append_response =
  ar_term :: raft_term
  ar_success :: bool
  ar_match_index :: log_index
  ar_conflict_index :: "log_index option"
  ar_conflict_term :: "raft_term option"

record install_request =
  iq_term :: raft_term
  iq_leader :: node_id
  iq_last_index :: log_index
  iq_last_term :: raft_term
  iq_offset :: u64
  iq_data :: bytes
  iq_done :: bool
  iq_checksum :: "u32 option"

record install_response =
  ir_term :: raft_term

record snapshot_metadata =
  sm_last_index :: log_index
  sm_last_term :: raft_term
  sm_size :: u64

record pending_snapshot =
  p_metadata :: snapshot_metadata
  p_data :: bytes
  p_offset :: u64

record 'sm raft_node =
  n_id :: node_id
  n_config :: raft_config
  n_state :: raft_state
  n_role :: node_role
  n_log :: replicated_log
  n_sm :: 'sm
  n_peers :: "node_id list"
  n_leader :: "node_id option"
  n_next :: "(node_id, log_index) hmap"
  n_match :: "(node_id, log_index) hmap"
  n_heartbeat :: nat
  n_votes :: "node_id list"
  n_snap_meta :: "snapshot_metadata option"
  n_pending :: "pending_snapshot option"
  n_lease :: "nat option"

text \<open>The operations of the state machine trait that Raft calls.\<close>

record 'sm backend =
  b_apply :: "'sm \<Rightarrow> command \<Rightarrow> u64 \<Rightarrow> command_result \<times> 'sm"
  b_get :: "'sm \<Rightarrow> string \<Rightarrow> bytes option"
  b_snapshot :: "'sm \<Rightarrow> snapshot"
  b_restore :: "'sm \<Rightarrow> snapshot \<Rightarrow> 'sm"

text \<open>Third-party functions: \<^verbatim>\<open>serde_json\<close> and \<^verbatim>\<open>crc32fast::hash\<close>.\<close>

record codec =
  cmd_encode :: "command \<Rightarrow> bytes"
  cmd_decode :: "bytes \<Rightarrow> command option"
  snap_encode :: "snapshot \<Rightarrow> bytes"
  snap_decode :: "bytes \<Rightarrow> snapshot option"
  crc32 :: "bytes \<Rightarrow> u32"

text \<open>A call that may panic.\<close>

datatype 'a outcome = Returns 'a | Panics

section \<open>Construction, accessors, membership\<close>

definition with_state_machine :: "nat \<Rightarrow> node_id \<Rightarrow> raft_config \<Rightarrow> 'sm \<Rightarrow> 'sm raft_node" where
  "with_state_machine now ident config sm =
     \<lparr>n_id = ident, n_config = config, n_state = raft_state_default, n_role = Follower,
      n_log = log_new, n_sm = sm, n_peers = [], n_leader = None, n_next = [], n_match = [],
      n_heartbeat = now, n_votes = [], n_snap_meta = None, n_pending = None, n_lease = None\<rparr>"

definition raft_new :: "nat \<Rightarrow> node_id \<Rightarrow> raft_config \<Rightarrow> kv_machine raft_node" where
  "raft_new now ident config = with_state_machine now ident config kv_new"

definition is_leader :: "'sm raft_node \<Rightarrow> bool" where
  "is_leader n \<longleftrightarrow> n_role n = Leader"

definition has_valid_lease :: "nat \<Rightarrow> 'sm raft_node \<Rightarrow> bool" where
  "has_valid_lease now n =
     (case n_lease n of Some expiry \<Rightarrow> now < expiry | None \<Rightarrow> False)"

definition is_leader_with_lease :: "nat \<Rightarrow> 'sm raft_node \<Rightarrow> bool" where
  "is_leader_with_lease now n \<longleftrightarrow> is_leader n \<and> has_valid_lease now n"

definition extend_lease :: "nat \<Rightarrow> 'sm raft_node \<Rightarrow> 'sm raft_node" where
  "extend_lease now n = n\<lparr>n_lease := Some (now + lease_duration (n_config n))\<rparr>"

definition check_lease :: "nat \<Rightarrow> 'sm raft_node \<Rightarrow> 'sm raft_node" where
  "check_lease now n =
     (if is_leader n \<and> \<not> has_valid_lease now n
      then n\<lparr>n_role := Follower, n_leader := None, n_lease := None\<rparr>
      else n)"

definition add_peer :: "'sm raft_node \<Rightarrow> node_id \<Rightarrow> 'sm raft_node" where
  "add_peer n peer =
     n\<lparr>n_peers := List.insert peer (n_peers n),
       n_next := hm_insert peer (last_index (n_log n) + 1) (n_next n),
       n_match := hm_insert peer 0 (n_match n)\<rparr>"

definition remove_peer :: "'sm raft_node \<Rightarrow> node_id \<Rightarrow> 'sm raft_node" where
  "remove_peer n peer =
     n\<lparr>n_peers := removeAll peer (n_peers n),
       n_next := hm_remove peer (n_next n),
       n_match := hm_remove peer (n_match n)\<rparr>"

definition cluster_size :: "'sm raft_node \<Rightarrow> nat" where
  "cluster_size n = length (n_peers n) + 1"

definition quorum_size :: "'sm raft_node \<Rightarrow> nat" where
  "quorum_size n = cluster_size n div 2 + 1"

definition reset_heartbeat :: "nat \<Rightarrow> 'sm raft_node \<Rightarrow> 'sm raft_node" where
  "reset_heartbeat now n = n\<lparr>n_heartbeat := now\<rparr>"

definition election_timeout_elapsed :: "nat \<Rightarrow> 'sm raft_node \<Rightarrow> bool" where
  "election_timeout_elapsed now n \<longleftrightarrow>
     now - n_heartbeat n \<ge> election_timeout_min (n_config n)"

section \<open>Leader election\<close>

definition start_election :: "nat \<Rightarrow> 'sm raft_node \<Rightarrow> 'sm raft_node \<times> vote_request" where
  "start_election now n =
     (let state = (n_state n)\<lparr>current_term := current_term (n_state n) + 1,
                              voted_for := Some (n_id n)\<rparr>;
          n' = reset_heartbeat now
                 (n\<lparr>n_state := state, n_role := Candidate, n_leader := None,
                    n_votes := [n_id n]\<rparr>)
      in (n', \<lparr>vq_term = current_term state, vq_candidate = n_id n,
               vq_last_log_index = last_index (n_log n),
               vq_last_log_term = last_term (n_log n)\<rparr>))"

text \<open>The block \<open>current_term = t; voted_for = None; role = Follower; leader_id = None\<close>.\<close>

definition step_down :: "'sm raft_node \<Rightarrow> raft_term \<Rightarrow> 'sm raft_node" where
  "step_down n t =
     n\<lparr>n_state := (n_state n)\<lparr>current_term := t, voted_for := None\<rparr>,
       n_role := Follower, n_leader := None\<rparr>"

definition handle_vote_request ::
    "nat \<Rightarrow> 'sm raft_node \<Rightarrow> vote_request \<Rightarrow> 'sm raft_node \<times> vote_response" where
  "handle_vote_request now n req =
     (let n1 = (if vq_term req > current_term (n_state n) then step_down n (vq_term req) else n);
          state = n_state n1;
          vote_granted =
            (vq_term req \<ge> current_term state
             \<and> (voted_for state = None \<or> voted_for state = Some (vq_candidate req))
             \<and> is_up_to_date (n_log n1) (vq_last_log_index req) (vq_last_log_term req));
          n2 = (if vote_granted
                then reset_heartbeat now
                       (n1\<lparr>n_state := state\<lparr>voted_for := Some (vq_candidate req)\<rparr>\<rparr>)
                else n1)
      in (n2, \<lparr>vr_term = current_term (n_state n2), vr_granted = vote_granted,
               vr_voter = n_id n2\<rparr>))"

definition become_leader_with_term :: "u64 \<Rightarrow> 'sm raft_node \<Rightarrow> raft_term \<Rightarrow> 'sm raft_node" where
  "become_leader_with_term wall n term =
     (let last_log = last_index (n_log n);
          next_index = foldl (\<lambda>m peer. hm_insert peer (last_log + 1) m) (n_next n) (n_peers n);
          match_index = foldl (\<lambda>m peer. hm_insert peer 0 m) (n_match n) (n_peers n);
          noop = entry_noop wall (last_log + 1) term
      in n\<lparr>n_role := Leader, n_leader := Some (n_id n),
           n_next := next_index, n_match := match_index,
           n_log := fst (log_append (n_log n) noop)\<rparr>)"

definition become_leader :: "u64 \<Rightarrow> 'sm raft_node \<Rightarrow> 'sm raft_node" where
  "become_leader wall n = become_leader_with_term wall n (current_term (n_state n))"

definition handle_vote_response ::
    "u64 \<Rightarrow> 'sm raft_node \<Rightarrow> vote_response \<Rightarrow> 'sm raft_node \<times> bool" where
  "handle_vote_response wall n resp =
     (if vr_term resp > current_term (n_state n) then (step_down n (vr_term resp), False)
      else if n_role n \<noteq> Candidate \<or> vr_term resp \<noteq> current_term (n_state n) then (n, False)
      else
        let n1 = (if vr_granted resp then n\<lparr>n_votes := List.insert (vr_voter resp) (n_votes n)\<rparr>
                  else n)
        in if length (n_votes n1) \<ge> quorum_size n1
           then (become_leader_with_term wall n1 (current_term (n_state n)), True)
           else (n1, False))"

section \<open>Log replication\<close>

definition propose ::
    "codec \<Rightarrow> u64 \<Rightarrow> 'sm raft_node \<Rightarrow> command \<Rightarrow> 'sm raft_node \<times> (string + log_index)" where
  "propose cd wall n command =
     (if \<not> is_leader n then (n, Inl ''Not the leader'')
      else
        let term = current_term (n_state n);
            index = last_index (n_log n) + 1;
            entry = entry_command wall index term (cmd_encode cd command)
        in (n\<lparr>n_log := fst (log_append (n_log n) entry)\<rparr>, Inr index))"

definition create_append_entries :: "'sm raft_node \<Rightarrow> node_id \<Rightarrow> append_request option" where
  "create_append_entries n peer =
     (if \<not> is_leader n then None
      else case hm_get (n_next n) peer of
        None \<Rightarrow> None
      | Some next_index \<Rightarrow>
          let prev_log_index = saturating_sub next_index 1;
              prev_log_term = (case term_at (n_log n) prev_log_index of Some t \<Rightarrow> t | None \<Rightarrow> 0);
              entries = log_get_range (n_log n) next_index (last_index (n_log n) + 1);
              entries = take (unat (max_entries_per_request (n_config n))) entries
          in Some \<lparr>aq_term = current_term (n_state n), aq_leader = n_id n,
                   aq_prev_log_index = prev_log_index, aq_prev_log_term = prev_log_term,
                   aq_entries = entries, aq_leader_commit = commit_index (n_state n)\<rparr>)"

text \<open>The \<^verbatim>\<open>while index > 0\<close> loop of \<^verbatim>\<open>find_first_index_of_term\<close>, from \<open>index\<close> downwards.\<close>

fun find_first_loop :: "replicated_log \<Rightarrow> raft_term \<Rightarrow> nat \<Rightarrow> log_index" where
  "find_first_loop l term 0 = 1"
| "find_first_loop l term (Suc k) =
     (let index = of_nat (Suc k) in
      case term_at l index of
        Some t \<Rightarrow> if t \<noteq> term then index + 1 else find_first_loop l term k
      | None \<Rightarrow> find_first_loop l term k)"

definition find_first_index_of_term :: "replicated_log \<Rightarrow> raft_term \<Rightarrow> log_index" where
  "find_first_index_of_term l term = find_first_loop l term (unat (last_index l))"

definition append_reject ::
    "raft_term \<Rightarrow> log_index \<Rightarrow> log_index option \<Rightarrow> raft_term option \<Rightarrow> append_response" where
  "append_reject t mi ci ct =
     \<lparr>ar_term = t, ar_success = False, ar_match_index = mi, ar_conflict_index = ci,
      ar_conflict_term = ct\<rparr>"

text \<open>The consistency check on \<^verbatim>\<open>prev_log_index\<close>: \<open>Some\<close> is the refusal.\<close>

definition prev_check :: "replicated_log \<Rightarrow> raft_term \<Rightarrow> append_request \<Rightarrow> append_response option" where
  "prev_check l cur req =
     (if aq_prev_log_index req > 0 then
        (case term_at l (aq_prev_log_index req) of
           None \<Rightarrow> Some (append_reject cur (last_index l) (Some (last_index l + 1)) None)
         | Some term \<Rightarrow>
             if term \<noteq> aq_prev_log_term req
             then Some (append_reject cur 0 (Some (find_first_index_of_term l term)) (Some term))
             else None)
      else None)"

text \<open>Truncate at the first conflict, then append what is past the end.\<close>

definition merge_entries :: "replicated_log \<Rightarrow> log_entry list \<Rightarrow> replicated_log" where
  "merge_entries l entries =
     (if entries = [] then l
      else
        let l1 = (case find_conflict l entries of
                    Some conflict \<Rightarrow> truncate_from l conflict | None \<Rightarrow> l);
            existing_last = last_index l1;
            new_entries = filter (\<lambda>e. e_index e > existing_last) entries
        in if new_entries \<noteq> [] then fst (log_append_entries l1 new_entries) else l1)"

definition handle_append_entries ::
    "nat \<Rightarrow> 'sm raft_node \<Rightarrow> append_request \<Rightarrow> 'sm raft_node \<times> append_response" where
  "handle_append_entries now n req =
     (if aq_term req < current_term (n_state n)
      then (n, append_reject (current_term (n_state n)) 0 None None)
      else
        let state = (if aq_term req > current_term (n_state n)
                     then (n_state n)\<lparr>current_term := aq_term req, voted_for := None\<rparr>
                     else n_state n);
            n1 = reset_heartbeat now
                   (n\<lparr>n_state := state, n_role := Follower, n_leader := Some (aq_leader req)\<rparr>)
        in case prev_check (n_log n1) (current_term state) req of
             Some refusal \<Rightarrow> (n1, refusal)
           | None \<Rightarrow>
               let l = merge_entries (n_log n1) (aq_entries req);
                   last_new_index =
                     (if aq_entries req = [] then aq_prev_log_index req
                      else e_index (last (aq_entries req)));
                   new_commit = min (aq_leader_commit req) last_new_index;
                   n2 = (if aq_leader_commit req > commit_index state
                         then n1\<lparr>n_state := state\<lparr>commit_index := new_commit\<rparr>,
                                 n_log := set_commit_index l new_commit\<rparr>
                         else n1\<lparr>n_log := l\<rparr>)
               in (n2, \<lparr>ar_term = current_term state, ar_success = True,
                        ar_match_index = last_index (n_log n2),
                        ar_conflict_index = None, ar_conflict_term = None\<rparr>))"

definition match_indices :: "'sm raft_node \<Rightarrow> log_index list" where
  "match_indices n = sort (hm_values (n_match n) @ [last_index (n_log n)])"

definition try_advance_commit_index :: "'sm raft_node \<Rightarrow> 'sm raft_node" where
  "try_advance_commit_index n =
     (let indices = match_indices n;
          quorum_index = length indices div 2;
          new_commit = indices ! quorum_index
      in if new_commit > commit_index (n_state n)
         then (case term_at (n_log n) new_commit of
                 Some term \<Rightarrow>
                   if term = current_term (n_state n)
                   then n\<lparr>n_state := (n_state n)\<lparr>commit_index := new_commit\<rparr>,
                          n_log := set_commit_index (n_log n) new_commit\<rparr>
                   else n
               | None \<Rightarrow> n)
         else n)"

definition handle_append_entries_response ::
    "nat \<Rightarrow> 'sm raft_node \<Rightarrow> node_id \<Rightarrow> append_response \<Rightarrow> 'sm raft_node" where
  "handle_append_entries_response now n peer resp =
     (if ar_term resp > current_term (n_state n) then step_down n (ar_term resp)
      else if \<not> is_leader n then n
      else if ar_success resp then
        (let n1 = n\<lparr>n_match := hm_insert peer (ar_match_index resp) (n_match n),
                    n_next := hm_insert peer (ar_match_index resp + 1) (n_next n)\<rparr>;
             ack_count = length (filter (\<lambda>idx. idx > 0) (hm_values (n_match n1))) + 1;
             n2 = (if ack_count \<ge> quorum_size n1 then extend_lease now n1 else n1)
         in try_advance_commit_index n2)
      else case ar_conflict_index resp of
        Some conflict_index \<Rightarrow> n\<lparr>n_next := hm_insert peer conflict_index (n_next n)\<rparr>
      | None \<Rightarrow>
          (let current = hm_get_or (n_next n) peer 1
           in n\<lparr>n_next := hm_insert peer (max (saturating_sub current 1) 1) (n_next n)\<rparr>))"

section \<open>Applying committed entries\<close>

definition apply_one ::
    "codec \<Rightarrow> 'sm backend \<Rightarrow> 'sm raft_node \<Rightarrow> log_entry \<Rightarrow> command_result list \<Rightarrow>
     'sm raft_node \<times> command_result list" where
  "apply_one cd be n entry results =
     (let (sm, results') =
            (case cmd_decode cd (e_data entry) of
               Some command \<Rightarrow>
                 (let (result, sm) = b_apply be (n_sm n) command (e_index entry)
                  in (sm, results @ [result]))
             | None \<Rightarrow> (n_sm n, results))
      in (n\<lparr>n_sm := sm, n_log := set_last_applied (n_log n) (e_index entry),
            n_state := (n_state n)\<lparr>rs_last_applied := e_index entry\<rparr>\<rparr>, results'))"

text \<open>The \<^verbatim>\<open>while\<close> loop; \<open>None\<close> is a loop that never ends.\<close>

partial_function (option) apply_committed_loop ::
    "codec \<Rightarrow> 'sm backend \<Rightarrow> 'sm raft_node \<Rightarrow> command_result list \<Rightarrow>
     ('sm raft_node \<times> command_result list) option" where
  "apply_committed_loop cd be n results =
     (if has_entries_to_apply (n_log n) then
        (case next_to_apply (n_log n) of
           Some entry \<Rightarrow>
             apply_committed_loop cd be (fst (apply_one cd be n entry results))
               (snd (apply_one cd be n entry results))
         | None \<Rightarrow> apply_committed_loop cd be n results)
      else Some (n, results))"

definition apply_committed ::
    "codec \<Rightarrow> 'sm backend \<Rightarrow> 'sm raft_node \<Rightarrow> ('sm raft_node \<times> command_result list) option" where
  "apply_committed cd be n = apply_committed_loop cd be n []"

definition raft_get :: "'sm backend \<Rightarrow> 'sm raft_node \<Rightarrow> string \<Rightarrow> bytes option" where
  "raft_get be n key = b_get be (n_sm n) key"

section \<open>Snapshots\<close>

definition should_snapshot :: "'sm raft_node \<Rightarrow> bool" where
  "should_snapshot n \<longleftrightarrow> of_nat (log_len (n_log n)) \<ge> snapshot_threshold (n_config n)"

definition take_snapshot ::
    "codec \<Rightarrow> 'sm backend \<Rightarrow> 'sm raft_node \<Rightarrow> 'sm raft_node \<times> snapshot_metadata option" where
  "take_snapshot cd be n =
     (let last_applied = rs_last_applied (n_state n) in
      if last_applied = 0 then (n, None)
      else case term_at (n_log n) last_applied of
        None \<Rightarrow> (n, None)
      | Some last_applied_term \<Rightarrow>
          let snapshot_bytes = snap_encode cd (b_snapshot be (n_sm n));
              metadata = \<lparr>sm_last_index = last_applied, sm_last_term = last_applied_term,
                          sm_size = of_nat (length snapshot_bytes)\<rparr>
          in (n\<lparr>n_log := compact (n_log n) last_applied last_applied_term,
                n_snap_meta := Some metadata\<rparr>, Some metadata))"

definition get_snapshot_data ::
    "codec \<Rightarrow> 'sm backend \<Rightarrow> 'sm raft_node \<Rightarrow> (snapshot_metadata \<times> bytes) option" where
  "get_snapshot_data cd be n =
     (case n_snap_meta n of None \<Rightarrow> None
      | Some metadata \<Rightarrow> Some (metadata, snap_encode cd (b_snapshot be (n_sm n))))"

definition snapshot_chunk_size :: usize where
  "snapshot_chunk_size = 64 * 1024"

text \<open>
  The slice \<^verbatim>\<open>data[start..end]\<close> panics when \<open>start\<close> is past \<open>end\<close>; \<open>start + chunk size\<close>
  wraps at 64 bits.
\<close>

definition create_install_snapshot ::
    "codec \<Rightarrow> 'sm backend \<Rightarrow> 'sm raft_node \<Rightarrow> node_id \<Rightarrow> u64 \<Rightarrow>
     install_request option outcome" where
  "create_install_snapshot cd be n peer offset =
     (if \<not> is_leader n then Returns None
      else case hm_get (n_next n) peer of
        None \<Rightarrow> Returns None
      | Some next_index \<Rightarrow>
          (case get_snapshot_data cd be n of
             None \<Rightarrow> Returns None
           | Some (metadata, data) \<Rightarrow>
               if next_index > sm_last_index metadata then Returns None
               else
                 let start = offset;
                     stop = min (start + snapshot_chunk_size) (of_nat (length data))
                 in if start > stop then Panics
                    else
                      let chunk = take (unat stop - unat start) (drop (unat start) data);
                          finished = (stop \<ge> of_nat (length data))
                      in Returns (Some
                           \<lparr>iq_term = current_term (n_state n), iq_leader = n_id n,
                            iq_last_index = sm_last_index metadata,
                            iq_last_term = sm_last_term metadata,
                            iq_offset = offset, iq_data = chunk, iq_done = finished,
                            iq_checksum = (if finished then Some (crc32 cd data) else None)\<rparr>)))"

text \<open>Restoring from the assembled bytes, the inner block of \<^verbatim>\<open>handle_install_snapshot\<close>.\<close>

definition install_restored ::
    "codec \<Rightarrow> 'sm backend \<Rightarrow> 'sm raft_node \<Rightarrow> snapshot_metadata \<Rightarrow> bytes \<Rightarrow> 'sm raft_node" where
  "install_restored cd be n metadata snapshot_data =
     (case snap_decode cd snapshot_data of
        None \<Rightarrow> n
      | Some restored \<Rightarrow>
          let commit = max (commit_index (n_state n)) (sm_last_index metadata);
              applied = sm_last_index metadata;
              l = compact (n_log n) (sm_last_index metadata) (sm_last_term metadata)
          in n\<lparr>n_sm := b_restore be (n_sm n) restored,
               n_state := (n_state n)\<lparr>commit_index := commit, rs_last_applied := applied\<rparr>,
               n_log := set_last_applied (set_commit_index l commit) applied,
               n_snap_meta := Some \<lparr>sm_last_index = sm_last_index metadata,
                 sm_last_term = sm_last_term metadata,
                 sm_size = of_nat (length snapshot_data)\<rparr>\<rparr>)"

definition handle_install_snapshot ::
    "codec \<Rightarrow> 'sm backend \<Rightarrow> nat \<Rightarrow> 'sm raft_node \<Rightarrow> install_request \<Rightarrow>
     'sm raft_node \<times> install_response" where
  "handle_install_snapshot cd be now n req =
     (if iq_term req < current_term (n_state n)
      then (n, \<lparr>ir_term = current_term (n_state n)\<rparr>)
      else
        let n1 = (if iq_term req > current_term (n_state n)
                  then n\<lparr>n_state := (n_state n)\<lparr>current_term := iq_term req, voted_for := None\<rparr>,
                         n_role := Follower\<rparr>
                  else n);
            n2 = reset_heartbeat now (n1\<lparr>n_leader := Some (iq_leader req)\<rparr>);
            resp = \<lparr>ir_term = current_term (n_state n2)\<rparr>;
            pending = (if iq_offset req = 0
                       then Some \<lparr>p_metadata = \<lparr>sm_last_index = iq_last_index req,
                                    sm_last_term = iq_last_term req, sm_size = 0\<rparr>,
                                  p_data = [], p_offset = 0\<rparr>
                       else n_pending n2)
        in case pending of
             None \<Rightarrow> (n2\<lparr>n_pending := None\<rparr>, resp)
           | Some snap \<Rightarrow>
               if iq_offset req \<noteq> p_offset snap then (n2\<lparr>n_pending := None\<rparr>, resp)
               else
                 let snap' = snap\<lparr>p_data := p_data snap @ iq_data req,
                                  p_offset := p_offset snap + of_nat (length (iq_data req))\<rparr>
                 in if \<not> iq_done req then (n2\<lparr>n_pending := Some snap'\<rparr>, resp)
                    else if (case iq_checksum req of
                               Some expected \<Rightarrow> crc32 cd (p_data snap') \<noteq> expected
                             | None \<Rightarrow> False)
                    then (n2\<lparr>n_pending := None\<rparr>, resp)
                    else ((install_restored cd be n2 (p_metadata snap') (p_data snap'))
                            \<lparr>n_pending := None\<rparr>, resp))"

definition handle_install_snapshot_response ::
    "'sm raft_node \<Rightarrow> node_id \<Rightarrow> install_response \<Rightarrow> bool \<Rightarrow> 'sm raft_node" where
  "handle_install_snapshot_response n peer resp was_last_chunk =
     (if ir_term resp > current_term (n_state n) then step_down n (ir_term resp)
      else if \<not> is_leader n then n
      else if was_last_chunk then
        (case n_snap_meta n of
           Some metadata \<Rightarrow>
             n\<lparr>n_next := hm_insert peer (sm_last_index metadata + 1) (n_next n),
               n_match := hm_insert peer (sm_last_index metadata) (n_match n)\<rparr>
         | None \<Rightarrow> n)
      else n)"

definition peer_needs_snapshot :: "'sm raft_node \<Rightarrow> node_id \<Rightarrow> bool" where
  "peer_needs_snapshot n peer =
     (case hm_get (n_next n) peer of
        None \<Rightarrow> False
      | Some next_index \<Rightarrow>
          (case n_snap_meta n of
             Some metadata \<Rightarrow> next_index \<le> sm_last_index metadata
           | None \<Rightarrow> False))"

section \<open>The two state machines as backends\<close>

definition kv_backend :: "kv_machine backend" where
  "kv_backend =
     \<lparr>b_apply = kv_apply, b_get = kv_get, b_snapshot = kv_snapshot, b_restore = kv_restore\<rparr>"

definition db_backend :: "'h db_ops \<Rightarrow> 'h db_machine backend" where
  "db_backend ops =
     \<lparr>b_apply = db_apply ops, b_get = db_get, b_snapshot = db_snapshot ops,
      b_restore = db_restore ops\<rparr>"

text \<open>
  A concrete codec, for evaluating the model: it encodes a command that sets a key to the
  empty value as the key, and an empty snapshot as 70,000 bytes.
\<close>

definition sample_codec :: codec where
  "sample_codec =
     \<lparr>cmd_encode = (\<lambda>c. str_bytes (c_key c)),
      cmd_decode = (\<lambda>b. if b = [] then None else Some (cmd_set (bytes_str b) [])),
      snap_encode = (\<lambda>_. replicate 70000 0),
      snap_decode = (\<lambda>b. if length b = 70000 then Some (kv_snapshot kv_new) else None),
      crc32 = (\<lambda>b. of_nat (length b))\<rparr>"

end
