(* ===== verification/RaftReplication.thy ===== *)
theory RaftReplication
  imports RaftNode
begin

text \<open>
  Log replication by one Raft node.  What a follower does with an append request is
  analysed through the log interface: the merged log is again well formed, agrees with
  the request on every entry past the snapshot, and loses no entry below the first
  conflict.  The commit rule is related to the number of members that hold an entry, and
  the loop that applies committed entries is shown to end and to feed the state machine
  every entry once and in order.
\<close>

section \<open>Finding a conflict\<close>

definition agrees :: "replicated_log \<Rightarrow> log_entry \<Rightarrow> bool" where
  "agrees l e \<longleftrightarrow> term_at l (e_index e) \<in> {None, Some (e_term e)}"

lemma find_conflict_None: "find_conflict l es = None \<longleftrightarrow> (\<forall>e \<in> set es. agrees l e)"
  by (induction es) (auto simp: agrees_def split: option.splits)

lemma find_conflict_Some:
  "find_conflict l es = Some c \<Longrightarrow>
     \<exists>ys e zs. es = ys @ e # zs \<and> c = e_index e \<and> \<not> agrees l e \<and> (\<forall>y \<in> set ys. agrees l y)"
proof (induction es)
  case Nil
  then show ?case by simp
next
  case (Cons x es)
  show ?case
  proof (cases "agrees l x")
    case True
    with Cons.prems have "find_conflict l es = Some c"
      by (auto simp: agrees_def split: option.splits if_splits)
    then obtain ys e zs where "es = ys @ e # zs" "c = e_index e" "\<not> agrees l e"
      "\<forall>y \<in> set ys. agrees l y"
      using Cons.IH by blast
    with True show ?thesis by (intro exI [of _ "x # ys"]) auto
  next
    case False
    with Cons.prems have "c = e_index x"
      by (auto simp: agrees_def split: option.splits if_splits)
    with False show ?thesis by (intro exI [of _ "[]"]) auto
  qed
qed

lemma agrees_get:
  assumes "log_wf l" "agrees l e" "l_snap_index l < e_index e" "e_index e \<le> last_index l"
  shows "\<exists>e'. log_get l (e_index e) = Some e' \<and> e_term e' = e_term e"
proof -
  obtain e' where e': "log_get l (e_index e) = Some e'"
    using assms log_get_None [of l "e_index e"] by fastforce
  moreover have "e_index e \<noteq> 0" "e_index e \<noteq> l_snap_index l"
    using assms(3) by (auto simp: u64_order)
  ultimately show ?thesis using assms(2) by (auto simp: agrees_def term_at_def)
qed

section \<open>The entries past the end of the log\<close>

lemma consecutive_filter_gt:
  assumes "consecutive p es" "p \<le> q"
  shows "filter (\<lambda>e. e_index e > q) es = drop (unat q - unat p) es"
  using assms
proof (induction es arbitrary: p)
  case Nil
  then show ?case by simp
next
  case (Cons e es)
  then have e: "unat (e_index e) = unat p + 1" and es: "consecutive (e_index e) es"
    by (simp_all add: consecutive_Cons)
  show ?case
  proof (cases "e_index e > q")
    case True
    then have "unat q - unat p = 0" using e Cons.prems(2) by (simp add: u64_order)
    moreover have "filter (\<lambda>e. e_index e > q) es = es"
      using es True by (intro filter_True) (auto simp: u64_order dest: consecutive_index)
    ultimately show ?thesis using True by simp
  next
    case False
    then have "unat q - unat p = Suc (unat q - unat (e_index e))"
      using e by (simp add: u64_order)
    with False Cons.IH [OF es] show ?thesis by (simp add: u64_order)
  qed
qed

lemma consecutive_new_entries:
  assumes "consecutive p es" "p \<le> q"
  shows "consecutive q (filter (\<lambda>e. e_index e > q) es)"
proof (cases "unat q - unat p \<le> length es")
  case True
  with assms show ?thesis
    unfolding consecutive_filter_gt [OF assms]
    by (intro consecutive_drop [where p = p]) (auto simp: u64_order)
next
  case False
  then show ?thesis using consecutive_filter_gt [OF assms] by simp
qed

lemma consecutive_before:
  assumes "consecutive p (ys @ x # zs)" "e \<in> set (ys @ x # zs)" "e_index e < e_index x"
  shows "e \<in> set ys"
proof -
  obtain k where k: "k < length (ys @ x # zs)" "(ys @ x # zs) ! k = e"
    using assms(2) by (meson in_set_conv_nth)
  have "unat (e_index e) = unat p + Suc k"
    using assms(1) k by (auto simp: consecutive_def)
  moreover have "unat (e_index x) = unat p + Suc (length ys)"
    using assms(1) by (auto simp: consecutive_def dest: spec [of _ "length ys"])
  ultimately have "k < length ys" using assms(3) by (simp add: u64_order)
  then show ?thesis using k by (auto simp: nth_append)
qed

section \<open>Merging the entries of a request\<close>

text \<open>The log after truncation at the first conflict, if there is one.\<close>

definition cut_at :: "replicated_log \<Rightarrow> log_entry list \<Rightarrow> replicated_log" where
  "cut_at l es =
     (case find_conflict l es of Some c \<Rightarrow> truncate_from l c | None \<Rightarrow> l)"

lemma merge_entries_alt:
  "merge_entries l es =
     fst (log_append_entries (cut_at l es)
       (filter (\<lambda>e. e_index e > last_index (cut_at l es)) es))"
proof (cases "es = []")
  case True
  then show ?thesis by (simp add: merge_entries_def cut_at_def log_append_entries_def)
next
  case False
  let ?new = "filter (\<lambda>e. e_index e > last_index (cut_at l es)) es"
  have "merge_entries l es =
      (if ?new \<noteq> [] then fst (log_append_entries (cut_at l es) ?new) else cut_at l es)"
    using False unfolding merge_entries_def cut_at_def [symmetric] Let_def by simp
  then show ?thesis by (auto simp: log_append_entries_def)
qed

lemma agrees_beyond: "log_wf l \<Longrightarrow> last_index l < e_index e \<Longrightarrow> agrees l e"
  by (auto simp: agrees_def term_at_def log_get_None u64_order unat_last_index)

text \<open>
  The facts about the truncated log that the merge needs: it is well formed, ends at or
  after \<open>p\<close>, keeps every entry below the conflict, and every request entry at or below its
  end agrees with it.
\<close>

lemma cut_at_facts:
  assumes wf: "log_wf l" and es: "consecutive p es" and p: "p \<le> last_index l"
  shows "log_wf (cut_at l es) \<and> l_snap_index (cut_at l es) = l_snap_index l \<and>
    p \<le> last_index (cut_at l es) \<and>
    (\<forall>e \<in> set es. l_snap_index l < e_index e \<longrightarrow> e_index e \<le> last_index (cut_at l es) \<longrightarrow>
       agrees l e) \<and>
    log_get (cut_at l es) = log_get l |` {.. last_index (cut_at l es)}"
proof (cases "find_conflict l es")
  case None
  then have "cut_at l es = l" and "\<forall>e \<in> set es. agrees l e"
    by (simp_all add: cut_at_def flip: find_conflict_None)
  then show ?thesis
    using assms log_get_None [OF wf] by (auto simp: restrict_map_def fun_eq_iff not_less)
next
  case (Some c)
  then have cut: "cut_at l es = truncate_from l c" by (simp add: cut_at_def)
  obtain ys x zs where split: "es = ys @ x # zs" "c = e_index x" "\<not> agrees l x"
    "\<forall>y \<in> set ys. agrees l y" using Some by (meson find_conflict_Some)
  have px: "p < c" using es split consecutive_index [of p es x] by (auto simp: u64_order)
  have le: "c \<le> last_index l" using agrees_beyond [OF wf, of x] split by fastforce
  have before: "e \<in> set ys" if "e \<in> set es" "e_index e < c" for e
    using that es consecutive_before [of p ys x zs e] split(1,2) by blast
  have wf': "log_wf (cut_at l es)" unfolding cut by (rule log_wf_truncate [OF wf])
  have snap': "l_snap_index (cut_at l es) = l_snap_index l" by (simp add: cut truncate_from_def)
  show ?thesis
  proof (cases "l_snap_index l < c")
    case True
    then have last: "last_index (cut_at l es) = c - 1"
      using wf le by (simp add: cut last_index_truncate)
    have below: "i \<le> c - 1 \<longleftrightarrow> i < c" for i
      using px by (auto simp: u64_order unat_diff_u64)
    have "{..c - 1} = {..<c}" using below by auto
    then show ?thesis
      using wf wf' snap' px before split(4) last below
      by (auto simp: cut log_get_truncate)
  next
    case False
    then have "c < l_first l" using wf by (simp add: log_wf_def u64_order)
    then have "l_entries (cut_at l es) = []" by (simp add: cut truncate_from_def)
    then have last: "last_index (cut_at l es) = l_snap_index l"
      using snap' by (simp add: last_index_def)
    moreover have "log_get (cut_at l es) = log_get l |` {..last_index (cut_at l es)}"
      using last log_get_None [OF wf] log_get_None [OF wf'] snap'
      by (auto simp: fun_eq_iff restrict_map_def) (metis le_less_linear)
    ultimately show ?thesis
      using wf' snap' px False by (auto simp: u64_order)
  qed
qed

lemmas cut_at_wf = cut_at_facts [THEN conjunct1]

text \<open>The merged log in terms of the interface operations.\<close>

lemma merge_entries_push:
  "merge_entries l es =
     foldl (\<lambda>l e. fst (log_append l e)) (cut_at l es)
       (filter (\<lambda>e. e_index e > last_index (cut_at l es)) es)"
  by (simp add: merge_entries_alt log_append_entries_foldl)

lemma merge_entries_ready:
  assumes "log_wf l" "consecutive p es" "p \<le> last_index l"
  shows "log_wf (cut_at l es)"
    and "consecutive (last_index (cut_at l es))
           (filter (\<lambda>e. e_index e > last_index (cut_at l es)) es)"
  using cut_at_facts [OF assms] assms(2) by (auto intro: consecutive_new_entries)

lemma log_wf_merge_entries:
  assumes "log_wf l" "consecutive p es" "p \<le> last_index l"
  shows "log_wf (merge_entries l es)"
  unfolding merge_entries_push
  using rlog.push_all [OF merge_entries_ready [OF assms]] by blast

lemma log_append_snap [simp]:
  "l_snap_index (foldl (\<lambda>l e. fst (log_append l e)) l es) = l_snap_index l"
  by (induction es arbitrary: l) (simp_all add: log_append_def)

lemma merge_entries_snap:
  assumes "log_wf l" "consecutive p es" "p \<le> last_index l"
  shows "l_snap_index (merge_entries l es) = l_snap_index l"
  using cut_at_facts [OF assms] by (simp add: merge_entries_push)

lemma merge_entries_matches:
  assumes wf: "log_wf l" and es: "consecutive p es" and p: "p \<le> last_index l"
    and e: "e \<in> set es" "l_snap_index l < e_index e"
  shows "\<exists>e'. log_get (merge_entries l es) (e_index e) = Some e' \<and> e_term e' = e_term e"
proof (cases "last_index (cut_at l es) < e_index e")
  case True
  with e have "e \<in> set (filter (\<lambda>e. e_index e > last_index (cut_at l es)) es)" by simp
  from rlog.push_all_adds [OF merge_entries_ready [OF wf es p] this]
  show ?thesis unfolding merge_entries_push by blast
next
  case False
  note cut = cut_at_facts [OF wf es p]
  from False e cut have "agrees l e" by (simp add: not_less)
  moreover have "e_index e \<le> last_index l"
  proof (rule ccontr)
    assume "\<not> ?thesis"
    then have "log_get l (e_index e) = None" using log_get_None [OF wf] by (simp add: not_le)
    moreover have "log_get (cut_at l es) (e_index e) \<noteq> None"
      using False e(2) cut log_get_None [of "cut_at l es" "e_index e"] by auto
    ultimately show False using cut by (auto simp: restrict_map_def split: if_splits)
  qed
  ultimately obtain e' where e': "log_get l (e_index e) = Some e'" "e_term e' = e_term e"
    using agrees_get [OF wf] e(2) by blast
  then have "log_get (cut_at l es) (e_index e) = Some e'"
    using cut False by (simp add: not_less)
  from rlog.push_all_keeps [OF merge_entries_ready [OF wf es p] this] e'(2)
  show ?thesis unfolding merge_entries_push by blast
qed

text \<open>Nothing is lost when nothing conflicts.\<close>

lemma merge_entries_keeps:
  assumes wf: "log_wf l" and es: "consecutive p es" and p: "p \<le> last_index l"
    and get: "log_get l i = Some e" and i: "find_conflict l es = None \<or> i \<le> p"
  shows "log_get (merge_entries l es) i = Some e"
proof -
  note cut = cut_at_facts [OF wf es p]
  have "i \<le> last_index (cut_at l es)"
  proof (cases "find_conflict l es")
    case None
    then show ?thesis using get log_get_None [OF wf, of i] by (simp add: cut_at_def not_less)
  next
    case (Some c)
    then show ?thesis using i cut by auto
  qed
  then have "log_get (cut_at l es) i = Some e" using cut get by simp
  from rlog.push_all_keeps [OF merge_entries_ready [OF wf es p] this]
  show ?thesis unfolding merge_entries_push .
qed

section \<open>Append requests\<close>

definition request_wf :: "append_request \<Rightarrow> bool" where
  "request_wf req \<longleftrightarrow> consecutive (aq_prev_log_index req) (aq_entries req)"

lemma prev_check_passed:
  assumes "log_wf l" "prev_check l cur req = None"
  shows "aq_prev_log_index req \<le> last_index l"
proof (cases "aq_prev_log_index req > 0")
  case False
  then show ?thesis by (simp add: u64_order)
next
  case True
  with assms(2) obtain t where t: "term_at l (aq_prev_log_index req) = Some t"
    by (auto simp: prev_check_def split: option.splits)
  show ?thesis
  proof (cases "aq_prev_log_index req = l_snap_index l")
    case True
    then show ?thesis using assms(1) by (simp add: u64_order unat_last_index)
  next
    case False
    with True t have "log_get l (aq_prev_log_index req) \<noteq> None"
      by (auto simp: term_at_def split: if_splits)
    then show ?thesis using log_get_None [OF assms(1)] by (simp add: not_less)
  qed
qed

lemma log_get_range_consecutive:
  assumes "log_wf l"
  shows "consecutive (saturating_sub next 1) (log_get_range l next stop)"
proof (cases "next < l_first l \<or> unat next - unat (l_first l) > length (l_entries l)")
  case True
  then show ?thesis
    by (auto simp: log_get_range_def Let_def unat_diff_u64 not_less)
next
  case False
  let ?k = "unat next - unat (l_first l)"
  have k: "unat (next - l_first l) = ?k" "?k \<le> length (l_entries l)"
    using False by (simp_all add: unat_diff_u64 not_less)
  have "unat (saturating_sub next 1) = unat (l_snap_index l) + ?k"
    using assms False by (simp add: unat_saturating_sub log_wf_def u64_order not_less)
  then have "consecutive (saturating_sub next 1) (drop ?k (l_entries l))"
    using assms k(2) by (intro consecutive_drop [where p = "l_snap_index l"])
      (auto simp: log_wf_def)
  then show ?thesis
    using False k(1) by (auto simp: log_get_range_def Let_def intro: consecutive_take)
qed

lemma log_get_range_subset: "set (log_get_range l next stop) \<subseteq> set (l_entries l)"
  by (auto simp: log_get_range_def Let_def dest: in_set_takeD in_set_dropD)

lemma create_append_entries_cases:
  assumes "create_append_entries n peer = Some req"
  obtains nxt where "hm_get (n_next n) peer = Some nxt"
    "aq_prev_log_index req = saturating_sub nxt 1"
    "aq_entries req = take (unat (max_entries_per_request (n_config n)))
       (log_get_range (n_log n) nxt (last_index (n_log n) + 1))"
  using assms by (auto simp: create_append_entries_def Let_def split: option.splits if_splits)

lemma create_append_entries_wf:
  assumes "log_wf (n_log n)" "create_append_entries n peer = Some req"
  shows "request_wf req"
proof -
  obtain nxt where "aq_prev_log_index req = saturating_sub nxt 1"
    "aq_entries req = take (unat (max_entries_per_request (n_config n)))
       (log_get_range (n_log n) nxt (last_index (n_log n) + 1))"
    using assms(2) by (rule create_append_entries_cases)
  then show ?thesis
    using log_get_range_consecutive [OF assms(1)]
    by (simp add: request_wf_def consecutive_take)
qed

lemma create_append_entries_own:
  assumes "log_wf (n_log n)" "create_append_entries n peer = Some req"
    and "e \<in> set (aq_entries req)"
  shows "log_get (n_log n) (e_index e) = Some e"
proof -
  obtain nxt where "aq_entries req = take (unat (max_entries_per_request (n_config n)))
       (log_get_range (n_log n) nxt (last_index (n_log n) + 1))"
    using assms(2) by (rule create_append_entries_cases)
  then have "e \<in> set (l_entries (n_log n))"
    using assms(3) log_get_range_subset [of "n_log n"] by (metis in_set_takeD subsetD)
  then show ?thesis using log_get_Some_iff [OF assms(1)] by simp
qed

text \<open>What a successful append leaves in the node: the merged log, up to the commit index.\<close>

lemma handle_append_success:
  assumes "handle_append_entries now n req = (n', resp)" "ar_success resp"
  shows "prev_check (n_log n) (aq_term req) req = None"
    and "l_entries (n_log n') = l_entries (merge_entries (n_log n) (aq_entries req))"
    and "l_first (n_log n') = l_first (merge_entries (n_log n) (aq_entries req))"
    and "l_snap_index (n_log n') = l_snap_index (merge_entries (n_log n) (aq_entries req))"
    and "current_term (n_state n') = aq_term req" "n_role n' = Follower"
    and "n_leader n' = Some (aq_leader req)" "ar_term resp = aq_term req"
    and "ar_match_index resp = last_index (n_log n')"
proof -
  have le: "\<not> aq_term req < current_term (n_state n)"
    using assms by (auto simp: handle_append_entries_def append_reject_def split: if_splits)
  have cur: "current_term (if aq_term req > current_term (n_state n)
      then (n_state n)\<lparr>current_term := aq_term req, voted_for := None\<rparr> else n_state n) = aq_term req"
    using le by auto
  have ok: "prev_check (n_log n) (aq_term req) req = None"
    using assms le by (auto simp: handle_append_entries_def append_reject_def prev_check_def
        reset_heartbeat_def Let_def cur split: option.splits if_splits)
  show "prev_check (n_log n) (aq_term req) req = None" by (rule ok)
  show "l_entries (n_log n') = l_entries (merge_entries (n_log n) (aq_entries req))"
    "l_first (n_log n') = l_first (merge_entries (n_log n) (aq_entries req))"
    "l_snap_index (n_log n') = l_snap_index (merge_entries (n_log n) (aq_entries req))"
    "current_term (n_state n') = aq_term req" "n_role n' = Follower"
    "n_leader n' = Some (aq_leader req)" "ar_term resp = aq_term req"
    "ar_match_index resp = last_index (n_log n')"
    using assms(1) le ok
    by (auto simp: handle_append_entries_def reset_heartbeat_def Let_def cur set_commit_index_def
        split: if_splits)
qed

lemma log_wf_cong:
  "l_entries l = l_entries l' \<Longrightarrow> l_first l = l_first l' \<Longrightarrow> l_snap_index l = l_snap_index l' \<Longrightarrow>
   log_wf l = log_wf l'"
  by (simp add: log_wf_def)

lemma set_commit_index_frame [simp]:
  "l_entries (set_commit_index l i) = l_entries l" "l_first (set_commit_index l i) = l_first l"
  "l_snap_index (set_commit_index l i) = l_snap_index l"
  "l_applied (set_commit_index l i) = l_applied l"
  "l_commit (set_commit_index l i) = max (l_commit l) i"
  by (auto simp: set_commit_index_def max_def)

lemma set_commit_index_view [simp]:
  "log_get (set_commit_index l i) = log_get l" "last_index (set_commit_index l i) = last_index l"
  "log_wf (set_commit_index l i) = log_wf l"
  by (simp_all add: log_get_def last_index_def log_wf_def fun_eq_iff Let_def)

lemma log_append_frame [simp]:
  "l_applied (fst (log_append l e)) = l_applied l" "l_commit (fst (log_append l e)) = l_commit l"
  "l_snap_index (fst (log_append l e)) = l_snap_index l"
  by (simp_all add: log_append_def)

lemma handle_append_wf:
  assumes "log_wf (n_log n)" "request_wf req"
  shows "log_wf (n_log (fst (handle_append_entries now n req)))"
proof (cases "ar_success (snd (handle_append_entries now n req))")
  case True
  obtain n' resp where h: "handle_append_entries now n req = (n', resp)" by force
  note s = handle_append_success [OF h]
  have ok: "ar_success resp" using True h by simp
  have "log_wf (merge_entries (n_log n) (aq_entries req))"
    using assms prev_check_passed [OF assms(1) s(1) [OF ok]]
    by (intro log_wf_merge_entries) (auto simp: request_wf_def)
  then show ?thesis using h log_wf_cong [OF s(2) [OF ok] s(3) [OF ok] s(4) [OF ok]] by simp
next
  case False
  then have "n_log (fst (handle_append_entries now n req)) = n_log n"
    by (auto simp: handle_append_entries_def reset_heartbeat_def Let_def split: option.splits)
  then show ?thesis using assms by simp
qed

section \<open>Applying committed entries\<close>

definition apply_entry ::
    "codec \<Rightarrow> 'sm backend \<Rightarrow> 'sm \<Rightarrow> log_entry \<Rightarrow> 'sm" where
  "apply_entry cd be sm e =
     (case cmd_decode cd (e_data e) of
        None \<Rightarrow> sm | Some command \<Rightarrow> snd (b_apply be sm command (e_index e)))"

text \<open>The entries after the last applied one, up to the commit index.\<close>

definition pending_entries :: "replicated_log \<Rightarrow> log_entry list" where
  "pending_entries l =
     take (unat (l_commit l) - unat (l_applied l))
       (drop (unat (l_applied l) - unat (l_snap_index l)) (l_entries l))"

definition applicable :: "replicated_log \<Rightarrow> bool" where
  "applicable l \<longleftrightarrow>
     log_wf l \<and> l_snap_index l \<le> l_applied l \<and> l_commit l \<le> last_index l"

lemma apply_one_fields:
  "n_sm (fst (apply_one cd be n e rs)) = apply_entry cd be (n_sm n) e"
  "n_log (fst (apply_one cd be n e rs)) = set_last_applied (n_log n) (e_index e)"
  "rs_last_applied (n_state (fst (apply_one cd be n e rs))) = e_index e"
  by (auto simp: apply_one_def apply_entry_def split: option.splits prod.splits)

lemma next_to_apply_step:
  assumes "applicable l" "l_applied l < l_commit l"
  obtains e where "next_to_apply l = Some e" "pending_entries l = e # pending_entries
      (set_last_applied l (e_index e))" "unat (e_index e) = unat (l_applied l) + 1"
      "applicable (set_last_applied l (e_index e))"
proof -
  let ?k = "unat (l_applied l) - unat (l_snap_index l)"
  let ?e = "l_entries l ! ?k"
  have wf: "log_wf l" and snap: "unat (l_snap_index l) \<le> unat (l_applied l)"
    and com: "unat (l_commit l) \<le> unat (l_snap_index l) + length (l_entries l)"
    and lt: "unat (l_applied l) < unat (l_commit l)"
    using assms by (auto simp: applicable_def u64_order unat_last_index log_len_def)
  have k: "?k < length (l_entries l)" using snap com lt by linarith
  have suc: "unat (l_applied l + 1) = unat (l_applied l) + 1"
    using lt unat_lt_u64 [of "l_commit l"] by (intro unat_Suc_u64) linarith
  have get: "next_to_apply l = Some ?e"
    using assms(2) wf snap k suc by (auto simp: next_to_apply_def log_get_alt log_len_def)
  then have idx: "e_index ?e = l_applied l + 1"
    using assms(2) log_get_index [OF wf] by (auto simp: next_to_apply_def)
  have "pending_entries l = ?e # pending_entries (set_last_applied l (e_index ?e))"
  proof -
    have "drop ?k (l_entries l) = ?e # drop (Suc ?k) (l_entries l)"
      using k by (rule Cons_nth_drop_Suc [symmetric])
    moreover have "unat (l_commit l) - unat (l_applied l) =
        Suc (unat (l_commit l) - unat (l_applied l + 1))" using lt suc by linarith
    moreover have "Suc ?k = unat (l_applied l + 1) - unat (l_snap_index l)"
      using snap suc by linarith
    ultimately show ?thesis
      by (simp add: pending_entries_def set_last_applied_def idx)
  qed
  moreover have "applicable (set_last_applied l (e_index ?e))"
    using assms(1) suc by (auto simp: applicable_def set_last_applied_def idx u64_order
        log_wf_def last_index_def)
  ultimately show thesis using that get idx suc by simp
qed

lemma apply_committed_loop_runs:
  assumes "applicable (n_log n)"
  shows "\<exists>n' rs'. apply_committed_loop cd be n rs = Some (n', rs') \<and>
    n_sm n' = foldl (apply_entry cd be) (n_sm n) (pending_entries (n_log n)) \<and>
    n_log n' = set_last_applied (n_log n) (max (l_applied (n_log n)) (l_commit (n_log n)))"
  using assms
proof (induction "unat (l_commit (n_log n)) - unat (l_applied (n_log n))" arbitrary: n rs)
  case 0
  then have "\<not> has_entries_to_apply (n_log n)" and "l_commit (n_log n) \<le> l_applied (n_log n)"
    by (auto simp: has_entries_to_apply_def u64_order)
  then show ?case
    using 0 by (simp add: apply_committed_loop.simps [of cd be n rs] pending_entries_def
        set_last_applied_def max_def)
next
  case (Suc k)
  then have lt: "l_applied (n_log n) < l_commit (n_log n)" by (simp add: u64_order)
  obtain e where e: "next_to_apply (n_log n) = Some e"
    "pending_entries (n_log n) = e # pending_entries (set_last_applied (n_log n) (e_index e))"
    "unat (e_index e) = unat (l_applied (n_log n)) + 1"
    "applicable (set_last_applied (n_log n) (e_index e))"
    using Suc.prems lt by (rule next_to_apply_step)
  let ?n = "fst (apply_one cd be n e rs)" and ?rs = "snd (apply_one cd be n e rs)"
  have le: "e_index e \<le> l_commit (n_log n)" using e(3) lt by (simp add: u64_order)
  have "k = unat (l_commit (n_log ?n)) - unat (l_applied (n_log ?n))"
    using Suc.hyps(2) e(3) by (simp add: apply_one_fields set_last_applied_def)
  from Suc.hyps(1) [OF this, of ?rs] e(4)
  obtain n' rs' where r: "apply_committed_loop cd be ?n ?rs = Some (n', rs')"
    "n_sm n' = foldl (apply_entry cd be) (n_sm ?n) (pending_entries (n_log ?n))"
    "n_log n' = set_last_applied (n_log ?n) (max (l_applied (n_log ?n)) (l_commit (n_log ?n)))"
    by (auto simp: apply_one_fields)
  have "apply_committed_loop cd be n rs = Some (n', rs')"
    using r(1) e(1) lt by (simp add: apply_committed_loop.simps [of cd be n rs]
        has_entries_to_apply_def)
  then show ?case
    using r(2,3) e(2) le lt by (simp add: apply_one_fields set_last_applied_def max_def)
qed

text \<open>Without the next entry the loop never ends.\<close>

lemma apply_committed_loop_stuck:
  assumes "has_entries_to_apply (n_log n)" "next_to_apply (n_log n) = None"
  shows "apply_committed_loop cd be n rs = None"
proof (rule ccontr)
  assume "\<not> ?thesis"
  then obtain r where r: "apply_committed_loop cd be n rs = Some r" by auto
  have "\<not> (has_entries_to_apply (n_log n) \<and> next_to_apply (n_log n) = None)"
  proof (rule apply_committed_loop.raw_induct
      [where P = "\<lambda>cd be n rs r. \<not> (has_entries_to_apply (n_log n) \<and> next_to_apply (n_log n) = None)",
        OF _ r])
    fix f :: "codec \<Rightarrow> 'a backend \<Rightarrow> 'a raft_node \<Rightarrow> command_result list \<Rightarrow>
        ('a raft_node \<times> command_result list) option" and cd be n rs r
    assume IH: "\<And>cd be n rs r. f cd be n rs = Some r \<Longrightarrow>
        \<not> (has_entries_to_apply (n_log n) \<and> next_to_apply (n_log n) = None)"
      and eq: "(if has_entries_to_apply (n_log n) then
          (case next_to_apply (n_log n) of
             Some entry \<Rightarrow> f cd be (fst (apply_one cd be n entry rs))
                 (snd (apply_one cd be n entry rs))
           | None \<Rightarrow> f cd be n rs)
        else Some (n, rs)) = Some r"
    show "\<not> (has_entries_to_apply (n_log n) \<and> next_to_apply (n_log n) = None)"
    proof
      assume stuck: "has_entries_to_apply (n_log n) \<and> next_to_apply (n_log n) = None"
      with eq have "f cd be n rs = Some r" by simp
      with IH stuck show False by blast
    qed
  qed
  with assms show False by blast
qed

text \<open>What is pending is determined by the lookups between the two positions.\<close>

lemma pending_entries_eq:
  assumes "applicable l" "l_applied l \<le> l_commit l"
  shows "pending_entries l =
    map (\<lambda>i. the (log_get l (of_nat i))) [unat (l_applied l) + 1 ..< unat (l_commit l) + 1]"
proof (rule nth_equalityI)
  have wf: "log_wf l" and snap: "unat (l_snap_index l) \<le> unat (l_applied l)"
    and com: "unat (l_commit l) \<le> unat (l_snap_index l) + log_len l"
    using assms(1) by (auto simp: applicable_def u64_order unat_last_index)
  have ac: "unat (l_applied l) \<le> unat (l_commit l)" using assms(2) by (simp add: u64_order)
  show len: "length (pending_entries l) =
      length (map (\<lambda>i. the (log_get l (of_nat i))) [unat (l_applied l) + 1 ..< unat (l_commit l) + 1])"
    using snap com ac by (simp add: pending_entries_def log_len_def del: upt_Suc)
  fix k
  assume "k < length (pending_entries l)"
  then have k: "k < unat (l_commit l) - unat (l_applied l)" using len by (simp del: upt_Suc)
  then have u: "unat (of_nat (unat (l_applied l) + 1 + k) :: u64) = unat (l_applied l) + 1 + k"
    using unat_lt_u64 [of "l_commit l"] by (intro unat_of_nat_u64) linarith
  have "log_get l (of_nat (unat (l_applied l) + 1 + k)) =
      Some (l_entries l ! (unat (l_applied l) + k - unat (l_snap_index l)))"
    unfolding log_get_alt [OF wf] u using k snap com by simp
  then show "pending_entries l ! k =
      map (\<lambda>i. the (log_get l (of_nat i))) [unat (l_applied l) + 1 ..< unat (l_commit l) + 1] ! k"
    using k snap com by (simp add: pending_entries_def log_len_def add.commute del: upt_Suc)
qed

section \<open>Properties\<close>

text \<open>A log of entries with the given terms, at indices 1, 2, ...\<close>

definition log_of_terms :: "raft_term list \<Rightarrow> replicated_log" where
  "log_of_terms ts =
     fst (log_append_entries log_new
       (map (\<lambda>k. entry_command 0 (of_nat (Suc k)) (ts ! k) [of_nat (Suc k)]) [0..<length ts]))"

lemmas log_eval = log_of_terms_def log_new_def log_append_entries_def log_append_def
  entry_command_def entry_noop_def entry_new_def last_index_def last_term_def term_at_def
  log_get_def log_get_range_def find_first_index_of_term_def truncate_from_def saturating_sub_def

definition sample_node :: "node_id \<Rightarrow> raft_term \<Rightarrow> node_role \<Rightarrow> raft_term list \<Rightarrow> kv_machine raft_node" where
  "sample_node i t r ts =
     (raft_new 0 i raft_config_default)
       \<lparr>n_state := raft_state_default\<lparr>current_term := t\<rparr>, n_role := r, n_log := log_of_terms ts\<rparr>"

lemmas node_eval = sample_node_def raft_new_def with_state_machine_def raft_state_default_def
  raft_config_default_def reset_heartbeat_def is_leader_def

text \<open>A follower accepts an append request exactly when the request's term is current and the
  follower's log has the request's previous term at its previous index (or that index is 0).
  A refused request changes neither the log nor the commit index.\<close>

theorem append_accept_iff:
  "(ar_success (snd (handle_append_entries now n req)) \<longleftrightarrow>
     current_term (n_state n) \<le> aq_term req \<and>
     (aq_prev_log_index req = 0 \<or>
      term_at (n_log n) (aq_prev_log_index req) = Some (aq_prev_log_term req))) \<and>
   (\<not> ar_success (snd (handle_append_entries now n req)) \<longrightarrow>
     n_log (fst (handle_append_entries now n req)) = n_log n \<and>
     commit_index (n_state (fst (handle_append_entries now n req))) = commit_index (n_state n))"
  by (auto simp: handle_append_entries_def prev_check_def append_reject_def reset_heartbeat_def
      Let_def not_less word_neq_0_conv split: option.splits if_splits)

theorem append_accept_iff_witness:
  "let n = sample_node ''b'' 3 Follower [1, 1]; req = \<lparr>aq_term = 2, aq_leader = ''a'',
     aq_prev_log_index = 0, aq_prev_log_term = 0, aq_entries = [], aq_leader_commit = 2\<rparr> in
   n_log (fst (handle_append_entries 0 n req)) = n_log n"
  using append_accept_iff [of 0 "sample_node ''b'' 3 Follower [1, 1]" "\<lparr>aq_term = 2, aq_leader = ''a'',
     aq_prev_log_index = 0, aq_prev_log_term = 0, aq_entries = [], aq_leader_commit = 2\<rparr>"]
  by (simp add: Let_def node_eval)

text \<open>C2: replication.  When a leader's request is accepted, the follower's log is well formed,
  holds at every index of the batch (above the follower's snapshot) an entry with the term
  the leader's own log has there, keeps every entry up to the previous index, and the
  follower has adopted the leader and its term.\<close>

theorem replication_step:
  assumes "log_wf (n_log ldr)" "log_wf (n_log n)" "create_append_entries ldr peer = Some req"
    and "handle_append_entries now n req = (n', resp)" "ar_success resp"
  shows "log_wf (n_log n') \<and>
    (\<forall>e \<in> set (aq_entries req). log_get (n_log ldr) (e_index e) = Some e \<and>
       (l_snap_index (n_log n) < e_index e \<longrightarrow>
          (\<exists>e'. log_get (n_log n') (e_index e) = Some e' \<and> e_term e' = e_term e))) \<and>
    (\<forall>i e. i \<le> aq_prev_log_index req \<and> log_get (n_log n) i = Some e \<longrightarrow>
       log_get (n_log n') i = Some e) \<and>
    n_role n' = Follower \<and> n_leader n' = Some (aq_leader req) \<and>
    current_term (n_state n') = aq_term req"
proof -
  have rw: "request_wf req" using create_append_entries_wf [OF assms(1,3)] .
  note ok = handle_append_success [OF assms(4,5)]
  have p: "aq_prev_log_index req \<le> last_index (n_log n)"
    using prev_check_passed [OF assms(2) ok(1)] .
  have get: "log_get (n_log n') = log_get (merge_entries (n_log n) (aq_entries req))"
    using ok(2,3) by (rule log_get_cong)
  have "log_wf (n_log n')"
    using handle_append_wf [OF assms(2) rw, of now] assms(4) by simp
  moreover have "\<exists>e'. log_get (n_log n') (e_index e) = Some e' \<and> e_term e' = e_term e"
    if "e \<in> set (aq_entries req)" "l_snap_index (n_log n) < e_index e" for e
    using merge_entries_matches [OF assms(2) _ p that] rw get by (simp add: request_wf_def)
  moreover have "log_get (n_log n') i = Some e"
    if "i \<le> aq_prev_log_index req" "log_get (n_log n) i = Some e" for i e
    using merge_entries_keeps [OF assms(2) _ p that(2), of "aq_entries req"] that(1) rw get
    by (simp add: request_wf_def)
  ultimately show ?thesis
    using ok create_append_entries_own [OF assms(1,3)] by blast
qed

lemma log_wf_of_terms:
  assumes "length ts < 2 ^ 64"
  shows "log_wf (log_of_terms ts)"
proof -
  have "consecutive (last_index log_new)
      (map (\<lambda>k. entry_command 0 (of_nat (Suc k)) (ts ! k) [of_nat (Suc k)]) [0..<length ts])"
    using assms by (simp add: consecutive_def last_index_def log_new_def entry_command_def
        entry_new_def unat_of_nat_u64 del: of_nat_Suc)
  from rlog.push_all [OF log_wf_new this] show ?thesis
    by (simp add: log_of_terms_def log_append_entries_foldl)
qed

theorem replication_step_witness:
  "\<exists>req n' resp.
     create_append_entries ((sample_node ''a'' 3 Leader [1, 3])\<lparr>n_next := [(''b'', 2)]\<rparr>) ''b'' = Some req \<and>
     handle_append_entries 0 (sample_node ''b'' 1 Follower [1, 1, 1]) req = (n', resp) \<and>
     ar_success resp \<and> log_wf (n_log n') \<and> log_get (n_log n') 1 = log_get (log_of_terms [1, 3]) 1"
proof -
  let ?a = "(sample_node ''a'' 3 Leader [1, 3])\<lparr>n_next := [(''b'', 2)]\<rparr>"
  let ?b = "sample_node ''b'' 1 Follower [1, 1, 1]"
  obtain req where req: "create_append_entries ?a ''b'' = Some req"
    and r: "aq_term req = 3" "aq_prev_log_index req = 1" "aq_prev_log_term req = 1"
    by (simp add: create_append_entries_def node_eval log_eval upt_rec)
  obtain n' resp where h: "handle_append_entries 0 ?b req = (n', resp)" by force
  have ok: "ar_success (snd (handle_append_entries 0 ?b req))"
    unfolding handle_append_entries_def using r
    by (simp add: prev_check_def node_eval log_eval upt_rec Let_def)
  have wf: "log_wf (n_log ?a)" "log_wf (n_log ?b)"
    by (simp_all add: node_eval log_wf_of_terms)
  have eq: "log_get (n_log ?b) 1 = log_get (log_of_terms [1, 3]) 1"
    "log_get (n_log ?b) 1 \<noteq> None"
    by (simp_all add: node_eval log_eval upt_rec)
  have suc: "ar_success resp" using ok h by simp
  note st = replication_step [OF wf req h suc]
  obtain e where e: "log_get (n_log ?b) 1 = Some e" using eq(2) by blast
  have "log_wf (n_log n')" using st by blast
  moreover have "log_get (n_log n') 1 = Some e" using st e r(2) by simp
  ultimately show ?thesis using req h suc e eq(1) by (intro exI conjI) simp_all
qed

text \<open>C3: applying.  When the committed entries are in the log, \<^verbatim>\<open>apply_committed\<close> ends: it feeds the
  state machine exactly the entries after the last applied one up to the commit index, each
  once and in order, marks them applied, and a second call finds nothing to do.\<close>

theorem apply_committed_exactly_once:
  assumes "applicable (n_log n)"
  shows "\<exists>n' results. apply_committed cd be n = Some (n', results) \<and>
    n_sm n' = foldl (apply_entry cd be) (n_sm n) (pending_entries (n_log n)) \<and>
    l_applied (n_log n') = max (l_applied (n_log n)) (l_commit (n_log n)) \<and>
    l_entries (n_log n') = l_entries (n_log n) \<and>
    apply_committed cd be n' = Some (n', [])"
proof -
  obtain n' rs where run: "apply_committed_loop cd be n [] = Some (n', rs)"
    and sm: "n_sm n' = foldl (apply_entry cd be) (n_sm n) (pending_entries (n_log n))"
    and l: "n_log n' = set_last_applied (n_log n) (max (l_applied (n_log n)) (l_commit (n_log n)))"
    using apply_committed_loop_runs [OF assms, of cd be "[]"] by blast
  have "\<not> has_entries_to_apply (n_log n')"
    by (simp add: l has_entries_to_apply_def set_last_applied_def not_less)
  then have "apply_committed_loop cd be n' [] = Some (n', [])"
    by (simp add: apply_committed_loop.simps)
  with run sm l show ?thesis
    by (auto simp: apply_committed_def set_last_applied_def)
qed

theorem apply_committed_exactly_once_witness:
  "\<exists>n' results. apply_committed sample_codec kv_backend
     ((sample_node ''a'' 1 Leader [1, 1])\<lparr>n_log := set_commit_index (log_of_terms [1, 1]) 2\<rparr>) =
       Some (n', results) \<and> l_applied (n_log n') = 2"
proof -
  let ?l = "set_commit_index (log_of_terms [1, 1]) 2"
  have "applicable ?l"
    unfolding applicable_def using log_wf_of_terms [of "[1, 1]"]
    by (simp add: log_wf_def log_eval upt_rec)
  then show ?thesis
    using apply_committed_exactly_once [of "(sample_node ''a'' 1 Leader [1, 1])\<lparr>n_log := ?l\<rparr>"
        sample_codec kv_backend]
    by (auto simp: log_eval upt_rec)
qed

end
