(* ===== verification/RaftCommit.thy ===== *)
theory RaftCommit
  imports RaftReplication
begin

text \<open>
  The commit rule of a leader and the transfer of snapshots.  The commit index moves to
  the upper median of the match indices; how many members are known to hold the entry
  follows from the order of the sorted list.  A snapshot sent in chunks arrives whole.
\<close>

section \<open>The upper median of a sorted list\<close>

lemma sorted_count_ge:
  assumes "sorted xs" "k < length xs"
  shows "length xs - k \<le> length (filter (\<lambda>x. xs ! k \<le> x) xs)"
proof -
  have "filter (\<lambda>x. xs ! k \<le> x) (drop k xs) = drop k xs"
    using assms by (intro filter_True) (auto simp: in_set_conv_nth sorted_iff_nth_mono)
  moreover have "filter (\<lambda>x. xs ! k \<le> x) xs =
      filter (\<lambda>x. xs ! k \<le> x) (take k xs) @ filter (\<lambda>x. xs ! k \<le> x) (drop k xs)"
    by (metis append_take_drop_id filter_append)
  ultimately show ?thesis by simp
qed

section \<open>Advancing the commit index\<close>

text \<open>What the leader knows each member of the cluster to hold: its peers' match indices
  and its own last index.\<close>

definition known_indices :: "'sm raft_node \<Rightarrow> log_index list" where
  "known_indices n = hm_values (n_match n) @ [last_index (n_log n)]"

definition holders :: "'sm raft_node \<Rightarrow> log_index \<Rightarrow> nat" where
  "holders n i = length (filter (\<lambda>x. i \<le> x) (known_indices n))"

lemma length_filter_sort: "length (filter P (sort xs)) = length (filter P xs)"
  by (simp add: filter_sort)

lemma median_holders:
  "length (known_indices n) - length (known_indices n) div 2
     \<le> holders n (match_indices n ! (length (match_indices n) div 2))"
proof -
  have len: "length (match_indices n) = length (known_indices n)"
    by (simp add: match_indices_def known_indices_def)
  have "length (match_indices n) div 2 < length (match_indices n)"
    by (simp add: match_indices_def)
  then have "length (match_indices n) - length (match_indices n) div 2
    \<le> length (filter (\<lambda>x. match_indices n ! (length (match_indices n) div 2) \<le> x) (match_indices n))"
    by (intro sorted_count_ge) (simp_all add: match_indices_def)
  then show ?thesis
    by (simp add: len holders_def match_indices_def known_indices_def length_filter_sort)
qed

lemma try_advance_cases:
  "try_advance_commit_index n = n \<or>
     (let c = match_indices n ! (length (match_indices n) div 2) in
      commit_index (n_state n) < c \<and> term_at (n_log n) c = Some (current_term (n_state n)) \<and>
      try_advance_commit_index n =
        n\<lparr>n_state := (n_state n)\<lparr>commit_index := c\<rparr>, n_log := set_commit_index (n_log n) c\<rparr>)"
  by (auto simp: try_advance_commit_index_def Let_def split: option.splits)

lemma try_advance_holders:
  assumes "commit_index (n_state (try_advance_commit_index n)) \<noteq> commit_index (n_state n)"
  shows "length (known_indices n) - length (known_indices n) div 2
      \<le> holders n (commit_index (n_state (try_advance_commit_index n)))"
    and "term_at (n_log n) (commit_index (n_state (try_advance_commit_index n))) =
      Some (current_term (n_state n))"
    and "commit_index (n_state n) < commit_index (n_state (try_advance_commit_index n))"
  using assms try_advance_cases [of n] median_holders [of n] by (auto simp: Let_def)

section \<open>Sending a snapshot in chunks\<close>

text \<open>
  A leader asks for the chunk at \<open>offset\<close>, the follower handles it, and the next offset
  is past the bytes sent, until the last chunk.  \<open>None\<close>: the fuel ran out, nothing was to
  be sent, or the leader panicked.
\<close>

fun transfer ::
    "codec \<Rightarrow> 'sm backend \<Rightarrow> nat \<Rightarrow> 'sm raft_node \<Rightarrow> node_id \<Rightarrow> nat \<Rightarrow> u64 \<Rightarrow>
     'sm raft_node \<Rightarrow> 'sm raft_node option" where
  "transfer cd be now ldr peer 0 offset n = None"
| "transfer cd be now ldr peer (Suc fuel) offset n =
     (case create_install_snapshot cd be ldr peer offset of
        Returns (Some req) \<Rightarrow>
          (let n' = fst (handle_install_snapshot cd be now n req)
           in if iq_done req then Some n'
              else transfer cd be now ldr peer fuel (offset + of_nat (length (iq_data req))) n')
      | _ \<Rightarrow> None)"

text \<open>The leader has a snapshot the peer needs.\<close>

definition sends_snapshot ::
    "codec \<Rightarrow> 'sm backend \<Rightarrow> 'sm raft_node \<Rightarrow> node_id \<Rightarrow> snapshot_metadata \<Rightarrow> bytes \<Rightarrow> bool" where
  "sends_snapshot cd be ldr peer meta data \<longleftrightarrow>
     is_leader ldr \<and> peer_needs_snapshot ldr peer \<and> get_snapshot_data cd be ldr = Some (meta, data) \<and>
     length data < 2 ^ 63"

definition chunk_request ::
    "codec \<Rightarrow> 'sm raft_node \<Rightarrow> snapshot_metadata \<Rightarrow> bytes \<Rightarrow> nat \<Rightarrow> install_request" where
  "chunk_request cd ldr meta data k =
     \<lparr>iq_term = current_term (n_state ldr), iq_leader = n_id ldr,
      iq_last_index = sm_last_index meta, iq_last_term = sm_last_term meta,
      iq_offset = of_nat k, iq_data = take 65536 (drop k data),
      iq_done = (length data \<le> k + 65536),
      iq_checksum = (if length data \<le> k + 65536 then Some (crc32 cd data) else None)\<rparr>"

lemma create_chunk:
  assumes "sends_snapshot cd be ldr peer meta data" "k \<le> length data"
  shows "create_install_snapshot cd be ldr peer (of_nat k) =
    Returns (Some (chunk_request cd ldr meta data k))"
proof -
  obtain nxt where nxt: "hm_get (n_next ldr) peer = Some nxt" "\<not> nxt > sm_last_index meta"
    and get: "get_snapshot_data cd be ldr = Some (meta, data)" and ldr: "is_leader ldr"
    and len: "length data < 2 ^ 63"
    using assms(1)
    by (auto simp: sends_snapshot_def peer_needs_snapshot_def get_snapshot_data_def not_less
        split: option.splits)
  have u: "unat (of_nat k :: u64) = k" "unat (of_nat (length data) :: u64) = length data"
    using len assms(2) by (simp_all add: unat_of_nat_u64)
  have c: "unat snapshot_chunk_size = 65536" by (simp add: snapshot_chunk_size_def)
  have sum: "unat (of_nat k + snapshot_chunk_size) = k + 65536"
    using u(1) c len assms(2) by (simp add: unat_add_u64)
  let ?stop = "min (of_nat k + snapshot_chunk_size) (of_nat (length data))"
  have stop: "unat ?stop = min (k + 65536) (length data)"
    using sum u(2) by (simp add: min_def u64_order)
  have "\<not> of_nat k > ?stop" using stop u(1) assms(2) by (simp add: u64_order)
  moreover have "?stop \<ge> of_nat (length data) \<longleftrightarrow> length data \<le> k + 65536"
    using stop u(2) by (simp add: u64_order min_def)
  moreover have "take (unat ?stop - unat (of_nat k :: u64)) (drop k data) = take 65536 (drop k data)"
    using stop u(1) assms(2) by (auto simp: min_def)
  ultimately show ?thesis
    using nxt get ldr u(1)
    by (simp add: create_install_snapshot_def chunk_request_def Let_def)
qed

text \<open>What the follower holds before the chunk at \<open>k\<close>.\<close>

definition receiving :: "snapshot_metadata \<Rightarrow> bytes \<Rightarrow> nat \<Rightarrow> 'sm raft_node \<Rightarrow> bool" where
  "receiving meta data k n \<longleftrightarrow>
     k = 0 \<or>
     n_pending n = Some \<lparr>p_metadata = \<lparr>sm_last_index = sm_last_index meta,
       sm_last_term = sm_last_term meta, sm_size = 0\<rparr>, p_data = take k data, p_offset = of_nat k\<rparr>"

text \<open>The parts of a node that a chunk which is not the last leaves alone.\<close>

definition same_core :: "'sm raft_node \<Rightarrow> 'sm raft_node \<Rightarrow> bool" where
  "same_core n n' \<longleftrightarrow>
     n_sm n' = n_sm n \<and> n_log n' = n_log n \<and>
     commit_index (n_state n') = commit_index (n_state n)"

lemma of_nat_u64_0: "k < 2 ^ 64 \<Longrightarrow> (of_nat k :: u64) = 0 \<longleftrightarrow> k = 0"
  by (simp add: u64_eq_iff_unat unat_of_nat_u64)

lemma receive_chunk:
  assumes "receiving meta data k n" "k < length data" "\<not> length data \<le> k + 65536"
    "length data < 2 ^ 63" "current_term (n_state n) \<le> current_term (n_state ldr)"
  shows "let n' = fst (handle_install_snapshot cd be now n (chunk_request cd ldr meta data k)) in
    receiving meta data (k + 65536) n' \<and> same_core n n' \<and>
    current_term (n_state n') = current_term (n_state ldr)"
proof -
  have len: "length (take 65536 (drop k data)) = 65536" using assms(3) by simp
  have "take k data @ take 65536 (drop k data) = take (k + 65536) data"
    by (simp add: take_add)
  moreover have "(of_nat k :: u64) = 0 \<longleftrightarrow> k = 0"
    using assms(2,4) by (intro of_nat_u64_0) simp
  ultimately show ?thesis
    using assms len
    by (auto simp: handle_install_snapshot_def chunk_request_def receiving_def same_core_def
        reset_heartbeat_def Let_def not_less add.commute)
qed

lemma receive_last_chunk:
  assumes "receiving meta data k n" "k \<le> length data" "length data \<le> k + 65536"
    "length data < 2 ^ 63" "current_term (n_state n) \<le> current_term (n_state ldr)"
    "snap_decode cd data = Some snap"
  shows "let n' = fst (handle_install_snapshot cd be now n (chunk_request cd ldr meta data k)) in
    n_sm n' = b_restore be (n_sm n) snap \<and> n_pending n' = None \<and>
    rs_last_applied (n_state n') = sm_last_index meta \<and>
    l_applied (n_log n') = sm_last_index meta \<and>
    commit_index (n_state n') = max (commit_index (n_state n)) (sm_last_index meta) \<and>
    current_term (n_state n') = current_term (n_state ldr) \<and>
    l_entries (n_log n') = l_entries (compact (n_log n) (sm_last_index meta) (sm_last_term meta))"
proof -
  have "take k data @ take 65536 (drop k data) = data"
    using assms(3) by (metis append_take_drop_id length_drop take_all_iff diff_le_mono diff_add_inverse)
  moreover have "(of_nat k :: u64) = 0 \<longleftrightarrow> k = 0"
    using assms(2,4) by (intro of_nat_u64_0) simp
  ultimately show ?thesis
    using assms
    by (auto simp: handle_install_snapshot_def chunk_request_def receiving_def install_restored_def
        set_last_applied_def reset_heartbeat_def Let_def not_less)
qed

lemma transfer_from:
  assumes "sends_snapshot cd be ldr peer meta data" "snap_decode cd data = Some snap"
    and "k \<le> length data" "receiving meta data k n"
    and "current_term (n_state n) \<le> current_term (n_state ldr)"
    and "length data < fuel * 65536 + k"
  shows "\<exists>n'. transfer cd be now ldr peer fuel (of_nat k) n = Some n' \<and>
    n_sm n' = b_restore be (n_sm n) snap \<and> n_pending n' = None \<and>
    l_applied (n_log n') = sm_last_index meta \<and>
    commit_index (n_state n') = max (commit_index (n_state n)) (sm_last_index meta)"
  using assms(3-6)
proof (induction fuel arbitrary: k n)
  case 0
  then show ?case by simp
next
  case (Suc fuel)
  let ?req = "chunk_request cd ldr meta data k"
  let ?n = "fst (handle_install_snapshot cd be now n ?req)"
  have len: "length data < 2 ^ 63" using assms(1) by (simp add: sends_snapshot_def)
  note create = create_chunk [OF assms(1) Suc.prems(1)]
  show ?case
  proof (cases "length data \<le> k + 65536")
    case True
    then have "iq_done ?req" by (simp add: chunk_request_def)
    with create have "transfer cd be now ldr peer (Suc fuel) (of_nat k) n = Some ?n"
      by (simp add: Let_def)
    with receive_last_chunk [OF Suc.prems(2,1) True len Suc.prems(3) assms(2), of be now]
    show ?thesis by (auto simp: Let_def)
  next
    case False
    have k: "k < length data" using False by simp
    have "\<not> iq_done ?req" "length (iq_data ?req) = 65536"
      using False by (simp_all add: chunk_request_def)
    with create have eq: "transfer cd be now ldr peer (Suc fuel) (of_nat k) n =
        transfer cd be now ldr peer fuel (of_nat (k + 65536)) ?n"
      by (simp add: Let_def)
    have step: "receiving meta data (k + 65536) ?n" "same_core n ?n"
      "current_term (n_state ?n) = current_term (n_state ldr)"
      using receive_chunk [OF Suc.prems(2) k False len Suc.prems(3), of cd be now]
      by (simp_all add: Let_def)
    have "\<exists>n'. transfer cd be now ldr peer fuel (of_nat (k + 65536)) ?n = Some n' \<and>
        n_sm n' = b_restore be (n_sm ?n) snap \<and> n_pending n' = None \<and>
        l_applied (n_log n') = sm_last_index meta \<and>
        commit_index (n_state n') = max (commit_index (n_state ?n)) (sm_last_index meta)"
      using False step Suc.prems(4) by (intro Suc.IH) auto
    then show ?thesis
      using eq step(2) by (simp add: same_core_def)
  qed
qed

section \<open>Properties\<close>

text \<open>C4: in a cluster of odd size, a leader advances its commit index only forward, only to an
  entry of its own term, and only when a quorum (itself included) is recorded as holding
  everything up to that index.\<close>

theorem commit_needs_quorum:
  assumes "commit_index (n_state (try_advance_commit_index n)) \<noteq> commit_index (n_state n)"
    and "odd (cluster_size n)" "hm_len (n_match n) = length (n_peers n)"
  shows "let c = commit_index (n_state (try_advance_commit_index n)) in
    commit_index (n_state n) < c \<and> term_at (n_log n) c = Some (current_term (n_state n)) \<and>
    quorum_size n \<le> holders n c"
proof -
  have "length (known_indices n) = cluster_size n"
    using assms(3) by (simp add: known_indices_def cluster_size_def)
  then have "quorum_size n = length (known_indices n) - length (known_indices n) div 2"
    using assms(2) by (auto simp: quorum_size_def elim!: oddE)
  with try_advance_holders [OF assms(1)] show ?thesis by (simp add: Let_def)
qed

text \<open>A leader of a cluster with the given match indices of its peers.\<close>

definition sample_leader :: "raft_term \<Rightarrow> raft_term list \<Rightarrow> (node_id, log_index) hmap \<Rightarrow> kv_machine raft_node" where
  "sample_leader t ts acks =
     (sample_node ''a'' t Leader ts)\<lparr>n_peers := hm_keys acks, n_match := acks,
       n_next := map (\<lambda>(p, i). (p, i + 1)) acks\<rparr>"

theorem commit_needs_quorum_witness:
  "let n = sample_leader 1 [1, 1] [(''b'', 2), (''c'', 0)] in
   commit_index (n_state (try_advance_commit_index n)) = 2 \<and> quorum_size n \<le> holders n 2"
proof -
  let ?n = "sample_leader 1 [1, 1] [(''b'', 2), (''c'', 0)]"
  have c: "commit_index (n_state (try_advance_commit_index ?n)) = 2"
    by (simp add: try_advance_commit_index_def sample_leader_def node_eval log_eval upt_rec
        match_indices_def)
  have "quorum_size ?n \<le> holders ?n 2"
    using commit_needs_quorum [of ?n] unfolding c
    by (simp add: sample_leader_def node_eval cluster_size_def Let_def)
  with c show ?thesis by (simp add: Let_def)
qed

text \<open>In a cluster of even size the rule is too weak.  A leader of four members commits an
  entry that only it and one other member hold, although its quorum is three.\<close>

theorem even_cluster_commits_without_quorum:
  "let n = sample_leader 1 [1, 1] [(''b'', 2), (''c'', 0), (''d'', 0)] in
   cluster_size n = 4 \<and> quorum_size n = 3 \<and> holders n 2 = 2 \<and>
   commit_index (n_state n) = 0 \<and> commit_index (n_state (try_advance_commit_index n)) = 2"
  by (simp add: try_advance_commit_index_def sample_leader_def node_eval log_eval upt_rec
      match_indices_def cluster_size_def quorum_size_def holders_def known_indices_def Let_def)

text \<open>C20: a snapshot survives its transfer.  Whatever the size of the encoded snapshot (below
  \<open>2^63\<close> bytes), with one call per 64 KiB chunk the transfer ends, no call panics, and the
  follower's state machine is the one restored from the leader's snapshot; its applied
  index is the snapshot's and its commit index is at least that.\<close>

theorem snapshot_transfer:
  assumes "is_leader ldr" "peer_needs_snapshot ldr peer"
    and "get_snapshot_data cd be ldr = Some (meta, data)" "length data < 2 ^ 63"
    and "snap_decode cd data = Some snap"
    and "current_term (n_state n) \<le> current_term (n_state ldr)"
  shows "\<exists>n'. transfer cd be now ldr peer (length data div 65536 + 1) 0 n = Some n' \<and>
    n_sm n' = b_restore be (n_sm n) snap \<and> n_pending n' = None \<and>
    l_applied (n_log n') = sm_last_index meta \<and>
    commit_index (n_state n') = max (commit_index (n_state n)) (sm_last_index meta)"
proof -
  have "length data < (length data div 65536 + 1) * 65536 + 0"
    using div_mult_mod_eq [of "length data" 65536] mod_less_divisor [of 65536 "length data"]
    by simp
  then show ?thesis
    using transfer_from [of cd be ldr peer meta data snap 0 n "length data div 65536 + 1" now] assms
    by (simp add: sends_snapshot_def receiving_def)
qed

definition sample_sender :: "kv_machine raft_node" where
  "sample_sender = (sample_leader 1 [1, 1] [(''b'', 0)])
     \<lparr>n_snap_meta := Some \<lparr>sm_last_index = 2, sm_last_term = 1, sm_size = 0\<rparr>\<rparr>"

theorem snapshot_transfer_witness:
  "\<exists>n'. transfer sample_codec kv_backend 0 sample_sender ''b'' 2 0
      (sample_node ''b'' 1 Follower []) = Some n' \<and>
    n_sm n' = kv_new \<and> l_applied (n_log n') = 2"
proof -
  let ?meta = "\<lparr>sm_last_index = 2, sm_last_term = 1, sm_size = 0\<rparr>"
  let ?data = "replicate 70000 (0 :: u8)"
  have "is_leader sample_sender" "peer_needs_snapshot sample_sender ''b''"
    "get_snapshot_data sample_codec kv_backend sample_sender = Some (?meta, ?data)"
    "length ?data < 2 ^ 63" "snap_decode sample_codec ?data = Some (kv_snapshot kv_new)"
    "current_term (n_state (sample_node ''b'' 1 Follower [])) \<le> current_term (n_state sample_sender)"
    by (simp_all add: sample_sender_def sample_leader_def node_eval peer_needs_snapshot_def
        get_snapshot_data_def sample_codec_def)
  from snapshot_transfer [OF this, of 0] obtain n' where
    t: "transfer sample_codec kv_backend 0 sample_sender ''b'' (length ?data div 65536 + 1) 0
        (sample_node ''b'' 1 Follower []) = Some n'"
    and n': "n_sm n' = b_restore kv_backend (n_sm (sample_node ''b'' 1 Follower [])) (kv_snapshot kv_new)"
      "l_applied (n_log n') = sm_last_index ?meta" by blast
  have "length ?data div 65536 + 1 = 2" by simp
  with t n' show ?thesis
    by (intro exI [of _ n'] conjI) (simp_all only: kv_backend_def backend.simps kv_restore_snapshot
        snapshot_metadata.simps)
qed

section \<open>Scenarios the code does not handle\<close>

text \<open>One round of replication between a leader and one peer.\<close>

definition exchange ::
    "nat \<Rightarrow> node_id \<Rightarrow> 'sm raft_node \<times> 'sm raft_node \<Rightarrow> 'sm raft_node \<times> 'sm raft_node" where
  "exchange now peer s =
     (case s of (ldr, f) \<Rightarrow>
        case create_append_entries ldr peer of
          None \<Rightarrow> (ldr, f)
        | Some req \<Rightarrow>
            (let (f', resp) = handle_append_entries now f req
             in (handle_append_entries_response now ldr peer resp, f')))"

text \<open>A follower reports its own last index as matched, even past the entries the request
  covered.  With a batch limit of one, the leader's entry 3 is committed although the only
  follower that answered holds a different entry there and the third member holds none.\<close>

theorem match_index_overclaims:
  "let ldr = (sample_leader 3 [1, 1, 3] [(''b'', 0), (''c'', 0)])
         \<lparr>n_next := [(''b'', 2), (''c'', 2)],
          n_config := raft_config_default\<lparr>max_entries_per_request := 1\<rparr>\<rparr>;
       f = sample_node ''b'' 2 Follower [1, 1, 2, 2];
       (ldr', f') = exchange 0 ''b'' (ldr, f) in
   commit_index (n_state ldr') = 3 \<and> term_at (n_log ldr') 3 = Some 3 \<and>
   term_at (n_log f') 3 = Some 2 \<and> hm_get (n_match ldr') ''c'' = Some 0"
  by (simp add: exchange_def create_append_entries_def handle_append_entries_def prev_check_def
      merge_entries_def handle_append_entries_response_def try_advance_commit_index_def
      match_indices_def set_commit_index_def extend_lease_def quorum_size_def cluster_size_def
      sample_leader_def node_eval log_eval upt_rec Let_def)

lemma find_first_loop_numeral:
  "find_first_loop l t (numeral v) =
     (case term_at l (numeral v) of
        Some t' \<Rightarrow> if t' \<noteq> t then numeral v + 1 else find_first_loop l t (pred_numeral v)
      | None \<Rightarrow> find_first_loop l t (pred_numeral v))"
proof -
  have "(of_nat (Suc (pred_numeral v)) :: u64) = numeral v"
    by (simp only: numeral_eq_Suc [symmetric] of_nat_numeral)
  then show ?thesis
    by (simp only: numeral_eq_Suc [of v] find_first_loop.simps Let_def)
qed

text \<open>The first index of a term is looked for downwards from the end of the log, so when the
  conflicting term is not the last one the answer is past the end.  A leader with terms
  1,3,3,3,3,4 and a follower with terms 1,1,2,2 then repeat the same two refused requests
  for ever: after any even number of rounds both are where they were, and no entry moved.\<close>

theorem conflict_backoff_livelock:
  "let ldr = (sample_leader 4 [1, 3, 3, 3, 3, 4] [(''b'', 0), (''c'', 0)])
         \<lparr>n_next := [(''b'', 5), (''c'', 5)]\<rparr>;
       f = (sample_node ''b'' 4 Follower [1, 1, 2, 2])\<lparr>n_leader := Some ''a''\<rparr> in
   (exchange 0 ''b'' ^^ (2 * k)) (ldr, f) = (ldr, f) \<and>
   n_log (snd (exchange 0 ''b'' (ldr, f))) = n_log f"
proof -
  let ?ldr = "\<lambda>i. (sample_leader 4 [1, 3, 3, 3, 3, 4] [(''b'', 0), (''c'', 0)])
         \<lparr>n_next := [(''b'', i), (''c'', 5)]\<rparr>"
  let ?f = "(sample_node ''b'' 4 Follower [1, 1, 2, 2])\<lparr>n_leader := Some ''a''\<rparr>"
  have round: "exchange 0 ''b'' (?ldr 5, ?f) = (?ldr 3, ?f)" "exchange 0 ''b'' (?ldr 3, ?f) = (?ldr 5, ?f)"
    by (simp_all add: exchange_def create_append_entries_def handle_append_entries_def prev_check_def
      append_reject_def handle_append_entries_response_def sample_leader_def node_eval log_eval
      upt_rec Let_def find_first_loop_numeral)
  have "(exchange 0 ''b'' ^^ (2 * k)) (?ldr 5, ?f) = (?ldr 5, ?f)"
    by (induction k) (simp_all add: round)
  with round show ?thesis by (simp add: Let_def)
qed

text \<open>A snapshot older than the follower's own is installed all the same: the log is not
  compacted, but the applied index and the state machine go back, and the loop that applies
  committed entries then never ends, because the entry after the old snapshot is gone.\<close>

theorem stale_snapshot_hangs_apply:
  "let l = compact (set_commit_index (log_of_terms [1, 1, 1]) 3) 2 1;
       n = (sample_node ''b'' 1 Follower [])\<lparr>n_log := set_last_applied l 3,
             n_state := raft_state_default\<lparr>current_term := 1, commit_index := 3, rs_last_applied := 3\<rparr>\<rparr>;
       req = \<lparr>iq_term = 1, iq_leader = ''a'', iq_last_index = 1, iq_last_term = 1, iq_offset = 0,
              iq_data = replicate 70000 0, iq_done = True, iq_checksum = None\<rparr>;
       n' = fst (handle_install_snapshot sample_codec kv_backend 0 n req) in
   apply_committed sample_codec kv_backend n = Some (n, []) \<and>
   apply_committed sample_codec kv_backend n' = None"
proof -
  let ?l = "compact (set_commit_index (log_of_terms [1, 1, 1]) 3) 2 1"
  let ?n = "(sample_node ''b'' 1 Follower [])\<lparr>n_log := set_last_applied ?l 3,
     n_state := raft_state_default\<lparr>current_term := 1, commit_index := 3, rs_last_applied := 3\<rparr>\<rparr>"
  let ?req = "\<lparr>iq_term = 1, iq_leader = ''a'', iq_last_index = 1, iq_last_term = 1, iq_offset = 0,
     iq_data = replicate 70000 0, iq_done = True, iq_checksum = None\<rparr>"
  let ?n' = "fst (handle_install_snapshot sample_codec kv_backend 0 ?n ?req)"
  have l: "n_log ?n' = set_last_applied (set_last_applied ?l 3) 1"
    by (simp add: handle_install_snapshot_def install_restored_def sample_codec_def kv_backend_def
        node_eval log_eval upt_rec compact_def set_commit_index_def set_last_applied_def Let_def)
  have "has_entries_to_apply (n_log ?n')" "next_to_apply (n_log ?n') = None"
    unfolding l by (simp_all add: has_entries_to_apply_def next_to_apply_def log_eval upt_rec
        compact_def set_commit_index_def set_last_applied_def)
  then have "apply_committed sample_codec kv_backend ?n' = None"
    unfolding apply_committed_def by (rule apply_committed_loop_stuck)
  moreover have "\<not> has_entries_to_apply (n_log ?n)"
    by (simp add: has_entries_to_apply_def log_eval upt_rec compact_def set_commit_index_def
        set_last_applied_def)
  then have "apply_committed sample_codec kv_backend ?n = Some (?n, [])"
    by (simp add: apply_committed_def apply_committed_loop.simps)
  ultimately show ?thesis by (simp only: Let_def)
qed

end
