(* ===== verification/Cluster.thy ===== *)
theory Cluster
  imports RaftNode
begin

text \<open>
  Cluster membership and failure detection, \<^verbatim>\<open>crates/aegis-replication/src/node.rs\<close> and
  \<^verbatim>\<open>cluster.rs\<close>: the record of a node, the table of nodes with its health checks, and the
  state of the cluster derived from it.  Readings of the clock are the argument \<open>now\<close>, in
  milliseconds; a floating point number, which this code only stores, is its 64-bit pattern.
\<close>

section \<open>Nodes\<close>

datatype node_status = NsStarting | NsHealthy | NsSuspect | NsDown | NsLeaving | NsLeft

record node_capacity =
  nc_cpu_cores :: u32
  nc_memory_mb :: u64
  nc_storage_gb :: u64
  nc_network_mbps :: u32

definition capacity_new :: "u32 \<Rightarrow> u64 \<Rightarrow> u64 \<Rightarrow> node_capacity" where
  "capacity_new cpu mem storage =
     \<lparr>nc_cpu_cores = cpu, nc_memory_mb = mem, nc_storage_gb = storage, nc_network_mbps = 1000\<rparr>"

record node_metadata =
  nm_datacenter :: "string option"
  nm_rack :: "string option"
  nm_zone :: "string option"
  nm_tags :: "string list"
  nm_capacity :: "node_capacity option"

definition metadata_default :: node_metadata where
  "metadata_default =
     \<lparr>nm_datacenter = None, nm_rack = None, nm_zone = None, nm_tags = [], nm_capacity = None\<rparr>"

definition with_datacenter :: "node_metadata \<Rightarrow> string \<Rightarrow> node_metadata" where
  "with_datacenter m dc = m\<lparr>nm_datacenter := Some dc\<rparr>"

definition with_rack :: "node_metadata \<Rightarrow> string \<Rightarrow> node_metadata" where
  "with_rack m r = m\<lparr>nm_rack := Some r\<rparr>"

definition with_zone :: "node_metadata \<Rightarrow> string \<Rightarrow> node_metadata" where
  "with_zone m z = m\<lparr>nm_zone := Some z\<rparr>"

definition with_tag :: "node_metadata \<Rightarrow> string \<Rightarrow> node_metadata" where
  "with_tag m t = m\<lparr>nm_tags := nm_tags m @ [t]\<rparr>"

record node_info =
  ni_id :: node_id
  ni_address :: string
  ni_port :: "16 word"
  ni_status :: node_status
  ni_role :: node_role
  ni_joined_at :: u64
  ni_last_heartbeat :: u64
  ni_metadata :: node_metadata

definition node_new :: "u64 \<Rightarrow> node_id \<Rightarrow> string \<Rightarrow> 16 word \<Rightarrow> node_info" where
  "node_new now i address port =
     \<lparr>ni_id = i, ni_address = address, ni_port = port, ni_status = NsStarting, ni_role = Follower,
      ni_joined_at = now, ni_last_heartbeat = now, ni_metadata = metadata_default\<rparr>"

definition node_heartbeat :: "u64 \<Rightarrow> node_info \<Rightarrow> node_info" where
  "node_heartbeat now n =
     n\<lparr>ni_last_heartbeat := now,
       ni_status := (if ni_status n = NsSuspect then NsHealthy else ni_status n)\<rparr>"

definition mark_healthy :: "u64 \<Rightarrow> node_info \<Rightarrow> node_info" where
  "mark_healthy now n = node_heartbeat now (n\<lparr>ni_status := NsHealthy\<rparr>)"

definition mark_suspect :: "node_info \<Rightarrow> node_info" where
  "mark_suspect n = (if ni_status n = NsHealthy then n\<lparr>ni_status := NsSuspect\<rparr> else n)"

definition mark_down :: "node_info \<Rightarrow> node_info" where
  "mark_down n = n\<lparr>ni_status := NsDown\<rparr>"

definition node_is_available :: "node_info \<Rightarrow> bool" where
  "node_is_available n \<longleftrightarrow> ni_status n = NsHealthy"

definition node_is_leader :: "node_info \<Rightarrow> bool" where
  "node_is_leader n \<longleftrightarrow> ni_role n = Leader"

definition heartbeat_age :: "u64 \<Rightarrow> node_info \<Rightarrow> u64" where
  "heartbeat_age now n = saturating_sub now (ni_last_heartbeat n)"

record node_health =
  nh_node_id :: node_id
  nh_healthy :: bool
  nh_cpu_usage :: f64
  nh_memory_usage :: f64
  nh_disk_usage :: f64
  nh_latency_ms :: u64
  nh_checked_at :: u64

definition health_healthy :: "u64 \<Rightarrow> node_id \<Rightarrow> node_health" where
  "health_healthy now i =
     \<lparr>nh_node_id = i, nh_healthy = True, nh_cpu_usage = 0, nh_memory_usage = 0, nh_disk_usage = 0,
      nh_latency_ms = 0, nh_checked_at = now\<rparr>"

definition health_unhealthy :: "u64 \<Rightarrow> node_id \<Rightarrow> node_health" where
  "health_unhealthy now i =
     \<lparr>nh_node_id = i, nh_healthy = False, nh_cpu_usage = 0, nh_memory_usage = 0, nh_disk_usage = 0,
      nh_latency_ms = 0, nh_checked_at = now\<rparr>"

section \<open>The cluster\<close>

record cluster_config =
  cc_cluster_id :: string
  cc_min_nodes :: nat
  cc_max_nodes :: nat
  cc_heartbeat_interval :: u64
  cc_failure_timeout :: u64
  cc_replication_factor :: nat
  cc_quorum_size :: nat

definition cluster_config_default :: cluster_config where
  "cluster_config_default =
     \<lparr>cc_cluster_id = ''aegis-cluster'', cc_min_nodes = 1, cc_max_nodes = 100, cc_heartbeat_interval = 1000,
      cc_failure_timeout = 5000, cc_replication_factor = 3, cc_quorum_size = 2\<rparr>"

definition cluster_config_new :: "string \<Rightarrow> cluster_config" where
  "cluster_config_new i = cluster_config_default\<lparr>cc_cluster_id := i\<rparr>"

definition with_replication_factor :: "cluster_config \<Rightarrow> nat \<Rightarrow> cluster_config" where
  "with_replication_factor c factor =
     c\<lparr>cc_replication_factor := factor, cc_quorum_size := factor div 2 + 1\<rparr>"

definition with_cluster_heartbeat :: "cluster_config \<Rightarrow> u64 \<Rightarrow> cluster_config" where
  "with_cluster_heartbeat c i = c\<lparr>cc_heartbeat_interval := i\<rparr>"

definition with_failure_timeout :: "cluster_config \<Rightarrow> u64 \<Rightarrow> cluster_config" where
  "with_failure_timeout c t = c\<lparr>cc_failure_timeout := t\<rparr>"

datatype cluster_state = CsInitializing | CsForming | CsHealthy | CsDegraded | CsNoQuorum | CsShuttingDown

datatype cluster_error =
    NodeUnknown node_id | NodeAlreadyExists node_id | MaxNodesReached | CannotRemoveLocalNode
  | ClusterNoQuorum | ClusterNotLeader | ConfigurationError string

record membership =
  cm_config :: cluster_config
  cm_state :: cluster_state
  cm_nodes :: "(node_id, node_info) hmap"
  cm_leader :: "node_id option"
  cm_local :: node_id
  cm_health :: "(node_id, node_health) hmap"

definition cluster_new :: "node_info \<Rightarrow> cluster_config \<Rightarrow> membership" where
  "cluster_new local_node config =
     \<lparr>cm_config = config, cm_state = CsInitializing, cm_nodes = [(ni_id local_node, local_node)],
      cm_leader = None, cm_local = ni_id local_node, cm_health = []\<rparr>"

definition cm_set_state :: "membership \<Rightarrow> cluster_state \<Rightarrow> membership" where
  "cm_set_state c s = c\<lparr>cm_state := s\<rparr>"

definition cm_set_leader :: "membership \<Rightarrow> node_id option \<Rightarrow> membership" where
  "cm_set_leader c l = c\<lparr>cm_leader := l\<rparr>"

definition cm_is_leader :: "membership \<Rightarrow> bool" where
  "cm_is_leader c \<longleftrightarrow> cm_leader c = Some (cm_local c)"

definition healthy_count :: "membership \<Rightarrow> nat" where
  "healthy_count c = length (filter (\<lambda>n. ni_status n = NsHealthy) (hm_values (cm_nodes c)))"

definition update_cluster_state :: "membership \<Rightarrow> membership" where
  "update_cluster_state c =
     (let total = hm_len (cm_nodes c);
          healthy = length (filter (\<lambda>n. ni_status n = NsHealthy \<or> ni_status n = NsStarting) (hm_values (cm_nodes c)))
      in cm_set_state c
           (if total < cc_min_nodes (cm_config c) then CsForming
            else if healthy \<ge> cc_quorum_size (cm_config c) then
              (if healthy = total then CsHealthy else CsDegraded)
            else CsNoQuorum))"

definition add_node :: "membership \<Rightarrow> node_info \<Rightarrow> (cluster_error + unit) \<times> membership" where
  "add_node c n =
     (if hm_len (cm_nodes c) \<ge> cc_max_nodes (cm_config c) then (Inl MaxNodesReached, c)
      else if hm_contains (cm_nodes c) (ni_id n) then (Inl (NodeAlreadyExists (ni_id n)), c)
      else (Inr (), update_cluster_state (c\<lparr>cm_nodes := hm_insert (ni_id n) n (cm_nodes c)\<rparr>)))"

definition remove_node :: "membership \<Rightarrow> node_id \<Rightarrow> (cluster_error + node_info) \<times> membership" where
  "remove_node c i =
     (if i = cm_local c then (Inl CannotRemoveLocalNode, c)
      else case hm_get (cm_nodes c) i of
             None \<Rightarrow> (Inl (NodeUnknown i), c)
           | Some n \<Rightarrow> (Inr n, update_cluster_state (c\<lparr>cm_nodes := hm_remove i (cm_nodes c)\<rparr>)))"

definition cm_get_node :: "membership \<Rightarrow> node_id \<Rightarrow> node_info option" where
  "cm_get_node c i = hm_get (cm_nodes c) i"

definition cm_peers :: "membership \<Rightarrow> node_info list" where
  "cm_peers c = filter (\<lambda>n. ni_id n \<noteq> cm_local c) (hm_values (cm_nodes c))"

definition cm_peer_ids :: "membership \<Rightarrow> node_id list" where
  "cm_peer_ids c = filter (\<lambda>i. i \<noteq> cm_local c) (hm_keys (cm_nodes c))"

definition hm_modify :: "'k \<Rightarrow> ('v \<Rightarrow> 'v) \<Rightarrow> ('k, 'v) hmap \<Rightarrow> ('k, 'v) hmap" where
  "hm_modify k f m = (case hm_get m k of None \<Rightarrow> m | Some v \<Rightarrow> hm_insert k (f v) m)"

definition update_health :: "u64 \<Rightarrow> membership \<Rightarrow> node_health \<Rightarrow> membership" where
  "update_health now c h =
     update_cluster_state
       (c\<lparr>cm_health := hm_insert (nh_node_id h) h (cm_health c),
          cm_nodes := hm_modify (nh_node_id h)
            (if nh_healthy h then mark_healthy now else mark_suspect) (cm_nodes c)\<rparr>)"

definition cm_heartbeat :: "u64 \<Rightarrow> membership \<Rightarrow> node_id \<Rightarrow> membership" where
  "cm_heartbeat now c i = c\<lparr>cm_nodes := hm_modify i (node_heartbeat now) (cm_nodes c)\<rparr>"

text \<open>One node in the loop of \<^verbatim>\<open>check_failures\<close>: whether it is reported, and its new record.\<close>

definition check_node :: "u64 \<Rightarrow> u64 \<Rightarrow> node_id \<Rightarrow> node_info \<Rightarrow> bool \<times> node_info" where
  "check_node now timeout_ms local n =
     (if ni_id n = local then (False, n)
      else if heartbeat_age now n > timeout_ms then
        (if ni_status n = NsHealthy then (False, mark_suspect n)
         else if ni_status n = NsSuspect then (True, mark_down n)
         else (False, n))
      else (False, n))"

definition check_failures :: "u64 \<Rightarrow> membership \<Rightarrow> node_id list \<times> membership" where
  "check_failures now c =
     (let check = check_node now (cc_failure_timeout (cm_config c)) (cm_local c);
          failed = map ni_id (filter (\<lambda>n. fst (check n)) (hm_values (cm_nodes c)));
          c' = c\<lparr>cm_nodes := map (\<lambda>(i, n). (i, snd (check n))) (cm_nodes c)\<rparr>
      in (failed, if failed = [] then c' else update_cluster_state c'))"

definition has_quorum :: "membership \<Rightarrow> bool" where
  "has_quorum c \<longleftrightarrow> healthy_count c \<ge> cc_quorum_size (cm_config c)"

record cluster_stats =
  cst_cluster_id :: string
  cst_state :: cluster_state
  cst_total :: nat
  cst_healthy :: nat
  cst_suspect :: nat
  cst_down :: nat
  cst_has_leader :: bool
  cst_has_quorum :: bool

definition count_status :: "node_status \<Rightarrow> membership \<Rightarrow> nat" where
  "count_status s c = length (filter (\<lambda>n. ni_status n = s) (hm_values (cm_nodes c)))"

definition cm_stats :: "membership \<Rightarrow> cluster_stats" where
  "cm_stats c =
     \<lparr>cst_cluster_id = cc_cluster_id (cm_config c), cst_state = cm_state c, cst_total = hm_len (cm_nodes c),
      cst_healthy = count_status NsHealthy c, cst_suspect = count_status NsSuspect c,
      cst_down = count_status NsDown c, cst_has_leader = (cm_leader c \<noteq> None),
      cst_has_quorum = (count_status NsHealthy c \<ge> cc_quorum_size (cm_config c))\<rparr>"

definition voting_members :: "membership \<Rightarrow> node_id list" where
  "voting_members c = map ni_id (filter node_is_available (hm_values (cm_nodes c)))"

definition set_node_role :: "membership \<Rightarrow> node_id \<Rightarrow> node_role \<Rightarrow> membership" where
  "set_node_role c i r = c\<lparr>cm_nodes := hm_modify i (\<lambda>n. n\<lparr>ni_role := r\<rparr>) (cm_nodes c)\<rparr>"

definition cm_leader_node :: "membership \<Rightarrow> node_info option" where
  "cm_leader_node c = (case cm_leader c of None \<Rightarrow> None | Some i \<Rightarrow> cm_get_node c i)"

section \<open>The table of nodes\<close>

definition cluster_ok :: "membership \<Rightarrow> bool" where
  "cluster_ok c \<longleftrightarrow> hm_ok (cm_nodes c) \<and> (\<forall>(i, n) \<in> set (cm_nodes c). ni_id n = i)
     \<and> hm_contains (cm_nodes c) (cm_local c) \<and> hm_len (cm_nodes c) \<le> max 1 (cc_max_nodes (cm_config c))"

text \<open>Everything that happens to a cluster, with what it reports as failed.\<close>

datatype cluster_event =
    EvAdd node_info | EvRemove node_id | EvHealth u64 node_health | EvBeat u64 node_id | EvCheck u64
  | EvRole node_id node_role | EvLeader "node_id option"

fun cm_do :: "cluster_event \<Rightarrow> membership \<Rightarrow> node_id list \<times> membership" where
  "cm_do (EvAdd n) c = ([], snd (add_node c n))"
| "cm_do (EvRemove i) c = ([], snd (remove_node c i))"
| "cm_do (EvHealth now h) c = ([], update_health now c h)"
| "cm_do (EvBeat now i) c = ([], cm_heartbeat now c i)"
| "cm_do (EvCheck now) c = check_failures now c"
| "cm_do (EvRole i r) c = ([], set_node_role c i r)"
| "cm_do (EvLeader l) c = ([], cm_set_leader c l)"

fun cm_run :: "cluster_event list \<Rightarrow> membership \<Rightarrow> node_id list \<times> membership" where
  "cm_run [] c = ([], c)"
| "cm_run (e # es) c = (let (f, c') = cm_do e c; (fs, c'') = cm_run es c' in (f @ fs, c''))"

lemma update_cluster_state_fields [simp]:
  "cm_nodes (update_cluster_state c) = cm_nodes c" "cm_local (update_cluster_state c) = cm_local c"
  "cm_config (update_cluster_state c) = cm_config c" "cm_leader (update_cluster_state c) = cm_leader c"
  by (simp_all add: update_cluster_state_def cm_set_state_def Let_def)

lemma node_updates_id [simp]:
  "ni_id (node_heartbeat now n) = ni_id n" "ni_id (mark_healthy now n) = ni_id n"
  "ni_id (mark_suspect n) = ni_id n" "ni_id (mark_down n) = ni_id n"
  "ni_id (snd (check_node now t l n)) = ni_id n"
  by (simp_all add: node_heartbeat_def mark_healthy_def mark_suspect_def mark_down_def check_node_def)

lemma hm_get_modify: "hm_get (hm_modify k f m) k' = (if k' = k then map_option f (hm_get m k) else hm_get m k')"
  by (auto simp: hm_modify_def hm_simps split: option.splits)

lemma hm_keys_insert_present: "hm_contains m k \<Longrightarrow> hm_keys (hm_insert k v m) = hm_keys m"
  by (induction m) auto

lemma hm_keys_modify [simp]: "hm_keys (hm_modify k f m) = hm_keys m"
  by (simp add: hm_modify_def hm_keys_insert_present split: option.splits)

lemma hm_len_modify [simp]: "length (hm_modify k f m) = length m"
  by (metis hm_keys_modify length_map)

lemma hm_ok_keys: "hm_keys m = hm_keys m' \<Longrightarrow> hm_ok m = hm_ok m'"
  by (simp add: hm_ok_def)

lemma hm_get_map_snd: "hm_get (map (\<lambda>(i, n). (i, f n)) m) k = map_option f (hm_get m k)"
  by (induction m) auto

lemma hm_keys_map_snd [simp]: "hm_keys (map (\<lambda>(i, n). (i, f n)) m) = hm_keys m"
  by (induction m) auto

lemma ids_iff:
  "hm_ok m \<Longrightarrow> (\<forall>(i, n) \<in> set m. ni_id n = i) \<longleftrightarrow> (\<forall>i n. hm_get m i = Some n \<longrightarrow> ni_id n = i)"
  by (auto simp flip: hm_get_in_set)

lemma cluster_ok_iff:
  "cluster_ok c \<longleftrightarrow> hm_ok (cm_nodes c) \<and> (\<forall>i n. hm_get (cm_nodes c) i = Some n \<longrightarrow> ni_id n = i)
     \<and> hm_contains (cm_nodes c) (cm_local c) \<and> hm_len (cm_nodes c) \<le> max 1 (cc_max_nodes (cm_config c))"
  using ids_iff [of "cm_nodes c"] unfolding cluster_ok_def by blast

lemma hm_len_insert_absent: "\<not> hm_contains m k \<Longrightarrow> length (hm_insert k v m) = length m + 1"
  by (induction m) auto

lemma cluster_ok_modify:
  assumes "cluster_ok c" "\<And>n. ni_id (f n) = ni_id n" "cm_nodes c' = hm_modify i f (cm_nodes c)"
    and "cm_local c' = cm_local c" "cm_config c' = cm_config c"
  shows "cluster_ok c'"
  using assms hm_ok_keys [OF hm_keys_modify, of i f "cm_nodes c"]
  by (auto simp: cluster_ok_iff hm_get_modify)

lemma cluster_ok_new: "cluster_ok (cluster_new n config)"
  by (simp add: cluster_ok_def cluster_new_def hm_ok_def)

lemma cluster_ok_do:
  assumes "cluster_ok c"
  shows "cluster_ok (snd (cm_do e c)) \<and> cm_local (snd (cm_do e c)) = cm_local c
    \<and> cm_config (snd (cm_do e c)) = cm_config c"
proof (cases e)
  case (EvAdd n)
  then show ?thesis using assms
    by (auto simp: add_node_def cluster_ok_iff hm_simps hm_len_insert_absent intro: hm_intros)
next
  case (EvRemove i)
  have "length (hm_remove i (cm_nodes c)) \<le> length (cm_nodes c)" by (simp add: AList.delete_eq)
  with EvRemove assms show ?thesis
    by (auto simp: remove_node_def cluster_ok_iff hm_simps intro: hm_intros split: option.splits)
next
  case (EvHealth now h)
  then show ?thesis
    using cluster_ok_modify [OF assms, of "if nh_healthy h then mark_healthy now else mark_suspect"
        "update_health now c h" "nh_node_id h"]
    by (simp add: update_health_def)
next
  case (EvBeat now i)
  then show ?thesis
    using cluster_ok_modify [OF assms, of "node_heartbeat now" "cm_heartbeat now c i" i]
    by (simp add: cm_heartbeat_def)
next
  case (EvCheck now)
  let ?f = "\<lambda>n. snd (check_node now (cc_failure_timeout (cm_config c)) (cm_local c) n)"
  have keys: "hm_keys (cm_nodes (snd (check_failures now c))) = hm_keys (cm_nodes c)"
    by (auto simp: check_failures_def Let_def)
  have nodes: "cm_nodes (snd (check_failures now c)) = map (\<lambda>(i, n). (i, ?f n)) (cm_nodes c)"
    by (simp add: check_failures_def Let_def)
  have "cm_local (snd (check_failures now c)) = cm_local c" "cm_config (snd (check_failures now c)) = cm_config c"
    by (simp_all add: check_failures_def Let_def)
  with assms EvCheck hm_ok_keys [OF keys] show ?thesis
    by (auto simp: cluster_ok_iff nodes hm_get_map_snd)
next
  case (EvRole i r)
  then show ?thesis
    using cluster_ok_modify [OF assms, of "\<lambda>n. n\<lparr>ni_role := r\<rparr>" "set_node_role c i r" i]
    by (simp add: set_node_role_def)
next
  case (EvLeader l)
  then show ?thesis using assms by (simp add: cluster_ok_def cm_set_leader_def)
qed

lemma cluster_ok_run:
  "cluster_ok c \<Longrightarrow> cluster_ok (snd (cm_run es c)) \<and> cm_local (snd (cm_run es c)) = cm_local c
     \<and> cm_config (snd (cm_run es c)) = cm_config c"
  by (induction es arbitrary: c) (simp_all add: cluster_ok_do split_beta Let_def)

text \<open>What one event does to one node that stays.\<close>

fun node_event :: "u64 \<Rightarrow> node_id \<Rightarrow> cluster_event \<Rightarrow> node_info \<Rightarrow> node_info" where
  "node_event timeout local (EvHealth now h) n =
     (if nh_node_id h = ni_id n then (if nh_healthy h then mark_healthy now n else mark_suspect n) else n)"
| "node_event timeout local (EvBeat now i) n = (if i = ni_id n then node_heartbeat now n else n)"
| "node_event timeout local (EvCheck now) n = snd (check_node now timeout local n)"
| "node_event timeout local (EvRole i r) n = (if i = ni_id n then n\<lparr>ni_role := r\<rparr> else n)"
| "node_event timeout local _ n = n"

lemma cm_do_node:
  assumes "cluster_ok c" "hm_get (cm_nodes c) i = Some n" "e \<noteq> EvRemove i"
  shows "hm_get (cm_nodes (snd (cm_do e c))) i =
    Some (node_event (cc_failure_timeout (cm_config c)) (cm_local c) e n)"
proof -
  have i: "ni_id n = i" using assms(1,2) by (simp add: cluster_ok_iff)
  show ?thesis
  proof (cases e)
    case (EvAdd m)
    then show ?thesis using assms(2) by (auto simp: add_node_def hm_simps)
  next
    case (EvRemove j)
    then show ?thesis using assms(2,3) by (auto simp: remove_node_def hm_simps split: option.splits)
  qed (use assms(2) i in \<open>auto simp: update_health_def cm_heartbeat_def set_node_role_def cm_set_leader_def
      check_failures_def hm_get_modify hm_get_map_snd Let_def\<close>)
qed

lemma cm_do_failed:
  assumes "cluster_ok c" "hm_get (cm_nodes c) i = Some n"
  shows "count_list (fst (cm_do e c)) i =
    (case e of EvCheck now \<Rightarrow>
       (if fst (check_node now (cc_failure_timeout (cm_config c)) (cm_local c) n) then 1 else 0) | _ \<Rightarrow> 0)"
proof (cases e)
  case (EvCheck now)
  let ?P = "\<lambda>n. fst (check_node now (cc_failure_timeout (cm_config c)) (cm_local c) n)"
  have "count_list (map ni_id (filter ?P (hm_values m))) i = (if ?P n then 1 else 0)"
    if "hm_ok m" "\<forall>(j, k) \<in> set m. ni_id k = j" "hm_get m i = Some n" for m
    using that
  proof (induction m)
    case (Cons p m)
    obtain j k where p: "p = (j, k)" by force
    have none: "count_list (map ni_id (filter Q (hm_values m'))) i = 0"
      if "hm_get m' i = None" "\<forall>(j, k) \<in> set m'. ni_id k = j" for Q m'
      using that by (induction m') (auto split: if_splits)
    show ?case
    proof (cases "j = i")
      case True
      with Cons.prems none [of m ?P] show ?thesis by (auto simp: p hm_ok_Cons)
    next
      case False
      with Cons show ?thesis by (auto simp: p hm_ok_Cons)
    qed
  qed simp
  with assms EvCheck show ?thesis by (simp add: check_failures_def cluster_ok_def Let_def)
qed simp_all

section \<open>The failure detector\<close>

text \<open>Whether node \<open>i\<close> is heard of within the timeout before every check, from its last
  heartbeat on.\<close>

fun in_time :: "node_id \<Rightarrow> u64 \<Rightarrow> u64 \<Rightarrow> cluster_event list \<Rightarrow> bool" where
  "in_time i timeout t0 [] = True"
| "in_time i timeout t0 (EvBeat now j # es) = in_time i timeout (if j = i then now else t0) es"
| "in_time i timeout t0 (EvHealth now h # es) =
     ((nh_node_id h = i \<longrightarrow> nh_healthy h) \<and> in_time i timeout (if nh_node_id h = i then now else t0) es)"
| "in_time i timeout t0 (EvCheck now # es) = (saturating_sub now t0 \<le> timeout \<and> in_time i timeout t0 es)"
| "in_time i timeout t0 (EvRemove j # es) = (j \<noteq> i \<and> in_time i timeout t0 es)"
| "in_time i timeout t0 (_ # es) = in_time i timeout t0 es"

lemma in_time_run:
  assumes "cluster_ok c" "hm_get (cm_nodes c) i = Some n" "ni_status n = NsHealthy"
    and "in_time i (cc_failure_timeout (cm_config c)) (ni_last_heartbeat n) es"
  shows "\<exists>n'. hm_get (cm_nodes (snd (cm_run es c))) i = Some n' \<and> ni_status n' = NsHealthy
    \<and> count_list (fst (cm_run es c)) i = 0"
  using assms
proof (induction es arbitrary: c n)
  case (Cons e es)
  let ?t = "cc_failure_timeout (cm_config c)"
  let ?n = "node_event ?t (cm_local c) e n"
  have i: "ni_id n = i" using Cons.prems(1,2) by (simp add: cluster_ok_iff)
  have "e \<noteq> EvRemove i" using Cons.prems(4) by auto
  note next_node = cm_do_node [OF Cons.prems(1,2) this]
  have "ni_status ?n = NsHealthy \<and> in_time i ?t (ni_last_heartbeat ?n) es
      \<and> (\<forall>now. e = EvCheck now \<longrightarrow> \<not> fst (check_node now ?t (cm_local c) n))"
    using Cons.prems(3,4) i
    by (cases e) (auto simp: mark_healthy_def node_heartbeat_def check_node_def heartbeat_age_def not_less [symmetric])
  then show ?case
    using Cons.IH [of "snd (cm_do e c)" ?n] next_node cluster_ok_do [OF Cons.prems(1), of e]
      cm_do_failed [OF Cons.prems(1,2), of e]
    by (auto simp: Let_def split_beta split: cluster_event.splits)
qed simp

text \<open>Silence of a node, and how many checks find it too old.\<close>

fun silent :: "node_id \<Rightarrow> cluster_event list \<Rightarrow> bool" where
  "silent i [] = True"
| "silent i (EvBeat now j # es) = (j \<noteq> i \<and> silent i es)"
| "silent i (EvHealth now h # es) = (nh_node_id h \<noteq> i \<and> silent i es)"
| "silent i (EvRemove j # es) = (j \<noteq> i \<and> silent i es)"
| "silent i (_ # es) = silent i es"

fun late_checks :: "u64 \<Rightarrow> u64 \<Rightarrow> cluster_event list \<Rightarrow> nat" where
  "late_checks timeout t0 [] = 0"
| "late_checks timeout t0 (EvCheck now # es) =
     (if saturating_sub now t0 > timeout then 1 else 0) + late_checks timeout t0 es"
| "late_checks timeout t0 (_ # es) = late_checks timeout t0 es"

definition rank_status :: "nat \<Rightarrow> node_status" where
  "rank_status k = (if k = 0 then NsHealthy else if k = 1 then NsSuspect else NsDown)"

lemma silent_run:
  assumes "cluster_ok c" "hm_get (cm_nodes c) i = Some n" "i \<noteq> cm_local c" "ni_status n = rank_status k"
    and "silent i es"
  shows "\<exists>n'. hm_get (cm_nodes (snd (cm_run es c))) i = Some n'
    \<and> ni_status n' = rank_status (k + late_checks (cc_failure_timeout (cm_config c)) (ni_last_heartbeat n) es)
    \<and> count_list (fst (cm_run es c)) i =
        (if k < 2 \<and> 2 \<le> k + late_checks (cc_failure_timeout (cm_config c)) (ni_last_heartbeat n) es then 1 else 0)"
  using assms
proof (induction es arbitrary: c n k)
  case (Cons e es)
  let ?t = "cc_failure_timeout (cm_config c)"
  let ?n = "node_event ?t (cm_local c) e n"
  define d where "d = late_checks ?t (ni_last_heartbeat n) [e]"
  have i: "ni_id n = i" using Cons.prems(1,2) by (simp add: cluster_ok_iff)
  have "e \<noteq> EvRemove i" using Cons.prems(5) by auto
  note next_node = cm_do_node [OF Cons.prems(1,2) this]
  have step: "ni_status ?n = rank_status (k + d) \<and> ni_last_heartbeat ?n = ni_last_heartbeat n
      \<and> count_list (fst (cm_do e c)) i = (if k < 2 \<and> 2 \<le> k + d then 1 else 0)"
    using Cons.prems(3,4,5) i cm_do_failed [OF Cons.prems(1,2), of e]
    by (cases e) (auto simp: d_def check_node_def heartbeat_age_def rank_status_def mark_suspect_def mark_down_def
        split: if_splits)
  have late: "late_checks ?t (ni_last_heartbeat n) (e # es) = d + late_checks ?t (ni_last_heartbeat n) es"
    by (cases e) (simp_all add: d_def)
  have d1: "d \<le> 1" by (cases e) (simp_all add: d_def)
  have "silent i es" using Cons.prems(5) by (cases e) simp_all
  then show ?case
    using Cons.IH [of "snd (cm_do e c)" ?n "k + d"] next_node cluster_ok_do [OF Cons.prems(1), of e] step Cons.prems(3) d1
    unfolding late by (auto simp: Let_def split_beta add.assoc)
qed simp

text \<open>C22: The failure detector.  A healthy node that is heard of within the failure timeout before
  every check stays healthy and is never reported; a remote node that falls silent is suspected by
  the first check that finds it too old and down from the second on, and is reported exactly once,
  whatever else happens in the cluster.\<close>

theorem failure_detection:
  assumes "cluster_ok c" "hm_get (cm_nodes c) i = Some n" "ni_status n = NsHealthy"
  defines "t \<equiv> cc_failure_timeout (cm_config c)" and "t0 \<equiv> ni_last_heartbeat n"
  shows "(in_time i t t0 es \<longrightarrow>
            (\<exists>n'. hm_get (cm_nodes (snd (cm_run es c))) i = Some n' \<and> ni_status n' = NsHealthy)
            \<and> i \<notin> set (fst (cm_run es c)))
       \<and> (i \<noteq> cm_local c \<and> silent i es \<longrightarrow>
            (\<exists>n'. hm_get (cm_nodes (snd (cm_run es c))) i = Some n'
               \<and> ni_status n' = rank_status (late_checks t t0 es))
            \<and> count_list (fst (cm_run es c)) i = (if late_checks t t0 es \<ge> 2 then 1 else 0))"
  using in_time_run [OF assms(1-3), of es] silent_run [OF assms(1,2), of 0 es] assms(3)
  by (auto simp: t_def t0_def count_list_0_iff rank_status_def [of 0])

definition sample_cluster :: membership where
  "sample_cluster =
     snd (cm_run [EvAdd (node_new 100 ''b'' ''10.0.0.2'' 5001), EvHealth 100 (health_healthy 100 ''b''),
                  EvAdd (node_new 100 ''c'' ''10.0.0.3'' 5002), EvHealth 100 (health_healthy 100 ''c'')]
            (cluster_new (node_new 0 ''a'' ''10.0.0.1'' 5000) cluster_config_default))"

lemma sample_cluster_ok: "cluster_ok sample_cluster"
  unfolding sample_cluster_def using cluster_ok_run [OF cluster_ok_new] by blast

lemma sample_cluster_eq:
  "hm_get (cm_nodes sample_cluster) ''b'' = Some ((node_new 100 ''b'' ''10.0.0.2'' 5001)\<lparr>ni_status := NsHealthy\<rparr>)"
  "hm_get (cm_nodes sample_cluster) ''c'' = Some ((node_new 100 ''c'' ''10.0.0.3'' 5002)\<lparr>ni_status := NsHealthy\<rparr>)"
  "cm_local sample_cluster = ''a''" "cm_config sample_cluster = cluster_config_default"
  by (simp_all add: sample_cluster_def cluster_new_def add_node_def update_health_def hm_modify_def node_new_def
      health_healthy_def mark_healthy_def node_heartbeat_def cluster_config_default_def)

theorem failure_detection_witness:
  "let es = [EvCheck 3000, EvBeat 4000 ''b'', EvCheck 6000, EvBeat 8000 ''b'', EvCheck 9000]
   in fst (cm_run es sample_cluster) = [''c'']
      \<and> map_option ni_status (hm_get (cm_nodes (snd (cm_run es sample_cluster))) ''b'') = Some NsHealthy
      \<and> map_option ni_status (hm_get (cm_nodes (snd (cm_run es sample_cluster))) ''c'') = Some NsDown"
proof -
  let ?es = "[EvCheck 3000, EvBeat 4000 ''b'', EvCheck 6000, EvBeat 8000 ''b'', EvCheck 9000]"
  have c: "silent ''c'' ?es" "late_checks 5000 100 ?es = 2" by (simp_all add: saturating_sub_def)
  have b: "in_time ''b'' 5000 100 ?es" by (simp add: saturating_sub_def)
  have "map_option ni_status (hm_get (cm_nodes (snd (cm_run ?es sample_cluster))) ''b'') = Some NsHealthy"
    using failure_detection [OF sample_cluster_ok sample_cluster_eq(1), of ?es] b
    by (auto simp: sample_cluster_eq node_new_def cluster_config_default_def simp del: cm_run.simps in_time.simps)
  moreover have "map_option ni_status (hm_get (cm_nodes (snd (cm_run ?es sample_cluster))) ''c'') = Some NsDown"
    using failure_detection [OF sample_cluster_ok sample_cluster_eq(2), of ?es] c
    by (auto simp: sample_cluster_eq node_new_def cluster_config_default_def rank_status_def simp del: cm_run.simps late_checks.simps)
  moreover have "fst (cm_run ?es sample_cluster) = [''c'']" by code_simp
  ultimately show ?thesis by (simp add: Let_def)
qed

text \<open>A node that never came up is neither suspected nor reported, and the derived state of the
  cluster counts it as healthy.\<close>

lemma starting_nodes_never_fail:
  assumes "ni_status n = NsStarting"
  shows "check_node now t l n = (False, n)"
  using assms by (simp add: check_node_def)

lemma healthy_state_without_quorum:
  "let c = update_cluster_state (snd (add_node (cluster_new (node_new 0 ''a'' ''h'' 1) cluster_config_default)
             (node_new 0 ''b'' ''h'' 2)))
   in cm_state c = CsHealthy \<and> \<not> has_quorum c \<and> fst (check_failures 1000000 c) = []"
  by code_simp

text \<open>The node table.  Whatever nodes are added and removed, heard of, checked, promoted and
  reported on, the table lists the local node, each node under its own identifier, and no more nodes
  than allowed.  Adding a node fails exactly when the table is full or lists it already, and makes it
  readable; removing one fails exactly for the local node and for unknown ones, and makes it vanish.
  After a health report the cluster calls itself healthy only when every node is healthy or
  starting and they are at least a quorum.\<close>

theorem membership_invariant:
  assumes "c = snd (cm_run es (cluster_new local_node config))"
  shows "cluster_ok c
    \<and> (\<forall>n. fst (add_node c n) =
         (if hm_len (cm_nodes c) \<ge> cc_max_nodes config then Inl MaxNodesReached
          else if hm_contains (cm_nodes c) (ni_id n) then Inl (NodeAlreadyExists (ni_id n)) else Inr ()))
    \<and> (\<forall>n. fst (add_node c n) = Inr () \<longrightarrow> cm_get_node (snd (add_node c n)) (ni_id n) = Some n)
    \<and> (\<forall>i. fst (remove_node c i) = (if i = ni_id local_node then Inl CannotRemoveLocalNode
         else case cm_get_node c i of None \<Rightarrow> Inl (NodeUnknown i) | Some n \<Rightarrow> Inr n))
    \<and> (\<forall>i. i \<noteq> ni_id local_node \<longrightarrow> cm_get_node (snd (remove_node c i)) i = None)
    \<and> (\<forall>now h. cm_state (update_health now c h) = CsHealthy \<longrightarrow>
         (\<forall>n \<in> set (hm_values (cm_nodes (update_health now c h))). ni_status n \<in> {NsHealthy, NsStarting})
         \<and> cc_quorum_size config \<le> hm_len (cm_nodes c))"
proof -
  have ok: "cluster_ok c" "cm_local c = ni_id local_node" "cm_config c = config"
    using cluster_ok_run [OF cluster_ok_new, of es local_node config] assms by (simp_all add: cluster_new_def)
  have full: "length (filter P xs) = length xs \<longleftrightarrow> (\<forall>x \<in> set xs. P x)" for P and xs :: "node_info list"
    using length_filter_less [of _ xs P] by (auto simp: less_le)
  have healthy: "(\<forall>n \<in> set (hm_values (cm_nodes d)). ni_status n \<in> {NsHealthy, NsStarting})
      \<and> cc_quorum_size (cm_config d) \<le> hm_len (cm_nodes d)"
    if "cm_state (update_cluster_state d) = CsHealthy" for d
    using that full [of "\<lambda>n. ni_status n = NsHealthy \<or> ni_status n = NsStarting" "hm_values (cm_nodes d)"]
    by (auto simp: update_cluster_state_def cm_set_state_def Let_def split: if_splits)
  have "(\<forall>n \<in> set (hm_values (cm_nodes (update_health now c h))). ni_status n \<in> {NsHealthy, NsStarting})
         \<and> cc_quorum_size config \<le> hm_len (cm_nodes c)"
    if "cm_state (update_health now c h) = CsHealthy" for now h
    using healthy [of "c\<lparr>cm_health := hm_insert (nh_node_id h) h (cm_health c),
          cm_nodes := hm_modify (nh_node_id h) (if nh_healthy h then mark_healthy now else mark_suspect) (cm_nodes c)\<rparr>"]
      that ok(3) by (simp add: update_health_def)
  moreover have "\<forall>n. fst (add_node c n) = Inr () \<longrightarrow> cm_get_node (snd (add_node c n)) (ni_id n) = Some n"
    by (simp add: add_node_def cm_get_node_def hm_simps)
  moreover have "\<forall>i. i \<noteq> ni_id local_node \<longrightarrow> cm_get_node (snd (remove_node c i)) i = None"
    using ok(2) by (auto simp: remove_node_def cm_get_node_def hm_simps split: option.splits)
  ultimately show ?thesis
    using ok by (simp add: add_node_def remove_node_def cm_get_node_def split: option.splits)
qed

theorem membership_invariant_witness:
  "cluster_ok sample_cluster
   \<and> fst (add_node sample_cluster (node_new 0 ''b'' ''h'' 1)) = Inl (NodeAlreadyExists ''b'')
   \<and> fst (remove_node sample_cluster ''a'') = Inl CannotRemoveLocalNode
   \<and> cm_get_node (snd (remove_node sample_cluster ''b'')) ''b'' = None"
proof -
  have len: "hm_len (cm_nodes sample_cluster) = 3" by code_simp
  show ?thesis
    using membership_invariant [OF sample_cluster_def] len
    by (auto simp: sample_cluster_eq node_new_def cluster_config_default_def cm_get_node_def)
qed

end
