(* ===== verification/RaftElection.thy ===== *)
theory RaftElection
  imports RaftNode
begin

text \<open>
  Leader election.  Every operation of a node is \<open>quiet\<close> (it keeps the node's identity
  and membership, never lowers the term, never changes a vote given in the current term,
  and leaves a candidacy or leadership only by giving it up) except starting an election
  and counting a vote.  A cluster is a set of nodes that exchange vote responses over a
  network that may lose, duplicate, delay and reorder them; everything else a node
  receives is arbitrary.  The theorem is Raft's election safety: a term has one leader.
\<close>

section \<open>The cluster\<close>

text \<open>
  \<open>cl_votes\<close> holds every vote response ever sent, with the candidate it is addressed to.
\<close>

record 'sm cluster =
  cl_nodes :: "node_id \<Rightarrow> 'sm raft_node"
  cl_votes :: "(node_id \<times> vote_response) set"

definition set_node :: "'sm cluster \<Rightarrow> node_id \<Rightarrow> 'sm raft_node \<Rightarrow> 'sm cluster" where
  "set_node c i n = c\<lparr>cl_nodes := (cl_nodes c)(i := n)\<rparr>"

definition cluster_init :: "node_id set \<Rightarrow> 'sm cluster \<Rightarrow> bool" where
  "cluster_init M c \<longleftrightarrow>
     cl_votes c = {} \<and>
     (\<forall>i \<in> M. n_id (cl_nodes c i) = i \<and> distinct (n_peers (cl_nodes c i)) \<and>
        set (n_peers (cl_nodes c i)) = M - {i} \<and>
        n_state (cl_nodes c i) = raft_state_default \<and> n_role (cl_nodes c i) = Follower)"

text \<open>
  One step: a member runs one operation.  A vote response is delivered only if some
  member sent it; every other message is arbitrary.  \<open>elect\<close> excludes the increment of
  the largest term, which wraps around.
\<close>

inductive cluster_step ::
    "codec \<Rightarrow> 'sm backend \<Rightarrow> node_id set \<Rightarrow> 'sm cluster \<Rightarrow> 'sm cluster \<Rightarrow> bool"
  for cd :: codec and be :: "'sm backend" and M :: "node_id set" where
  elect: "i \<in> M \<Longrightarrow> current_term (n_state (cl_nodes c i)) \<noteq> - 1 \<Longrightarrow>
    cluster_step cd be M c (set_node c i (fst (start_election now (cl_nodes c i))))"
| vote: "i \<in> M \<Longrightarrow> handle_vote_request now (cl_nodes c i) req = (n', resp) \<Longrightarrow>
    cluster_step cd be M c
      ((set_node c i n')\<lparr>cl_votes := insert (vq_candidate req, resp) (cl_votes c)\<rparr>)"
| count: "i \<in> M \<Longrightarrow> (i, resp) \<in> cl_votes c \<Longrightarrow>
    cluster_step cd be M c (set_node c i (fst (handle_vote_response wall (cl_nodes c i) resp)))"
| append: "i \<in> M \<Longrightarrow>
    cluster_step cd be M c (set_node c i (fst (handle_append_entries now (cl_nodes c i) areq)))"
| append_response: "i \<in> M \<Longrightarrow>
    cluster_step cd be M c
      (set_node c i (handle_append_entries_response now (cl_nodes c i) peer aresp))"
| client: "i \<in> M \<Longrightarrow>
    cluster_step cd be M c (set_node c i (fst (propose cd wall (cl_nodes c i) cmd)))"
| lease: "i \<in> M \<Longrightarrow> cluster_step cd be M c (set_node c i (check_lease now (cl_nodes c i)))"
| apply_log: "i \<in> M \<Longrightarrow> apply_committed cd be (cl_nodes c i) = Some (n', results) \<Longrightarrow>
    cluster_step cd be M c (set_node c i n')"
| snapshot: "i \<in> M \<Longrightarrow>
    cluster_step cd be M c (set_node c i (fst (take_snapshot cd be (cl_nodes c i))))"
| install: "i \<in> M \<Longrightarrow>
    cluster_step cd be M c
      (set_node c i (fst (handle_install_snapshot cd be now (cl_nodes c i) ireq)))"
| install_response: "i \<in> M \<Longrightarrow>
    cluster_step cd be M c
      (set_node c i (handle_install_snapshot_response (cl_nodes c i) peer iresp last_chunk))"
| heartbeat: "i \<in> M \<Longrightarrow>
    cluster_step cd be M c (set_node c i (reset_heartbeat now (cl_nodes c i)))"

inductive cluster_reachable ::
    "codec \<Rightarrow> 'sm backend \<Rightarrow> node_id set \<Rightarrow> 'sm cluster \<Rightarrow> bool"
  for cd :: codec and be :: "'sm backend" and M :: "node_id set" where
  init: "cluster_init M c \<Longrightarrow> cluster_reachable cd be M c"
| step: "cluster_reachable cd be M c \<Longrightarrow> cluster_step cd be M c c' \<Longrightarrow>
    cluster_reachable cd be M c'"

section \<open>Quiet operations\<close>

definition vote_stable :: "raft_state \<Rightarrow> raft_state \<Rightarrow> bool" where
  "vote_stable s s' \<longleftrightarrow>
     current_term s < current_term s' \<or>
     (current_term s = current_term s' \<and> (voted_for s = None \<or> voted_for s' = voted_for s))"

definition quiet :: "'sm raft_node \<Rightarrow> 'sm raft_node \<Rightarrow> bool" where
  "quiet n n' \<longleftrightarrow>
     n_id n' = n_id n \<and> n_peers n' = n_peers n \<and> vote_stable (n_state n) (n_state n') \<and>
     (n_role n' = Follower \<or>
        n_role n' = n_role n \<and> n_votes n' = n_votes n \<and>
        current_term (n_state n') = current_term (n_state n))"

lemma vote_stable_refl [simp]: "vote_stable s s"
  by (simp add: vote_stable_def)

lemma vote_stable_trans: "vote_stable a b \<Longrightarrow> vote_stable b c \<Longrightarrow> vote_stable a c"
  by (auto simp: vote_stable_def)

lemma quiet_refl [simp]: "quiet n n"
  by (simp add: quiet_def)

lemma quiet_trans: "quiet a b \<Longrightarrow> quiet b c \<Longrightarrow> quiet a c"
  by (auto simp: quiet_def intro: vote_stable_trans)

lemma quiet_frame:
  "n_id n' = n_id n \<Longrightarrow> n_peers n' = n_peers n \<Longrightarrow> n_state n' = n_state n \<Longrightarrow>
   n_role n' = n_role n \<Longrightarrow> n_votes n' = n_votes n \<Longrightarrow> quiet n n'"
  by (simp add: quiet_def)

lemma quiet_step_down: "t > current_term (n_state n) \<Longrightarrow> quiet n (step_down n t)"
  by (simp add: quiet_def step_down_def vote_stable_def)

lemma quiet_handle_vote_request: "quiet n (fst (handle_vote_request now n req))"
  by (auto simp: handle_vote_request_def quiet_def step_down_def vote_stable_def
      reset_heartbeat_def Let_def)

lemma quiet_handle_append_entries: "quiet n (fst (handle_append_entries now n req))"
  by (auto simp: handle_append_entries_def quiet_def vote_stable_def reset_heartbeat_def Let_def
      split: option.splits)

lemma quiet_try_advance: "quiet n (try_advance_commit_index n)"
  by (auto simp: try_advance_commit_index_def quiet_def vote_stable_def Let_def
      split: option.splits)

lemma quiet_handle_append_entries_response:
  "quiet n (handle_append_entries_response now n peer resp)"
proof -
  have adv: "quiet n n1 \<Longrightarrow> quiet n (try_advance_commit_index n1)" for n1
    by (rule quiet_trans [OF _ quiet_try_advance])
  show ?thesis
    unfolding handle_append_entries_response_def Let_def extend_lease_def
    by (auto split: option.splits intro!: adv intro: quiet_step_down quiet_frame)
qed

lemma quiet_propose: "quiet n (fst (propose cd wall n cmd))"
  by (simp add: propose_def quiet_def Let_def)

lemma quiet_reset_heartbeat: "quiet n (reset_heartbeat now n)"
  by (simp add: reset_heartbeat_def quiet_def)

lemma quiet_check_lease: "quiet n (check_lease now n)"
  by (simp add: check_lease_def quiet_def)

lemma quiet_apply_one: "quiet n (fst (apply_one cd be n entry results))"
  by (auto simp: apply_one_def quiet_def vote_stable_def split: option.splits prod.splits)

lemma quiet_apply_committed_loop:
  assumes "apply_committed_loop cd be n results = Some (n', results')"
  shows "quiet n n'"
proof (rule apply_committed_loop.raw_induct
    [where P = "\<lambda>cd be n results r. quiet n (fst r)", OF _ assms, simplified])
  fix f :: "codec \<Rightarrow> 'a backend \<Rightarrow> 'a raft_node \<Rightarrow> command_result list \<Rightarrow>
      ('a raft_node \<times> command_result list) option"
    and cd be n results and r :: "'a raft_node \<times> command_result list"
  assume IH: "\<And>cd be n results r. f cd be n results = Some r \<Longrightarrow> quiet n (fst r)"
    and eq: "(if has_entries_to_apply (n_log n) then
        (case next_to_apply (n_log n) of
           Some entry \<Rightarrow> f cd be (fst (apply_one cd be n entry results))
               (snd (apply_one cd be n entry results))
         | None \<Rightarrow> f cd be n results)
      else Some (n, results)) = Some r"
  show "quiet n (fst r)"
    using eq by (auto split: if_splits option.splits dest!: IH
        intro: quiet_trans [OF quiet_apply_one])
qed

lemma quiet_apply_committed:
  "apply_committed cd be n = Some (n', results) \<Longrightarrow> quiet n n'"
  unfolding apply_committed_def by (rule quiet_apply_committed_loop)

lemma quiet_take_snapshot: "quiet n (fst (take_snapshot cd be n))"
  by (auto simp: take_snapshot_def quiet_def Let_def split: option.splits)

lemma quiet_handle_install_snapshot:
  "quiet n (fst (handle_install_snapshot cd be now n req))"
  by (auto simp: handle_install_snapshot_def quiet_def vote_stable_def reset_heartbeat_def
      install_restored_def Let_def split: option.splits)

lemma quiet_handle_install_snapshot_response:
  "quiet n (handle_install_snapshot_response n peer resp b)"
  by (auto simp: handle_install_snapshot_response_def split: option.splits
      intro: quiet_step_down quiet_frame)

lemmas quiet_handlers =
  quiet_handle_vote_request quiet_handle_append_entries quiet_handle_append_entries_response
  quiet_propose quiet_check_lease quiet_reset_heartbeat quiet_apply_committed quiet_take_snapshot
  quiet_handle_install_snapshot quiet_handle_install_snapshot_response

section \<open>The invariant of the cluster\<close>

text \<open>A granted vote of term \<open>t\<close> for \<open>cand\<close> is either in force or its term is over.\<close>

definition voted_at :: "'sm raft_node \<Rightarrow> raft_term \<Rightarrow> node_id \<Rightarrow> bool" where
  "voted_at n t cand \<longleftrightarrow>
     t < current_term (n_state n) \<or>
     (t = current_term (n_state n) \<and> voted_for (n_state n) = Some cand)"

definition grants :: "'sm cluster \<Rightarrow> node_id \<Rightarrow> raft_term \<Rightarrow> node_id \<Rightarrow> bool" where
  "grants c v t cand \<longleftrightarrow>
     (\<exists>r. (cand, r) \<in> cl_votes c \<and> vr_granted r \<and> vr_voter r = v \<and> vr_term r = t)"

definition supported :: "node_id set \<Rightarrow> 'sm cluster \<Rightarrow> node_id \<Rightarrow> 'sm raft_node \<Rightarrow> bool" where
  "supported M c i n \<longleftrightarrow>
     n_role n \<noteq> Follower \<longrightarrow>
       voted_for (n_state n) = Some i \<and> distinct (n_votes n) \<and>
       (\<forall>v \<in> set (n_votes n). v = i \<or> v \<in> M \<and> grants c v (current_term (n_state n)) i) \<and>
       (n_role n = Leader \<longrightarrow> quorum_size n \<le> length (n_votes n))"

definition election_inv :: "node_id set \<Rightarrow> 'sm cluster \<Rightarrow> bool" where
  "election_inv M c \<longleftrightarrow>
     (\<forall>i \<in> M. n_id (cl_nodes c i) = i \<and> distinct (n_peers (cl_nodes c i)) \<and>
        set (n_peers (cl_nodes c i)) = M - {i}) \<and>
     (\<forall>v t cand. grants c v t cand \<longrightarrow> v \<in> M \<and> voted_at (cl_nodes c v) t cand) \<and>
     (\<forall>v t a b. grants c v t a \<longrightarrow> grants c v t b \<longrightarrow> a = b) \<and>
     (\<forall>i \<in> M. supported M c i (cl_nodes c i))"

lemma grants_set_node [simp]: "grants (set_node c i n) = grants c"
  by (simp add: grants_def set_node_def fun_eq_iff)

lemma nodes_set_node [simp]:
  "cl_nodes (set_node c i n) j = (if j = i then n else cl_nodes c j)"
  by (simp add: set_node_def)

lemma voted_at_stable:
  "vote_stable (n_state n) (n_state n') \<Longrightarrow> voted_at n t cand \<Longrightarrow> voted_at n' t cand"
  by (auto simp: voted_at_def vote_stable_def)

lemma supported_quiet:
  assumes "supported M c i n" "quiet n n'"
  shows "supported M c i n'"
  using assms
  by (auto simp: supported_def quiet_def quorum_size_def cluster_size_def vote_stable_def)

lemma election_inv_node:
  assumes "election_inv M c" "i \<in> M"
    and "n_id n' = n_id (cl_nodes c i)" "n_peers n' = n_peers (cl_nodes c i)"
    and "vote_stable (n_state (cl_nodes c i)) (n_state n')"
    and "supported M c i n'"
  shows "election_inv M (set_node c i n')"
  using assms
  by (auto simp: election_inv_def supported_def intro: voted_at_stable split: if_splits)

lemma election_inv_quiet:
  assumes "election_inv M c" "i \<in> M" "quiet (cl_nodes c i) n'"
  shows "election_inv M (set_node c i n')"
proof (rule election_inv_node [OF assms(1,2)])
  show "supported M c i n'"
    using assms by (auto simp: election_inv_def intro: supported_quiet)
qed (use assms(3) in \<open>auto simp: quiet_def\<close>)

lemma election_inv_init: "cluster_init M c \<Longrightarrow> election_inv M c"
  by (auto simp: cluster_init_def election_inv_def grants_def supported_def)

lemma election_inv_elect:
  assumes inv: "election_inv M c" "i \<in> M" and nomax: "current_term (n_state (cl_nodes c i)) \<noteq> - 1"
  shows "election_inv M (set_node c i (fst (start_election now (cl_nodes c i))))"
proof (rule election_inv_node [OF inv])
  let ?n = "cl_nodes c i"
  have lt: "current_term (n_state ?n) < current_term (n_state ?n) + 1"
    using nomax by (rule u64_lt_Suc)
  then show "vote_stable (n_state ?n) (n_state (fst (start_election now ?n)))"
    by (simp add: vote_stable_def start_election_def reset_heartbeat_def Let_def)
  show "supported M c i (fst (start_election now ?n))"
    using inv by (simp add: supported_def start_election_def reset_heartbeat_def Let_def
        election_inv_def)
qed (simp_all add: start_election_def reset_heartbeat_def Let_def)

lemma election_inv_count:
  assumes inv: "election_inv M c" "i \<in> M" and sent: "(i, resp) \<in> cl_votes c"
  shows "election_inv M (set_node c i (fst (handle_vote_response wall (cl_nodes c i) resp)))"
    (is "election_inv M (set_node c i ?n')")
proof (cases "n_role (cl_nodes c i) = Candidate \<and> vr_term resp = current_term (n_state (cl_nodes c i))")
  case False
  then have "quiet (cl_nodes c i) ?n'"
    by (auto simp: handle_vote_response_def quiet_step_down)
  then show ?thesis by (rule election_inv_quiet [OF inv])
next
  case True
  let ?n = "cl_nodes c i"
  have same: "n_id ?n' = n_id ?n" "n_peers ?n' = n_peers ?n" "n_state ?n' = n_state ?n"
    "n_votes ?n' = (if vr_granted resp then List.insert (vr_voter resp) (n_votes ?n)
                    else n_votes ?n)"
    "n_role ?n' = Leader \<longrightarrow> quorum_size ?n' \<le> length (n_votes ?n')"
    using True by (auto simp: handle_vote_response_def become_leader_with_term_def Let_def
        quorum_size_def cluster_size_def)
  have "supported M c i ?n" using inv by (simp add: election_inv_def)
  moreover have "vr_granted resp \<longrightarrow>
      vr_voter resp \<in> M \<and> grants c (vr_voter resp) (current_term (n_state ?n)) i"
    using inv sent True unfolding election_inv_def grants_def by metis
  ultimately have "supported M c i ?n'"
    using True same unfolding supported_def by (auto simp: List.insert_def)
  then show ?thesis
    using same by (intro election_inv_node [OF inv]) simp_all
qed

lemma handle_vote_request_grant:
  assumes "handle_vote_request now n req = (n', resp)" "vr_granted resp"
  shows "vr_voter resp = n_id n" "vr_term resp = current_term (n_state n')"
    "voted_for (n_state n') = Some (vq_candidate req)"
  using assms
  by (auto simp: handle_vote_request_def step_down_def reset_heartbeat_def Let_def
      split: if_splits)

lemma election_inv_vote:
  assumes inv: "election_inv M c" "i \<in> M"
    and h: "handle_vote_request now (cl_nodes c i) req = (n', resp)"
  shows "election_inv M
    ((set_node c i n')\<lparr>cl_votes := insert (vq_candidate req, resp) (cl_votes c)\<rparr>)"
    (is "election_inv M ?c")
proof -
  let ?c1 = "set_node c i n'"
  have "quiet (cl_nodes c i) n'"
    using quiet_handle_vote_request [of "cl_nodes c i" now req] h by simp
  then have inv1: "election_inv M ?c1" by (rule election_inv_quiet [OF inv])
  have id: "n_id (cl_nodes c i) = i" using inv by (simp add: election_inv_def)
  have old: "grants ?c v t a \<longleftrightarrow> grants ?c1 v t a \<or>
      (vr_granted resp \<and> a = vq_candidate req \<and> v = vr_voter resp \<and> t = vr_term resp)" for v t a
    by (auto simp: grants_def set_node_def)
  have new: "vr_granted resp \<Longrightarrow> vr_voter resp = i \<and> voted_for (n_state n') = Some (vq_candidate req)
      \<and> vr_term resp = current_term (n_state n')"
    using handle_vote_request_grant [OF h] id by simp
  have casts: "v \<in> M \<and> voted_at (cl_nodes ?c1 v) t a" if "grants ?c1 v t a" for v t a
    using inv1 that unfolding election_inv_def by blast
  have cast: "voted_at (cl_nodes ?c1 i) (vr_term resp) (vq_candidate req)" if "vr_granted resp"
    using new [OF that] by (simp add: voted_at_def)
  have "supported M ?c j (cl_nodes ?c1 j)" if "j \<in> M" for j
    using inv1 that unfolding election_inv_def supported_def old by blast
  moreover have "v \<in> M \<and> voted_at (cl_nodes ?c1 v) t a" if "grants ?c v t a" for v t a
    using that casts cast new inv(2) unfolding old by blast
  moreover have "a = b" if "grants ?c v t a" "grants ?c v t b" for v t a b
  proof (cases "grants ?c1 v t a \<and> grants ?c1 v t b")
    case True
    then show ?thesis using inv1 unfolding election_inv_def by blast
  next
    case False
    with that have "vr_granted resp" "v = i" "t = current_term (n_state n')"
      using new unfolding old by auto
    moreover have "voted_at (cl_nodes ?c1 v) t x \<or> x = vq_candidate req" if "grants ?c v t x" for x
      using that casts unfolding old by blast
    ultimately have "x = vq_candidate req" if "grants ?c v t x" for x
      using that new by (fastforce simp: voted_at_def)
    then show ?thesis using that by metis
  qed
  moreover have "cl_nodes ?c = cl_nodes ?c1" by simp
  ultimately show ?thesis
    using inv1 unfolding election_inv_def by simp
qed

lemma election_inv_step:
  assumes "cluster_step cd be M c c'" "election_inv M c"
  shows "election_inv M c'"
  using assms
  by (induction rule: cluster_step.induct)
     (auto intro: election_inv_elect election_inv_vote election_inv_count election_inv_quiet
        quiet_handlers)

lemma election_inv_reachable: "cluster_reachable cd be M c \<Longrightarrow> election_inv M c"
  by (induction rule: cluster_reachable.induct)
     (auto intro: election_inv_init election_inv_step)

section \<open>Election safety\<close>

lemma leader_quorum:
  assumes "election_inv M c" "finite M" "i \<in> M" "n_role (cl_nodes c i) = Leader"
  shows "set (n_votes (cl_nodes c i)) \<subseteq> M"
    and "card M div 2 < card (set (n_votes (cl_nodes c i)))"
proof -
  let ?n = "cl_nodes c i"
  have sup: "supported M c i ?n" and peers: "distinct (n_peers ?n)" "set (n_peers ?n) = M - {i}"
    using assms by (auto simp: election_inv_def)
  have "length (n_peers ?n) = card (M - {i})"
    using distinct_card [OF peers(1)] peers(2) by simp
  then have "cluster_size ?n = card M"
    using assms(2,3) card_gt_0_iff [of M] by (auto simp: cluster_size_def)
  then have "card M div 2 < length (n_votes ?n)" and d: "distinct (n_votes ?n)"
    using sup assms(4) by (auto simp: supported_def quorum_size_def)
  then show "card M div 2 < card (set (n_votes ?n))"
    by (simp add: distinct_card)
  show "set (n_votes ?n) \<subseteq> M"
    using sup assms(3,4) by (auto simp: supported_def)
qed

lemma election_safety_inv:
  assumes inv: "election_inv M c" and fin: "finite M" and ij: "i \<in> M" "j \<in> M"
    and lead: "n_role (cl_nodes c i) = Leader" "n_role (cl_nodes c j) = Leader"
    and same_term: "current_term (n_state (cl_nodes c i)) = current_term (n_state (cl_nodes c j))"
  shows "i = j"
proof (rule ccontr)
  assume ne: "i \<noteq> j"
  let ?t = "current_term (n_state (cl_nodes c i))"
  obtain v where v: "v \<in> set (n_votes (cl_nodes c i))" "v \<in> set (n_votes (cl_nodes c j))"
    using quorums_intersect [OF fin leader_quorum(1) [OF inv fin ij(1) lead(1)]
        leader_quorum(1) [OF inv fin ij(2) lead(2)] leader_quorum(2) [OF inv fin ij(1) lead(1)]
        leader_quorum(2) [OF inv fin ij(2) lead(2)]] by auto
  have sup: "supported M c i (cl_nodes c i)" "supported M c j (cl_nodes c j)"
    using inv ij by (auto simp: election_inv_def)
  have vi: "v = i \<or> grants c v ?t i" and vj: "v = j \<or> grants c v ?t j"
    and self: "voted_for (n_state (cl_nodes c i)) = Some i"
      "voted_for (n_state (cl_nodes c j)) = Some j"
    using sup v lead same_term by (auto simp: supported_def)
  have uniq: "grants c v ?t a \<Longrightarrow> grants c v ?t b \<Longrightarrow> a = b"
    and voted: "grants c v ?t a \<Longrightarrow> voted_at (cl_nodes c v) ?t a" for a b
    using inv unfolding election_inv_def by blast+
  show False
    using vi vj self uniq [of i j] voted [of i] voted [of j] ne same_term
    by (auto simp: voted_at_def)
qed

section \<open>Properties\<close>

text \<open>A run of three nodes: \<open>a\<close> starts an election, \<open>b\<close> grants its vote, \<open>a\<close> counts it.\<close>

definition member_node :: "node_id \<Rightarrow> kv_machine raft_node" where
  "member_node i =
     (raft_new 0 i raft_config_default)\<lparr>n_peers := removeAll i [''a'', ''b'', ''c'']\<rparr>"

definition run_start :: "kv_machine cluster" where
  "run_start = \<lparr>cl_nodes = member_node, cl_votes = {}\<rparr>"

definition run_elect :: "kv_machine cluster" where
  "run_elect = set_node run_start ''a'' (fst (start_election 0 (member_node ''a'')))"

definition run_vote :: "kv_machine cluster" where
  "run_vote =
     (let req = snd (start_election 0 (member_node ''a''));
          (n', resp) = handle_vote_request 0 (member_node ''b'') req
      in (set_node run_elect ''b'' n')\<lparr>cl_votes := {(vq_candidate req, resp)}\<rparr>)"

definition run_lead :: "kv_machine cluster" where
  "run_lead =
     (let resp = snd (handle_vote_request 0 (member_node ''b'')
                   (snd (start_election 0 (member_node ''a''))))
      in set_node run_vote ''a'' (fst (handle_vote_response 0 (cl_nodes run_vote ''a'') resp)))"

lemmas run_defs = run_start_def run_elect_def run_vote_def run_lead_def member_node_def
  raft_new_def with_state_machine_def raft_state_default_def set_node_def start_election_def
  reset_heartbeat_def handle_vote_request_def handle_vote_response_def step_down_def
  is_up_to_date_def log_new_def last_term_def last_index_def quorum_size_def cluster_size_def
  become_leader_with_term_def

lemma run_step1: "cluster_step cd be {''a'', ''b'', ''c''} run_start run_elect"
  using cluster_step.elect [of "''a''" "{''a'', ''b'', ''c''}" run_start cd be 0]
  by (simp add: run_start_def run_elect_def member_node_def raft_new_def with_state_machine_def
      raft_state_default_def)

lemma run_step2: "cluster_step cd be {''a'', ''b'', ''c''} run_elect run_vote"
proof -
  let ?req = "snd (start_election 0 (member_node ''a''))"
  obtain n' resp where r: "handle_vote_request 0 (member_node ''b'') ?req = (n', resp)" by force
  have b: "cl_nodes run_elect ''b'' = member_node ''b''" "cl_votes run_elect = {}"
    by (simp_all add: run_elect_def run_start_def set_node_def)
  show ?thesis
    using cluster_step.vote [of "''b''" "{''a'', ''b'', ''c''}" 0 run_elect ?req n' resp cd be] r b
    by (simp add: run_vote_def Let_def)
qed

lemma run_step3: "cluster_step cd be {''a'', ''b'', ''c''} run_vote run_lead"
proof -
  let ?req = "snd (start_election 0 (member_node ''a''))"
  let ?resp = "snd (handle_vote_request 0 (member_node ''b'') ?req)"
  have "vq_candidate ?req = ''a''" by (simp add: start_election_def member_node_def raft_new_def
        with_state_machine_def Let_def)
  then have "(''a'', ?resp) \<in> cl_votes run_vote"
    by (simp add: run_vote_def Let_def split: prod.splits)
  then show ?thesis
    using cluster_step.count [of "''a''" "{''a'', ''b'', ''c''}" ?resp run_vote cd be 0]
    by (simp add: run_lead_def Let_def)
qed

lemma run_reachable: "cluster_reachable cd be {''a'', ''b'', ''c''} run_lead"
proof -
  have "cluster_init {''a'', ''b'', ''c''} run_start"
    by (auto simp: cluster_init_def run_start_def member_node_def raft_new_def
        with_state_machine_def)
  then show ?thesis
    by (meson cluster_reachable.intros run_step1 run_step2 run_step3)
qed

lemma run_lead_leader: "n_role (cl_nodes run_lead ''a'') = Leader"
  by (simp add: run_defs Let_def)

text \<open>C1: election safety.  In every state a cluster can reach, whatever messages other than vote
  responses the members receive and however vote responses are lost, duplicated, delayed or
  reordered, two leaders of the same term are the same node.\<close>

theorem election_safety:
  assumes "cluster_reachable cd be M c" "finite M" "i \<in> M" "j \<in> M"
    and "n_role (cl_nodes c i) = Leader" "n_role (cl_nodes c j) = Leader"
    and "current_term (n_state (cl_nodes c i)) = current_term (n_state (cl_nodes c j))"
  shows "i = j"
  using election_safety_inv [OF election_inv_reachable [OF assms(1)]] assms(2-) by blast

theorem election_safety_witness:
  "cluster_reachable sample_codec kv_backend {''a'', ''b'', ''c''} run_lead \<and>
   n_role (cl_nodes run_lead ''a'') = Leader \<and>
   \<not> (n_role (cl_nodes run_lead ''b'') = Leader \<and>
      current_term (n_state (cl_nodes run_lead ''a'')) = current_term (n_state (cl_nodes run_lead ''b'')))"
  using election_safety [OF run_reachable [of sample_codec kv_backend], of "''a''" "''b''"]
    run_reachable [of sample_codec kv_backend] run_lead_leader by auto

lemma quiet_vote_stable: "quiet n n' \<Longrightarrow> vote_stable (n_state n) (n_state n')"
  by (simp add: quiet_def)

lemma handle_vote_response_stable:
  "vote_stable (n_state n) (n_state (fst (handle_vote_response wall n resp)))"
  by (auto simp: handle_vote_response_def step_down_def become_leader_with_term_def vote_stable_def
      Let_def)

lemma start_election_stable:
  "current_term (n_state n) \<noteq> - 1 \<Longrightarrow> vote_stable (n_state n) (n_state (fst (start_election now n)))"
  using u64_lt_Suc by (auto simp: vote_stable_def start_election_def reset_heartbeat_def Let_def)

lemma set_node_stable:
  "vote_stable (n_state (cl_nodes c i)) (n_state n) \<Longrightarrow>
   vote_stable (n_state (cl_nodes c j)) (n_state (cl_nodes (set_node c i n) j))"
  by simp

lemma cluster_step_stable:
  assumes "cluster_step cd be M c c'"
  shows "vote_stable (n_state (cl_nodes c j)) (n_state (cl_nodes c' j))"
  using assms
proof (induction rule: cluster_step.induct)
  case (vote i now c req n' resp)
  then show ?case using quiet_handle_vote_request [of "cl_nodes c i" now req]
    by (auto simp: quiet_def)
qed (rule set_node_stable, auto intro: start_election_stable handle_vote_response_stable
      quiet_vote_stable quiet_handlers)+

text \<open>Along every run of the cluster, the term of every member never decreases, and a vote
  a member has given in a term is never changed or withdrawn within that term.\<close>

theorem term_monotone_vote_once:
  assumes "(cluster_step cd be M)\<^sup>*\<^sup>* c c'"
  shows "current_term (n_state (cl_nodes c i)) \<le> current_term (n_state (cl_nodes c' i)) \<and>
    (current_term (n_state (cl_nodes c i)) = current_term (n_state (cl_nodes c' i)) \<and>
     voted_for (n_state (cl_nodes c i)) = Some v \<longrightarrow>
     voted_for (n_state (cl_nodes c' i)) = Some v)"
proof -
  have "vote_stable (n_state (cl_nodes c i)) (n_state (cl_nodes c' i))"
    using assms
    by (induction rule: rtranclp_induct) (auto intro: vote_stable_trans cluster_step_stable)
  then show ?thesis by (auto simp: vote_stable_def)
qed

theorem term_monotone_vote_once_witness:
  "(cluster_step sample_codec kv_backend {''a'', ''b'', ''c''})\<^sup>*\<^sup>* run_vote run_lead \<and>
   voted_for (n_state (cl_nodes run_lead ''b'')) = Some ''a''"
proof -
  have steps: "(cluster_step sample_codec kv_backend {''a'', ''b'', ''c''})\<^sup>*\<^sup>* run_vote run_lead"
    using run_step3 by blast
  have "voted_for (n_state (cl_nodes run_vote ''b'')) = Some ''a''"
    "current_term (n_state (cl_nodes run_vote ''b'')) = current_term (n_state (cl_nodes run_lead ''b''))"
    by (simp_all add: run_defs Let_def)
  then show ?thesis
    using term_monotone_vote_once [OF steps, of "''b''" "''a''"] steps by blast
qed

text \<open>A leader was elected by a majority: in every reachable state the members in a leader's
  vote set form a majority of the cluster, and each of them is the leader itself or sent it
  a granting response in the leader's term.\<close>

theorem leader_has_majority:
  assumes "cluster_reachable cd be M c" "finite M" "i \<in> M" "n_role (cl_nodes c i) = Leader"
  shows "set (n_votes (cl_nodes c i)) \<subseteq> M \<and> card M div 2 < card (set (n_votes (cl_nodes c i))) \<and>
    (\<forall>v \<in> set (n_votes (cl_nodes c i)). v = i \<or>
       (\<exists>r. (i, r) \<in> cl_votes c \<and> vr_granted r \<and> vr_voter r = v \<and>
            vr_term r = current_term (n_state (cl_nodes c i))))"
proof -
  have inv: "election_inv M c" using assms(1) by (rule election_inv_reachable)
  then have "supported M c i (cl_nodes c i)" using assms(3) by (simp add: election_inv_def)
  then show ?thesis
    using leader_quorum [OF inv assms(2-4)] assms(4) by (fastforce simp: supported_def grants_def)
qed

theorem leader_has_majority_witness:
  "1 < card (set (n_votes (cl_nodes run_lead ''a'')))"
  using leader_has_majority [OF run_reachable [of sample_codec kv_backend] _ _ run_lead_leader]
  by simp

end
