(* ===== verification/Engine.thy ===== *)
theory Engine
  imports Cluster RaftElection
begin

text \<open>
  The replication engine and its transport, \<^verbatim>\<open>engine.rs\<close> and \<^verbatim>\<open>transport.rs\<close> of
  \<^verbatim>\<open>crates/aegis-replication/src\<close>.  An engine owns a Raft node (over the key-value machine)
  and the node table of the cluster, keeps the two in step, answers messages and reacts to the
  tick of a timer.  Readings of the clocks are arguments: \<open>now\<close> is the monotonic clock, \<open>wall\<close> the
  time of day, both in milliseconds.  The JSON encoding of messages is not modelled; a network
  is the set of messages that were sent.
\<close>

section \<open>Messages\<close>

datatype message_type =
    MtVoteRequest | MtVoteResponse | MtAppendEntries | MtAppendEntriesResponse | MtInstallSnapshot
  | MtInstallSnapshotResponse | MtClientRequest | MtClientResponse | MtHeartbeat

datatype client_operation = ClientGet string | ClientSet string bytes | ClientDelete string

record client_request =
  crq_request_id :: string
  crq_operation :: client_operation

record client_response =
  crs_request_id :: string
  crs_success :: bool
  crs_value :: "bytes option"
  crs_error :: "string option"
  crs_leader_hint :: "node_id option"

definition client_success :: "string \<Rightarrow> bytes option \<Rightarrow> client_response" where
  "client_success i v = \<lparr>crs_request_id = i, crs_success = True, crs_value = v, crs_error = None, crs_leader_hint = None\<rparr>"

definition client_error :: "string \<Rightarrow> string \<Rightarrow> client_response" where
  "client_error i e = \<lparr>crs_request_id = i, crs_success = False, crs_value = None, crs_error = Some e, crs_leader_hint = None\<rparr>"

definition client_not_leader :: "string \<Rightarrow> node_id option \<Rightarrow> client_response" where
  "client_not_leader i leader =
     \<lparr>crs_request_id = i, crs_success = False, crs_value = None, crs_error = Some ''Not the leader'',
      crs_leader_hint = leader\<rparr>"

datatype message_payload =
    PVoteRequest vote_request | PVoteResponse vote_response | PAppendEntries append_request
  | PAppendEntriesResponse append_response | PInstallSnapshot install_request
  | PInstallSnapshotResponse install_response | PClientRequest client_request
  | PClientResponse client_response | PHeartbeat | PEmpty

record message =
  msg_type :: message_type
  msg_from :: node_id
  msg_to :: node_id
  msg_term :: u64
  msg_payload :: message_payload
  msg_timestamp :: u64

definition message_new ::
    "u64 \<Rightarrow> message_type \<Rightarrow> node_id \<Rightarrow> node_id \<Rightarrow> u64 \<Rightarrow> message_payload \<Rightarrow> message" where
  "message_new wall ty a b term p =
     \<lparr>msg_type = ty, msg_from = a, msg_to = b, msg_term = term, msg_payload = p, msg_timestamp = wall\<rparr>"

definition msg_vote_request :: "u64 \<Rightarrow> node_id \<Rightarrow> node_id \<Rightarrow> vote_request \<Rightarrow> message" where
  "msg_vote_request wall a b r = message_new wall MtVoteRequest a b (vq_term r) (PVoteRequest r)"

definition msg_vote_response :: "u64 \<Rightarrow> node_id \<Rightarrow> node_id \<Rightarrow> vote_response \<Rightarrow> message" where
  "msg_vote_response wall a b r = message_new wall MtVoteResponse a b (vr_term r) (PVoteResponse r)"

definition msg_append_entries :: "u64 \<Rightarrow> node_id \<Rightarrow> node_id \<Rightarrow> append_request \<Rightarrow> message" where
  "msg_append_entries wall a b r = message_new wall MtAppendEntries a b (aq_term r) (PAppendEntries r)"

definition msg_append_response :: "u64 \<Rightarrow> node_id \<Rightarrow> node_id \<Rightarrow> append_response \<Rightarrow> message" where
  "msg_append_response wall a b r =
     message_new wall MtAppendEntriesResponse a b (ar_term r) (PAppendEntriesResponse r)"

definition msg_heartbeat :: "u64 \<Rightarrow> node_id \<Rightarrow> node_id \<Rightarrow> u64 \<Rightarrow> message" where
  "msg_heartbeat wall a b term = message_new wall MtHeartbeat a b term PHeartbeat"

section \<open>The transport in memory\<close>

datatype transport_error =
    ConnectionFailed string | TransportTimeout | Disconnected | SerializationError string | ChannelFull
  | UnknownError string

type_synonym inboxes = "(node_id, message list) hmap"

definition new_network :: "node_id list \<Rightarrow> inboxes" where
  "new_network nodes = foldl (\<lambda>b n. hm_insert n [] b) [] nodes"

definition t_send :: "inboxes \<Rightarrow> message \<Rightarrow> (transport_error + unit) \<times> inboxes" where
  "t_send b m =
     (case hm_get b (msg_to m) of
        None \<Rightarrow> (Inl (ConnectionFailed (msg_to m)), b)
      | Some inbox \<Rightarrow> (Inr (), hm_insert (msg_to m) (inbox @ [m]) b))"

definition t_try_recv :: "inboxes \<Rightarrow> node_id \<Rightarrow> message option \<times> inboxes" where
  "t_try_recv b i =
     (case hm_get b i of
        Some (m # rest) \<Rightarrow> (Some m, hm_insert i rest b)
      | _ \<Rightarrow> (None, b))"

fun t_broadcast :: "inboxes \<Rightarrow> message \<Rightarrow> node_id list \<Rightarrow> (transport_error + unit) list \<times> inboxes" where
  "t_broadcast b m [] = ([], b)"
| "t_broadcast b m (p # ps) =
     (let (r, b1) = t_send b (m\<lparr>msg_to := p\<rparr>); (rs, b2) = t_broadcast b1 m ps in (r # rs, b2))"

record connection_state =
  cs_node_id :: node_id
  cs_address :: string
  cs_connected :: bool
  cs_last_activity :: u64
  cs_retry_count :: u32

record connection_pool =
  cp_connections :: "(node_id, connection_state) hmap"
  cp_max :: nat

definition cp_new :: "nat \<Rightarrow> connection_pool" where
  "cp_new n = \<lparr>cp_connections = [], cp_max = n\<rparr>"

definition cp_add :: "u64 \<Rightarrow> connection_pool \<Rightarrow> node_id \<Rightarrow> string \<Rightarrow> connection_pool" where
  "cp_add wall p i addr =
     (if hm_len (cp_connections p) < cp_max p
      then p\<lparr>cp_connections := hm_insert i
             \<lparr>cs_node_id = i, cs_address = addr, cs_connected = False, cs_last_activity = wall, cs_retry_count = 0\<rparr>
             (cp_connections p)\<rparr>
      else p)"

definition cp_remove :: "connection_pool \<Rightarrow> node_id \<Rightarrow> connection_pool" where
  "cp_remove p i = p\<lparr>cp_connections := hm_remove i (cp_connections p)\<rparr>"

definition cp_mark_connected :: "u64 \<Rightarrow> connection_pool \<Rightarrow> node_id \<Rightarrow> connection_pool" where
  "cp_mark_connected wall p i =
     p\<lparr>cp_connections := hm_modify i (\<lambda>c. c\<lparr>cs_connected := True, cs_last_activity := wall, cs_retry_count := 0\<rparr>)
         (cp_connections p)\<rparr>"

definition cp_mark_disconnected :: "connection_pool \<Rightarrow> node_id \<Rightarrow> connection_pool" where
  "cp_mark_disconnected p i =
     p\<lparr>cp_connections := hm_modify i (\<lambda>c. c\<lparr>cs_connected := False, cs_retry_count := cs_retry_count c + 1\<rparr>)
         (cp_connections p)\<rparr>"

definition cp_connected_nodes :: "connection_pool \<Rightarrow> node_id list" where
  "cp_connected_nodes p = map cs_node_id (filter cs_connected (hm_values (cp_connections p)))"

section \<open>The engine\<close>

record replication_config =
  rc_raft :: raft_config
  rc_cluster :: cluster_config
  rc_tick_interval :: nat
  rc_apply_batch_size :: nat

definition replication_config_default :: replication_config where
  "replication_config_default =
     \<lparr>rc_raft = raft_config_default, rc_cluster = cluster_config_default, rc_tick_interval = 10,
      rc_apply_batch_size = 100\<rparr>"

record pending_proposal =
  pp_index :: u64
  pp_command :: command
  pp_proposed_at :: nat

record engine =
  en_config :: replication_config
  en_raft :: "kv_machine raft_node"
  en_cluster :: membership
  en_last_tick :: nat
  en_pending :: "pending_proposal list"

definition engine_new :: "nat \<Rightarrow> node_info \<Rightarrow> replication_config \<Rightarrow> engine" where
  "engine_new now local_node config =
     \<lparr>en_config = config, en_raft = raft_new now (ni_id local_node) (rc_raft config),
      en_cluster = cluster_new local_node (rc_cluster config), en_last_tick = now, en_pending = []\<rparr>"

definition en_node_id :: "engine \<Rightarrow> node_id" where
  "en_node_id e = n_id (en_raft e)"

definition en_is_leader :: "engine \<Rightarrow> bool" where
  "en_is_leader e \<longleftrightarrow> is_leader (en_raft e)"

definition en_add_peer :: "engine \<Rightarrow> node_info \<Rightarrow> (cluster_error + unit) \<times> engine" where
  "en_add_peer e peer =
     (case add_node (en_cluster e) peer of
        (Inl err, c) \<Rightarrow> (Inl err, e\<lparr>en_cluster := c\<rparr>)
      | (Inr _, c) \<Rightarrow> (Inr (), e\<lparr>en_cluster := c, en_raft := add_peer (en_raft e) (ni_id peer)\<rparr>))"

definition en_remove_peer :: "engine \<Rightarrow> node_id \<Rightarrow> (cluster_error + node_info) \<times> engine" where
  "en_remove_peer e i =
     (let e1 = e\<lparr>en_raft := remove_peer (en_raft e) i\<rparr>; (r, c) = remove_node (en_cluster e1) i
      in (r, e1\<lparr>en_cluster := c\<rparr>))"

datatype replication_error =
  ReNotLeader "node_id option" | ReProposalFailed string | ReClusterError cluster_error | ReTimeout

definition en_propose ::
    "codec \<Rightarrow> nat \<Rightarrow> u64 \<Rightarrow> engine \<Rightarrow> command \<Rightarrow> (replication_error + u64) \<times> engine" where
  "en_propose cd now wall e cmd =
     (if \<not> en_is_leader e then (Inl (ReNotLeader (n_leader (en_raft e))), e)
      else case propose cd wall (en_raft e) cmd of
             (n, Inl err) \<Rightarrow> (Inl (ReProposalFailed err), e\<lparr>en_raft := n\<rparr>)
           | (n, Inr index) \<Rightarrow>
               (Inr index, e\<lparr>en_raft := n,
                  en_pending := en_pending e @ [\<lparr>pp_index = index, pp_command = cmd, pp_proposed_at = now\<rparr>]\<rparr>))"

definition en_get :: "engine \<Rightarrow> string \<Rightarrow> bytes option" where
  "en_get e key = raft_get kv_backend (en_raft e) key"

definition en_set :: "codec \<Rightarrow> nat \<Rightarrow> u64 \<Rightarrow> engine \<Rightarrow> string \<Rightarrow> bytes \<Rightarrow> (replication_error + u64) \<times> engine" where
  "en_set cd now wall e key v = en_propose cd now wall e (cmd_set key v)"

definition en_delete :: "codec \<Rightarrow> nat \<Rightarrow> u64 \<Rightarrow> engine \<Rightarrow> string \<Rightarrow> (replication_error + u64) \<times> engine" where
  "en_delete cd now wall e key = en_propose cd now wall e (cmd_delete key)"

record tick_result =
  tk_should_start_election :: bool
  tk_should_send_heartbeats :: bool
  tk_failed_nodes :: "node_id list"
  tk_applied_count :: nat

definition tick_result_default :: tick_result where
  "tick_result_default =
     \<lparr>tk_should_start_election = False, tk_should_send_heartbeats = False, tk_failed_nodes = [], tk_applied_count = 0\<rparr>"

definition cleanup_pending_proposals :: "nat \<Rightarrow> engine \<Rightarrow> engine" where
  "cleanup_pending_proposals now e =
     e\<lparr>en_pending := filter (\<lambda>p. now - pp_proposed_at p < 30000) (en_pending e)\<rparr>"

text \<open>A tick does not return when applying the committed entries does not.\<close>

definition en_tick :: "codec \<Rightarrow> nat \<Rightarrow> u64 \<Rightarrow> engine \<Rightarrow> (tick_result \<times> engine) option" where
  "en_tick cd now wall e =
     (if now - en_last_tick e < rc_tick_interval (en_config e) then Some (tick_result_default, e)
      else
        let e1 = e\<lparr>en_last_tick := now\<rparr>;
            r = tick_result_default
              \<lparr>tk_should_start_election := (n_role (en_raft e1) \<noteq> Leader \<and> election_timeout_elapsed now (en_raft e1)),
               tk_should_send_heartbeats := (n_role (en_raft e1) = Leader)\<rparr>;
            (failed, c) = check_failures wall (en_cluster e1)
        in case apply_committed cd kv_backend (en_raft e1) of
             None \<Rightarrow> None
           | Some (n, applied) \<Rightarrow>
               Some (r\<lparr>tk_failed_nodes := failed, tk_applied_count := length applied\<rparr>,
                     cleanup_pending_proposals now (e1\<lparr>en_cluster := c, en_raft := n\<rparr>)))"

definition sync_role_to_cluster :: "engine \<Rightarrow> engine" where
  "sync_role_to_cluster e =
     (let role = n_role (en_raft e); c = set_node_role (en_cluster e) (en_node_id e) role
      in e\<lparr>en_cluster := (if role \<noteq> Leader \<and> cm_is_leader c then cm_set_leader c None else c)\<rparr>)"

definition en_start_election :: "nat \<Rightarrow> engine \<Rightarrow> vote_request \<times> engine" where
  "en_start_election now e = (let (n, r) = start_election now (en_raft e) in (r, e\<lparr>en_raft := n\<rparr>))"

definition en_handle_vote_request :: "nat \<Rightarrow> engine \<Rightarrow> vote_request \<Rightarrow> vote_response \<times> engine" where
  "en_handle_vote_request now e req =
     (let (n, resp) = handle_vote_request now (en_raft e) req
      in (resp, sync_role_to_cluster (e\<lparr>en_raft := n\<rparr>)))"

definition en_handle_vote_response :: "u64 \<Rightarrow> engine \<Rightarrow> vote_response \<Rightarrow> bool \<times> engine" where
  "en_handle_vote_response wall e resp =
     (let (n, became) = handle_vote_response wall (en_raft e) resp;
          e1 = e\<lparr>en_raft := n\<rparr>;
          e2 = (if became
                then e1\<lparr>en_cluster := set_node_role (cm_set_leader (en_cluster e1) (Some (en_node_id e1)))
                         (en_node_id e1) Leader\<rparr>
                else e1)
      in (became, sync_role_to_cluster e2))"

definition en_create_append_entries :: "engine \<Rightarrow> (node_id \<times> append_request) list" where
  "en_create_append_entries e =
     List.map_filter (\<lambda>p. map_option (\<lambda>r. (p, r)) (create_append_entries (en_raft e) p)) (cm_peer_ids (en_cluster e))"

definition en_handle_append_entries :: "nat \<Rightarrow> u64 \<Rightarrow> engine \<Rightarrow> append_request \<Rightarrow> append_response \<times> engine" where
  "en_handle_append_entries now wall e req =
     (let (n, resp) = handle_append_entries now (en_raft e) req;
          e1 = e\<lparr>en_raft := n\<rparr>;
          e2 = (if ar_success resp
                then e1\<lparr>en_cluster := cm_heartbeat wall (cm_set_leader (en_cluster e1) (Some (aq_leader req))) (aq_leader req)\<rparr>
                else e1)
      in (resp, sync_role_to_cluster e2))"

definition en_handle_append_response :: "nat \<Rightarrow> engine \<Rightarrow> node_id \<Rightarrow> append_response \<Rightarrow> engine" where
  "en_handle_append_response now e peer resp =
     sync_role_to_cluster (e\<lparr>en_raft := handle_append_entries_response now (en_raft e) peer resp\<rparr>)"

definition en_update_health :: "u64 \<Rightarrow> engine \<Rightarrow> node_health \<Rightarrow> engine" where
  "en_update_health wall e h = e\<lparr>en_cluster := update_health wall (en_cluster e) h\<rparr>"

definition en_heartbeat :: "nat \<Rightarrow> u64 \<Rightarrow> engine \<Rightarrow> node_id \<Rightarrow> engine" where
  "en_heartbeat now wall e peer =
     e\<lparr>en_cluster := cm_heartbeat wall (en_cluster e) peer, en_raft := reset_heartbeat now (en_raft e)\<rparr>"

definition process_message :: "nat \<Rightarrow> u64 \<Rightarrow> engine \<Rightarrow> message \<Rightarrow> message option \<times> engine" where
  "process_message now wall e m =
     (case msg_payload m of
        PVoteRequest req \<Rightarrow>
          (let (resp, e') = en_handle_vote_request now e req
           in (Some (msg_vote_response wall (en_node_id e') (msg_from m) resp), e'))
      | PVoteResponse resp \<Rightarrow> (None, snd (en_handle_vote_response wall e resp))
      | PAppendEntries req \<Rightarrow>
          (let (resp, e') = en_handle_append_entries now wall e req
           in (Some (msg_append_response wall (en_node_id e') (msg_from m) resp), e'))
      | PAppendEntriesResponse resp \<Rightarrow> (None, en_handle_append_response now e (msg_from m) resp)
      | PHeartbeat \<Rightarrow> (None, en_heartbeat now wall e (msg_from m))
      | _ \<Rightarrow> (None, e))"

text \<open>What the engine hands to the transport.\<close>

definition send_heartbeats :: "u64 \<Rightarrow> engine \<Rightarrow> message list" where
  "send_heartbeats wall e =
     (if \<not> en_is_leader e then []
      else map (\<lambda>(p, r). msg_append_entries wall (en_node_id e) p r) (en_create_append_entries e))"

definition broadcast_election :: "nat \<Rightarrow> u64 \<Rightarrow> engine \<Rightarrow> message list \<times> engine" where
  "broadcast_election now wall e =
     (let (r, e') = en_start_election now e
      in (map (\<lambda>p. msg_vote_request wall (en_node_id e') p r) (cm_peer_ids (en_cluster e')), e'))"

section \<open>Engine and cluster in step\<close>

definition engine_in_sync :: "engine \<Rightarrow> bool" where
  "engine_in_sync e \<longleftrightarrow> cluster_ok (en_cluster e) \<and> n_id (en_raft e) = cm_local (en_cluster e)
     \<and> distinct (n_peers (en_raft e)) \<and> set (n_peers (en_raft e)) = set (cm_peer_ids (en_cluster e))
     \<and> (cm_is_leader (en_cluster e) \<longrightarrow> n_role (en_raft e) = Leader)"

datatype engine_event =
    EeAddPeer node_info | EeRemovePeer node_id | EePropose nat u64 command | EeTick nat u64
  | EeElection nat u64 | EeMessage nat u64 message | EeHealth u64 node_health

text \<open>\<open>None\<close> is a tick that does not return.\<close>

fun engine_do :: "codec \<Rightarrow> engine_event \<Rightarrow> engine \<Rightarrow> engine option" where
  "engine_do cd (EeAddPeer p) e = Some (snd (en_add_peer e p))"
| "engine_do cd (EeRemovePeer i) e = Some (snd (en_remove_peer e i))"
| "engine_do cd (EePropose now wall cmd) e = Some (snd (en_propose cd now wall e cmd))"
| "engine_do cd (EeTick now wall) e = map_option snd (en_tick cd now wall e)"
| "engine_do cd (EeElection now wall) e =
     Some (if n_role (en_raft e) = Leader then e else snd (broadcast_election now wall e))"
| "engine_do cd (EeMessage now wall m) e = Some (snd (process_message now wall e m))"
| "engine_do cd (EeHealth wall h) e = Some (en_update_health wall e h)"

fun engine_run :: "codec \<Rightarrow> engine_event list \<Rightarrow> engine \<Rightarrow> engine option" where
  "engine_run cd [] e = Some e"
| "engine_run cd (ev # evs) e = (case engine_do cd ev e of None \<Rightarrow> None | Some e' \<Rightarrow> engine_run cd evs e')"

text \<open>What the Raft handlers leave alone.\<close>

lemma quiet_frameD: "quiet n n' \<Longrightarrow> n_id n' = n_id n \<and> n_peers n' = n_peers n"
  by (simp add: quiet_def)

lemma raft_frames [simp]:
  "n_id (fst (handle_vote_request now n req)) = n_id n" "n_peers (fst (handle_vote_request now n req)) = n_peers n"
  "n_id (fst (handle_append_entries now n areq)) = n_id n" "n_peers (fst (handle_append_entries now n areq)) = n_peers n"
  "n_id (handle_append_entries_response now n p r) = n_id n" "n_peers (handle_append_entries_response now n p r) = n_peers n"
  "n_id (fst (propose cd wall n cmd)) = n_id n" "n_peers (fst (propose cd wall n cmd)) = n_peers n"
  using quiet_handle_vote_request [of n now req] quiet_handle_append_entries [of n now areq]
    quiet_handle_append_entries_response [of n now p r] quiet_propose [of n cd wall cmd]
  by (simp_all add: quiet_frameD)

lemma vote_response_frames [simp]:
  "n_id (fst (handle_vote_response wall n r)) = n_id n" "n_peers (fst (handle_vote_response wall n r)) = n_peers n"
  by (auto simp: handle_vote_response_def step_down_def become_leader_with_term_def Let_def)

lemma became_leader:
  "snd (handle_vote_response wall n r) \<Longrightarrow> n_role (fst (handle_vote_response wall n r)) = Leader"
  by (auto simp: handle_vote_response_def become_leader_with_term_def Let_def split: if_splits)

lemma propose_role [simp]: "n_role (fst (propose cd wall n cmd)) = n_role n"
  by (simp add: propose_def Let_def)

lemma apply_one_role: "n_role (fst (apply_one cd be n entry results)) = n_role n"
  by (auto simp: apply_one_def split: option.splits prod.splits)

lemma apply_committed_loop_role:
  assumes "apply_committed_loop cd be n results = Some (n', results')"
  shows "n_role n' = n_role n"
proof (rule apply_committed_loop.raw_induct
    [where P = "\<lambda>cd be n results r. n_role (fst r) = n_role n", OF _ assms, simplified])
  fix f :: "codec \<Rightarrow> 'a backend \<Rightarrow> 'a raft_node \<Rightarrow> command_result list \<Rightarrow>
      ('a raft_node \<times> command_result list) option"
    and cd be n results and r :: "'a raft_node \<times> command_result list"
  assume IH: "\<And>cd be n results r. f cd be n results = Some r \<Longrightarrow> n_role (fst r) = n_role n"
    and eq: "(if has_entries_to_apply (n_log n) then
        (case next_to_apply (n_log n) of
           Some entry \<Rightarrow> f cd be (fst (apply_one cd be n entry results))
               (snd (apply_one cd be n entry results))
         | None \<Rightarrow> f cd be n results)
      else Some (n, results)) = Some r"
  show "n_role (fst r) = n_role n"
    using eq by (auto split: if_splits option.splits dest!: IH simp: apply_one_role)
qed

lemma cluster_update_frames [simp]:
  "cm_peer_ids (set_node_role c i r) = cm_peer_ids c" "cm_local (set_node_role c i r) = cm_local c"
  "cm_leader (set_node_role c i r) = cm_leader c"
  "cm_peer_ids (cm_set_leader c l) = cm_peer_ids c" "cm_local (cm_set_leader c l) = cm_local c"
  "cm_leader (cm_set_leader c l) = l"
  "cm_peer_ids (cm_heartbeat wall c i) = cm_peer_ids c" "cm_local (cm_heartbeat wall c i) = cm_local c"
  "cm_leader (cm_heartbeat wall c i) = cm_leader c"
  "cm_peer_ids (update_health wall c h) = cm_peer_ids c" "cm_local (update_health wall c h) = cm_local c"
  "cm_leader (update_health wall c h) = cm_leader c"
  by (simp_all add: set_node_role_def cm_set_leader_def cm_heartbeat_def update_health_def cm_peer_ids_def)

lemma check_failures_frames [simp]:
  "cm_peer_ids (snd (check_failures wall c)) = cm_peer_ids c" "cm_local (snd (check_failures wall c)) = cm_local c"
  "cm_leader (snd (check_failures wall c)) = cm_leader c"
proof -
  have "hm_keys (cm_nodes (snd (check_failures wall c))) = hm_keys (cm_nodes c)"
    by (auto simp: check_failures_def Let_def)
  then show "cm_peer_ids (snd (check_failures wall c)) = cm_peer_ids c"
    by (simp add: cm_peer_ids_def) (simp add: check_failures_def Let_def)
qed (simp_all add: check_failures_def Let_def)

lemma cluster_ok_ops:
  assumes "cluster_ok c"
  shows "cluster_ok (set_node_role c i r)" "cluster_ok (cm_set_leader c l)" "cluster_ok (cm_heartbeat wall c i)"
    "cluster_ok (update_health wall c h)" "cluster_ok (snd (check_failures wall c))" "cluster_ok (snd (add_node c n))"
    "cluster_ok (snd (remove_node c i))"
  using cluster_ok_do [OF assms, of "EvRole i r"] cluster_ok_do [OF assms, of "EvLeader l"]
    cluster_ok_do [OF assms, of "EvBeat wall i"] cluster_ok_do [OF assms, of "EvHealth wall h"]
    cluster_ok_do [OF assms, of "EvCheck wall"] cluster_ok_do [OF assms, of "EvAdd n"]
    cluster_ok_do [OF assms, of "EvRemove i"] by simp_all

text \<open>After the roles were synchronised only the frame matters.\<close>

lemma engine_in_sync_role:
  assumes "cluster_ok (en_cluster e)" "n_id (en_raft e) = cm_local (en_cluster e)" "distinct (n_peers (en_raft e))"
    and "set (n_peers (en_raft e)) = set (cm_peer_ids (en_cluster e))"
  shows "engine_in_sync (sync_role_to_cluster e)"
  using assms
  by (auto simp: engine_in_sync_def sync_role_to_cluster_def Let_def cluster_ok_ops cm_is_leader_def)

lemma sync_raft [simp]: "en_raft (sync_role_to_cluster e) = en_raft e"
  by (simp add: sync_role_to_cluster_def Let_def)

lemma engine_in_sync_message:
  assumes "engine_in_sync e"
  shows "engine_in_sync (snd (process_message now wall e m))"
proof -
  have e: "cluster_ok (en_cluster e)" "n_id (en_raft e) = cm_local (en_cluster e)" "distinct (n_peers (en_raft e))"
      "set (n_peers (en_raft e)) = set (cm_peer_ids (en_cluster e))"
      "cm_is_leader (en_cluster e) \<longrightarrow> n_role (en_raft e) = Leader"
    using assms by (auto simp: engine_in_sync_def)
  show ?thesis
  proof (cases "msg_payload m")
    case (PVoteRequest req)
    have "engine_in_sync (snd (en_handle_vote_request now e req))"
      unfolding en_handle_vote_request_def Let_def split_beta snd_conv
      by (rule engine_in_sync_role) (use e in simp_all)
    with PVoteRequest show ?thesis by (simp add: process_message_def split_beta)
  next
    case (PVoteResponse resp)
    have "engine_in_sync (snd (en_handle_vote_response wall e resp))"
      unfolding en_handle_vote_response_def Let_def split_beta snd_conv
      by (rule engine_in_sync_role) (use e in \<open>simp_all add: cluster_ok_ops\<close>)
    with PVoteResponse show ?thesis by (simp add: process_message_def)
  next
    case (PAppendEntries req)
    have "engine_in_sync (snd (en_handle_append_entries now wall e req))"
      unfolding en_handle_append_entries_def Let_def split_beta snd_conv
      by (rule engine_in_sync_role) (use e in \<open>simp_all add: cluster_ok_ops\<close>)
    with PAppendEntries show ?thesis by (simp add: process_message_def split_beta)
  next
    case (PAppendEntriesResponse resp)
    have "engine_in_sync (en_handle_append_response now e (msg_from m) resp)"
      unfolding en_handle_append_response_def
      by (rule engine_in_sync_role) (use e in simp_all)
    with PAppendEntriesResponse show ?thesis by (simp add: process_message_def)
  next
    case PHeartbeat
    then show ?thesis using e
      by (simp add: process_message_def en_heartbeat_def engine_in_sync_def cluster_ok_ops reset_heartbeat_def
          cm_is_leader_def)
  qed (use assms in \<open>simp_all add: process_message_def\<close>)
qed

lemma cm_peer_ids_set: "set (cm_peer_ids c) = {i. hm_contains (cm_nodes c) i} - {cm_local c}"
  by (auto simp: cm_peer_ids_def map_of_eq_None_iff)

lemma cm_nodes_add: "fst (add_node c n) = Inr () \<Longrightarrow>
    cm_nodes (snd (add_node c n)) = hm_insert (ni_id n) n (cm_nodes c) \<and> cm_local (snd (add_node c n)) = cm_local c
    \<and> cm_leader (snd (add_node c n)) = cm_leader c \<and> \<not> hm_contains (cm_nodes c) (ni_id n)"
  by (auto simp: add_node_def split: if_splits)

lemma engine_in_sync_do:
  assumes "engine_in_sync e" "engine_do cd ev e = Some e'"
  shows "engine_in_sync e'"
proof -
  have e: "cluster_ok (en_cluster e)" "n_id (en_raft e) = cm_local (en_cluster e)" "distinct (n_peers (en_raft e))"
      "set (n_peers (en_raft e)) = set (cm_peer_ids (en_cluster e))"
      "cm_is_leader (en_cluster e) \<longrightarrow> n_role (en_raft e) = Leader"
    using assms by (auto simp: engine_in_sync_def)
  show ?thesis
  proof (cases ev)
    case (EeAddPeer p)
    show ?thesis
    proof (cases "fst (add_node (en_cluster e) p)")
      case (Inl err)
      then have "snd (add_node (en_cluster e) p) = en_cluster e" by (auto simp: add_node_def split: if_splits)
      with EeAddPeer Inl assms show ?thesis
        by (cases "add_node (en_cluster e) p") (simp add: en_add_peer_def engine_in_sync_def)
    next
      case (Inr u)
      then obtain c where c: "add_node (en_cluster e) p = (Inr (), c)"
        by (cases "add_node (en_cluster e) p") auto
      have "ni_id p \<noteq> cm_local (en_cluster e)"
        using cm_nodes_add [of "en_cluster e" p] c e(1) by (auto simp: cluster_ok_iff)
      then have "set (cm_peer_ids c) = insert (ni_id p) (set (cm_peer_ids (en_cluster e)))"
        using cm_nodes_add [of "en_cluster e" p] c by (auto simp: cm_peer_ids_set hm_simps)
      with EeAddPeer c e assms(2) show ?thesis
        using cm_nodes_add [of "en_cluster e" p] cluster_ok_ops(6) [OF e(1), of p]
        by (auto simp: en_add_peer_def engine_in_sync_def add_peer_def cm_is_leader_def)
    qed
  next
    case (EeRemovePeer i)
    obtain r c where rc: "remove_node (en_cluster e) i = (r, c)" by force
    have "set (cm_peer_ids c) = set (cm_peer_ids (en_cluster e)) - {i} \<and> cm_local c = cm_local (en_cluster e)
        \<and> cm_leader c = cm_leader (en_cluster e)"
      using rc by (auto simp: remove_node_def cm_peer_ids_set hm_simps split: if_splits option.splits)
    with EeRemovePeer rc e assms(2) show ?thesis
      using cluster_ok_ops(7) [OF e(1), of i]
      by (auto simp: en_remove_peer_def engine_in_sync_def remove_peer_def cm_is_leader_def distinct_removeAll Let_def)
  next
    case (EePropose now wall cmd)
    have "n_role (fst (propose cd wall (en_raft e) cmd)) = n_role (en_raft e)" by simp
    with EePropose e assms(2) show ?thesis
      by (auto simp: en_propose_def engine_in_sync_def split: prod.splits sum.splits if_splits
          dest: arg_cong [of _ _ fst] simp del: propose_role)
         (metis fst_conv raft_frames(7,8) propose_role)+
  next
    case (EeTick now wall)
    show ?thesis
    proof (cases "now - en_last_tick e < rc_tick_interval (en_config e)")
      case True
      with EeTick assms show ?thesis by (simp add: en_tick_def)
    next
      case False
      with EeTick assms(2) obtain n applied where a: "apply_committed cd kv_backend (en_raft e) = Some (n, applied)"
        and e': "e' = cleanup_pending_proposals now (e\<lparr>en_last_tick := now,
            en_cluster := snd (check_failures wall (en_cluster e)), en_raft := n\<rparr>)"
        by (auto simp: en_tick_def Let_def split: prod.splits option.splits)
      have "quiet (en_raft e) n" "n_role n = n_role (en_raft e)"
        using a quiet_apply_committed apply_committed_loop_role by (auto simp: apply_committed_def)
      with e show ?thesis
        by (auto simp: e' cleanup_pending_proposals_def engine_in_sync_def cluster_ok_ops cm_is_leader_def quiet_def)
    qed
  next
    case (EeElection now wall)
    with e assms show ?thesis
      by (auto simp: broadcast_election_def en_start_election_def start_election_def reset_heartbeat_def
          engine_in_sync_def Let_def split: if_splits)
  next
    case (EeMessage now wall m)
    with assms engine_in_sync_message show ?thesis by auto
  next
    case (EeHealth wall h)
    with e assms(2) show ?thesis
      by (auto simp: en_update_health_def engine_in_sync_def cluster_ok_ops cm_is_leader_def)
  qed
qed

lemma process_message_id [simp]: "n_id (en_raft (snd (process_message now wall e m))) = n_id (en_raft e)"
  by (cases "msg_payload m")
    (simp_all add: process_message_def en_handle_vote_request_def en_handle_vote_response_def
      en_handle_append_entries_def en_handle_append_response_def en_heartbeat_def reset_heartbeat_def split_beta Let_def)

lemma en_propose_raft:
  "en_raft (snd (en_propose cd now wall e cmd)) =
     (if en_is_leader e then fst (propose cd wall (en_raft e) cmd) else en_raft e)"
  by (auto simp: en_propose_def split: prod.splits sum.splits)

lemma engine_do_id:
  assumes "engine_do cd ev e = Some e'"
  shows "n_id (en_raft e') = n_id (en_raft e)"
proof (cases ev)
  case (EeAddPeer p)
  then show ?thesis using assms by (auto simp: en_add_peer_def add_peer_def split: prod.splits sum.splits)
next
  case (EeRemovePeer i)
  then show ?thesis using assms by (auto simp: en_remove_peer_def remove_peer_def split: prod.splits)
next
  case (EePropose now wall cmd)
  then show ?thesis using assms by (auto simp: en_propose_raft)
next
  case (EeTick now wall)
  then show ?thesis using assms
    by (auto simp: en_tick_def cleanup_pending_proposals_def Let_def dest!: quiet_apply_committed quiet_frameD
        split: prod.splits option.splits if_splits)
next
  case (EeElection now wall)
  then show ?thesis using assms
    by (auto simp: broadcast_election_def en_start_election_def start_election_def reset_heartbeat_def Let_def)
qed (use assms in \<open>auto simp: en_update_health_def\<close>)

lemma engine_run_in_sync:
  assumes "engine_run cd evs e = Some e'" "engine_in_sync e"
  shows "engine_in_sync e' \<and> n_id (en_raft e') = n_id (en_raft e)"
  using assms
proof (induction evs arbitrary: e)
  case (Cons ev evs)
  then obtain e1 where e1: "engine_do cd ev e = Some e1" "engine_run cd evs e1 = Some e'"
    by (auto split: option.splits)
  with Cons.IH [OF e1(2) engine_in_sync_do [OF Cons.prems(2) e1(1)]] engine_do_id [OF e1(1)] show ?case by simp
qed simp

lemma engine_in_sync_new: "engine_in_sync (engine_new now local_node config)"
  using cluster_ok_new [of local_node "rc_cluster config"]
  by (simp add: engine_in_sync_def engine_new_def raft_new_def with_state_machine_def cluster_new_def
      cm_peer_ids_def cm_is_leader_def)

text \<open>The engine keeps its Raft node and its node table in step.  Whatever peers are added and
  removed, commands proposed, messages processed, health reports received, and elections started
  while it does not lead, the peers of the Raft node are exactly the other nodes of the table,
  without repetition, both know the node under the same identifier, and the table names the node
  as leader only while Raft has it as leader.\<close>

theorem engine_stays_in_sync:
  assumes "engine_run cd evs (engine_new now local_node config) = Some e"
  shows "cluster_ok (en_cluster e) \<and> n_id (en_raft e) = ni_id local_node \<and> cm_local (en_cluster e) = ni_id local_node
    \<and> distinct (n_peers (en_raft e))
    \<and> set (n_peers (en_raft e)) = {i. cm_get_node (en_cluster e) i \<noteq> None} - {ni_id local_node}
    \<and> (cm_is_leader (en_cluster e) \<longrightarrow> is_leader (en_raft e))"
proof -
  have sync: "engine_in_sync e" and id: "n_id (en_raft e) = ni_id local_node"
    using engine_run_in_sync [OF assms engine_in_sync_new]
    by (simp_all add: engine_new_def raft_new_def with_state_machine_def)
  from sync have local_id: "cm_local (en_cluster e) = ni_id local_node" using id by (simp add: engine_in_sync_def)
  have "set (cm_peer_ids (en_cluster e)) = {i. cm_get_node (en_cluster e) i \<noteq> None} - {ni_id local_node}"
    by (simp only: cm_peer_ids_set cm_get_node_def local_id)
  with sync id local_id show ?thesis by (simp add: engine_in_sync_def is_leader_def)
qed

definition sample_replication :: replication_config where
  "sample_replication =
     \<lparr>rc_raft = \<lparr>election_timeout_min = 3, election_timeout_max = 6, heartbeat_interval = 1,
        max_entries_per_request = 2, snapshot_threshold = 8, lease_duration = 4\<rparr>,
      rc_cluster = \<lparr>cc_cluster_id = ''c'', cc_min_nodes = 1, cc_max_nodes = 3, cc_heartbeat_interval = 1,
        cc_failure_timeout = 5, cc_replication_factor = 3, cc_quorum_size = 2\<rparr>,
      rc_tick_interval = 1, rc_apply_batch_size = 2\<rparr>"

text \<open>Two engines; \<open>a\<close> is elected with the vote of \<open>b\<close> and then drops it.\<close>

definition sample_engine :: engine where
  "sample_engine =
     snd (process_message 6 0
       (snd (broadcast_election 5 0
         (snd (en_add_peer (engine_new 0 (node_new 0 ''a'' ''h'' 1) sample_replication) (node_new 0 ''b'' ''h'' 2)))))
       (msg_vote_response 0 ''b'' ''a'' \<lparr>vr_term = 1, vr_granted = True, vr_voter = ''b''\<rparr>))"

definition sample_events :: "engine_event list" where
  "sample_events =
     [EeAddPeer (node_new 0 ''b'' ''h'' 2), EeElection 5 0,
      EeMessage 6 0 (msg_vote_response 0 ''b'' ''a'' \<lparr>vr_term = 1, vr_granted = True, vr_voter = ''b''\<rparr>),
      EeRemovePeer ''b'']"

lemma sample_run:
  "engine_run cd sample_events (engine_new 0 (node_new 0 ''a'' ''h'' 1) sample_replication)
   = Some (snd (en_remove_peer sample_engine ''b''))"
proof -
  have "n_role (en_raft (snd (en_add_peer (engine_new 0 (node_new 0 ''a'' ''h'' 1) sample_replication)
      (node_new 0 ''b'' ''h'' 2)))) \<noteq> Leader" by code_simp
  then show ?thesis
    by (simp only: sample_events_def sample_engine_def engine_run.simps engine_do.simps option.case if_False)
qed

theorem engine_stays_in_sync_witness:
  "is_leader (en_raft (snd (en_remove_peer sample_engine ''b'')))
   \<and> set (n_peers (en_raft (snd (en_remove_peer sample_engine ''b'')))) = {}"
proof -
  let ?e = "snd (en_remove_peer sample_engine ''b'')"
  have l: "cm_is_leader (en_cluster ?e)" and k: "hm_keys (cm_nodes (en_cluster ?e)) = [''a'']" by code_simp+
  have nodes: "{i. cm_get_node (en_cluster ?e) i \<noteq> None} = {''a''}"
    by (simp only: cm_get_node_def map_of_eq_None_iff not_not set_map [symmetric] k) simp
  have i: "ni_id (node_new 0 ''a'' ''h'' 1) = ''a''" by (simp add: node_new_def)
  show ?thesis
    using engine_stays_in_sync [OF sample_run [of sample_codec]] l by (simp only: nodes i) simp
qed

section \<open>A network of engines\<close>

record network =
  nw_engines :: "node_id \<Rightarrow> engine"
  nw_messages :: "message set"

text \<open>Engines start elections, send heartbeats, propose, tick and process messages; a message that was
  sent may be delivered late, several times or never.  \<open>elect\<close> excludes the increment of the
  largest term.\<close>

inductive network_step :: "codec \<Rightarrow> node_id set \<Rightarrow> network \<Rightarrow> network \<Rightarrow> bool"
  for cd :: codec and M :: "node_id set" where
  deliver: "i \<in> M \<Longrightarrow> m \<in> nw_messages s \<Longrightarrow> msg_to m = i \<Longrightarrow>
    process_message now wall (nw_engines s i) m = (reply, e') \<Longrightarrow>
    network_step cd M s \<lparr>nw_engines = (nw_engines s)(i := e'), nw_messages = nw_messages s \<union> set_option reply\<rparr>"
| elect: "i \<in> M \<Longrightarrow> current_term (n_state (en_raft (nw_engines s i))) \<noteq> - 1 \<Longrightarrow>
    broadcast_election now wall (nw_engines s i) = (ms, e') \<Longrightarrow>
    network_step cd M s \<lparr>nw_engines = (nw_engines s)(i := e'), nw_messages = nw_messages s \<union> set ms\<rparr>"
| beat: "i \<in> M \<Longrightarrow>
    network_step cd M s (s\<lparr>nw_messages := nw_messages s \<union> set (send_heartbeats wall (nw_engines s i))\<rparr>)"
| client: "i \<in> M \<Longrightarrow> en_propose cd now wall (nw_engines s i) cmd = (r, e') \<Longrightarrow>
    network_step cd M s (s\<lparr>nw_engines := (nw_engines s)(i := e')\<rparr>)"
| tick: "i \<in> M \<Longrightarrow> en_tick cd now wall (nw_engines s i) = Some (t, e') \<Longrightarrow>
    network_step cd M s (s\<lparr>nw_engines := (nw_engines s)(i := e')\<rparr>)"
| health: "i \<in> M \<Longrightarrow>
    network_step cd M s (s\<lparr>nw_engines := (nw_engines s)(i := en_update_health wall (nw_engines s i) h)\<rparr>)"

definition network_init :: "node_id set \<Rightarrow> network \<Rightarrow> bool" where
  "network_init M s \<longleftrightarrow> nw_messages s = {}
     \<and> (\<forall>i \<in> M. n_id (en_raft (nw_engines s i)) = i \<and> distinct (n_peers (en_raft (nw_engines s i)))
          \<and> set (n_peers (en_raft (nw_engines s i))) = M - {i}
          \<and> n_state (en_raft (nw_engines s i)) = raft_state_default
          \<and> n_role (en_raft (nw_engines s i)) = Follower)"

text \<open>The Raft cluster a network of engines implements.\<close>

definition network_cluster :: "network \<Rightarrow> kv_machine cluster" where
  "network_cluster s =
     \<lparr>cl_nodes = (\<lambda>i. en_raft (nw_engines s i)),
      cl_votes = {(msg_to m, r) | m r. m \<in> nw_messages s \<and> msg_payload m = PVoteResponse r}\<rparr>"

text \<open>No engine asks for a vote in another's name.\<close>

definition honest :: "node_id set \<Rightarrow> network \<Rightarrow> bool" where
  "honest M s \<longleftrightarrow>
     (\<forall>m \<in> nw_messages s. \<forall>req. msg_payload m = PVoteRequest req \<longrightarrow> vq_candidate req = msg_from m)
     \<and> (\<forall>i \<in> M. n_id (en_raft (nw_engines s i)) = i)"

lemma cluster_eqI:
  "cl_nodes c = cl_nodes d \<Longrightarrow> cl_votes c = cl_votes d \<Longrightarrow> (c :: 'sm cluster) = d"
  by simp

lemma network_cluster_quiet:
  assumes "\<forall>m \<in> ms. \<forall>r. msg_payload m \<noteq> PVoteResponse r"
  shows "network_cluster \<lparr>nw_engines = (nw_engines s)(i := e'), nw_messages = nw_messages s \<union> ms\<rparr> =
    set_node (network_cluster s) i (en_raft e')"
  using assms by (auto simp: network_cluster_def set_node_def fun_eq_iff)

lemma network_cluster_vote:
  assumes "msg_payload m = PVoteResponse r"
  shows "network_cluster \<lparr>nw_engines = (nw_engines s)(i := e'), nw_messages = nw_messages s \<union> {m}\<rparr> =
    (set_node (network_cluster s) i (en_raft e'))\<lparr>cl_votes := insert (msg_to m, r) (cl_votes (network_cluster s))\<rparr>"
proof -
  have "{(msg_to m', r') | m' r'. m' \<in> nw_messages s \<union> {m} \<and> msg_payload m' = PVoteResponse r'} =
    insert (msg_to m, r) {(msg_to m', r') | m' r'. m' \<in> nw_messages s \<and> msg_payload m' = PVoteResponse r'}"
    using assms by auto
  then show ?thesis by (simp add: network_cluster_def set_node_def fun_eq_iff)
qed

lemma network_deliver:
  assumes "honest M s" "i \<in> M" "m \<in> nw_messages s" "msg_to m = i"
    and p: "process_message now wall (nw_engines s i) m = (reply, e')"
  defines "s' \<equiv> \<lparr>nw_engines = (nw_engines s)(i := e'), nw_messages = nw_messages s \<union> set_option reply\<rparr>"
  shows "cluster_step cd kv_backend M (network_cluster s) (network_cluster s') \<or> network_cluster s' = network_cluster s"
proof -
  let ?e = "nw_engines s i" and ?c = "network_cluster s"
  have node: "cl_nodes ?c i = en_raft ?e" by (simp add: network_cluster_def)
  show ?thesis
  proof (cases "msg_payload m")
    case (PVoteRequest req)
    obtain n resp where h: "handle_vote_request now (en_raft ?e) req = (n, resp)" by force
    have "vq_candidate req = msg_from m" using assms(1,3) PVoteRequest by (auto simp: honest_def)
    moreover have "en_raft e' = n" "reply = Some (msg_vote_response wall (en_node_id e') (msg_from m) resp)"
      using p PVoteRequest h by (auto simp: process_message_def en_handle_vote_request_def)
    ultimately have "network_cluster s' =
        (set_node ?c i n)\<lparr>cl_votes := insert (vq_candidate req, resp) (cl_votes ?c)\<rparr>"
      using network_cluster_vote [of "msg_vote_response wall (en_node_id e') (msg_from m) resp" resp s i e']
      by (simp add: s'_def msg_vote_response_def message_new_def)
    then show ?thesis using cluster_step.vote [OF assms(2), of now ?c req n resp cd kv_backend] h node by simp
  next
    case (PVoteResponse resp)
    have "en_raft e' = fst (handle_vote_response wall (en_raft ?e) resp)" "reply = None"
      using p PVoteResponse by (auto simp: process_message_def en_handle_vote_response_def split_beta Let_def)
    then have "network_cluster s' = set_node ?c i (fst (handle_vote_response wall (cl_nodes ?c i) resp))"
      using network_cluster_quiet [of "{}" s i e'] by (simp add: s'_def node)
    moreover have "(i, resp) \<in> cl_votes ?c" using assms(3,4) PVoteResponse by (auto simp: network_cluster_def)
    ultimately show ?thesis using cluster_step.count [OF assms(2)] by metis
  next
    case (PAppendEntries req)
    have "en_raft e' = fst (handle_append_entries now (en_raft ?e) req)"
        "\<forall>m' \<in> set_option reply. \<forall>r. msg_payload m' \<noteq> PVoteResponse r"
      using p PAppendEntries
      by (auto simp: process_message_def en_handle_append_entries_def split_beta Let_def msg_append_response_def message_new_def)
    then have "network_cluster s' = set_node ?c i (fst (handle_append_entries now (cl_nodes ?c i) req))"
      using network_cluster_quiet [of "set_option reply" s i e'] by (simp add: s'_def node)
    then show ?thesis using cluster_step.append [OF assms(2)] by metis
  next
    case (PAppendEntriesResponse resp)
    have "en_raft e' = handle_append_entries_response now (en_raft ?e) (msg_from m) resp" "reply = None"
      using p PAppendEntriesResponse by (auto simp: process_message_def en_handle_append_response_def)
    then have "network_cluster s' = set_node ?c i (handle_append_entries_response now (cl_nodes ?c i) (msg_from m) resp)"
      using network_cluster_quiet [of "{}" s i e'] by (simp add: s'_def node)
    then show ?thesis using cluster_step.append_response [OF assms(2)] by metis
  next
    case PHeartbeat
    have "en_raft e' = reset_heartbeat now (en_raft ?e)" "reply = None"
      using p PHeartbeat by (auto simp: process_message_def en_heartbeat_def)
    then have "network_cluster s' = set_node ?c i (reset_heartbeat now (cl_nodes ?c i))"
      using network_cluster_quiet [of "{}" s i e'] by (simp add: s'_def node)
    then show ?thesis using cluster_step.heartbeat [OF assms(2)] by metis
  qed (use p in \<open>auto simp: process_message_def s'_def network_cluster_def fun_eq_iff\<close>)
qed

lemma reply_not_vote_request:
  assumes "process_message now wall e m = (reply, e')" "m' \<in> set_option reply"
  shows "msg_payload m' \<noteq> PVoteRequest req"
  using assms
  by (cases "msg_payload m")
    (auto simp: process_message_def Let_def split_beta msg_vote_response_def msg_append_response_def message_new_def)

lemma heartbeat_payload:
  assumes "m \<in> set (send_heartbeats wall e)"
  shows "msg_payload m \<noteq> PVoteRequest req" "msg_payload m \<noteq> PVoteResponse resp"
  using assms
  by (auto simp: send_heartbeats_def msg_append_entries_def message_new_def split: if_splits prod.splits)

lemma broadcast_election_eq:
  assumes "broadcast_election now wall e = (ms, e')"
  shows "en_raft e' = fst (start_election now (en_raft e))" "n_id (en_raft e') = n_id (en_raft e)"
    "m \<in> set ms \<Longrightarrow> msg_payload m = PVoteRequest req \<Longrightarrow> vq_candidate req = msg_from m"
    "m \<in> set ms \<Longrightarrow> msg_payload m \<noteq> PVoteResponse resp"
  using assms
  by (auto simp: broadcast_election_def en_start_election_def start_election_def reset_heartbeat_def en_node_id_def
      msg_vote_request_def message_new_def Let_def split_beta)

lemma en_tick_cases:
  assumes "en_tick cd now wall e = Some (t, e')"
  shows "en_raft e' = en_raft e \<or> (\<exists>results. apply_committed cd kv_backend (en_raft e) = Some (en_raft e', results))"
  using assms
  by (auto simp: en_tick_def Let_def cleanup_pending_proposals_def split: if_splits prod.splits option.splits)

lemma honest_update:
  assumes "honest M s" "n_id (en_raft e') = n_id (en_raft (nw_engines s i))"
    and "\<And>m req. m \<in> ms \<Longrightarrow> msg_payload m = PVoteRequest req \<Longrightarrow> vq_candidate req = msg_from m"
  shows "honest M \<lparr>nw_engines = (nw_engines s)(i := e'), nw_messages = nw_messages s \<union> ms\<rparr>"
  using assms unfolding honest_def by auto

lemma honest_step:
  assumes "network_step cd M s s'" "honest M s"
  shows "honest M s'"
  using assms
proof cases
  case (deliver i m now wall reply e')
  have "n_id (en_raft e') = n_id (en_raft (nw_engines s i))"
    using process_message_id [of now wall "nw_engines s i" m] by (simp add: deliver(5))
  then show ?thesis
    unfolding deliver(1) by (rule honest_update [OF assms(2)]) (use reply_not_vote_request [OF deliver(5)] in blast)
next
  case (elect i now wall ms e')
  show ?thesis
    unfolding elect(1)
    by (rule honest_update [OF assms(2) broadcast_election_eq(2) [OF elect(4)]])
      (use broadcast_election_eq(3) [OF elect(4)] in blast)
next
  case (beat i wall)
  then show ?thesis using assms(2) heartbeat_payload(1) by (fastforce simp: honest_def)
next
  case (client i now wall cmd r e')
  moreover from client(3) have "n_id (en_raft e') = n_id (en_raft (nw_engines s i))"
    using en_propose_raft [of cd now wall "nw_engines s i" cmd] by simp
  ultimately show ?thesis using assms(2) by (auto simp: honest_def)
next
  case (tick i now wall t e')
  moreover from tick(3) have "n_id (en_raft e') = n_id (en_raft (nw_engines s i))"
    using en_tick_cases quiet_apply_committed quiet_frameD by metis
  ultimately show ?thesis using assms(2) by (auto simp: honest_def)
next
  case (health i wall h)
  then show ?thesis using assms(2) by (auto simp: honest_def en_update_health_def)
qed

lemma network_cluster_upd:
  "network_cluster (s\<lparr>nw_engines := (nw_engines s)(i := e')\<rparr>) = set_node (network_cluster s) i (en_raft e')"
  by (simp add: network_cluster_def set_node_def fun_eq_iff)

lemma set_node_same: "n = cl_nodes c i \<Longrightarrow> set_node c i n = c"
  by (simp add: set_node_def)

lemma network_refines_step:
  assumes "network_step cd M s s'" "honest M s"
  shows "cluster_step cd kv_backend M (network_cluster s) (network_cluster s') \<or> network_cluster s' = network_cluster s"
  using assms
proof cases
  case (deliver i m now wall reply e')
  then show ?thesis using network_deliver [OF assms(2)] by metis
next
  case (elect i now wall ms e')
  then have "network_cluster s' = set_node (network_cluster s) i
      (fst (start_election now (cl_nodes (network_cluster s) i)))"
    using network_cluster_quiet [of "set ms" s i e'] broadcast_election_eq [OF elect(4)]
    by (simp add: network_cluster_def)
  moreover have "current_term (n_state (cl_nodes (network_cluster s) i)) \<noteq> - 1"
    using elect by (simp add: network_cluster_def)
  ultimately show ?thesis using cluster_step.elect elect by metis
next
  case (beat i wall)
  then have "network_cluster s' = network_cluster s"
    using heartbeat_payload(2) by (fastforce simp: network_cluster_def)
  then show ?thesis by simp
next
  case (client i now wall cmd r e')
  then have "network_cluster s' = set_node (network_cluster s) i
      (if en_is_leader (nw_engines s i) then fst (propose cd wall (cl_nodes (network_cluster s) i) cmd)
       else cl_nodes (network_cluster s) i)"
    using en_propose_raft [of cd now wall "nw_engines s i" cmd]
    by (simp add: network_cluster_upd) (simp add: network_cluster_def)
  then show ?thesis using cluster_step.client [OF client(2)] set_node_same by metis
next
  case (tick i now wall t e')
  have "cl_nodes (network_cluster s) i = en_raft (nw_engines s i)" by (simp add: network_cluster_def)
  then show ?thesis
    using en_tick_cases [OF tick(3)] cluster_step.apply_log [OF tick(2)] tick(1) network_cluster_upd set_node_same
    by metis
next
  case (health i wall h)
  have "en_raft (en_update_health wall (nw_engines s i) h) = cl_nodes (network_cluster s) i"
    by (simp add: network_cluster_def en_update_health_def)
  with health(1) show ?thesis using network_cluster_upd set_node_same by metis
qed

inductive network_reachable :: "codec \<Rightarrow> node_id set \<Rightarrow> network \<Rightarrow> bool"
  for cd :: codec and M :: "node_id set" where
  init: "network_init M s \<Longrightarrow> network_reachable cd M s"
| step: "network_reachable cd M s \<Longrightarrow> network_step cd M s s' \<Longrightarrow> network_reachable cd M s'"

lemma network_refines:
  assumes "network_reachable cd M s"
  shows "honest M s \<and> cluster_reachable cd kv_backend M (network_cluster s)"
  using assms
proof induction
  case (init s)
  then have "honest M s" "cluster_init M (network_cluster s)"
    by (auto simp: network_init_def honest_def cluster_init_def network_cluster_def)
  then show ?case by (simp add: cluster_reachable.init)
next
  case (step s s')
  then show ?case using honest_step network_refines_step cluster_reachable.step by metis
qed

text \<open>C15: Engines elect one leader per term.  In every network of engines over one set of members, each
  starting with exactly the others as peers, whatever elections they start, heartbeats they send,
  commands they are given, ticks and health reports they process, and however messages are delayed,
  duplicated, reordered or lost, two engines that lead in the same term are the same engine: the
  engine loop implements the Raft cluster.\<close>

theorem engines_elect_one_leader:
  assumes "network_reachable cd M s" "finite M" "i \<in> M" "j \<in> M"
    and "en_is_leader (nw_engines s i)" "en_is_leader (nw_engines s j)"
    and "current_term (n_state (en_raft (nw_engines s i))) = current_term (n_state (en_raft (nw_engines s j)))"
  shows "i = j"
proof -
  have "election_inv M (network_cluster s)"
    using network_refines [OF assms(1)] by (blast intro: election_inv_reachable)
  from election_safety_inv [OF this assms(2-4)] show ?thesis
    using assms(5-7) by (simp add: network_cluster_def en_is_leader_def is_leader_def)
qed

text \<open>Two engines: \<open>a\<close> starts an election, \<open>b\<close> grants its vote, \<open>a\<close> counts it.\<close>

definition pair_engine :: "node_id \<Rightarrow> node_id \<Rightarrow> engine" where
  "pair_engine i j =
     snd (en_add_peer (engine_new 0 (node_new 0 i ''h'' 1) sample_replication) (node_new 0 j ''h'' 2))"

definition pair_start :: network where
  "pair_start = \<lparr>nw_engines = (\<lambda>i. if i = ''a'' then pair_engine ''a'' ''b'' else pair_engine ''b'' ''a''),
     nw_messages = {}\<rparr>"

definition pair_request :: message where
  "pair_request = hd (fst (broadcast_election 5 0 (pair_engine ''a'' ''b'')))"

definition pair_candidate :: engine where
  "pair_candidate = snd (broadcast_election 5 0 (pair_engine ''a'' ''b''))"

definition pair_response :: message where
  "pair_response = the (fst (process_message 6 0 (pair_engine ''b'' ''a'') pair_request))"

definition pair_voter :: engine where
  "pair_voter = snd (process_message 6 0 (pair_engine ''b'' ''a'') pair_request)"

definition pair_leader :: engine where
  "pair_leader = snd (process_message 7 0 pair_candidate pair_response)"

lemma pair_eval:
  "broadcast_election 5 0 (pair_engine ''a'' ''b'') = ([pair_request], pair_candidate)"
  "process_message 6 0 (pair_engine ''b'' ''a'') pair_request = (Some pair_response, pair_voter)"
  "process_message 7 0 pair_candidate pair_response = (None, pair_leader)"
  "msg_to pair_request = ''b''" "msg_to pair_response = ''a''"
  "en_is_leader pair_leader" "\<not> en_is_leader pair_voter"
  "current_term (n_state (en_raft (pair_engine ''a'' ''b''))) \<noteq> - 1"
  "n_id (en_raft (pair_engine ''a'' ''b'')) = ''a''" "n_id (en_raft (pair_engine ''b'' ''a'')) = ''b''"
  "n_peers (en_raft (pair_engine ''a'' ''b'')) = [''b'']" "n_peers (en_raft (pair_engine ''b'' ''a'')) = [''a'']"
  "n_state (en_raft (pair_engine ''a'' ''b'')) = raft_state_default"
  "n_state (en_raft (pair_engine ''b'' ''a'')) = raft_state_default"
  "n_role (en_raft (pair_engine ''a'' ''b'')) = Follower" "n_role (en_raft (pair_engine ''b'' ''a'')) = Follower"
  by code_simp+

definition pair_elected :: network where
  "pair_elected =
     \<lparr>nw_engines = (nw_engines pair_start)(''a'' := pair_candidate, ''b'' := pair_voter, ''a'' := pair_leader),
      nw_messages = {pair_request, pair_response}\<rparr>"

lemma pair_reachable: "network_reachable cd {''a'', ''b''} pair_elected"
proof -
  let ?M = "{''a'', ''b''} :: node_id set"
  let ?s1 = "\<lparr>nw_engines = (nw_engines pair_start)(''a'' := pair_candidate), nw_messages = {} \<union> set [pair_request]\<rparr>"
  let ?s2 = "\<lparr>nw_engines = (nw_engines ?s1)(''b'' := pair_voter),
      nw_messages = nw_messages ?s1 \<union> set_option (Some pair_response)\<rparr>"
  let ?s3 = "\<lparr>nw_engines = (nw_engines ?s2)(''a'' := pair_leader), nw_messages = nw_messages ?s2 \<union> set_option None\<rparr>"
  have eng: "nw_engines pair_start ''a'' = pair_engine ''a'' ''b''" "nw_engines pair_start ''b'' = pair_engine ''b'' ''a''"
      "nw_messages pair_start = {}"
    by (simp_all add: pair_start_def)
  have "network_init ?M pair_start"
    unfolding network_init_def using pair_eval(9-16) by (auto simp: eng)
  moreover have "network_step cd ?M pair_start ?s1"
    using network_step.elect [of "''a''" ?M pair_start 5 0 "[pair_request]" pair_candidate cd] pair_eval(1,8) by (simp add: eng)
  moreover have "network_step cd ?M ?s1 ?s2"
    by (rule network_step.deliver [where m = pair_request and now = 6 and wall = 0])
      (use pair_eval(2,4) in \<open>simp_all add: eng\<close>)
  moreover have "network_step cd ?M ?s2 ?s3"
    by (rule network_step.deliver [where m = pair_response and now = 7 and wall = 0])
      (use pair_eval(3,5) in \<open>simp_all add: eng\<close>)
  moreover have "?s3 = pair_elected" by (auto simp: pair_elected_def)
  ultimately show ?thesis by (metis network_reachable.intros)
qed

theorem engines_elect_one_leader_witness:
  "network_reachable sample_codec {''a'', ''b''} pair_elected \<and> en_is_leader (nw_engines pair_elected ''a'')
   \<and> \<not> (en_is_leader (nw_engines pair_elected ''b'')
        \<and> current_term (n_state (en_raft (nw_engines pair_elected ''a'')))
          = current_term (n_state (en_raft (nw_engines pair_elected ''b''))))"
proof -
  have "en_is_leader (nw_engines pair_elected ''a'')" using pair_eval(6) by (simp add: pair_elected_def)
  with engines_elect_one_leader [OF pair_reachable [of sample_codec], of "''a''" "''b''"]
    pair_reachable [of sample_codec] show ?thesis by auto
qed

end
