(* ===== verification/TwoPhase.thy ===== *)
theory TwoPhase
  imports RustText
begin

text \<open>
  Distributed transactions by two-phase commit,
  \<^verbatim>\<open>crates/aegis-replication/src/transaction.rs\<close>: the coordinator with its table of
  transactions, the participant handler with its locks, and the messages between them.
  The callbacks of a participant close over its storage; the storage is a component \<open>'s\<close>
  of the handler and a callback is a function on it.  Wall-clock readings (milliseconds)
  and generated identifiers are arguments.  Hash sets are sets.
\<close>

section \<open>Data\<close>

type_synonym txn_id = string

datatype transaction_state =
  Preparing | Prepared | Committing | Committed | Aborting | Aborted | UnknownState

definition is_terminal :: "transaction_state \<Rightarrow> bool" where
  "is_terminal s \<longleftrightarrow> s = Committed \<or> s = Aborted"

definition can_commit :: "transaction_state \<Rightarrow> bool" where
  "can_commit s \<longleftrightarrow> s = Prepared"

definition can_abort :: "transaction_state \<Rightarrow> bool" where
  "can_abort s \<longleftrightarrow> s \<noteq> Committed"

datatype participant_vote = Commit | Abort | Pending

record transaction_participant =
  pt_node_id :: node_id
  pt_vote :: participant_vote
  pt_prepared :: bool
  pt_committed :: bool
  pt_last_contact :: "u64 option"

definition participant_new :: "node_id \<Rightarrow> transaction_participant" where
  "participant_new node =
     \<lparr>pt_node_id = node, pt_vote = Pending, pt_prepared = False, pt_committed = False,
      pt_last_contact = None\<rparr>"

definition record_prepare :: "transaction_participant \<Rightarrow> participant_vote \<Rightarrow> transaction_participant" where
  "record_prepare p vote = p\<lparr>pt_vote := vote, pt_prepared := (vote = Commit)\<rparr>"

definition record_commit :: "transaction_participant \<Rightarrow> transaction_participant" where
  "record_commit p = p\<lparr>pt_committed := True\<rparr>"

datatype transaction_operation =
    OpRead string string
  | OpWrite string bytes string
  | OpDelete string string
  | OpCompareAndSwap string "bytes option" bytes string

fun op_shard_id :: "transaction_operation \<Rightarrow> string" where
  "op_shard_id (OpRead k s) = s"
| "op_shard_id (OpWrite k v s) = s"
| "op_shard_id (OpDelete k s) = s"
| "op_shard_id (OpCompareAndSwap k e v s) = s"

fun op_key :: "transaction_operation \<Rightarrow> string" where
  "op_key (OpRead k s) = k"
| "op_key (OpWrite k v s) = k"
| "op_key (OpDelete k s) = k"
| "op_key (OpCompareAndSwap k e v s) = k"

fun op_is_write :: "transaction_operation \<Rightarrow> bool" where
  "op_is_write (OpRead k s) = False"
| "op_is_write _ = True"

record distributed_transaction =
  dt_id :: txn_id
  dt_coordinator :: node_id
  dt_participants :: "(node_id, transaction_participant) hmap"
  dt_state :: transaction_state
  dt_created_at :: u64
  dt_timeout_ms :: u64
  dt_operations :: "transaction_operation list"

definition dt_new :: "u64 \<Rightarrow> txn_id \<Rightarrow> node_id \<Rightarrow> u64 \<Rightarrow> distributed_transaction" where
  "dt_new now ident coordinator timeout =
     \<lparr>dt_id = ident, dt_coordinator = coordinator, dt_participants = [], dt_state = Preparing,
      dt_created_at = now, dt_timeout_ms = timeout, dt_operations = []\<rparr>"

definition dt_add_participant :: "distributed_transaction \<Rightarrow> node_id \<Rightarrow> distributed_transaction" where
  "dt_add_participant t node =
     (if \<not> hm_contains (dt_participants t) node
      then t\<lparr>dt_participants := hm_insert node (participant_new node) (dt_participants t)\<rparr>
      else t)"

definition dt_add_operation ::
    "distributed_transaction \<Rightarrow> transaction_operation \<Rightarrow> distributed_transaction" where
  "dt_add_operation t op = t\<lparr>dt_operations := dt_operations t @ [op]\<rparr>"

definition all_prepared :: "distributed_transaction \<Rightarrow> bool" where
  "all_prepared t \<longleftrightarrow> list_all pt_prepared (hm_values (dt_participants t))"

definition all_committed :: "distributed_transaction \<Rightarrow> bool" where
  "all_committed t \<longleftrightarrow> list_all pt_committed (hm_values (dt_participants t))"

definition any_abort :: "distributed_transaction \<Rightarrow> bool" where
  "any_abort t \<longleftrightarrow> list_ex (\<lambda>p. pt_vote p = Abort) (hm_values (dt_participants t))"

text \<open>The subtraction wraps when the clock went back.\<close>

definition is_timed_out :: "u64 \<Rightarrow> distributed_transaction \<Rightarrow> bool" where
  "is_timed_out now t \<longleftrightarrow> now - dt_created_at t > dt_timeout_ms t"

definition participant_count :: "distributed_transaction \<Rightarrow> nat" where
  "participant_count t = hm_len (dt_participants t)"

definition prepared_count :: "distributed_transaction \<Rightarrow> nat" where
  "prepared_count t = length (filter pt_prepared (hm_values (dt_participants t)))"

datatype two_phase_message =
    PrepareRequest txn_id "transaction_operation list"
  | PrepareResponse txn_id participant_vote node_id
  | CommitRequest txn_id
  | CommitAck txn_id node_id
  | AbortRequest txn_id
  | AbortAck txn_id node_id
  | StatusQuery txn_id
  | StatusResponse txn_id transaction_state

section \<open>The coordinator\<close>

record coordinator =
  tc_node_id :: node_id
  tc_transactions :: "(txn_id, distributed_transaction) hmap"
  tc_default_timeout_ms :: u64
  tc_prepared_log :: "txn_id set"

definition tc_with_timeout :: "node_id \<Rightarrow> u64 \<Rightarrow> coordinator" where
  "tc_with_timeout node timeout =
     \<lparr>tc_node_id = node, tc_transactions = [], tc_default_timeout_ms = timeout,
      tc_prepared_log = {}\<rparr>"

definition tc_new :: "node_id \<Rightarrow> coordinator" where
  "tc_new node =
     \<lparr>tc_node_id = node, tc_transactions = [], tc_default_timeout_ms = 30000,
      tc_prepared_log = {}\<rparr>"

definition tc_begin_with_id :: "u64 \<Rightarrow> coordinator \<Rightarrow> txn_id \<Rightarrow> coordinator" where
  "tc_begin_with_id now c ident =
     (let txn = dt_new now ident (tc_node_id c) (tc_default_timeout_ms c)
      in c\<lparr>tc_transactions := hm_insert ident txn (tc_transactions c)\<rparr>)"

definition tc_begin :: "u64 \<Rightarrow> txn_id \<Rightarrow> coordinator \<Rightarrow> coordinator \<times> txn_id" where
  "tc_begin now generated c =
     (let ident = generated;
          txn = dt_new now ident (tc_node_id c) (tc_default_timeout_ms c)
      in (c\<lparr>tc_transactions := hm_insert ident txn (tc_transactions c)\<rparr>, ident))"

text \<open>\<^verbatim>\<open>if let Some(txn) = transactions.get_mut(id) { .. }\<close>.\<close>

definition tc_update :: "coordinator \<Rightarrow> txn_id \<Rightarrow> distributed_transaction \<Rightarrow> coordinator" where
  "tc_update c ident txn = c\<lparr>tc_transactions := hm_insert ident txn (tc_transactions c)\<rparr>"

definition tc_add_participant :: "coordinator \<Rightarrow> txn_id \<Rightarrow> node_id \<Rightarrow> coordinator \<times> bool" where
  "tc_add_participant c ident node =
     (case hm_get (tc_transactions c) ident of
        Some txn \<Rightarrow> (tc_update c ident (dt_add_participant txn node), True)
      | None \<Rightarrow> (c, False))"

definition tc_add_operation ::
    "coordinator \<Rightarrow> txn_id \<Rightarrow> transaction_operation \<Rightarrow> coordinator \<times> bool" where
  "tc_add_operation c ident op =
     (case hm_get (tc_transactions c) ident of
        Some txn \<Rightarrow> (tc_update c ident (dt_add_operation txn op), True)
      | None \<Rightarrow> (c, False))"

definition tc_prepare :: "coordinator \<Rightarrow> txn_id \<Rightarrow> (node_id \<times> two_phase_message) list option" where
  "tc_prepare c ident =
     (case hm_get (tc_transactions c) ident of
        None \<Rightarrow> None
      | Some txn \<Rightarrow>
          if dt_state txn \<noteq> Preparing then None
          else Some (map (\<lambda>node. (node, PrepareRequest ident (dt_operations txn)))
                 (hm_keys (dt_participants txn))))"

definition record_vote ::
    "distributed_transaction \<Rightarrow> node_id \<Rightarrow> participant_vote \<Rightarrow> distributed_transaction" where
  "record_vote txn participant vote =
     (case hm_get (dt_participants txn) participant of
        Some p \<Rightarrow>
          txn\<lparr>dt_participants := hm_insert participant (record_prepare p vote) (dt_participants txn)\<rparr>
      | None \<Rightarrow> txn)"

definition tc_handle_prepare_response ::
    "coordinator \<Rightarrow> txn_id \<Rightarrow> node_id \<Rightarrow> participant_vote \<Rightarrow>
     coordinator \<times> transaction_state option" where
  "tc_handle_prepare_response c ident participant vote =
     (case hm_get (tc_transactions c) ident of
        None \<Rightarrow> (c, None)
      | Some txn \<Rightarrow>
          let txn1 = record_vote txn participant vote
          in if any_abort txn1
             then (tc_update c ident (txn1\<lparr>dt_state := Aborting\<rparr>), Some Aborting)
             else if all_prepared txn1
             then ((tc_update c ident (txn1\<lparr>dt_state := Prepared\<rparr>))
                     \<lparr>tc_prepared_log := insert ident (tc_prepared_log c)\<rparr>, Some Prepared)
             else (tc_update c ident txn1, None))"

definition tc_commit ::
    "coordinator \<Rightarrow> txn_id \<Rightarrow> coordinator \<times> (node_id \<times> two_phase_message) list option" where
  "tc_commit c ident =
     (case hm_get (tc_transactions c) ident of
        None \<Rightarrow> (c, None)
      | Some txn \<Rightarrow>
          if \<not> can_commit (dt_state txn) then (c, None)
          else (tc_update c ident (txn\<lparr>dt_state := Committing\<rparr>),
                Some (map (\<lambda>node. (node, CommitRequest ident)) (hm_keys (dt_participants txn)))))"

definition record_ack :: "distributed_transaction \<Rightarrow> node_id \<Rightarrow> distributed_transaction" where
  "record_ack txn participant =
     (case hm_get (dt_participants txn) participant of
        Some p \<Rightarrow> txn\<lparr>dt_participants := hm_insert participant (record_commit p) (dt_participants txn)\<rparr>
      | None \<Rightarrow> txn)"

definition tc_handle_commit_ack ::
    "coordinator \<Rightarrow> txn_id \<Rightarrow> node_id \<Rightarrow> coordinator \<times> transaction_state option" where
  "tc_handle_commit_ack c ident participant =
     (case hm_get (tc_transactions c) ident of
        None \<Rightarrow> (c, None)
      | Some txn \<Rightarrow>
          let txn1 = record_ack txn participant
          in if all_committed txn1
             then (tc_update c ident (txn1\<lparr>dt_state := Committed\<rparr>), Some Committed)
             else (tc_update c ident txn1, None))"

definition tc_abort ::
    "coordinator \<Rightarrow> txn_id \<Rightarrow> coordinator \<times> (node_id \<times> two_phase_message) list option" where
  "tc_abort c ident =
     (case hm_get (tc_transactions c) ident of
        None \<Rightarrow> (c, None)
      | Some txn \<Rightarrow>
          if \<not> can_abort (dt_state txn) then (c, None)
          else (tc_update c ident (txn\<lparr>dt_state := Aborting\<rparr>),
                Some (map (\<lambda>node. (node, AbortRequest ident)) (hm_keys (dt_participants txn)))))"

definition tc_handle_abort_ack :: "coordinator \<Rightarrow> txn_id \<Rightarrow> node_id \<Rightarrow> coordinator \<times> bool" where
  "tc_handle_abort_ack c ident participant =
     (case hm_get (tc_transactions c) ident of
        Some txn \<Rightarrow> (tc_update c ident (txn\<lparr>dt_state := Aborted\<rparr>), True)
      | None \<Rightarrow> (c, False))"

definition tc_get_state :: "coordinator \<Rightarrow> txn_id \<Rightarrow> transaction_state option" where
  "tc_get_state c ident = map_option dt_state (hm_get (tc_transactions c) ident)"

definition tc_get_transaction :: "coordinator \<Rightarrow> txn_id \<Rightarrow> distributed_transaction option" where
  "tc_get_transaction c ident = hm_get (tc_transactions c) ident"

definition tc_check_timeouts :: "u64 \<Rightarrow> coordinator \<Rightarrow> txn_id list" where
  "tc_check_timeouts now c =
     map fst (filter (\<lambda>(_, txn). is_timed_out now txn \<and> \<not> is_terminal (dt_state txn))
       (tc_transactions c))"

definition tc_cleanup_completed :: "coordinator \<Rightarrow> coordinator \<times> nat" where
  "tc_cleanup_completed c =
     (let kept = filter (\<lambda>(_, txn). \<not> is_terminal (dt_state txn)) (tc_transactions c)
      in (c\<lparr>tc_transactions := kept\<rparr>, hm_len (tc_transactions c) - hm_len kept))"

definition tc_active_count :: "coordinator \<Rightarrow> nat" where
  "tc_active_count c =
     length (filter (\<lambda>t. \<not> is_terminal (dt_state t)) (hm_values (tc_transactions c)))"

definition tc_was_prepared :: "coordinator \<Rightarrow> txn_id \<Rightarrow> bool" where
  "tc_was_prepared c ident \<longleftrightarrow> ident \<in> tc_prepared_log c"

section \<open>The participant\<close>

record validation_result =
  v_success :: bool
  v_error :: "string option"
  v_locked_keys :: "string list"

definition validation_success :: "string list \<Rightarrow> validation_result" where
  "validation_success locked_keys =
     \<lparr>v_success = True, v_error = None, v_locked_keys = locked_keys\<rparr>"

definition validation_failure :: "string \<Rightarrow> validation_result" where
  "validation_failure err = \<lparr>v_success = False, v_error = Some err, v_locked_keys = []\<rparr>"

record 's participant =
  ph_node_id :: node_id
  ph_pending :: "(txn_id, transaction_operation list) hmap"
  ph_prepared :: "txn_id set"
  ph_committed :: "txn_id set"
  ph_locked :: "(txn_id, string list) hmap"
  ph_validation :: "(txn_id \<Rightarrow> transaction_operation list \<Rightarrow> 's \<Rightarrow> validation_result \<times> 's) option"
  ph_commit_callback :: "(txn_id \<Rightarrow> transaction_operation list \<Rightarrow> 's \<Rightarrow> (string + unit) \<times> 's) option"
  ph_abort_callback :: "(txn_id \<Rightarrow> 's \<Rightarrow> (string + unit) \<times> 's) option"
  ph_storage :: 's

definition ph_new :: "node_id \<Rightarrow> 's \<Rightarrow> 's participant" where
  "ph_new node storage =
     \<lparr>ph_node_id = node, ph_pending = [], ph_prepared = {}, ph_committed = {}, ph_locked = [],
      ph_validation = None, ph_commit_callback = None, ph_abort_callback = None,
      ph_storage = storage\<rparr>"

definition ph_set_validation_callback ::
    "'s participant \<Rightarrow> (txn_id \<Rightarrow> transaction_operation list \<Rightarrow> 's \<Rightarrow> validation_result \<times> 's) \<Rightarrow>
     's participant" where
  "ph_set_validation_callback h callback = h\<lparr>ph_validation := Some callback\<rparr>"

definition ph_set_commit_callback ::
    "'s participant \<Rightarrow> (txn_id \<Rightarrow> transaction_operation list \<Rightarrow> 's \<Rightarrow> (string + unit) \<times> 's) \<Rightarrow>
     's participant" where
  "ph_set_commit_callback h callback = h\<lparr>ph_commit_callback := Some callback\<rparr>"

definition ph_set_abort_callback ::
    "'s participant \<Rightarrow> (txn_id \<Rightarrow> 's \<Rightarrow> (string + unit) \<times> 's) \<Rightarrow> 's participant" where
  "ph_set_abort_callback h callback = h\<lparr>ph_abort_callback := Some callback\<rparr>"

text \<open>The scan of the locks, and of the pending operations, of other transactions.\<close>

fun lock_holder :: "txn_id \<Rightarrow> string \<Rightarrow> (txn_id \<times> string list) list \<Rightarrow> txn_id option" where
  "lock_holder ident key [] = None"
| "lock_holder ident key ((other, keys) # rest) =
     (if other \<noteq> ident \<and> key \<in> set keys then Some other else lock_holder ident key rest)"

fun conflicting_writer ::
    "txn_id \<Rightarrow> transaction_operation \<Rightarrow> (txn_id \<times> transaction_operation list) list \<Rightarrow> txn_id option" where
  "conflicting_writer ident op [] = None"
| "conflicting_writer ident op ((other, ops) # rest) =
     (if other \<noteq> ident \<and>
         list_ex (\<lambda>o'. op_key o' = op_key op \<and> op_is_write o' \<and> op_is_write op) ops
      then Some other else conflicting_writer ident op rest)"

definition quoted :: "string \<Rightarrow> string" where
  "quoted s = CHR 0x27 # s @ [CHR 0x27]"

fun basic_validation_loop ::
    "'s participant \<Rightarrow> txn_id \<Rightarrow> transaction_operation list \<Rightarrow> string list \<Rightarrow> validation_result" where
  "basic_validation_loop h ident [] keys_to_lock = validation_success keys_to_lock"
| "basic_validation_loop h ident (op # ops) keys_to_lock =
     (let key = op_key op in
      case lock_holder ident key (ph_locked h) of
        Some other \<Rightarrow>
          validation_failure (''Key '' @ quoted key @ '' is locked by transaction '' @ other)
      | None \<Rightarrow>
          (case conflicting_writer ident op (ph_pending h) of
             Some other \<Rightarrow>
               validation_failure (''Write conflict on key '' @ quoted key @ '' with transaction '' @ other)
           | None \<Rightarrow>
               basic_validation_loop h ident ops
                 (if op_is_write op then keys_to_lock @ [key] else keys_to_lock)))"

definition basic_validation ::
    "'s participant \<Rightarrow> txn_id \<Rightarrow> transaction_operation list \<Rightarrow> validation_result" where
  "basic_validation h ident ops = basic_validation_loop h ident ops []"

definition ph_handle_prepare ::
    "'s participant \<Rightarrow> txn_id \<Rightarrow> transaction_operation list \<Rightarrow> 's participant \<times> two_phase_message" where
  "ph_handle_prepare h ident ops =
     (let (result, storage) =
            (case ph_validation h of
               Some callback \<Rightarrow> callback ident ops (ph_storage h)
             | None \<Rightarrow> (basic_validation h ident ops, ph_storage h));
          h1 = h\<lparr>ph_storage := storage\<rparr>
      in if \<not> v_success result then (h1, PrepareResponse ident Abort (ph_node_id h))
         else (h1\<lparr>ph_locked := hm_insert ident (v_locked_keys result) (ph_locked h1),
                  ph_pending := hm_insert ident ops (ph_pending h1),
                  ph_prepared := insert ident (ph_prepared h1)\<rparr>,
               PrepareResponse ident Commit (ph_node_id h)))"

definition ph_handle_prepare_with_validation ::
    "'s participant \<Rightarrow> txn_id \<Rightarrow> transaction_operation list \<Rightarrow> (transaction_operation list \<Rightarrow> bool) \<Rightarrow>
     's participant \<times> two_phase_message" where
  "ph_handle_prepare_with_validation h ident ops validator =
     (if validator ops
      then (h\<lparr>ph_pending := hm_insert ident ops (ph_pending h),
              ph_prepared := insert ident (ph_prepared h)\<rparr>,
            PrepareResponse ident Commit (ph_node_id h))
      else (h, PrepareResponse ident Abort (ph_node_id h)))"

definition ph_handle_commit :: "'s participant \<Rightarrow> txn_id \<Rightarrow> 's participant \<times> two_phase_message" where
  "ph_handle_commit h ident =
     (let operations = hm_get (ph_pending h) ident;
          storage = (case (ph_commit_callback h, operations) of
                       (Some callback, Some ops) \<Rightarrow> snd (callback ident ops (ph_storage h))
                     | _ \<Rightarrow> ph_storage h)
      in (h\<lparr>ph_pending := hm_remove ident (ph_pending h),
            ph_prepared := ph_prepared h - {ident},
            ph_locked := hm_remove ident (ph_locked h),
            ph_committed := insert ident (ph_committed h),
            ph_storage := storage\<rparr>, CommitAck ident (ph_node_id h)))"

definition ph_handle_abort :: "'s participant \<Rightarrow> txn_id \<Rightarrow> 's participant \<times> two_phase_message" where
  "ph_handle_abort h ident =
     (let storage = (case ph_abort_callback h of
                       Some callback \<Rightarrow> snd (callback ident (ph_storage h))
                     | None \<Rightarrow> ph_storage h)
      in (h\<lparr>ph_pending := hm_remove ident (ph_pending h),
            ph_prepared := ph_prepared h - {ident},
            ph_locked := hm_remove ident (ph_locked h),
            ph_storage := storage\<rparr>, AbortAck ident (ph_node_id h)))"

definition ph_get_locked_keys :: "'s participant \<Rightarrow> txn_id \<Rightarrow> string list" where
  "ph_get_locked_keys h ident = hm_get_or (ph_locked h) ident []"

fun find_lock :: "string \<Rightarrow> (txn_id \<times> string list) list \<Rightarrow> txn_id option" where
  "find_lock key [] = None"
| "find_lock key ((ident, keys) # rest) =
     (if list_ex (\<lambda>k. k = key) keys then Some ident else find_lock key rest)"

definition ph_is_key_locked :: "'s participant \<Rightarrow> string \<Rightarrow> txn_id option" where
  "ph_is_key_locked h key = find_lock key (ph_locked h)"

definition ph_is_prepared :: "'s participant \<Rightarrow> txn_id \<Rightarrow> bool" where
  "ph_is_prepared h ident \<longleftrightarrow> ident \<in> ph_prepared h"

definition ph_is_committed :: "'s participant \<Rightarrow> txn_id \<Rightarrow> bool" where
  "ph_is_committed h ident \<longleftrightarrow> ident \<in> ph_committed h"

definition ph_pending_count :: "'s participant \<Rightarrow> nat" where
  "ph_pending_count h = hm_len (ph_pending h)"

section \<open>Locks isolate prepared transactions\<close>

definition written_keys :: "transaction_operation list \<Rightarrow> string list" where
  "written_keys ops = map op_key (filter op_is_write ops)"

definition isolated :: "'s participant \<Rightarrow> bool" where
  "isolated h \<longleftrightarrow>
     hm_ok (ph_pending h) \<and> hm_ok (ph_locked h) \<and> ph_prepared h = dom (hm_get (ph_pending h)) \<and>
     (\<forall>t. hm_get (ph_locked h) t = map_option written_keys (hm_get (ph_pending h) t)) \<and>
     (\<forall>t t' ops ops'. t \<noteq> t' \<longrightarrow> hm_get (ph_pending h) t = Some ops \<longrightarrow>
        hm_get (ph_pending h) t' = Some ops' \<longrightarrow>
        set (written_keys ops) \<inter> set (written_keys ops') = {})"

lemma lock_holder_None:
  "lock_holder t k ls = None \<longleftrightarrow> (\<forall>(u, keys) \<in> set ls. u \<noteq> t \<longrightarrow> k \<notin> set keys)"
  by (induction ls) (auto split: if_splits)

lemma basic_validation_loop_ok:
  "v_success (basic_validation_loop h t ops ks) \<longleftrightarrow>
     (\<forall>op \<in> set ops. lock_holder t (op_key op) (ph_locked h) = None \<and>
        conflicting_writer t op (ph_pending h) = None)"
  "v_success (basic_validation_loop h t ops ks) \<Longrightarrow>
     v_locked_keys (basic_validation_loop h t ops ks) = ks @ written_keys ops"
  by (induction ops arbitrary: ks)
     (auto simp: validation_success_def validation_failure_def written_keys_def Let_def
       split: option.splits)

lemma basic_validation_disjoint:
  assumes "isolated h" "v_success (basic_validation h t ops)"
    and "u \<noteq> t" "hm_get (ph_pending h) u = Some ops'"
  shows "set (written_keys ops) \<inter> set (written_keys ops') = {}"
proof -
  have "hm_get (ph_locked h) u = Some (written_keys ops')"
    using assms(1,4) by (simp add: isolated_def)
  then have "(u, written_keys ops') \<in> set (ph_locked h)"
    using assms(1) by (simp add: isolated_def hm_get_in_set)
  then have "op_key op \<notin> set (written_keys ops')" if "op \<in> set ops" for op
    using assms(2,3) that
    by (fastforce simp: basic_validation_def basic_validation_loop_ok lock_holder_None)
  then show ?thesis by (auto simp: written_keys_def)
qed

lemma isolated_remove:
  assumes "isolated h"
  shows "isolated (h\<lparr>ph_pending := hm_remove t (ph_pending h), ph_prepared := ph_prepared h - {t},
      ph_locked := hm_remove t (ph_locked h), ph_committed := C, ph_storage := st\<rparr>)"
  using assms by (auto simp: isolated_def hm_simps hm_intros split: if_splits)

lemma isolated_commit: "isolated h \<Longrightarrow> isolated (fst (ph_handle_commit h t))"
  using isolated_remove by (auto simp: ph_handle_commit_def Let_def)

lemma isolated_abort:
  assumes "isolated h"
  shows "isolated (fst (ph_handle_abort h t))"
  using isolated_remove [OF assms, where t = t and C = "ph_committed h"] by (simp add: ph_handle_abort_def Let_def)

lemma isolated_prepare:
  assumes "isolated h" "ph_validation h = None"
  shows "isolated (fst (ph_handle_prepare h t ops))"
proof (cases "v_success (basic_validation h t ops)")
  case True
  have "v_locked_keys (basic_validation h t ops) = written_keys ops"
    using True basic_validation_loop_ok(2) [of h t ops "[]"] by (simp add: basic_validation_def)
  with True assms show ?thesis
    using basic_validation_disjoint [OF assms(1) True]
    by (fastforce simp: isolated_def ph_handle_prepare_def hm_simps hm_intros)
next
  case False
  with assms show ?thesis by (simp add: ph_handle_prepare_def isolated_def)
qed

text \<open>What a participant may be asked to do.\<close>

datatype participant_event =
  AskPrepare txn_id "transaction_operation list" | AskCommit txn_id | AskAbort txn_id

fun ph_step :: "'s participant \<Rightarrow> participant_event \<Rightarrow> 's participant" where
  "ph_step h (AskPrepare t ops) = fst (ph_handle_prepare h t ops)"
| "ph_step h (AskCommit t) = fst (ph_handle_commit h t)"
| "ph_step h (AskAbort t) = fst (ph_handle_abort h t)"

lemma ph_step_validation [simp]: "ph_validation (ph_step h e) = ph_validation h"
  by (cases e) (auto simp: ph_handle_prepare_def ph_handle_commit_def ph_handle_abort_def Let_def
      split: option.splits prod.splits)

lemma isolated_run:
  assumes "isolated h" "ph_validation h = None"
  shows "isolated (foldl ph_step h es)"
  using assms
proof (induction es arbitrary: h)
  case (Cons e es)
  then have "isolated (ph_step h e)"
    by (cases e) (simp_all add: isolated_prepare isolated_commit isolated_abort)
  with Cons show ?case by simp
qed simp

section \<open>The coordinator's decision\<close>

text \<open>A prepared flag records a commit vote; a prepared transaction has only those.\<close>

definition votes_recorded :: "distributed_transaction \<Rightarrow> bool" where
  "votes_recorded txn \<longleftrightarrow>
     hm_ok (dt_participants txn) \<and>
     (\<forall>n p. hm_get (dt_participants txn) n = Some p \<longrightarrow> (pt_prepared p \<longleftrightarrow> pt_vote p = Commit))"

definition decided_ok :: "distributed_transaction \<Rightarrow> bool" where
  "decided_ok txn \<longleftrightarrow> votes_recorded txn \<and> (dt_state txn = Prepared \<longrightarrow> all_prepared txn)"

lemma all_prepared_iff:
  "votes_recorded txn \<Longrightarrow> all_prepared txn \<longleftrightarrow>
     (\<forall>n p. hm_get (dt_participants txn) n = Some p \<longrightarrow> pt_vote p = Commit)"
  by (auto simp: votes_recorded_def all_prepared_def list_all_iff Ball_def hm_values_set simp del: set_map)

lemma votes_recorded_vote: "votes_recorded txn \<Longrightarrow> votes_recorded (record_vote txn n v)"
  by (auto simp: votes_recorded_def record_vote_def record_prepare_def hm_simps hm_intros
      split: option.splits)

lemma votes_recorded_ack: "votes_recorded txn \<Longrightarrow> votes_recorded (record_ack txn n)"
  by (auto simp: votes_recorded_def record_ack_def record_commit_def hm_simps hm_intros
      split: option.splits)

lemma all_prepared_ack:
  "votes_recorded txn \<Longrightarrow> all_prepared (record_ack txn n) \<longleftrightarrow> all_prepared txn"
proof -
  assume r: "votes_recorded txn"
  have "(\<exists>p. hm_get (dt_participants (record_ack txn n)) m = Some p \<and> pt_vote p \<noteq> Commit) \<longleftrightarrow>
      (\<exists>p. hm_get (dt_participants txn) m = Some p \<and> pt_vote p \<noteq> Commit)" for m
    by (auto simp: record_ack_def record_commit_def hm_simps split: option.splits)
  then show ?thesis
    using all_prepared_iff [OF r] all_prepared_iff [OF votes_recorded_ack [OF r]] by blast
qed

lemma dt_state_record [simp]:
  "dt_state (record_vote txn n v) = dt_state txn" "dt_state (record_ack txn n) = dt_state txn"
  by (simp_all add: record_vote_def record_ack_def split: option.splits)

lemma votes_recorded_state [simp]:
  "votes_recorded (txn\<lparr>dt_state := s\<rparr>) = votes_recorded txn"
  "all_prepared (txn\<lparr>dt_state := s\<rparr>) = all_prepared txn"
  by (simp_all add: votes_recorded_def all_prepared_def)

text \<open>
  What may happen at a coordinator.  The two guards are the caller's part: participants
  join before the vote is over, and a response carries a vote (participants send no other).
\<close>

inductive tc_reachable :: "coordinator \<Rightarrow> bool" where
  fresh: "tc_reachable (tc_with_timeout node timeout)"
| begin_txn: "tc_reachable c \<Longrightarrow> tc_reachable (tc_begin_with_id now c t)"
| join: "tc_reachable c \<Longrightarrow> tc_get_state c t = Some Preparing \<Longrightarrow>
    tc_reachable (fst (tc_add_participant c t n))"
| operation: "tc_reachable c \<Longrightarrow> tc_reachable (fst (tc_add_operation c t op))"
| vote: "tc_reachable c \<Longrightarrow> v \<noteq> Pending \<Longrightarrow>
    tc_reachable (fst (tc_handle_prepare_response c t n v))"
| commit: "tc_reachable c \<Longrightarrow> tc_reachable (fst (tc_commit c t))"
| commit_ack: "tc_reachable c \<Longrightarrow> tc_reachable (fst (tc_handle_commit_ack c t n))"
| abort: "tc_reachable c \<Longrightarrow> tc_reachable (fst (tc_abort c t))"
| abort_ack: "tc_reachable c \<Longrightarrow> tc_reachable (fst (tc_handle_abort_ack c t n))"
| cleanup: "tc_reachable c \<Longrightarrow> tc_reachable (fst (tc_cleanup_completed c))"

definition coord_ok :: "coordinator \<Rightarrow> bool" where
  "coord_ok c \<longleftrightarrow> hm_ok (tc_transactions c) \<and>
     (\<forall>t txn. hm_get (tc_transactions c) t = Some txn \<longrightarrow> decided_ok txn)"

lemma coord_ok_update: "coord_ok c \<Longrightarrow> decided_ok txn \<Longrightarrow> coord_ok (tc_update c t txn)"
  by (auto simp: coord_ok_def tc_update_def hm_simps hm_intros split: if_splits)

lemma coord_okD: "coord_ok c \<Longrightarrow> hm_get (tc_transactions c) t = Some txn \<Longrightarrow> decided_ok txn"
  by (simp add: coord_ok_def)

lemma decided_ok_new: "decided_ok (dt_new now t node timeout)"
  by (simp add: decided_ok_def dt_new_def votes_recorded_def)

lemma decided_ok_join:
  "decided_ok txn \<Longrightarrow> dt_state txn = Preparing \<Longrightarrow> decided_ok (dt_add_participant txn n)"
  by (auto simp: decided_ok_def dt_add_participant_def votes_recorded_def participant_new_def
      hm_simps hm_intros split: if_splits)

lemma decided_ok_operation: "decided_ok txn \<Longrightarrow> decided_ok (dt_add_operation txn op)"
  by (simp add: decided_ok_def dt_add_operation_def votes_recorded_def all_prepared_def)

lemma decided_ok_state:
  "decided_ok txn \<Longrightarrow> s \<noteq> Prepared \<Longrightarrow> decided_ok (txn\<lparr>dt_state := s\<rparr>)"
  by (simp add: decided_ok_def)

lemma decided_ok_vote:
  fixes n
  assumes "decided_ok txn" "v \<noteq> Pending"
  defines "txn1 \<equiv> record_vote txn n v"
  shows "any_abort txn1 \<Longrightarrow> decided_ok (txn1\<lparr>dt_state := Aborting\<rparr>)"
    and "all_prepared txn1 \<Longrightarrow> decided_ok (txn1\<lparr>dt_state := Prepared\<rparr>)"
    and "\<not> any_abort txn1 \<Longrightarrow> \<not> all_prepared txn1 \<Longrightarrow> decided_ok txn1"
proof -
  have r: "votes_recorded txn1" using assms by (simp add: decided_ok_def votes_recorded_vote)
  then show "any_abort txn1 \<Longrightarrow> decided_ok (txn1\<lparr>dt_state := Aborting\<rparr>)"
    and "all_prepared txn1 \<Longrightarrow> decided_ok (txn1\<lparr>dt_state := Prepared\<rparr>)"
    by (simp_all add: decided_ok_def)
  assume na: "\<not> any_abort txn1" and np: "\<not> all_prepared txn1"
  have rt: "votes_recorded txn" using assms by (simp add: decided_ok_def)
  have "dt_state txn \<noteq> Prepared"
  proof
    assume "dt_state txn = Prepared"
    then have all: "\<forall>m p. hm_get (dt_participants txn) m = Some p \<longrightarrow> pt_vote p = Commit"
      using assms(1) all_prepared_iff [OF rt] by (simp add: decided_ok_def)
    obtain m p where p: "hm_get (dt_participants txn1) m = Some p" "pt_vote p \<noteq> Commit"
      using np all_prepared_iff [OF r] by blast
    with all have "pt_vote p = v"
      by (auto simp: txn1_def record_vote_def record_prepare_def hm_simps
          split: option.splits if_splits)
    with p assms(2) have "pt_vote p = Abort" by (cases v) auto
    with p na r show False
      by (auto simp: any_abort_def list_ex_iff votes_recorded_def hm_values_set Bex_def
          simp del: set_map)
  qed
  with r show "decided_ok txn1" by (simp add: decided_ok_def txn1_def)
qed

lemma decided_ok_ack: "decided_ok txn \<Longrightarrow> decided_ok (record_ack txn n)"
  by (simp add: decided_ok_def votes_recorded_ack all_prepared_ack)

lemma coord_ok_fresh: "coord_ok (tc_with_timeout node timeout)"
  by (simp add: coord_ok_def tc_with_timeout_def)

lemma coord_ok_reachable: "tc_reachable c \<Longrightarrow> coord_ok c"
proof (induction rule: tc_reachable.induct)
  case (begin_txn c now t)
  then show ?case
    using coord_ok_update [OF begin_txn.IH decided_ok_new]
    by (simp add: tc_begin_with_id_def tc_update_def Let_def)
next
  case (vote c v t n)
  show ?case
  proof (cases "hm_get (tc_transactions c) t")
    case None
    then show ?thesis using vote by (simp add: tc_handle_prepare_response_def)
  next
    case (Some txn)
    note ok = decided_ok_vote [OF coord_okD [OF vote.IH Some] vote.hyps(2), of n]
    have log: "coord_ok (c'\<lparr>tc_prepared_log := L\<rparr>) = coord_ok c'" for c' L
      by (simp add: coord_ok_def)
    show ?thesis
      using ok coord_ok_update [OF vote.IH]
      by (auto simp: tc_handle_prepare_response_def Some Let_def log)
  qed
next
  case (cleanup c)
  then show ?case by (auto simp: coord_ok_def tc_cleanup_completed_def Let_def hm_simps hm_intros
        split: option.splits if_splits)
qed (auto simp: coord_ok_fresh tc_add_participant_def
      tc_add_operation_def tc_commit_def tc_handle_commit_ack_def tc_abort_def
      tc_handle_abort_ack_def tc_get_state_def Let_def
      intro!: coord_ok_update decided_ok_join decided_ok_operation decided_ok_state decided_ok_ack
      dest: coord_okD split: option.splits)

section \<open>The protocol\<close>

text \<open>
  One transaction \<open>t\<close> run by a coordinator and its participants over a network that may
  lose, duplicate, delay and reorder messages (\<open>sy_net\<close> holds every message ever sent).
  The caller of the coordinator obeys two rules that the coordinator does not enforce: a
  vote is handed to it only while it is still preparing, and it is not told to abort once
  it has begun to commit.
\<close>

record 's system =
  sy_coord :: coordinator
  sy_parts :: "node_id \<Rightarrow> 's participant"
  sy_net :: "(node_id \<times> two_phase_message) set"

definition send_all :: "'s system \<Rightarrow> (node_id \<times> two_phase_message) list \<Rightarrow> 's system" where
  "send_all s ms = s\<lparr>sy_net := sy_net s \<union> set ms\<rparr>"

definition reply :: "'s system \<Rightarrow> node_id \<Rightarrow> 's participant \<times> two_phase_message \<Rightarrow> 's system" where
  "reply s n r = s\<lparr>sy_parts := (sy_parts s)(n := fst r),
     sy_net := insert (tc_node_id (sy_coord s), snd r) (sy_net s)\<rparr>"

definition set_coord :: "'s system \<Rightarrow> coordinator \<Rightarrow> 's system" where
  "set_coord s c = s\<lparr>sy_coord := c\<rparr>"

definition concerns :: "txn_id \<Rightarrow> two_phase_message \<Rightarrow> bool" where
  "concerns t m \<longleftrightarrow> (case m of
     PrepareRequest u _ \<Rightarrow> u = t | PrepareResponse u _ _ \<Rightarrow> u = t | CommitRequest u \<Rightarrow> u = t
   | CommitAck u _ \<Rightarrow> u = t | AbortRequest u \<Rightarrow> u = t | AbortAck u _ \<Rightarrow> u = t
   | StatusQuery u \<Rightarrow> u = t | StatusResponse u _ \<Rightarrow> u = t)"

definition system_init :: "txn_id \<Rightarrow> 's system \<Rightarrow> bool" where
  "system_init t s \<longleftrightarrow>
     (\<exists>txn. hm_get (tc_transactions (sy_coord s)) t = Some txn \<and> dt_state txn = Preparing \<and>
        hm_ok (dt_participants txn) \<and>
        (\<forall>n p. hm_get (dt_participants txn) n = Some p \<longrightarrow> p = participant_new n)) \<and>
     (\<forall>n. ph_node_id (sy_parts s n) = n \<and> t \<notin> ph_committed (sy_parts s n)) \<and>
     (\<forall>(d, m) \<in> sy_net s. \<not> concerns t m)"

inductive system_step :: "txn_id \<Rightarrow> 's system \<Rightarrow> 's system \<Rightarrow> bool" for t :: txn_id where
  send_prepare: "tc_prepare (sy_coord s) t = Some ms \<Longrightarrow> system_step t s (send_all s ms)"
| prepare: "(n, PrepareRequest t ops) \<in> sy_net s \<Longrightarrow>
    system_step t s (reply s n (ph_handle_prepare (sy_parts s n) t ops))"
| vote: "(d, PrepareResponse t v n) \<in> sy_net s \<Longrightarrow> tc_get_state (sy_coord s) t = Some Preparing \<Longrightarrow>
    system_step t s (set_coord s (fst (tc_handle_prepare_response (sy_coord s) t n v)))"
| decide_commit: "tc_commit (sy_coord s) t = (c, Some ms) \<Longrightarrow>
    system_step t s (send_all (set_coord s c) ms)"
| commit: "(n, CommitRequest t) \<in> sy_net s \<Longrightarrow>
    system_step t s (reply s n (ph_handle_commit (sy_parts s n) t))"
| commit_ack: "(d, CommitAck t n) \<in> sy_net s \<Longrightarrow>
    system_step t s (set_coord s (fst (tc_handle_commit_ack (sy_coord s) t n)))"
| decide_abort: "tc_get_state (sy_coord s) t \<notin> {Some Committing, Some Committed} \<Longrightarrow>
    tc_abort (sy_coord s) t = (c, Some ms) \<Longrightarrow>
    system_step t s (send_all (set_coord s c) ms)"
| abort: "(n, AbortRequest t) \<in> sy_net s \<Longrightarrow>
    system_step t s (reply s n (ph_handle_abort (sy_parts s n) t))"
| abort_ack: "(d, AbortAck t n) \<in> sy_net s \<Longrightarrow>
    system_step t s (set_coord s (fst (tc_handle_abort_ack (sy_coord s) t n)))"
| other_prepare: "u \<noteq> t \<Longrightarrow> system_step t s (reply s n (ph_handle_prepare (sy_parts s n) u ops))"
| other_commit: "u \<noteq> t \<Longrightarrow> system_step t s (reply s n (ph_handle_commit (sy_parts s n) u))"
| other_abort: "u \<noteq> t \<Longrightarrow> system_step t s (reply s n (ph_handle_abort (sy_parts s n) u))"

inductive system_reachable :: "txn_id \<Rightarrow> 's system \<Rightarrow> bool" for t :: txn_id where
  init: "system_init t s \<Longrightarrow> system_reachable t s"
| step: "system_reachable t s \<Longrightarrow> system_step t s s' \<Longrightarrow> system_reachable t s'"

definition sent :: "'s system \<Rightarrow> two_phase_message \<Rightarrow> bool" where
  "sent s m \<longleftrightarrow> (\<exists>d. (d, m) \<in> sy_net s)"

text \<open>What the coordinator's entry for \<open>t\<close> says about the messages sent.\<close>

definition entry_ok :: "txn_id \<Rightarrow> (two_phase_message \<Rightarrow> bool) \<Rightarrow> distributed_transaction \<Rightarrow> bool" where
  "entry_ok t snt txn \<longleftrightarrow>
     votes_recorded txn \<and>
     (snt (CommitRequest t) \<longrightarrow> dt_state txn \<in> {Committing, Committed}) \<and>
     (snt (AbortRequest t) \<longrightarrow> dt_state txn \<in> {Aborting, Aborted}) \<and>
     (\<forall>n p. hm_get (dt_participants txn) n = Some p \<longrightarrow> pt_vote p = Commit \<longrightarrow>
        snt (PrepareResponse t Commit n)) \<and>
     (dt_state txn \<in> {Prepared, Committing, Committed} \<longrightarrow> all_prepared txn)"

definition system_inv :: "txn_id \<Rightarrow> 's system \<Rightarrow> bool" where
  "system_inv t s \<longleftrightarrow>
     (\<exists>txn. hm_get (tc_transactions (sy_coord s)) t = Some txn \<and> entry_ok t (sent s) txn) \<and>
     (\<forall>n. ph_node_id (sy_parts s n) = n) \<and>
     (\<forall>n. t \<in> ph_committed (sy_parts s n) \<longrightarrow> sent s (CommitRequest t)) \<and>
     (\<forall>n. sent s (CommitAck t n) \<longrightarrow> sent s (CommitRequest t)) \<and>
     (\<forall>n. sent s (AbortAck t n) \<longrightarrow> sent s (AbortRequest t))"

lemma sent_simps [simp]:
  "sent (reply s n r) m \<longleftrightarrow> m = snd r \<or> sent s m"
  "sent (send_all s ms) m \<longleftrightarrow> m \<in> snd ` set ms \<or> sent s m"
  "sent (set_coord s c) m \<longleftrightarrow> sent s m"
  by (auto simp: sent_def reply_def send_all_def set_coord_def image_iff) force

lemma sent_set_coord: "sent (set_coord s c) = sent s"
  by (rule ext) simp

lemma system_fields [simp]:
  "sy_coord (reply s n r) = sy_coord s" "sy_coord (send_all s ms) = sy_coord s"
  "sy_coord (set_coord s c) = c"
  "sy_parts (reply s n r) = (sy_parts s)(n := fst r)" "sy_parts (send_all s ms) = sy_parts s"
  "sy_parts (set_coord s c) = sy_parts s"
  by (simp_all add: reply_def send_all_def set_coord_def)

lemma entry_ok_mono:
  assumes "entry_ok t snt txn" "snt' (CommitRequest t) \<longleftrightarrow> snt (CommitRequest t)"
    and "snt' (AbortRequest t) \<longleftrightarrow> snt (AbortRequest t)"
    and "\<And>n. snt (PrepareResponse t Commit n) \<Longrightarrow> snt' (PrepareResponse t Commit n)"
  shows "entry_ok t snt' txn"
  using assms by (simp add: entry_ok_def)

lemma inv_reply:
  assumes "system_inv t s" "ph_node_id (fst r) = n"
    and "snd r \<noteq> CommitRequest t" "snd r \<noteq> AbortRequest t"
    and "\<And>k. CommitAck t k = snd r \<Longrightarrow> sent s (CommitRequest t)"
    and "\<And>k. AbortAck t k = snd r \<Longrightarrow> sent s (AbortRequest t)"
    and "t \<in> ph_committed (fst r) \<Longrightarrow> sent s (CommitRequest t)"
  shows "system_inv t (reply s n r)"
proof -
  obtain txn where g: "hm_get (tc_transactions (sy_coord s)) t = Some txn"
    and e: "entry_ok t (sent s) txn" using assms(1) by (auto simp: system_inv_def)
  have "entry_ok t (sent (reply s n r)) txn"
    using e by (rule entry_ok_mono) (use assms(3,4) in auto)
  with g show ?thesis
    using assms by (auto simp: system_inv_def)
qed

lemma inv_coord:
  assumes "system_inv t s" "hm_get (tc_transactions c) t = Some txn" "entry_ok t (sent s) txn"
  shows "system_inv t (set_coord s c)"
  using assms unfolding system_inv_def sent_set_coord by simp

lemma inv_entry:
  assumes "system_inv t s"
  obtains txn where "hm_get (tc_transactions (sy_coord s)) t = Some txn" "entry_ok t (sent s) txn"
  using assms by (auto simp: system_inv_def)

lemma inv_acks:
  "system_inv t s \<Longrightarrow> sent s (CommitAck t n) \<Longrightarrow> sent s (CommitRequest t)"
  "system_inv t s \<Longrightarrow> sent s (AbortAck t n) \<Longrightarrow> sent s (AbortRequest t)"
  "system_inv t s \<Longrightarrow> t \<in> ph_committed (sy_parts s n) \<Longrightarrow> sent s (CommitRequest t)"
  unfolding system_inv_def by blast+

lemma get_update [simp]: "hm_get (tc_transactions (tc_update c t txn)) t = Some txn"
  by (simp add: tc_update_def hm_simps)

lemma ph_answers:
  "ph_node_id (fst (ph_handle_prepare h u ops)) = ph_node_id h"
  "ph_committed (fst (ph_handle_prepare h u ops)) = ph_committed h"
  "\<exists>v. snd (ph_handle_prepare h u ops) = PrepareResponse u v (ph_node_id h)"
  "ph_node_id (fst (ph_handle_commit h u)) = ph_node_id h"
  "ph_committed (fst (ph_handle_commit h u)) = insert u (ph_committed h)"
  "snd (ph_handle_commit h u) = CommitAck u (ph_node_id h)"
  "ph_node_id (fst (ph_handle_abort h u)) = ph_node_id h"
  "ph_committed (fst (ph_handle_abort h u)) = ph_committed h"
  "snd (ph_handle_abort h u) = AbortAck u (ph_node_id h)"
  by (auto simp: ph_handle_prepare_def ph_handle_commit_def ph_handle_abort_def Let_def
      split: prod.splits option.splits)

lemma inv_prepare: "system_inv t s \<Longrightarrow> system_inv t (reply s n (ph_handle_prepare (sy_parts s n) u ops))"
  using ph_answers(3) [of "sy_parts s n" u ops]
  by (intro inv_reply) (auto simp: ph_answers system_inv_def)

lemma inv_commit:
  "system_inv t s \<Longrightarrow> u = t \<longrightarrow> sent s (CommitRequest t) \<Longrightarrow>
   system_inv t (reply s n (ph_handle_commit (sy_parts s n) u))"
  by (intro inv_reply) (auto simp: ph_answers system_inv_def)

lemma inv_abort:
  "system_inv t s \<Longrightarrow> u = t \<longrightarrow> sent s (AbortRequest t) \<Longrightarrow>
   system_inv t (reply s n (ph_handle_abort (sy_parts s n) u))"
  by (intro inv_reply) (auto simp: ph_answers system_inv_def)

lemma inv_vote:
  assumes "system_inv t s" "sent s (PrepareResponse t v n)"
    and "tc_get_state (sy_coord s) t = Some Preparing"
  shows "system_inv t (set_coord s (fst (tc_handle_prepare_response (sy_coord s) t n v)))"
proof -
  obtain txn where g: "hm_get (tc_transactions (sy_coord s)) t = Some txn"
    and e: "entry_ok t (sent s) txn" using assms(1) by (rule inv_entry)
  let ?txn = "record_vote txn n v"
  have prep: "dt_state txn = Preparing" using assms(3) g by (simp add: tc_get_state_def)
  have r: "votes_recorded ?txn" using e by (simp add: entry_ok_def votes_recorded_vote)
  have votes: "sent s (PrepareResponse t Commit m)"
    if "hm_get (dt_participants ?txn) m = Some p" "pt_vote p = Commit" for m p
    using that e assms(2) by (auto simp: entry_ok_def record_vote_def record_prepare_def hm_simps
        split: option.splits if_splits)
  have none: "\<not> sent s (CommitRequest t)" "\<not> sent s (AbortRequest t)"
    using e prep by (auto simp: entry_ok_def)
  let ?c = "fst (tc_handle_prepare_response (sy_coord s) t n v)"
  let ?new = "if any_abort ?txn then ?txn\<lparr>dt_state := Aborting\<rparr>
    else if all_prepared ?txn then ?txn\<lparr>dt_state := Prepared\<rparr> else ?txn"
  have "hm_get (tc_transactions ?c) t = Some ?new"
    by (auto simp: tc_handle_prepare_response_def g Let_def tc_update_def hm_simps)
  moreover have "entry_ok t (sent s) ?new"
    using r votes none prep by (auto simp: entry_ok_def)
  ultimately show ?thesis using inv_coord [OF assms(1)] by blast
qed

lemma inv_commit_ack:
  assumes "system_inv t s" "sent s (CommitAck t n)"
  shows "system_inv t (set_coord s (fst (tc_handle_commit_ack (sy_coord s) t n)))"
proof -
  obtain txn where g: "hm_get (tc_transactions (sy_coord s)) t = Some txn"
    and e: "entry_ok t (sent s) txn" using assms(1) by (rule inv_entry)
  have st: "dt_state txn \<in> {Committing, Committed}" "\<not> sent s (AbortRequest t)"
    using inv_acks(1) [OF assms] e by (auto simp: entry_ok_def)
  let ?txn = "record_ack txn n"
  have "hm_get (dt_participants ?txn) m = Some p \<Longrightarrow>
      \<exists>q. hm_get (dt_participants txn) m = Some q \<and> pt_vote q = pt_vote p" for m p
    by (auto simp: record_ack_def record_commit_def hm_simps split: option.splits if_splits)
  then have "entry_ok t (sent s) ?txn" "entry_ok t (sent s) (?txn\<lparr>dt_state := Committed\<rparr>)"
    using e st by (fastforce simp: entry_ok_def votes_recorded_ack all_prepared_ack)+
  then show ?thesis
    by (auto simp: tc_handle_commit_ack_def g Let_def intro: inv_coord [OF assms(1) get_update])
qed

lemma inv_abort_ack:
  assumes "system_inv t s" "sent s (AbortAck t n)"
  shows "system_inv t (set_coord s (fst (tc_handle_abort_ack (sy_coord s) t n)))"
proof -
  obtain txn where g: "hm_get (tc_transactions (sy_coord s)) t = Some txn"
    and e: "entry_ok t (sent s) txn" using assms(1) by (rule inv_entry)
  have "entry_ok t (sent s) (txn\<lparr>dt_state := Aborted\<rparr>)"
    using inv_acks(2) [OF assms] e by (auto simp: entry_ok_def)
  then show ?thesis
    by (auto simp: tc_handle_abort_ack_def g intro: inv_coord [OF assms(1) get_update])
qed

lemma inv_send:
  assumes "system_inv t s" "hm_get (tc_transactions c) t = Some txn"
    and "entry_ok t (sent (send_all (set_coord s c) ms)) txn"
    and "\<And>n. CommitAck t n \<notin> snd ` set ms" "\<And>n. AbortAck t n \<notin> snd ` set ms"
  shows "system_inv t (send_all (set_coord s c) ms)"
  using assms unfolding system_inv_def by (auto simp: image_iff)

lemma inv_decide_commit:
  assumes "system_inv t s" "tc_commit (sy_coord s) t = (c, Some ms)"
  shows "system_inv t (send_all (set_coord s c) ms)"
proof -
  obtain txn where g: "hm_get (tc_transactions (sy_coord s)) t = Some txn"
    and e: "entry_ok t (sent s) txn" using assms(1) by (rule inv_entry)
  have c: "c = tc_update (sy_coord s) t (txn\<lparr>dt_state := Committing\<rparr>)" and p: "dt_state txn = Prepared"
    and ms: "ms = map (\<lambda>node. (node, CommitRequest t)) (hm_keys (dt_participants txn))"
    using assms(2) by (auto simp: tc_commit_def g can_commit_def split: if_splits)
  have "entry_ok t (sent (send_all (set_coord s c) ms)) (txn\<lparr>dt_state := Committing\<rparr>)"
    using e p by (auto simp: entry_ok_def ms)
  then show ?thesis
    by (intro inv_send [OF assms(1)]) (auto simp: c ms)
qed

lemma inv_decide_abort:
  assumes "system_inv t s" "tc_abort (sy_coord s) t = (c, Some ms)"
    and "tc_get_state (sy_coord s) t \<notin> {Some Committing, Some Committed}"
  shows "system_inv t (send_all (set_coord s c) ms)"
proof -
  obtain txn where g: "hm_get (tc_transactions (sy_coord s)) t = Some txn"
    and e: "entry_ok t (sent s) txn" using assms(1) by (rule inv_entry)
  have c: "c = tc_update (sy_coord s) t (txn\<lparr>dt_state := Aborting\<rparr>)"
    and ms: "ms = map (\<lambda>node. (node, AbortRequest t)) (hm_keys (dt_participants txn))"
    using assms(2) by (auto simp: tc_abort_def g split: if_splits)
  have "dt_state txn \<notin> {Committing, Committed}" using assms(3) g by (auto simp: tc_get_state_def)
  then have "entry_ok t (sent (send_all (set_coord s c) ms)) (txn\<lparr>dt_state := Aborting\<rparr>)"
    using e by (auto simp: entry_ok_def ms)
  then show ?thesis
    by (intro inv_send [OF assms(1)]) (auto simp: c ms)
qed

lemma inv_send_prepare:
  assumes "system_inv t s" "tc_prepare (sy_coord s) t = Some ms"
  shows "system_inv t (send_all s ms)"
proof -
  obtain txn where g: "hm_get (tc_transactions (sy_coord s)) t = Some txn"
    and e: "entry_ok t (sent s) txn" using assms(1) by (rule inv_entry)
  have ms: "ms = map (\<lambda>node. (node, PrepareRequest t (dt_operations txn))) (hm_keys (dt_participants txn))"
    using assms(2) by (auto simp: tc_prepare_def g split: if_splits)
  have "entry_ok t (sent (send_all (set_coord s (sy_coord s)) ms)) txn"
    using e by (rule entry_ok_mono) (auto simp: ms)
  then have "system_inv t (send_all (set_coord s (sy_coord s)) ms)"
    by (intro inv_send [OF assms(1) g]) (auto simp: ms)
  then show ?thesis by (simp add: set_coord_def)
qed

lemma system_inv_init:
  assumes "system_init t s"
  shows "system_inv t s"
proof -
  obtain txn where txn: "hm_get (tc_transactions (sy_coord s)) t = Some txn"
    "dt_state txn = Preparing" "hm_ok (dt_participants txn)"
    "\<forall>n p. hm_get (dt_participants txn) n = Some p \<longrightarrow> p = participant_new n"
    using assms unfolding system_init_def by blast
  have none: "concerns t m \<Longrightarrow> \<not> sent s m" for m
    using assms by (auto simp: system_init_def sent_def)
  have p: "pt_vote p = Pending \<and> \<not> pt_prepared p" if "hm_get (dt_participants txn) n = Some p" for n p
  proof -
    have "p = participant_new n" using txn(4) that by blast
    then show ?thesis by (simp add: participant_new_def)
  qed
  have "\<not> sent s (CommitRequest t)" "\<not> sent s (AbortRequest t)"
    using none by (simp_all add: concerns_def)
  then have "entry_ok t (sent s) txn"
    using txn(2,3) p by (fastforce simp: entry_ok_def votes_recorded_def)
  moreover have "\<forall>n. ph_node_id (sy_parts s n) = n \<and> t \<notin> ph_committed (sy_parts s n)"
    using assms unfolding system_init_def by blast
  ultimately show ?thesis
    using txn(1) none unfolding system_inv_def by (auto simp: concerns_def)
qed

lemma system_inv_step:
  assumes "system_step t s s'" "system_inv t s"
  shows "system_inv t s'"
  using assms
proof (induction rule: system_step.induct)
  case (vote d v n s)
  then show ?case by (intro inv_vote) (auto simp: sent_def)
next
  case (commit_ack d n s)
  then show ?case by (intro inv_commit_ack) (auto simp: sent_def)
next
  case (abort_ack d n s)
  then show ?case by (intro inv_abort_ack) (auto simp: sent_def)
next
  case (commit n s)
  then show ?case by (intro inv_commit) (auto simp: sent_def)
next
  case (abort n s)
  then show ?case by (intro inv_abort) (auto simp: sent_def)
qed (auto intro: inv_send_prepare inv_prepare inv_decide_commit inv_decide_abort inv_commit inv_abort)

lemma system_inv_reachable: "system_reachable t s \<Longrightarrow> system_inv t s"
  by (induction rule: system_reachable.induct) (auto intro: system_inv_init system_inv_step)

section \<open>Properties\<close>

text \<open>C5: atomicity.  In every run of the protocol in which votes reach the coordinator only while
  it is preparing and it is not told to abort after it began to commit, no participant
  acknowledges an abort of the transaction when another acknowledged its commit; and when a
  participant has committed, every participant has voted to commit.\<close>

theorem two_phase_atomicity:
  assumes "system_reachable t s"
  shows "\<not> (sent s (CommitAck t n) \<and> sent s (AbortAck t m)) \<and>
    (t \<in> ph_committed (sy_parts s n) \<longrightarrow> \<not> sent s (AbortRequest t) \<and>
       (\<exists>txn. tc_get_transaction (sy_coord s) t = Some txn \<and>
          list_all (\<lambda>k. sent s (PrepareResponse t Commit k)) (hm_keys (dt_participants txn))))"
proof -
  have inv: "system_inv t s" using assms by (rule system_inv_reachable)
  obtain txn where g: "hm_get (tc_transactions (sy_coord s)) t = Some txn"
    and e: "entry_ok t (sent s) txn" using inv by (rule inv_entry)
  have excl: "\<not> (sent s (CommitRequest t) \<and> sent s (AbortRequest t))"
    using e by (auto simp: entry_ok_def)
  have "list_all (\<lambda>k. sent s (PrepareResponse t Commit k)) (hm_keys (dt_participants txn))"
    if "sent s (CommitRequest t)"
  proof -
    have r: "votes_recorded txn" and "all_prepared txn" using e that by (auto simp: entry_ok_def)
    then have "hm_get (dt_participants txn) k = Some p \<longrightarrow> sent s (PrepareResponse t Commit k)" for k p
      using e all_prepared_iff [OF r] by (simp add: entry_ok_def)
    then show ?thesis
      using r by (auto simp: list_all_iff votes_recorded_def simp flip: hm_get_in_set)
  qed
  with g excl inv_acks [OF inv] show ?thesis by (auto simp: tc_get_transaction_def)
qed

text \<open>A run with two participants up to the first commit.\<close>

definition run2_start :: "unit system" where
  "run2_start =
     \<lparr>sy_coord = fst (tc_add_participant (fst (tc_add_participant
        (tc_begin_with_id 0 (tc_new ''c'') ''t'') ''t'' ''a'')) ''t'' ''b''),
      sy_parts = (\<lambda>n. ph_new n ()), sy_net = {}\<rparr>"

definition run2_asked :: "unit system" where
  "run2_asked = send_all run2_start (the (tc_prepare (sy_coord run2_start) ''t''))"

definition run2_answered1 :: "unit system" where
  "run2_answered1 = reply run2_asked ''a'' (ph_handle_prepare (sy_parts run2_asked ''a'') ''t'' [])"

definition run2_answered :: "unit system" where
  "run2_answered =
     reply run2_answered1 ''b'' (ph_handle_prepare (sy_parts run2_answered1 ''b'') ''t'' [])"

definition run2_voted1 :: "unit system" where
  "run2_voted1 = set_coord run2_answered
     (fst (tc_handle_prepare_response (sy_coord run2_answered) ''t'' ''a'' Commit))"

definition run2_voted :: "unit system" where
  "run2_voted = set_coord run2_voted1
     (fst (tc_handle_prepare_response (sy_coord run2_voted1) ''t'' ''b'' Commit))"

definition run2_decided :: "unit system" where
  "run2_decided =
     (let (c, ms) = tc_commit (sy_coord run2_voted) ''t'' in send_all (set_coord run2_voted c) (the ms))"

definition run2_committed :: "unit system" where
  "run2_committed =
     reply run2_decided ''a'' (ph_handle_commit (sy_parts run2_decided ''a'') ''t'')"

lemmas tc_eval = tc_new_def tc_begin_with_id_def tc_add_participant_def tc_update_def dt_new_def
  dt_add_participant_def participant_new_def tc_prepare_def tc_handle_prepare_response_def
  record_vote_def record_prepare_def any_abort_def all_prepared_def tc_commit_def can_commit_def
  tc_abort_def can_abort_def tc_get_state_def

lemmas ph_eval = ph_new_def ph_handle_prepare_def basic_validation_def validation_success_def
  ph_handle_commit_def ph_handle_abort_def

lemmas run2_eval = run2_start_def run2_asked_def run2_answered1_def run2_answered_def run2_voted1_def
  run2_voted_def run2_decided_def
  send_all_def reply_def set_coord_def tc_eval ph_eval

lemma run2_reachable: "system_reachable ''t'' run2_committed"
proof -
  have "system_init ''t'' run2_start"
    by (auto simp: system_init_def run2_eval hm_ok_def)
  moreover have "system_step ''t'' run2_start run2_asked"
    unfolding run2_asked_def
    by (rule system_step.send_prepare) (simp add: run2_start_def tc_eval Let_def)
  moreover have "system_step ''t'' run2_asked run2_answered1"
    unfolding run2_answered1_def by (rule system_step.prepare) (simp add: run2_eval Let_def)
  moreover have "system_step ''t'' run2_answered1 run2_answered"
    unfolding run2_answered_def by (rule system_step.prepare) (simp add: run2_eval Let_def)
  moreover have "system_step ''t'' run2_answered run2_voted1"
    unfolding run2_voted1_def
    by (rule system_step.vote [where d = "''c''"]) (simp_all add: run2_eval Let_def)
  moreover have "system_step ''t'' run2_voted1 run2_voted"
    unfolding run2_voted_def
    by (rule system_step.vote [where d = "''c''"]) (simp_all add: run2_eval Let_def)
  moreover have "system_step ''t'' run2_voted run2_decided"
    unfolding run2_decided_def
    using system_step.decide_commit [of run2_voted "''t''" "fst (tc_commit (sy_coord run2_voted) ''t'')"
        "the (snd (tc_commit (sy_coord run2_voted) ''t''))"]
    by (simp add: split_beta) (simp add: run2_eval Let_def)
  moreover have "system_step ''t'' run2_decided run2_committed"
    unfolding run2_committed_def
    by (rule system_step.commit) (simp add: run2_eval Let_def)
  ultimately show ?thesis
    by (meson system_reachable.intros)
qed

theorem two_phase_atomicity_witness:
  "system_reachable ''t'' run2_committed \<and> ''t'' \<in> ph_committed (sy_parts run2_committed ''a'') \<and>
   \<not> sent run2_committed (AbortRequest ''t'')"
proof -
  have "''t'' \<in> ph_committed (sy_parts run2_committed ''a'')"
    by (simp add: run2_committed_def ph_answers)
  then show ?thesis
    using two_phase_atomicity [OF run2_reachable, of "''a''" "''b''"] run2_reachable by blast
qed

text \<open>The coordinator commits only unanimous transactions: whatever was begun, joined, voted,
  aborted, acknowledged or cleaned up before, when \<^verbatim>\<open>commit\<close> produces messages, every
  participant of the transaction is recorded with a vote to commit, and the messages are one
  commit request for each of them.\<close>

theorem commit_requires_unanimity:
  assumes "tc_reachable c" "tc_commit c t = (c', Some ms)"
  shows "\<exists>txn. tc_get_transaction c t = Some txn \<and>
    list_all (\<lambda>p. pt_vote p = Commit) (hm_values (dt_participants txn)) \<and>
    ms = map (\<lambda>n. (n, CommitRequest t)) (hm_keys (dt_participants txn)) \<and>
    tc_get_state c' t = Some Committing"
proof -
  obtain txn where g: "hm_get (tc_transactions c) t = Some txn" and p: "dt_state txn = Prepared"
    and c': "c' = tc_update c t (txn\<lparr>dt_state := Committing\<rparr>)"
    and ms: "ms = map (\<lambda>n. (n, CommitRequest t)) (hm_keys (dt_participants txn))"
    using assms(2) by (auto simp: tc_commit_def can_commit_def split: option.splits if_splits)
  have ok: "decided_ok txn" using coord_okD [OF coord_ok_reachable [OF assms(1)] g] .
  then have r: "votes_recorded txn" and "all_prepared txn" using p by (auto simp: decided_ok_def)
  then have "list_all (\<lambda>p. pt_vote p = Commit) (hm_values (dt_participants txn))"
    using all_prepared_iff [OF r]
    by (auto simp: list_all_iff Ball_def votes_recorded_def hm_values_set simp del: set_map)
  with g c' ms show ?thesis by (simp add: tc_get_transaction_def tc_get_state_def)
qed

theorem commit_requires_unanimity_witness:
  "\<exists>c c' ms. tc_reachable c \<and> tc_commit c ''t'' = (c', Some ms) \<and> ms = [(''a'', CommitRequest ''t'')] \<and>
     tc_get_state c' ''t'' = Some Committing"
proof -
  let ?c1 = "tc_begin_with_id 0 (tc_with_timeout ''c'' 10) ''t''"
  let ?c2 = "fst (tc_add_participant ?c1 ''t'' ''a'')"
  let ?c3 = "fst (tc_handle_prepare_response ?c2 ''t'' ''a'' Commit)"
  have st: "tc_get_state ?c1 ''t'' = Some Preparing"
    by (simp add: tc_eval tc_with_timeout_def)
  have r: "tc_reachable ?c3"
    by (rule tc_reachable.vote [OF tc_reachable.join [OF tc_reachable.begin_txn
            [OF tc_reachable.fresh] st]]) simp
  obtain ms c' where m: "tc_commit ?c3 ''t'' = (c', Some ms)" "ms = [(''a'', CommitRequest ''t'')]"
    by (simp add: tc_eval tc_with_timeout_def)
  have "tc_get_state c' ''t'' = Some Committing"
    using commit_requires_unanimity [OF r m(1)] by blast
  with r m show ?thesis by (intro exI conjI)
qed

text \<open>Prepared transactions are isolated.  However a participant without its own validation
  callback is asked to prepare, commit and abort transactions, two transactions it holds
  prepared never write the same key, a key is locked exactly by the prepared transaction
  that writes it, and the prepared transactions are the pending ones.\<close>

theorem prepared_transactions_isolated:
  assumes "t \<noteq> u" and h_def: "h = foldl ph_step (ph_new node storage) es"
  shows "(ph_is_prepared h t \<longleftrightarrow> hm_get (ph_pending h) t \<noteq> None) \<and>
    (hm_get (ph_pending h) t = Some ops \<and> hm_get (ph_pending h) u = Some ops' \<longrightarrow>
       set (written_keys ops) \<inter> set (written_keys ops') = {}) \<and>
    set (ph_get_locked_keys h t) =
      (case hm_get (ph_pending h) t of None \<Rightarrow> {} | Some o' \<Rightarrow> set (written_keys o'))"
proof -
  have "isolated (ph_new node storage)" by (simp add: isolated_def ph_new_def)
  then have "isolated h" unfolding h_def by (rule isolated_run) (simp add: ph_new_def)
  with assms(1) show ?thesis
    by (auto simp: isolated_def ph_is_prepared_def ph_get_locked_keys_def hm_get_or_def
        split: option.splits)
qed

theorem prepared_transactions_isolated_witness:
  "let h = foldl ph_step (ph_new ''a'' ()) [AskPrepare ''t'' [OpWrite ''k'' [1] ''s''],
         AskPrepare ''u'' [OpDelete ''k'' ''s'']] in
   set (ph_get_locked_keys h ''t'') = {''k''} \<and> \<not> ph_is_prepared h ''u''"
proof -
  let ?h = "foldl ph_step (ph_new ''a'' ()) [AskPrepare ''t'' [OpWrite ''k'' [1] ''s''],
         AskPrepare ''u'' [OpDelete ''k'' ''s'']]"
  have "hm_get (ph_pending ?h) ''t'' = Some [OpWrite ''k'' [1] ''s'']"
    "hm_get (ph_pending ?h) ''u'' = None"
    by (simp_all add: ph_eval validation_failure_def Let_def)
  then show ?thesis
    using prepared_transactions_isolated [OF _ refl, of "''t''" "''u''" "''a''" "()"
        "[AskPrepare ''t'' [OpWrite ''k'' [1] ''s''], AskPrepare ''u'' [OpDelete ''k'' ''s'']]"]
      prepared_transactions_isolated [OF _ refl, of "''u''" "''t''" "''a''" "()"
        "[AskPrepare ''t'' [OpWrite ''k'' [1] ''s''], AskPrepare ''u'' [OpDelete ''k'' ''s'']]"]
    by (simp add: Let_def written_keys_def del: foldl_Cons)
qed

text \<open>The coordinator accepts a vote in any state.  When it has given up a transaction and told
  the participants to abort, the last commit vote, arriving late, makes the transaction
  prepared again, and a commit goes through: one participant has aborted, the other commits.\<close>

theorem late_vote_breaks_atomicity:
  "let c0 = sy_coord run2_start;
       c1 = fst (tc_handle_prepare_response c0 ''t'' ''a'' Commit);
       (c2, aborts) = tc_abort c1 ''t'';
       (c3, verdict) = tc_handle_prepare_response c2 ''t'' ''b'' Commit;
       (c4, commits) = tc_commit c3 ''t'' in
   aborts = Some [(''a'', AbortRequest ''t''), (''b'', AbortRequest ''t'')] \<and>
   verdict = Some Prepared \<and>
   commits = Some [(''a'', CommitRequest ''t''), (''b'', CommitRequest ''t'')]"
  by (simp add: run2_start_def tc_eval Let_def)

end
