(* ===== verification/VectorClock.thy ===== *)
theory VectorClock
  imports Prelude
begin

text \<open>
  The clocks of \<^verbatim>\<open>crates/aegis-replication/src/vector_clock.rs\<close>: vector clocks and the
  versioned values that carry them, hybrid logical clocks and their timestamps (a linear
  order), Lamport clocks and dotted version vectors.  Counters keep their width: additions
  wrap, as they do in the release build of this crate.  Wall-clock readings are arguments.
\<close>

section \<open>Vector clocks\<close>

record vector_clock =
  vc_clocks :: "(string, u64) hmap"

definition vc_new :: vector_clock where
  "vc_new = \<lparr>vc_clocks = []\<rparr>"

definition vc_with_node :: "node_id \<Rightarrow> vector_clock" where
  "vc_with_node node = \<lparr>vc_clocks = hm_insert node 0 []\<rparr>"

definition vc_increment :: "vector_clock \<Rightarrow> node_id \<Rightarrow> vector_clock" where
  "vc_increment c node = c\<lparr>vc_clocks := hm_upsert node 0 (\<lambda>v. v + 1) (vc_clocks c)\<rparr>"

definition vc_get :: "vector_clock \<Rightarrow> node_id \<Rightarrow> u64" where
  "vc_get c node = hm_get_or (vc_clocks c) node 0"

definition vc_set :: "vector_clock \<Rightarrow> node_id \<Rightarrow> u64 \<Rightarrow> vector_clock" where
  "vc_set c node value = c\<lparr>vc_clocks := hm_insert node value (vc_clocks c)\<rparr>"

definition vc_merge :: "vector_clock \<Rightarrow> vector_clock \<Rightarrow> vector_clock" where
  "vc_merge c other = c\<lparr>vc_clocks := hm_join max 0 (vc_clocks c) (vc_clocks other)\<rparr>"

definition vc_merged :: "vector_clock \<Rightarrow> vector_clock \<Rightarrow> vector_clock" where
  "vc_merged c other = vc_merge c other"

text \<open>The first loop of \<^verbatim>\<open>happened_before\<close>; \<open>None\<close> is its early \<^verbatim>\<open>return false\<close>.\<close>

fun hb_loop :: "(string, u64) hmap \<Rightarrow> (string \<times> u64) list \<Rightarrow> bool \<Rightarrow> bool option" where
  "hb_loop other [] dominated = Some dominated"
| "hb_loop other ((node, value) # rest) dominated =
     (let other_value = hm_get_or other node 0
      in if value > other_value then None
         else hb_loop other rest (if value < other_value then True else dominated))"

definition vc_happened_before :: "vector_clock \<Rightarrow> vector_clock \<Rightarrow> bool" where
  "vc_happened_before c other =
     (case hb_loop (vc_clocks other) (vc_clocks c) False of
        None \<Rightarrow> False
      | Some dominated \<Rightarrow>
          foldl (\<lambda>d (node, value). if \<not> hm_contains (vc_clocks c) node \<and> value > 0 then True else d)
            dominated (vc_clocks other))"

definition vc_happened_after :: "vector_clock \<Rightarrow> vector_clock \<Rightarrow> bool" where
  "vc_happened_after c other \<longleftrightarrow> vc_happened_before other c"

definition vc_is_concurrent :: "vector_clock \<Rightarrow> vector_clock \<Rightarrow> bool" where
  "vc_is_concurrent c other \<longleftrightarrow> \<not> vc_happened_before c other \<and> \<not> vc_happened_after c other"

definition vc_equals :: "vector_clock \<Rightarrow> vector_clock \<Rightarrow> bool" where
  "vc_equals c other \<longleftrightarrow>
     hm_len (vc_clocks c) = hm_len (vc_clocks other) \<and>
     list_all (\<lambda>(node, value). hm_get_or (vc_clocks other) node 0 = value) (vc_clocks c)"

datatype vector_clock_ordering = Before | After | Equal | Concurrent

definition vc_compare :: "vector_clock \<Rightarrow> vector_clock \<Rightarrow> vector_clock_ordering" where
  "vc_compare c other =
     (if vc_equals c other then Equal
      else if vc_happened_before c other then Before
      else if vc_happened_after c other then After
      else Concurrent)"

datatype ordering = Less | EqualTo | Greater

definition vc_partial_cmp :: "vector_clock \<Rightarrow> vector_clock \<Rightarrow> ordering option" where
  "vc_partial_cmp c other =
     (case vc_compare c other of
        Equal \<Rightarrow> Some EqualTo | Before \<Rightarrow> Some Less | After \<Rightarrow> Some Greater | Concurrent \<Rightarrow> None)"

definition vc_node_count :: "vector_clock \<Rightarrow> nat" where
  "vc_node_count c = hm_len (vc_clocks c)"

definition vc_nodes :: "vector_clock \<Rightarrow> string list" where
  "vc_nodes c = hm_keys (vc_clocks c)"

definition vc_max_value :: "vector_clock \<Rightarrow> u64" where
  "vc_max_value c = foldl max 0 (hm_values (vc_clocks c))"

definition vc_sum :: "vector_clock \<Rightarrow> u64" where
  "vc_sum c = sum_list (hm_values (vc_clocks c))"

definition vc_is_empty :: "vector_clock \<Rightarrow> bool" where
  "vc_is_empty c \<longleftrightarrow> list_all (\<lambda>v. v = 0) (hm_values (vc_clocks c))"

definition vc_reset :: "vector_clock \<Rightarrow> vector_clock" where
  "vc_reset c = c\<lparr>vc_clocks := map (\<lambda>(node, _). (node, 0)) (vc_clocks c)\<rparr>"

definition vc_remove :: "vector_clock \<Rightarrow> node_id \<Rightarrow> vector_clock" where
  "vc_remove c node = c\<lparr>vc_clocks := hm_remove node (vc_clocks c)\<rparr>"

section \<open>Versioned values\<close>

record 'a versioned_value =
  vv_value :: 'a
  vv_clock :: vector_clock
  vv_timestamp :: u64

definition vv_new :: "u64 \<Rightarrow> 'a \<Rightarrow> vector_clock \<Rightarrow> 'a versioned_value" where
  "vv_new now value clock = \<lparr>vv_value = value, vv_clock = clock, vv_timestamp = now\<rparr>"

definition vv_with_timestamp :: "'a \<Rightarrow> vector_clock \<Rightarrow> u64 \<Rightarrow> 'a versioned_value" where
  "vv_with_timestamp value clock timestamp =
     \<lparr>vv_value = value, vv_clock = clock, vv_timestamp = timestamp\<rparr>"

definition vv_happened_before :: "'a versioned_value \<Rightarrow> 'a versioned_value \<Rightarrow> bool" where
  "vv_happened_before v other \<longleftrightarrow> vc_happened_before (vv_clock v) (vv_clock other)"

definition vv_happened_after :: "'a versioned_value \<Rightarrow> 'a versioned_value \<Rightarrow> bool" where
  "vv_happened_after v other \<longleftrightarrow> vc_happened_after (vv_clock v) (vv_clock other)"

definition vv_is_concurrent :: "'a versioned_value \<Rightarrow> 'a versioned_value \<Rightarrow> bool" where
  "vv_is_concurrent v other \<longleftrightarrow> vc_is_concurrent (vv_clock v) (vv_clock other)"

section \<open>Hybrid logical clocks\<close>

datatype hybrid_timestamp =
  HybridTimestamp (ht_physical: u64) (ht_logical: u32) (ht_node: string)

record hybrid_clock =
  hc_physical :: u64
  hc_logical :: u32
  hc_node :: string

definition hc_new :: "u64 \<Rightarrow> string \<Rightarrow> hybrid_clock" where
  "hc_new now node = \<lparr>hc_physical = now, hc_logical = 0, hc_node = node\<rparr>"

definition hc_stamp :: "hybrid_clock \<Rightarrow> hybrid_timestamp" where
  "hc_stamp c = HybridTimestamp (hc_physical c) (hc_logical c) (hc_node c)"

definition hc_tick :: "u64 \<Rightarrow> hybrid_clock \<Rightarrow> hybrid_clock \<times> hybrid_timestamp" where
  "hc_tick now c =
     (let c' = (if now > hc_physical c then c\<lparr>hc_physical := now, hc_logical := 0\<rparr>
                else c\<lparr>hc_logical := hc_logical c + 1\<rparr>)
      in (c', hc_stamp c'))"

definition hc_receive ::
    "u64 \<Rightarrow> hybrid_clock \<Rightarrow> hybrid_timestamp \<Rightarrow> hybrid_clock \<times> hybrid_timestamp" where
  "hc_receive now c other =
     (let c' =
        (if now > hc_physical c \<and> now > ht_physical other
         then c\<lparr>hc_physical := now, hc_logical := 0\<rparr>
         else if hc_physical c > ht_physical other
         then c\<lparr>hc_logical := hc_logical c + 1\<rparr>
         else if ht_physical other > hc_physical c
         then c\<lparr>hc_physical := ht_physical other, hc_logical := ht_logical other + 1\<rparr>
         else c\<lparr>hc_logical := max (hc_logical c) (ht_logical other) + 1\<rparr>)
      in (c', hc_stamp c'))"

text \<open>\<^verbatim>\<open>Ord::cmp\<close> of the standard library on a linearly ordered type.\<close>

definition cmp :: "'a :: linorder \<Rightarrow> 'a \<Rightarrow> ordering" where
  "cmp a b = (if a < b then Less else if a = b then EqualTo else Greater)"

definition ht_compare :: "hybrid_timestamp \<Rightarrow> hybrid_timestamp \<Rightarrow> ordering" where
  "ht_compare a b =
     (case cmp (ht_physical a) (ht_physical b) of
        EqualTo \<Rightarrow>
          (case cmp (ht_logical a) (ht_logical b) of
             EqualTo \<Rightarrow> cmp (ht_node a) (ht_node b)
           | other \<Rightarrow> other)
      | other \<Rightarrow> other)"

definition ht_is_before :: "hybrid_timestamp \<Rightarrow> hybrid_timestamp \<Rightarrow> bool" where
  "ht_is_before a b \<longleftrightarrow> ht_compare a b = Less"

definition ht_is_after :: "hybrid_timestamp \<Rightarrow> hybrid_timestamp \<Rightarrow> bool" where
  "ht_is_after a b \<longleftrightarrow> ht_compare a b = Greater"

unbundle bit_operations_syntax

definition ht_to_sortable :: "hybrid_timestamp \<Rightarrow> 128 word" where
  "ht_to_sortable t = push_bit 32 (ucast (ht_physical t)) OR ucast (ht_logical t)"

section \<open>Lamport clocks\<close>

record lamport_clock =
  lc_counter :: u64

definition lc_new :: lamport_clock where
  "lc_new = \<lparr>lc_counter = 0\<rparr>"

definition lc_with_value :: "u64 \<Rightarrow> lamport_clock" where
  "lc_with_value v = \<lparr>lc_counter = v\<rparr>"

definition lc_tick :: "lamport_clock \<Rightarrow> lamport_clock \<times> u64" where
  "lc_tick c = (let v = lc_counter c + 1 in (c\<lparr>lc_counter := v\<rparr>, v))"

definition lc_receive :: "lamport_clock \<Rightarrow> u64 \<Rightarrow> lamport_clock \<times> u64" where
  "lc_receive c received =
     (let v = max (lc_counter c) received + 1 in (c\<lparr>lc_counter := v\<rparr>, v))"

definition lc_merge :: "lamport_clock \<Rightarrow> lamport_clock \<Rightarrow> lamport_clock" where
  "lc_merge c other = c\<lparr>lc_counter := max (lc_counter c) (lc_counter other)\<rparr>"

section \<open>Dotted version vectors\<close>

record dotted_version_vector =
  dv_base :: vector_clock
  dv_dots :: "(string, u64) hmap"

definition dv_new :: dotted_version_vector where
  "dv_new = \<lparr>dv_base = vc_new, dv_dots = []\<rparr>"

definition dv_event :: "dotted_version_vector \<Rightarrow> node_id \<Rightarrow> dotted_version_vector \<times> (string \<times> u64)" where
  "dv_event d node =
     (let value = vc_get (dv_base d) node + 1
      in (d\<lparr>dv_dots := hm_insert node value (dv_dots d)\<rparr>, (node, value)))"

definition dv_sync :: "dotted_version_vector \<Rightarrow> node_id \<Rightarrow> dotted_version_vector" where
  "dv_sync d node =
     (case hm_get (dv_dots d) node of
        None \<Rightarrow> d
      | Some dot \<Rightarrow>
          if dot = vc_get (dv_base d) node + 1
          then \<lparr>dv_base = vc_set (dv_base d) node dot, dv_dots = hm_remove node (dv_dots d)\<rparr>
          else d)"

definition dv_sync_all :: "dotted_version_vector \<Rightarrow> dotted_version_vector" where
  "dv_sync_all d = foldl dv_sync d (hm_keys (dv_dots d))"

definition dv_merge :: "dotted_version_vector \<Rightarrow> dotted_version_vector \<Rightarrow> dotted_version_vector" where
  "dv_merge d other =
     \<lparr>dv_base = vc_merge (dv_base d) (dv_base other),
      dv_dots = hm_join max 0 (dv_dots d) (dv_dots other)\<rparr>"

definition dv_dominates :: "dotted_version_vector \<Rightarrow> dotted_version_vector \<Rightarrow> bool" where
  "dv_dominates d other =
     (let covers = (\<lambda>(node, value).
            \<not> max (hm_get_or (vc_clocks (dv_base d)) node 0) (hm_get_or (dv_dots d) node 0) < value)
      in list_all covers (vc_clocks (dv_base other)) \<and> list_all covers (dv_dots other))"

section \<open>Causality is the strict pointwise order\<close>

definition vc_ok :: "vector_clock \<Rightarrow> bool" where
  "vc_ok c \<longleftrightarrow> hm_ok (vc_clocks c)"

lemma vc_get_merge: "vc_ok other \<Longrightarrow> vc_get (vc_merge c other) n = max (vc_get c n) (vc_get other n)"
  by (auto simp: vc_get_def vc_merge_def vc_ok_def hm_get_or_def hm_get_join max_def word_zero_le
      split: option.splits)

lemma vc_get_increment:
  "vc_get (vc_increment c n) m = (if m = n then vc_get c n + 1 else vc_get c m)"
  by (simp add: vc_get_def vc_increment_def hm_simps)

lemma vc_ok_ops [hm_intros]:
  "vc_ok vc_new" "vc_ok (vc_with_node n)" "vc_ok c \<Longrightarrow> vc_ok (vc_increment c n)"
  "vc_ok c \<Longrightarrow> vc_ok (vc_set c n v)" "vc_ok c \<Longrightarrow> vc_ok (vc_merge c other)"
  "vc_ok c \<Longrightarrow> vc_ok (vc_remove c n)"
  by (auto simp: vc_ok_def vc_new_def vc_with_node_def vc_increment_def vc_set_def vc_merge_def
      vc_remove_def hm_ok_def distinct_update intro: hm_intros [unfolded hm_ok_def])

lemma hb_loop_eq:
  "hb_loop other xs d =
     (if \<exists>x \<in> set xs. hm_get_or other (fst x) 0 < snd x then None
      else Some (d \<or> (\<exists>x \<in> set xs. snd x < hm_get_or other (fst x) 0)))"
proof (induction xs arbitrary: d)
  case Nil
  then show ?case by simp
next
  case (Cons x xs)
  then show ?case by (cases x) (simp add: Let_def)
qed

lemma hb_foldl:
  "foldl (\<lambda>d (n, v). if \<not> hm_contains m n \<and> v > 0 then True else d) d xs \<longleftrightarrow>
     d \<or> (\<exists>x \<in> set xs. hm_get m (fst x) = None \<and> snd x > 0)"
proof (induction xs arbitrary: d)
  case Nil
  then show ?case by simp
next
  case (Cons x xs)
  then show ?case by (cases x) auto
qed

lemma vc_get_set: "vc_ok c \<Longrightarrow> (n, v) \<in> set (vc_clocks c) \<Longrightarrow> vc_get c n = v"
  by (auto simp: vc_ok_def hm_get_in_set vc_get_def hm_get_or_def)

lemma vc_get_absent: "hm_get (vc_clocks c) n = None \<Longrightarrow> vc_get c n = 0"
  by (simp add: vc_get_def hm_get_or_def)

lemma vc_get_present: "vc_get c n \<noteq> 0 \<Longrightarrow> \<exists>v. hm_get (vc_clocks c) n = Some v"
  using vc_get_absent by fastforce

lemma vc_get_eq_iff:
  "vc_ok c \<Longrightarrow> hm_contains (vc_clocks c) n \<Longrightarrow> (n, vc_get c n) \<in> set (vc_clocks c)"
  by (auto simp: vc_ok_def hm_get_in_set vc_get_def hm_get_or_def)

lemma some_above:
  assumes "vc_ok a"
  shows "(\<exists>x \<in> set (vc_clocks a). hm_get_or (vc_clocks b) (fst x) 0 < snd x) \<longleftrightarrow>
    (\<exists>n. vc_get b n < vc_get a n)"
proof
  assume "\<exists>x \<in> set (vc_clocks a). hm_get_or (vc_clocks b) (fst x) 0 < snd x"
  then obtain x where "x \<in> set (vc_clocks a)" "vc_get b (fst x) < snd x"
    by (auto simp: vc_get_def)
  then have "vc_get b (fst x) < vc_get a (fst x)"
    using vc_get_set [OF assms, of "fst x" "snd x"] by simp
  then show "\<exists>n. vc_get b n < vc_get a n" by blast
next
  assume "\<exists>n. vc_get b n < vc_get a n"
  then obtain n where n: "vc_get b n < vc_get a n" by blast
  then have "vc_get a n \<noteq> 0" by auto
  then have "(n, vc_get a n) \<in> set (vc_clocks a)"
    using vc_get_eq_iff [OF assms] vc_get_absent by fastforce
  with n show "\<exists>x \<in> set (vc_clocks a). hm_get_or (vc_clocks b) (fst x) 0 < snd x"
    by (intro bexI [of _ "(n, vc_get a n)"]) (auto simp: vc_get_def)
qed

lemma some_below:
  assumes "vc_ok a" "vc_ok b"
  shows "(\<exists>x \<in> set (vc_clocks a). snd x < hm_get_or (vc_clocks b) (fst x) 0) \<or>
      (\<exists>x \<in> set (vc_clocks b). hm_get (vc_clocks a) (fst x) = None \<and> snd x > 0) \<longleftrightarrow>
    (\<exists>n. vc_get a n < vc_get b n)" (is "?l1 \<or> ?l2 \<longleftrightarrow> ?r")
proof
  assume "?l1 \<or> ?l2"
  then show ?r
  proof
    assume ?l1
    then obtain x where "x \<in> set (vc_clocks a)" "snd x < vc_get b (fst x)"
      by (auto simp: vc_get_def)
    then have "vc_get a (fst x) < vc_get b (fst x)"
      using vc_get_set [OF assms(1), of "fst x" "snd x"] by simp
    then show ?r by blast
  next
    assume ?l2
    then obtain x where "x \<in> set (vc_clocks b)" "hm_get (vc_clocks a) (fst x) = None" "snd x > 0"
      by blast
    then have "vc_get a (fst x) < vc_get b (fst x)"
      using vc_get_set [OF assms(2), of "fst x" "snd x"] vc_get_absent [of a "fst x"] by simp
    then show ?r by blast
  qed
next
  assume ?r
  then obtain n where n: "vc_get a n < vc_get b n" by blast
  then have "vc_get b n \<noteq> 0" by auto
  then have b: "(n, vc_get b n) \<in> set (vc_clocks b)"
    using vc_get_eq_iff [OF assms(2)] vc_get_absent by fastforce
  show "?l1 \<or> ?l2"
  proof (cases "hm_contains (vc_clocks a) n")
    case True
    with n show ?thesis
      using vc_get_eq_iff [OF assms(1) True]
      by (intro disjI1 bexI [of _ "(n, vc_get a n)"]) (auto simp: vc_get_def)
  next
    case False
    with n b show ?thesis
      using vc_get_absent [of a n] by (intro disjI2 bexI [of _ "(n, vc_get b n)"]) auto
  qed
qed

lemma happened_before_iff:
  assumes "vc_ok a" "vc_ok b"
  shows "vc_happened_before a b \<longleftrightarrow>
    (\<forall>n. vc_get a n \<le> vc_get b n) \<and> (\<exists>n. vc_get a n < vc_get b n)"
proof (cases "\<exists>n. vc_get b n < vc_get a n")
  case True
  then show ?thesis
    using some_above [OF assms(1), of b]
    by (auto simp: vc_happened_before_def hb_loop_eq not_le)
next
  case False
  then have "vc_happened_before a b \<longleftrightarrow> (\<exists>n. vc_get a n < vc_get b n)"
    unfolding vc_happened_before_def hb_loop_eq some_above [OF assms(1), of b]
      if_not_P [OF False] option.case hb_foldl
    using some_below [OF assms] by blast
  then show ?thesis using False by (auto simp: not_less)
qed

text \<open>
  What the registers rely on: causality is a strict order on the clocks in use, merging
  gives an upper bound of both, and the least one.
\<close>

locale causality =
  fixes ok :: "'c \<Rightarrow> bool" and before :: "'c \<Rightarrow> 'c \<Rightarrow> bool"
  assumes irrefl: "ok a \<Longrightarrow> \<not> before a a"
    and trans: "ok a \<Longrightarrow> ok b \<Longrightarrow> ok c \<Longrightarrow> before a b \<Longrightarrow> before b c \<Longrightarrow> before a c"
begin

definition antichain :: "'c set \<Rightarrow> bool" where
  "antichain S \<longleftrightarrow> (\<forall>a \<in> S. \<forall>b \<in> S. \<not> before a b)"

lemma asym: "ok a \<Longrightarrow> ok b \<Longrightarrow> before a b \<Longrightarrow> \<not> before b a"
  using irrefl trans by blast

lemma antichain_subset: "antichain S \<Longrightarrow> T \<subseteq> S \<Longrightarrow> antichain T"
  by (auto simp: antichain_def)

text \<open>Dropping what the new clock dominates and adding it unless it is dominated.\<close>

lemma antichain_supersede:
  assumes "antichain S" "ok c" "\<forall>a \<in> S. ok a" "T \<subseteq> {a \<in> S. \<not> before a c}"
    "\<forall>a \<in> T. \<not> before c a"
  shows "antichain (insert c T)"
  using assms irrefl by (auto simp: antichain_def)

lemma dominated_trans:
  "ok a \<Longrightarrow> ok b \<Longrightarrow> ok c \<Longrightarrow> before a b \<Longrightarrow> \<not> before a c \<Longrightarrow> \<not> before b c"
  using trans by blast

text \<open>The undominated elements of a finite set, and how they absorb new elements.\<close>

definition maxima :: "'c set \<Rightarrow> 'c set" where
  "maxima S = {a \<in> S. \<forall>b \<in> S. \<not> before a b}"

lemma maxima_subset: "maxima S \<subseteq> S"
  by (auto simp: maxima_def)

lemma antichain_maxima: "antichain (maxima S)"
  by (auto simp: maxima_def antichain_def)

lemma maxima_antichain: "antichain S \<Longrightarrow> maxima S = S"
  by (auto simp: maxima_def antichain_def)

lemma dominated_by_maximum:
  assumes "finite S" "\<forall>x \<in> S. ok x" "a \<in> S"
  shows "a \<in> maxima S \<or> (\<exists>m \<in> maxima S. before a m)"
  using assms(3)
proof (induction "card {b \<in> S. before a b}" arbitrary: a rule: less_induct)
  case less
  show ?case
  proof (cases "a \<in> maxima S")
    case False
    then obtain b where b: "b \<in> S" "before a b" using less.prems by (auto simp: maxima_def)
    have "{c \<in> S. before b c} \<subset> {c \<in> S. before a c}"
      using b assms(2) less.prems irrefl trans by blast
    then have "card {c \<in> S. before b c} < card {c \<in> S. before a c}"
      using assms(1) by (simp add: psubset_card_mono)
    from less.hyps [OF this b(1)] show ?thesis
      using b assms(2) less.prems maxima_subset trans by blast
  qed simp
qed

lemma maxima_absorb:
  assumes "finite S" "\<forall>x \<in> S \<union> T. ok x"
  shows "maxima (maxima S \<union> T) = maxima (S \<union> T)"
proof (intro equalityI subsetI)
  fix a
  assume a: "a \<in> maxima (maxima S \<union> T)"
  then have "a \<in> S \<union> T" using maxima_subset by blast
  moreover have "\<not> before a b" if bST: "b \<in> S \<union> T" for b
  proof
    assume ab: "before a b"
    then have "b \<notin> maxima S \<union> T" using a by (auto simp: maxima_def)
    then obtain m where "m \<in> maxima S" "before b m"
      using bST dominated_by_maximum [OF assms(1), of b] assms(2) by blast
    moreover from this have "before a m"
      using ab \<open>a \<in> S \<union> T\<close> bST assms(2) maxima_subset trans by blast
    ultimately show False using a by (auto simp: maxima_def)
  qed
  ultimately show "a \<in> maxima (S \<union> T)" by (auto simp: maxima_def)
next
  fix a
  assume "a \<in> maxima (S \<union> T)"
  then show "a \<in> maxima (maxima S \<union> T)" by (auto simp: maxima_def)
qed

lemma supersede_maxima:
  assumes "antichain S" "\<forall>x \<in> insert c S. ok x"
  defines "K \<equiv> {a \<in> S. \<not> before a c}"
  shows "(if \<exists>a \<in> K. before c a then K else insert c K) = maxima (S \<union> {c})"
proof (cases "\<exists>a \<in> K. before c a")
  case True
  then obtain m where m: "m \<in> S" "before c m" by (auto simp: K_def)
  have "\<not> before a c" if "a \<in> S" for a
  proof
    assume "before a c"
    then have "before a m" using m that assms(2) trans by blast
    then show False using m that assms(1) by (auto simp: antichain_def)
  qed
  with True m show ?thesis using assms(1) by (auto simp: K_def maxima_def antichain_def)
next
  case False
  with assms(2) irrefl show ?thesis
    using assms(1) by (auto simp: K_def maxima_def antichain_def)
       (metis asym insert_iff)+
qed

end

interpretation vclock: causality vc_ok vc_happened_before
proof
  show "\<not> vc_happened_before a a" if "vc_ok a" for a
    using that by (simp add: happened_before_iff)
next
  fix a b c
  assume "vc_ok a" "vc_ok b" "vc_ok c" "vc_happened_before a b" "vc_happened_before b c"
  then show "vc_happened_before a c"
    by (simp add: happened_before_iff) (meson order_trans order_less_le_trans)
qed

section \<open>Timestamps are linearly ordered\<close>

lemma cmp_simps:
  "cmp a b = Less \<longleftrightarrow> a < b" "cmp a b = EqualTo \<longleftrightarrow> a = b" "cmp a b = Greater \<longleftrightarrow> b < a"
  by (auto simp: cmp_def)

lemma ht_compare_simps:
  "ht_compare a b = Less \<longleftrightarrow>
     ht_physical a < ht_physical b \<or> ht_physical a = ht_physical b \<and>
       (ht_logical a < ht_logical b \<or> ht_logical a = ht_logical b \<and> ht_node a < ht_node b)"
  "ht_compare a b = EqualTo \<longleftrightarrow> a = b"
  by (auto simp: ht_compare_def cmp_def hybrid_timestamp.expand split: ordering.splits)

instantiation hybrid_timestamp :: linorder
begin

definition less_hybrid_timestamp :: "hybrid_timestamp \<Rightarrow> hybrid_timestamp \<Rightarrow> bool" where
  "less_hybrid_timestamp a b \<longleftrightarrow> ht_compare a b = Less"

definition less_eq_hybrid_timestamp :: "hybrid_timestamp \<Rightarrow> hybrid_timestamp \<Rightarrow> bool" where
  "less_eq_hybrid_timestamp a b \<longleftrightarrow> ht_compare a b \<noteq> Greater"

instance
proof
  fix a b c :: hybrid_timestamp
  have le: "x \<le> y \<longleftrightarrow> ht_compare x y = Less \<or> x = y" for x y :: hybrid_timestamp
    unfolding less_eq_hybrid_timestamp_def ht_compare_simps(2) [symmetric]
    by (cases "ht_compare x y") auto
  show "a < b \<longleftrightarrow> a \<le> b \<and> \<not> b \<le> a"
    by (auto simp: le less_hybrid_timestamp_def ht_compare_simps)
  show "a \<le> a" by (simp add: le)
  show "a \<le> b \<Longrightarrow> b \<le> c \<Longrightarrow> a \<le> c" by (auto simp: le ht_compare_simps)
  show "a \<le> b \<Longrightarrow> b \<le> a \<Longrightarrow> a = b" by (auto simp: le ht_compare_simps)
  show "a \<le> b \<or> b \<le> a"
    by (cases a; cases b) (auto simp: le ht_compare_simps)
qed

end

lemma less_timestamp:
  "a < b \<longleftrightarrow> ht_physical a < ht_physical b \<or> ht_physical a = ht_physical b \<and>
     (ht_logical a < ht_logical b \<or> ht_logical a = ht_logical b \<and> ht_node a < ht_node b)"
  by (simp add: less_hybrid_timestamp_def ht_compare_simps)

lemma u32_lt_Suc: "(a :: u32) \<noteq> - 1 \<Longrightarrow> a < a + 1"
proof -
  assume a: "a \<noteq> - 1"
  have m: "unat (- 1 :: u32) = 2 ^ 32 - 1"
    by (simp add: unsigned_minus_1_eq_mask mask_eq_exp_minus_1)
  have "unat a \<noteq> 2 ^ 32 - 1" using a m by (metis word_unat_eq_iff)
  moreover have "unat a < 2 ^ 32" using unsigned_less [of a] by simp
  ultimately have "unat a + 1 < 2 ^ 32" by simp
  then show ?thesis by (simp add: word_less_nat_alt unat_word_ariths)
qed

lemma hc_tick_increases:
  assumes "hc_logical c \<noteq> - 1"
  shows "hc_stamp c < snd (hc_tick now c)"
  using u32_lt_Suc [OF assms] by (auto simp: hc_tick_def hc_stamp_def less_timestamp Let_def)

lemma hc_receive_increases:
  assumes "hc_logical c \<noteq> - 1" "ht_logical other \<noteq> - 1"
  shows "hc_stamp c < snd (hc_receive now c other)" "other < snd (hc_receive now c other)"
proof -
  have lt: "hc_logical c < hc_logical c + 1" "ht_logical other < ht_logical other + 1"
    using assms by (simp_all add: u32_lt_Suc)
  have "max (hc_logical c) (ht_logical other) \<noteq> - 1" using assms by (simp add: max_def)
  from u32_lt_Suc [OF this]
  have mx: "hc_logical c < max (hc_logical c) (ht_logical other) + 1"
    "ht_logical other < max (hc_logical c) (ht_logical other) + 1"
    by (meson max.cobounded1 max.cobounded2 order_le_less_trans)+
  show "hc_stamp c < snd (hc_receive now c other)" "other < snd (hc_receive now c other)"
    using lt mx by (auto simp: hc_receive_def hc_stamp_def less_timestamp Let_def)
qed

lemma unat_lt_u32: "unat (a :: u32) < 2 ^ 32"
  using unsigned_less [of a] by simp

lemma unat_to_sortable:
  "unat (ht_to_sortable t) = unat (ht_physical t) * 2 ^ 32 + unat (ht_logical t)"
proof -
  let ?p = "ucast (ht_physical t) :: 128 word" and ?l = "ucast (ht_logical t) :: 128 word"
  have up: "unat ?p = unat (ht_physical t)" "unat ?p < 2 ^ 64"
    using unat_lt_u64 [of "ht_physical t"] by (simp_all add: unsigned_ucast_eq take_bit_nat_eq_self)
  have ul: "unat ?l = unat (ht_logical t)" "unat ?l < 2 ^ 32"
    using unat_lt_u32 [of "ht_logical t"] by (simp_all add: unsigned_ucast_eq take_bit_nat_eq_self)
  have "push_bit 32 ?p OR ?l = push_bit 32 ?p + ?l"
    by (rule disjunctive_add_eq_or [symmetric])
       (auto simp: bit_eq_iff bit_simps dest: bit_imp_le_length)
  moreover have sh: "unat (push_bit 32 ?p) = unat ?p * 2 ^ 32"
    using up(2) by (simp add: push_bit_eq_mult unat_word_ariths)
  moreover have "unat (push_bit 32 ?p + ?l) = unat (push_bit 32 ?p) + unat ?l"
    using up(2) ul(2) sh by (simp add: unat_word_ariths)
  ultimately show ?thesis using up ul by (simp add: ht_to_sortable_def)
qed

lemma to_sortable_less:
  "ht_to_sortable a < ht_to_sortable b \<longleftrightarrow>
     ht_physical a < ht_physical b \<or>
     ht_physical a = ht_physical b \<and> ht_logical a < ht_logical b"
proof -
  have l: "unat (ht_logical a) < 2 ^ 32" "unat (ht_logical b) < 2 ^ 32"
    by (rule unat_lt_u32)+
  show ?thesis
    using l by (auto simp: word_less_nat_alt unat_to_sortable word_unat_eq_iff)
qed

section \<open>Dotted version vectors\<close>

definition dv_ok :: "dotted_version_vector \<Rightarrow> bool" where
  "dv_ok d \<longleftrightarrow> vc_ok (dv_base d) \<and> hm_ok (dv_dots d)"

text \<open>What a dotted version vector has seen of a node.\<close>

definition dv_seen :: "dotted_version_vector \<Rightarrow> node_id \<Rightarrow> u64" where
  "dv_seen d n = max (vc_get (dv_base d) n) (hm_get_or (dv_dots d) n 0)"

lemma hm_get_or_pair: "hm_ok m \<Longrightarrow> (n, v) \<in> set m \<Longrightarrow> hm_get_or m n 0 = v"
  by (simp add: hm_get_in_set hm_get_or_def)

lemma list_all_covers:
  assumes "hm_ok m"
  shows "list_all (\<lambda>(node, value). \<not> f node < value) m \<longleftrightarrow>
    (\<forall>n. hm_get_or m n (0 :: u64) \<le> f n)"
proof
  assume all: "list_all (\<lambda>(node, value). \<not> f node < value) m"
  show "\<forall>n. hm_get_or m n 0 \<le> f n"
  proof
    fix n
    show "hm_get_or m n 0 \<le> f n"
      using all hm_get_in_set [OF assms, of n]
      by (cases "hm_get m n") (auto simp: hm_get_or_def list_all_iff not_less)
  qed
next
  assume "\<forall>n. hm_get_or m n 0 \<le> f n"
  then show "list_all (\<lambda>(node, value). \<not> f node < value) m"
    using hm_get_or_pair [OF assms] by (auto simp: list_all_iff not_less)
qed

lemma dominates_iff:
  assumes "dv_ok other"
  shows "dv_dominates d other \<longleftrightarrow> (\<forall>n. dv_seen other n \<le> dv_seen d n)"
proof -
  let ?f = "\<lambda>n. max (hm_get_or (vc_clocks (dv_base d)) n 0) (hm_get_or (dv_dots d) n 0)"
  have "dv_dominates d other \<longleftrightarrow>
      (\<forall>n. hm_get_or (vc_clocks (dv_base other)) n 0 \<le> ?f n) \<and>
      (\<forall>n. hm_get_or (dv_dots other) n 0 \<le> ?f n)"
    using assms list_all_covers [of "vc_clocks (dv_base other)" ?f]
      list_all_covers [of "dv_dots other" ?f]
    by (simp add: dv_dominates_def Let_def dv_ok_def vc_ok_def)
  then show ?thesis by (auto simp: dv_seen_def vc_get_def)
qed

lemma hm_get_or_join_max:
  "hm_ok o' \<Longrightarrow> hm_get_or (hm_join max 0 m o') n (0 :: u64) = max (hm_get_or m n 0) (hm_get_or o' n 0)"
  by (auto simp: hm_get_or_def hm_get_join max_def split: option.splits)

lemma dv_seen_merge:
  assumes "dv_ok other"
  shows "dv_seen (dv_merge d other) n = max (dv_seen d n) (dv_seen other n)"
  using assms
  by (simp add: dv_seen_def dv_merge_def dv_ok_def vc_get_merge hm_get_or_join_max
      max.assoc max.left_commute)

section \<open>Properties\<close>

text \<open>\<^verbatim>\<open>happened_before\<close> is the strict pointwise order of the counters (an absent node counts
  as 0); \<^verbatim>\<open>is_concurrent\<close> says that neither clock is strictly below the other; the merge of two clocks
  is their least upper bound.\<close>

theorem vector_clock_causality:
  assumes "vc_ok a" "vc_ok b" "vc_ok c"
  shows "(vc_happened_before a b \<longleftrightarrow>
      (\<forall>n. vc_get a n \<le> vc_get b n) \<and> (\<exists>n. vc_get a n < vc_get b n)) \<and>
    (vc_is_concurrent a b \<longleftrightarrow> vc_get a = vc_get b \<or>
      (\<exists>n. vc_get a n < vc_get b n) \<and> (\<exists>n. vc_get b n < vc_get a n)) \<and>
    (\<forall>n. vc_get (vc_merge a b) n = max (vc_get a n) (vc_get b n)) \<and>
    ((\<forall>n. vc_get a n \<le> vc_get c n \<and> vc_get b n \<le> vc_get c n) \<longleftrightarrow>
      (\<forall>n. vc_get (vc_merge a b) n \<le> vc_get c n))"
proof -
  have "vc_is_concurrent a b \<longleftrightarrow> vc_get a = vc_get b \<or>
      (\<exists>n. vc_get a n < vc_get b n) \<and> (\<exists>n. vc_get b n < vc_get a n)"
    using assms by (auto simp: vc_is_concurrent_def vc_happened_after_def happened_before_iff
        fun_eq_iff not_le not_less intro: order.antisym dest: leD)
  then show ?thesis using assms by (simp add: happened_before_iff vc_get_merge)
qed

theorem vector_clock_causality_witness:
  "vc_happened_before (vc_with_node ''a'') (vc_increment (vc_with_node ''a'') ''a'')"
proof -
  let ?a = "vc_with_node ''a''" and ?b = "vc_increment (vc_with_node ''a'') ''a''"
  have get: "vc_get ?a n = 0" "vc_get ?b n = (if n = ''a'' then 1 else 0)" for n
    by (simp_all add: vc_get_increment) (simp_all add: vc_get_def vc_with_node_def hm_get_or_def)
  have "vc_ok ?a" "vc_ok ?b" by (simp_all add: vc_ok_ops)
  from vector_clock_causality [THEN conjunct1, OF this vc_ok_ops(1)] show ?thesis
    by (simp add: get)
qed

text \<open>A message orders events.  When a node merges the clock of a message into its own and
  counts the receipt, the new clock is strictly after both the sender's and its own
  previous clock, as long as its counter does not overflow.\<close>

theorem receive_after_send:
  assumes "vc_ok own" "vc_ok msg" "max (vc_get own n) (vc_get msg n) \<noteq> - 1"
  defines "new \<equiv> vc_increment (vc_merge own msg) n"
  shows "vc_happened_before own new \<and> vc_happened_before msg new"
proof -
  have ok: "vc_ok new" using assms by (simp add: new_def vc_ok_ops)
  let ?m = "max (vc_get own n) (vc_get msg n)"
  have lt: "?m < ?m + 1" using assms(3) by (rule u64_lt_Suc)
  have g: "vc_get new k = (if k = n then ?m + 1 else max (vc_get own k) (vc_get msg k))" for k
    using assms(2) by (simp add: new_def vc_get_increment vc_get_merge)
  have up: "vc_get own k \<le> vc_get new k" "vc_get msg k \<le> vc_get new k" for k
    using lt by (auto simp: g)
  have "vc_get own n < vc_get new n" "vc_get msg n < vc_get new n" using lt by (auto simp: g)
  with up show ?thesis using assms(1,2) ok by (auto simp: happened_before_iff)
qed

theorem receive_after_send_witness:
  "vc_happened_before (vc_with_node ''b'') (vc_increment (vc_merge vc_new (vc_with_node ''b'')) ''a'')"
proof -
  have "max (vc_get vc_new ''a'') (vc_get (vc_with_node ''b'') ''a'') \<noteq> - 1"
    by (simp add: vc_get_def vc_new_def vc_with_node_def hm_get_or_def)
  from receive_after_send [OF vc_ok_ops(1) vc_ok_ops(2) this] show ?thesis by blast
qed

text \<open>\<^verbatim>\<open>equals\<close> looks only at the nodes of the left clock, so it is not symmetric, and
  \<^verbatim>\<open>compare\<close>, which asks it first, calls two clocks equal although one happened before
  the other.\<close>

theorem equals_not_symmetric:
  "let a = vc_with_node ''a''; b = vc_set vc_new ''b'' 5 in
   vc_equals a b \<and> \<not> vc_equals b a \<and> vc_happened_before a b \<and>
   vc_compare a b = Equal \<and> vc_compare b a = After"
  by (simp add: vc_equals_def vc_happened_before_def vc_compare_def vc_happened_after_def
      vc_with_node_def vc_set_def vc_new_def hm_get_or_def Let_def)

lemma unat_Suc_u32: "unat (a :: u32) + 1 < 2 ^ 32 \<Longrightarrow> unat (a + 1) = unat a + 1"
  by (simp add: unat_word_ariths)

lemma hc_tick_logical:
  assumes "unat (hc_logical c) + 1 < 2 ^ 32"
  shows "unat (hc_logical (fst (hc_tick now c))) \<le> unat (hc_logical c) + 1"
    and "snd (hc_tick now c) = hc_stamp (fst (hc_tick now c))"
  using unat_Suc_u32 [OF assms] by (auto simp: hc_tick_def Let_def)

text \<open>The timestamps of successive ticks, given the wall-clock readings.\<close>

fun hc_ticks :: "u64 list \<Rightarrow> hybrid_clock \<Rightarrow> hybrid_timestamp list" where
  "hc_ticks [] c = []"
| "hc_ticks (now # nows) c = (case hc_tick now c of (c', t) \<Rightarrow> t # hc_ticks nows c')"

lemma hc_ticks_sorted:
  assumes "unat (hc_logical c) + length nows < 2 ^ 32"
  shows "sorted_wrt (<) (hc_stamp c # hc_ticks nows c)"
  using assms
proof (induction nows arbitrary: c)
  case Nil
  then show ?case by simp
next
  case (Cons now nows)
  obtain c' t where tick: "hc_tick now c = (c', t)" by force
  have room: "unat (hc_logical c) + 1 < 2 ^ 32" using Cons.prems by simp
  then have "unat (hc_logical c') \<le> unat (hc_logical c) + 1" "t = hc_stamp c'"
    using hc_tick_logical [of c now] tick by auto
  moreover have "hc_logical c \<noteq> - 1"
    using room by (auto simp: unsigned_minus_1_eq_mask mask_eq_exp_minus_1)
  then have "hc_stamp c < t" using hc_tick_increases [of c now] tick by simp
  ultimately show ?case
    using Cons.IH [of c'] Cons.prems tick by (auto intro: order.strict_trans)
qed

text \<open>A hybrid clock never goes back.  Whatever the wall clock shows, and even if it runs
  backwards, successive ticks give strictly increasing timestamps, as long as the logical
  part does not overflow.\<close>

theorem hybrid_clock_monotone:
  assumes "unat (hc_logical c) + length nows < 2 ^ 32"
  shows "sorted_wrt (<) (hc_ticks nows c) \<and> (\<forall>t \<in> set (hc_ticks nows c). ht_is_before (hc_stamp c) t)"
  using hc_ticks_sorted [OF assms] by (auto simp: ht_is_before_def less_hybrid_timestamp_def)

theorem hybrid_clock_monotone_witness:
  "sorted_wrt (<) (hc_ticks [5, 3, 9] (hc_new 4 ''a''))"
  using hybrid_clock_monotone [of "hc_new 4 ''a''" "[5, 3, 9]"] by (simp add: hc_new_def)

text \<open>Receiving a timestamp moves a hybrid clock strictly past both its own previous reading
  and the received one (logical parts not at their maximum).\<close>

theorem hybrid_receive_after:
  assumes "hc_logical c \<noteq> - 1" "ht_logical other \<noteq> - 1"
  shows "ht_is_before (hc_stamp c) (snd (hc_receive now c other)) \<and>
    ht_is_before other (snd (hc_receive now c other))"
  using hc_receive_increases [OF assms, of now]
  by (simp add: ht_is_before_def less_hybrid_timestamp_def)

theorem hybrid_receive_after_witness:
  "ht_is_before (HybridTimestamp 9 7 ''b'') (snd (hc_receive 2 (hc_new 4 ''a'') (HybridTimestamp 9 7 ''b'')))"
  using hybrid_receive_after [of "hc_new 4 ''a''" "HybridTimestamp 9 7 ''b''" 2] by (simp add: hc_new_def)

text \<open>The 128-bit sort key of a timestamp is \<open>physical * 2^32 + logical\<close>, without loss, so
  comparing keys compares timestamps up to the tie-break by node.\<close>

theorem sortable_key_order:
  "unat (ht_to_sortable t) = unat (ht_physical t) * 2 ^ 32 + unat (ht_logical t) \<and>
   (ht_is_before s t \<longleftrightarrow> ht_to_sortable s < ht_to_sortable t \<or>
      ht_to_sortable s = ht_to_sortable t \<and> ht_node s < ht_node t)"
proof -
  have eq: "ht_to_sortable s = ht_to_sortable t \<longleftrightarrow>
      ht_physical s = ht_physical t \<and> ht_logical s = ht_logical t"
    using to_sortable_less [of s t] to_sortable_less [of t s]
    by (metis linorder_neq_iff ht_to_sortable_def)
  show ?thesis
    unfolding eq to_sortable_less unat_to_sortable ht_is_before_def ht_compare_simps by auto
qed

text \<open>A dotted version vector dominates another exactly when it has seen at least as much of
  every node; what a merge has seen is the maximum of both; so a merge dominates both parts
  and is dominated by whatever dominates both.\<close>

theorem dotted_dominance:
  assumes "dv_ok d" "dv_ok other" "dv_ok u"
  shows "(dv_dominates d other \<longleftrightarrow> (\<forall>n. dv_seen other n \<le> dv_seen d n)) \<and>
    dv_dominates (dv_merge d other) d \<and> dv_dominates (dv_merge d other) other \<and>
    (dv_dominates u (dv_merge d other) \<longleftrightarrow> dv_dominates u d \<and> dv_dominates u other)"
proof -
  have ok: "dv_ok (dv_merge d other)"
    using assms by (simp add: dv_ok_def dv_merge_def vc_ok_ops hm_ok_join)
  show ?thesis
    using assms ok by (auto simp: dominates_iff dv_seen_merge)
qed

theorem dotted_dominance_witness:
  "dv_dominates (dv_merge dv_new (fst (dv_event dv_new ''a''))) (fst (dv_event dv_new ''a''))"
  using dotted_dominance [of dv_new "fst (dv_event dv_new ''a'')" dv_new]
  by (simp add: dv_ok_def dv_new_def dv_event_def vc_ok_ops hm_ok_def Let_def)

text \<open>Dots are not unique: two events at a node that has not synchronised in between get the
  same dot, and the vector has seen no more after the second.\<close>

theorem event_repeats_dot:
  "let (d1, dot1) = dv_event d n; (d2, dot2) = dv_event d1 n in
   dot2 = dot1 \<and> dv_seen d2 m = dv_seen d1 m"
  by (simp add: dv_event_def dv_seen_def hm_simps Let_def)

end
