(* ===== verification/Crdt.thy ===== *)
theory Crdt
  imports VectorClock RustText "HOL-Library.Product_Lexorder"
begin

text \<open>
  The conflict-free replicated data types of
  \<^verbatim>\<open>crates/aegis-replication/src/crdt.rs\<close>: counters, sets, registers and maps with
  their updates and merges.  A \<^verbatim>\<open>HashSet\<close> is a set.  The interface every state-based
  type should meet is the locale \<open>crdt_state\<close>: merging is commutative, associative and
  idempotent up to what can be observed.  It is interpreted for every type of the module
  for which it holds, and gives convergence: replicas that merged the same states, in any
  order and any number of times, are observably equal.
\<close>

section \<open>Grow-only counter\<close>

record g_counter =
  gc_counts :: "(string, u64) hmap"

definition gc_new :: g_counter where
  "gc_new = \<lparr>gc_counts = []\<rparr>"

definition gc_increment :: "g_counter \<Rightarrow> node_id \<Rightarrow> g_counter" where
  "gc_increment c node = c\<lparr>gc_counts := hm_upsert node 0 (\<lambda>v. v + 1) (gc_counts c)\<rparr>"

definition gc_increment_by :: "g_counter \<Rightarrow> node_id \<Rightarrow> u64 \<Rightarrow> g_counter" where
  "gc_increment_by c node amount = c\<lparr>gc_counts := hm_upsert node 0 (\<lambda>v. v + amount) (gc_counts c)\<rparr>"

definition gc_value :: "g_counter \<Rightarrow> u64" where
  "gc_value c = sum_list (hm_values (gc_counts c))"

definition gc_node_value :: "g_counter \<Rightarrow> node_id \<Rightarrow> u64" where
  "gc_node_value c node = hm_get_or (gc_counts c) node 0"

definition gc_merge :: "g_counter \<Rightarrow> g_counter \<Rightarrow> g_counter" where
  "gc_merge c other = c\<lparr>gc_counts := hm_join max 0 (gc_counts c) (gc_counts other)\<rparr>"

text \<open>The delta form.\<close>

record g_counter_delta =
  gd_node_id :: string
  gd_value :: u64

definition gc_apply_delta :: "g_counter \<Rightarrow> g_counter_delta \<Rightarrow> g_counter" where
  "gc_apply_delta c delta =
     c\<lparr>gc_counts := hm_upsert (gd_node_id delta) 0 (\<lambda>v. max v (gd_value delta)) (gc_counts c)\<rparr>"

definition gc_generate_delta :: "g_counter \<Rightarrow> g_counter_delta option" where
  "gc_generate_delta c = None"

text \<open>\<^verbatim>\<open>CRDT::merged\<close>: merge into a copy.\<close>

definition merged :: "('a \<Rightarrow> 'a \<Rightarrow> 'a) \<Rightarrow> 'a \<Rightarrow> 'a \<Rightarrow> 'a" where
  "merged merge_into c other = (let result = c in merge_into result other)"

section \<open>Positive-negative counter\<close>

record pn_counter =
  pn_positive :: g_counter
  pn_negative :: g_counter

definition pn_new :: pn_counter where
  "pn_new = \<lparr>pn_positive = gc_new, pn_negative = gc_new\<rparr>"

definition pn_increment :: "pn_counter \<Rightarrow> node_id \<Rightarrow> pn_counter" where
  "pn_increment c node = c\<lparr>pn_positive := gc_increment (pn_positive c) node\<rparr>"

definition pn_increment_by :: "pn_counter \<Rightarrow> node_id \<Rightarrow> u64 \<Rightarrow> pn_counter" where
  "pn_increment_by c node amount = c\<lparr>pn_positive := gc_increment_by (pn_positive c) node amount\<rparr>"

definition pn_decrement :: "pn_counter \<Rightarrow> node_id \<Rightarrow> pn_counter" where
  "pn_decrement c node = c\<lparr>pn_negative := gc_increment (pn_negative c) node\<rparr>"

definition pn_decrement_by :: "pn_counter \<Rightarrow> node_id \<Rightarrow> u64 \<Rightarrow> pn_counter" where
  "pn_decrement_by c node amount = c\<lparr>pn_negative := gc_increment_by (pn_negative c) node amount\<rparr>"

text \<open>The casts to \<^verbatim>\<open>i64\<close> reinterpret the bits; the subtraction wraps.\<close>

definition pn_value :: "pn_counter \<Rightarrow> int" where
  "pn_value c = sint (gc_value (pn_positive c) - gc_value (pn_negative c))"

definition pn_merge :: "pn_counter \<Rightarrow> pn_counter \<Rightarrow> pn_counter" where
  "pn_merge c other =
     c\<lparr>pn_positive := gc_merge (pn_positive c) (pn_positive other),
       pn_negative := gc_merge (pn_negative c) (pn_negative other)\<rparr>"

section \<open>Grow-only and two-phase sets\<close>

record 'a g_set =
  gs_elements :: "'a set"

definition gs_new :: "'a g_set" where
  "gs_new = \<lparr>gs_elements = {}\<rparr>"

definition gs_add :: "'a g_set \<Rightarrow> 'a \<Rightarrow> 'a g_set" where
  "gs_add s x = s\<lparr>gs_elements := insert x (gs_elements s)\<rparr>"

definition gs_contains :: "'a g_set \<Rightarrow> 'a \<Rightarrow> bool" where
  "gs_contains s x \<longleftrightarrow> x \<in> gs_elements s"

definition gs_len :: "'a g_set \<Rightarrow> nat" where
  "gs_len s = card (gs_elements s)"

definition gs_is_empty :: "'a g_set \<Rightarrow> bool" where
  "gs_is_empty s \<longleftrightarrow> gs_elements s = {}"

definition gs_merge :: "'a g_set \<Rightarrow> 'a g_set \<Rightarrow> 'a g_set" where
  "gs_merge s other = s\<lparr>gs_elements := gs_elements s \<union> gs_elements other\<rparr>"

record 'a two_p_set =
  tp_added :: "'a set"
  tp_removed :: "'a set"

definition tp_new :: "'a two_p_set" where
  "tp_new = \<lparr>tp_added = {}, tp_removed = {}\<rparr>"

definition tp_add :: "'a two_p_set \<Rightarrow> 'a \<Rightarrow> 'a two_p_set" where
  "tp_add s x = (if x \<notin> tp_removed s then s\<lparr>tp_added := insert x (tp_added s)\<rparr> else s)"

definition tp_remove :: "'a two_p_set \<Rightarrow> 'a \<Rightarrow> 'a two_p_set" where
  "tp_remove s x = (if x \<in> tp_added s then s\<lparr>tp_removed := insert x (tp_removed s)\<rparr> else s)"

definition tp_contains :: "'a two_p_set \<Rightarrow> 'a \<Rightarrow> bool" where
  "tp_contains s x \<longleftrightarrow> x \<in> tp_added s \<and> x \<notin> tp_removed s"

definition tp_elements :: "'a two_p_set \<Rightarrow> 'a set" where
  "tp_elements s = tp_added s - tp_removed s"

definition tp_len :: "'a two_p_set \<Rightarrow> nat" where
  "tp_len s = card (tp_elements s)"

definition tp_is_empty :: "'a two_p_set \<Rightarrow> bool" where
  "tp_is_empty s \<longleftrightarrow> tp_elements s = {}"

definition tp_merge :: "'a two_p_set \<Rightarrow> 'a two_p_set \<Rightarrow> 'a two_p_set" where
  "tp_merge s other =
     s\<lparr>tp_added := tp_added s \<union> tp_added other, tp_removed := tp_removed s \<union> tp_removed other\<rparr>"

section \<open>Last-writer-wins register\<close>

record 'a lww_register =
  lw_value :: "'a option"
  lw_timestamp :: u64
  lw_node_id :: string

definition lw_new :: "'a lww_register" where
  "lw_new = \<lparr>lw_value = None, lw_timestamp = 0, lw_node_id = ''''\<rparr>"

definition lw_with_value :: "u64 \<Rightarrow> 'a \<Rightarrow> node_id \<Rightarrow> 'a lww_register" where
  "lw_with_value now value node = \<lparr>lw_value = Some value, lw_timestamp = now, lw_node_id = node\<rparr>"

definition lw_set_with_timestamp :: "'a lww_register \<Rightarrow> 'a \<Rightarrow> u64 \<Rightarrow> node_id \<Rightarrow> 'a lww_register" where
  "lw_set_with_timestamp r value timestamp node =
     (if timestamp > lw_timestamp r \<or> (timestamp = lw_timestamp r \<and> node > lw_node_id r)
      then \<lparr>lw_value = Some value, lw_timestamp = timestamp, lw_node_id = node\<rparr>
      else r)"

definition lw_set :: "u64 \<Rightarrow> 'a lww_register \<Rightarrow> 'a \<Rightarrow> node_id \<Rightarrow> 'a lww_register" where
  "lw_set now r value node =
     (let ts = now
      in if ts > lw_timestamp r \<or> (ts = lw_timestamp r \<and> node > lw_node_id r)
         then \<lparr>lw_value = Some value, lw_timestamp = ts, lw_node_id = node\<rparr>
         else r)"

definition lw_is_set :: "'a lww_register \<Rightarrow> bool" where
  "lw_is_set r \<longleftrightarrow> lw_value r \<noteq> None"

definition lw_merge :: "'a lww_register \<Rightarrow> 'a lww_register \<Rightarrow> 'a lww_register" where
  "lw_merge r other =
     (if lw_timestamp other > lw_timestamp r \<or>
         (lw_timestamp other = lw_timestamp r \<and> lw_node_id other > lw_node_id r)
      then r\<lparr>lw_value := lw_value other, lw_timestamp := lw_timestamp other,
             lw_node_id := lw_node_id other\<rparr>
      else r)"

section \<open>Multi-value register\<close>

record 'a mv_register =
  mv_values :: "('a, vector_clock) hmap"

definition mv_new :: "'a mv_register" where
  "mv_new = \<lparr>mv_values = []\<rparr>"

definition mv_set :: "'a mv_register \<Rightarrow> 'a \<Rightarrow> vector_clock \<Rightarrow> 'a mv_register" where
  "mv_set r value clock =
     (let kept = filter (\<lambda>(_, v). \<not> vc_happened_before v clock) (mv_values r);
          dominated = list_ex (\<lambda>v. vc_happened_before clock v) (hm_values kept)
      in r\<lparr>mv_values := if \<not> dominated then hm_insert value clock kept else kept\<rparr>)"

definition mv_get :: "'a mv_register \<Rightarrow> 'a list" where
  "mv_get r = hm_keys (mv_values r)"

definition mv_get_with_clocks :: "'a mv_register \<Rightarrow> ('a \<times> vector_clock) list" where
  "mv_get_with_clocks r = mv_values r"

definition mv_has_conflict :: "'a mv_register \<Rightarrow> bool" where
  "mv_has_conflict r \<longleftrightarrow> hm_len (mv_values r) > 1"

definition mv_value_count :: "'a mv_register \<Rightarrow> nat" where
  "mv_value_count r = hm_len (mv_values r)"

definition mv_merge :: "'a mv_register \<Rightarrow> 'a mv_register \<Rightarrow> 'a mv_register" where
  "mv_merge r other = foldl (\<lambda>acc (value, clock). mv_set acc value clock) r (mv_values other)"

section \<open>Observed-remove set\<close>

datatype unique_tag = UniqueTag (tag_node: string) (tag_counter: u64)

record 'a or_set =
  or_elements :: "('a, unique_tag set) hmap"
  or_counters :: "(string, u64) hmap"

definition or_new :: "'a or_set" where
  "or_new = \<lparr>or_elements = [], or_counters = []\<rparr>"

definition or_add :: "'a or_set \<Rightarrow> 'a \<Rightarrow> node_id \<Rightarrow> 'a or_set" where
  "or_add s x node =
     (let counters = hm_upsert node 0 (\<lambda>c. c + 1) (or_counters s);
          tag = UniqueTag node (hm_get_or counters node 0)
      in \<lparr>or_elements = hm_upsert x {} (insert tag) (or_elements s), or_counters = counters\<rparr>)"

definition or_remove :: "'a or_set \<Rightarrow> 'a \<Rightarrow> 'a or_set" where
  "or_remove s x = s\<lparr>or_elements := hm_remove x (or_elements s)\<rparr>"

definition or_contains :: "'a or_set \<Rightarrow> 'a \<Rightarrow> bool" where
  "or_contains s x = (case hm_get (or_elements s) x of None \<Rightarrow> False | Some tags \<Rightarrow> tags \<noteq> {})"

definition or_elems :: "'a or_set \<Rightarrow> 'a list" where
  "or_elems s = map fst (filter (\<lambda>(_, tags). tags \<noteq> {}) (or_elements s))"

definition or_len :: "'a or_set \<Rightarrow> nat" where
  "or_len s = length (filter (\<lambda>(_, tags). tags \<noteq> {}) (or_elements s))"

definition or_is_empty :: "'a or_set \<Rightarrow> bool" where
  "or_is_empty s \<longleftrightarrow> or_len s = 0"

definition or_merge :: "'a or_set \<Rightarrow> 'a or_set \<Rightarrow> 'a or_set" where
  "or_merge s other =
     s\<lparr>or_elements := hm_join (\<union>) {} (or_elements s) (or_elements other),
       or_counters := hm_join max 0 (or_counters s) (or_counters other)\<rparr>"

section \<open>Last-writer-wins map\<close>

record ('k, 'a) lww_map =
  lm_entries :: "('k, 'a lww_register) hmap"

definition lm_new :: "('k, 'a) lww_map" where
  "lm_new = \<lparr>lm_entries = []\<rparr>"

definition lm_set :: "u64 \<Rightarrow> ('k, 'a) lww_map \<Rightarrow> 'k \<Rightarrow> 'a \<Rightarrow> node_id \<Rightarrow> ('k, 'a) lww_map" where
  "lm_set now m key value node =
     m\<lparr>lm_entries := hm_upsert key lw_new (\<lambda>r. lw_set now r value node) (lm_entries m)\<rparr>"

definition lm_get :: "('k, 'a) lww_map \<Rightarrow> 'k \<Rightarrow> 'a option" where
  "lm_get m key = Option.bind (hm_get (lm_entries m) key) lw_value"

definition lm_remove :: "('k, 'a) lww_map \<Rightarrow> 'k \<Rightarrow> ('k, 'a) lww_map" where
  "lm_remove m key = m\<lparr>lm_entries := hm_remove key (lm_entries m)\<rparr>"

definition lm_keys :: "('k, 'a) lww_map \<Rightarrow> 'k list" where
  "lm_keys m = map fst (filter (\<lambda>(_, v). lw_is_set v) (lm_entries m))"

definition lm_len :: "('k, 'a) lww_map \<Rightarrow> nat" where
  "lm_len m = length (filter (\<lambda>(_, v). lw_is_set v) (lm_entries m))"

definition lm_is_empty :: "('k, 'a) lww_map \<Rightarrow> bool" where
  "lm_is_empty m \<longleftrightarrow> lm_len m = 0"

definition lm_merge :: "('k, 'a) lww_map \<Rightarrow> ('k, 'a) lww_map \<Rightarrow> ('k, 'a) lww_map" where
  "lm_merge m other = m\<lparr>lm_entries := hm_join lw_merge lw_new (lm_entries m) (lm_entries other)\<rparr>"

section \<open>The interface of a state-based replicated type\<close>

locale crdt_state =
  fixes inv :: "'s \<Rightarrow> bool" and merge :: "'s \<Rightarrow> 's \<Rightarrow> 's" and obs :: "'s \<Rightarrow> 'o"
  assumes inv_merge: "inv a \<Longrightarrow> inv b \<Longrightarrow> inv (merge a b)"
    and merge_comm: "inv a \<Longrightarrow> inv b \<Longrightarrow> obs (merge a b) = obs (merge b a)"
    and merge_assoc: "inv a \<Longrightarrow> inv b \<Longrightarrow> inv c \<Longrightarrow>
      obs (merge (merge a b) c) = obs (merge a (merge b c))"
    and merge_idem: "inv a \<Longrightarrow> obs (merge a a) = obs a"
    and merge_cong: "inv a \<Longrightarrow> inv b \<Longrightarrow> inv a' \<Longrightarrow> inv b' \<Longrightarrow> obs a = obs a' \<Longrightarrow>
      obs b = obs b' \<Longrightarrow> obs (merge a b) = obs (merge a' b')"
begin

text \<open>One state knows at least as much as another when merging the latter changes nothing.\<close>

definition below :: "'s \<Rightarrow> 's \<Rightarrow> bool" where
  "below a b \<longleftrightarrow> obs (merge a b) = obs b"

lemma below_refl: "inv a \<Longrightarrow> below a a"
  by (simp add: below_def merge_idem)

lemma below_antisym: "inv a \<Longrightarrow> inv b \<Longrightarrow> below a b \<Longrightarrow> below b a \<Longrightarrow> obs a = obs b"
  using merge_comm by (simp add: below_def)

lemma below_trans:
  assumes "inv a" "inv b" "inv c" "below a b" "below b c"
  shows "below a c"
proof -
  have "obs (merge a c) = obs (merge a (merge b c))"
    using assms by (intro merge_cong) (auto simp: below_def inv_merge)
  also have "\<dots> = obs (merge (merge a b) c)"
    using assms by (simp add: merge_assoc)
  also have "\<dots> = obs (merge b c)"
    using assms by (intro merge_cong) (auto simp: below_def inv_merge)
  finally show ?thesis using assms(5) by (simp add: below_def)
qed

lemma below_merge1:
  assumes "inv a" "inv b"
  shows "below a (merge a b)"
proof -
  have "obs (merge a (merge a b)) = obs (merge (merge a a) b)"
    using assms by (simp add: merge_assoc)
  also have "\<dots> = obs (merge a b)"
    using assms by (intro merge_cong) (auto simp: inv_merge merge_idem)
  finally show ?thesis by (simp add: below_def)
qed

lemma below_merge2:
  assumes "inv a" "inv b"
  shows "below b (merge a b)"
proof -
  have "obs (merge b (merge a b)) = obs (merge b (merge b a))"
    using assms by (intro merge_cong [OF _ _ _ _ refl]) (simp_all add: inv_merge merge_comm [of a b])
  also have "\<dots> = obs (merge b a)"
    using assms below_merge1 [of b a] by (simp add: below_def)
  also have "\<dots> = obs (merge a b)" using assms by (simp add: merge_comm)
  finally show ?thesis by (simp add: below_def)
qed

lemma merge_least:
  assumes "inv a" "inv b" "inv c" "below a c" "below b c"
  shows "below (merge a b) c"
proof -
  have "obs (merge (merge a b) c) = obs (merge a (merge b c))"
    using assms by (simp add: merge_assoc)
  also have "\<dots> = obs (merge a c)"
    using assms by (intro merge_cong) (auto simp: below_def inv_merge)
  finally show ?thesis using assms(4) by (simp add: below_def)
qed

definition merge_all :: "'s \<Rightarrow> 's list \<Rightarrow> 's" where
  "merge_all a xs = foldl merge a xs"

lemma inv_merge_all: "inv a \<Longrightarrow> \<forall>x \<in> set xs. inv x \<Longrightarrow> inv (merge_all a xs)"
  unfolding merge_all_def by (induction xs arbitrary: a) (auto intro: inv_merge)

lemma below_merge_all:
  assumes "inv a" "\<forall>x \<in> set xs. inv x" "y \<in> set (a # xs)"
  shows "below y (merge_all a xs)"
  using assms
proof (induction xs arbitrary: a y)
  case Nil
  then show ?case by (simp add: merge_all_def below_refl)
next
  case (Cons x xs)
  have ax: "inv (merge a x)" using Cons.prems by (simp add: inv_merge)
  have m: "merge_all a (x # xs) = merge_all (merge a x) xs" by (simp add: merge_all_def)
  have top: "below (merge a x) (merge_all (merge a x) xs)"
    using Cons.IH [OF ax] Cons.prems by simp
  show ?case
  proof (cases "y \<in> set xs")
    case True
    then show ?thesis using Cons.IH [OF ax, of y] Cons.prems by (simp add: m)
  next
    case False
    with Cons.prems have y: "y = a \<or> y = x" and iy: "inv y" by auto
    then have "below y (merge a x)" using Cons.prems below_merge1 below_merge2 by auto
    then show ?thesis
      unfolding m using below_trans [OF iy ax _ _ top] inv_merge_all [OF ax] Cons.prems by simp
  qed
qed

lemma merge_all_least:
  assumes "inv a" "\<forall>x \<in> set xs. inv x" "inv c" "\<forall>y \<in> set (a # xs). below y c"
  shows "below (merge_all a xs) c"
  using assms
proof (induction xs arbitrary: a)
  case Nil
  then show ?case by (simp add: merge_all_def)
next
  case (Cons x xs)
  then have "below (merge a x) c" "inv (merge a x)" by (auto intro: merge_least inv_merge)
  then show ?case using Cons.IH [of "merge a x"] Cons.prems by (simp add: merge_all_def)
qed

lemma convergence:
  assumes "inv a" "\<forall>x \<in> set xs. inv x" "inv b" "\<forall>x \<in> set ys. inv x"
    and same: "set (a # xs) = set (b # ys)"
  shows "obs (merge_all a xs) = obs (merge_all b ys)"
proof (rule below_antisym)
  show i: "inv (merge_all a xs)" "inv (merge_all b ys)"
    using assms by (auto intro: inv_merge_all)
  show "below (merge_all a xs) (merge_all b ys)"
    using assms i same by (intro merge_all_least) (auto intro: below_merge_all)
  show "below (merge_all b ys) (merge_all a xs)"
    using assms i same by (intro merge_all_least) (auto intro: below_merge_all)
qed

end

section \<open>Interpretations: counters and sets\<close>

definition gc_ok :: "g_counter \<Rightarrow> bool" where
  "gc_ok c \<longleftrightarrow> hm_ok (gc_counts c)"

definition gc_view :: "g_counter \<Rightarrow> string \<Rightarrow> u64 option" where
  "gc_view c = hm_get (gc_counts c)"

lemma max_ok_map: "max_join.ok_map m \<longleftrightarrow> hm_ok m"
  by (simp add: max_join.ok_map_def)

lemma union_ok_map: "union_join.ok_map m \<longleftrightarrow> hm_ok m"
  by (simp add: union_join.ok_map_def)

interpretation gcounter: crdt_state gc_ok gc_merge gc_view
  by unfold_locales
     (auto simp: gc_ok_def gc_merge_def gc_view_def max_ok_map hm_ok_join
       intro: max_join.merge_map_comm max_join.merge_map_assoc max_join.merge_map_idem
         max_join.merge_map_cong)

definition pn_ok :: "pn_counter \<Rightarrow> bool" where
  "pn_ok c \<longleftrightarrow> gc_ok (pn_positive c) \<and> gc_ok (pn_negative c)"

definition pn_view :: "pn_counter \<Rightarrow> (string \<Rightarrow> u64 option) \<times> (string \<Rightarrow> u64 option)" where
  "pn_view c = (gc_view (pn_positive c), gc_view (pn_negative c))"

interpretation pncounter: crdt_state pn_ok pn_merge pn_view
  by unfold_locales
     (auto simp: pn_ok_def pn_view_def pn_merge_def
       intro: gcounter.inv_merge gcounter.merge_comm gcounter.merge_assoc gcounter.merge_idem
         gcounter.merge_cong)

interpretation gset: crdt_state "\<lambda>_. True" gs_merge gs_elements
  by unfold_locales (auto simp: gs_merge_def)

definition tp_ok :: "'a two_p_set \<Rightarrow> bool" where
  "tp_ok s \<longleftrightarrow> tp_removed s \<subseteq> tp_added s"

definition tp_view :: "'a two_p_set \<Rightarrow> 'a set \<times> 'a set" where
  "tp_view s = (tp_added s, tp_removed s)"

interpretation tpset: crdt_state tp_ok tp_merge tp_view
  by unfold_locales (auto simp: tp_merge_def tp_ok_def tp_view_def)

definition or_ok :: "'a or_set \<Rightarrow> bool" where
  "or_ok s \<longleftrightarrow> hm_ok (or_elements s) \<and> hm_ok (or_counters s)"

definition or_view :: "'a or_set \<Rightarrow> ('a \<Rightarrow> unique_tag set option) \<times> (string \<Rightarrow> u64 option)" where
  "or_view s = (hm_get (or_elements s), hm_get (or_counters s))"

interpretation orset: crdt_state or_ok or_merge or_view
  by unfold_locales
     (auto simp: or_ok_def or_merge_def or_view_def max_ok_map union_ok_map hm_ok_join
       intro: max_join.merge_map_comm max_join.merge_map_assoc max_join.merge_map_idem
         max_join.merge_map_cong union_join.merge_map_comm union_join.merge_map_assoc
         union_join.merge_map_idem union_join.merge_map_cong)

section \<open>Interpretations: last-writer-wins types\<close>

text \<open>
  A write is identified by its timestamp and its node; \<open>writes\<close> says which value each write
  stored.  Registers of one cluster agree on it unless one node writes twice in a nanosecond.
\<close>

definition lw_of :: "(u64 \<Rightarrow> string \<Rightarrow> 'a) \<Rightarrow> 'a lww_register \<Rightarrow> bool" where
  "lw_of writes r \<longleftrightarrow>
     lw_value r = (if lw_timestamp r = 0 \<and> lw_node_id r = '''' then None
                   else Some (writes (lw_timestamp r) (lw_node_id r)))"

definition lw_key :: "'a lww_register \<Rightarrow> u64 \<times> string" where
  "lw_key r = (lw_timestamp r, lw_node_id r)"

lemma lw_eqI: "lw_of w r \<Longrightarrow> lw_of w s \<Longrightarrow> lw_key r = lw_key s \<Longrightarrow> r = (s :: 'a lww_register)"
  by (simp add: lw_of_def lw_key_def)

lemma lw_merge_key: "lw_merge r s = (if lw_key r < lw_key s then s else r)"
  for s :: "'a lww_register"
  by (auto simp: lw_merge_def lw_key_def)

lemma lw_key_new: "lw_key lw_new \<le> k"
  by (cases k) (auto simp: lw_key_def lw_new_def less_eq_prod_def)

lemma lw_join_laws:
  fixes a b c :: "'a lww_register"
  assumes "lw_of w a" "lw_of w b"
  shows "lw_of w (lw_merge a b)" "lw_merge a b = lw_merge b a" "lw_merge a a = a"
    "lw_merge lw_new a = a" "lw_merge (lw_merge a b) c = lw_merge a (lw_merge b c)"
proof -
  show "lw_of w (lw_merge a b)" using assms by (simp add: lw_merge_key)
  show "lw_merge a b = lw_merge b a"
    using lw_eqI [OF assms] by (auto simp: lw_merge_key)
  show "lw_merge a a = a" by (simp add: lw_merge_key)
  have "lw_of w lw_new" by (simp add: lw_of_def lw_new_def)
  then show "lw_merge lw_new a = a"
    using lw_key_new [of "lw_key a"] lw_eqI [OF _ assms(1), of lw_new]
    by (auto simp: lw_merge_key order_le_less)
  show "lw_merge (lw_merge a b) c = lw_merge a (lw_merge b c)"
    by (auto simp: lw_merge_key)
qed

interpretation lww_join: join_op "\<lambda>k. lw_of (writes k)" lw_merge lw_new for writes
  by unfold_locales
     (auto simp: lw_join_laws intro: lw_join_laws(2,5), simp add: lw_of_def lw_new_def)

interpretation lwwreg: crdt_state "lw_of writes" lw_merge "\<lambda>r. r" for writes
  by unfold_locales (auto simp: lw_join_laws intro: lw_join_laws(2,5))

definition lm_ok :: "('k \<Rightarrow> u64 \<Rightarrow> string \<Rightarrow> 'a) \<Rightarrow> ('k, 'a) lww_map \<Rightarrow> bool" where
  "lm_ok writes m \<longleftrightarrow>
     hm_ok (lm_entries m) \<and> (\<forall>k r. hm_get (lm_entries m) k = Some r \<longrightarrow> lw_of (writes k) r)"

definition lm_view :: "('k, 'a) lww_map \<Rightarrow> 'k \<Rightarrow> 'a lww_register option" where
  "lm_view m = hm_get (lm_entries m)"

lemma lww_ok_map: "lww_join.ok_map writes (lm_entries m) \<longleftrightarrow> lm_ok writes m"
  by (simp add: lww_join.ok_map_def lm_ok_def)

lemma lm_entries_merge: "lm_entries (lm_merge m n) = hm_join lw_merge lw_new (lm_entries m) (lm_entries n)"
  by (simp add: lm_merge_def)

interpretation lwwmap: crdt_state "lm_ok writes" lm_merge lm_view for writes
  unfolding lww_ok_map [symmetric]
  by unfold_locales
     (auto simp: lm_view_def lm_entries_merge
       intro: lww_join.ok_map_merge lww_join.merge_map_comm lww_join.merge_map_assoc
         lww_join.merge_map_idem lww_join.merge_map_cong)

section \<open>Interpretation: multi-value register\<close>

text \<open>
  Values compared by the clocks \<open>clock_of\<close> they were written with; a register of a cluster
  in which each value is written once stores every value under its clock.
\<close>

interpretation valueclock: causality
  "\<lambda>v. vc_ok (clock_of v)" "\<lambda>a b. vc_happened_before (clock_of a) (clock_of b)" for clock_of
  by unfold_locales (auto simp: vclock.irrefl intro: vclock.trans)

definition mv_keys :: "'a mv_register \<Rightarrow> 'a set" where
  "mv_keys r = set (mv_get r)"

definition mv_of :: "('a \<Rightarrow> vector_clock) \<Rightarrow> 'a mv_register \<Rightarrow> bool" where
  "mv_of clock_of r \<longleftrightarrow>
     hm_ok (mv_values r) \<and> (\<forall>(v, c) \<in> set (mv_values r). c = clock_of v \<and> vc_ok c)"

definition mv_ok :: "('a \<Rightarrow> vector_clock) \<Rightarrow> 'a mv_register \<Rightarrow> bool" where
  "mv_ok clock_of r \<longleftrightarrow> mv_of clock_of r \<and> valueclock.antichain clock_of (mv_keys r)"

lemma mv_of_keys: "mv_of w r \<Longrightarrow> v \<in> mv_keys r \<Longrightarrow> vc_ok (w v)"
  by (auto simp: mv_of_def mv_keys_def mv_get_def)

lemma set_hm_insert: "hm_ok m \<Longrightarrow> set (hm_insert k v m) \<subseteq> insert (k, v) (set m)"
  by (induction m) (auto simp: hm_ok_Cons)

lemma mv_of_set:
  assumes "mv_of w r" "vc_ok (w v)"
  shows "mv_of w (mv_set r v (w v))"
proof -
  let ?kept = "filter (\<lambda>(_, c). \<not> vc_happened_before c (w v)) (mv_values r)"
  have k: "hm_ok ?kept" using assms by (auto simp: mv_of_def intro: hm_intros)
  then show ?thesis
    using assms set_hm_insert [OF k, of v "w v"]
    by (fastforce simp: mv_set_def mv_of_def Let_def intro: hm_intros)
qed

lemma mv_keys_set:
  fixes v
  assumes "mv_of w r"
  defines "K \<equiv> {a \<in> mv_keys r. \<not> vc_happened_before (w a) (w v)}"
  shows "mv_keys (mv_set r v (w v)) =
    (if \<exists>a \<in> K. vc_happened_before (w v) (w a) then K else insert v K)"
proof -
  let ?kept = "filter (\<lambda>(_, c). \<not> vc_happened_before c (w v)) (mv_values r)"
  have keys: "fst ` set ?kept = K"
    using assms(1) by (force simp: K_def mv_keys_def mv_get_def mv_of_def)
  have dom: "list_ex (\<lambda>c. vc_happened_before (w v) c) (hm_values ?kept) \<longleftrightarrow>
      (\<exists>a \<in> K. vc_happened_before (w v) (w a))"
    using assms(1) unfolding keys [symmetric] by (fastforce simp: list_ex_iff mv_of_def)
  show ?thesis
    using keys dom by (simp add: mv_keys_def mv_get_def mv_set_def Let_def dom_update
        del: set_filter)
qed

lemma mv_ok_set:
  assumes "mv_ok w r" "vc_ok (w v)"
  shows "mv_ok w (mv_set r v (w v))"
    and "mv_keys (mv_set r v (w v)) = valueclock.maxima w (mv_keys r \<union> {v})"
proof -
  have r: "mv_of w r" "valueclock.antichain w (mv_keys r)" using assms by (auto simp: mv_ok_def)
  show keys: "mv_keys (mv_set r v (w v)) = valueclock.maxima w (mv_keys r \<union> {v})"
    unfolding mv_keys_set [OF r(1)]
    using valueclock.supersede_maxima [OF r(2)] mv_of_keys [OF r(1)] assms(2) by simp
  show "mv_ok w (mv_set r v (w v))"
    using mv_of_set [OF r(1) assms(2)] by (simp add: mv_ok_def keys valueclock.antichain_maxima)
qed

lemma finite_mv_keys: "finite (mv_keys r)"
  by (simp add: mv_keys_def)

lemma mv_foldl:
  assumes "mv_ok w r" "\<forall>(v, c) \<in> set xs. c = w v \<and> vc_ok c"
  shows "mv_ok w (foldl (\<lambda>acc (v, c). mv_set acc v c) r xs) \<and>
    mv_keys (foldl (\<lambda>acc (v, c). mv_set acc v c) r xs) =
      valueclock.maxima w (mv_keys r \<union> fst ` set xs)"
  using assms
proof (induction xs arbitrary: r)
  case Nil
  then show ?case by (simp add: mv_ok_def valueclock.maxima_antichain)
next
  case (Cons x xs)
  obtain v where x: "x = (v, w v)" and v: "vc_ok (w v)" using Cons.prems by (cases x) auto
  note s = mv_ok_set [OF Cons.prems(1) v]
  have ok: "\<forall>y \<in> (mv_keys r \<union> {v}) \<union> fst ` set xs. vc_ok (w y)"
    using Cons.prems v mv_of_keys [of w r] by (auto simp: mv_ok_def)
  have "mv_keys (foldl (\<lambda>acc (v, c). mv_set acc v c) (mv_set r v (w v)) xs) =
      valueclock.maxima w ((mv_keys r \<union> {v}) \<union> fst ` set xs)"
    using Cons.IH [OF s(1)] Cons.prems valueclock.maxima_absorb [OF _ ok]
    by (simp add: s(2) finite_mv_keys)
  then show ?case using Cons.IH [OF s(1)] Cons.prems by (simp add: x Un_insert_left Un_insert_right)
qed

lemma mv_merge_keys:
  assumes "mv_ok w r" "mv_ok w s"
  shows "mv_ok w (mv_merge r s)"
    and "mv_keys (mv_merge r s) = valueclock.maxima w (mv_keys r \<union> mv_keys s)"
proof -
  have "\<forall>(v, c) \<in> set (mv_values s). c = w v \<and> vc_ok c"
    using assms(2) by (simp add: mv_ok_def mv_of_def)
  from mv_foldl [OF assms(1) this]
  show "mv_ok w (mv_merge r s)"
    "mv_keys (mv_merge r s) = valueclock.maxima w (mv_keys r \<union> mv_keys s)"
    by (simp_all add: mv_merge_def mv_keys_def [of s] mv_get_def)
qed

interpretation mvreg: crdt_state "mv_ok clock_of" mv_merge mv_keys for clock_of
proof (unfold_locales, goal_cases)
  case (1 a b)
  then show ?case by (rule mv_merge_keys)
next
  case (2 a b)
  then show ?case by (simp add: mv_merge_keys Un_commute)
next
  case (3 a b c)
  note abs = valueclock.maxima_absorb [of "mv_keys a \<union> mv_keys b" "mv_keys c" clock_of]
    valueclock.maxima_absorb [of "mv_keys b \<union> mv_keys c" "mv_keys a" clock_of]
  have "\<forall>x \<in> mv_keys a \<union> mv_keys b \<union> mv_keys c. vc_ok (clock_of x)"
    using 3 by (auto simp: mv_ok_def intro: mv_of_keys)
  with 3 abs show ?case
    by (simp add: mv_merge_keys [where w = clock_of] finite_mv_keys Un_ac)
next
  case (4 a)
  then show ?case by (simp add: mv_merge_keys mv_ok_def valueclock.maxima_antichain)
next
  case (5 a b a' b')
  then show ?case by (simp add: mv_merge_keys)
qed

section \<open>Properties\<close>

lemma gc_value_view: "gc_ok c \<Longrightarrow> gc_value c = (\<Sum>k \<in> dom (gc_view c). the (gc_view c k))"
  by (simp add: gc_value_def gc_view_def gc_ok_def hm_sum_values)

lemma gc_ok_increment: "gc_ok c \<Longrightarrow> gc_ok (gc_increment c n)"
  by (simp add: gc_ok_def gc_increment_def hm_ok_upsert)

lemma gc_ok_new: "gc_ok gc_new"
  by (simp add: gc_ok_def gc_new_def)

lemma sum_list_insert:
  fixes m :: "('k, u64) hmap"
  shows "sum_list (hm_values (hm_insert k v m)) = sum_list (hm_values m) - hm_get_or m k 0 + v"
  by (induction m) (auto simp: hm_get_or_def)

lemma gc_value_increment: "gc_value (gc_increment c n) = gc_value c + 1"
  by (simp add: gc_value_def gc_increment_def hm_upsert_def sum_list_insert)

lemma gc_value_increments: "gc_value (foldl gc_increment c ns) = gc_value c + of_nat (length ns)"
  by (induction ns arbitrary: c) (simp_all add: gc_value_increment)

text \<open>Grow-only counters converge.  Replicas that merged the same set of states, in any order
  and with any repetitions, agree on every node's count and on the total.\<close>

theorem gcounter_convergence:
  assumes "gc_ok a" "\<forall>x \<in> set xs. gc_ok x" "gc_ok b" "\<forall>x \<in> set ys. gc_ok x"
    and "set (a # xs) = set (b # ys)"
  shows "gc_node_value (foldl gc_merge a xs) n = gc_node_value (foldl gc_merge b ys) n \<and>
    gc_value (foldl gc_merge a xs) = gc_value (foldl gc_merge b ys)"
proof -
  have v: "gc_view (foldl gc_merge a xs) = gc_view (foldl gc_merge b ys)"
    using gcounter.convergence [OF assms] by (simp add: gcounter.merge_all_def)
  have "gc_ok (foldl gc_merge a xs)" "gc_ok (foldl gc_merge b ys)"
    using gcounter.inv_merge_all assms(1-4) by (simp_all add: gcounter.merge_all_def)
  with v show ?thesis
    by (simp add: gc_value_view gc_node_value_def gc_view_def hm_get_or_def)
qed

theorem gcounter_convergence_witness:
  "let a = gc_increment gc_new ''a''; b = gc_increment_by gc_new ''b'' 4 in
   gc_value (foldl gc_merge a [b, a]) = gc_value (foldl gc_merge b [a])"
  using gcounter_convergence [of "gc_increment gc_new ''a''"
      "[gc_increment_by gc_new ''b'' 4, gc_increment gc_new ''a'']"
      "gc_increment_by gc_new ''b'' 4" "[gc_increment gc_new ''a'']"]
  by (simp add: Let_def gc_ok_def gc_increment_def gc_increment_by_def gc_new_def hm_intros
      insert_commute)

text \<open>A counter that was incremented and decremented shows the difference as a signed number,
  as long as both totals stay below \<open>2^63\<close>.\<close>

theorem pn_counter_counts:
  assumes "length ps < 2 ^ 63" "length ns < 2 ^ 63"
  defines "c \<equiv> foldl pn_decrement (foldl pn_increment pn_new ps) ns"
  shows "pn_value c = int (length ps) - int (length ns)"
proof -
  have inc: "pn_positive (foldl pn_increment d ps) = foldl gc_increment (pn_positive d) ps"
    "pn_negative (foldl pn_increment d ps) = pn_negative d" for d
    by (induction ps arbitrary: d) (simp_all add: pn_increment_def)
  have dec: "pn_negative (foldl pn_decrement d ns) = foldl gc_increment (pn_negative d) ns"
    "pn_positive (foldl pn_decrement d ns) = pn_positive d" for d
    by (induction ns arbitrary: d) (simp_all add: pn_decrement_def)
  have z: "gc_value gc_new = 0" by (simp add: gc_value_def gc_new_def)
  have "pn_value c = sint (of_nat (length ps) - of_nat (length ns) :: u64)"
    by (simp add: pn_value_def c_def inc dec pn_new_def gc_value_increments z)
  also have "\<dots> = sint (of_int (int (length ps) - int (length ns)) :: u64)" by simp
  also have "\<dots> = int (length ps) - int (length ns)"
    using assms(1,2) by (simp only: signed_of_int) (simp add: signed_take_bit_int_eq_self)
  finally show ?thesis .
qed

theorem pn_counter_counts_witness:
  "pn_value (foldl pn_decrement (foldl pn_increment pn_new [''a'']) [''a'', ''b'', ''b'']) = - 2"
  using pn_counter_counts [of "[''a'']" "[''a'', ''b'', ''b'']"] by simp

text \<open>Positive-negative counters converge as well, on the value they show.\<close>

theorem pncounter_convergence:
  assumes "pn_ok a" "\<forall>x \<in> set xs. pn_ok x" "pn_ok b" "\<forall>x \<in> set ys. pn_ok x"
    and "set (a # xs) = set (b # ys)"
  shows "pn_value (foldl pn_merge a xs) = pn_value (foldl pn_merge b ys)"
proof -
  have v: "pn_view (foldl pn_merge a xs) = pn_view (foldl pn_merge b ys)"
    using pncounter.convergence [OF assms] by (simp add: pncounter.merge_all_def)
  have "pn_ok (foldl pn_merge a xs)" "pn_ok (foldl pn_merge b ys)"
    using pncounter.inv_merge_all assms(1-4) by (simp_all add: pncounter.merge_all_def)
  with v show ?thesis by (simp add: pn_value_def pn_view_def pn_ok_def gc_value_view)
qed

theorem pncounter_convergence_witness:
  "let a = pn_increment pn_new ''a''; b = pn_decrement pn_new ''b'' in
   pn_value (foldl pn_merge a [b]) = pn_value (foldl pn_merge b [a])"
  using pncounter_convergence [of "pn_increment pn_new ''a''" "[pn_decrement pn_new ''b'']"
      "pn_decrement pn_new ''b''" "[pn_increment pn_new ''a'']"]
  by (simp add: Let_def pn_ok_def pn_increment_def pn_decrement_def pn_new_def gc_ok_increment
      gc_ok_new insert_commute)

lemma or_len_view: "or_ok s \<Longrightarrow> or_len s = card {x. or_contains s x}"
proof -
  assume ok: "or_ok s"
  let ?f = "filter (\<lambda>(_, tags). tags \<noteq> {}) (or_elements s)"
  have "hm_ok ?f" using ok by (simp add: or_ok_def hm_ok_filter)
  then have "length ?f = card (dom (hm_get ?f))" by (rule hm_len_eq_card)
  also have "dom (hm_get ?f) = {x. or_contains s x}"
    using ok by (auto simp: or_ok_def hm_get_filter or_contains_def split: option.splits if_splits)
  finally show ?thesis by (simp add: or_len_def)
qed

text \<open>Observed-remove sets converge on their elements: replicas that merged the same states
  contain the same elements and count them alike.\<close>

theorem orset_convergence:
  assumes "or_ok a" "\<forall>x \<in> set xs. or_ok x" "or_ok b" "\<forall>x \<in> set ys. or_ok x"
    and "set (a # xs) = set (b # ys)"
  shows "or_contains (foldl or_merge a xs) e = or_contains (foldl or_merge b ys) e \<and>
    or_len (foldl or_merge a xs) = or_len (foldl or_merge b ys)"
proof -
  have v: "or_view (foldl or_merge a xs) = or_view (foldl or_merge b ys)"
    using orset.convergence [OF assms] by (simp add: orset.merge_all_def)
  have ok: "or_ok (foldl or_merge a xs)" "or_ok (foldl or_merge b ys)"
    using orset.inv_merge_all assms(1-4) by (simp_all add: orset.merge_all_def)
  have c: "or_contains (foldl or_merge a xs) = or_contains (foldl or_merge b ys)"
    using v by (simp add: or_contains_def or_view_def fun_eq_iff)
  with ok show ?thesis by (simp add: or_len_view)
qed

theorem orset_convergence_witness:
  "let a = or_add or_new (1 :: nat) ''a''; b = or_add or_new 2 ''b'' in
   or_len (foldl or_merge a [b, b]) = or_len (foldl or_merge b [a])"
  using orset_convergence [of "or_add or_new (1 :: nat) ''a''"
      "[or_add or_new 2 ''b'', or_add or_new 2 ''b'']"
      "or_add or_new 2 ''b''" "[or_add or_new 1 ''a'']"]
  by (simp add: Let_def or_ok_def or_add_def or_new_def hm_intros insert_commute)

text \<open>An addition to an observed-remove set is visible at once, survives every merge, and a
  local removal takes effect locally.\<close>

theorem orset_updates:
  assumes "or_ok s" "or_ok t"
  shows "or_contains (or_add s x n) y = (y = x \<or> or_contains s y) \<and>
    or_contains (or_merge s t) y = (or_contains s y \<or> or_contains t y) \<and>
    or_contains (or_remove s x) y = (y \<noteq> x \<and> or_contains s y)"
  using assms
  by (auto simp: or_contains_def or_add_def or_merge_def or_remove_def or_ok_def hm_simps
      hm_get_or_def Let_def split: option.splits)

theorem orset_updates_witness:
  "or_contains (or_add or_new (1 :: nat) ''a'') 1 \<and>
   \<not> or_contains (or_remove (or_add or_new (1 :: nat) ''a'') 1) 1"
  using orset_updates [of or_new or_new "1 :: nat" "''a''" 1]
    orset_updates [of "or_add or_new (1 :: nat) ''a''" or_new "1 :: nat" "''a''" 1]
  by (simp add: or_ok_def or_new_def or_add_def hm_intros Let_def)

text \<open>A removal leaves no trace, so it is undone by merging any replica that has not seen it:
  if the removing replica merges the very state the element was removed from, the element
  is back.\<close>

theorem orset_remove_resurrects:
  assumes "or_ok s" "or_contains s x"
  shows "\<not> or_contains (or_remove s x) x \<and> or_contains (or_merge (or_remove s x) s) x"
  using assms
  by (auto simp: or_contains_def or_merge_def or_remove_def or_ok_def hm_simps hm_get_or_def
      split: option.splits)

theorem orset_remove_resurrects_witness:
  "let s = or_add or_new (1 :: nat) ''a'' in
   \<not> or_contains (or_remove s 1) 1 \<and> or_contains (or_merge (or_remove s 1) s) 1"
  using orset_remove_resurrects [of "or_add or_new (1 :: nat) ''a''" 1]
  by (simp add: Let_def or_ok_def or_add_def or_new_def hm_intros or_contains_def hm_simps)

text \<open>In a two-phase set removal is final: an element that was added and removed is not
  contained, whatever is added, removed or merged afterwards; and two-phase sets converge.\<close>

theorem two_phase_removal_final:
  assumes "x \<in> tp_removed s" "tp_ok s" "tp_ok t"
  shows "\<not> tp_contains (tp_add s y) x \<and> \<not> tp_contains (tp_remove s y) x \<and>
    \<not> tp_contains (tp_merge s t) x \<and> \<not> tp_contains (tp_merge t s) x \<and>
    tp_ok (tp_add s y) \<and> tp_ok (tp_remove s y) \<and> tp_ok (tp_merge s t) \<and>
    tp_elements (tp_merge s t) = tp_elements (tp_merge t s)"
  using assms by (auto simp: tp_contains_def tp_add_def tp_remove_def tp_merge_def tp_ok_def
      tp_elements_def)

theorem two_phase_removal_final_witness:
  "\<not> tp_contains (tp_add (tp_remove (tp_add tp_new (1 :: nat)) 1) 1) 1"
  using two_phase_removal_final [of "1 :: nat" "tp_remove (tp_add tp_new 1) 1" tp_new 1]
  by (simp add: tp_remove_def tp_add_def tp_new_def tp_ok_def)

text \<open>Last-writer-wins maps converge on every read, provided no node writes one key twice
  with the same timestamp (\<open>writes\<close> says which value each write stored).\<close>

theorem lww_map_convergence:
  assumes "lm_ok writes a" "\<forall>x \<in> set xs. lm_ok writes x" "lm_ok writes b" "\<forall>x \<in> set ys. lm_ok writes x"
    and "set (a # xs) = set (b # ys)"
  shows "lm_get (foldl lm_merge a xs) k = lm_get (foldl lm_merge b ys) k"
proof -
  have "lm_view (foldl lm_merge a xs) = lm_view (foldl lm_merge b ys)"
    using lwwmap.convergence [OF assms] by (simp add: lwwmap.merge_all_def)
  then show ?thesis by (simp add: lm_get_def lm_view_def)
qed

theorem lww_map_convergence_witness:
  "let a = lm_set 5 lm_new ''k'' (5 :: u64) ''a''; b = lm_set 7 lm_new ''k'' 7 ''b'' in
   lm_get (foldl lm_merge a [b, a]) ''k'' = lm_get (foldl lm_merge b [a]) ''k''"
proof -
  let ?w = "\<lambda>(_ :: string) (ts :: u64) (_ :: string). ts"
  have "lm_ok ?w (lm_set 5 lm_new ''k'' 5 ''a'')" "lm_ok ?w (lm_set 7 lm_new ''k'' 7 ''b'')"
    by (auto simp: lm_ok_def lm_set_def lm_new_def lw_set_def lw_new_def lw_of_def hm_upsert_def
        hm_get_or_def hm_ok_def Let_def split: if_splits)
  then show ?thesis
    using lww_map_convergence [of ?w "lm_set 5 lm_new ''k'' 5 ''a''"
        "[lm_set 7 lm_new ''k'' 7 ''b'', lm_set 5 lm_new ''k'' 5 ''a'']"
        "lm_set 7 lm_new ''k'' 7 ''b''" "[lm_set 5 lm_new ''k'' 5 ''a'']" "''k''"]
    by (simp add: Let_def insert_commute)
qed

text \<open>The last writer wins: merging registers keeps a register with the greatest (timestamp,
  node) pair, so the result is the write no other register supersedes.\<close>

theorem lww_register_last_write:
  fixes r :: "'a lww_register"
  shows "let m = foldl lw_merge r rs in m \<in> set (r # rs) \<and>
    list_all (\<lambda>s. (lw_timestamp s, lw_node_id s) \<le> (lw_timestamp m, lw_node_id m)) (r # rs)"
proof (induction rs arbitrary: r)
  case Nil
  then show ?case by simp
next
  case (Cons s rs)
  have "lw_key (lw_merge r s) = max (lw_key r) (lw_key s)" "lw_merge r s \<in> {r, s}"
    by (auto simp: lw_merge_key max_def)
  then show ?case
    using Cons.IH [of "lw_merge r s"] unfolding Let_def lw_key_def [symmetric]
    by (auto simp: max_def split: if_splits)
qed

text \<open>The map's \<^verbatim>\<open>remove\<close> drops the entry and keeps no tombstone: merging a replica that
  still has the entry restores it.\<close>

theorem lww_map_remove_resurrects:
  assumes "hm_ok (lm_entries m)" "hm_get (lm_entries m) k = Some r" "lw_value r = Some v"
    and "lw_of (writes k) r"
  shows "lm_get (lm_remove m k) k = None \<and> lm_get (lm_merge (lm_remove m k) m) k = Some v"
proof -
  have "lw_merge lw_new r = r" using lw_join_laws(4) [OF assms(4,4)] .
  then show ?thesis
    using assms by (simp add: lm_get_def lm_remove_def lm_merge_def hm_simps)
qed

theorem lww_map_remove_resurrects_witness:
  "let m = lm_set 5 lm_new ''k'' (1 :: nat) ''a'' in
   lm_get (lm_merge (lm_remove m ''k'') m) ''k'' = Some 1"
  using lww_map_remove_resurrects [of "lm_set 5 lm_new ''k'' (1 :: nat) ''a''" "''k''"
      "\<lparr>lw_value = Some 1, lw_timestamp = 5, lw_node_id = ''a''\<rparr>" 1 "\<lambda>_ _ _. 1"]
  by (simp add: Let_def lm_set_def lm_new_def lw_set_def lw_new_def lw_of_def hm_upsert_def
      hm_get_or_def hm_ok_def)

lemma mv_merge_all:
  assumes "mv_ok w a" "\<forall>x \<in> set xs. mv_ok w x"
  shows "mv_keys (foldl mv_merge a xs) = valueclock.maxima w (\<Union> (mv_keys ` set (a # xs)))"
  using assms
proof (induction xs arbitrary: a)
  case Nil
  then show ?case by (simp add: mv_ok_def valueclock.maxima_antichain)
next
  case (Cons x xs)
  note m = mv_merge_keys [of w a x]
  have ok: "\<forall>y \<in> (mv_keys a \<union> mv_keys x) \<union> \<Union> (mv_keys ` set xs). vc_ok (w y)"
    using Cons.prems by (auto simp: mv_ok_def intro: mv_of_keys)
  have "mv_keys (foldl mv_merge a (x # xs)) =
      valueclock.maxima w (valueclock.maxima w (mv_keys a \<union> mv_keys x) \<union> \<Union> (mv_keys ` set xs))"
    using Cons m by simp
  also have "\<dots> = valueclock.maxima w ((mv_keys a \<union> mv_keys x) \<union> \<Union> (mv_keys ` set xs))"
    by (rule valueclock.maxima_absorb) (use ok in \<open>auto simp: finite_mv_keys\<close>)
  finally show ?case by (simp add: Un_assoc)
qed

text \<open>Multi-value registers keep exactly the concurrent writes.  When every value was written
  with one clock, replicas that merged the same states hold the same values: of all values in
  those states, the ones whose clock no other value's clock dominates.\<close>

theorem mv_register_keeps_concurrent:
  assumes "mv_ok clock_of a" "\<forall>x \<in> set xs. mv_ok clock_of x"
  shows "set (mv_get (foldl mv_merge a xs)) =
    {v \<in> \<Union> (mv_keys ` set (a # xs)).
       \<forall>u \<in> \<Union> (mv_keys ` set (a # xs)). \<not> vc_happened_before (clock_of v) (clock_of u)}"
  using mv_merge_all [OF assms] by (simp add: mv_keys_def valueclock.maxima_def)

definition sample_clock :: "nat \<Rightarrow> vector_clock" where
  "sample_clock v = (if v = 1 then vc_increment vc_new ''a''
     else if v = 2 then vc_increment vc_new ''b''
     else vc_increment (vc_increment vc_new ''b'') ''b'')"

lemma sample_mv_ok: "mv_ok sample_clock (mv_set mv_new v (sample_clock v))"
proof (rule mv_ok_set)
  show "mv_ok sample_clock mv_new"
    by (simp add: mv_ok_def mv_of_def mv_new_def mv_keys_def mv_get_def valueclock.antichain_def)
  show "vc_ok (sample_clock v)" by (simp add: sample_clock_def vc_ok_ops)
qed

theorem mv_register_keeps_concurrent_witness:
  "set (mv_get (foldl mv_merge (mv_set mv_new (1 :: nat) (sample_clock 1))
     [mv_set mv_new 2 (sample_clock 2), mv_set mv_new 3 (sample_clock 3)])) = {1, 3}"
proof -
  have k: "mv_keys (mv_set mv_new v (sample_clock v)) = {v}" for v
    by (simp add: mv_keys_def mv_get_def mv_set_def mv_new_def)
  have "vc_happened_before (sample_clock 2) (sample_clock 3)"
    "\<not> vc_happened_before (sample_clock 1) (sample_clock 2)"
    "\<not> vc_happened_before (sample_clock 1) (sample_clock 3)"
    "\<not> vc_happened_before (sample_clock 3) (sample_clock 1)"
    "\<not> vc_happened_before (sample_clock 3) (sample_clock 2)"
    "\<And>v. \<not> vc_happened_before (sample_clock v) (sample_clock v)"
    by (simp_all add: sample_clock_def vc_happened_before_def vc_increment_def vc_new_def
        hm_upsert_def hm_get_or_def)
  then show ?thesis
    using mv_register_keeps_concurrent [OF sample_mv_ok, of "[mv_set mv_new 2 (sample_clock 2),
        mv_set mv_new 3 (sample_clock 3)]" 1] sample_mv_ok
    by (auto simp: k)
qed

end
