(* ===== verification/Common.thy ===== *)
theory Common
  imports RustText
begin

text \<open>
  The shared crate, \<^verbatim>\<open>crates/aegis-common/src\<close>: the unified error type with its
  classification (\<^verbatim>\<open>error.rs\<close>), identifiers and key ranges (\<^verbatim>\<open>types.rs\<close>), the
  validation of names that become file names (\<^verbatim>\<open>names.rs\<close>) and the alignment helpers
  (\<^verbatim>\<open>utils.rs\<close>).  The file system that \<^verbatim>\<open>contained_path\<close> consults is an argument.
\<close>

unbundle bit_operations_syntax

section \<open>Errors\<close>

datatype aegis_error =
    Storage string
  | BlockNotFound u64
  | PageNotFound u64
  | Corruption string
  | Transaction string
  | TransactionAborted string
  | Deadlock
  | LockTimeout
  | SerializationFailure
  | Parse string
  | TypeError string
  | Execution string
  | TableNotFound string
  | ColumnNotFound string
  | IndexNotFound string
  | ConstraintViolation string
  | UniqueViolation string
  | ForeignKeyViolation string
  | CheckViolation string
  | Replication string
  | NodeNotFound string
  | QuorumNotReached
  | LeaderNotElected
  | AuthenticationFailed string
  | AuthorizationDenied string
  | Io string
  | Serialization string
  | Encryption string
  | Configuration string
  | Internal string
  | ResourceExhausted string
  | MemoryLimitExceeded
  | Network string
  | ConnectionRefused string
  | Timeout string
  | Vault string
  | Shield string

type_synonym 'a aegis_result = "aegis_error + 'a"

fun is_retryable :: "aegis_error \<Rightarrow> bool" where
  "is_retryable Deadlock = True"
| "is_retryable LockTimeout = True"
| "is_retryable SerializationFailure = True"
| "is_retryable QuorumNotReached = True"
| "is_retryable LeaderNotElected = True"
| "is_retryable (Network _) = True"
| "is_retryable (Timeout _) = True"
| "is_retryable (TransactionAborted _) = True"
| "is_retryable (Replication _) = True"
| "is_retryable (NodeNotFound _) = True"
| "is_retryable (ConnectionRefused _) = True"
| "is_retryable (ResourceExhausted _) = True"
| "is_retryable MemoryLimitExceeded = True"
| "is_retryable (Io _) = True"
| "is_retryable _ = False"

fun is_user_error :: "aegis_error \<Rightarrow> bool" where
  "is_user_error (Parse _) = True"
| "is_user_error (TypeError _) = True"
| "is_user_error (TableNotFound _) = True"
| "is_user_error (ColumnNotFound _) = True"
| "is_user_error (ConstraintViolation _) = True"
| "is_user_error (UniqueViolation _) = True"
| "is_user_error (ForeignKeyViolation _) = True"
| "is_user_error (CheckViolation _) = True"
| "is_user_error (AuthenticationFailed _) = True"
| "is_user_error (AuthorizationDenied _) = True"
| "is_user_error (Execution _) = True"
| "is_user_error (IndexNotFound _) = True"
| "is_user_error (BlockNotFound _) = True"
| "is_user_error (PageNotFound _) = True"
| "is_user_error (Configuration _) = True"
| "is_user_error _ = False"

fun is_system_error :: "aegis_error \<Rightarrow> bool" where
  "is_system_error (Storage _) = True"
| "is_system_error (Corruption _) = True"
| "is_system_error (Internal _) = True"
| "is_system_error (Encryption _) = True"
| "is_system_error (Serialization _) = True"
| "is_system_error _ = False"

fun is_constraint_error :: "aegis_error \<Rightarrow> bool" where
  "is_constraint_error (ConstraintViolation _) = True"
| "is_constraint_error (UniqueViolation _) = True"
| "is_constraint_error (ForeignKeyViolation _) = True"
| "is_constraint_error (CheckViolation _) = True"
| "is_constraint_error _ = False"

text \<open>No error is in two of the classes retryable, user and system; constraint errors are
  user errors; three kinds of error are in no class.\<close>

lemma error_classes_disjoint:
  "\<not> (is_retryable e \<and> is_user_error e) \<and> \<not> (is_retryable e \<and> is_system_error e)
   \<and> \<not> (is_user_error e \<and> is_system_error e) \<and> (is_constraint_error e \<longrightarrow> is_user_error e)"
  by (cases e) simp_all

lemma unclassified_errors:
  "\<not> is_retryable e \<and> \<not> is_user_error e \<and> \<not> is_system_error e \<longleftrightarrow>
     (\<exists>s. e = Transaction s \<or> e = Vault s \<or> e = Shield s)"
  by (cases e) simp_all

section \<open>Identifiers and key ranges\<close>

type_synonym transaction_id = u64
type_synonym page_id = u64
type_synonym block_id = u64
type_synonym lsn = u64

record key_range =
  kr_start :: "bytes option"
  kr_end :: "bytes option"

definition kr_new :: "bytes option \<Rightarrow> bytes option \<Rightarrow> key_range" where
  "kr_new s e = \<lparr>kr_start = s, kr_end = e\<rparr>"

definition kr_unbounded :: key_range where
  "kr_unbounded = \<lparr>kr_start = None, kr_end = None\<rparr>"

definition kr_contains :: "key_range \<Rightarrow> bytes \<Rightarrow> bool" where
  "kr_contains r key \<longleftrightarrow>
     (let after_start = (case kr_start r of None \<Rightarrow> True | Some s \<Rightarrow> s \<le> key);
          before_end = (case kr_end r of None \<Rightarrow> True | Some e \<Rightarrow> key < e)
      in after_start \<and> before_end)"

lemma kr_unbounded_contains [simp]: "kr_contains kr_unbounded key"
  by (simp add: kr_contains_def kr_unbounded_def)

text \<open>Splitting a range at a key in it gives two ranges that partition it.\<close>

lemma kr_split:
  assumes "kr_contains (kr_new s e) m"
  shows "kr_contains (kr_new s e) key \<longleftrightarrow>
      kr_contains (kr_new s (Some m)) key \<noteq> kr_contains (kr_new (Some m) e) key"
  using assms
  by (auto simp: kr_contains_def kr_new_def not_less split: option.splits)

section \<open>Names that become file names\<close>

definition max_name_len :: nat where
  "max_name_len = 128"

datatype name_error = NameEmpty | NameTooLong | NameInvalidCharacter | NameReserved

definition is_ascii_alphanumeric :: "char \<Rightarrow> bool" where
  "is_ascii_alphanumeric c \<longleftrightarrow>
     (let n = (of_char c :: nat) in
      48 \<le> n \<and> n \<le> 57 \<or> 65 \<le> n \<and> n \<le> 90 \<or> 97 \<le> n \<and> n \<le> 122)"

definition validate_name :: "string \<Rightarrow> name_error + unit" where
  "validate_name name =
     (if name = [] then Inl NameEmpty
      else if length name > max_name_len then Inl NameTooLong
      else if \<not> list_all (\<lambda>b. is_ascii_alphanumeric b \<or> b \<in> {CHR ''_'', CHR ''-'', CHR ''.''}) name
        then Inl NameInvalidCharacter
      else if name = ''.'' \<or> name = ''..'' then Inl NameReserved
      else Inr ())"

definition is_valid_name :: "string \<Rightarrow> bool" where
  "is_valid_name name \<longleftrightarrow> (case validate_name name of Inl _ \<Rightarrow> False | Inr _ \<Rightarrow> True)"

text \<open>\<^verbatim>\<open>std::path::Path::components\<close> on Unix: a leading separator is the root, empty
  pieces vanish, \<open>.\<close> vanishes unless it comes first, \<open>..\<close> is kept.\<close>

datatype path_component = RootDir | CurDir | ParentDir | Normal string

fun split_sep :: "char \<Rightarrow> string \<Rightarrow> string list" where
  "split_sep c [] = [[]]"
| "split_sep c (x # xs) =
     (if x = c then [] # split_sep c xs
      else case split_sep c xs of [] \<Rightarrow> [[x]] | p # ps \<Rightarrow> (x # p) # ps)"

definition path_piece :: "string \<Rightarrow> path_component" where
  "path_piece p = (if p = ''..'' then ParentDir else Normal p)"

definition path_components :: "string \<Rightarrow> path_component list" where
  "path_components path =
     (let ps = split_sep (CHR ''/'') path;
          body = map path_piece (filter (\<lambda>p. p \<noteq> [] \<and> p \<noteq> ''.'') ps)
      in if path \<noteq> [] \<and> hd path = CHR ''/'' then RootDir # body
         else if hd ps = ''.'' then CurDir # body
         else body)"

text \<open>What the file system answers: the canonical form of an existing path, and whether an
  entry exists as a symbolic link.\<close>

record file_system =
  fs_canonicalize :: "string \<Rightarrow> string option"
  fs_is_symlink :: "string \<Rightarrow> bool"

text \<open>\<^verbatim>\<open>base.join(f)\<close> for a relative \<open>f\<close>, and \<^verbatim>\<open>parent()\<close>: what comes before the
  last component, without trailing separators (a base that ends in \<open>/.\<close> is not
  normalised further).\<close>

definition path_join :: "string \<Rightarrow> string \<Rightarrow> string" where
  "path_join base f =
     (if base = [] \<or> last base = CHR ''/'' then base @ f else base @ CHR ''/'' # f)"

definition trim_seps :: "string \<Rightarrow> string" where
  "trim_seps p = rev (dropWhile (\<lambda>c. c = CHR ''/'') (rev p))"

definition path_parent :: "string \<Rightarrow> string" where
  "path_parent p =
     (let q = rev (dropWhile (\<lambda>c. c \<noteq> CHR ''/'') (rev p)); r = trim_seps q
      in if r = [] then take 1 q else r)"

definition contained_path ::
    "file_system \<Rightarrow> string \<Rightarrow> string \<Rightarrow> string \<Rightarrow> name_error + string" where
  "contained_path fs base name suffix =
     (if name = [] then Inl NameEmpty
      else if length name > 255 then Inl NameTooLong
      else if list_ex (\<lambda>c. c \<in> {CHR ''/'', CHR 0x5C, CHR 0x00}) name then Inl NameInvalidCharacter
      else if name = ''.'' \<or> name = ''..'' then Inl NameReserved
      else
        let file_name = name @ suffix in
        (case path_components file_name of
           [Normal _] \<Rightarrow>
             (let path = path_join base file_name in
              case fs_canonicalize fs base of
                None \<Rightarrow> Inr path
              | Some canon_base \<Rightarrow>
                  if fs_canonicalize fs (path_parent path) \<noteq> Some canon_base
                  then Inl NameInvalidCharacter
                  else if fs_is_symlink fs path then Inl NameInvalidCharacter
                  else Inr path)
         | _ \<Rightarrow> Inl NameInvalidCharacter))"

lemma split_sep_no_sep: "c \<notin> set xs \<Longrightarrow> split_sep c xs = [xs]"
  by (induction xs) auto

lemma path_components_single:
  assumes "CHR ''/'' \<notin> set f" "f \<noteq> []" "f \<noteq> ''.''" "f \<noteq> ''..''"
  shows "path_components f = [Normal f]"
proof -
  have "hd f \<noteq> CHR ''/''" using assms by (cases f) auto
  with assms show ?thesis
    by (simp add: path_components_def split_sep_no_sep path_piece_def)
qed

lemma dropWhile_no_sep:
  "CHR ''/'' \<notin> set f \<Longrightarrow> dropWhile (\<lambda>c. c \<noteq> CHR ''/'') (f @ xs) = dropWhile (\<lambda>c. c \<noteq> CHR ''/'') xs"
  by (induction f) auto

text \<open>The parent of a joined path is the base itself, up to trailing separators.\<close>

lemma path_parent_join:
  assumes "CHR ''/'' \<notin> set f" "base \<noteq> []" "last base \<noteq> CHR ''/''"
  shows "path_parent (path_join base f) = base"
proof -
  obtain b c where base: "base = b @ [c]" and c: "c \<noteq> CHR ''/''"
    using assms(2,3) by (cases base rule: rev_exhaust) auto
  have "dropWhile (\<lambda>c. c \<noteq> CHR ''/'') (rev f @ CHR ''/'' # rev base) = CHR ''/'' # rev base"
    using assms(1) by (subst dropWhile_no_sep) simp_all
  then have q: "rev (dropWhile (\<lambda>c. c \<noteq> CHR ''/'') (rev (path_join base f))) = base @ ''/''"
    using assms(2,3) by (simp add: path_join_def)
  have "trim_seps (base @ ''/'') = base" using c by (simp add: trim_seps_def base)
  then show ?thesis using assms(2) by (simp add: path_parent_def q)
qed

lemma is_valid_name_iff:
  "is_valid_name name \<longleftrightarrow> name \<noteq> [] \<and> length name \<le> 128 \<and> name \<noteq> ''.'' \<and> name \<noteq> ''..''
     \<and> (\<forall>c \<in> set name. is_ascii_alphanumeric c \<or> c \<in> {CHR ''_'', CHR ''-'', CHR ''.''})"
  by (auto simp: is_valid_name_def validate_name_def max_name_len_def list_all_iff)

lemma valid_name_chars:
  "is_valid_name name \<Longrightarrow> CHR ''/'' \<notin> set name \<and> CHR 0x5C \<notin> set name \<and> CHR 0x00 \<notin> set name"
  by (fastforce simp: is_valid_name_iff is_ascii_alphanumeric_def)



section \<open>Alignment\<close>

definition align_up :: "usize \<Rightarrow> usize \<Rightarrow> usize" where
  "align_up value alignment = (value + alignment - 1) AND NOT (alignment - 1)"

definition align_down :: "usize \<Rightarrow> usize \<Rightarrow> usize" where
  "align_down value alignment = value AND NOT (alignment - 1)"

definition is_aligned :: "usize \<Rightarrow> usize \<Rightarrow> bool" where
  "is_aligned value alignment \<longleftrightarrow> value AND (alignment - 1) = 0"

lemma and_not_mask_u64: "a AND NOT (mask k) = a - take_bit k (a :: u64)"
proof -
  have "a - take_bit k a = a AND NOT (take_bit k a)"
    by (rule disjunctive_diff) (simp add: bit_take_bit_iff)
  also have "\<dots> = a AND NOT (mask k)"
    by (rule bit_eqI) (auto simp: bit_and_iff bit_not_iff bit_take_bit_iff bit_mask_iff)
  finally show ?thesis by simp
qed

lemma unat_take_bit_u64: "unat (take_bit k (a :: u64)) = unat a mod 2 ^ k"
  using unsigned_take_bit_eq [of k a, where ?'a = nat] by (simp only: take_bit_eq_mod)

lemma unat_align_down:
  "unat (align_down a (2 ^ k)) = 2 ^ k * (unat a div 2 ^ k)"
proof -
  have le: "take_bit k a \<le> a"
    by (simp add: word_le_nat_alt unat_take_bit_u64)
  have "align_down a (2 ^ k) = a - take_bit k a"
    by (simp add: align_down_def and_not_mask_u64 flip: mask_eq_exp_minus_1)
  then have "unat (align_down a (2 ^ k)) = unat a - unat a mod 2 ^ k"
    using le by (simp add: unat_sub unat_take_bit_u64)
  then show ?thesis by (simp add: minus_mod_eq_mult_div)
qed

lemma is_aligned_iff: "is_aligned a (2 ^ k) \<longleftrightarrow> 2 ^ k dvd unat a"
proof -
  have "is_aligned a (2 ^ k) \<longleftrightarrow> take_bit k a = 0"
    by (simp add: is_aligned_def take_bit_eq_mask flip: mask_eq_exp_minus_1)
  also have "\<dots> \<longleftrightarrow> unat a mod 2 ^ k = 0"
    by (simp add: u64_eq_iff_unat unat_take_bit_u64)
  finally show ?thesis by (simp add: dvd_eq_mod_eq_0)
qed

lemma align_up_as_down: "align_up a b = align_down (a + (b - 1)) b"
  by (simp add: align_up_def align_down_def algebra_simps)

text \<open>For a power of two that fits, \<^verbatim>\<open>align_up\<close> gives the least aligned value that is not
  smaller, as long as the addition does not wrap, and \<^verbatim>\<open>align_down\<close> the greatest aligned
  value that is not greater.\<close>

lemma alignment_is_rounding:
  assumes "k < 64" "unat a + (2 ^ k - 1) < 2 ^ 64"
  shows "unat (align_down a (2 ^ k)) = 2 ^ k * (unat a div 2 ^ k)
       \<and> unat (align_up a (2 ^ k)) = 2 ^ k * ((unat a + (2 ^ k - 1)) div 2 ^ k)
       \<and> is_aligned (align_up a (2 ^ k)) (2 ^ k) \<and> is_aligned (align_down a (2 ^ k)) (2 ^ k)
       \<and> a \<le> align_up a (2 ^ k) \<and> align_down a (2 ^ k) \<le> a"
proof -
  have of: "(2 ^ k - 1 :: u64) = of_nat (2 ^ k - 1)" by (simp add: of_nat_diff)
  have "(2 :: nat) ^ k \<le> 2 ^ 63" using assms(1) by (intro power_increasing) simp_all
  then have "(2 :: nat) ^ k - 1 < 2 ^ 64" by simp
  then have m: "unat (2 ^ k - 1 :: u64) = 2 ^ k - 1" unfolding of by (rule unat_of_nat_u64)
  have up: "unat (align_up a (2 ^ k)) = 2 ^ k * ((unat a + (2 ^ k - 1)) div 2 ^ k)"
    using assms(2) by (simp only: align_up_as_down unat_align_down unat_add_u64 m)
  have "unat a + (2 ^ k - 1) = 2 ^ k * ((unat a + (2 ^ k - 1)) div 2 ^ k) + (unat a + (2 ^ k - 1)) mod 2 ^ k"
    by simp
  moreover have "(unat a + (2 ^ k - 1)) mod 2 ^ k < 2 ^ k" by (rule mod_less_divisor) simp
  ultimately have "unat a \<le> unat (align_up a (2 ^ k))" unfolding up by linarith
  moreover have "unat (align_down a (2 ^ k)) \<le> unat a" by (simp add: unat_align_down)
  ultimately show ?thesis
    by (simp add: up unat_align_down is_aligned_iff word_le_nat_alt)
qed

end
