(* ===== verification/ByteCodec.thy ===== *)
theory ByteCodec
  imports Common
begin

text \<open>
  Little-endian byte formats, the part of the \<^verbatim>\<open>bytes\<close> crate's \<^verbatim>\<open>Buf\<close> and
  \<^verbatim>\<open>BufMut\<close> interface the storage engine uses, and the interface (a locale) of a
  self-delimiting format: what a reader gets back from a stream of encoded values.
\<close>

section \<open>Little-endian numbers\<close>

type_synonym u16 = "16 word"

text \<open>The \<open>n\<close> low bytes of a number, least significant first, and back.\<close>

fun nat_le :: "nat \<Rightarrow> nat \<Rightarrow> bytes" where
  "nat_le 0 x = []"
| "nat_le (Suc n) x = of_nat (x mod 256) # nat_le n (x div 256)"

fun le_nat :: "bytes \<Rightarrow> nat" where
  "le_nat [] = 0"
| "le_nat (b # bs) = unat b + 256 * le_nat bs"

lemma length_nat_le [simp]: "length (nat_le n x) = n"
  by (induction n arbitrary: x) simp_all

lemma le_nat_nat_le: "le_nat (nat_le n x) = x mod 256 ^ n"
proof (induction n arbitrary: x)
  case (Suc n)
  have "unat (of_nat (x mod 256) :: u8) = x mod 256" by (simp add: unat_of_nat)
  then show ?case by (simp only: nat_le.simps le_nat.simps Suc power_Suc mod_mult2_eq)
qed simp

lemma le_nat_nat_le_small: "x < 256 ^ n \<Longrightarrow> le_nat (nat_le n x) = x"
  by (simp add: le_nat_nat_le)

lemma le_nat_bound: "le_nat bs < 256 ^ length bs"
proof (induction bs)
  case (Cons b bs)
  have "unat b < 256" using unsigned_less [of b] by simp
  with Cons have "unat b + 256 * le_nat bs < 256 + 256 * (256 ^ length bs - 1)" by simp
  also have "\<dots> = 256 * 256 ^ length bs" by (simp add: algebra_simps)
  finally show ?case by simp
qed simp

lemma nat_le_le_nat: "nat_le (length bs) (le_nat bs) = bs"
proof (induction bs)
  case (Cons b bs)
  have b: "unat b < 256" using unsigned_less [of b] by simp
  then have "(unat b + 256 * le_nat bs) mod 256 = unat b" "(unat b + 256 * le_nat bs) div 256 = le_nat bs"
    by simp_all
  with Cons show ?case by simp
qed simp

definition put_u64_le :: "u64 \<Rightarrow> bytes" where
  "put_u64_le w = nat_le 8 (unat w)"

definition put_u32_le :: "u32 \<Rightarrow> bytes" where
  "put_u32_le w = nat_le 4 (unat w)"

definition put_u16_le :: "u16 \<Rightarrow> bytes" where
  "put_u16_le w = nat_le 2 (unat w)"

text \<open>A read consumes bytes from the front; callers have checked that they are there.\<close>

definition get_u64_le :: "bytes \<Rightarrow> u64 \<times> bytes" where
  "get_u64_le buf = (of_nat (le_nat (take 8 buf)), drop 8 buf)"

definition get_u32_le :: "bytes \<Rightarrow> u32 \<times> bytes" where
  "get_u32_le buf = (of_nat (le_nat (take 4 buf)), drop 4 buf)"

definition get_u16_le :: "bytes \<Rightarrow> u16 \<times> bytes" where
  "get_u16_le buf = (of_nat (le_nat (take 2 buf)), drop 2 buf)"

definition get_u8 :: "bytes \<Rightarrow> u8 \<times> bytes" where
  "get_u8 buf = (hd buf, tl buf)"

lemma length_put [simp]:
  "length (put_u64_le w) = 8" "length (put_u32_le x) = 4" "length (put_u16_le y) = 2"
  by (simp_all add: put_u64_le_def put_u32_le_def put_u16_le_def)

lemma le_nat_put:
  "le_nat (put_u64_le w) = unat w" "le_nat (put_u32_le x) = unat x" "le_nat (put_u16_le y) = unat y"
  using unsigned_less [of w, where ?'a = nat] unsigned_less [of x, where ?'a = nat]
    unsigned_less [of y, where ?'a = nat]
  by (simp_all add: put_u64_le_def put_u32_le_def put_u16_le_def le_nat_nat_le_small)

lemma get_put [simp]:
  "get_u64_le (put_u64_le w @ rest) = (w, rest)"
  "get_u32_le (put_u32_le x @ rest) = (x, rest)"
  "get_u16_le (put_u16_le y @ rest) = (y, rest)"
  "get_u8 (b # rest) = (b, rest)"
  by (simp_all add: get_u64_le_def get_u32_le_def get_u16_le_def get_u8_def le_nat_put)

lemma take_put [simp]:
  "take 8 (put_u64_le w @ rest) = put_u64_le w" "take 4 (put_u32_le x @ rest) = put_u32_le x"
  "take 2 (put_u16_le y @ rest) = put_u16_le y"
  by simp_all

text \<open>Overwriting bytes in place, \<^verbatim>\<open>data[off..off + n].copy_from_slice(bs)\<close>.\<close>

definition splice :: "bytes \<Rightarrow> nat \<Rightarrow> bytes \<Rightarrow> bytes" where
  "splice data off bs = take off data @ bs @ drop (off + length bs) data"

abbreviation slice :: "bytes \<Rightarrow> nat \<Rightarrow> nat \<Rightarrow> bytes" where
  "slice data off n \<equiv> take n (drop off data)"

lemma length_splice [simp]: "off + length bs \<le> length data \<Longrightarrow> length (splice data off bs) = length data"
  by (simp add: splice_def)

lemma slice_splice_same [simp]:
  "off + length bs \<le> length data \<Longrightarrow> length bs = n \<Longrightarrow> slice (splice data off bs) off n = bs"
  by (simp add: splice_def)

lemma slice_splice_before:
  "off' + n \<le> off \<Longrightarrow> off + length bs \<le> length data \<Longrightarrow> slice (splice data off bs) off' n = slice data off' n"
  by (simp add: splice_def take_drop min_def)

lemma slice_splice_after:
  "off + length bs \<le> off' \<Longrightarrow> off + length bs \<le> length data \<Longrightarrow> slice (splice data off bs) off' n = slice data off' n"
  by (simp add: splice_def)

section \<open>The interface of a self-delimiting format\<close>

text \<open>
  A format gives every good value an encoding, and a step of a reader at the front of a
  stream: it finds a value and the rest of the stream, or stops.  What every such reader
  does is proved once: it gets back the values that were written, and it stops at a torn
  last value.
\<close>

locale stream_format =
  fixes good :: "'a \<Rightarrow> bool" and enc :: "'a \<Rightarrow> bytes" and next_val :: "bytes \<Rightarrow> ('a \<times> bytes) option"
    and read_all :: "bytes \<Rightarrow> 'a list"
  assumes next_enc: "good x \<Longrightarrow> next_val (enc x @ rest) = Some (x, rest)"
    and next_empty: "next_val [] = None"
    and next_torn: "good x \<Longrightarrow> n < length (enc x) \<Longrightarrow> next_val (take n (enc x)) = None"
    and read_all_step: "read_all buf = (case next_val buf of None \<Rightarrow> [] | Some (x, rest) \<Rightarrow> x # read_all rest)"
begin

lemma read_written:
  "list_all good xs \<Longrightarrow> read_all (concat (map enc xs) @ rest) = xs @ read_all rest"
  by (induction xs) (simp_all add: next_enc read_all_step [of "enc _ @ _"])

lemma read_torn:
  assumes "list_all good xs" "good x" "n < length (enc x)"
  shows "read_all (concat (map enc xs) @ take n (enc x)) = xs"
  using assms by (simp add: read_written next_torn read_all_step [of "take _ _"])

text \<open>Any prefix of a written stream reads as a prefix of the values: those whose encodings
  are complete.\<close>

lemma read_prefix:
  assumes "list_all good xs"
  shows "\<exists>k \<le> length xs. read_all (take n (concat (map enc xs))) = take k xs
    \<and> length (concat (map enc (take k xs))) \<le> n
    \<and> (k < length xs \<longrightarrow> n < length (concat (map enc (take (Suc k) xs))))"
  using assms
proof (induction xs arbitrary: n)
  case (Cons x xs)
  show ?case
  proof (cases "n < length (enc x)")
    case True
    with Cons.prems next_torn [of x n] show ?thesis
      by (intro exI [of _ 0]) (simp add: read_all_step [of "take _ _"])
  next
    case False
    have "list_all good xs" using Cons.prems by simp
    from Cons.IH [OF this, of "n - length (enc x)"] obtain k where k: "k \<le> length xs"
        "read_all (take (n - length (enc x)) (concat (map enc xs))) = take k xs"
        "length (concat (map enc (take k xs))) \<le> n - length (enc x)"
        "k < length xs \<longrightarrow> n - length (enc x) < length (concat (map enc (take (Suc k) xs)))"
      by blast
    with False Cons.prems show ?thesis
      by (intro exI [of _ "Suc k"])
        (auto simp: next_enc read_all_step [of "enc _ @ _"])
  qed
next
  case Nil
  have "read_all [] = []" by (simp add: next_empty read_all_step [of "[]"])
  then show ?case by simp
qed

end

end
