(* ===== verification/HashRing.thy ===== *)
theory HashRing
  imports RustText
begin

text \<open>
  Shard placement, \<^verbatim>\<open>crates/aegis-replication/src/hash.rs\<close>: the consistent-hash ring with
  virtual nodes and rendezvous hashing, over the FNV-style hash of the module.  A
  \<^verbatim>\<open>BTreeMap\<close> is its list of entries in ascending key order (\<open>bt_ok\<close>).  Jump hashing
  computes with 64-bit floating point numbers and is left out.
\<close>

section \<open>The hash function\<close>

unbundle bit_operations_syntax

definition xx_new :: u64 where
  "xx_new = 0xcbf29ce484222325"

definition xx_write :: "u64 \<Rightarrow> bytes \<Rightarrow> u64" where
  "xx_write state bs = foldl (\<lambda>st b. (st XOR ucast b) * 0x100000001b3) state bs"

text \<open>\<^verbatim>\<open>str\<close> hashes its bytes followed by \<^verbatim>\<open>0xff\<close>.\<close>

definition hash_key :: "string \<Rightarrow> u64" where
  "hash_key key = xx_write (xx_write xx_new (str_bytes key)) [0xff]"

section \<open>Ordered maps\<close>

type_synonym 'v btree = "(u64 \<times> 'v) list"

fun bt_insert :: "u64 \<Rightarrow> 'v \<Rightarrow> 'v btree \<Rightarrow> 'v btree" where
  "bt_insert k v [] = [(k, v)]"
| "bt_insert k v ((k', v') # m) =
     (if k < k' then (k, v) # (k', v') # m
      else if k = k' then (k, v) # m
      else (k', v') # bt_insert k v m)"

definition bt_retain :: "(u64 \<Rightarrow> 'v \<Rightarrow> bool) \<Rightarrow> 'v btree \<Rightarrow> 'v btree" where
  "bt_retain P m = filter (\<lambda>(k, v). P k v) m"

text \<open>\<^verbatim>\<open>range(k..)\<close>.\<close>

definition bt_from :: "u64 \<Rightarrow> 'v btree \<Rightarrow> 'v btree" where
  "bt_from k m = filter (\<lambda>(k', _). k \<le> k') m"

section \<open>The ring\<close>

record virtual_node =
  vn_node_id :: node_id
  vn_replica_index :: nat

definition vn_hash_position :: "virtual_node \<Rightarrow> u64" where
  "vn_hash_position v = hash_key (vn_node_id v @ '':'' @ nat_to_string (vn_replica_index v))"

record hash_ring =
  hr_ring :: "virtual_node btree"
  hr_virtual :: nat
  hr_nodes :: "node_id list"

definition ring_new :: "nat \<Rightarrow> hash_ring" where
  "ring_new virtual = \<lparr>hr_ring = [], hr_virtual = virtual, hr_nodes = []\<rparr>"

definition default_ring :: hash_ring where
  "default_ring = ring_new 150"

definition ring_add_node :: "hash_ring \<Rightarrow> node_id \<Rightarrow> hash_ring" where
  "ring_add_node r node =
     (if node \<in> set (hr_nodes r) then r
      else
        let vnode = (\<lambda>i. \<lparr>vn_node_id = node, vn_replica_index = i\<rparr>);
            ring = foldl (\<lambda>m i. bt_insert (vn_hash_position (vnode i)) (vnode i) m)
                     (hr_ring r) [0..<hr_virtual r]
        in r\<lparr>hr_ring := ring, hr_nodes := hr_nodes r @ [node]\<rparr>)"

definition ring_remove_node :: "hash_ring \<Rightarrow> node_id \<Rightarrow> hash_ring" where
  "ring_remove_node r node =
     r\<lparr>hr_ring := bt_retain (\<lambda>_ v. vn_node_id v \<noteq> node) (hr_ring r),
       hr_nodes := filter (\<lambda>n. n \<noteq> node) (hr_nodes r)\<rparr>"

definition ring_get_node :: "hash_ring \<Rightarrow> string \<Rightarrow> node_id option" where
  "ring_get_node r key =
     (if hr_ring r = [] then None
      else
        let hash = hash_key key
        in case bt_from hash (hr_ring r) of
             (_, v) # _ \<Rightarrow> Some (vn_node_id v)
           | [] \<Rightarrow> (case hr_ring r of (_, v) # _ \<Rightarrow> Some (vn_node_id v) | [] \<Rightarrow> None))"

text \<open>
  The two loops of \<^verbatim>\<open>get_nodes\<close> share the body: skip a node seen before, stop when there
  are enough.  \<open>Inr\<close> is the early return.
\<close>

fun collect_nodes ::
    "nat \<Rightarrow> virtual_node list \<Rightarrow> node_id list \<Rightarrow> node_id list + node_id list" where
  "collect_nodes count [] result = Inl result"
| "collect_nodes count (v # vs) result =
     (if vn_node_id v \<in> set result then collect_nodes count vs result
      else
        let result' = result @ [vn_node_id v]
        in if length result' \<ge> count then Inr result' else collect_nodes count vs result')"

definition ring_get_nodes :: "hash_ring \<Rightarrow> string \<Rightarrow> nat \<Rightarrow> node_id list" where
  "ring_get_nodes r key count =
     (if hr_ring r = [] \<or> count = 0 then []
      else
        let hash = hash_key key
        in case collect_nodes count (map snd (bt_from hash (hr_ring r))) [] of
             Inr result \<Rightarrow> result
           | Inl result \<Rightarrow>
               (case collect_nodes count (map snd (hr_ring r)) result of
                  Inr result' \<Rightarrow> result' | Inl result' \<Rightarrow> result'))"

definition ring_node_count :: "hash_ring \<Rightarrow> nat" where
  "ring_node_count r = length (hr_nodes r)"

definition ring_virtual_node_count :: "hash_ring \<Rightarrow> nat" where
  "ring_virtual_node_count r = length (hr_ring r)"

definition ring_is_empty :: "hash_ring \<Rightarrow> bool" where
  "ring_is_empty r \<longleftrightarrow> hr_nodes r = []"

definition ring_key_position :: "hash_ring \<Rightarrow> string \<Rightarrow> u64" where
  "ring_key_position r key = hash_key key"

section \<open>Rendezvous hashing\<close>

record rendezvous =
  rv_nodes :: "node_id list"

definition rv_new :: rendezvous where
  "rv_new = \<lparr>rv_nodes = []\<rparr>"

definition rv_add_node :: "rendezvous \<Rightarrow> node_id \<Rightarrow> rendezvous" where
  "rv_add_node r node = (if node \<notin> set (rv_nodes r) then r\<lparr>rv_nodes := rv_nodes r @ [node]\<rparr> else r)"

definition rv_remove_node :: "rendezvous \<Rightarrow> node_id \<Rightarrow> rendezvous" where
  "rv_remove_node r node = r\<lparr>rv_nodes := filter (\<lambda>n. n \<noteq> node) (rv_nodes r)\<rparr>"

definition rv_weight :: "string \<Rightarrow> node_id \<Rightarrow> u64" where
  "rv_weight key node = hash_key (key @ '':'' @ node)"

text \<open>\<^verbatim>\<open>max_by_key\<close> keeps the last of equal maxima.\<close>

fun max_by_key :: "('a \<Rightarrow> u64) \<Rightarrow> 'a list \<Rightarrow> 'a option" where
  "max_by_key f [] = None"
| "max_by_key f (x # xs) =
     Some (foldl (\<lambda>best y. if f best \<le> f y then y else best) x xs)"

definition rv_get_node :: "rendezvous \<Rightarrow> string \<Rightarrow> node_id option" where
  "rv_get_node r key = max_by_key (rv_weight key) (rv_nodes r)"

definition rv_get_nodes :: "rendezvous \<Rightarrow> string \<Rightarrow> nat \<Rightarrow> node_id list" where
  "rv_get_nodes r key count =
     (let weighted = map (\<lambda>node. (rv_weight key node, node)) (rv_nodes r);
          ordered = sort_key (\<lambda>w. 2 ^ 64 - 1 - unat (fst w)) weighted
      in map snd (take count ordered))"

section \<open>Ordered maps stay ordered\<close>

definition bt_ok :: "'v btree \<Rightarrow> bool" where
  "bt_ok m \<longleftrightarrow> sorted_wrt (<) (map fst m)"

lemma bt_ok_Cons: "bt_ok ((k, v) # m) \<longleftrightarrow> (\<forall>(k', _) \<in> set m. k < k') \<and> bt_ok m"
  by (auto simp: bt_ok_def)

lemma set_bt_insert: "bt_ok m \<Longrightarrow> set (bt_insert k v m) = insert (k, v) {x \<in> set m. fst x \<noteq> k}"
proof (induction m)
  case (Cons x m)
  then show ?case by (cases x) (auto simp: bt_ok_Cons split: if_splits)
qed simp

lemma bt_ok_insert: "bt_ok m \<Longrightarrow> bt_ok (bt_insert k v m)"
proof (induction m)
  case (Cons x m)
  then show ?case by (cases x) (fastforce simp: bt_ok_Cons set_bt_insert)
qed (simp add: bt_ok_def)

lemma bt_ok_filter: "bt_ok m \<Longrightarrow> bt_ok (filter P m)"
  by (simp add: bt_ok_def sorted_wrt_map sorted_wrt_filter)

text \<open>The first entry of an ordered map is the least one.\<close>

lemma bt_head: "bt_ok m \<Longrightarrow> m = (k, v) # m' \<Longrightarrow> (k', v') \<in> set m \<Longrightarrow> k \<le> k'"
  by (auto simp: bt_ok_Cons)

text \<open>The entry responsible for a position: the least at or after it, or the least of all.\<close>

definition responsible :: "u64 \<Rightarrow> 'v btree \<Rightarrow> (u64 \<times> 'v) option" where
  "responsible h m = (case bt_from h m of x # _ \<Rightarrow> Some x | [] \<Rightarrow> (case m of x # _ \<Rightarrow> Some x | [] \<Rightarrow> None))"

text \<open>The clockwise distance from a position.\<close>

definition clockwise :: "u64 \<Rightarrow> u64 \<Rightarrow> u64" where
  "clockwise h k = k - h"

lemma clockwise_le:
  "clockwise h a \<le> clockwise h b \<longleftrightarrow>
     (if h \<le> a then (h \<le> b \<longrightarrow> a \<le> b) else \<not> h \<le> b \<and> a \<le> b)"
proof -
  have u: "unat (k - h) = (if h \<le> k then unat k - unat h else unat k + 2 ^ 64 - unat h)" for k
    using unat_lt_u64 [of k] unat_lt_u64 [of h]
    by (auto simp: unat_sub_if_size word_size word_le_nat_alt)
  show ?thesis
    using unat_lt_u64 [of a] unat_lt_u64 [of b] unat_lt_u64 [of h]
    by (auto simp: clockwise_def word_le_nat_alt u)
qed

lemma responsible_None: "responsible h m = None \<longleftrightarrow> m = []"
  by (auto simp: responsible_def bt_from_def split: list.splits)

lemma responsible_least:
  assumes "bt_ok m" "responsible h m = Some (k, v)"
  shows "(k, v) \<in> set m" "(k', v') \<in> set m \<Longrightarrow> clockwise h k \<le> clockwise h k'"
proof -
  have "(k, v) \<in> set m \<and> (\<forall>(k', v') \<in> set m. clockwise h k \<le> clockwise h k')"
  proof (cases "bt_from h m")
    case Nil
    then have below: "\<forall>(k', _) \<in> set m. \<not> h \<le> k'" by (auto simp: bt_from_def filter_empty_conv)
    obtain m' where "m = (k, v) # m'"
      using assms(2) Nil by (auto simp: responsible_def split: list.splits)
    then show ?thesis using below bt_head [OF assms(1)] by (fastforce simp: clockwise_le)
  next
    case (Cons x m')
    then have x: "x = (k, v)" using assms(2) by (simp add: responsible_def)
    have ok: "bt_ok (bt_from h m)" using assms(1) by (simp add: bt_from_def bt_ok_filter)
    have "(k, v) \<in> set (bt_from h m)" using Cons x by simp
    then have kv: "(k, v) \<in> set m" "h \<le> k" by (auto simp: bt_from_def)
    have "k \<le> k'" if "(k', v') \<in> set m" "h \<le> k'" for k' v'
    proof -
      have "(k', v') \<in> set (bt_from h m)" using that by (simp add: bt_from_def)
      then show ?thesis using bt_head [OF ok, of k v m' k' v'] Cons x by simp
    qed
    with kv show ?thesis by (auto simp: clockwise_le)
  qed
  then show "(k, v) \<in> set m" "(k', v') \<in> set m \<Longrightarrow> clockwise h k \<le> clockwise h k'" by auto
qed

lemma clockwise_inj: "clockwise h a = clockwise h b \<longleftrightarrow> a = b"
  by (simp add: clockwise_def)

lemma bt_ok_unique: "bt_ok m \<Longrightarrow> (k, v) \<in> set m \<Longrightarrow> (k, v') \<in> set m \<Longrightarrow> v = v'"
proof (induction m)
  case (Cons x m)
  then show ?case by (cases x) (auto simp: bt_ok_Cons)
qed simp

lemma responsible_eqI:
  assumes "bt_ok m" "(k, v) \<in> set m" "\<forall>(k', _) \<in> set m. clockwise h k \<le> clockwise h k'"
  shows "responsible h m = Some (k, v)"
proof (cases "responsible h m")
  case None
  then show ?thesis using assms(2) by (simp add: responsible_None)
next
  case (Some x)
  obtain k' v' where x: "x = (k', v')" by force
  note least = responsible_least [OF assms(1) Some [unfolded x]]
  have "clockwise h k = clockwise h k'"
    using least(1) least(2) [OF assms(2)] assms(3) by (auto intro: order.antisym)
  then have "k = k'" by (simp add: clockwise_inj)
  with least(1) assms(1,2) Some x show ?thesis by (auto dest: bt_ok_unique)
qed

text \<open>Dropping entries other than the responsible one, and what can become responsible.\<close>

lemma responsible_filter:
  assumes "bt_ok m" "responsible h m = Some (k, v)" "P (k, v)"
  shows "responsible h (filter P m) = Some (k, v)"
  using responsible_least [OF assms(1,2)] assms(1,3)
  by (intro responsible_eqI) (auto simp: bt_ok_filter)

lemma responsible_insert:
  assumes "bt_ok m" "responsible h (bt_insert k v m) = Some x"
  shows "x = (k, v) \<or> responsible h m = Some x"
proof (cases "x = (k, v)")
  case False
  obtain k' v' where x: "x = (k', v')" by force
  note least = responsible_least [OF bt_ok_insert [OF assms(1)] assms(2) [unfolded x]]
  have in_m: "(k', v') \<in> set m" "k' \<noteq> k"
    using least(1) False by (auto simp: set_bt_insert [OF assms(1)] x)
  have "clockwise h k' \<le> clockwise h a" if "(a, b) \<in> set m" for a b
  proof (cases "a = k")
    case True
    then show ?thesis using least(2) [of k v] by (simp add: set_bt_insert [OF assms(1)])
  next
    case False
    then show ?thesis using least(2) [of a b] that by (simp add: set_bt_insert [OF assms(1)])
  qed
  then show ?thesis using in_m assms(1) by (auto simp: x intro: responsible_eqI)
qed simp

section \<open>The ring\<close>

definition ring_ok :: "hash_ring \<Rightarrow> bool" where
  "ring_ok r \<longleftrightarrow> bt_ok (hr_ring r)"

lemma ring_get_node_responsible:
  "ring_get_node r key = map_option (vn_node_id \<circ> snd) (responsible (hash_key key) (hr_ring r))"
  by (auto simp: ring_get_node_def responsible_def bt_from_def split: list.splits)

lemma ring_ok_new: "ring_ok (ring_new k)"
  by (simp add: ring_ok_def ring_new_def bt_ok_def)

text \<open>Inserting the virtual nodes of a node.\<close>

definition with_vnodes :: "virtual_node btree \<Rightarrow> node_id \<Rightarrow> nat list \<Rightarrow> virtual_node btree" where
  "with_vnodes m n is =
     foldl (\<lambda>m i. bt_insert (vn_hash_position \<lparr>vn_node_id = n, vn_replica_index = i\<rparr>)
              \<lparr>vn_node_id = n, vn_replica_index = i\<rparr> m) m is"

lemma ring_add_alt:
  "ring_add_node r n =
     (if n \<in> set (hr_nodes r) then r
      else r\<lparr>hr_ring := with_vnodes (hr_ring r) n [0..<hr_virtual r], hr_nodes := hr_nodes r @ [n]\<rparr>)"
  by (simp add: ring_add_node_def with_vnodes_def Let_def)

lemma bt_ok_with_vnodes: "bt_ok m \<Longrightarrow> bt_ok (with_vnodes m n is)"
  unfolding with_vnodes_def by (induction "is" arbitrary: m) (simp_all add: bt_ok_insert)

lemma bt_insert_not_Nil: "bt_insert k v m \<noteq> []"
  by (cases m) (auto split: if_splits)

lemma with_vnodes_Nil: "with_vnodes m n is = [] \<Longrightarrow> m = []"
  unfolding with_vnodes_def
proof (induction "is" arbitrary: m)
  case (Cons i "is")
  then show ?case using bt_insert_not_Nil by fastforce
qed simp

lemma responsible_with_vnodes:
  assumes "bt_ok m" "responsible h (with_vnodes m n is) = Some x"
  shows "vn_node_id (snd x) = n \<or> responsible h m = Some x"
  using assms unfolding with_vnodes_def
proof (induction "is" arbitrary: m)
  case (Cons i "is")
  let ?v = "\<lparr>vn_node_id = n, vn_replica_index = i\<rparr>"
  have "vn_node_id (snd x) = n \<or> responsible h (bt_insert (vn_hash_position ?v) ?v m) = Some x"
    using Cons.prems by (intro Cons.IH) (simp_all add: bt_ok_insert)
  then show ?case
    using responsible_insert [OF Cons.prems(1), of h "vn_hash_position ?v" ?v x] by auto
qed simp

lemma ring_ok_add: "ring_ok r \<Longrightarrow> ring_ok (ring_add_node r n)"
  by (simp add: ring_ok_def ring_add_alt bt_ok_with_vnodes)

lemma ring_ok_remove: "ring_ok r \<Longrightarrow> ring_ok (ring_remove_node r n)"
  by (simp add: ring_ok_def ring_remove_node_def bt_retain_def bt_ok_filter)

lemma ring_remove_keeps:
  assumes "ring_ok r" "ring_get_node r key = Some m" "m \<noteq> n"
  shows "ring_get_node (ring_remove_node r n) key = Some m"
proof -
  obtain k v where kv: "responsible (hash_key key) (hr_ring r) = Some (k, v)" "vn_node_id v = m"
    using assms(2) by (auto simp: ring_get_node_responsible)
  then have "responsible (hash_key key) (hr_ring (ring_remove_node r n)) = Some (k, v)"
    using assms responsible_filter [of "hr_ring r" "hash_key key" k v]
    by (simp add: ring_ok_def ring_remove_node_def bt_retain_def)
  with kv show ?thesis by (simp add: ring_get_node_responsible)
qed

lemma ring_add_moves:
  assumes "ring_ok r"
  shows "ring_get_node (ring_add_node r n) key \<in> {ring_get_node r key, Some n}"
proof (cases "n \<in> set (hr_nodes r)")
  case True
  then show ?thesis by (simp add: ring_add_node_def)
next
  case False
  let ?m = "with_vnodes (hr_ring r) n [0..<hr_virtual r]"
  have m: "hr_ring (ring_add_node r n) = ?m" using False by (simp add: ring_add_alt)
  show ?thesis
  proof (cases "responsible (hash_key key) ?m")
    case None
    then have "hr_ring r = []" by (simp add: responsible_None with_vnodes_Nil)
    then have "responsible (hash_key key) (hr_ring r) = None" by (simp add: responsible_None)
    with None show ?thesis by (simp add: ring_get_node_responsible m)
  next
    case (Some x)
    then show ?thesis
      using responsible_with_vnodes [OF _ Some] assms
      by (auto simp: ring_get_node_responsible m ring_ok_def)
  qed
qed

section \<open>The interface of a placement function\<close>

text \<open>
  \<^verbatim>\<open>ConsistentHash\<close>: what the router relies on when membership changes.  Keys of a node
  that stays do not move when another node leaves, and a key moves to the new node or not
  at all when one joins.
\<close>

locale consistent_hash =
  fixes ok :: "'r \<Rightarrow> bool" and route :: "'r \<Rightarrow> string \<Rightarrow> node_id option"
    and add :: "'r \<Rightarrow> node_id \<Rightarrow> 'r" and remove :: "'r \<Rightarrow> node_id \<Rightarrow> 'r"
  assumes ok_add: "ok r \<Longrightarrow> ok (add r n)" and ok_remove: "ok r \<Longrightarrow> ok (remove r n)"
    and remove_keeps: "ok r \<Longrightarrow> route r key = Some m \<Longrightarrow> m \<noteq> n \<Longrightarrow> route (remove r n) key = Some m"
    and add_moves: "ok r \<Longrightarrow> route (add r n) key \<in> {route r key, Some n}"
begin

lemma removals_keep:
  "ok r \<Longrightarrow> route r key = Some m \<Longrightarrow> m \<notin> set ns \<Longrightarrow> route (foldl remove r ns) key = Some m"
  by (induction ns arbitrary: r) (auto simp: remove_keeps ok_remove)

lemma ok_additions: "ok r \<Longrightarrow> ok (foldl add r ns)"
  by (induction ns arbitrary: r) (auto simp: ok_add)

lemma additions_move:
  "ok r \<Longrightarrow> route (foldl add r ns) key \<in> insert (route r key) (Some ` set ns)"
proof (induction ns arbitrary: r)
  case (Cons n ns)
  then have "route (foldl add (add r n) ns) key \<in> insert (route (add r n) key) (Some ` set ns)"
    by (intro Cons.IH) (simp add: ok_add)
  with add_moves [OF Cons.prems, of n key] show ?case by auto
qed simp

text \<open>Nodes that come and go leave the keys of a node that stays where they were.\<close>

lemma churn:
  assumes "ok r" "route r key = Some m" "m \<notin> set ns"
    and "route (foldl add r ns) key = Some m"
  shows "route (foldl remove (foldl add r ns) ns) key = Some m"
  using assms by (intro removals_keep) (auto simp: ok_additions)

end

interpretation ring: consistent_hash ring_ok ring_get_node ring_add_node ring_remove_node
  by unfold_locales (use ring_ok_add ring_ok_remove ring_remove_keeps ring_add_moves in auto)

subsection \<open>Rendezvous hashing provides it as well\<close>

lemma max_by_key_foldl:
  fixes f :: "'a \<Rightarrow> u64"
  defines "step \<equiv> \<lambda>best y. if f best \<le> f y then y else best"
  shows "foldl step x xs \<in> set (x # xs) \<and> (\<forall>y \<in> set (x # xs). f y \<le> f (foldl step x xs))"
proof (induction xs arbitrary: x)
  case (Cons y ys)
  have "f x \<le> f (step x y)" "f y \<le> f (step x y)" "step x y \<in> {x, y}"
    by (auto simp: step_def)
  with Cons.IH [of "step x y"] show ?case by (auto intro: order_trans)
qed simp

lemma max_by_key_snoc:
  "max_by_key f (xs @ [y]) =
     (case max_by_key f xs of None \<Rightarrow> Some y | Some x \<Rightarrow> Some (if f x \<le> f y then y else x))"
  by (cases xs) simp_all

lemma max_by_key_in: "max_by_key f xs = Some m \<Longrightarrow> m \<in> set xs \<and> (\<forall>y \<in> set xs. f y \<le> f m)"
  by (cases xs) (use max_by_key_foldl [where f = f] in \<open>auto simp: split_beta\<close>)

lemma max_by_key_filter:
  "max_by_key f xs = Some m \<Longrightarrow> P m \<Longrightarrow> max_by_key f (filter P xs) = Some m"
proof (induction xs arbitrary: m rule: rev_induct)
  case (snoc y xs)
  show ?case
  proof (cases "max_by_key f xs")
    case None
    then have "xs = []" by (cases xs) auto
    with snoc show ?thesis by simp
  next
    case (Some x)
    show ?thesis
    proof (cases "f x \<le> f y")
      case True
      then have my: "m = y" using snoc.prems Some by (simp add: max_by_key_snoc)
      have le: "\<forall>z \<in> set xs. f z \<le> f y" using max_by_key_in [OF Some] True by auto
      have "max_by_key f (filter P xs @ [y]) = Some y"
        unfolding max_by_key_snoc using le
        by (auto split: option.splits dest: max_by_key_in)
      with my snoc.prems show ?thesis by simp
    next
      case False
      then have "m = x" using snoc.prems Some by (simp add: max_by_key_snoc)
      with snoc Some False show ?thesis by (simp add: max_by_key_snoc)
    qed
  qed
qed simp

lemma rv_add_moves: "rv_get_node (rv_add_node r n) key \<in> {rv_get_node r key, Some n}"
  by (auto simp: rv_get_node_def rv_add_node_def max_by_key_snoc split: option.splits)

interpretation rendezvous: consistent_hash "\<lambda>_. True" rv_get_node rv_add_node rv_remove_node
proof unfold_locales
  show "rv_get_node (rv_remove_node r n) key = Some m"
    if "rv_get_node r key = Some m" "m \<noteq> n" for r key m n
    using that max_by_key_filter [of "rv_weight key" "rv_nodes r" m "\<lambda>x. x \<noteq> n"]
    by (simp add: rv_get_node_def rv_remove_node_def)
qed (use rv_add_moves in auto)

section \<open>Replica sets\<close>

definition vnode_ids :: "virtual_node list \<Rightarrow> node_id set" where
  "vnode_ids vs = vn_node_id ` set vs"

lemma collect_nodes_Inr:
  assumes "collect_nodes count vs result = Inr res" "distinct result" "length result < count"
  shows "distinct res \<and> length res = count \<and> set res \<subseteq> set result \<union> vnode_ids vs \<and>
    (\<exists>ys. res = result @ ys)"
  using assms
proof (induction vs arbitrary: result)
  case (Cons v vs)
  show ?case
  proof (cases "vn_node_id v \<in> set result")
    case True
    then have "distinct res \<and> length res = count \<and> set res \<subseteq> set result \<union> vnode_ids vs \<and>
        (\<exists>ys. res = result @ ys)"
      using Cons.prems by (intro Cons.IH) simp_all
    then show ?thesis by (auto simp: vnode_ids_def)
  next
    case new: False
    let ?r = "result @ [vn_node_id v]"
    show ?thesis
    proof (cases "count \<le> length ?r")
      case True
      then show ?thesis using Cons.prems new by (auto simp: vnode_ids_def Let_def)
    next
      case False
      then have "distinct res \<and> length res = count \<and> set res \<subseteq> set ?r \<union> vnode_ids vs \<and>
          (\<exists>ys. res = ?r @ ys)"
        using Cons.prems new by (intro Cons.IH) (simp_all add: Let_def)
      then show ?thesis by (auto simp: vnode_ids_def)
    qed
  qed
qed simp

lemma collect_nodes_Inl:
  assumes "collect_nodes count vs result = Inl res" "distinct result" "length result < count"
  shows "distinct res \<and> length res < count \<and> set res = set result \<union> vnode_ids vs \<and>
    (\<exists>ys. res = result @ ys)"
  using assms
proof (induction vs arbitrary: result)
  case (Cons v vs)
  show ?case
  proof (cases "vn_node_id v \<in> set result")
    case True
    then have "distinct res \<and> length res < count \<and> set res = set result \<union> vnode_ids vs \<and>
        (\<exists>ys. res = result @ ys)"
      using Cons.prems by (intro Cons.IH) simp_all
    with True show ?thesis by (auto simp: vnode_ids_def)
  next
    case new: False
    let ?r = "result @ [vn_node_id v]"
    have "\<not> count \<le> length ?r" using Cons.prems new by (auto simp: Let_def split: if_splits)
    then have "distinct res \<and> length res < count \<and> set res = set ?r \<union> vnode_ids vs \<and>
        (\<exists>ys. res = ?r @ ys)"
      using Cons.prems new by (intro Cons.IH) (simp_all add: Let_def)
    then show ?thesis by (auto simp: vnode_ids_def)
  qed
qed (simp add: vnode_ids_def)

definition ring_members :: "hash_ring \<Rightarrow> node_id set" where
  "ring_members r = vnode_ids (map snd (hr_ring r))"

lemma vnode_ids_from: "vnode_ids (map snd (bt_from h m)) \<subseteq> vnode_ids (map snd m)"
  by (auto simp: vnode_ids_def bt_from_def)

section \<open>Properties\<close>

text \<open>Consistent hashing moves few keys.  When nodes leave the ring, a key served by a node
  that stays does not move; when nodes join, a key stays where it is or moves to one of the
  nodes that joined.\<close>

theorem ring_minimal_movement:
  assumes "ring_ok r"
  shows "(ring_get_node r key = Some m \<and> m \<notin> set ns \<longrightarrow>
      ring_get_node (foldl ring_remove_node r ns) key = Some m) \<and>
    ring_get_node (foldl ring_add_node r ns) key \<in> insert (ring_get_node r key) (Some ` set ns) \<and>
    ring_ok (foldl ring_add_node r ns)"
  using ring.removals_keep [OF assms] ring.additions_move [OF assms] ring.ok_additions [OF assms]
  by blast

theorem ring_minimal_movement_witness:
  "ring_get_node (foldl ring_remove_node (ring_add_node (ring_new 1) ''a'') [''b'', ''c'']) ''k'' = Some ''a''"
proof -
  let ?r = "ring_add_node (ring_new 1) ''a''"
  have "ring_get_node ?r ''k'' = Some ''a''"
    by (simp add: ring_get_node_responsible ring_add_node_def ring_new_def responsible_def
        bt_from_def split: list.splits)
  then show ?thesis
    using ring_minimal_movement [OF ring_ok_add [OF ring_ok_new], of 1 "''a''" "''k''" "''a''" "[''b'', ''c'']"]
    by simp
qed

text \<open>Rendezvous hashing has the same property, and its choice is a node of maximal weight.\<close>

theorem rendezvous_minimal_movement:
  "(rv_get_node r key = Some m \<and> m \<notin> set ns \<longrightarrow>
      rv_get_node (foldl rv_remove_node r ns) key = Some m) \<and>
    rv_get_node (foldl rv_add_node r ns) key \<in> insert (rv_get_node r key) (Some ` set ns) \<and>
    (rv_get_node r key = Some m \<longrightarrow>
      m \<in> set (rv_nodes r) \<and> list_all (\<lambda>n. rv_weight key n \<le> rv_weight key m) (rv_nodes r))"
proof (intro conjI impI)
  show "rv_get_node (foldl rv_remove_node r ns) key = Some m"
    if "rv_get_node r key = Some m \<and> m \<notin> set ns"
    using that by (intro rendezvous.removals_keep) auto
  show "rv_get_node (foldl rv_add_node r ns) key \<in> insert (rv_get_node r key) (Some ` set ns)"
    by (intro rendezvous.additions_move) auto
  assume "rv_get_node r key = Some m"
  then have "max_by_key (rv_weight key) (rv_nodes r) = Some m" by (simp add: rv_get_node_def)
  from max_by_key_in [OF this]
  show "m \<in> set (rv_nodes r)" "list_all (\<lambda>n. rv_weight key n \<le> rv_weight key m) (rv_nodes r)"
    by (auto simp: list_all_iff)
qed

theorem rendezvous_minimal_movement_witness:
  "rv_get_node (rv_remove_node \<lparr>rv_nodes = [''a'', ''b'']\<rparr> ''c'') ''k'' =
     rv_get_node \<lparr>rv_nodes = [''a'', ''b'']\<rparr> ''k''"
proof -
  obtain m where m: "rv_get_node \<lparr>rv_nodes = [''a'', ''b'']\<rparr> ''k'' = Some m"
    by (simp add: rv_get_node_def)
  have "m \<noteq> ''c''"
    using rendezvous_minimal_movement [of "\<lparr>rv_nodes = [''a'', ''b'']\<rparr>" "''k''" m "[]"] m by auto
  then show ?thesis
    using rendezvous_minimal_movement [of "\<lparr>rv_nodes = [''a'', ''b'']\<rparr>" "''k''" m "[''c'']"] m by simp
qed

text \<open>A replica set has no duplicates, only nodes of the ring, and as many nodes as asked for or
  as there are.\<close>

theorem ring_replica_set:
  assumes "hr_ring r \<noteq> []" "count \<noteq> 0"
  shows "distinct (ring_get_nodes r key count) \<and> set (ring_get_nodes r key count) \<subseteq> ring_members r \<and>
    length (ring_get_nodes r key count) = min count (card (ring_members r))"
proof -
  let ?vs = "map snd (hr_ring r)" and ?ws = "map snd (bt_from (hash_key key) (hr_ring r))"
  have fin: "finite (ring_members r)" by (simp add: ring_members_def vnode_ids_def)
  have full: "distinct res \<and> set res \<subseteq> ring_members r \<and> length res = min count (card (ring_members r))"
    if "distinct res" "length res = count" "set res \<subseteq> ring_members r" for res
    using that distinct_card [of res] card_mono [OF fin that(3)] by simp
  have all: "distinct res \<and> set res \<subseteq> ring_members r \<and> length res = min count (card (ring_members r))"
    if "distinct res" "length res < count" "set res = ring_members r" for res
    using that distinct_card [of res] by simp
  show ?thesis
  proof (cases "collect_nodes count ?ws []")
    case (Inr res)
    then show ?thesis
      using collect_nodes_Inr [OF Inr] vnode_ids_from [of "hash_key key" "hr_ring r"] assms full [of res]
      by (auto simp: ring_get_nodes_def ring_members_def)
  next
    case (Inl res1)
    have r1: "distinct res1" "length res1 < count" "set res1 \<subseteq> ring_members r"
      using collect_nodes_Inl [OF Inl] vnode_ids_from [of "hash_key key" "hr_ring r"] assms
      by (auto simp: ring_members_def)
    show ?thesis
    proof (cases "collect_nodes count ?vs res1")
      case (Inr res)
      then show ?thesis
        using collect_nodes_Inr [OF Inr r1(1,2)] r1 Inl assms full [of res]
        by (auto simp: ring_get_nodes_def ring_members_def)
    next
      case (Inl res)
      then show ?thesis
        using collect_nodes_Inl [OF Inl r1(1,2)] r1 \<open>collect_nodes count ?ws [] = Inl res1\<close>
          assms all [of res]
        by (auto simp: ring_get_nodes_def ring_members_def)
    qed
  qed
qed

theorem ring_replica_set_witness:
  "length (ring_get_nodes (ring_add_node (ring_new 1) ''a'') ''k'' 3) = 1"
  using ring_replica_set [of "ring_add_node (ring_new 1) ''a''" 3 "''k''"]
  by (simp add: ring_add_node_def ring_new_def ring_members_def vnode_ids_def)

end
