(* ===== verification/Shards.thy ===== *)
theory Shards
  imports ByteCodec HashRing
begin

text \<open>
  Shards, partitions and routing, \<^verbatim>\<open>shard.rs\<close>, \<^verbatim>\<open>partition.rs\<close> and \<^verbatim>\<open>router.rs\<close> of
  \<^verbatim>\<open>crates/aegis-replication/src\<close>: partition keys and their hash, partition strategies and
  ranges, the shard manager with its index of nodes, the routing table and the router, and the
  extraction of partition keys from queries.  Readings of the clock are the argument \<open>now\<close>.
  Changes of letter case are those of ASCII.
\<close>

section \<open>Partition keys\<close>

datatype partition_key =
    PkString string | PkInt int | PkComposite "partition_key list" | PkUuid string | PkBytes bytes

text \<open>\<^verbatim>\<open>PartitionHasher\<close>.\<close>

definition pkh_new :: u64 where
  "pkh_new = 0x517cc1b727220a95"

definition pkh_write :: "u64 \<Rightarrow> bytes \<Rightarrow> u64" where
  "pkh_write state bs = foldl (\<lambda>st b. (st XOR ucast b) * 0x5851f42d4c957f2d) state bs"

text \<open>The derived \<^verbatim>\<open>Hash\<close>: the number of the variant as eight bytes; a string's bytes and
  \<^verbatim>\<open>0xff\<close>; a vector's length and its elements.\<close>

definition hash_usize :: "u64 \<Rightarrow> nat \<Rightarrow> u64" where
  "hash_usize st n = pkh_write st (put_u64_le (of_nat n))"

definition hash_str :: "u64 \<Rightarrow> string \<Rightarrow> u64" where
  "hash_str st s = pkh_write (pkh_write st (str_bytes s)) [0xff]"

fun hash_partition_key :: "u64 \<Rightarrow> partition_key \<Rightarrow> u64" where
  "hash_partition_key st (PkString s) = hash_str (hash_usize st 0) s"
| "hash_partition_key st (PkInt i) = pkh_write (hash_usize st 1) (put_u64_le (of_int i))"
| "hash_partition_key st (PkComposite ks) =
     foldl hash_partition_key (hash_usize (hash_usize st 2) (length ks)) ks"
| "hash_partition_key st (PkUuid u) = hash_str (hash_usize st 3) u"
| "hash_partition_key st (PkBytes b) = pkh_write (hash_usize (hash_usize st 4) (length b)) b"

definition hash_value :: "partition_key \<Rightarrow> u64" where
  "hash_value k = hash_partition_key pkh_new k"

fun pk_to_bytes :: "partition_key \<Rightarrow> bytes" where
  "pk_to_bytes (PkString s) = str_bytes s"
| "pk_to_bytes (PkInt i) = put_u64_le (of_int i)"
| "pk_to_bytes (PkComposite ks) = concat (map (\<lambda>k. pk_to_bytes k @ [0]) ks)"
| "pk_to_bytes (PkUuid u) = str_bytes u"
| "pk_to_bytes (PkBytes b) = b"

text \<open>\<^verbatim>\<open>format!("{:?}", key)\<close>.\<close>

fun debug_key :: "partition_key \<Rightarrow> string" where
  "debug_key (PkString s) = ''String('' @ debug_str s @ '')''"
| "debug_key (PkInt i) = ''Int('' @ i64_to_string i @ '')''"
| "debug_key (PkComposite ks) = ''Composite(['' @ commas (map debug_key ks) @ ''])''"
| "debug_key (PkUuid u) = ''Uuid('' @ debug_str u @ '')''"
| "debug_key (PkBytes b) = ''Bytes(['' @ commas (map (\<lambda>x. nat_to_string (unat x)) b) @ ''])''"

section \<open>Partition strategies\<close>

record range_boundary =
  rb_partition_name :: string
  rb_upper_bound :: u64

record list_mapping =
  lp_partition :: u32
  lp_values :: "string list"

datatype time_interval = Hour | Day | Week | Month | Year | Custom u64

fun to_seconds :: "time_interval \<Rightarrow> u64" where
  "to_seconds Hour = 3600"
| "to_seconds Day = 86400"
| "to_seconds Week = 604800"
| "to_seconds Month = 2592000"
| "to_seconds Year = 31536000"
| "to_seconds (Custom s) = s"

datatype partition_strategy =
    HashStrategy "string list" u32
  | RangeStrategy string "range_boundary list"
  | ListStrategy string "list_mapping list"
  | RoundRobin u32
  | TimeStrategy string time_interval

fun range_partition :: "nat \<Rightarrow> u64 \<Rightarrow> range_boundary list \<Rightarrow> nat" where
  "range_partition i h [] = i"
| "range_partition i h (b # bs) = (if h < rb_upper_bound b then i else range_partition (i + 1) h bs)"

text \<open>A division by zero panics; \<^verbatim>\<open>as u32\<close> keeps the low 32 bits.\<close>

definition mod_partition :: "u64 \<Rightarrow> u32 \<Rightarrow> u32 option" where
  "mod_partition h n = (if n = 0 then None else Some (ucast (h mod ucast n)))"

fun partition_for_key :: "partition_strategy \<Rightarrow> partition_key \<Rightarrow> u32 option" where
  "partition_for_key (HashStrategy _ n) k = mod_partition (hash_value k) n"
| "partition_for_key (RangeStrategy _ bs) k = Some (of_nat (range_partition 0 (hash_value k) bs))"
| "partition_for_key (ListStrategy _ ms) k =
     (let key_str = (case k of PkString s \<Rightarrow> s | _ \<Rightarrow> debug_key k) in
      Some (case find (\<lambda>m. key_str \<in> set (lp_values m)) ms of None \<Rightarrow> 0 | Some m \<Rightarrow> lp_partition m))"
| "partition_for_key (RoundRobin n) k = mod_partition (hash_value k) n"
| "partition_for_key (TimeStrategy _ iv) k =
     (case k of
        PkInt ts \<Rightarrow> if to_seconds iv = 0 then None else Some (ucast ((of_int ts :: u64) div to_seconds iv))
      | _ \<Rightarrow> Some 0)"

text \<open>\<^verbatim>\<open>KeyExtractor::extract\<close>.\<close>

fun extract_all :: "(string, string) hmap \<Rightarrow> string list \<Rightarrow> partition_key list option" where
  "extract_all vs [] = Some []"
| "extract_all vs (c # cs) =
     (case hm_get vs c of
        None \<Rightarrow> None
      | Some v \<Rightarrow> (case extract_all vs cs of None \<Rightarrow> None | Some ks \<Rightarrow> Some (PkString v # ks)))"

definition extract_key :: "string list \<Rightarrow> (string, string) hmap \<Rightarrow> partition_key option" where
  "extract_key columns vs =
     (case columns of
        [c] \<Rightarrow> map_option PkString (hm_get vs c)
      | _ \<Rightarrow> map_option PkComposite (extract_all vs columns))"

section \<open>Partition ranges\<close>

record partition_range =
  pr_start :: u64
  pr_end :: u64
  pr_inclusive_start :: bool
  pr_inclusive_end :: bool

definition pr_new :: "u64 \<Rightarrow> u64 \<Rightarrow> partition_range" where
  "pr_new s e = \<lparr>pr_start = s, pr_end = e, pr_inclusive_start = True, pr_inclusive_end = False\<rparr>"

definition pr_full :: partition_range where
  "pr_full = pr_new 0 (- 1)"

definition pr_contains :: "partition_range \<Rightarrow> u64 \<Rightarrow> bool" where
  "pr_contains r h \<longleftrightarrow>
     (if pr_inclusive_start r then h \<ge> pr_start r else h > pr_start r)
     \<and> (if pr_inclusive_end r then h \<le> pr_end r else h < pr_end r)"

definition pr_part :: "partition_range \<Rightarrow> nat \<Rightarrow> u64 \<Rightarrow> nat \<Rightarrow> partition_range" where
  "pr_part r n width i =
     \<lparr>pr_start = pr_start r + of_nat i * width,
      pr_end = (if i = n - 1 then pr_end r else pr_start r + (of_nat i + 1) * width),
      pr_inclusive_start = True, pr_inclusive_end = (i = n - 1)\<rparr>"

definition pr_split :: "partition_range \<Rightarrow> u32 \<Rightarrow> partition_range list" where
  "pr_split r num_parts =
     (if num_parts = 0 then [r]
      else let width = (pr_end r - pr_start r) div ucast num_parts in
        map (pr_part r (unat num_parts) width) [0..<unat num_parts])"

definition pr_merge :: "partition_range \<Rightarrow> partition_range \<Rightarrow> partition_range option" where
  "pr_merge a b =
     (if pr_end a = pr_start b then
        Some \<lparr>pr_start = pr_start a, pr_end = pr_end b, pr_inclusive_start = pr_inclusive_start a,
              pr_inclusive_end = pr_inclusive_end b\<rparr>
      else if pr_end b = pr_start a then
        Some \<lparr>pr_start = pr_start b, pr_end = pr_end a, pr_inclusive_start = pr_inclusive_start b,
              pr_inclusive_end = pr_inclusive_end a\<rparr>
      else None)"

definition pr_size :: "partition_range \<Rightarrow> u64" where
  "pr_size r = pr_end r - pr_start r"

section \<open>Shards\<close>

type_synonym shard_id = u32

datatype shard_state =
  ShCreating | ShActive | ShMigrating | ShSplitting | ShMerging | ShInactive | ShDeleting

record shard =
  sh_id :: shard_id
  sh_state :: shard_state
  sh_primary :: node_id
  sh_replicas :: "node_id list"
  sh_range_start :: "u64 option"
  sh_range_end :: "u64 option"
  sh_created_at :: u64
  sh_updated_at :: u64
  sh_size_bytes :: u64
  sh_row_count :: u64
  sh_metadata :: "(string, string) hmap"

definition shard_new :: "u64 \<Rightarrow> shard_id \<Rightarrow> node_id \<Rightarrow> shard" where
  "shard_new now i primary =
     \<lparr>sh_id = i, sh_state = ShCreating, sh_primary = primary, sh_replicas = [], sh_range_start = None,
      sh_range_end = None, sh_created_at = now, sh_updated_at = now, sh_size_bytes = 0, sh_row_count = 0,
      sh_metadata = []\<rparr>"

definition shard_with_range :: "u64 \<Rightarrow> shard_id \<Rightarrow> node_id \<Rightarrow> u64 \<Rightarrow> u64 \<Rightarrow> shard" where
  "shard_with_range now i primary s e =
     (shard_new now i primary)\<lparr>sh_range_start := Some s, sh_range_end := Some e\<rparr>"

definition shard_add_replica :: "u64 \<Rightarrow> node_id \<Rightarrow> shard \<Rightarrow> shard" where
  "shard_add_replica now node s =
     (if node \<notin> set (sh_replicas s) \<and> node \<noteq> sh_primary s
      then s\<lparr>sh_replicas := sh_replicas s @ [node], sh_updated_at := now\<rparr> else s)"

definition shard_remove_replica :: "u64 \<Rightarrow> node_id \<Rightarrow> shard \<Rightarrow> shard" where
  "shard_remove_replica now node s =
     s\<lparr>sh_replicas := filter (\<lambda>n. n \<noteq> node) (sh_replicas s), sh_updated_at := now\<rparr>"

definition shard_set_primary :: "u64 \<Rightarrow> node_id \<Rightarrow> shard \<Rightarrow> shard" where
  "shard_set_primary now node s = s\<lparr>sh_primary := node, sh_updated_at := now\<rparr>"

definition shard_set_state :: "u64 \<Rightarrow> shard_state \<Rightarrow> shard \<Rightarrow> shard" where
  "shard_set_state now st s = s\<lparr>sh_state := st, sh_updated_at := now\<rparr>"

definition shard_contains_key :: "shard \<Rightarrow> u64 \<Rightarrow> bool" where
  "shard_contains_key s h \<longleftrightarrow>
     (case (sh_range_start s, sh_range_end s) of
        (Some a, Some b) \<Rightarrow> h \<ge> a \<and> h < b
      | _ \<Rightarrow> True)"

definition shard_is_active :: "shard \<Rightarrow> bool" where
  "shard_is_active s \<longleftrightarrow> sh_state s = ShActive"

definition shard_is_readable :: "shard \<Rightarrow> bool" where
  "shard_is_readable s \<longleftrightarrow> sh_state s \<in> {ShActive, ShMigrating, ShSplitting}"

definition shard_is_writable :: "shard \<Rightarrow> bool" where
  "shard_is_writable s \<longleftrightarrow> sh_state s = ShActive"

definition shard_all_nodes :: "shard \<Rightarrow> node_id list" where
  "shard_all_nodes s = sh_primary s # sh_replicas s"

definition shard_replication_factor :: "shard \<Rightarrow> nat" where
  "shard_replication_factor s = 1 + length (sh_replicas s)"

definition shard_update_stats :: "u64 \<Rightarrow> u64 \<Rightarrow> u64 \<Rightarrow> shard \<Rightarrow> shard" where
  "shard_update_stats now bytes rows s = s\<lparr>sh_size_bytes := bytes, sh_row_count := rows, sh_updated_at := now\<rparr>"

section \<open>The shard manager\<close>

record shard_manager =
  sg_shards :: "(shard_id, shard) hmap"
  sg_node_shards :: "(node_id, shard_id list) hmap"
  sg_num_shards :: u32
  sg_replication_factor :: nat

definition sg_new :: "u32 \<Rightarrow> nat \<Rightarrow> shard_manager" where
  "sg_new num rf = \<lparr>sg_shards = [], sg_node_shards = [], sg_num_shards = num, sg_replication_factor = rf\<rparr>"

definition sg_put :: "shard \<Rightarrow> shard_manager \<Rightarrow> shard_manager" where
  "sg_put s m = m\<lparr>sg_shards := hm_insert (sh_id s) s (sg_shards m),
                  sg_node_shards := hm_upsert (sh_primary s) [] (\<lambda>l. l @ [sh_id s]) (sg_node_shards m)\<rparr>"

definition create_shard :: "u64 \<Rightarrow> shard_manager \<Rightarrow> shard_id \<Rightarrow> node_id \<Rightarrow> shard \<times> shard_manager" where
  "create_shard now m i primary = (let s = shard_new now i primary in (s, sg_put s m))"

definition create_shard_with_range ::
    "u64 \<Rightarrow> shard_manager \<Rightarrow> shard_id \<Rightarrow> node_id \<Rightarrow> u64 \<Rightarrow> u64 \<Rightarrow> shard \<times> shard_manager" where
  "create_shard_with_range now m i primary a b =
     (let s = shard_with_range now i primary a b in (s, sg_put s m))"

definition get_shard :: "shard_manager \<Rightarrow> shard_id \<Rightarrow> shard option" where
  "get_shard m i = hm_get (sg_shards m) i"

definition get_node_shards :: "shard_manager \<Rightarrow> node_id \<Rightarrow> shard_id list" where
  "get_node_shards m n = hm_get_or (sg_node_shards m) n []"

definition update_shard_state :: "u64 \<Rightarrow> shard_manager \<Rightarrow> shard_id \<Rightarrow> shard_state \<Rightarrow> bool \<times> shard_manager" where
  "update_shard_state now m i st =
     (case hm_get (sg_shards m) i of
        None \<Rightarrow> (False, m)
      | Some s \<Rightarrow> (True, m\<lparr>sg_shards := hm_insert i (shard_set_state now st s) (sg_shards m)\<rparr>))"

definition sg_add_replica :: "u64 \<Rightarrow> shard_manager \<Rightarrow> shard_id \<Rightarrow> node_id \<Rightarrow> bool \<times> shard_manager" where
  "sg_add_replica now m i node =
     (case hm_get (sg_shards m) i of
        None \<Rightarrow> (False, m)
      | Some s \<Rightarrow>
          (True, m\<lparr>sg_shards := hm_insert i (shard_add_replica now node s) (sg_shards m),
                   sg_node_shards := hm_upsert node [] (\<lambda>l. l @ [i]) (sg_node_shards m)\<rparr>))"

definition drop_shard_of :: "shard_id \<Rightarrow> (node_id, shard_id list) hmap \<Rightarrow> node_id \<Rightarrow> (node_id, shard_id list) hmap" where
  "drop_shard_of i idx node =
     (case hm_get idx node of
        None \<Rightarrow> idx
      | Some l \<Rightarrow> hm_insert node (filter (\<lambda>s. s \<noteq> i) l) idx)"

definition remove_shard :: "shard_manager \<Rightarrow> shard_id \<Rightarrow> shard option \<times> shard_manager" where
  "remove_shard m i =
     (case hm_get (sg_shards m) i of
        None \<Rightarrow> (None, m)
      | Some s \<Rightarrow>
          (Some s, m\<lparr>sg_shards := hm_remove i (sg_shards m),
                     sg_node_shards := foldl (drop_shard_of i) (sg_node_shards m) (sh_primary s # sh_replicas s)\<rparr>))"

definition get_shard_for_key :: "shard_manager \<Rightarrow> u64 \<Rightarrow> shard option" where
  "get_shard_for_key m h = hm_get (sg_shards m) (ucast (h mod ucast (sg_num_shards m)))"

definition get_active_shards :: "shard_manager \<Rightarrow> shard list" where
  "get_active_shards m = filter shard_is_active (hm_values (sg_shards m))"

text \<open>One shard of \<^verbatim>\<open>initialize_shards\<close>: create, add replicas on the following nodes, activate.\<close>

definition init_shard :: "u64 \<Rightarrow> node_id list \<Rightarrow> u64 \<Rightarrow> shard_manager \<Rightarrow> nat \<Rightarrow> shard_manager" where
  "init_shard now nodes width m i =
     (let primary_idx = i mod length nodes;
          a = of_nat i * width;
          b = (if i = unat (sg_num_shards m) - 1 then - 1 else (of_nat i + 1) * width);
          m1 = snd (create_shard_with_range now m (of_nat i) (nodes ! primary_idx) a b);
          m2 = foldl (\<lambda>m r. snd (sg_add_replica now m (of_nat i) (nodes ! ((primary_idx + r) mod length nodes))))
                 m1 [1..<min (sg_replication_factor m) (length nodes)]
      in snd (update_shard_state now m2 (of_nat i) ShActive))"

text \<open>With no shards configured the division panics.\<close>

definition initialize_shards :: "u64 \<Rightarrow> shard_manager \<Rightarrow> node_id list \<Rightarrow> shard_manager option" where
  "initialize_shards now m nodes =
     (if nodes = [] then Some m
      else if sg_num_shards m = 0 then None
      else let width = (- 1) div ucast (sg_num_shards m) in
        Some (foldl (init_shard now nodes width) m [0..<unat (sg_num_shards m)]))"

record shard_stats =
  ss_total :: nat
  ss_active :: nat
  ss_migrating :: nat
  ss_size_bytes :: u64
  ss_row_count :: u64

definition sg_stats :: "shard_manager \<Rightarrow> shard_stats" where
  "sg_stats m =
     (let vs = hm_values (sg_shards m) in
      \<lparr>ss_total = length vs, ss_active = length (filter shard_is_active vs),
       ss_migrating = length (filter (\<lambda>s. sh_state s = ShMigrating) vs),
       ss_size_bytes = sum_list (map sh_size_bytes vs), ss_row_count = sum_list (map sh_row_count vs)\<rparr>)"

section \<open>Routing\<close>

record shard_route =
  srt_shard_id :: shard_id
  srt_node_id :: node_id
  srt_is_primary :: bool

datatype route_decision =
    RouteSingle shard_id node_id
  | RouteMulti "shard_route list"
  | RouteBroadcast "shard_id list"
  | RoutePrimary shard_id node_id
  | RouteAnyReplica shard_id "node_id list"

record routing_entry =
  re_shard_id :: shard_id
  re_primary :: node_id
  re_replicas :: "node_id list"
  re_range_start :: u64
  re_range_end :: u64

record routing_table =
  rt_entries :: "(shard_id, routing_entry) hmap"
  rt_version :: u64

definition rt_new :: routing_table where
  "rt_new = \<lparr>rt_entries = [], rt_version = 0\<rparr>"

definition rt_upsert :: "routing_table \<Rightarrow> routing_entry \<Rightarrow> routing_table" where
  "rt_upsert t e = \<lparr>rt_entries = hm_insert (re_shard_id e) e (rt_entries t), rt_version = rt_version t + 1\<rparr>"

definition rt_remove :: "routing_table \<Rightarrow> shard_id \<Rightarrow> routing_entry option \<times> routing_table" where
  "rt_remove t i =
     (case hm_get (rt_entries t) i of
        None \<Rightarrow> (None, t)
      | Some e \<Rightarrow> (Some e, \<lparr>rt_entries = hm_remove i (rt_entries t), rt_version = rt_version t + 1\<rparr>))"

definition find_shard :: "routing_table \<Rightarrow> u64 \<Rightarrow> routing_entry option" where
  "find_shard t h = find (\<lambda>e. h \<ge> re_range_start e \<and> h < re_range_end e) (hm_values (rt_entries t))"

definition entry_of_shard :: "shard \<Rightarrow> routing_entry" where
  "entry_of_shard s =
     \<lparr>re_shard_id = sh_id s, re_primary = sh_primary s, re_replicas = sh_replicas s,
      re_range_start = (case sh_range_start s of None \<Rightarrow> 0 | Some a \<Rightarrow> a),
      re_range_end = (case sh_range_end s of None \<Rightarrow> - 1 | Some b \<Rightarrow> b)\<rparr>"

definition from_shards :: "shard list \<Rightarrow> routing_table" where
  "from_shards ss = foldl (\<lambda>t s. rt_upsert t (entry_of_shard s)) rt_new ss"

record shard_router =
  sr_table :: routing_table
  sr_ring :: hash_ring
  sr_strategy :: partition_strategy
  sr_prefer_local :: bool
  sr_local_node :: "node_id option"

definition sr_new :: "partition_strategy \<Rightarrow> shard_router" where
  "sr_new st = \<lparr>sr_table = rt_new, sr_ring = default_ring, sr_strategy = st, sr_prefer_local = True,
     sr_local_node = None\<rparr>"

definition sr_with_local_node :: "partition_strategy \<Rightarrow> node_id \<Rightarrow> shard_router" where
  "sr_with_local_node st n = (sr_new st)\<lparr>sr_local_node := Some n\<rparr>"

definition update_routing :: "shard_router \<Rightarrow> shard list \<Rightarrow> shard_router" where
  "update_routing r ss =
     r\<lparr>sr_table := from_shards ss,
       sr_ring := foldl (\<lambda>ring s. foldl ring_add_node (ring_add_node ring (sh_primary s)) (sh_replicas s))
                    default_ring ss\<rparr>"

definition select_node :: "shard_router \<Rightarrow> routing_entry \<Rightarrow> node_id" where
  "select_node r e =
     (case (sr_prefer_local r, sr_local_node r) of
        (True, Some local) \<Rightarrow>
          if re_primary e = local then re_primary e
          else if local \<in> set (re_replicas e) then local
          else re_primary e
      | _ \<Rightarrow> re_primary e)"

definition route :: "shard_router \<Rightarrow> partition_key \<Rightarrow> route_decision" where
  "route r k =
     (let h = hash_value k in
      case find_shard (sr_table r) h of
        Some e \<Rightarrow> RouteSingle (re_shard_id e) (select_node r e)
      | None \<Rightarrow>
          (case ring_get_node (sr_ring r) (u64_to_string h) of
             Some node \<Rightarrow> RouteSingle 0 node
           | None \<Rightarrow> RouteBroadcast (hm_keys (rt_entries (sr_table r)))))"

definition route_write :: "shard_router \<Rightarrow> partition_key \<Rightarrow> route_decision" where
  "route_write r k =
     (case find_shard (sr_table r) (hash_value k) of
        Some e \<Rightarrow> RoutePrimary (re_shard_id e) (re_primary e)
      | None \<Rightarrow> RouteBroadcast (hm_keys (rt_entries (sr_table r))))"

definition route_read :: "shard_router \<Rightarrow> partition_key \<Rightarrow> route_decision" where
  "route_read r k =
     (case find_shard (sr_table r) (hash_value k) of
        Some e \<Rightarrow> RouteAnyReplica (re_shard_id e) (re_primary e # re_replicas e)
      | None \<Rightarrow> route r k)"

definition shard_route_of :: "shard_router \<Rightarrow> routing_entry \<Rightarrow> shard_route" where
  "shard_route_of r e = \<lparr>srt_shard_id = re_shard_id e, srt_node_id = select_node r e, srt_is_primary = True\<rparr>"

definition route_range :: "shard_router \<Rightarrow> partition_key \<Rightarrow> partition_key \<Rightarrow> route_decision" where
  "route_range r k1 k2 =
     (let a = hash_value k1; b = hash_value k2;
          routes = map (shard_route_of r)
            (filter (\<lambda>e. re_range_end e > a \<and> re_range_start e < b) (hm_values (rt_entries (sr_table r))))
      in case routes of
           [] \<Rightarrow> RouteBroadcast (hm_keys (rt_entries (sr_table r)))
         | [x] \<Rightarrow> RouteSingle (srt_shard_id x) (srt_node_id x)
         | _ \<Rightarrow> RouteMulti routes)"

definition route_all :: "shard_router \<Rightarrow> route_decision" where
  "route_all r =
     (let routes = map (shard_route_of r) (hm_values (rt_entries (sr_table r))) in
      if routes = [] then RouteBroadcast [] else RouteMulti routes)"

definition router_is_initialized :: "shard_router \<Rightarrow> bool" where
  "router_is_initialized r \<longleftrightarrow> rt_entries (sr_table r) \<noteq> []"

section \<open>Partition keys in queries\<close>

datatype query_type = QRead | QWrite | QAdmin

record query_routing =
  qr_type :: query_type
  qr_partition_key :: "partition_key option"
  qr_requires_all :: bool

definition trim_quotes :: "string \<Rightarrow> string" where
  "trim_quotes s = rev (dropWhile (\<lambda>c. c = CHR 0x27) (rev (dropWhile (\<lambda>c. c = CHR 0x27) s)))"

definition key_patterns :: "string \<Rightarrow> string list" where
  "key_patterns col = [col @ '' = '' @ [CHR 0x27], col @ '' ='' @ [CHR 0x27], col @ ''='' @ [CHR 0x27], col @ '' = '']"

definition value_after :: "string \<Rightarrow> string" where
  "value_after remaining =
     (case remaining of
        c # rest \<Rightarrow>
          if c = CHR 0x27 then takeWhile (\<lambda>c. c \<noteq> CHR 0x27) rest
          else trim_quotes (takeWhile (\<lambda>c. \<not> (is_space c \<or> c = CHR '')'' \<or> c = CHR '';'')) remaining)
      | [] \<Rightarrow> [])"

definition key_of_value :: "string \<Rightarrow> partition_key" where
  "key_of_value v = (case parse_i64 v of Some i \<Rightarrow> PkInt i | None \<Rightarrow> PkString v)"

fun match_patterns :: "string \<Rightarrow> string \<Rightarrow> string list \<Rightarrow> partition_key option" where
  "match_patterns query lower [] = None"
| "match_patterns query lower (p # ps) =
     (case str_find p lower of
        None \<Rightarrow> match_patterns query lower ps
      | Some start \<Rightarrow>
          let v = value_after (drop (start + length p) query)
          in if v \<noteq> [] then Some (key_of_value v) else match_patterns query lower ps)"

fun extract_partition_key :: "string \<Rightarrow> string list \<Rightarrow> partition_key option" where
  "extract_partition_key query [] = None"
| "extract_partition_key query (col # cols) =
     (case match_patterns query (to_lower query) (key_patterns (to_lower col)) of
        Some k \<Rightarrow> Some k
      | None \<Rightarrow> extract_partition_key query cols)"

definition analyze :: "string list \<Rightarrow> string \<Rightarrow> query_routing" where
  "analyze columns query =
     (let upper = to_upper query;
          ty = (if starts_with upper ''SELECT'' then QRead
                else if starts_with upper ''INSERT'' \<or> starts_with upper ''UPDATE'' \<or> starts_with upper ''DELETE''
                then QWrite else QAdmin);
          key = extract_partition_key query columns
      in \<lparr>qr_type = ty, qr_partition_key = key, qr_requires_all = (key = None \<and> ty = QRead)\<rparr>)"

section \<open>Splitting ranges\<close>

text \<open>The part of a number line cut into \<open>n\<close> pieces of width \<open>w\<close>, the last one open, that holds
  \<open>x\<close>.\<close>

definition part_of :: "nat \<Rightarrow> nat \<Rightarrow> nat \<Rightarrow> nat" where
  "part_of n w x = (if w = 0 then n - 1 else min (x div w) (n - 1))"

lemma part_of_iff:
  assumes "i < n"
  shows "i * w \<le> x \<and> (i = n - 1 \<or> x < (i + 1) * w) \<longleftrightarrow> i = part_of n w x"
proof (cases "w = 0")
  case True
  with assms show ?thesis by (auto simp: part_of_def)
next
  case False
  then have 1: "i * w \<le> x \<longleftrightarrow> i \<le> x div w" by (simp add: less_eq_div_iff_mult_less_eq)
  have 2: "x < (i + 1) * w \<longleftrightarrow> x div w < i + 1" using False by (simp add: div_less_iff_less_mult)
  show ?thesis unfolding 1 2 using False assms by (auto simp: part_of_def min_def)
qed

lemma part_of_less: "0 < n \<Longrightarrow> part_of n w x < n"
  by (auto simp: part_of_def min_def)

lemma unat_u32_bound: "unat (n :: u32) < 2 ^ 64"
  using unsigned_less [of n, where ?'a = nat] by simp

lemma unat_ucast_u32 [simp]: "unat (ucast (n :: u32) :: u64) = unat n"
  using unat_u32_bound [of n] by (simp add: unsigned_ucast_eq take_bit_nat_eq_self)

lemma unat_scaled:
  fixes s w :: u64
  assumes "i \<le> n" "n * unat w \<le> d" "unat s + d < 2 ^ 64" "n < 2 ^ 64"
  shows "unat (s + of_nat i * w) = unat s + i * unat w"
proof -
  have "i * unat w \<le> n * unat w" using assms(1) by (rule mult_le_mono1)
  then have le: "i * unat w \<le> d" using assms(2) by linarith
  have i: "unat (of_nat i :: u64) = i" using assms(1,4) by (intro unat_of_nat_u64) linarith
  have "unat (of_nat i * w) = i * unat w"
    using le assms(3) by (subst unat_mult_lem [THEN iffD1]) (simp_all add: i)
  then show ?thesis using le assms(3) by (subst unat_add_u64) simp_all
qed



section \<open>The index of the shard manager\<close>

text \<open>The index lists every shard exactly once under each of its nodes, and nowhere else.\<close>

definition index_ok :: "shard_manager \<Rightarrow> bool" where
  "index_ok m \<longleftrightarrow> hm_ok (sg_shards m)
     \<and> (\<forall>i s. get_shard m i = Some s \<longrightarrow> sh_id s = i \<and> distinct (shard_all_nodes s))
     \<and> (\<forall>node i. count_list (get_node_shards m node) i =
          (case get_shard m i of None \<Rightarrow> 0 | Some s \<Rightarrow> if node \<in> set (shard_all_nodes s) then 1 else 0))"

datatype shard_op =
    SCreate shard_id node_id | SCreateRange shard_id node_id u64 u64 | SState shard_id shard_state
  | SReplica shard_id node_id | SRemove shard_id

definition shard_do :: "u64 \<Rightarrow> shard_op \<Rightarrow> shard_manager \<Rightarrow> shard_manager" where
  "shard_do now op m =
     (case op of
        SCreate i p \<Rightarrow> snd (create_shard now m i p)
      | SCreateRange i p a b \<Rightarrow> snd (create_shard_with_range now m i p a b)
      | SState i st \<Rightarrow> snd (update_shard_state now m i st)
      | SReplica i n \<Rightarrow> snd (sg_add_replica now m i n)
      | SRemove i \<Rightarrow> snd (remove_shard m i))"

text \<open>What the manager does not check: a shard is created once, and a node becomes a replica of a
  shard only if it does not hold it yet.\<close>

definition shard_op_ok :: "shard_op \<Rightarrow> shard_manager \<Rightarrow> bool" where
  "shard_op_ok op m =
     (case op of
        SCreate i p \<Rightarrow> get_shard m i = None
      | SCreateRange i p a b \<Rightarrow> get_shard m i = None
      | SReplica i n \<Rightarrow> (case get_shard m i of None \<Rightarrow> True | Some s \<Rightarrow> n \<notin> set (shard_all_nodes s))
      | _ \<Rightarrow> True)"

fun shard_run :: "u64 \<Rightarrow> shard_op list \<Rightarrow> shard_manager \<Rightarrow> shard_manager" where
  "shard_run now [] m = m"
| "shard_run now (op # ops) m = shard_run now ops (shard_do now op m)"

fun shard_run_ok :: "u64 \<Rightarrow> shard_op list \<Rightarrow> shard_manager \<Rightarrow> bool" where
  "shard_run_ok now [] m = True"
| "shard_run_ok now (op # ops) m = (shard_op_ok op m \<and> shard_run_ok now ops (shard_do now op m))"

lemmas shard_views = get_shard_def get_node_shards_def shard_all_nodes_def

lemma count_list_filter_neq: "count_list (filter (\<lambda>x. x \<noteq> a) xs) b = (if b = a then 0 else count_list xs b)"
  by (induction xs) auto

lemma index_ok_put:
  assumes "index_ok m" "get_shard m (sh_id s) = None" "sh_replicas s = []"
  shows "index_ok (sg_put s m)"
  using assms by (auto simp: index_ok_def sg_put_def shard_views hm_simps intro: hm_intros)

lemma index_ok_state:
  assumes "index_ok m"
  shows "index_ok (snd (update_shard_state now m i st))"
  using assms
  by (auto simp: index_ok_def update_shard_state_def shard_set_state_def shard_views hm_simps intro: hm_intros
      split: option.split)

lemma index_ok_replica:
  assumes "index_ok m" "shard_op_ok (SReplica i n) m"
  shows "index_ok (snd (sg_add_replica now m i n))"
  using assms
  by (auto simp: index_ok_def sg_add_replica_def shard_op_ok_def shard_add_replica_def shard_views hm_simps
      intro: hm_intros split: option.splits)

lemma drop_shard_fold:
  "hm_get_or (foldl (drop_shard_of i) idx nodes) node [] =
     (if node \<in> set nodes then filter (\<lambda>s. s \<noteq> i) (hm_get_or idx node []) else hm_get_or idx node [])"
proof (induction nodes arbitrary: idx)
  case (Cons a nodes)
  have "hm_get_or (drop_shard_of i idx a) node [] =
      (if node = a then filter (\<lambda>s. s \<noteq> i) (hm_get_or idx node []) else hm_get_or idx node [])"
    by (auto simp: drop_shard_of_def hm_get_or_def hm_simps split: option.splits)
  with Cons [of "drop_shard_of i idx a"] show ?case by auto
qed simp

lemma index_ok_remove:
  assumes "index_ok m"
  shows "index_ok (snd (remove_shard m i))"
proof (cases "get_shard m i")
  case (Some s)
  have ok: "hm_ok (sg_shards m)"
      "\<And>i s. get_shard m i = Some s \<Longrightarrow> sh_id s = i \<and> distinct (shard_all_nodes s)"
      "\<And>node i. count_list (get_node_shards m node) i =
          (case get_shard m i of None \<Rightarrow> 0 | Some s \<Rightarrow> if node \<in> set (shard_all_nodes s) then 1 else 0)"
    using assms by (auto simp: index_ok_def)
  let ?m = "snd (remove_shard m i)"
  have get: "get_shard ?m j = (if j = i then None else get_shard m j)" for j
    using Some by (simp add: remove_shard_def get_shard_def hm_simps)
  have idx: "get_node_shards ?m node =
      (if node \<in> set (shard_all_nodes s) then filter (\<lambda>j. j \<noteq> i) (get_node_shards m node) else get_node_shards m node)"
    for node
    using Some drop_shard_fold [of i "sg_node_shards m" "sh_primary s # sh_replicas s" node]
    by (simp add: remove_shard_def get_shard_def get_node_shards_def shard_all_nodes_def)
  have "count_list (get_node_shards ?m node) j =
          (case get_shard ?m j of None \<Rightarrow> 0 | Some s \<Rightarrow> if node \<in> set (shard_all_nodes s) then 1 else 0)" for node j
    unfolding idx get using ok(3) [of node j] Some by (auto simp: count_list_filter_neq)
  moreover have "hm_ok (sg_shards ?m)"
    using ok(1) Some by (simp add: remove_shard_def get_shard_def hm_ok_remove)
  ultimately show ?thesis using ok(2) by (auto simp: index_ok_def get split: if_splits)
next
  case None
  then have "snd (remove_shard m i) = m" by (simp add: remove_shard_def get_shard_def)
  with assms show ?thesis by simp
qed

lemma index_ok_do: "index_ok m \<Longrightarrow> shard_op_ok op m \<Longrightarrow> index_ok (shard_do now op m)"
  by (cases op)
     (simp_all add: shard_do_def create_shard_def create_shard_with_range_def Let_def index_ok_state index_ok_replica
       index_ok_remove index_ok_put shard_op_ok_def shard_new_def shard_with_range_def)

lemma index_ok_new: "index_ok (sg_new num rf)"
  by (simp add: index_ok_def sg_new_def shard_views hm_get_or_def)

lemma index_ok_run: "index_ok m \<Longrightarrow> shard_run_ok now ops m \<Longrightarrow> index_ok (shard_run now ops m)"
  by (induction ops arbitrary: m) (simp_all add: index_ok_do)

section \<open>Initial placement\<close>

text \<open>The shard that \<^verbatim>\<open>initialize_shards\<close> makes for position \<open>i\<close>.\<close>

definition placed_replicas :: "nat \<Rightarrow> node_id list \<Rightarrow> nat \<Rightarrow> node_id list" where
  "placed_replicas rf nodes i = map (\<lambda>r. nodes ! ((i mod length nodes + r) mod length nodes)) [1..<min rf (length nodes)]"

definition placed_shard :: "u64 \<Rightarrow> nat \<Rightarrow> node_id list \<Rightarrow> u64 \<Rightarrow> u32 \<Rightarrow> nat \<Rightarrow> shard" where
  "placed_shard now rf nodes width num i =
     (shard_with_range now (of_nat i) (nodes ! (i mod length nodes)) (of_nat i * width)
        (if i = unat num - 1 then - 1 else (of_nat i + 1) * width))
       \<lparr>sh_replicas := placed_replicas rf nodes i, sh_state := ShActive\<rparr>"

lemma rotate_nth_inj:
  assumes "distinct nodes" "r < length nodes" "r' < length nodes" "p < length nodes"
    and "nodes ! ((p + r) mod length nodes) = nodes ! ((p + r') mod length nodes)"
  shows "r = r'"
proof -
  have pos: "0 < length nodes" using assms(4) by linarith
  then have "(p + r) mod length nodes = (p + r') mod length nodes"
    using assms(1,5) nth_eq_iff_index_eq [OF assms(1)] by simp
  moreover have "(p + x) mod length nodes = (if p + x < length nodes then p + x else p + x - length nodes)"
    if "x < length nodes" for x
    using that assms(4) by (simp add: mod_if)
  ultimately show ?thesis using assms(2-4) by (auto split: if_splits)
qed

lemma replicas_fold:
  assumes "distinct nodes" "p < length nodes" "k \<le> length nodes" "index_ok m" "get_shard m i = Some s"
    and "sh_primary s = nodes ! p" "sh_replicas s = []" "sh_updated_at s = now"
  defines "m' \<equiv> \<lambda>k. foldl (\<lambda>m r. snd (sg_add_replica now m i (nodes ! ((p + r) mod length nodes)))) m [1..<k]"
    and "reps \<equiv> \<lambda>k. map (\<lambda>r. nodes ! ((p + r) mod length nodes)) [1..<k]"
  shows "index_ok (m' k) \<and> sg_num_shards (m' k) = sg_num_shards m
    \<and> sg_replication_factor (m' k) = sg_replication_factor m
    \<and> (\<forall>j. get_shard (m' k) j = (if j = i then Some (s\<lparr>sh_replicas := reps k\<rparr>) else get_shard m j))"
  using assms(3)
proof (induction k)
  case 0
  then show ?case using assms(4,5,7) by (simp add: m'_def reps_def)
next
  case (Suc k)
  show ?case
  proof (cases "k = 0")
    case True
    then show ?thesis using assms(4,5,7) by (simp add: m'_def reps_def)
  next
    case False
    let ?node = "nodes ! ((p + k) mod length nodes)"
    from Suc have IH: "index_ok (m' k)" "sg_num_shards (m' k) = sg_num_shards m"
        "sg_replication_factor (m' k) = sg_replication_factor m"
        "\<And>j. get_shard (m' k) j = (if j = i then Some (s\<lparr>sh_replicas := reps k\<rparr>) else get_shard m j)"
      by auto
    have step: "m' (Suc k) = snd (sg_add_replica now (m' k) i ?node)" "reps (Suc k) = reps k @ [?node]"
      using False by (simp_all add: m'_def reps_def)
    have k: "k < length nodes" using Suc.prems by simp
    have "?node \<noteq> nodes ! p"
      using rotate_nth_inj [OF assms(1) k _ assms(2), of 0] False assms(2) by (cases nodes) auto
    moreover have "?node \<notin> set (reps k)"
    proof
      assume "?node \<in> set (reps k)"
      then obtain r where "r < k" "?node = nodes ! ((p + r) mod length nodes)" by (auto simp: reps_def)
      then show False using rotate_nth_inj [OF assms(1) k _ assms(2), of r] k by auto
    qed
    ultimately have new: "?node \<notin> set (shard_all_nodes (s\<lparr>sh_replicas := reps k\<rparr>))"
      using assms(6) by (simp add: shard_all_nodes_def)
    then have "shard_op_ok (SReplica i ?node) (m' k)" by (simp add: shard_op_ok_def IH(4))
    from index_ok_replica [OF IH(1) this] have "index_ok (m' (Suc k))" by (simp only: step)
    moreover have "get_shard (m' (Suc k)) j = (if j = i then Some (s\<lparr>sh_replicas := reps (Suc k)\<rparr>) else get_shard m j)" for j
      using new assms(8) IH(4) [of i] IH(4) [of j]
      by (auto simp: step sg_add_replica_def get_shard_def hm_simps shard_add_replica_def shard_all_nodes_def)
    moreover have "sg_num_shards (m' (Suc k)) = sg_num_shards m"
        "sg_replication_factor (m' (Suc k)) = sg_replication_factor m"
      using IH(2,3) by (simp_all add: step sg_add_replica_def split: option.split)
    ultimately show ?thesis by blast
  qed
qed

lemma init_shard_run:
  fixes now width :: u64
  assumes "distinct nodes" "nodes \<noteq> []" "index_ok m" "get_shard m (of_nat i) = None"
  defines "m' \<equiv> init_shard now nodes width m i"
  shows "index_ok m' \<and> sg_num_shards m' = sg_num_shards m \<and> sg_replication_factor m' = sg_replication_factor m
    \<and> (\<forall>j. get_shard m' j =
          (if j = of_nat i then Some (placed_shard now (sg_replication_factor m) nodes width (sg_num_shards m) i)
           else get_shard m j))"
proof -
  let ?p = "i mod length nodes" and ?i = "of_nat i :: u32"
  let ?s = "shard_with_range now ?i (nodes ! ?p) (of_nat i * width)
      (if i = unat (sg_num_shards m) - 1 then - 1 else (of_nat i + 1) * width)"
  let ?k = "min (sg_replication_factor m) (length nodes)"
  define m1 where "m1 = sg_put ?s m"
  define m2 where "m2 = foldl (\<lambda>m r. snd (sg_add_replica now m ?i (nodes ! ((?p + r) mod length nodes)))) m1 [1..<?k]"
  have s: "sh_id ?s = ?i" "sh_replicas ?s = []" "sh_primary ?s = nodes ! ?p" "sh_updated_at ?s = now"
    by (simp_all add: shard_with_range_def shard_new_def)
  have m1: "index_ok m1" "sg_num_shards m1 = sg_num_shards m" "sg_replication_factor m1 = sg_replication_factor m"
      "\<And>j. get_shard m1 j = (if j = ?i then Some ?s else get_shard m j)"
    using index_ok_put [OF assms(3), of ?s] assms(4) s(1,2)
    by (auto simp: m1_def sg_put_def get_shard_def hm_simps)
  have p: "?p < length nodes" using assms(2) by simp
  have "?k \<le> length nodes" by simp
  from replicas_fold [OF assms(1) p this m1(1) _ s(3,2,4), of ?i]
  have m2: "index_ok m2" "sg_num_shards m2 = sg_num_shards m" "sg_replication_factor m2 = sg_replication_factor m"
      "\<And>j. get_shard m2 j = (if j = ?i then Some (?s\<lparr>sh_replicas := placed_replicas (sg_replication_factor m) nodes i\<rparr>)
          else get_shard m j)"
    using m1 unfolding m2_def placed_replicas_def by auto
  have m': "m' = snd (update_shard_state now m2 ?i ShActive)"
    by (simp add: m'_def init_shard_def create_shard_with_range_def Let_def m2_def m1_def sg_put_def)
  have "index_ok m'" unfolding m' by (rule index_ok_state [OF m2(1)])
  moreover have "get_shard m' j =
          (if j = ?i then Some (placed_shard now (sg_replication_factor m) nodes width (sg_num_shards m) i)
           else get_shard m j)" for j
    using m2(4) [of ?i] m2(4) [of j] s(4)
    by (auto simp: m' update_shard_state_def get_shard_def hm_simps placed_shard_def shard_set_state_def)
  moreover have "sg_num_shards m' = sg_num_shards m" "sg_replication_factor m' = sg_replication_factor m"
    using m2 by (simp_all add: m' update_shard_state_def split: option.split)
  ultimately show ?thesis by blast
qed

lemma init_shards_run:
  fixes now width :: u64 and rf :: nat
  assumes "distinct nodes" "nodes \<noteq> []" "k \<le> unat num"
  defines "m \<equiv> \<lambda>k. foldl (init_shard now nodes width) (sg_new num rf) [0..<k]"
  shows "index_ok (m k) \<and> sg_num_shards (m k) = num \<and> sg_replication_factor (m k) = rf
    \<and> (\<forall>j. get_shard (m k) j = (if unat j < k then Some (placed_shard now rf nodes width num (unat j)) else None))"
  using assms(3)
proof (induction k)
  case 0
  then show ?case using index_ok_new [of num rf] by (simp add: m_def get_shard_def) (simp add: sg_new_def)
next
  case (Suc k)
  then have IH: "index_ok (m k)" "sg_num_shards (m k) = num" "sg_replication_factor (m k) = rf"
      "\<And>j. get_shard (m k) j = (if unat j < k then Some (placed_shard now rf nodes width num (unat j)) else None)"
    by auto
  have "k < 2 ^ 32" using Suc.prems unsigned_less [of num, where ?'a = nat] by simp
  then have k: "unat (of_nat k :: u32) = k" by (simp add: unat_of_nat take_bit_nat_eq_self)
  have step: "m (Suc k) = init_shard now nodes width (m k) k" by (simp add: m_def)
  have "get_shard (m k) (of_nat k) = None" by (simp add: IH(4) k)
  from init_shard_run [OF assms(1,2) IH(1) this, of now width] IH(2,3)
  have run: "index_ok (m (Suc k))" "sg_num_shards (m (Suc k)) = num" "sg_replication_factor (m (Suc k)) = rf"
      "\<And>j. get_shard (m (Suc k)) j = (if j = of_nat k then Some (placed_shard now rf nodes width num k) else get_shard (m k) j)"
    by (auto simp: step)
  have "j = of_nat k \<longleftrightarrow> unat j = k" for j :: u32 using k by (metis word_unat_eq_iff)
  with run show ?case by (auto simp: IH(4) less_Suc_eq)
qed

lemma initialize_shards_run:
  assumes "distinct nodes" "nodes \<noteq> []" "initialize_shards now (sg_new num rf) nodes = Some m"
  shows "num \<noteq> 0 \<and> index_ok m
    \<and> (\<forall>j. get_shard m j =
         (if unat j < unat num then Some (placed_shard now rf nodes ((- 1) div ucast num) num (unat j)) else None))"
  using assms init_shards_run [OF assms(1,2), of "unat num" num now "(- 1) div ucast num" rf]
  by (auto simp: initialize_shards_def Let_def sg_new_def split: if_splits)

section \<open>Routing every key\<close>

lemma hm_ok_rt_fold:
  "hm_ok (rt_entries t) \<Longrightarrow> hm_ok (rt_entries (foldl (\<lambda>t s. rt_upsert t (entry_of_shard s)) t ss))"
  by (induction ss arbitrary: t) (simp_all add: rt_upsert_def hm_ok_insert)

lemma rt_fold_get:
  assumes "hm_ok m" "\<forall>i s. hm_get m i = Some s \<longrightarrow> sh_id s = i"
  shows "hm_get (rt_entries (foldl (\<lambda>t s. rt_upsert t (entry_of_shard s)) t (hm_values m))) i =
    (case hm_get m i of None \<Rightarrow> hm_get (rt_entries t) i | Some s \<Rightarrow> Some (entry_of_shard s))"
  using assms
proof (induction m arbitrary: t)
  case (Cons p m)
  obtain j s where p: "p = (j, s)" by force
  have m: "hm_ok m" "hm_get m j = None" using Cons.prems(1) by (auto simp: p hm_ok_Cons)
  have "sh_id s = j" using Cons.prems(2) [rule_format, of j s] by (simp add: p)
  moreover have "\<forall>i s. hm_get m i = Some s \<longrightarrow> sh_id s = i"
  proof (intro allI impI)
    fix i s' assume g: "hm_get m i = Some s'"
    then have "hm_get (p # m) i = Some s'" using m(2) by (auto simp: p)
    with Cons.prems(2) show "sh_id s' = i" by blast
  qed
  ultimately show ?case using Cons.IH [OF m(1), of "rt_upsert t (entry_of_shard s)"] m(2)
    by (auto simp: p rt_upsert_def entry_of_shard_def hm_simps split: option.splits)
qed simp

lemma from_shards_get:
  assumes "index_ok m"
  shows "hm_get (rt_entries (from_shards (hm_values (sg_shards m)))) i = map_option entry_of_shard (get_shard m i)"
  using assms rt_fold_get [of "sg_shards m" rt_new i]
  by (auto simp: from_shards_def index_ok_def get_shard_def rt_new_def split: option.splits)

lemma find_values_unique:
  assumes "hm_ok m" "hm_get m i = Some x" "P x" "\<And>j y. hm_get m j = Some y \<Longrightarrow> P y \<Longrightarrow> j = i"
  shows "find P (hm_values m) = Some x"
proof -
  have x: "x \<in> set (hm_values m)" using hm_values_set [OF assms(1)] assms(2) by blast
  show ?thesis
  proof (cases "find P (hm_values m)")
    case None
    with x assms(3) show ?thesis by (auto simp: find_None_iff)
  next
    case (Some y)
    then have y: "P y" "y \<in> set (hm_values m)" by (auto simp: find_Some_iff)
    then obtain j where j: "hm_get m j = Some y" using hm_values_set [OF assms(1)] by blast
    then have "j = i" using y assms(4) by blast
    with j Some assms(2) show ?thesis by simp
  qed
qed

text \<open>Which shard covers a hash value after the initial placement.\<close>

definition covering :: "u32 \<Rightarrow> u64 \<Rightarrow> nat" where
  "covering num h = part_of (unat num) (unat ((- 1 :: u64) div ucast num)) (unat h)"

lemma placed_covers:
  fixes now :: u64 and rf :: nat and nodes :: "node_id list"
  assumes "num \<noteq> 0" "i < unat num" "h \<noteq> - 1"
  defines "s \<equiv> placed_shard now rf nodes ((- 1) div ucast num) num i"
  shows "shard_contains_key s h \<longleftrightarrow> i = covering num h"
    and "re_range_start (entry_of_shard s) \<le> h \<and> h < re_range_end (entry_of_shard s) \<longleftrightarrow> i = covering num h"
proof -
  let ?n = "unat num" and ?w = "(- 1 :: u64) div ucast num"
  have nw: "?n * unat ?w \<le> 2 ^ 64 - 1"
    by (simp add: unat_div unat_max_u64 del: One_nat_def)
  have a: "unat (of_nat j * ?w) = j * unat ?w" if "j \<le> ?n" for j
    using unat_scaled [of j ?n ?w "2 ^ 64 - 1" 0] nw that unat_u32_bound [of num] by simp
  have b: "unat ((of_nat i + 1) * ?w) = (i + 1) * unat ?w"
    using a [of "i + 1"] assms(2) by (simp add: add.commute)
  have h: "h < - 1" using assms(3) by (metis word_order.extremum word_order.not_eq_extremum)
  have "of_nat i * ?w \<le> h \<and> h < (if i = ?n - 1 then - 1 else (of_nat i + 1) * ?w) \<longleftrightarrow>
      i * unat ?w \<le> unat h \<and> (i = ?n - 1 \<or> unat h < (i + 1) * unat ?w)"
    using h a [of i] b assms(2) by (auto simp: word_le_nat_alt word_less_nat_alt)
  also have "\<dots> \<longleftrightarrow> i = covering num h" unfolding covering_def by (rule part_of_iff [OF assms(2)])
  finally have c: "of_nat i * ?w \<le> h \<and> h < (if i = ?n - 1 then - 1 else (of_nat i + 1) * ?w) \<longleftrightarrow> i = covering num h" .
  have r: "sh_range_start s = Some (of_nat i * ?w)"
      "sh_range_end s = Some (if i = ?n - 1 then - 1 else (of_nat i + 1) * ?w)"
    by (simp_all add: s_def placed_shard_def shard_with_range_def)
  show "shard_contains_key s h \<longleftrightarrow> i = covering num h" using c by (simp add: shard_contains_key_def r)
  show "re_range_start (entry_of_shard s) \<le> h \<and> h < re_range_end (entry_of_shard s) \<longleftrightarrow> i = covering num h"
    using c by (simp add: entry_of_shard_def r)
qed

lemma placed_nodes:
  assumes "nodes \<noteq> []" "0 < rf"
  shows "length (shard_all_nodes (placed_shard now rf nodes w num i)) = min rf (length nodes)"
    and "set (shard_all_nodes (placed_shard now rf nodes w num i)) \<subseteq> set nodes"
proof -
  have all: "shard_all_nodes (placed_shard now rf nodes w num i) = nodes ! (i mod length nodes) # placed_replicas rf nodes i"
    by (simp add: shard_all_nodes_def placed_shard_def shard_with_range_def shard_new_def)
  have "0 < min rf (length nodes)" using assms by simp
  then show "length (shard_all_nodes (placed_shard now rf nodes w num i)) = min rf (length nodes)"
    unfolding all placed_replicas_def by (simp only: list.size length_map length_upt)
  have "nodes ! (j mod length nodes) \<in> set nodes" for j using assms(1) by simp
  then show "set (shard_all_nodes (placed_shard now rf nodes w num i)) \<subseteq> set nodes"
    unfolding all placed_replicas_def by auto
qed

text \<open>C18: After the initial placement of shards on distinct nodes and an update of the routing
  table, every key (whose hash is not the largest 64-bit number) is covered by exactly one shard.
  That shard is active; a write goes to its primary, a read may go to any of its nodes, which are
  as many as the replication factor asks for or there are, all different; and the shard manager
  lists each shard exactly once under each of its nodes.\<close>

theorem every_key_is_routed:
  assumes "initialize_shards now (sg_new num rf) nodes = Some m" "distinct nodes" "nodes \<noteq> []" "0 < rf"
    and "hash_value k \<noteq> - 1" "router = update_routing r (hm_values (sg_shards m))"
  shows "\<exists>i s. get_shard m i = Some s \<and> shard_is_active s
    \<and> (\<forall>j s'. get_shard m j = Some s' \<longrightarrow> (shard_contains_key s' (hash_value k) \<longleftrightarrow> j = i))
    \<and> route_write router k = RoutePrimary i (sh_primary s)
    \<and> route_read router k = RouteAnyReplica i (shard_all_nodes s)
    \<and> length (shard_all_nodes s) = min rf (length nodes) \<and> distinct (shard_all_nodes s)
    \<and> set (shard_all_nodes s) \<subseteq> set nodes
    \<and> (\<forall>node. count_list (get_node_shards m node) i = (if node \<in> set (shard_all_nodes s) then 1 else 0))"
proof -
  let ?h = "hash_value k" and ?w = "(- 1 :: u64) div ucast num"
  from initialize_shards_run [OF assms(2,3,1)] have num: "num \<noteq> 0" and ok: "index_ok m"
    and get: "\<And>j. get_shard m j = (if unat j < unat num then Some (placed_shard now rf nodes ?w num (unat j)) else None)"
    by auto
  let ?c = "covering num ?h"
  define i :: u32 where "i = of_nat ?c"
  define s where "s = placed_shard now rf nodes ?w num ?c"
  have c: "?c < unat num" using num by (simp add: covering_def part_of_less unat_gt_0)
  then have "?c < 2 ^ 32" using unsigned_less [of num, where ?'a = nat] by simp
  then have ui: "unat i = ?c" by (simp add: i_def unat_of_nat take_bit_nat_eq_self)
  have gi: "get_shard m i = Some s" using c by (simp add: get ui s_def)
  have only: "shard_contains_key s' ?h \<longleftrightarrow> j = i"
      "re_range_start (entry_of_shard s') \<le> ?h \<and> ?h < re_range_end (entry_of_shard s') \<longleftrightarrow> j = i"
    if "get_shard m j = Some s'" for j s'
    using that placed_covers [OF num _ assms(5), of "unat j" now rf nodes] ui
    by (auto simp: get word_unat_eq_iff split: if_splits)
  have table: "sr_table router = from_shards (hm_values (sg_shards m))" by (simp add: assms(6) update_routing_def)
  have "find_shard (sr_table router) ?h = Some (entry_of_shard s)"
    unfolding find_shard_def table
  proof (rule find_values_unique [of _ i])
    show "hm_ok (rt_entries (from_shards (hm_values (sg_shards m))))"
      unfolding from_shards_def by (rule hm_ok_rt_fold) (simp add: rt_new_def)
    show "hm_get (rt_entries (from_shards (hm_values (sg_shards m)))) i = Some (entry_of_shard s)"
      by (simp add: from_shards_get [OF ok] gi)
    show "re_range_start (entry_of_shard s) \<le> ?h \<and> ?h < re_range_end (entry_of_shard s)" using only(2) [OF gi] by simp
    fix j e
    assume "hm_get (rt_entries (from_shards (hm_values (sg_shards m)))) j = Some e"
      and "re_range_start e \<le> ?h \<and> ?h < re_range_end e"
    then show "j = i" using only(2) by (auto simp: from_shards_get [OF ok])
  qed
  moreover have "re_shard_id (entry_of_shard s) = i" "re_primary (entry_of_shard s) = sh_primary s"
      "re_replicas (entry_of_shard s) = sh_replicas s"
    by (simp_all add: entry_of_shard_def s_def placed_shard_def shard_with_range_def shard_new_def i_def)
  ultimately have "route_write router k = RoutePrimary i (sh_primary s)"
      "route_read router k = RouteAnyReplica i (shard_all_nodes s)"
    by (simp_all add: route_write_def route_read_def shard_all_nodes_def)
  moreover have "shard_is_active s" by (simp add: s_def placed_shard_def shard_is_active_def)
  moreover have "length (shard_all_nodes s) = min rf (length nodes)" "set (shard_all_nodes s) \<subseteq> set nodes"
    unfolding s_def by (rule placed_nodes [OF assms(3,4)])+
  moreover have "distinct (shard_all_nodes s)"
      "count_list (get_node_shards m node) i = (if node \<in> set (shard_all_nodes s) then 1 else 0)" for node
    using ok gi by (auto simp: index_ok_def)
  ultimately show ?thesis using gi only(1) by blast
qed

definition sample_shards :: shard_manager where
  "sample_shards = the (initialize_shards 0 (sg_new 4 2) [''a'', ''b'', ''c''])"

lemma sample_shards_eq: "initialize_shards 0 (sg_new 4 2) [''a'', ''b'', ''c''] = Some sample_shards"
  by (simp add: sample_shards_def initialize_shards_def sg_new_def Let_def)

theorem every_key_is_routed_witness:
  "\<exists>i s. get_shard sample_shards i = Some s
     \<and> route_write (update_routing (sr_new (RoundRobin 4)) (hm_values (sg_shards sample_shards))) (PkInt 7) =
         RoutePrimary i (sh_primary s)
     \<and> length (shard_all_nodes s) = 2"
proof -
  have "hash_value (PkInt 7) \<noteq> - 1" by code_simp
  from every_key_is_routed [OF sample_shards_eq _ _ _ this refl, of "sr_new (RoundRobin 4)"]
  show ?thesis by auto
qed

text \<open>The index of the shard manager.  Whatever shards are created, given replicas, moved between
  states and removed, if no shard is created twice and no node is made a replica of a shard it
  already holds, every shard is listed exactly once under each of its nodes and under no other,
  and no shard lists a node twice.\<close>

theorem shard_index_consistent:
  assumes "shard_run_ok now ops (sg_new num rf)"
  defines "m \<equiv> shard_run now ops (sg_new num rf)"
  shows "(\<forall>i s. get_shard m i = Some s \<longrightarrow> sh_id s = i \<and> distinct (shard_all_nodes s))
    \<and> (\<forall>node i. count_list (get_node_shards m node) i =
         (case get_shard m i of None \<Rightarrow> 0 | Some s \<Rightarrow> if node \<in> set (shard_all_nodes s) then 1 else 0))"
  using index_ok_run [OF index_ok_new assms(1)] by (simp add: index_ok_def m_def)

theorem shard_index_consistent_witness:
  "get_node_shards (shard_run 0 [SCreate 1 ''a'', SCreate 2 ''a'', SReplica 1 ''b'', SRemove 2] (sg_new 4 2)) ''a'' = [1]
   \<and> count_list (get_node_shards (shard_run 0 [SCreate 1 ''a'', SCreate 2 ''a'', SReplica 1 ''b'', SRemove 2] (sg_new 4 2)) ''b'') 1 = 1"
proof -
  let ?ops = "[SCreate 1 ''a'', SCreate 2 ''a'', SReplica 1 ''b'', SRemove 2]"
  have ok: "shard_run_ok 0 ?ops (sg_new 4 2)" by code_simp
  have "get_node_shards (shard_run 0 ?ops (sg_new 4 2)) ''a'' = [1]" by code_simp
  moreover have "case get_shard (shard_run 0 ?ops (sg_new 4 2)) 1 of None \<Rightarrow> False | Some s \<Rightarrow> ''b'' \<in> set (shard_all_nodes s)"
    by code_simp
  ultimately show ?thesis using shard_index_consistent [OF ok] by (auto split: option.splits)
qed

text \<open>Where the code does not do what it means to.  A replica added twice, or a shard created again
  on another node, leaves stale entries in the index.\<close>

lemma replica_added_twice:
  "get_node_shards (shard_run 0 [SCreate 1 ''a'', SReplica 1 ''b'', SReplica 1 ''b''] (sg_new 4 2)) ''b'' = [1, 1]"
  by code_simp

lemma shard_created_again:
  "get_node_shards (shard_run 0 [SCreate 1 ''a'', SCreate 1 ''b'', SRemove 1] (sg_new 4 2)) ''a'' = [1]"
  by code_simp

text \<open>The largest hash value belongs to no shard, although the last one ends there.\<close>

lemma last_hash_uncovered:
  "\<forall>s \<in> set (hm_values (sg_shards sample_shards)). \<not> shard_contains_key s (- 1)"
  by code_simp

text \<open>The shard manager's own lookup takes the hash modulo the number of shards and disagrees with
  the ranges that it gave to its shards and that the router uses.\<close>

theorem key_lookup_disagrees_with_ranges:
  "map_option sh_id (get_shard_for_key sample_shards 3) = Some 3
   \<and> map_option re_shard_id (find_shard (from_shards (hm_values (sg_shards sample_shards))) 3) = Some 0
   \<and> \<not> (case get_shard_for_key sample_shards 3 of None \<Rightarrow> True | Some s \<Rightarrow> shard_contains_key s 3)"
  by code_simp

text \<open>A quoted value is cut at its first space, because the pattern has already consumed the quote
  that would mark it as a string; a column name is found inside a longer one.\<close>

lemma quoted_value_truncated:
  "qr_partition_key (analyze [''name''] (''SELECT * FROM t WHERE name = '' @ [CHR 0x27] @ ''John Smith'' @ [CHR 0x27])) =
     Some (PkString ''John'')"
  by code_simp

lemma column_inside_longer_name:
  "qr_partition_key (analyze [''id''] ''SELECT * FROM t WHERE paid = yes'') = Some (PkString ''yes'')"
  by code_simp

end
