(* ===== verification/LockManager.thy ===== *)
theory LockManager
  imports Common
begin

text \<open>
  The lock table of the storage engine, \<^verbatim>\<open>crates/aegis-storage/src/transaction.rs\<close>:
  lock modes, requests, and the lock manager.  \<^verbatim>\<open>acquire\<close> polls: it takes the table's
  mutex, tries, and sleeps between two tries while other threads use the table.  What they
  do between the polls is the list of table transformers the loop takes as an argument;
  when the list is used up the timeout has passed.

  The safety fact is that two different transactions never hold incompatible locks on one
  key; an exclusive lock excludes everybody else.
\<close>

section \<open>Data\<close>

record version_key =
  vk_table_id :: u32
  vk_row_id :: u64

datatype lock_mode = Shared | Exclusive | IntentShared | IntentExclusive | Update

fun is_compatible :: "lock_mode \<Rightarrow> lock_mode \<Rightarrow> bool" where
  "is_compatible Shared Shared = True"
| "is_compatible Shared IntentShared = True"
| "is_compatible IntentShared Shared = True"
| "is_compatible IntentShared IntentShared = True"
| "is_compatible IntentShared IntentExclusive = True"
| "is_compatible IntentExclusive IntentShared = True"
| "is_compatible IntentExclusive IntentExclusive = True"
| "is_compatible _ _ = False"

record lock_request =
  lr_tx_id :: transaction_id
  lr_key :: version_key
  lr_mode :: lock_mode
  lr_granted :: bool

record lock_entry =
  le_holders :: "lock_request list"
  le_waiters :: "lock_request list"

definition lock_entry_default :: lock_entry where
  "lock_entry_default = \<lparr>le_holders = [], le_waiters = []\<rparr>"

type_synonym lock_table = "(version_key, lock_entry) hmap"

section \<open>Operations\<close>

definition can_grant :: "lock_entry \<Rightarrow> lock_request \<Rightarrow> bool" where
  "can_grant e r \<longleftrightarrow>
     list_all (\<lambda>h. lr_tx_id h = lr_tx_id r \<or> is_compatible (lr_mode h) (lr_mode r)) (le_holders e)"

definition grant :: "lock_entry \<Rightarrow> lock_request \<Rightarrow> lock_entry" where
  "grant e r = e\<lparr>le_holders := le_holders e @ [r\<lparr>lr_granted := True\<rparr>]\<rparr>"

text \<open>One pass of the loop of \<^verbatim>\<open>acquire\<close> under the table's mutex: grant, or queue the
  request unless the transaction already waits.\<close>

definition acquire_poll :: "lock_table \<Rightarrow> lock_request \<Rightarrow> bool \<times> lock_table" where
  "acquire_poll locks r =
     (let e = hm_get_or locks (lr_key r) lock_entry_default in
      if can_grant e r then (True, hm_insert (lr_key r) (grant e r) locks)
      else
        let e' = (if \<not> list_ex (\<lambda>w. lr_tx_id w = lr_tx_id r) (le_waiters e)
                  then e\<lparr>le_waiters := le_waiters e @ [r]\<rparr> else e)
        in (False, hm_insert (lr_key r) e' locks))"

definition release_waiter :: "lock_table \<Rightarrow> lock_request \<Rightarrow> lock_table" where
  "release_waiter locks r =
     (case hm_get locks (lr_key r) of
        None \<Rightarrow> locks
      | Some e \<Rightarrow>
          hm_insert (lr_key r)
            (e\<lparr>le_waiters := filter (\<lambda>w. lr_tx_id w \<noteq> lr_tx_id r) (le_waiters e)\<rparr>) locks)"

fun acquire ::
    "(lock_table \<Rightarrow> lock_table) list \<Rightarrow> lock_table \<Rightarrow> lock_request \<Rightarrow> unit aegis_result \<times> lock_table" where
  "acquire [] locks r =
     (let (granted, locks') = acquire_poll locks r in
      if granted then (Inr (), locks') else (Inl LockTimeout, release_waiter locks' r))"
| "acquire (others # sched) locks r =
     (let (granted, locks') = acquire_poll locks r in
      if granted then (Inr (), locks') else acquire sched (others locks') r)"

definition try_acquire :: "lock_table \<Rightarrow> lock_request \<Rightarrow> bool aegis_result \<times> lock_table" where
  "try_acquire locks r =
     (let e = hm_get_or locks (lr_key r) lock_entry_default in
      if can_grant e r then (Inr True, hm_insert (lr_key r) (grant e r) locks)
      else (Inr False, hm_insert (lr_key r) e locks))"

text \<open>The promotion loop of \<^verbatim>\<open>release\<close>: it stops at the first waiter that has to go on
  waiting.\<close>

fun promote_waiters :: "lock_request list \<Rightarrow> lock_request list \<Rightarrow> lock_entry" where
  "promote_waiters hs [] = \<lparr>le_holders = hs, le_waiters = []\<rparr>"
| "promote_waiters hs (w # ws) =
     (if list_all (\<lambda>h. is_compatible (lr_mode h) (lr_mode w)) hs
      then promote_waiters (hs @ [w\<lparr>lr_granted := True\<rparr>]) ws
      else \<lparr>le_holders = hs, le_waiters = w # ws\<rparr>)"

definition put_entry :: "version_key \<Rightarrow> lock_entry \<Rightarrow> lock_table \<Rightarrow> lock_table" where
  "put_entry key e locks =
     (if le_holders e = [] \<and> le_waiters e = [] then hm_remove key locks else hm_insert key e locks)"

definition release :: "lock_table \<Rightarrow> transaction_id \<Rightarrow> version_key \<Rightarrow> lock_table" where
  "release locks tx_id key =
     (case hm_get locks key of
        None \<Rightarrow> locks
      | Some e \<Rightarrow>
          put_entry key
            (promote_waiters (filter (\<lambda>h. lr_tx_id h \<noteq> tx_id) (le_holders e)) (le_waiters e)) locks)"

definition drop_tx :: "transaction_id \<Rightarrow> lock_entry \<Rightarrow> lock_entry" where
  "drop_tx tx_id e =
     \<lparr>le_holders = filter (\<lambda>h. lr_tx_id h \<noteq> tx_id) (le_holders e),
      le_waiters = filter (\<lambda>w. lr_tx_id w \<noteq> tx_id) (le_waiters e)\<rparr>"

definition release_all :: "lock_table \<Rightarrow> transaction_id \<Rightarrow> lock_table" where
  "release_all locks tx_id =
     foldl (\<lambda>l key. case hm_get l key of None \<Rightarrow> l | Some e \<Rightarrow> put_entry key (drop_tx tx_id e) l)
       locks (hm_keys locks)"

section \<open>Views\<close>

text \<open>Who holds which lock on a key.\<close>

definition lock_holders :: "lock_table \<Rightarrow> version_key \<Rightarrow> lock_request set" where
  "lock_holders locks key = set (le_holders (hm_get_or locks key lock_entry_default))"

definition holds :: "lock_table \<Rightarrow> transaction_id \<Rightarrow> version_key \<Rightarrow> lock_mode \<Rightarrow> bool" where
  "holds locks tx key mode \<longleftrightarrow> (\<exists>h \<in> lock_holders locks key. lr_tx_id h = tx \<and> lr_mode h = mode)"

text \<open>The invariant of the table: different transactions hold compatible locks only.\<close>

definition lock_safe :: "lock_table \<Rightarrow> bool" where
  "lock_safe locks \<longleftrightarrow>
     (\<forall>key. \<forall>h \<in> lock_holders locks key. \<forall>h' \<in> lock_holders locks key.
        lr_tx_id h = lr_tx_id h' \<or> is_compatible (lr_mode h) (lr_mode h'))"

lemma is_compatible_sym: "is_compatible a b = is_compatible b a"
  by (cases a; cases b) simp_all

lemma exclusive_incompatible [simp]:
  "\<not> is_compatible Exclusive m" "\<not> is_compatible m Exclusive"
  by (cases m; simp)+

lemma lock_entry_default_simps [simp]:
  "le_holders lock_entry_default = []" "le_waiters lock_entry_default = []"
  by (simp_all add: lock_entry_default_def)

lemma holders_insert:
  "lock_holders (hm_insert key e locks) key' =
     (if key' = key then set (le_holders e) else lock_holders locks key')"
  by (simp add: lock_holders_def hm_simps)

lemma holders_put_entry:
  "lock_holders (put_entry key e locks) key' =
     (if key' = key then set (le_holders e) else lock_holders locks key')"
  by (simp add: lock_holders_def put_entry_def hm_simps)

lemma can_grant_iff:
  "can_grant (hm_get_or locks (lr_key r) lock_entry_default) r \<longleftrightarrow>
     (\<forall>h \<in> lock_holders locks (lr_key r). lr_tx_id h = lr_tx_id r \<or> is_compatible (lr_mode h) (lr_mode r))"
  by (simp add: can_grant_def lock_holders_def list_all_iff)

lemma holders_acquire_poll:
  "lock_holders (snd (acquire_poll locks r)) key =
     (if key = lr_key r \<and> fst (acquire_poll locks r)
      then insert (r\<lparr>lr_granted := True\<rparr>) (lock_holders locks key) else lock_holders locks key)"
  by (auto simp: acquire_poll_def Let_def holders_insert grant_def)
     (auto simp: lock_holders_def)

lemma fst_acquire_poll:
  "fst (acquire_poll locks r) \<longleftrightarrow>
     (\<forall>h \<in> lock_holders locks (lr_key r). lr_tx_id h = lr_tx_id r \<or> is_compatible (lr_mode h) (lr_mode r))"
  by (simp add: acquire_poll_def Let_def can_grant_iff)

lemma holders_release_waiter [simp]: "lock_holders (release_waiter locks r) key = lock_holders locks key"
  by (auto simp: release_waiter_def holders_insert split: option.splits)
     (simp_all add: lock_holders_def hm_get_or_def)

lemma holders_try_acquire:
  "lock_holders (snd (try_acquire locks r)) key =
     (if key = lr_key r \<and> fst (try_acquire locks r) = Inr True
      then insert (r\<lparr>lr_granted := True\<rparr>) (lock_holders locks key) else lock_holders locks key)"
  by (auto simp: try_acquire_def Let_def holders_insert grant_def)
     (auto simp: lock_holders_def)

text \<open>One key's worth of \<^verbatim>\<open>release_all\<close>.\<close>

lemma holders_release_step:
  "lock_holders (case hm_get l key of None \<Rightarrow> l | Some e \<Rightarrow> put_entry key (drop_tx tx e) l) key' =
     (if key' = key then {h \<in> lock_holders l key. lr_tx_id h \<noteq> tx} else lock_holders l key')"
  by (auto simp: holders_put_entry drop_tx_def split: option.splits)
     (auto simp: lock_holders_def hm_get_or_def)

lemma holders_release_fold:
  "lock_holders (foldl (\<lambda>l key. case hm_get l key of None \<Rightarrow> l | Some e \<Rightarrow> put_entry key (drop_tx tx e) l)
      locks ks) key =
     (if key \<in> set ks then {h \<in> lock_holders locks key. lr_tx_id h \<noteq> tx} else lock_holders locks key)"
  by (induction ks arbitrary: locks) (auto simp: holders_release_step simp del: option.case)

lemma holders_release_all:
  "lock_holders (release_all locks tx) key = {h \<in> lock_holders locks key. lr_tx_id h \<noteq> tx}"
proof (cases "key \<in> set (hm_keys locks)")
  case True
  then show ?thesis unfolding release_all_def by (simp only: holders_release_fold if_True)
next
  case False
  then have "hm_get locks key = None" by (simp add: map_of_eq_None_iff)
  then have "lock_holders locks key = {}" by (simp add: lock_holders_def hm_get_or_def)
  then show ?thesis unfolding release_all_def by (simp add: holders_release_fold)
qed

text \<open>Promotion is stricter than \<^verbatim>\<open>acquire\<close>: a waiter becomes a holder only beside
  holders that are all compatible, so compatibility survives.\<close>

lemma promote_waiters_safe:
  assumes "\<forall>h \<in> set hs. \<forall>h' \<in> set hs. lr_tx_id h = lr_tx_id h' \<or> is_compatible (lr_mode h) (lr_mode h')"
  shows "\<forall>h \<in> set (le_holders (promote_waiters hs ws)). \<forall>h' \<in> set (le_holders (promote_waiters hs ws)).
    lr_tx_id h = lr_tx_id h' \<or> is_compatible (lr_mode h) (lr_mode h')"
  using assms
proof (induction ws arbitrary: hs)
  case Nil
  then show ?case by simp
next
  case (Cons w ws)
  show ?case
  proof (cases "list_all (\<lambda>h. is_compatible (lr_mode h) (lr_mode w)) hs")
    case True
    then have "\<forall>h \<in> set hs. is_compatible (lr_mode h) (lr_mode w) \<and> is_compatible (lr_mode w) (lr_mode h)"
      by (simp add: list_all_iff is_compatible_sym)
    with True Cons.prems show ?thesis by (simp only: promote_waiters.simps if_True) (rule Cons.IH, simp)
  next
    case False
    with Cons.prems show ?thesis by simp
  qed
qed

lemma lock_safe_Nil [simp]: "lock_safe []"
  by (simp add: lock_safe_def lock_holders_def hm_get_or_def)

lemma lock_safe_acquire_poll: "lock_safe locks \<Longrightarrow> lock_safe (snd (acquire_poll locks r))"
  by (auto simp: lock_safe_def holders_acquire_poll fst_acquire_poll is_compatible_sym)

lemma lock_safe_release_waiter: "lock_safe locks \<Longrightarrow> lock_safe (release_waiter locks r)"
  by (simp add: lock_safe_def)

lemma lock_safe_release_all: "lock_safe locks \<Longrightarrow> lock_safe (release_all locks tx)"
  unfolding lock_safe_def holders_release_all by blast

lemma try_acquire_poll:
  "fst (try_acquire locks r) = Inr (fst (acquire_poll locks r))"
  by (simp add: try_acquire_def acquire_poll_def Let_def)

lemma lock_safe_try_acquire: "lock_safe locks \<Longrightarrow> lock_safe (snd (try_acquire locks r))"
  by (auto simp: lock_safe_def holders_try_acquire try_acquire_poll fst_acquire_poll is_compatible_sym)

lemma lock_safe_release:
  assumes "lock_safe locks"
  shows "lock_safe (release locks tx key)"
proof (cases "hm_get locks key")
  case None
  with assms show ?thesis by (simp add: release_def)
next
  case (Some e)
  let ?hs = "filter (\<lambda>h. lr_tx_id h \<noteq> tx) (le_holders e)"
  have "set ?hs \<subseteq> lock_holders locks key" using Some by (auto simp: lock_holders_def hm_get_or_def)
  with assms have "\<forall>h \<in> set ?hs. \<forall>h' \<in> set ?hs.
      lr_tx_id h = lr_tx_id h' \<or> is_compatible (lr_mode h) (lr_mode h')"
    unfolding lock_safe_def by blast
  from promote_waiters_safe [OF this, of "le_waiters e"] assms Some show ?thesis
    by (simp add: release_def lock_safe_def holders_put_entry)
qed

text \<open>The loop keeps the invariant when what the other threads do keeps it.\<close>

lemma lock_safe_acquire:
  assumes "lock_safe locks" "\<And>f l. f \<in> set sched \<Longrightarrow> lock_safe l \<Longrightarrow> lock_safe (f l)"
  shows "lock_safe (snd (acquire sched locks r))"
  using assms
proof (induction sched arbitrary: locks)
  case Nil
  then show ?case
    using lock_safe_acquire_poll [of locks r]
    by (auto simp: Let_def split: prod.splits intro: lock_safe_release_waiter)
next
  case (Cons f sched)
  have "lock_safe (snd (acquire_poll locks r))" by (rule lock_safe_acquire_poll [OF Cons.prems(1)])
  with Cons show ?case by (auto simp: Let_def split: prod.splits)
qed

section \<open>The lock table under interleaving\<close>

text \<open>Every critical section of the lock manager is one step.\<close>

inductive lock_step :: "lock_table \<Rightarrow> lock_table \<Rightarrow> bool" where
  poll: "lock_step locks (snd (acquire_poll locks r))"
| timeout: "lock_step locks (release_waiter locks r)"
| try_it: "lock_step locks (snd (try_acquire locks r))"
| release_one: "lock_step locks (release locks tx key)"
| release_tx: "lock_step locks (release_all locks tx)"

inductive_simps lock_step_iff: "lock_step locks locks'"

lemma lock_step_safe: "lock_step locks locks' \<Longrightarrow> lock_safe locks \<Longrightarrow> lock_safe locks'"
  by (induction rule: lock_step.induct)
     (simp_all add: lock_safe_acquire_poll lock_safe_release_waiter lock_safe_try_acquire
       lock_safe_release lock_safe_release_all)

lemma lock_steps_safe: "lock_step\<^sup>*\<^sup>* locks locks' \<Longrightarrow> lock_safe locks \<Longrightarrow> lock_safe locks'"
  by (induction rule: rtranclp_induct) (auto intro: lock_step_safe)

text \<open>C12: However the calls of any number of threads interleave, two different transactions
  that hold locks on one key hold compatible ones; the holder of an exclusive lock is the only
  holder, and a transaction that already holds a lock (say because a release promoted its
  waiting request) gets it again when it polls.\<close>

theorem lock_mutual_exclusion:
  assumes "lock_step\<^sup>*\<^sup>* [] locks" "h \<in> lock_holders locks key" "h' \<in> lock_holders locks key"
  shows "(lr_tx_id h = lr_tx_id h' \<or> is_compatible (lr_mode h) (lr_mode h'))
       \<and> (lr_mode h = Exclusive \<longrightarrow> lr_tx_id h' = lr_tx_id h)
       \<and> fst (acquire_poll locks (h\<lparr>lr_key := key, lr_granted := False\<rparr>))"
proof -
  have "lock_safe locks" using lock_steps_safe [OF assms(1)] by simp
  then have c: "lr_tx_id a = lr_tx_id b \<or> is_compatible (lr_mode a) (lr_mode b)"
    if "a \<in> lock_holders locks key" "b \<in> lock_holders locks key" for a b
    using that unfolding lock_safe_def by blast
  from c [OF assms(2,3)] have "lr_mode h = Exclusive \<Longrightarrow> lr_tx_id h' = lr_tx_id h" by auto
  with c assms(2,3) show ?thesis by (simp add: fst_acquire_poll)
qed

definition sample_request :: "transaction_id \<Rightarrow> lock_mode \<Rightarrow> lock_request" where
  "sample_request tx mode =
     \<lparr>lr_tx_id = tx, lr_key = \<lparr>vk_table_id = 1, vk_row_id = 7\<rparr>, lr_mode = mode, lr_granted = False\<rparr>"

definition sample_locks :: lock_table where
  "sample_locks =
     snd (acquire_poll (snd (acquire_poll [] (sample_request 1 Shared))) (sample_request 2 IntentShared))"

theorem lock_mutual_exclusion_witness:
  "is_compatible Shared IntentShared
   \<and> fst (acquire_poll sample_locks (sample_request 1 Shared))
   \<and> \<not> fst (acquire_poll sample_locks (sample_request 3 Exclusive))"
proof -
  let ?h = "(sample_request 1 Shared)\<lparr>lr_granted := True\<rparr>"
  let ?h' = "(sample_request 2 IntentShared)\<lparr>lr_granted := True\<rparr>"
  let ?key = "\<lparr>vk_table_id = 1, vk_row_id = 7\<rparr>"
  have "lock_step\<^sup>*\<^sup>* [] sample_locks"
    unfolding sample_locks_def by (meson lock_step.poll r_into_rtranclp rtranclp_trans)
  moreover have "?h \<in> lock_holders sample_locks ?key" "?h' \<in> lock_holders sample_locks ?key"
    unfolding sample_locks_def holders_acquire_poll
    by (simp_all add: sample_request_def acquire_poll_def can_grant_def grant_def Let_def hm_get_or_def
        lock_entry_default_def lock_holders_def)
  ultimately have "is_compatible Shared IntentShared"
      "fst (acquire_poll sample_locks (?h\<lparr>lr_key := ?key, lr_granted := False\<rparr>))"
    using lock_mutual_exclusion [of sample_locks ?h ?key ?h'] by (simp_all add: sample_request_def)
  moreover have "?h\<lparr>lr_key := ?key, lr_granted := False\<rparr> = sample_request 1 Shared"
    by (simp add: sample_request_def)
  moreover have "\<not> fst (acquire_poll sample_locks (sample_request 3 Exclusive))" by code_simp
  ultimately show ?thesis by simp
qed

text \<open>The outcome of a blocking acquisition.\<close>

lemma acquire_outcome:
  assumes "acquire sched locks r = (res, locks')"
  shows "res = Inr () \<and> r\<lparr>lr_granted := True\<rparr> \<in> lock_holders locks' (lr_key r)
       \<or> res = Inl LockTimeout
         \<and> list_all (\<lambda>w. lr_tx_id w \<noteq> lr_tx_id r)
             (le_waiters (hm_get_or locks' (lr_key r) lock_entry_default))"
  using assms
proof (induction sched arbitrary: locks)
  case Nil
  show ?case
  proof (cases "fst (acquire_poll locks r)")
    case True
    with Nil holders_acquire_poll [of locks r "lr_key r"] show ?thesis
      by (auto simp: Let_def split: prod.splits)
  next
    case False
    then have "locks' = release_waiter (snd (acquire_poll locks r)) r" "res = Inl LockTimeout"
      using Nil by (auto simp: Let_def split: prod.splits)
    moreover have "hm_get (snd (acquire_poll locks r)) (lr_key r) \<noteq> None"
      by (simp add: acquire_poll_def Let_def hm_simps)
    ultimately show ?thesis
      by (auto simp: release_waiter_def hm_simps list_all_iff split: option.splits)
  qed
next
  case (Cons f sched)
  then show ?case using holders_acquire_poll [of locks r "lr_key r"]
    by (auto simp: Let_def split: prod.splits if_splits)
qed



end
