(* ===== verification/Mvcc.thy ===== *)
theory Mvcc
  imports LockManager
begin

text \<open>
  Multi-version concurrency control, \<^verbatim>\<open>crates/aegis-storage/src/transaction.rs\<close>: the
  transaction manager with its table of transactions, its version chains and its lock table.

  Each operation of the manager takes its locks one after the other, so it consists of a few
  critical sections.  The sections are definitions of their own (\<open>commit_prepare\<close>,
  \<open>commit_versions\<close>, \<open>commit_finish\<close>, \<open>write_start\<close>, \<open>write_finish\<close>) and an operation
  composes them.  The step relation \<open>tm_step\<close> runs whole operations, except that other
  operations may run while a write waits for its row lock.

  Whether \<^verbatim>\<open>RwLock::read\<close> comes back in a thread that holds the write lock is the
  argument \<open>reentrant\<close> (\<^verbatim>\<open>parking_lot\<close> documents that it does not); a call that never
  comes back has the outcome \<open>Blocked\<close>.  Atomic counters wrap at 64 bits.
\<close>

section \<open>Data\<close>

datatype tx_state = TxActive | TxPreparing | TxCommitted | TxAborted

datatype isolation_level = ReadUncommitted | ReadCommitted | RepeatableRead | Serializable

record tx_snapshot =
  snap_timestamp :: u64
  snap_active_transactions :: "transaction_id set"

record transaction =
  tx_id :: transaction_id
  tx_state :: tx_state
  tx_isolation_level :: isolation_level
  tx_start_timestamp :: u64
  tx_commit_timestamp :: "u64 option"
  tx_snapshot :: tx_snapshot
  tx_write_set :: "version_key list"
  tx_read_set :: "version_key list"
  tx_locks_held :: "lock_request list"

definition transaction_new ::
    "transaction_id \<Rightarrow> isolation_level \<Rightarrow> u64 \<Rightarrow> transaction_id set \<Rightarrow> transaction" where
  "transaction_new ident level start_ts active =
     \<lparr>tx_id = ident, tx_state = TxActive, tx_isolation_level = level, tx_start_timestamp = start_ts,
      tx_commit_timestamp = None,
      tx_snapshot = \<lparr>snap_timestamp = start_ts, snap_active_transactions = active\<rparr>,
      tx_write_set = [], tx_read_set = [], tx_locks_held = []\<rparr>"

definition tx_is_active :: "transaction \<Rightarrow> bool" where
  "tx_is_active tx \<longleftrightarrow> tx_state tx = TxActive"

definition add_to_write_set :: "transaction \<Rightarrow> version_key \<Rightarrow> transaction" where
  "add_to_write_set tx key = tx\<lparr>tx_write_set := List.insert key (tx_write_set tx)\<rparr>"

definition add_to_read_set :: "transaction \<Rightarrow> version_key \<Rightarrow> transaction" where
  "add_to_read_set tx key = tx\<lparr>tx_read_set := List.insert key (tx_read_set tx)\<rparr>"

datatype version_state = VActive | VCommitted u64 | VAborted

datatype version = Version
  (v_key: version_key) (v_created_by: transaction_id) (v_state: version_state) (v_data: bytes)
  (v_prev: "version option")

definition version_new :: "version_key \<Rightarrow> transaction_id \<Rightarrow> bytes \<Rightarrow> version" where
  "version_new key created_by data = Version key created_by VActive data None"

fun with_state :: "version_state \<Rightarrow> version \<Rightarrow> version" where
  "with_state s (Version k c _ d p) = Version k c s d p"

definition version_commit :: "version \<Rightarrow> u64 \<Rightarrow> version" where
  "version_commit v ts = with_state (VCommitted ts) v"

definition version_abort :: "version \<Rightarrow> version" where
  "version_abort v = with_state VAborted v"

definition is_visible :: "tx_snapshot \<Rightarrow> version \<Rightarrow> bool" where
  "is_visible snap v =
     (case v_state v of
        VCommitted commit_ts \<Rightarrow>
          commit_ts \<le> snap_timestamp snap \<and> v_created_by v \<notin> snap_active_transactions snap
      | VActive \<Rightarrow> False
      | VAborted \<Rightarrow> False)"

record tx_manager =
  tm_transactions :: "(transaction_id, transaction) hmap"
  tm_next_tx_id :: u64
  tm_next_timestamp :: u64
  tm_locks :: lock_table
  tm_versions :: "(version_key, version) hmap"

definition tm_new :: tx_manager where
  "tm_new = \<lparr>tm_transactions = [], tm_next_tx_id = 1, tm_next_timestamp = 1, tm_locks = [],
     tm_versions = []\<rparr>"

section \<open>Begin, commit, abort\<close>

definition active_ids :: "tx_manager \<Rightarrow> transaction_id set" where
  "active_ids m = set (map fst (filter (\<lambda>(_, tx). tx_is_active tx) (tm_transactions m)))"

definition tm_begin :: "tx_manager \<Rightarrow> isolation_level \<Rightarrow> transaction_id aegis_result \<times> tx_manager" where
  "tm_begin m level =
     (let ident = tm_next_tx_id m; start_ts = tm_next_timestamp m;
          tx = transaction_new ident level start_ts (active_ids m)
      in (Inr ident,
          m\<lparr>tm_next_tx_id := ident + 1, tm_next_timestamp := start_ts + 1,
            tm_transactions := hm_insert ident tx (tm_transactions m)\<rparr>))"

text \<open>A committed transaction that started to be visible after \<open>tx\<close> began and wrote a key
  that \<open>tx\<close> read.\<close>

definition conflicts_with :: "transaction \<Rightarrow> transaction \<Rightarrow> bool" where
  "conflicts_with tx other \<longleftrightarrow>
     tx_id other \<noteq> tx_id tx \<and> tx_state other = TxCommitted
     \<and> (case tx_commit_timestamp other of
          None \<Rightarrow> False
        | Some ts \<Rightarrow> ts > tx_start_timestamp tx
            \<and> list_ex (\<lambda>key. key \<in> set (tx_write_set other)) (tx_read_set tx))"

definition validate_serializable :: "tx_manager \<Rightarrow> transaction \<Rightarrow> unit aegis_result" where
  "validate_serializable m tx =
     (if list_ex (conflicts_with tx) (hm_values (tm_transactions m))
      then Inl SerializationFailure else Inr ())"

datatype 'a call = Returned "'a aegis_result" | Blocked

text \<open>The first critical section of \<^verbatim>\<open>commit\<close> holds the write lock of the transaction
  table; \<^verbatim>\<open>validate_serializable\<close> asks for the read lock of the same table.\<close>

definition commit_prepare ::
    "bool \<Rightarrow> u64 \<Rightarrow> tx_manager \<Rightarrow> transaction_id \<Rightarrow> unit call \<times> tx_manager" where
  "commit_prepare reentrant commit_ts m t =
     (case hm_get (tm_transactions m) t of
        None \<Rightarrow> (Returned (Inl (Transaction ''Transaction not found'')), m)
      | Some tx \<Rightarrow>
          if tx_state tx \<noteq> TxActive then
            (Returned (Inl (Transaction ''Transaction not active'')), m)
          else
            let prepared = m\<lparr>tm_transactions := hm_insert t
                  (tx\<lparr>tx_state := TxPreparing, tx_commit_timestamp := Some commit_ts\<rparr>)
                  (tm_transactions m)\<rparr>
            in if tx_isolation_level tx = Serializable then
                 (if \<not> reentrant then (Blocked, m)
                  else case validate_serializable m tx of
                    Inl e \<Rightarrow> (Returned (Inl e), m)
                  | Inr _ \<Rightarrow> (Returned (Inr ()), prepared))
               else (Returned (Inr ()), prepared))"

definition stamp_own ::
    "(version \<Rightarrow> version) \<Rightarrow> transaction_id \<Rightarrow> (version_key, version) hmap \<Rightarrow> version_key
      \<Rightarrow> (version_key, version) hmap" where
  "stamp_own f t versions key =
     (case hm_get versions key of
        None \<Rightarrow> versions
      | Some v \<Rightarrow> if v_created_by v = t then hm_insert key (f v) versions else versions)"

definition commit_versions ::
    "u64 \<Rightarrow> tx_manager \<Rightarrow> transaction_id \<Rightarrow> unit aegis_result \<times> tx_manager" where
  "commit_versions commit_ts m t =
     (case hm_get (tm_transactions m) t of
        None \<Rightarrow> (Inl (Transaction ''Transaction disappeared during commit''), m)
      | Some tx \<Rightarrow>
          (Inr (), m\<lparr>tm_versions :=
             foldl (stamp_own (\<lambda>v. version_commit v commit_ts) t) (tm_versions m) (tx_write_set tx)\<rparr>))"

definition set_tx_state :: "tx_state \<Rightarrow> tx_manager \<Rightarrow> transaction_id \<Rightarrow> tx_manager" where
  "set_tx_state s m t =
     (case hm_get (tm_transactions m) t of
        None \<Rightarrow> m
      | Some tx \<Rightarrow> m\<lparr>tm_transactions := hm_insert t (tx\<lparr>tx_state := s\<rparr>) (tm_transactions m)\<rparr>)"

definition commit_finish :: "tx_manager \<Rightarrow> transaction_id \<Rightarrow> tx_manager" where
  "commit_finish m t =
     (let m' = set_tx_state TxCommitted m t in m'\<lparr>tm_locks := release_all (tm_locks m') t\<rparr>)"

definition tm_commit :: "bool \<Rightarrow> tx_manager \<Rightarrow> transaction_id \<Rightarrow> unit call \<times> tx_manager" where
  "tm_commit reentrant m t =
     (let commit_ts = tm_next_timestamp m; m1 = m\<lparr>tm_next_timestamp := commit_ts + 1\<rparr> in
      case commit_prepare reentrant commit_ts m1 t of
        (Returned (Inr _), m2) \<Rightarrow>
          (case commit_versions commit_ts m2 t of
             (Inl e, m3) \<Rightarrow> (Returned (Inl e), m3)
           | (Inr _, m3) \<Rightarrow> (Returned (Inr ()), commit_finish m3 t))
      | r \<Rightarrow> r)"

definition tm_abort :: "tx_manager \<Rightarrow> transaction_id \<Rightarrow> unit aegis_result \<times> tx_manager" where
  "tm_abort m t =
     (case hm_get (tm_transactions m) t of
        None \<Rightarrow> (Inl (Transaction ''Transaction not found''), m)
      | Some tx \<Rightarrow>
          let m1 = set_tx_state TxAborted m t;
              m2 = m1\<lparr>tm_versions :=
                foldl (stamp_own version_abort t) (tm_versions m1) (tx_write_set tx)\<rparr>
          in (Inr (), m2\<lparr>tm_locks := release_all (tm_locks m2) t\<rparr>))"

section \<open>Reads and writes\<close>

fun read_chain :: "tx_snapshot \<Rightarrow> version \<Rightarrow> bytes option" where
  "read_chain snap (Version k c s d prev) =
     (if is_visible snap (Version k c s d prev) then Some d
      else case prev of None \<Rightarrow> None | Some p \<Rightarrow> read_chain snap p)"

definition tm_read :: "tx_manager \<Rightarrow> transaction_id \<Rightarrow> version_key \<Rightarrow> bytes option aegis_result" where
  "tm_read m t key =
     (case hm_get (tm_transactions m) t of
        None \<Rightarrow> Inl (Transaction ''Transaction not found'')
      | Some tx \<Rightarrow>
          if \<not> tx_is_active tx then Inl (Transaction ''Transaction not active'')
          else Inr (case hm_get (tm_versions m) key of
                      None \<Rightarrow> None
                    | Some v \<Rightarrow> read_chain (tx_snapshot tx) v))"

definition write_start :: "tx_manager \<Rightarrow> transaction_id \<Rightarrow> version_key \<Rightarrow> unit aegis_result \<times> tx_manager" where
  "write_start m t key =
     (case hm_get (tm_transactions m) t of
        None \<Rightarrow> (Inl (Transaction ''Transaction not found''), m)
      | Some tx \<Rightarrow>
          if \<not> tx_is_active tx then (Inl (Transaction ''Transaction not active''), m)
          else (Inr (), m\<lparr>tm_transactions := hm_insert t (add_to_write_set tx key) (tm_transactions m)\<rparr>))"

definition write_request :: "transaction_id \<Rightarrow> version_key \<Rightarrow> lock_request" where
  "write_request t key = \<lparr>lr_tx_id = t, lr_key = key, lr_mode = Exclusive, lr_granted = False\<rparr>"

definition push_version ::
    "version_key \<Rightarrow> transaction_id \<Rightarrow> bytes \<Rightarrow> (version_key, version) hmap \<Rightarrow> (version_key, version) hmap" where
  "push_version key t data versions =
     hm_insert key
       (case hm_get versions key of
          None \<Rightarrow> version_new key t data
        | Some existing \<Rightarrow> Version key t VActive data (Some existing))
       versions"

definition write_finish ::
    "tx_manager \<Rightarrow> transaction_id \<Rightarrow> version_key \<Rightarrow> bytes \<Rightarrow> unit aegis_result \<times> tx_manager" where
  "write_finish m t key data =
     (case hm_get (tm_transactions m) t of
        None \<Rightarrow> (Inl (Transaction ''Transaction disappeared during write''), m)
      | Some _ \<Rightarrow> (Inr (), m\<lparr>tm_versions := push_version key t data (tm_versions m)\<rparr>))"

text \<open>A write; \<open>sched\<close> is what other threads do to the lock table while it waits.\<close>

definition tm_write ::
    "(lock_table \<Rightarrow> lock_table) list \<Rightarrow> tx_manager \<Rightarrow> transaction_id \<Rightarrow> version_key \<Rightarrow> bytes
      \<Rightarrow> unit aegis_result \<times> tx_manager" where
  "tm_write sched m t key data =
     (case write_start m t key of
        (Inl e, m1) \<Rightarrow> (Inl e, m1)
      | (Inr _, m1) \<Rightarrow>
          (case acquire sched (tm_locks m1) (write_request t key) of
             (Inl e, locks) \<Rightarrow> (Inl e, m1\<lparr>tm_locks := locks\<rparr>)
           | (Inr _, locks) \<Rightarrow> write_finish (m1\<lparr>tm_locks := locks\<rparr>) t key data))"

definition tm_delete ::
    "(lock_table \<Rightarrow> lock_table) list \<Rightarrow> tx_manager \<Rightarrow> transaction_id \<Rightarrow> version_key
      \<Rightarrow> unit aegis_result \<times> tx_manager" where
  "tm_delete sched m t key = tm_write sched m t key []"

section \<open>Statistics and garbage collection\<close>

record tx_stats =
  ts_active :: nat
  ts_committed :: nat
  ts_aborted :: nat
  ts_total :: nat
  ts_version_count :: nat

fun chain_length :: "version \<Rightarrow> nat" where
  "chain_length (Version k c s d prev) =
     1 + (case prev of None \<Rightarrow> 0 | Some p \<Rightarrow> chain_length p)"

definition tm_stats :: "tx_manager \<Rightarrow> tx_stats" where
  "tm_stats m =
     (let count = (\<lambda>P. length (filter (\<lambda>tx. P (tx_state tx)) (hm_values (tm_transactions m)))) in
      \<lparr>ts_active = count (\<lambda>s. s = TxActive \<or> s = TxPreparing), ts_committed = count (\<lambda>s. s = TxCommitted),
       ts_aborted = count (\<lambda>s. s = TxAborted), ts_total = hm_len (tm_transactions m),
       ts_version_count = sum_list (map chain_length (hm_values (tm_versions m)))\<rparr>)"

text \<open>The least start timestamp of an active transaction, \<^verbatim>\<open>u64::MAX\<close> when there is none.\<close>

definition min_active_timestamp :: "tx_manager \<Rightarrow> u64" where
  "min_active_timestamp m =
     foldl min (- 1) (map tx_start_timestamp (filter tx_is_active (hm_values (tm_transactions m))))"

fun gc_version_chain :: "u64 \<Rightarrow> version \<Rightarrow> version \<times> nat" where
  "gc_version_chain min_ts (Version k c s d None) = (Version k c s d None, 0)"
| "gc_version_chain min_ts (Version k c s d (Some prev)) =
     (let (p, collected) = gc_version_chain min_ts prev in
      if v_state p = VAborted then (Version k c s d (v_prev p), collected + 1)
      else case (s, v_state p) of
             (VCommitted curr_commit_ts, VCommitted prev_commit_ts) \<Rightarrow>
               if prev_commit_ts < min_ts \<and> curr_commit_ts < min_ts
               then (Version k c s d None, collected + 1)
               else (Version k c s d (Some p), collected)
           | _ \<Rightarrow> (Version k c s d (Some p), collected))"

record gc_stats =
  gs_versions_collected :: nat
  gs_transactions_cleaned :: nat
  gs_min_active_timestamp :: u64

definition tx_collectable :: "u64 \<Rightarrow> transaction \<Rightarrow> bool" where
  "tx_collectable min_ts tx \<longleftrightarrow>
     (tx_state tx = TxCommitted \<or> tx_state tx = TxAborted)
     \<and> (case tx_commit_timestamp tx of None \<Rightarrow> tx_start_timestamp tx | Some ts \<Rightarrow> ts) < min_ts"

definition run_gc :: "tx_manager \<Rightarrow> gc_stats \<times> tx_manager" where
  "run_gc m =
     (let min_ts = min_active_timestamp m;
          collected = sum_list (map (\<lambda>(_, v). snd (gc_version_chain min_ts v)) (tm_versions m));
          versions = map (\<lambda>(k, v). (k, fst (gc_version_chain min_ts v))) (tm_versions m);
          cleaned = length (filter (\<lambda>(_, tx). tx_collectable min_ts tx) (tm_transactions m));
          txs = filter (\<lambda>(_, tx). \<not> tx_collectable min_ts tx) (tm_transactions m)
      in (\<lparr>gs_versions_collected = collected, gs_transactions_cleaned = cleaned,
           gs_min_active_timestamp = min_ts\<rparr>,
          m\<lparr>tm_versions := versions, tm_transactions := txs\<rparr>))"

definition run_gc_if_needed :: "tx_manager \<Rightarrow> nat \<Rightarrow> gc_stats option \<times> tx_manager" where
  "run_gc_if_needed m threshold =
     (if ts_version_count (tm_stats m) > threshold
      then let (s, m') = run_gc m in (Some s, m')
      else (None, m))"

section \<open>Version chains as lists\<close>

text \<open>A chain, newest version first, as creator, state and data.\<close>

fun chain :: "version \<Rightarrow> (transaction_id \<times> version_state \<times> bytes) list" where
  "chain (Version k c s d prev) = (c, s, d) # (case prev of None \<Rightarrow> [] | Some p \<Rightarrow> chain p)"

fun sees :: "tx_snapshot \<Rightarrow> transaction_id \<times> version_state \<times> bytes \<Rightarrow> bool" where
  "sees snap (c, s, d) \<longleftrightarrow>
     (\<exists>ts. s = VCommitted ts \<and> ts \<le> snap_timestamp snap \<and> c \<notin> snap_active_transactions snap)"

lemma is_visible_sees: "is_visible snap (Version k c s d p) \<longleftrightarrow> sees snap (c, s, d)"
  by (cases s) (simp_all add: is_visible_def)

lemma chain_head: "chain v = (v_created_by v, v_state v, v_data v) #
    (case v_prev v of None \<Rightarrow> [] | Some p \<Rightarrow> chain p)"
  by (cases v) simp

lemma head_in_chain: "(v_created_by v, v_state v, v_data v) \<in> set (chain v)"
  by (cases v) simp

lemma chain_with_state:
  "chain (with_state s v) = (v_created_by v, s, v_data v) # tl (chain v)"
  by (cases v) simp

lemma with_state_sel [simp]:
  "v_created_by (with_state s v) = v_created_by v" "v_data (with_state s v) = v_data v"
  "v_state (with_state s v) = s" "v_prev (with_state s v) = v_prev v"
  by (cases v; simp)+

text \<open>Reading finds the newest version that the snapshot sees.\<close>

lemma read_chain_find: "read_chain snap v = map_option (snd \<circ> snd) (List.find (sees snap) (chain v))"
proof (induction v)
  case (Version k c s d p)
  then show ?case by (cases p) (simp_all add: is_visible_sees del: sees.simps)
qed

lemma chain_length_chain: "chain_length v = length (chain v)"
proof (induction v)
  case (Version k c s d p)
  then show ?case by (cases p) simp_all
qed

lemma gc_head:
  "v_created_by (fst (gc_version_chain n v)) = v_created_by v
   \<and> v_state (fst (gc_version_chain n v)) = v_state v \<and> v_data (fst (gc_version_chain n v)) = v_data v"
  by (cases "(n, v)" rule: gc_version_chain.cases)
     (auto simp: Let_def split: prod.splits version_state.splits if_splits)

lemma gc_chain_subset: "set (chain (fst (gc_version_chain n v))) \<subseteq> set (chain v)"
proof (induction n v rule: gc_version_chain.induct)
  case (2 n k c s d prev)
  obtain p x where p: "gc_version_chain n prev = (p, x)" by force
  with 2 have "set (chain p) \<subseteq> set (chain prev)" by simp
  moreover have "set (chain p) = insert (v_created_by p, v_state p, v_data p)
      (case v_prev p of None \<Rightarrow> {} | Some q \<Rightarrow> set (chain q))"
    by (subst chain_head) (simp split: option.splits)
  ultimately show ?case
    by (auto simp: p split: version_state.splits option.splits)
qed simp

text \<open>Collection keeps what a snapshot reads when the snapshot sees every committed version
  below the watermark.\<close>

lemma gc_read:
  assumes "\<And>c ts d. (c, VCommitted ts, d) \<in> set (chain v) \<Longrightarrow> ts < n \<Longrightarrow> sees snap (c, VCommitted ts, d)"
  shows "read_chain snap (fst (gc_version_chain n v)) = read_chain snap v"
  using assms
proof (induction n v rule: gc_version_chain.induct)
  case (2 n k c s d prev)
  obtain p x where p: "gc_version_chain n prev = (p, x)" by force
  have "read_chain snap (fst (gc_version_chain n prev)) = read_chain snap prev"
    by (rule "2.IH") (rule "2.prems", auto)
  then have IH: "read_chain snap p = read_chain snap prev" by (simp add: p)
  have skip: "read_chain snap p = (case v_prev p of None \<Rightarrow> None | Some q \<Rightarrow> read_chain snap q)"
    if "v_state p = VAborted"
    using that by (cases p) (simp add: is_visible_def)
  have "is_visible snap (Version k c s d q)" if "s = VCommitted ts" "ts < n" for ts q
    using 2(2) [of c ts d] that by (simp add: is_visible_sees del: sees.simps)
  then show ?case using IH skip
    by (auto simp: p is_visible_sees simp del: sees.simps split: version_state.splits option.splits)
qed simp

section \<open>Effects of the operations\<close>

lemma with_state_idem [simp]: "with_state s (with_state s' v) = with_state s v"
  by (cases v) simp

lemma hm_get_stamp_fold:
  "hm_get (foldl (stamp_own (with_state s) t) vs ks) k =
     (case hm_get vs k of
        None \<Rightarrow> None
      | Some v \<Rightarrow> Some (if k \<in> set ks \<and> v_created_by v = t then with_state s v else v))"
  by (induction ks arbitrary: vs)
     (auto simp: stamp_own_def hm_simps split: option.splits)

lemma hm_ok_stamp_fold [hm_intros]: "hm_ok vs \<Longrightarrow> hm_ok (foldl (stamp_own f t) vs ks)"
  by (induction ks arbitrary: vs) (auto simp: stamp_own_def intro: hm_intros split: option.splits)

lemma commit_stamp: "(\<lambda>v. version_commit v ts) = with_state (VCommitted ts)"
  by (simp add: version_commit_def fun_eq_iff)

lemma abort_stamp: "version_abort = with_state VAborted"
  by (simp add: version_abort_def fun_eq_iff)

lemma hm_get_push_version:
  "hm_get (push_version key t d vs) k =
     (if k = key then Some (Version key t VActive d (hm_get vs key)) else hm_get vs k)"
  by (auto simp: push_version_def version_new_def hm_simps split: option.splits)

lemma chain_push: "chain (Version key t s d (hm_get vs key)) =
    (t, s, d) # (case hm_get vs key of None \<Rightarrow> [] | Some v \<Rightarrow> chain v)"
  by simp

lemma hm_ok_push_version [hm_intros]: "hm_ok vs \<Longrightarrow> hm_ok (push_version key t d vs)"
  by (simp add: push_version_def hm_ok_insert)

lemma active_ids_iff:
  "hm_ok (tm_transactions m) \<Longrightarrow>
     t \<in> active_ids m \<longleftrightarrow> (\<exists>tx. hm_get (tm_transactions m) t = Some tx \<and> tx_state tx = TxActive)"
  by (force simp: active_ids_def tx_is_active_def simp flip: hm_get_in_set)

text \<open>The whole of a successful commit, and a successful abort.\<close>

lemma tm_commit_Ok:
  assumes "tm_commit reentrant m t = (Returned (Inr ()), m')"
  shows "\<exists>tx. hm_get (tm_transactions m) t = Some tx \<and> tx_state tx = TxActive
    \<and> m' = m\<lparr>tm_next_timestamp := tm_next_timestamp m + 1,
             tm_versions := foldl (stamp_own (with_state (VCommitted (tm_next_timestamp m))) t)
               (tm_versions m) (tx_write_set tx),
             tm_transactions := hm_insert t
               (tx\<lparr>tx_commit_timestamp := Some (tm_next_timestamp m), tx_state := TxCommitted\<rparr>)
               (tm_transactions m),
             tm_locks := release_all (tm_locks m) t\<rparr>"
  using assms
  by (auto simp: tm_commit_def commit_prepare_def commit_versions_def commit_finish_def set_tx_state_def
      Let_def hm_simps commit_stamp split: option.splits if_splits sum.splits)

lemma tm_commit_not_Ok:
  assumes "tm_commit reentrant m t = (Returned (Inl e), m')"
  shows "m' = m\<lparr>tm_next_timestamp := tm_next_timestamp m + 1\<rparr>"
  using assms
  by (auto simp: tm_commit_def commit_prepare_def commit_versions_def commit_finish_def set_tx_state_def
      Let_def hm_simps split: option.splits if_splits sum.splits)

lemma tm_abort_Ok:
  assumes "tm_abort m t = (r, m')" "hm_get (tm_transactions m) t = Some tx"
  shows "r = Inr () \<and> m' = m\<lparr>
      tm_transactions := hm_insert t (tx\<lparr>tx_state := TxAborted\<rparr>) (tm_transactions m),
      tm_versions := foldl (stamp_own (with_state VAborted) t) (tm_versions m) (tx_write_set tx),
      tm_locks := release_all (tm_locks m) t\<rparr>"
  using assms by (auto simp: tm_abort_def set_tx_state_def Let_def abort_stamp)

section \<open>Runs\<close>

text \<open>
  The steps of the manager.  A transaction is aborted only while it is not committed, a
  write is finished only for a key its start has put into the write set, and the two
  counters have not reached the end of their range.
\<close>

inductive tm_step :: "bool \<Rightarrow> tx_manager \<Rightarrow> tx_manager \<Rightarrow> bool" for reentrant where
  tx_begin: "tm_next_tx_id m \<noteq> - 1 \<Longrightarrow> tm_next_timestamp m \<noteq> - 1 \<Longrightarrow>
    tm_step reentrant m (snd (tm_begin m level))"
| tx_commit: "tm_next_timestamp m \<noteq> - 1 \<Longrightarrow> tm_commit reentrant m t = (Returned r, m') \<Longrightarrow>
    tm_step reentrant m m'"
| tx_abort: "hm_get (tm_transactions m) t = Some tx \<Longrightarrow> tx_state tx \<noteq> TxCommitted \<Longrightarrow>
    tm_step reentrant m (snd (tm_abort m t))"
| write_begin: "write_start m t key = (Inr (), m') \<Longrightarrow> tm_step reentrant m m'"
| write_wait: "acquire_poll (tm_locks m) (write_request t key) = (False, locks) \<Longrightarrow>
    tm_step reentrant m (m\<lparr>tm_locks := locks\<rparr>)"
| write_timeout: "tm_step reentrant m (m\<lparr>tm_locks := release_waiter (tm_locks m) (write_request t key)\<rparr>)"
| write_end: "acquire_poll (tm_locks m) (write_request t key) = (True, locks) \<Longrightarrow>
    hm_get (tm_transactions m) t = Some tx \<Longrightarrow> key \<in> set (tx_write_set tx) \<Longrightarrow>
    write_finish (m\<lparr>tm_locks := locks\<rparr>) t key data = (Inr (), m') \<Longrightarrow>
    tm_step reentrant m m'"
| gc: "tm_step reentrant m (snd (run_gc m))"

abbreviation tm_steps :: "bool \<Rightarrow> tx_manager \<Rightarrow> tx_manager \<Rightarrow> bool" where
  "tm_steps reentrant \<equiv> (tm_step reentrant)\<^sup>*\<^sup>*"

text \<open>The invariant: the transaction table, the committed versions, and the versions of
  running transactions.\<close>

definition txs_ok :: "tx_manager \<Rightarrow> bool" where
  "txs_ok m \<longleftrightarrow> hm_ok (tm_transactions m) \<and> hm_ok (tm_versions m) \<and>
     (\<forall>t tx. hm_get (tm_transactions m) t = Some tx \<longrightarrow>
        t < tm_next_tx_id m \<and> tx_start_timestamp tx < tm_next_timestamp m
        \<and> snap_timestamp (tx_snapshot tx) = tx_start_timestamp tx
        \<and> (\<forall>c \<in> snap_active_transactions (tx_snapshot tx). c < tm_next_tx_id m))"

definition committed_ok :: "tx_manager \<Rightarrow> bool" where
  "committed_ok m \<longleftrightarrow>
     (\<forall>k v c s d. hm_get (tm_versions m) k = Some v \<longrightarrow> (c, s, d) \<in> set (chain v) \<longrightarrow>
        c < tm_next_tx_id m
        \<and> (\<forall>ts. s = VCommitted ts \<longrightarrow> ts < tm_next_timestamp m
             \<and> (\<forall>tx. hm_get (tm_transactions m) c = Some tx \<longrightarrow> tx_state tx = TxCommitted)
             \<and> (\<forall>t tx. hm_get (tm_transactions m) t = Some tx \<longrightarrow>
                  c \<in> snap_active_transactions (tx_snapshot tx) \<longrightarrow> tx_start_timestamp tx < ts)))"

definition owners_ok :: "tx_manager \<Rightarrow> bool" where
  "owners_ok m \<longleftrightarrow>
     (\<forall>k v t s d tx. hm_get (tm_versions m) k = Some v \<longrightarrow> (t, s, d) \<in> set (chain v) \<longrightarrow>
        hm_get (tm_transactions m) t = Some tx \<longrightarrow> tx_state tx = TxActive \<longrightarrow>
        v_created_by v = t \<and> holds (tm_locks m) t k Exclusive \<and> k \<in> set (tx_write_set tx))"

definition tm_ok :: "tx_manager \<Rightarrow> bool" where
  "tm_ok m \<longleftrightarrow> txs_ok m \<and> committed_ok m \<and> owners_ok m"

lemma tm_ok_new: "tm_ok tm_new"
  by (simp add: tm_ok_def txs_ok_def committed_ok_def owners_ok_def tm_new_def)

lemma u64_less_Suc_max: "a < b \<Longrightarrow> b \<noteq> - 1 \<Longrightarrow> a < b + (1 :: u64)"
  using u64_lt_Suc [of b] order.strict_trans [of a b "b + 1"] by simp

lemma committed_okD:
  assumes "committed_ok m" "hm_get (tm_versions m) k = Some v" "(c, s, d) \<in> set (chain v)"
  shows "c < tm_next_tx_id m"
    and "s = VCommitted ts \<Longrightarrow> ts < tm_next_timestamp m"
    and "s = VCommitted ts \<Longrightarrow> hm_get (tm_transactions m) c = Some tx \<Longrightarrow> tx_state tx = TxCommitted"
    and "s = VCommitted ts \<Longrightarrow> hm_get (tm_transactions m) t = Some tx' \<Longrightarrow>
      c \<in> snap_active_transactions (tx_snapshot tx') \<Longrightarrow> tx_start_timestamp tx' < ts"
  using assms unfolding committed_ok_def by blast+

lemma owners_okD:
  assumes "owners_ok m" "hm_get (tm_versions m) k = Some v" "(t, s, d) \<in> set (chain v)"
    and "hm_get (tm_transactions m) t = Some tx" "tx_state tx = TxActive"
  shows "v_created_by v = t \<and> holds (tm_locks m) t k Exclusive \<and> k \<in> set (tx_write_set tx)"
  using assms unfolding owners_ok_def by blast

lemma tm_ok_begin:
  assumes "tm_ok m" "tm_next_tx_id m \<noteq> - 1" "tm_next_timestamp m \<noteq> - 1"
  shows "tm_ok (snd (tm_begin m level))"
proof -
  let ?t = "tm_next_tx_id m"
  have ok: "txs_ok m" "committed_ok m" "owners_ok m" using assms(1) by (simp_all add: tm_ok_def)
  have fresh: "hm_get (tm_transactions m) ?t = None"
    using ok(1) by (cases "hm_get (tm_transactions m) ?t") (auto simp: txs_ok_def)
  have act: "c \<in> active_ids m \<Longrightarrow> c < ?t" for c
    using ok(1) by (auto simp: txs_ok_def active_ids_iff)
  note up = u64_less_Suc_max [OF _ assms(2)] u64_less_Suc_max [OF _ assms(3)]
    u64_lt_Suc [OF assms(2)] u64_lt_Suc [OF assms(3)]
  have "txs_ok (snd (tm_begin m level))"
    using ok(1) act
    by (auto simp: txs_ok_def tm_begin_def Let_def transaction_new_def hm_simps up intro!: hm_intros)
  moreover have "committed_ok (snd (tm_begin m level))"
    unfolding committed_ok_def
  proof (intro allI impI conjI)
    fix k v c s d
    assume v: "hm_get (tm_versions (snd (tm_begin m level))) k = Some v" "(c, s, d) \<in> set (chain v)"
    then have v': "hm_get (tm_versions m) k = Some v" by (simp add: tm_begin_def Let_def)
    note old = committed_okD [OF ok(2) v' v(2)]
    have c: "c < ?t" by (rule old)
    then show "c < tm_next_tx_id (snd (tm_begin m level))" by (simp add: tm_begin_def Let_def up)
    fix ts
    assume s: "s = VCommitted ts"
    have "c \<notin> active_ids m" using ok(1) old(3) [OF s] by (auto simp: txs_ok_def active_ids_iff)
    then show "ts < tm_next_timestamp (snd (tm_begin m level))"
        "hm_get (tm_transactions (snd (tm_begin m level))) c = Some tx \<Longrightarrow> tx_state tx = TxCommitted"
        "hm_get (tm_transactions (snd (tm_begin m level))) t = Some tx \<Longrightarrow>
          c \<in> snap_active_transactions (tx_snapshot tx) \<Longrightarrow> tx_start_timestamp tx < ts" for t tx
      using old(2-4) [OF s] c
      by (auto simp: tm_begin_def Let_def transaction_new_def hm_simps up split: if_splits)
  qed
  moreover have "owners_ok (snd (tm_begin m level))"
    using ok(3) ok(2) unfolding owners_ok_def committed_ok_def
    by (fastforce simp: tm_begin_def Let_def hm_simps split: if_splits)
  ultimately show ?thesis by (simp add: tm_ok_def)
qed

lemma tm_ok_commit_error:
  assumes "tm_ok m" "tm_next_timestamp m \<noteq> - 1"
  shows "tm_ok (m\<lparr>tm_next_timestamp := tm_next_timestamp m + 1\<rparr>)"
  using assms(1) u64_less_Suc_max [OF _ assms(2)]
  unfolding tm_ok_def txs_ok_def committed_ok_def owners_ok_def by simp

lemma holds_release_all:
  "t \<noteq> t' \<Longrightarrow> holds (release_all locks t') t k mode \<longleftrightarrow> holds locks t k mode"
  by (auto simp: holds_def holders_release_all)

text \<open>Commit and abort rewrite the newest version of the keys the transaction wrote.\<close>

lemma stamped_chain:
  assumes "hm_get (foldl (stamp_own (with_state st) t) vs ks) k = Some v" "(c, s, d) \<in> set (chain v)"
  shows "\<exists>v'. hm_get vs k = Some v' \<and> v_created_by v = v_created_by v'
    \<and> (c = t \<and> s = st \<and> v_created_by v' = t \<or> (c, s, d) \<in> set (chain v'))"
proof -
  obtain v' where v': "hm_get vs k = Some v'"
      "v = (if k \<in> set ks \<and> v_created_by v' = t then with_state st v' else v')"
    using assms(1) by (auto simp: hm_get_stamp_fold split: option.splits)
  have "set (tl (chain v')) \<subseteq> set (chain v')" by (cases v') (auto split: option.splits)
  with v' assms(2) show ?thesis by (auto simp: chain_with_state split: if_splits)
qed

text \<open>The versions of the other running transactions are not touched.\<close>

lemma owners_ok_finish:
  assumes "owners_ok m" "tx_state tx' \<noteq> TxActive"
    and m': "tm_versions m' = foldl (stamp_own (with_state st) t) (tm_versions m) ks"
      "tm_transactions m' = hm_insert t tx' (tm_transactions m)" "tm_locks m' = release_all (tm_locks m) t"
  shows "owners_ok m'"
  unfolding owners_ok_def
proof (intro allI impI)
  fix k v t' s d tx2
  assume v: "hm_get (tm_versions m') k = Some v" "(t', s, d) \<in> set (chain v)"
    and tx2: "hm_get (tm_transactions m') t' = Some tx2" "tx_state tx2 = TxActive"
  then have ne: "t' \<noteq> t" using assms(2) by (auto simp: m' hm_simps)
  obtain v' where "hm_get (tm_versions m) k = Some v'" "v_created_by v = v_created_by v'"
      "(t', s, d) \<in> set (chain v')"
    using stamped_chain [of st t "tm_versions m" ks k v t' s d] v ne by (auto simp: m')
  with owners_okD [OF assms(1), of k v' t' s d tx2] tx2 ne
  show "v_created_by v = t' \<and> holds (tm_locks m') t' k Exclusive \<and> k \<in> set (tx_write_set tx2)"
    by (simp add: m' hm_simps holds_release_all)
qed

lemma tm_ok_commit:
  assumes "tm_ok m" "tm_next_timestamp m \<noteq> - 1" "tm_commit reentrant m t = (Returned (Inr ()), m')"
  shows "tm_ok m'"
proof -
  let ?n = "tm_next_timestamp m"
  have ok: "txs_ok m" "committed_ok m" "owners_ok m" using assms(1) by (simp_all add: tm_ok_def)
  from tm_commit_Ok [OF assms(3)] obtain tx where tx: "hm_get (tm_transactions m) t = Some tx"
      "tx_state tx = TxActive"
    and m': "m' = m\<lparr>tm_next_timestamp := ?n + 1,
             tm_versions := foldl (stamp_own (with_state (VCommitted ?n)) t) (tm_versions m) (tx_write_set tx),
             tm_transactions := hm_insert t
               (tx\<lparr>tx_commit_timestamp := Some ?n, tx_state := TxCommitted\<rparr>) (tm_transactions m),
             tm_locks := release_all (tm_locks m) t\<rparr>"
    by blast
  note up = u64_less_Suc_max [OF _ assms(2)] u64_lt_Suc [OF assms(2)]
  have "txs_ok m'"
    using ok(1) tx by (auto simp: txs_ok_def m' hm_simps up intro!: hm_intros)
  moreover have "committed_ok m'"
    unfolding committed_ok_def
  proof (intro allI impI conjI)
    fix k v c s d
    assume v: "hm_get (tm_versions m') k = Some v" "(c, s, d) \<in> set (chain v)"
    obtain v' where v': "hm_get (tm_versions m) k = Some v'"
        "c = t \<and> s = VCommitted ?n \<or> (c, s, d) \<in> set (chain v')"
      using stamped_chain [of "VCommitted ?n" t "tm_versions m" "tx_write_set tx" k v c s d] v
      by (auto simp: m')
    note old = committed_okD [OF ok(2) v'(1), of c s d]
    show "c < tm_next_tx_id m'" using old(1) v'(2) ok(1) tx by (auto simp: m' txs_ok_def)
    fix ts
    assume s: "s = VCommitted ts"
    show "ts < tm_next_timestamp m'"
      using v'(2) old(2) [OF _ s] s by (auto simp: m' up)
    show "tx_state tx' = TxCommitted" if "hm_get (tm_transactions m') c = Some tx'" for tx'
      using v'(2) old(3) [OF _ s] that by (auto simp: m' hm_simps split: if_splits)
    show "tx_start_timestamp tx' < ts"
      if "hm_get (tm_transactions m') t' = Some tx'" "c \<in> snap_active_transactions (tx_snapshot tx')" for t' tx'
      using v'(2) ok(1) s old(4) [OF _ s] that tx by (auto simp: m' txs_ok_def hm_simps split: if_splits)
  qed
  moreover have "owners_ok m'"
    by (rule owners_ok_finish [OF ok(3)]) (simp_all add: m')
  ultimately show ?thesis by (simp add: tm_ok_def)
qed

lemma tm_ok_abort:
  assumes "tm_ok m" "hm_get (tm_transactions m) t = Some tx" "tx_state tx \<noteq> TxCommitted"
  shows "tm_ok (snd (tm_abort m t))"
proof -
  let ?m = "snd (tm_abort m t)"
  have ok: "txs_ok m" "committed_ok m" "owners_ok m" using assms(1) by (simp_all add: tm_ok_def)
  have m': "?m = m\<lparr>tm_transactions := hm_insert t (tx\<lparr>tx_state := TxAborted\<rparr>) (tm_transactions m),
      tm_versions := foldl (stamp_own (with_state VAborted) t) (tm_versions m) (tx_write_set tx),
      tm_locks := release_all (tm_locks m) t\<rparr>"
    using tm_abort_Ok [of m t _ _ tx] assms(2) by (metis prod.collapse)
  have "txs_ok ?m"
    using ok(1) assms(2) by (auto simp: txs_ok_def m' hm_simps intro!: hm_intros)
  moreover have "committed_ok ?m"
    unfolding committed_ok_def
  proof (intro allI impI conjI)
    fix k v c s d
    assume v: "hm_get (tm_versions ?m) k = Some v" "(c, s, d) \<in> set (chain v)"
    obtain v' where v': "hm_get (tm_versions m) k = Some v'"
        "c = t \<and> s = VAborted \<or> (c, s, d) \<in> set (chain v')"
      using stamped_chain [of VAborted t "tm_versions m" "tx_write_set tx" k v c s d] v
      by (auto simp: m')
    note old = committed_okD [OF ok(2) v'(1), of c s d]
    show "c < tm_next_tx_id ?m" using old(1) v'(2) ok(1) assms(2) by (auto simp: m' txs_ok_def)
    fix ts
    assume s: "s = VCommitted ts"
    with v'(2) have "(c, s, d) \<in> set (chain v')" by simp
    note old = old(2-4) [OF this s]
    show "ts < tm_next_timestamp ?m" using old(1) by (simp add: m')
    show "tx_state tx' = TxCommitted" if "hm_get (tm_transactions ?m) c = Some tx'" for tx'
      using old(2) that assms(2,3) by (auto simp: m' hm_simps split: if_splits)
    show "tx_start_timestamp tx' < ts"
      if "hm_get (tm_transactions ?m) t' = Some tx'" "c \<in> snap_active_transactions (tx_snapshot tx')" for t' tx'
      using old(3) that assms(2) by (auto simp: m' hm_simps split: if_splits)
  qed
  moreover have "owners_ok ?m"
    by (rule owners_ok_finish [OF ok(3)]) (simp_all add: m')
  ultimately show ?thesis by (simp add: tm_ok_def)
qed

lemma tm_ok_write_start:
  assumes "tm_ok m" "write_start m t key = (Inr (), m')"
  shows "tm_ok m'"
proof -
  obtain tx where tx: "hm_get (tm_transactions m) t = Some tx"
      "m' = m\<lparr>tm_transactions := hm_insert t (add_to_write_set tx key) (tm_transactions m)\<rparr>"
    using assms(2) by (auto simp: write_start_def split: option.splits if_splits)
  have same: "\<exists>tx0. hm_get (tm_transactions m) t' = Some tx0 \<and> tx_state tx0 = tx_state tx'
      \<and> tx_snapshot tx0 = tx_snapshot tx' \<and> tx_start_timestamp tx0 = tx_start_timestamp tx'
      \<and> set (tx_write_set tx0) \<subseteq> set (tx_write_set tx')"
    if "hm_get (tm_transactions m') t' = Some tx'" for t' tx'
    using that tx by (auto simp: hm_simps add_to_write_set_def split: if_splits)
  have ok: "txs_ok m" "committed_ok m" "owners_ok m" using assms(1) by (simp_all add: tm_ok_def)
  have "txs_ok m'"
    using ok(1) tx by (auto simp: txs_ok_def hm_simps add_to_write_set_def intro!: hm_intros)
  moreover have "committed_ok m'"
    unfolding committed_ok_def
  proof (intro allI impI conjI)
    fix k v c s d
    assume v: "hm_get (tm_versions m') k = Some v" "(c, s, d) \<in> set (chain v)"
    then have "hm_get (tm_versions m) k = Some v" by (simp add: tx)
    note old = committed_okD [OF ok(2) this v(2)]
    show "c < tm_next_tx_id m'" using old(1) by (simp add: tx)
    fix ts
    assume s: "s = VCommitted ts"
    show "ts < tm_next_timestamp m'" using old(2) [OF s] by (simp add: tx)
    show "tx_state tx' = TxCommitted" if "hm_get (tm_transactions m') c = Some tx'" for tx'
      using old(3) [OF s] same [OF that] by auto
    show "tx_start_timestamp tx' < ts"
      if "hm_get (tm_transactions m') t' = Some tx'" "c \<in> snap_active_transactions (tx_snapshot tx')" for t' tx'
      using old(4) [OF s] same [OF that(1)] that(2) by metis
  qed
  moreover have "owners_ok m'"
    unfolding owners_ok_def
  proof (intro allI impI)
    fix k v t' s d tx'
    assume v: "hm_get (tm_versions m') k = Some v" "(t', s, d) \<in> set (chain v)"
      and tx': "hm_get (tm_transactions m') t' = Some tx'" "tx_state tx' = TxActive"
    from same [OF tx'(1)] obtain tx0 where "hm_get (tm_transactions m) t' = Some tx0"
        "tx_state tx0 = TxActive" "set (tx_write_set tx0) \<subseteq> set (tx_write_set tx')"
      using tx'(2) by auto
    with owners_okD [OF ok(3), of k v t' s d tx0] v tx(2)
    show "v_created_by v = t' \<and> holds (tm_locks m') t' k Exclusive \<and> k \<in> set (tx_write_set tx')"
      by auto
  qed
  ultimately show ?thesis by (simp add: tm_ok_def)
qed

text \<open>Steps that change only the lock table and let everybody keep their locks.\<close>

lemma tm_ok_locks:
  assumes "tm_ok m" "\<And>t k mode. holds (tm_locks m) t k mode \<Longrightarrow> holds locks t k mode"
  shows "tm_ok (m\<lparr>tm_locks := locks\<rparr>)"
proof -
  have "owners_ok (m\<lparr>tm_locks := locks\<rparr>)"
    using assms(1) owners_okD [of m] assms(2)
    unfolding owners_ok_def [of "m\<lparr>tm_locks := locks\<rparr>"] tm_ok_def by simp
  with assms(1) show ?thesis by (simp add: tm_ok_def txs_ok_def committed_ok_def)
qed

lemma holds_acquire_poll: "holds locks t k mode \<Longrightarrow> holds (snd (acquire_poll locks r)) t k mode"
  by (auto simp: holds_def holders_acquire_poll)

lemma holds_acquired:
  "fst (acquire_poll locks (write_request t key)) \<Longrightarrow>
     holds (snd (acquire_poll locks (write_request t key))) t key Exclusive"
  by (auto simp: holds_def holders_acquire_poll write_request_def)

text \<open>An exclusive lock is granted only when nobody else holds one.\<close>

lemma acquired_exclusive:
  "fst (acquire_poll locks (write_request t key)) \<Longrightarrow> holds locks t' key Exclusive \<Longrightarrow> t' = t"
  by (auto simp: fst_acquire_poll holds_def write_request_def)

lemma tm_ok_write_end:
  assumes "tm_ok m" "acquire_poll (tm_locks m) (write_request t key) = (True, locks)"
    and tx: "hm_get (tm_transactions m) t = Some tx" "key \<in> set (tx_write_set tx)"
    and "write_finish (m\<lparr>tm_locks := locks\<rparr>) t key data = (Inr (), m')"
  shows "tm_ok m'"
proof -
  have m': "m' = m\<lparr>tm_locks := locks, tm_versions := push_version key t data (tm_versions m)\<rparr>"
    using assms(5) tx by (simp add: write_finish_def)
  have ok: "txs_ok m" "committed_ok m" "owners_ok m" using assms(1) by (simp_all add: tm_ok_def)
  have chain: "(c = t \<and> s = VActive \<and> k = key)
      \<or> (\<exists>v'. hm_get (tm_versions m) k = Some v' \<and> (c, s, d) \<in> set (chain v')
           \<and> (k \<noteq> key \<longrightarrow> v_created_by v = v_created_by v'))"
    if "hm_get (tm_versions m') k = Some v" "(c, s, d) \<in> set (chain v)" for k v c s d
    using that by (auto simp: m' hm_get_push_version split: if_splits option.splits)
  have "txs_ok m'" using ok(1) by (auto simp: txs_ok_def m' intro!: hm_intros)
  moreover have "committed_ok m'"
    unfolding committed_ok_def
  proof (intro allI impI conjI)
    fix k v c s d
    assume v: "hm_get (tm_versions m') k = Some v" "(c, s, d) \<in> set (chain v)"
    show "c < tm_next_tx_id m'"
      using chain [OF v] ok(1) tx committed_okD(1) [OF ok(2)] by (auto simp: m' txs_ok_def)
    fix ts
    assume s: "s = VCommitted ts"
    with chain [OF v] obtain v' where "hm_get (tm_versions m) k = Some v'" "(c, s, d) \<in> set (chain v')"
      by auto
    note old = committed_okD(2-4) [OF ok(2) this s]
    show "ts < tm_next_timestamp m'" using old(1) by (simp add: m')
    show "hm_get (tm_transactions m') c = Some tx' \<Longrightarrow> tx_state tx' = TxCommitted" for tx'
      using old(2) by (simp add: m')
    show "hm_get (tm_transactions m') t' = Some tx' \<Longrightarrow>
        c \<in> snap_active_transactions (tx_snapshot tx') \<Longrightarrow> tx_start_timestamp tx' < ts" for t' tx'
      using old(3) by (simp add: m')
  qed
  moreover have "owners_ok m'"
    unfolding owners_ok_def
  proof (intro allI impI)
    fix k v t' s d tx'
    assume v: "hm_get (tm_versions m') k = Some v" "(t', s, d) \<in> set (chain v)"
      and tx': "hm_get (tm_transactions m') t' = Some tx'" "tx_state tx' = TxActive"
    have held: "holds locks t'' k' mode" if "holds (tm_locks m) t'' k' mode" for t'' k' mode
      using holds_acquire_poll [OF that, of "write_request t key"] assms(2) by simp
    have new: "holds locks t key Exclusive" using holds_acquired [of "tm_locks m" t key] assms(2) by simp
    have own: "v_created_by v' = t' \<and> holds (tm_locks m) t' k Exclusive \<and> k \<in> set (tx_write_set tx')"
      if "hm_get (tm_versions m) k = Some v'" "(t', s, d) \<in> set (chain v')" for v'
      using owners_okD [OF ok(3) that, of tx'] tx' by (simp add: m')
    show "v_created_by v = t' \<and> holds (tm_locks m') t' k Exclusive \<and> k \<in> set (tx_write_set tx')"
    proof (cases "k = key")
      case True
      have "t' = t"
        using chain [OF v] own acquired_exclusive [of "tm_locks m" t key t'] assms(2) True by auto
      moreover have "v_created_by v = t" using v(1) True by (auto simp: m' hm_get_push_version)
      ultimately show ?thesis using new tx tx'(1) True by (simp add: m')
    next
      case False
      with chain [OF v] own held show ?thesis by (auto simp: m')
    qed
  qed
  ultimately show ?thesis by (simp add: tm_ok_def)
qed

lemma foldl_min_le:
  "foldl min (a :: 'a :: linorder) xs \<le> a \<and> (\<forall>x \<in> set xs. foldl min a xs \<le> x)"
  by (induction xs arbitrary: a) (auto simp: min.coboundedI1 min.coboundedI2, (metis min.bounded_iff)+)

lemma min_active_timestamp_le:
  assumes "hm_ok (tm_transactions m)" "hm_get (tm_transactions m) t = Some tx" "tx_state tx = TxActive"
  shows "min_active_timestamp m \<le> tx_start_timestamp tx"
proof -
  have "tx \<in> set (filter tx_is_active (hm_values (tm_transactions m)))"
    using assms map_of_SomeD [OF assms(2)] by (force simp: tx_is_active_def)
  then show ?thesis unfolding min_active_timestamp_def using foldl_min_le by (metis imageI set_map)
qed

lemma run_gc_views:
  assumes "hm_ok (tm_transactions m)"
  shows "tm_next_tx_id (snd (run_gc m)) = tm_next_tx_id m"
    and "tm_next_timestamp (snd (run_gc m)) = tm_next_timestamp m"
    and "tm_locks (snd (run_gc m)) = tm_locks m"
    and "hm_get (tm_versions (snd (run_gc m))) k =
      map_option (\<lambda>v. fst (gc_version_chain (min_active_timestamp m) v)) (hm_get (tm_versions m) k)"
    and "hm_get (tm_transactions (snd (run_gc m))) t =
      (case hm_get (tm_transactions m) t of None \<Rightarrow> None
       | Some tx \<Rightarrow> if tx_collectable (min_active_timestamp m) tx then None else Some tx)"
    and "hm_ok (tm_transactions (snd (run_gc m)))"
  using assms
  by (auto simp: run_gc_def Let_def map_of_map hm_get_filter hm_ok_filter split: option.splits)

lemma tm_ok_gc:
  assumes "tm_ok m"
  shows "tm_ok (snd (run_gc m))"
proof -
  let ?m = "snd (run_gc m)"
  have ok: "txs_ok m" "committed_ok m" "owners_ok m" using assms by (simp_all add: tm_ok_def)
  then have hm: "hm_ok (tm_transactions m)" by (simp add: txs_ok_def)
  note views = run_gc_views [OF hm]
  have txs: "hm_get (tm_transactions ?m) t = Some tx \<Longrightarrow> hm_get (tm_transactions m) t = Some tx" for t tx
    by (auto simp: views split: option.splits if_splits)
  have chain: "\<exists>v'. hm_get (tm_versions m) k = Some v' \<and> v_created_by v = v_created_by v'
      \<and> (c, s, d) \<in> set (chain v')"
    if "hm_get (tm_versions ?m) k = Some v" "(c, s, d) \<in> set (chain v)" for k v c s d
    using that gc_head gc_chain_subset by (fastforce simp: views)
  have "hm_ok (tm_versions ?m)"
    using ok(1) by (simp add: txs_ok_def run_gc_def Let_def hm_ok_def comp_def split_beta)
  then have "txs_ok ?m" using ok(1) txs unfolding txs_ok_def views(1,2) using views(6) by blast
  moreover have "committed_ok ?m"
    unfolding committed_ok_def
  proof (intro allI impI conjI)
    fix k v c s d
    assume "hm_get (tm_versions ?m) k = Some v" "(c, s, d) \<in> set (chain v)"
    then obtain v' where v': "hm_get (tm_versions m) k = Some v'" "(c, s, d) \<in> set (chain v')"
      using chain by blast
    note old = committed_okD [OF ok(2) v']
    show "c < tm_next_tx_id ?m" using old(1) by (simp add: views)
    fix ts
    assume s: "s = VCommitted ts"
    show "ts < tm_next_timestamp ?m" using old(2) [OF s] by (simp add: views)
    show "hm_get (tm_transactions ?m) c = Some tx' \<Longrightarrow> tx_state tx' = TxCommitted" for tx'
      using old(3) [OF s] txs by blast
    show "hm_get (tm_transactions ?m) t' = Some tx' \<Longrightarrow>
        c \<in> snap_active_transactions (tx_snapshot tx') \<Longrightarrow> tx_start_timestamp tx' < ts" for t' tx'
      using old(4) [OF s] txs by blast
  qed
  moreover have "owners_ok ?m"
    unfolding owners_ok_def views(3)
  proof (intro allI impI)
    fix k v t s d tx
    assume v: "hm_get (tm_versions ?m) k = Some v" "(t, s, d) \<in> set (chain v)"
      and tx: "hm_get (tm_transactions ?m) t = Some tx" "tx_state tx = TxActive"
    from chain [OF v] obtain v' where v': "hm_get (tm_versions m) k = Some v'"
        "v_created_by v = v_created_by v'" "(t, s, d) \<in> set (chain v')" by blast
    from owners_okD [OF ok(3) v'(1,3) txs [OF tx(1)] tx(2)] v'(2)
    show "v_created_by v = t \<and> holds (tm_locks m) t k Exclusive \<and> k \<in> set (tx_write_set tx)" by simp
  qed
  ultimately show ?thesis by (simp add: tm_ok_def)
qed

lemma tm_step_ok: "tm_step reentrant m m' \<Longrightarrow> tm_ok m \<Longrightarrow> tm_ok m'"
proof (induction rule: tm_step.induct)
  case (tx_commit m t r m')
  then show ?case
    using tm_ok_commit [of m reentrant t m'] tm_ok_commit_error [of m] tm_commit_not_Ok [of reentrant m t _ m']
    by (cases r) auto
next
  case (write_wait m t key locks)
  then show ?case using holds_acquire_poll [of "tm_locks m" _ _ _ "write_request t key"]
    by (auto intro!: tm_ok_locks)
next
  case (write_timeout m t key)
  then show ?case by (intro tm_ok_locks) (simp_all add: holds_def)
next
  case (write_end m t key locks tx data m')
  show ?case by (rule tm_ok_write_end [OF write_end(5,1-4)])
qed (blast intro: tm_ok_begin tm_ok_abort tm_ok_write_start tm_ok_gc)+

lemma tm_steps_ok: "tm_steps reentrant m m' \<Longrightarrow> tm_ok m \<Longrightarrow> tm_ok m'"
  by (induction rule: rtranclp_induct) (auto intro: tm_step_ok)

lemmas tm_reach_ok = tm_steps_ok [OF _ tm_ok_new]

section \<open>Snapshot reads\<close>

definition snapshot_read :: "tx_manager \<Rightarrow> tx_snapshot \<Rightarrow> version_key \<Rightarrow> bytes option" where
  "snapshot_read m snap k =
     (case hm_get (tm_versions m) k of None \<Rightarrow> None | Some v \<Rightarrow> read_chain snap v)"

lemma tm_read_Inr_iff:
  "tm_read m t k = Inr x \<longleftrightarrow>
     (\<exists>tx. hm_get (tm_transactions m) t = Some tx \<and> tx_state tx = TxActive
        \<and> x = snapshot_read m (tx_snapshot tx) k)"
  by (auto simp: tm_read_def tx_is_active_def snapshot_read_def split: option.splits)

lemma read_chain_invisible_head:
  "\<not> sees snap (v_created_by v, v_state v, v_data v) \<Longrightarrow>
     read_chain snap v = (case v_prev v of None \<Rightarrow> None | Some p \<Rightarrow> read_chain snap p)"
  by (cases v) (simp add: is_visible_sees del: sees.simps)

lemma read_stamped:
  assumes "\<And>k v. hm_get vs k = Some v \<Longrightarrow> v_created_by v = t \<Longrightarrow>
      \<not> sees snap (t, v_state v, v_data v) \<and> \<not> sees snap (t, st, v_data v)"
  shows "(case hm_get (foldl (stamp_own (with_state st) t) vs ks) k of None \<Rightarrow> None | Some v \<Rightarrow> read_chain snap v) =
         (case hm_get vs k of None \<Rightarrow> None | Some v \<Rightarrow> read_chain snap v)"
proof (cases "hm_get vs k")
  case (Some v)
  show ?thesis
  proof (cases "v_created_by v = t")
    case True
    from assms [OF Some True] show ?thesis
      using read_chain_invisible_head [of snap v] read_chain_invisible_head [of snap "with_state st v"] True Some
      by (auto simp: hm_get_stamp_fold simp del: sees.simps)
  qed (simp add: Some hm_get_stamp_fold)
qed (simp add: hm_get_stamp_fold)

text \<open>What a running transaction reads does not change in one step of anybody.\<close>

lemma step_snapshot_read:
  assumes "tm_step reentrant m m'" "tm_ok m" "hm_get (tm_transactions m) t0 = Some tx0"
    and "tx_state tx0 = TxActive"
  shows "snapshot_read m' (tx_snapshot tx0) k = snapshot_read m (tx_snapshot tx0) k"
  using assms
proof (induction rule: tm_step.induct)
  case (tx_begin m level)
  then show ?case by (simp add: tm_begin_def Let_def snapshot_read_def)
next
  case (tx_commit m t r m')
  have ok: "txs_ok m" "committed_ok m" using tx_commit.prems by (simp_all add: tm_ok_def)
  show ?case
  proof (cases r)
    case (Inl e)
    with tx_commit tm_commit_not_Ok [of reentrant m t e m'] show ?thesis by (simp add: snapshot_read_def)
  next
    case (Inr u)
    with tx_commit tm_commit_Ok [of reentrant m t m'] obtain tx where
        tx: "hm_get (tm_transactions m) t = Some tx" "tx_state tx = TxActive"
      and vs: "tm_versions m' = foldl (stamp_own (with_state (VCommitted (tm_next_timestamp m))) t)
        (tm_versions m) (tx_write_set tx)"
      by auto
    have late: "\<not> tm_next_timestamp m \<le> snap_timestamp (tx_snapshot tx0)"
      using ok(1) tx_commit.prems by (auto simp: txs_ok_def not_le)
    have "v_state v \<noteq> VCommitted ts" if "hm_get (tm_versions m) k = Some v" "v_created_by v = t" for k v ts
      using committed_okD(3) [OF ok(2) that(1) head_in_chain _ tx(1) [folded that(2)]] tx(2) by auto
    then show ?thesis unfolding snapshot_read_def vs by (intro read_stamped) (use late in auto)
  qed
next
  case (tx_abort m t tx)
  have ok: "txs_ok m" "committed_ok m" using tx_abort.prems by (simp_all add: tm_ok_def)
  have vs: "tm_versions (snd (tm_abort m t)) =
      foldl (stamp_own (with_state VAborted) t) (tm_versions m) (tx_write_set tx)"
    using tm_abort_Ok [of m t _ _ tx] tx_abort.hyps(1) by (cases "tm_abort m t") auto
  have "v_state v \<noteq> VCommitted ts" if "hm_get (tm_versions m) k = Some v" "v_created_by v = t" for k v ts
    using committed_okD(3) [OF ok(2) that(1) head_in_chain _ tx_abort.hyps(1) [folded that(2)]]
      tx_abort.hyps(2) by auto
  then show ?case unfolding snapshot_read_def vs by (intro read_stamped) auto
next
  case (write_begin m t key m')
  then show ?case by (auto simp: write_start_def snapshot_read_def split: option.splits if_splits)
next
  case (write_end m t key locks tx data m')
  then show ?case
    by (cases "k = key") (auto simp: write_finish_def snapshot_read_def hm_get_push_version is_visible_def)
next
  case (gc m)
  have ok: "txs_ok m" "committed_ok m" using gc.prems by (simp_all add: tm_ok_def)
  then have hm: "hm_ok (tm_transactions m)" by (simp add: txs_ok_def)
  have start: "snap_timestamp (tx_snapshot tx0) = tx_start_timestamp tx0"
    using ok(1) gc.prems by (auto simp: txs_ok_def)
  have "sees (tx_snapshot tx0) (c, VCommitted ts, d)"
    if "hm_get (tm_versions m) k = Some v" "(c, VCommitted ts, d) \<in> set (chain v)"
      "ts < min_active_timestamp m" for v c ts d
  proof -
    have "ts < tx_start_timestamp tx0"
      using that(3) min_active_timestamp_le [OF hm gc.prems(2,3)] by simp
    then show ?thesis
      using committed_okD(4) [OF ok(2) that(1,2) refl gc.prems(2)] start by force
  qed
  then show ?case
    using gc_read [of _ "min_active_timestamp m" "tx_snapshot tx0"]
    by (auto simp: snapshot_read_def run_gc_views(4) [OF hm] split: option.splits)
qed (simp_all add: snapshot_read_def)

text \<open>A transaction that is active after a step and known before it was active before it,
  with the same snapshot.\<close>

lemma step_active_back:
  assumes "tm_step reentrant m m'" "tm_ok m" "t < tm_next_tx_id m"
    and "hm_get (tm_transactions m') t = Some tx'" "tx_state tx' = TxActive"
  shows "\<exists>tx. hm_get (tm_transactions m) t = Some tx \<and> tx_state tx = TxActive \<and> tx_snapshot tx = tx_snapshot tx'"
  using assms
proof (induction rule: tm_step.induct)
  case (tx_begin m level)
  then show ?case by (auto simp: tm_begin_def Let_def hm_simps split: if_splits)
next
  case (tx_commit m s r m')
  then show ?case using tm_commit_Ok [of reentrant m s m'] tm_commit_not_Ok [of reentrant m s _ m']
    by (cases r) (auto simp: hm_simps split: if_splits)
next
  case (tx_abort m s tx)
  then show ?case using tm_abort_Ok [of m s _ _ tx]
    by (cases "tm_abort m s") (auto simp: hm_simps split: if_splits)
next
  case (write_begin m s key m')
  then show ?case
    by (auto simp: write_start_def add_to_write_set_def tx_is_active_def hm_simps
        split: option.splits if_splits)
next
  case (write_end m s key locks tx data m')
  then show ?case by (auto simp: write_finish_def split: option.splits)
next
  case (gc m)
  then have "hm_ok (tm_transactions m)" by (simp add: tm_ok_def txs_ok_def)
  with gc show ?case by (auto simp: run_gc_views(5) split: option.splits if_splits)
qed simp_all

lemma step_next_tx_id:
  assumes "tm_step reentrant m m'"
  shows "t < tm_next_tx_id m \<Longrightarrow> t < tm_next_tx_id m'"
  using assms
proof (induction rule: tm_step.induct)
  case (tx_begin m level)
  then show ?case by (simp add: tm_begin_def Let_def u64_less_Suc_max)
next
  case (tx_commit m s r m')
  then show ?case using tm_commit_Ok [of reentrant m s m'] tm_commit_not_Ok [of reentrant m s _ m']
    by (cases r) auto
next
  case (tx_abort m s tx)
  then show ?case using tm_abort_Ok [of m s _ _ tx] by (cases "tm_abort m s") auto
qed (auto simp: write_start_def write_finish_def run_gc_def Let_def split: option.splits if_splits)

lemma steps_snapshot_read:
  assumes "tm_steps reentrant m m'" "tm_ok m" "t < tm_next_tx_id m"
    and "hm_get (tm_transactions m') t = Some tx'" "tx_state tx' = TxActive"
  shows "\<exists>tx. hm_get (tm_transactions m) t = Some tx \<and> tx_state tx = TxActive
    \<and> tx_snapshot tx = tx_snapshot tx' \<and> (\<forall>k. snapshot_read m' (tx_snapshot tx') k = snapshot_read m (tx_snapshot tx') k)"
  using assms
proof (induction rule: converse_rtranclp_induct)
  case base
  then show ?case by auto
next
  case (step m m1)
  have m1: "tm_ok m1" "t < tm_next_tx_id m1"
    using step.hyps(1) step.prems tm_step_ok step_next_tx_id by blast+
  with step obtain tx1 where tx1: "hm_get (tm_transactions m1) t = Some tx1" "tx_state tx1 = TxActive"
      "tx_snapshot tx1 = tx_snapshot tx'"
      "\<forall>k. snapshot_read m' (tx_snapshot tx') k = snapshot_read m1 (tx_snapshot tx') k" by blast
  from step_active_back [OF step.hyps(1) step.prems(1,2) tx1(1,2)] obtain tx where
    tx: "hm_get (tm_transactions m) t = Some tx" "tx_state tx = TxActive" "tx_snapshot tx = tx_snapshot tx1" by blast
  from step_snapshot_read [OF step.hyps(1) step.prems(1) tx(1,2)] tx tx1 show ?case by auto
qed




text \<open>Commit is atomic and durable for later readers: when a commit succeeds, a transaction
  that begins next reads, for every key the transaction has written, the value of its last
  write.\<close>

theorem commit_publishes_writes:
  assumes "tm_steps reentrant tm_new m" "tm_next_timestamp m \<noteq> - 1"
    and "hm_get (tm_versions m) key = Some v" "(t, s, d) \<in> set (chain v)"
    and "tm_commit reentrant m t = (Returned (Inr ()), m1)" "tm_begin m1 level = (Inr t', m2)"
  shows "v_created_by v = t \<and> tm_read m2 t' key = Inr (Some (v_data v))"
proof -
  let ?n = "tm_next_timestamp m"
  have ok: "owners_ok m" "txs_ok m" using tm_reach_ok [OF assms(1)] by (simp_all add: tm_ok_def)
  have ok1: "txs_ok m1" using tm_ok_commit [OF tm_reach_ok [OF assms(1)] assms(2,5)] by (simp add: tm_ok_def)
  from tm_commit_Ok [OF assms(5)] obtain tx where tx: "hm_get (tm_transactions m) t = Some tx"
      "tx_state tx = TxActive"
    and m1: "tm_versions m1 = foldl (stamp_own (with_state (VCommitted ?n)) t) (tm_versions m) (tx_write_set tx)"
      "tm_transactions m1 = hm_insert t
         (tx\<lparr>tx_commit_timestamp := Some ?n, tx_state := TxCommitted\<rparr>) (tm_transactions m)"
      "tm_next_timestamp m1 = ?n + 1"
    by auto
  have own: "v_created_by v = t" "key \<in> set (tx_write_set tx)"
    using owners_okD [OF ok(1) assms(3,4) tx] by simp_all
  have "t \<notin> active_ids m1" using ok1 by (auto simp: txs_ok_def active_ids_iff m1 hm_simps)
  moreover have "?n \<le> ?n + 1" using u64_lt_Suc [OF assms(2)] by simp
  ultimately have "is_visible \<lparr>snap_timestamp = ?n + 1, snap_active_transactions = active_ids m1\<rparr>
      (with_state (VCommitted ?n) v)"
    using own(1) by (simp add: is_visible_def)
  then have "read_chain \<lparr>snap_timestamp = ?n + 1, snap_active_transactions = active_ids m1\<rparr>
      (with_state (VCommitted ?n) v) = Some (v_data v)"
    by (cases v) simp
  moreover have "hm_get (tm_versions m1) key = Some (with_state (VCommitted ?n) v)"
    using assms(3) own by (simp add: m1 hm_get_stamp_fold)
  ultimately show ?thesis using assms(6) own(1)
    by (auto simp: tm_read_def tm_begin_def Let_def hm_simps transaction_new_def tx_is_active_def m1(3))
qed

section \<open>Example runs\<close>

text \<open>A write that gets its lock at the first poll is a run of steps.\<close>

lemma tm_write_steps:
  assumes "tm_write [] m t key data = (Inr (), m')"
  shows "tm_steps reentrant m m'"
proof -
  obtain m1 where m1: "write_start m t key = (Inr (), m1)"
      "(case acquire [] (tm_locks m1) (write_request t key) of
             (Inl e, locks) \<Rightarrow> (Inl e, m1\<lparr>tm_locks := locks\<rparr>)
           | (Inr _, locks) \<Rightarrow> write_finish (m1\<lparr>tm_locks := locks\<rparr>) t key data) = (Inr (), m')"
    using assms unfolding tm_write_def by (auto split: prod.splits sum.splits)
  then obtain locks where p: "acquire_poll (tm_locks m1) (write_request t key) = (True, locks)"
      "write_finish (m1\<lparr>tm_locks := locks\<rparr>) t key data = (Inr (), m')"
    by (auto simp: Let_def split: prod.splits if_splits)
  obtain tx where "hm_get (tm_transactions m1) t = Some tx" "key \<in> set (tx_write_set tx)"
    using m1(1) by (auto simp: write_start_def add_to_write_set_def hm_simps split: option.splits if_splits)
  then have "tm_step reentrant m1 m'" by (rule tm_step.write_end [OF p(1) _ _ p(2)])
  moreover have "tm_step reentrant m m1" by (rule tm_step.write_begin [OF m1(1)])
  ultimately show ?thesis by simp
qed

lemma tm_begin_steps:
  "tm_next_tx_id m \<noteq> - 1 \<Longrightarrow> tm_next_timestamp m \<noteq> - 1 \<Longrightarrow> tm_steps reentrant m (snd (tm_begin m level))"
  by (simp add: tm_step.tx_begin r_into_rtranclp)

lemma tm_commit_steps:
  "tm_next_timestamp m \<noteq> - 1 \<Longrightarrow> fst (tm_commit reentrant m t) = Returned (Inr ()) \<Longrightarrow>
     tm_steps reentrant m (snd (tm_commit reentrant m t))"
  by (metis prod.collapse r_into_rtranclp tm_step.tx_commit)

text \<open>Transaction 1 writes and commits, 2 begins, 3 overwrites the key without committing.\<close>

definition sample_key :: version_key where
  "sample_key = \<lparr>vk_table_id = 1, vk_row_id = 1\<rparr>"

definition sample_written :: tx_manager where
  "sample_written = snd (tm_write [] (snd (tm_begin tm_new RepeatableRead)) 1 sample_key [1])"

definition sample_committed :: tx_manager where
  "sample_committed = snd (tm_begin (snd (tm_commit False sample_written 1)) RepeatableRead)"

definition sample_overwritten :: tx_manager where
  "sample_overwritten =
     snd (tm_write [] (snd (tm_begin sample_committed RepeatableRead)) 3 sample_key [2])"

definition sample_collected :: tx_manager where
  "sample_collected = snd (run_gc (snd (tm_commit False sample_overwritten 3)))"

lemma sample_written_steps: "tm_steps reentrant tm_new sample_written"
proof -
  have "fst (tm_write [] (snd (tm_begin tm_new RepeatableRead)) 1 sample_key [1]) = Inr ()" by code_simp
  then have "tm_steps reentrant (snd (tm_begin tm_new RepeatableRead)) sample_written"
    unfolding sample_written_def by (metis prod.collapse tm_write_steps)
  moreover have "tm_steps reentrant tm_new (snd (tm_begin tm_new RepeatableRead))"
    by (rule tm_begin_steps) (simp_all add: tm_new_def)
  ultimately show ?thesis by (rule rtranclp_trans [rotated])
qed

lemma sample_committed_steps: "tm_steps False sample_written sample_committed"
proof -
  have "tm_steps False sample_written (snd (tm_commit False sample_written 1))"
    by (rule tm_commit_steps; code_simp)
  moreover have "tm_steps False (snd (tm_commit False sample_written 1)) sample_committed"
    unfolding sample_committed_def by (rule tm_begin_steps; code_simp)
  ultimately show ?thesis by (rule rtranclp_trans)
qed

lemma sample_overwritten_steps: "tm_steps False sample_committed sample_overwritten"
proof -
  have "fst (tm_write [] (snd (tm_begin sample_committed RepeatableRead)) 3 sample_key [2]) = Inr ()"
    by code_simp
  then have "tm_steps False (snd (tm_begin sample_committed RepeatableRead)) sample_overwritten"
    unfolding sample_overwritten_def by (metis prod.collapse tm_write_steps)
  moreover have "tm_steps False sample_committed (snd (tm_begin sample_committed RepeatableRead))"
    by (rule tm_begin_steps; code_simp)
  ultimately show ?thesis by (rule rtranclp_trans [rotated])
qed

lemma sample_collected_steps: "tm_steps False sample_overwritten sample_collected"
proof -
  have "tm_steps False sample_overwritten (snd (tm_commit False sample_overwritten 3))"
    by (rule tm_commit_steps; code_simp)
  then show ?thesis unfolding sample_collected_def by (rule rtranclp.rtrancl_into_rtrancl) (rule tm_step.gc)
qed

lemmas sample_steps = sample_written_steps sample_committed_steps sample_overwritten_steps sample_collected_steps

lemma sample_reach:
  "tm_steps False tm_new sample_committed" "tm_steps False tm_new sample_overwritten"
  using sample_steps by (meson rtranclp_trans)+




theorem commit_publishes_writes_witness:
  "tm_read (snd (tm_begin (snd (tm_commit False sample_written 1)) Serializable)) 2 sample_key = Inr (Some [1])"
proof -
  have v: "hm_get (tm_versions sample_written) sample_key = Some (Version sample_key 1 VActive [1] None)" by code_simp
  have "fst (tm_commit False sample_written 1) = Returned (Inr ())" by code_simp
  then have c: "tm_commit False sample_written 1 = (Returned (Inr ()), snd (tm_commit False sample_written 1))"
    by (metis prod.collapse)
  have b: "tm_begin (snd (tm_commit False sample_written 1)) Serializable =
      (Inr 2, snd (tm_begin (snd (tm_commit False sample_written 1)) Serializable))" by code_simp
  have "tm_next_timestamp sample_written \<noteq> - 1" by code_simp
  from commit_publishes_writes [OF sample_written_steps this v _ c b] show ?thesis by simp
qed

section \<open>Refusals, and what the manager gets wrong\<close>

text \<open>C36: Every operation on a transaction that is not in the table is refused as not found, and
  reads, writes, deletes and commits of a transaction that is no longer active are refused as
  not active; a refused call changes nothing, except that a refused commit has used up a
  timestamp.\<close>

theorem finished_transactions_refused:
  "(hm_get (tm_transactions m) t = None \<longrightarrow>
      tm_read m t key = Inl (Transaction ''Transaction not found'')
      \<and> tm_write sched m t key data = (Inl (Transaction ''Transaction not found''), m)
      \<and> tm_delete sched m t key = (Inl (Transaction ''Transaction not found''), m)
      \<and> tm_abort m t = (Inl (Transaction ''Transaction not found''), m)
      \<and> tm_commit reentrant m t = (Returned (Inl (Transaction ''Transaction not found'')),
          m\<lparr>tm_next_timestamp := tm_next_timestamp m + 1\<rparr>))
   \<and> (\<forall>tx. hm_get (tm_transactions m) t = Some tx \<and> tx_state tx \<noteq> TxActive \<longrightarrow>
      tm_read m t key = Inl (Transaction ''Transaction not active'')
      \<and> tm_write sched m t key data = (Inl (Transaction ''Transaction not active''), m)
      \<and> tm_delete sched m t key = (Inl (Transaction ''Transaction not active''), m)
      \<and> tm_commit reentrant m t = (Returned (Inl (Transaction ''Transaction not active'')),
          m\<lparr>tm_next_timestamp := tm_next_timestamp m + 1\<rparr>))"
  by (auto simp: tm_read_def tm_write_def tm_delete_def tm_abort_def tm_commit_def write_start_def
      commit_prepare_def tx_is_active_def Let_def)

theorem finished_transactions_refused_witness:
  "tm_read sample_committed 1 sample_key = Inl (Transaction ''Transaction not active'')
   \<and> fst (tm_abort sample_committed 7) = Inl (Transaction ''Transaction not found'')"
proof -
  obtain tx where "hm_get (tm_transactions sample_committed) 1 = Some tx" "tx_state tx \<noteq> TxActive"
  proof -
    have "map_option tx_state (hm_get (tm_transactions sample_committed) 1) = Some TxCommitted" by code_simp
    then show thesis using that by auto
  qed
  moreover have "hm_get (tm_transactions sample_committed) 7 = None" by code_simp
  ultimately show ?thesis
    using finished_transactions_refused [of sample_committed 1 sample_key "[]" "[]" False]
      finished_transactions_refused [of sample_committed 7 sample_key "[]" "[]" False] by auto
qed

text \<open>No operation records what a transaction reads.\<close>

lemma read_sets_empty:
  assumes "tm_steps reentrant tm_new m" "hm_get (tm_transactions m) t = Some tx"
  shows "tx_read_set tx = []"
  using assms
proof (induction arbitrary: t tx rule: rtranclp_induct)
  case base
  then show ?case by (simp add: tm_new_def)
next
  case (step m m')
  have ok: "tm_ok m" by (rule tm_reach_ok [OF step.hyps(1)])
  from step.hyps(2) step.prems step.IH ok show ?case
  proof (induction rule: tm_step.induct)
    case (tx_commit m s r m')
    then show ?case using tm_commit_Ok [of reentrant m s m'] tm_commit_not_Ok [of reentrant m s _ m']
      by (cases r) (auto simp: hm_simps split: if_splits)
  next
    case (tx_abort m s tx)
    then show ?case using tm_abort_Ok [of m s _ _ tx]
      by (cases "tm_abort m s") (auto simp: hm_simps split: if_splits)
  next
    case (gc m)
    then have "hm_ok (tm_transactions m)" by (simp add: tm_ok_def txs_ok_def)
    with gc show ?case by (auto simp: run_gc_views(5) split: option.splits if_splits)
  qed (auto simp: tm_begin_def transaction_new_def write_start_def write_finish_def add_to_write_set_def
      Let_def hm_simps split: if_splits option.splits)
qed

text \<open>Serializable transactions.  The commit of a running serializable transaction never
  returns, because the validation asks for a lock its own thread holds; and the validation
  would find nothing, because no operation ever records what a transaction has read.\<close>

theorem serializable_commit_hangs:
  assumes "tm_steps reentrant tm_new m" "hm_get (tm_transactions m) t = Some tx"
    and "tx_state tx = TxActive" "tx_isolation_level tx = Serializable"
  shows "fst (tm_commit False m t) = Blocked \<and> validate_serializable m tx = Inr ()"
proof -
  have "tx_read_set tx = []" by (rule read_sets_empty [OF assms(1,2)])
  then have "\<not> conflicts_with tx other" for other by (simp add: conflicts_with_def split: option.splits)
  then show ?thesis
    using assms(2-4) by (simp add: tm_commit_def commit_prepare_def Let_def validate_serializable_def list_ex_iff)
qed

theorem serializable_commit_hangs_witness:
  "fst (tm_commit False (snd (tm_begin tm_new Serializable)) 1) = Blocked"
proof -
  let ?m = "snd (tm_begin tm_new Serializable)"
  have steps: "tm_steps False tm_new ?m" by (rule tm_begin_steps) (simp_all add: tm_new_def)
  have "hm_get (tm_transactions ?m) 1 = Some (transaction_new 1 Serializable 1 {})"
    by (simp add: tm_begin_def tm_new_def active_ids_def)
  from serializable_commit_hangs [OF steps this] show ?thesis by (simp add: transaction_new_def)
qed

text \<open>A commit that is interrupted between its first and its second critical section breaks
  the snapshot of a transaction that begins in between: the reader sees the old value first and
  the new one after the commit has gone on.\<close>

theorem commit_window_breaks_snapshot:
  "let ts = tm_next_timestamp sample_overwritten;
       m1 = sample_overwritten\<lparr>tm_next_timestamp := ts + 1\<rparr>;
       m2 = snd (commit_prepare False ts m1 3);
       m3 = snd (tm_begin m2 RepeatableRead);
       m4 = commit_finish (snd (commit_versions ts m3 3)) 3
   in fst (commit_prepare False ts m1 3) = Returned (Inr ())
      \<and> fst (tm_begin m2 RepeatableRead) = Inr 4
      \<and> tm_read m3 4 sample_key = Inr (Some [1]) \<and> tm_read m4 4 sample_key = Inr (Some [2])"
  by code_simp

text \<open>Two transactions with the same snapshot both overwrite a key and both commit: the first
  update is lost without a conflict.\<close>

lemma lost_update:
  "let m1 = snd (tm_begin sample_committed RepeatableRead);
       m2 = snd (tm_commit False (snd (tm_write [] m1 2 sample_key [2])) 2)
   in fst (tm_write [] m1 2 sample_key [2]) = Inr () \<and> tm_read m2 3 sample_key = Inr (Some [1])
      \<and> fst (tm_write [] m2 3 sample_key [3]) = Inr ()
      \<and> fst (tm_commit False (snd (tm_write [] m2 3 sample_key [3])) 3) = Returned (Inr ())"
  by code_simp

text \<open>Aborting a transaction that has committed succeeds and takes its value away from a
  running reader.\<close>

lemma abort_after_commit:
  "tm_read sample_committed 2 sample_key = Inr (Some [1])
   \<and> fst (tm_abort sample_committed 1) = Inr ()
   \<and> tm_read (snd (tm_abort sample_committed 1)) 2 sample_key = Inr None"
  by code_simp

text \<open>A transaction does not see its own writes.\<close>

lemma own_writes_invisible: "tm_read sample_written 1 sample_key = Inr None"
  by code_simp

end
