(* ===== verification/Wal.thy ===== *)
theory Wal
  imports ByteCodec "HOL-Library.Multiset"
begin

text \<open>
  The write-ahead log, \<^verbatim>\<open>crates/aegis-storage/src/wal.rs\<close>: the record format, the log
  with its segments, and crash recovery.

  CRC-32 is the argument \<open>crc\<close> and the JSON codec of checkpoint data is the pair of
  arguments \<open>ckpt_enc\<close>/\<open>ckpt_dec\<close>.  The directory is part of the log's state: the numbered
  segment files (\<^verbatim>\<open>wal_<n>.log\<close>, by number), the bytes of \<^verbatim>\<open>wal_current.log\<close> that
  have reached the file, and the bytes that are still in the \<^verbatim>\<open>BufWriter\<close>; a crash keeps
  an arbitrary prefix of the latter.  File operations succeed.  Sizes and segment numbers are
  natural numbers, log sequence numbers are 64-bit words.
\<close>

section \<open>Log records\<close>

datatype log_record_type =
  LBegin | LCommit | LAbort | LInsert | LUpdate | LDelete | LCheckpoint | LCompensation

fun record_type_code :: "log_record_type \<Rightarrow> u8" where
  "record_type_code LBegin = 1"
| "record_type_code LCommit = 2"
| "record_type_code LAbort = 3"
| "record_type_code LInsert = 4"
| "record_type_code LUpdate = 5"
| "record_type_code LDelete = 6"
| "record_type_code LCheckpoint = 7"
| "record_type_code LCompensation = 8"

definition record_type_from :: "u8 \<Rightarrow> log_record_type" where
  "record_type_from b =
     (if b = 1 then LBegin else if b = 2 then LCommit else if b = 3 then LAbort
      else if b = 4 then LInsert else if b = 5 then LUpdate else if b = 6 then LDelete
      else if b = 7 then LCheckpoint else if b = 8 then LCompensation else LBegin)"

record log_record =
  rec_lsn :: lsn
  rec_prev_lsn :: "lsn option"
  rec_tx_id :: transaction_id
  rec_type :: log_record_type
  rec_page_id :: "page_id option"
  rec_data :: bytes

definition rec_begin :: "lsn \<Rightarrow> transaction_id \<Rightarrow> log_record" where
  "rec_begin lsn t = \<lparr>rec_lsn = lsn, rec_prev_lsn = None, rec_tx_id = t, rec_type = LBegin,
     rec_page_id = None, rec_data = []\<rparr>"

definition rec_commit :: "lsn \<Rightarrow> lsn \<Rightarrow> transaction_id \<Rightarrow> log_record" where
  "rec_commit lsn prev t = \<lparr>rec_lsn = lsn, rec_prev_lsn = Some prev, rec_tx_id = t, rec_type = LCommit,
     rec_page_id = None, rec_data = []\<rparr>"

definition rec_abort :: "lsn \<Rightarrow> lsn \<Rightarrow> transaction_id \<Rightarrow> log_record" where
  "rec_abort lsn prev t = \<lparr>rec_lsn = lsn, rec_prev_lsn = Some prev, rec_tx_id = t, rec_type = LAbort,
     rec_page_id = None, rec_data = []\<rparr>"

definition data_record ::
    "lsn \<Rightarrow> lsn option \<Rightarrow> transaction_id \<Rightarrow> log_record_type \<Rightarrow> page_id \<Rightarrow> bytes \<Rightarrow> log_record" where
  "data_record lsn prev t ty page data = \<lparr>rec_lsn = lsn, rec_prev_lsn = prev, rec_tx_id = t, rec_type = ty,
     rec_page_id = Some page, rec_data = data\<rparr>"

definition wal_record_header_size :: nat where
  "wal_record_header_size = 40"

definition record_header :: "log_record \<Rightarrow> bytes" where
  "record_header r =
     put_u64_le (rec_lsn r) @ put_u64_le (case rec_prev_lsn r of None \<Rightarrow> 0 | Some l \<Rightarrow> l)
     @ put_u64_le (rec_tx_id r) @ [record_type_code (rec_type r)]
     @ [case rec_page_id r of None \<Rightarrow> 0 | Some _ \<Rightarrow> 1] @ put_u16_le 0
     @ put_u64_le (case rec_page_id r of None \<Rightarrow> 0 | Some p \<Rightarrow> p)
     @ put_u32_le (of_nat (length (rec_data r)))"

definition record_to_bytes :: "(bytes \<Rightarrow> u32) \<Rightarrow> log_record \<Rightarrow> bytes" where
  "record_to_bytes crc r =
     (let buf = record_header r @ rec_data r in buf @ put_u32_le (crc buf))"

definition record_from_bytes :: "(bytes \<Rightarrow> u32) \<Rightarrow> bytes \<Rightarrow> log_record aegis_result" where
  "record_from_bytes crc data =
     (if length data < wal_record_header_size + 4 then Inl (Corruption ''Log record too small'')
      else
        let (lsn, buf) = get_u64_le data;
            (prev_raw, buf) = get_u64_le buf;
            prev = (if prev_raw = 0 then None else Some prev_raw);
            (t, buf) = get_u64_le buf;
            (ty, buf) = get_u8 buf;
            (has_page, buf) = get_u8 buf;
            (_, buf) = get_u16_le buf;
            (page_raw, buf) = get_u64_le buf;
            page = (if has_page \<noteq> 0 then Some page_raw else None);
            (len, buf) = get_u32_le buf
        in if length buf < unat len + 4 then Inl (Corruption ''Log record data truncated'')
           else
             let rdata = take (unat len) buf;
                 (stored, _) = get_u32_le (drop (unat len) buf);
                 computed = crc (take (length data - 4) data)
             in if stored \<noteq> computed then Inl (Corruption ''Log record checksum mismatch'')
                else Inr \<lparr>rec_lsn = lsn, rec_prev_lsn = prev, rec_tx_id = t,
                          rec_type = record_type_from ty, rec_page_id = page, rec_data = rdata\<rparr>)"

text \<open>What the format can represent: a previous LSN is not zero and the data length fits.\<close>

definition record_ok :: "log_record \<Rightarrow> bool" where
  "record_ok r \<longleftrightarrow> rec_prev_lsn r \<noteq> Some 0 \<and> length (rec_data r) < 2 ^ 32"

lemma record_type_from_code [simp]: "record_type_from (record_type_code ty) = ty"
  by (cases ty) (simp_all add: record_type_from_def)

lemma length_record_header [simp]: "length (record_header r) = 40"
  by (simp add: record_header_def)

lemma length_record_to_bytes: "length (record_to_bytes crc r) = 44 + length (rec_data r)"
  by (simp add: record_to_bytes_def Let_def)

lemma unat_of_nat_u32: "n < 2 ^ 32 \<Longrightarrow> unat (of_nat n :: u32) = n"
  by (simp add: unat_of_nat)

lemma record_roundtrip:
  assumes "record_ok r"
  shows "record_from_bytes crc (record_to_bytes crc r) = Inr r"
proof -
  let ?d = "rec_data r"
  let ?sum = "put_u32_le (crc (record_header r @ ?d))"
  have bytes: "record_to_bytes crc r = put_u64_le (rec_lsn r)
      @ put_u64_le (case rec_prev_lsn r of None \<Rightarrow> 0 | Some l \<Rightarrow> l)
      @ put_u64_le (rec_tx_id r) @ record_type_code (rec_type r)
      # (case rec_page_id r of None \<Rightarrow> 0 | Some _ \<Rightarrow> 1) # put_u16_le 0
      @ put_u64_le (case rec_page_id r of None \<Rightarrow> 0 | Some p \<Rightarrow> p)
      @ put_u32_le (of_nat (length ?d)) @ ?d @ ?sum"
    by (simp add: record_to_bytes_def Let_def record_header_def)
  have len: "length (record_to_bytes crc r) = 44 + length ?d" by (rule length_record_to_bytes)
  have body: "take (length (record_to_bytes crc r) - 4) (record_to_bytes crc r) = record_header r @ ?d"
    unfolding len by (simp add: record_to_bytes_def Let_def)
  have n: "unat (of_nat (length ?d) :: u32) = length ?d"
    using assms by (intro unat_of_nat_u32) (simp add: record_ok_def)
  have prev: "(if (case rec_prev_lsn r of None \<Rightarrow> 0 | Some l \<Rightarrow> l) = 0 then None
      else Some (case rec_prev_lsn r of None \<Rightarrow> 0 | Some l \<Rightarrow> l)) = rec_prev_lsn r"
    using assms by (auto simp: record_ok_def split: option.splits)
  have page: "(if (case rec_page_id r of None \<Rightarrow> (0 :: u8) | Some _ \<Rightarrow> 1) \<noteq> 0
      then Some (case rec_page_id r of None \<Rightarrow> 0 | Some p \<Rightarrow> p) else None) = rec_page_id r"
    by (simp split: option.splits)
  have "get_u32_le ?sum = (crc (record_header r @ ?d), [])"
    using get_put(2) [of _ "[]"] by simp
  then show ?thesis
    using len body
    unfolding record_from_bytes_def Let_def wal_record_header_size_def
    by (simp add: bytes n prev page)
qed

section \<open>Reading a segment\<close>

text \<open>One round of the loop of \<^verbatim>\<open>read_segment\<close> at the current offset: the next record and
  the bytes after it, or the end (too short, truncated, or unreadable).\<close>

definition next_record :: "(bytes \<Rightarrow> u32) \<Rightarrow> bytes \<Rightarrow> (log_record \<times> bytes) option" where
  "next_record crc buf =
     (if length buf < wal_record_header_size + 4 then None
      else
        let data_len = le_nat (slice buf 36 4);
            total = wal_record_header_size + data_len + 4
        in if total > length buf then None
           else case record_from_bytes crc (take total buf) of
                  Inl _ \<Rightarrow> None
                | Inr r \<Rightarrow> Some (r, drop total buf))"

lemma next_record_shorter: "next_record crc buf = Some (r, rest) \<Longrightarrow> length rest < length buf"
  by (auto simp: next_record_def wal_record_header_size_def Let_def split: if_splits sum.splits)

function read_segment :: "(bytes \<Rightarrow> u32) \<Rightarrow> bytes \<Rightarrow> log_record list" where
  "read_segment crc buf =
     (case next_record crc buf of None \<Rightarrow> [] | Some (r, rest) \<Rightarrow> r # read_segment crc rest)"
  by pat_completeness auto

termination
  by (relation "measure (\<lambda>(crc, buf). length buf)") (auto dest: next_record_shorter)

declare read_segment.simps [simp del]

lemma record_len_field:
  assumes "record_ok r"
  shows "le_nat (slice (record_to_bytes crc r @ rest) 36 4) = length (rec_data r)"
proof -
  have "drop 36 (record_to_bytes crc r @ rest) = put_u32_le (of_nat (length (rec_data r)))
      @ rec_data r @ put_u32_le (crc (record_header r @ rec_data r)) @ rest"
    by (simp add: record_to_bytes_def record_header_def Let_def)
  moreover have "unat (of_nat (length (rec_data r)) :: u32) = length (rec_data r)"
    using assms by (intro unat_of_nat_u32) (simp add: record_ok_def)
  ultimately show ?thesis by (simp add: le_nat_put)
qed

lemma next_record_enc:
  assumes "record_ok r"
  shows "next_record crc (record_to_bytes crc r @ rest) = Some (r, rest)"
proof -
  have "wal_record_header_size + length (rec_data r) + 4 = length (record_to_bytes crc r)"
    by (simp add: length_record_to_bytes wal_record_header_size_def)
  moreover have "\<not> length (record_to_bytes crc r @ rest) < wal_record_header_size + 4"
    by (simp add: length_record_to_bytes wal_record_header_size_def)
  ultimately show ?thesis
    using record_roundtrip [OF assms, of crc]
    unfolding next_record_def Let_def record_len_field [OF assms] by simp
qed

lemma next_record_torn:
  assumes "record_ok r" "n < length (record_to_bytes crc r)"
  shows "next_record crc (take n (record_to_bytes crc r)) = None"
proof (cases "n < 44")
  case True
  then show ?thesis by (simp add: next_record_def wal_record_header_size_def)
next
  case False
  then have "slice (take n (record_to_bytes crc r)) 36 4 = slice (record_to_bytes crc r @ []) 36 4"
    using assms(2) by (simp add: take_drop min_def)
  then have "le_nat (slice (take n (record_to_bytes crc r)) 36 4) = length (rec_data r)"
    using record_len_field [OF assms(1), of crc "[]"] by simp
  with assms(2) show ?thesis
    by (simp add: next_record_def Let_def wal_record_header_size_def length_record_to_bytes)
qed

interpretation seg: stream_format record_ok "record_to_bytes crc" "next_record crc" "read_segment crc"
  for crc
proof unfold_locales
  show "next_record crc [] = None" by (simp add: next_record_def wal_record_header_size_def)
  show "read_segment crc buf = (case next_record crc buf of None \<Rightarrow> [] | Some (x, rest) \<Rightarrow> x # read_segment crc rest)"
    for buf by (rule read_segment.simps)
qed (simp_all add: next_record_enc next_record_torn)

text \<open>C34: Whatever prefix of a segment survives a crash, reading it gives a prefix of the records
  that were written, exactly those whose bytes are complete: every record comes back unchanged,
  a torn last record is dropped and nothing is made up.\<close>

theorem segment_crash_roundtrip:
  assumes "list_all record_ok rs"
  shows "read_segment crc (concat (map (record_to_bytes crc) rs)) = rs
    \<and> (\<exists>k \<le> length rs. read_segment crc (take n (concat (map (record_to_bytes crc) rs))) = take k rs
         \<and> length (concat (map (record_to_bytes crc) (take k rs))) \<le> n
         \<and> (k < length rs \<longrightarrow> n < length (concat (map (record_to_bytes crc) (take (Suc k) rs)))))"
proof -
  have "read_segment crc [] = []" by (simp add: seg.read_all_step seg.next_empty)
  then show ?thesis using seg.read_written [OF assms, of crc "[]"] seg.read_prefix [OF assms] by simp
qed

theorem segment_crash_roundtrip_witness:
  "let crc = (\<lambda>b. of_nat (length b)); rs = [rec_begin 1 7, data_record 2 (Some 1) 7 LInsert 3 [10, 20], rec_commit 3 2 7]
   in read_segment crc (concat (map (record_to_bytes crc) rs)) = rs
      \<and> read_segment crc (take 100 (concat (map (record_to_bytes crc) rs))) = take 2 rs"
proof -
  let ?crc = "\<lambda>b :: bytes. of_nat (length b) :: u32"
  let ?rs = "[rec_begin 1 7, data_record 2 (Some 1) 7 LInsert 3 [10, 20], rec_commit 3 2 7]"
  have ok: "list_all record_ok ?rs"
    by (simp add: record_ok_def rec_begin_def data_record_def rec_commit_def)
  have len: "length (concat (map (record_to_bytes ?crc) (take k ?rs))) =
      (if k = 0 then 0 else if k = 1 then 44 else if k = 2 then 90 else 134)" for k
    by (simp add: length_record_to_bytes rec_begin_def data_record_def rec_commit_def take_Cons')
  from segment_crash_roundtrip [OF ok, of ?crc 100] obtain k where k: "k \<le> length ?rs"
      "read_segment ?crc (take 100 (concat (map (record_to_bytes ?crc) ?rs))) = take k ?rs"
      "(if k = 0 then 0 else if k = 1 then 44 else if k = 2 then 90 else 134) \<le> (100 :: nat)"
      "k < length ?rs \<longrightarrow> 100 < (if Suc k = 0 then 0 else if Suc k = 1 then 44 else if Suc k = 2 then 90 else 134 :: nat)"
    unfolding len by blast
  then have "k = 2" by (auto split: if_splits)
  with k segment_crash_roundtrip [OF ok, of ?crc 100] show ?thesis by (simp add: Let_def)
qed

section \<open>Recovery\<close>

record recovery_result =
  rr_redo_records :: "log_record list"
  rr_incomplete_transactions :: "transaction_id set"
  rr_max_lsn :: lsn
  rr_records_processed :: nat
  rr_segments_scanned :: nat

type_synonym checkpoint_codec = "bytes \<Rightarrow> (transaction_id list \<times> page_id list) option"

text \<open>The local variables of the scan.\<close>

record scan =
  sc_tx_status :: "(transaction_id, bool) hmap"
  sc_tx_records :: "(transaction_id, log_record list) hmap"
  sc_max_lsn :: lsn
  sc_processed :: nat

definition scan_init :: scan where
  "scan_init = \<lparr>sc_tx_status = [], sc_tx_records = [], sc_max_lsn = 0, sc_processed = 0\<rparr>"

definition scan_active :: "(transaction_id, bool) hmap \<Rightarrow> transaction_id \<Rightarrow> (transaction_id, bool) hmap" where
  "scan_active status t = (if hm_contains status t then status else hm_insert t False status)"

definition scan_record :: "checkpoint_codec \<Rightarrow> scan \<Rightarrow> log_record \<Rightarrow> scan" where
  "scan_record ckpt_dec s0 r =
     (let s = s0\<lparr>sc_processed := sc_processed s0 + 1, sc_max_lsn := max (sc_max_lsn s0) (rec_lsn r)\<rparr>;
          t = rec_tx_id r
      in case rec_type r of
           LBegin \<Rightarrow> s\<lparr>sc_tx_status := hm_insert t False (sc_tx_status s),
                        sc_tx_records := hm_insert t [] (sc_tx_records s)\<rparr>
         | LCommit \<Rightarrow> s\<lparr>sc_tx_status := hm_insert t True (sc_tx_status s)\<rparr>
         | LAbort \<Rightarrow> s\<lparr>sc_tx_status := hm_remove t (sc_tx_status s),
                        sc_tx_records := hm_remove t (sc_tx_records s)\<rparr>
         | LCheckpoint \<Rightarrow>
             (case ckpt_dec (rec_data r) of
                None \<Rightarrow> s
              | Some (active, _) \<Rightarrow> s\<lparr>sc_tx_status := foldl scan_active (sc_tx_status s) active\<rparr>)
         | LCompensation \<Rightarrow> s
         | _ \<Rightarrow>
             (case hm_get (sc_tx_records s) t of
                None \<Rightarrow> s
              | Some rs \<Rightarrow> s\<lparr>sc_tx_records := hm_insert t (rs @ [r]) (sc_tx_records s)\<rparr>))"

definition scan_finish :: "scan \<Rightarrow> nat \<Rightarrow> recovery_result" where
  "scan_finish s segments =
     \<lparr>rr_redo_records = sort_key rec_lsn
        (concat (map (\<lambda>(t, committed).
           if committed then (case hm_get (sc_tx_records s) t of None \<Rightarrow> [] | Some rs \<Rightarrow> rs) else [])
          (sc_tx_status s))),
      rr_incomplete_transactions = set (map fst (filter (\<lambda>(_, committed). \<not> committed) (sc_tx_status s))),
      rr_max_lsn = sc_max_lsn s, rr_records_processed = sc_processed s, rr_segments_scanned = segments\<rparr>"

text \<open>\<^verbatim>\<open>recover_from_directory\<close> on the contents of the segments in name order.\<close>

definition recover_segments ::
    "(bytes \<Rightarrow> u32) \<Rightarrow> checkpoint_codec \<Rightarrow> bytes list \<Rightarrow> recovery_result" where
  "recover_segments crc ckpt_dec segments =
     scan_finish (foldl (scan_record ckpt_dec) scan_init (concat (map (read_segment crc) segments)))
       (length segments)"

text \<open>What a log says about a transaction.\<close>

definition is_data :: "log_record \<Rightarrow> bool" where
  "is_data r \<longleftrightarrow> rec_type r \<in> {LInsert, LUpdate, LDelete}"

definition logged :: "log_record list \<Rightarrow> log_record_type \<Rightarrow> transaction_id \<Rightarrow> bool" where
  "logged l ty t \<longleftrightarrow> list_ex (\<lambda>r. rec_type r = ty \<and> rec_tx_id r = t) l"

definition open_tx :: "log_record list \<Rightarrow> transaction_id \<Rightarrow> bool" where
  "open_tx l t \<longleftrightarrow> logged l LBegin t \<and> \<not> logged l LCommit t \<and> \<not> logged l LAbort t"

text \<open>A log as the engine writes it: a transaction begins once and logs its changes, its
  commit or its abort while it is open; a checkpoint names open transactions.\<close>

definition follows :: "checkpoint_codec \<Rightarrow> log_record list \<Rightarrow> log_record \<Rightarrow> bool" where
  "follows ckpt_dec l r =
     (case rec_type r of
        LBegin \<Rightarrow> \<not> logged l LBegin (rec_tx_id r)
      | LCheckpoint \<Rightarrow> (case ckpt_dec (rec_data r) of None \<Rightarrow> True | Some (active, _) \<Rightarrow> list_all (open_tx l) active)
      | LCompensation \<Rightarrow> True
      | _ \<Rightarrow> open_tx l (rec_tx_id r))"

definition wal_log_wf :: "checkpoint_codec \<Rightarrow> log_record list \<Rightarrow> bool" where
  "wal_log_wf ckpt_dec l \<longleftrightarrow> list_all (\<lambda>i. follows ckpt_dec (take i l) (l ! i)) [0..<length l]"

lemma wal_log_wf_snoc: "wal_log_wf ckpt_dec (l @ [r]) \<longleftrightarrow> wal_log_wf ckpt_dec l \<and> follows ckpt_dec l r"
proof -
  have "list_all (\<lambda>i. follows ckpt_dec (take i (l @ [r])) ((l @ [r]) ! i)) [0..<length l] =
        list_all (\<lambda>i. follows ckpt_dec (take i l) (l ! i)) [0..<length l]"
    by (rule list.pred_cong) (auto simp: nth_append)
  then show ?thesis by (simp add: wal_log_wf_def)
qed

lemma logged_snoc [simp]:
  "logged (l @ [r]) ty t \<longleftrightarrow> logged l ty t \<or> rec_type r = ty \<and> rec_tx_id r = t"
  by (auto simp: logged_def)

lemma logged_Nil [simp]: "\<not> logged [] ty t"
  by (simp add: logged_def)

lemma scan_active_id: "\<forall>t \<in> set ts. hm_contains status t \<Longrightarrow> foldl scan_active status ts = status"
  by (induction ts) (simp_all add: scan_active_def)

text \<open>In a well-formed log a transaction logs nothing before it begins and nothing after it
  has committed or aborted.\<close>

lemma wal_log_wf_facts:
  "wal_log_wf ckpt_dec l \<Longrightarrow>
     (\<forall>t. logged l LCommit t \<longrightarrow> logged l LBegin t \<and> \<not> logged l LAbort t)
   \<and> (\<forall>t. logged l LAbort t \<longrightarrow> logged l LBegin t)
   \<and> (\<forall>r \<in> set l. is_data r \<longrightarrow> logged l LBegin (rec_tx_id r))"
proof (induction l rule: rev_induct)
  case (snoc r l)
  then have IH: "(\<forall>t. logged l LCommit t \<longrightarrow> logged l LBegin t \<and> \<not> logged l LAbort t)
     \<and> (\<forall>t. logged l LAbort t \<longrightarrow> logged l LBegin t) \<and> (\<forall>r \<in> set l. is_data r \<longrightarrow> logged l LBegin (rec_tx_id r))"
    and f: "follows ckpt_dec l r" by (simp_all add: wal_log_wf_snoc)
  then show ?case
    by (cases "rec_type r") (auto simp: follows_def open_tx_def is_data_def)
qed simp

definition scan_inv :: "log_record list \<Rightarrow> scan \<Rightarrow> bool" where
  "scan_inv l s \<longleftrightarrow>
      hm_ok (sc_tx_status s) \<and> hm_ok (sc_tx_records s) \<and> sc_processed s = length l
      \<and> sc_max_lsn s = foldl max 0 (map rec_lsn l)
      \<and> (\<forall>t. hm_get (sc_tx_status s) t =
           (if logged l LCommit t then Some True else if open_tx l t then Some False else None))
      \<and> (\<forall>t. hm_get (sc_tx_records s) t =
           (if logged l LBegin t \<and> \<not> logged l LAbort t
            then Some (filter (\<lambda>r. is_data r \<and> rec_tx_id r = t) l) else None))"

lemma scan_inv_step:
  assumes "scan_inv l s" "wal_log_wf ckpt_dec l" "follows ckpt_dec l r"
  shows "scan_inv (l @ [r]) (scan_record ckpt_dec s r)"
proof -
  have IH: "hm_ok (sc_tx_status s)" "hm_ok (sc_tx_records s)" "sc_processed s = length l"
      "sc_max_lsn s = foldl max 0 (map rec_lsn l)"
      "\<And>t. hm_get (sc_tx_status s) t =
           (if logged l LCommit t then Some True else if open_tx l t then Some False else None)"
      "\<And>t. hm_get (sc_tx_records s) t =
           (if logged l LBegin t \<and> \<not> logged l LAbort t
            then Some (filter (\<lambda>r. is_data r \<and> rec_tx_id r = t) l) else None)"
    using assms(1) by (simp_all add: scan_inv_def)
  note facts = wal_log_wf_facts [OF assms(2)]
  have none: "\<not> logged l LBegin t \<Longrightarrow> filter (\<lambda>r. is_data r \<and> rec_tx_id r = t) l = []" for t
    using facts by (auto simp: filter_empty_conv)
  have act: "foldl scan_active (sc_tx_status s) active = sc_tx_status s" if "list_all (open_tx l) active" for active
    using that IH(5) by (intro scan_active_id) (auto simp: list_all_iff open_tx_def)
  show ?thesis
  proof (cases "rec_type r")
    case LCheckpoint
    with assms(3) act IH(1-4) show ?thesis
      by (auto simp: scan_inv_def Let_def scan_record_def follows_def open_tx_def is_data_def IH(5,6)
          split: option.splits)
  qed (use assms(3) IH(1-4) facts none in \<open>auto simp: scan_inv_def Let_def scan_record_def follows_def open_tx_def
        is_data_def hm_simps IH(5,6) intro!: hm_intros split: option.splits\<close>)
qed

lemma scan_log: "wal_log_wf ckpt_dec l \<Longrightarrow> scan_inv l (foldl (scan_record ckpt_dec) scan_init l)"
proof (induction l rule: rev_induct)
  case Nil
  then show ?case by (simp add: scan_init_def open_tx_def scan_inv_def)
next
  case (snoc r l)
  then show ?case by (simp add: wal_log_wf_snoc scan_inv_step)
qed

lemma mset_concat_by_key:
  "distinct ts \<Longrightarrow> mset (concat (map (\<lambda>t. filter (\<lambda>r. P r \<and> g r = t) l) ts)) =
     mset (filter (\<lambda>r. P r \<and> g r \<in> set ts) l)"
proof (induction ts)
  case (Cons t ts)
  have "mset (filter (\<lambda>r. P r \<and> (g r = t \<or> g r \<in> set ts)) l) =
      mset (filter (\<lambda>r. P r \<and> g r = t) l) + mset (filter (\<lambda>r. P r \<and> g r \<in> set ts) l)"
    using Cons.prems by (induction l) auto
  with Cons show ?case by simp
qed simp

lemma filter_same_key:
  "distinct xs \<Longrightarrow> inj_on f (set xs) \<Longrightarrow> k \<in> set xs \<Longrightarrow> filter (\<lambda>x. f k = f x) xs = [k]"
proof (induction xs)
  case (Cons x xs)
  show ?case
  proof (cases "k = x")
    case True
    with Cons.prems have "filter (\<lambda>y. f k = f y) xs = []" by (auto simp: filter_empty_conv inj_on_def)
    with True show ?thesis by simp
  next
    case False
    with Cons.prems have "f k \<noteq> f x" by (auto simp: inj_on_def)
    with False Cons show ?thesis by simp
  qed
qed simp

text \<open>A permutation of a list that is strictly sorted by its keys sorts back to it.\<close>

lemma sort_key_strict:
  assumes "mset xs = mset ys" "sorted_wrt (\<lambda>x y. f x < f y) ys"
  shows "sort_key f xs = ys"
proof (rule properties_for_sort_key)
  have keys: "sorted_wrt (<) (map f ys)" using assms(2) by (simp add: sorted_wrt_map)
  then have "distinct (map f ys)" by (simp add: strict_sorted_iff)
  then have ys: "distinct ys" "inj_on f (set ys)" by (simp_all add: distinct_map)
  then have xs: "distinct xs" "inj_on f (set xs)" using assms(1) by (metis mset_eq_imp_distinct_iff, metis mset_eq_setD)
  show "mset ys = mset xs" using assms(1) by simp
  show "filter (\<lambda>x. f k = f x) ys = filter (\<lambda>x. f k = f x) xs" if "k \<in> set ys" for k
    using that filter_same_key [OF ys] filter_same_key [OF xs] assms(1) by (metis mset_eq_setD)
  show "sorted (map f ys)" using keys by (simp add: strict_sorted_iff)
qed

lemma hm_keys_with:
  assumes "hm_ok m"
  shows "set (map fst (filter (\<lambda>(_, c). c = b) m)) = {t. hm_get m t = Some b}"
  using hm_get_in_set [OF assms, of _ b] by force

lemma concat_committed:
  "concat (map (\<lambda>(t, c). if c then f t else []) xs) = concat (map f (map fst (filter (\<lambda>(_, c). c = True) xs)))"
  by (induction xs) auto

lemma wal_foldl_max_ge: "a \<le> foldl max (a :: 'a :: linorder) xs \<and> (\<forall>x \<in> set xs. x \<le> foldl max a xs)"
proof (induction xs arbitrary: a)
  case (Cons x xs)
  from Cons [of "max a x"] show ?case by simp
qed simp

definition lsn_sorted :: "log_record list \<Rightarrow> bool" where
  "lsn_sorted l \<longleftrightarrow> sorted_wrt (\<lambda>r r'. rec_lsn r < rec_lsn r') l"

text \<open>C9: Recovery of a log as the engine writes it (a transaction begins once, logs while it is
  open, LSNs increase): the records to redo are exactly the changes of the committed
  transactions, in log order; the transactions reported as incomplete are exactly those that
  began and neither committed nor aborted; every record is counted.\<close>

theorem recovery_redoes_committed:
  assumes "wal_log_wf ckpt_dec l" "lsn_sorted l" "concat (map (read_segment crc) segments) = l"
  shows "rr_redo_records (recover_segments crc ckpt_dec segments) =
           filter (\<lambda>r. is_data r \<and> logged l LCommit (rec_tx_id r)) l
       \<and> rr_incomplete_transactions (recover_segments crc ckpt_dec segments) = {t. open_tx l t}
       \<and> rr_records_processed (recover_segments crc ckpt_dec segments) = length l
       \<and> (\<forall>r \<in> set l. rec_lsn r \<le> rr_max_lsn (recover_segments crc ckpt_dec segments))"
proof -
  define s where "s = foldl (scan_record ckpt_dec) scan_init l"
  have inv: "scan_inv l s" unfolding s_def by (rule scan_log [OF assms(1)])
  note i = inv [unfolded scan_inv_def]
  have rec: "recover_segments crc ckpt_dec segments = scan_finish s (length segments)"
    by (simp add: recover_segments_def assms(3) s_def)
  define ts where "ts = map fst (filter (\<lambda>(_, c). c = True) (sc_tx_status s))"
  have "distinct ts" using i by (simp add: ts_def hm_ok_def distinct_map_filter)
  moreover have ts: "set ts = {t. logged l LCommit t}"
    using i hm_keys_with [of "sc_tx_status s" True] by (auto simp: ts_def)
  ultimately have by_tx: "mset (concat (map (\<lambda>t. filter (\<lambda>r. is_data r \<and> rec_tx_id r = t) l) ts)) =
      mset (filter (\<lambda>r. is_data r \<and> logged l LCommit (rec_tx_id r)) l)"
    by (simp add: mset_concat_by_key)
  have recs: "map (\<lambda>t. case hm_get (sc_tx_records s) t of None \<Rightarrow> [] | Some rs \<Rightarrow> rs) ts =
      map (\<lambda>t. filter (\<lambda>r. is_data r \<and> rec_tx_id r = t) l) ts"
    using i wal_log_wf_facts [OF assms(1)] ts by (intro map_cong) auto
  have "sort_key rec_lsn (concat (map (\<lambda>t. case hm_get (sc_tx_records s) t of None \<Rightarrow> [] | Some rs \<Rightarrow> rs) ts)) =
      filter (\<lambda>r. is_data r \<and> logged l LCommit (rec_tx_id r)) l"
    unfolding recs using assms(2) by (intro sort_key_strict by_tx) (simp add: lsn_sorted_def sorted_wrt_filter)
  then have "rr_redo_records (scan_finish s (length segments)) =
      filter (\<lambda>r. is_data r \<and> logged l LCommit (rec_tx_id r)) l"
    by (simp add: scan_finish_def concat_committed ts_def)
  moreover have "rr_incomplete_transactions (scan_finish s (length segments)) = {t. open_tx l t}"
    using i hm_keys_with [of "sc_tx_status s" False] by (auto simp: scan_finish_def open_tx_def split: if_splits)
  moreover have "rr_records_processed (scan_finish s (length segments)) = length l"
    using i by (simp add: scan_finish_def)
  moreover have "rec_lsn r \<le> rr_max_lsn (scan_finish s (length segments))" if "r \<in> set l" for r
    using i that wal_foldl_max_ge [of 0 "map rec_lsn l"] by (simp add: scan_finish_def)
  ultimately show ?thesis unfolding rec by blast
qed

theorem recovery_redoes_committed_witness:
  "let l = [rec_begin 1 7, rec_begin 2 8, data_record 3 (Some 1) 7 LInsert 3 [10],
            data_record 4 (Some 2) 8 LUpdate 3 [20], rec_commit 5 3 7, rec_begin 6 9];
       crc = (\<lambda>b. 0); res = recover_segments crc (\<lambda>_. None) [concat (map (record_to_bytes crc) l)]
   in rr_redo_records res = [data_record 3 (Some 1) 7 LInsert 3 [10]]
      \<and> rr_incomplete_transactions res = {8, 9}"
proof -
  let ?l = "[rec_begin 1 7, rec_begin 2 8, data_record 3 (Some 1) 7 LInsert 3 [10],
            data_record 4 (Some 2) 8 LUpdate 3 [20], rec_commit 5 3 7, rec_begin 6 9]"
  let ?crc = "\<lambda>b :: bytes. 0 :: u32"
  have wf: "wal_log_wf (\<lambda>_. None) ?l" by code_simp
  have sorted: "lsn_sorted ?l" by (simp add: lsn_sorted_def rec_begin_def data_record_def rec_commit_def)
  have "list_all record_ok ?l" by (simp add: record_ok_def rec_begin_def data_record_def rec_commit_def)
  then have "concat (map (read_segment ?crc) [concat (map (record_to_bytes ?crc) ?l)]) = ?l"
    using seg.read_written [of ?l ?crc "[]"] by (simp add: seg.read_all_step [of _ "[]"] seg.next_empty)
  note rec = recovery_redoes_committed [OF wf sorted this]
  have "filter (\<lambda>r. is_data r \<and> logged ?l LCommit (rec_tx_id r)) ?l = [data_record 3 (Some 1) 7 LInsert 3 [10]]"
    by code_simp
  moreover have "open_tx ?l t \<longleftrightarrow> t = 8 \<or> t = 9" for t
    by (auto simp: open_tx_def logged_def rec_begin_def data_record_def rec_commit_def)
  ultimately show ?thesis using rec by (auto simp: Let_def)
qed

section \<open>The log and its directory\<close>

definition wal_segment_size :: nat where
  "wal_segment_size = 64 * 1024 * 1024"

record wal =
  w_current_lsn :: u64
  w_flushed_lsn :: u64
  w_checkpoint_lsn :: u64
  w_records :: "log_record list"
  w_size :: nat
  w_segment_offset :: nat
  w_current_segment :: nat
  w_sync_on_commit :: bool
  w_archived :: "(nat, bytes) hmap"
  w_file :: bytes
  w_pending :: bytes

definition find_latest_segment :: "(nat, bytes) hmap \<Rightarrow> nat" where
  "find_latest_segment archived = foldl max 0 (hm_keys archived)"

text \<open>\<^verbatim>\<open>new\<close> on a directory with its files; \<^verbatim>\<open>open_segment\<close> appends to the current one.\<close>

definition wal_new :: "(nat, bytes) hmap \<Rightarrow> bytes \<Rightarrow> bool \<Rightarrow> wal" where
  "wal_new archived file sync =
     \<lparr>w_current_lsn = 1, w_flushed_lsn = 0, w_checkpoint_lsn = 0, w_records = [], w_size = 0,
      w_segment_offset = length file, w_current_segment = find_latest_segment archived,
      w_sync_on_commit = sync, w_archived = archived, w_file = file, w_pending = []\<rparr>"

text \<open>The segments in the order of their names: the numbered ones, then the current one.\<close>

definition segment_contents :: "(nat, bytes) hmap \<Rightarrow> bytes \<Rightarrow> bytes list" where
  "segment_contents archived file =
     map (\<lambda>n. case hm_get archived n of None \<Rightarrow> [] | Some b \<Rightarrow> b) (sort (hm_keys archived)) @ [file]"

definition saturating_add :: "u64 \<Rightarrow> u64 \<Rightarrow> u64" where
  "saturating_add a b = (if unat a + unat b < 2 ^ 64 then a + b else - 1)"

definition open_and_recover ::
    "(bytes \<Rightarrow> u32) \<Rightarrow> checkpoint_codec \<Rightarrow> (nat, bytes) hmap \<Rightarrow> bytes \<Rightarrow> bool \<Rightarrow> wal \<times> recovery_result" where
  "open_and_recover crc ckpt_dec archived file sync =
     (let recovery = recover_segments crc ckpt_dec (segment_contents archived file);
          next_lsn = max (saturating_add (rr_max_lsn recovery) 1) 1
      in ((wal_new archived file sync)\<lparr>w_current_lsn := next_lsn, w_flushed_lsn := rr_max_lsn recovery\<rparr>,
          recovery))"

definition next_lsn :: "wal \<Rightarrow> lsn \<times> wal" where
  "next_lsn w = (w_current_lsn w, w\<lparr>w_current_lsn := w_current_lsn w + 1\<rparr>)"

definition rotate_segment :: "wal \<Rightarrow> wal" where
  "rotate_segment w =
     w\<lparr>w_archived := hm_insert (w_current_segment w) (w_file w @ w_pending w) (w_archived w),
       w_current_segment := w_current_segment w + 1, w_file := [], w_pending := [], w_segment_offset := 0\<rparr>"

definition wal_append :: "(bytes \<Rightarrow> u32) \<Rightarrow> wal \<Rightarrow> log_record \<Rightarrow> lsn \<times> wal" where
  "wal_append crc w r =
     (let data = record_to_bytes crc r;
          w1 = (if w_segment_offset w + length data > wal_segment_size then rotate_segment w else w)
      in (rec_lsn r,
          w1\<lparr>w_records := w_records w1 @ [r], w_size := w_size w1 + length data,
             w_pending := w_pending w1 @ data, w_segment_offset := w_segment_offset w1 + length data\<rparr>))"

definition wal_flush :: "wal \<Rightarrow> lsn \<times> wal" where
  "wal_flush w =
     (let flushed = w_current_lsn w - 1 in
      (flushed, w\<lparr>w_file := w_file w @ w_pending w, w_pending := [], w_flushed_lsn := flushed,
                  w_records := [], w_size := 0\<rparr>))"

definition log_begin :: "(bytes \<Rightarrow> u32) \<Rightarrow> wal \<Rightarrow> transaction_id \<Rightarrow> lsn \<times> wal" where
  "log_begin crc w t = (let (lsn, w1) = next_lsn w in wal_append crc w1 (rec_begin lsn t))"

definition log_commit :: "(bytes \<Rightarrow> u32) \<Rightarrow> wal \<Rightarrow> transaction_id \<Rightarrow> lsn \<Rightarrow> lsn \<times> wal" where
  "log_commit crc w t prev =
     (let (lsn, w1) = next_lsn w; (_, w2) = wal_append crc w1 (rec_commit lsn prev t)
      in (lsn, if w_sync_on_commit w2 then snd (wal_flush w2) else w2))"

definition log_abort :: "(bytes \<Rightarrow> u32) \<Rightarrow> wal \<Rightarrow> transaction_id \<Rightarrow> lsn \<Rightarrow> lsn \<times> wal" where
  "log_abort crc w t prev = (let (lsn, w1) = next_lsn w in wal_append crc w1 (rec_abort lsn prev t))"

definition log_insert ::
    "(bytes \<Rightarrow> u32) \<Rightarrow> wal \<Rightarrow> transaction_id \<Rightarrow> lsn option \<Rightarrow> page_id \<Rightarrow> bytes \<Rightarrow> lsn \<times> wal" where
  "log_insert crc w t prev page data =
     (let (lsn, w1) = next_lsn w in wal_append crc w1 (data_record lsn prev t LInsert page data))"

definition log_update ::
    "(bytes \<Rightarrow> u32) \<Rightarrow> wal \<Rightarrow> transaction_id \<Rightarrow> lsn option \<Rightarrow> page_id \<Rightarrow> bytes \<Rightarrow> lsn \<times> wal" where
  "log_update crc w t prev page data =
     (let (lsn, w1) = next_lsn w in wal_append crc w1 (data_record lsn prev t LUpdate page data))"

definition log_delete ::
    "(bytes \<Rightarrow> u32) \<Rightarrow> wal \<Rightarrow> transaction_id \<Rightarrow> lsn option \<Rightarrow> page_id \<Rightarrow> bytes \<Rightarrow> lsn \<times> wal" where
  "log_delete crc w t prev page data =
     (let (lsn, w1) = next_lsn w in wal_append crc w1 (data_record lsn prev t LDelete page data))"

definition log_checkpoint ::
    "(bytes \<Rightarrow> u32) \<Rightarrow> (transaction_id list \<times> page_id list \<Rightarrow> bytes) \<Rightarrow> wal \<Rightarrow> transaction_id list \<Rightarrow> page_id list
      \<Rightarrow> lsn \<times> wal" where
  "log_checkpoint crc ckpt_enc w active dirty =
     (let (lsn, w1) = next_lsn w;
          r = \<lparr>rec_lsn = lsn, rec_prev_lsn = None, rec_tx_id = 0, rec_type = LCheckpoint, rec_page_id = None,
               rec_data = ckpt_enc (active, dirty)\<rparr>;
          (_, w2) = wal_append crc w1 r;
          (_, w3) = wal_flush w2
      in (lsn, w3\<lparr>w_checkpoint_lsn := lsn\<rparr>))"

definition truncate_before_checkpoint :: "wal \<Rightarrow> nat \<times> wal" where
  "truncate_before_checkpoint w =
     (if w_checkpoint_lsn w = 0 then (0, w)
      else let keep = filter (\<lambda>(n, _). \<not> n + 2 < w_current_segment w) (w_archived w)
           in (length (w_archived w) - length keep, w\<lparr>w_archived := keep\<rparr>))"

section \<open>Durability\<close>

text \<open>The log at work, with the records it was given so far and how many of them were there at
  the last flush.\<close>

inductive wal_step ::
    "(bytes \<Rightarrow> u32) \<Rightarrow> wal \<times> log_record list \<times> nat \<Rightarrow> wal \<times> log_record list \<times> nat \<Rightarrow> bool" for crc where
  alloc: "wal_step crc (w, l, n) (snd (next_lsn w), l, n)"
| append: "record_ok r \<Longrightarrow> wal_step crc (w, l, n) (snd (wal_append crc w r), l @ [r], n)"
| flush: "wal_step crc (w, l, n) (snd (wal_flush w), l, length l)"
| checkpoint: "wal_step crc (w, l, n) (w\<lparr>w_checkpoint_lsn := c\<rparr>, l, n)"

abbreviation wal_steps ::
    "(bytes \<Rightarrow> u32) \<Rightarrow> wal \<times> log_record list \<times> nat \<Rightarrow> wal \<times> log_record list \<times> nat \<Rightarrow> bool" where
  "wal_steps crc \<equiv> (wal_step crc)\<^sup>*\<^sup>*"

abbreviation enc_all :: "(bytes \<Rightarrow> u32) \<Rightarrow> log_record list \<Rightarrow> bytes" where
  "enc_all crc rs \<equiv> concat (map (record_to_bytes crc) rs)"

text \<open>The archived segments \<open>0 .. current_segment - 1\<close> hold whole records, the current file and
  the writer's buffer hold the rest.\<close>

definition wal_inv :: "(bytes \<Rightarrow> u32) \<Rightarrow> wal \<Rightarrow> log_record list list \<Rightarrow> log_record list \<Rightarrow> nat \<Rightarrow> bool" where
  "wal_inv crc w parts cur n \<longleftrightarrow>
     length parts = w_current_segment w \<and> hm_ok (w_archived w)
     \<and> (\<forall>i. hm_get (w_archived w) i = (if i < length parts then Some (enc_all crc (parts ! i)) else None))
     \<and> w_file w @ w_pending w = enc_all crc cur
     \<and> list_all record_ok (concat parts @ cur)
     \<and> n \<le> length (concat parts @ cur)
     \<and> length (enc_all crc (take (n - length (concat parts)) cur)) \<le> length (w_file w)"

lemma wal_inv_rotate:
  assumes "wal_inv crc w parts cur n"
  shows "wal_inv crc (rotate_segment w) (parts @ [cur]) [] n"
  using assms by (auto simp: wal_inv_def rotate_segment_def hm_simps nth_append intro!: hm_intros)

lemma wal_inv_add:
  assumes "wal_inv crc w parts cur n" "record_ok r"
  shows "wal_inv crc (w\<lparr>w_records := rs, w_size := sz, w_pending := w_pending w @ record_to_bytes crc r,
      w_segment_offset := off\<rparr>) parts (cur @ [r]) n"
proof -
  let ?k = "n - length (concat parts)"
  have "?k \<le> length cur" using assms(1) by (auto simp: wal_inv_def)
  then have "take ?k (cur @ [r]) = take ?k cur" by simp
  with assms show ?thesis by (simp add: wal_inv_def flip: append_assoc)
qed

lemma wal_inv_append:
  assumes "wal_inv crc w parts cur n" "record_ok r"
  shows "\<exists>parts' cur'. wal_inv crc (snd (wal_append crc w r)) parts' cur' n
    \<and> concat parts' @ cur' = concat parts @ cur @ [r]"
proof (cases "w_segment_offset w + length (record_to_bytes crc r) > wal_segment_size")
  case True
  from wal_inv_add [OF wal_inv_rotate [OF assms(1)] assms(2)] True show ?thesis
    by (intro exI [of _ "parts @ [cur]"] exI [of _ "[r]"]) (simp add: wal_append_def Let_def)
next
  case False
  from wal_inv_add [OF assms] False show ?thesis
    by (intro exI [of _ parts] exI [of _ "cur @ [r]"]) (simp add: wal_append_def Let_def)
qed

definition wal_written :: "(bytes \<Rightarrow> u32) \<Rightarrow> wal \<times> log_record list \<times> nat \<Rightarrow> bool" where
  "wal_written crc st \<longleftrightarrow>
     (\<exists>parts cur. wal_inv crc (fst st) parts cur (snd (snd st)) \<and> fst (snd st) = concat parts @ cur)"

lemma wal_written_fresh: "wal_written crc (wal_new [] [] sync, [], 0)"
  unfolding wal_written_def
  by (intro exI [of _ "[]"]) (simp add: wal_inv_def wal_new_def find_latest_segment_def)

lemma wal_written_step: "wal_step crc st st' \<Longrightarrow> wal_written crc st \<Longrightarrow> wal_written crc st'"
proof (induction rule: wal_step.induct)
  case (alloc w l n)
  then show ?case by (simp add: wal_written_def wal_inv_def next_lsn_def)
next
  case (append r w l n)
  then obtain parts cur where "wal_inv crc w parts cur n" "l = concat parts @ cur"
    by (auto simp: wal_written_def)
  with wal_inv_append [of crc w parts cur n r] append.hyps show ?case by (fastforce simp: wal_written_def)
next
  case (flush w l n)
  then obtain parts cur where i: "wal_inv crc w parts cur n" "l = concat parts @ cur"
    by (auto simp: wal_written_def)
  then have "wal_inv crc (snd (wal_flush w)) parts cur (length l)"
    by (auto simp: wal_inv_def wal_flush_def Let_def)
  with i show ?case by (auto simp: wal_written_def)
next
  case (checkpoint w l n c)
  then show ?case by (simp add: wal_written_def wal_inv_def)
qed

lemma wal_written_steps: "wal_steps crc st st' \<Longrightarrow> wal_written crc st \<Longrightarrow> wal_written crc st'"
  by (induction rule: rtranclp_induct) (auto intro: wal_written_step)

text \<open>The log only grows, and so does its flushed part.\<close>

lemma wal_steps_grow:
  "wal_steps crc st st' \<Longrightarrow> wal_written crc st \<Longrightarrow>
     (\<exists>ext. fst (snd st') = fst (snd st) @ ext) \<and> snd (snd st) \<le> snd (snd st')"
proof (induction rule: rtranclp_induct)
  case (step st1 st2)
  have "snd (snd st1) \<le> length (fst (snd st1))"
    using wal_written_steps [OF step.hyps(1) step.prems] by (auto simp: wal_written_def wal_inv_def)
  with step.hyps(2) step.IH [OF step.prems] show ?case by (auto elim!: wal_step.cases)
qed simp

lemma archived_in_order:
  assumes "wal_inv crc w parts cur n"
  shows "segment_contents (w_archived w) file = map (enc_all crc) parts @ [file]"
proof -
  have "set (hm_keys (w_archived w)) = {0..<length parts}"
    using assms by (auto simp: wal_inv_def dom_map_of_conv_image_fst [symmetric] split: if_splits)
  then have "sort (hm_keys (w_archived w)) = [0..<length parts]"
    using assms by (intro sorted_distinct_set_unique) (simp_all add: wal_inv_def hm_ok_def)
  moreover have "map (\<lambda>i. case hm_get (w_archived w) i of None \<Rightarrow> [] | Some b \<Rightarrow> b) [0..<length parts] =
      map (enc_all crc) parts"
    using assms by (intro nth_equalityI) (simp_all add: wal_inv_def)
  ultimately show ?thesis by (simp add: segment_contents_def)
qed

lemma read_parts:
  "list_all record_ok (concat parts) \<Longrightarrow> concat (map (read_segment crc) (map (enc_all crc) parts)) = concat parts"
proof (induction parts)
  case (Cons p parts)
  then have "read_segment crc (enc_all crc p) = p"
    using seg.read_written [of p crc "[]"] by (simp add: seg.read_all_step [of _ "[]"] seg.next_empty)
  with Cons show ?case by simp
qed simp

lemma length_enc_mono:
  "a \<le> b \<Longrightarrow> length (enc_all crc (take a xs)) \<le> length (enc_all crc (take b xs))"
proof -
  assume "a \<le> b"
  then have "take b xs = take a xs @ take (b - a) (drop a xs)" by (metis le_add_diff_inverse take_add)
  then show ?thesis by simp
qed

lemma crash_prefix:
  assumes "wal_written crc (w, l, n)"
  shows "\<exists>j. n \<le> j \<and> j \<le> length l
    \<and> concat (map (read_segment crc) (segment_contents (w_archived w) (w_file w @ take k (w_pending w)))) = take j l"
proof -
  from assms obtain parts cur where
    i: "wal_inv crc w parts cur n" and l: "l = concat parts @ cur" by (auto simp: wal_written_def)
  let ?m = "length (w_file w) + k"
  have "w_file w @ w_pending w = enc_all crc cur" using i by (simp add: wal_inv_def)
  note cut = arg_cong [OF this, of "take ?m", simplified take_append]
  have ok: "list_all record_ok cur" "list_all record_ok (concat parts)" using i by (simp_all add: wal_inv_def)
  from seg.read_prefix [OF ok(1), of crc ?m] obtain j where
    j: "j \<le> length cur" "read_segment crc (take ?m (enc_all crc cur)) = take j cur"
      "j < length cur \<longrightarrow> ?m < length (enc_all crc (take (Suc j) cur))" by blast
  have "n - length (concat parts) \<le> j"
  proof (rule ccontr)
    assume "\<not> ?thesis"
    then have lt: "j < n - length (concat parts)" by simp
    with i have "j < length cur" by (auto simp: wal_inv_def)
    moreover have "length (enc_all crc (take (Suc j) cur)) \<le> length (enc_all crc (take (n - length (concat parts)) cur))"
      using lt by (intro length_enc_mono) simp
    ultimately show False using j(3) i by (simp add: wal_inv_def)
  qed
  then show ?thesis
    using j(1,2) l cut read_parts [OF ok(2), of crc]
    by (intro exI [of _ "length (concat parts) + j"]) (simp add: archived_in_order [OF i])
qed



text \<open>Reopening a log directory that has numbered segments continues with the number of the
  last one, although that file exists: the first record that does not fit into the current file
  renames it onto that segment, whose records are gone.\<close>

theorem reopened_log_overwrites_segment:
  assumes "hm_get archived (find_latest_segment archived) = Some old"
    and "wal_segment_size < length file + length (record_to_bytes crc r)"
  shows "let m = find_latest_segment archived;
             w = snd (wal_append crc (fst (open_and_recover crc ckpt_dec archived file sync)) r)
         in hm_get (w_archived w) m = Some file \<and> (\<forall>i. i \<noteq> m \<longrightarrow> hm_get (w_archived w) i = hm_get archived i)
            \<and> w_file w @ w_pending w = record_to_bytes crc r"
  using assms by (simp add: Let_def wal_append_def open_and_recover_def wal_new_def rotate_segment_def hm_simps)

theorem reopened_log_overwrites_segment_witness:
  "let archived = [(0, record_to_bytes (\<lambda>_. 0) (rec_begin 1 7))];
       file = replicate wal_segment_size 0;
       w = snd (wal_append (\<lambda>_. 0) (fst (open_and_recover (\<lambda>_. 0) (\<lambda>_. None) archived file True)) (rec_begin 2 8))
   in hm_get (w_archived w) 0 = Some file"
proof -
  let ?old = "record_to_bytes (\<lambda>_. 0) (rec_begin 1 7)"
  have m: "find_latest_segment [(0, ?old)] = 0" by (simp add: find_latest_segment_def)
  have g: "hm_get [(0, ?old)] (find_latest_segment [(0, ?old)]) = Some ?old" by (simp add: m)
  have "wal_segment_size < length (replicate wal_segment_size (0 :: u8)) + length (record_to_bytes (\<lambda>_. 0) (rec_begin 2 8))"
    by (simp add: length_record_to_bytes)
  from reopened_log_overwrites_segment [OF g this] show ?thesis unfolding Let_def m by blast
qed

end
