(* ===== verification/Page.thy ===== *)
theory Page
  imports ByteCodec
begin

text \<open>
  Slotted pages, \<^verbatim>\<open>crates/aegis-storage/src/page.rs\<close>: an 8 KiB array of bytes with a
  header, a slot directory that grows from the front and tuples that grow from the back.

  The byte array is modelled byte by byte.  A slice out of range panics in the source; the
  operations that slice return \<open>None\<close> then.  On a well-formed page (\<open>page_ok\<close>) no operation
  panics, and the page behaves as the list of its tuples (\<open>page_tuples\<close>).
\<close>

section \<open>Data\<close>

definition page_size :: nat where
  "page_size = 8192"

definition page_header_size :: nat where
  "page_header_size = 24"

definition max_tuple_size :: nat where
  "max_tuple_size = page_size - page_header_size - 8"

definition slot_size :: nat where
  "slot_size = 4"

datatype page_type = PData | PIndex | POverflow | PFreeList | PMetadata

fun page_type_code :: "page_type \<Rightarrow> u8" where
  "page_type_code PData = 1"
| "page_type_code PIndex = 2"
| "page_type_code POverflow = 3"
| "page_type_code PFreeList = 4"
| "page_type_code PMetadata = 5"

definition page_type_from :: "u8 \<Rightarrow> page_type" where
  "page_type_from b =
     (if b = 1 then PData else if b = 2 then PIndex else if b = 3 then POverflow
      else if b = 4 then PFreeList else PMetadata)"

record page_header =
  pg_page_id :: page_id
  pg_page_type :: page_type
  pg_num_slots :: u16
  pg_free_space_start :: u16
  pg_free_space_end :: u16
  pg_flags :: u16

definition page_header_new :: "page_id \<Rightarrow> page_type \<Rightarrow> page_header" where
  "page_header_new pid ty =
     \<lparr>pg_page_id = pid, pg_page_type = ty, pg_num_slots = 0,
      pg_free_space_start = of_nat page_header_size, pg_free_space_end = of_nat page_size, pg_flags = 0\<rparr>"

definition free_space :: "page_header \<Rightarrow> nat" where
  "free_space h = unat (pg_free_space_end h - pg_free_space_start h)"

record slot =
  sl_offset :: u16
  sl_length :: u16

definition slot_is_empty :: "slot \<Rightarrow> bool" where
  "slot_is_empty s \<longleftrightarrow> sl_length s = 0"

record page =
  pg_header :: page_header
  pg_data :: bytes
  pg_pin_count :: u32
  pg_is_dirty :: bool

section \<open>Operations\<close>

definition header_bytes :: "page_header \<Rightarrow> bytes" where
  "header_bytes h =
     put_u64_le (pg_page_id h) @ [page_type_code (pg_page_type h)] @ [0] @ put_u16_le (pg_num_slots h)
     @ put_u16_le (pg_free_space_start h) @ put_u16_le (pg_free_space_end h) @ put_u16_le (pg_flags h)"

definition write_header :: "bytes \<Rightarrow> page_header \<Rightarrow> bytes" where
  "write_header data h = splice data 0 (header_bytes h)"

definition page_new :: "page_id \<Rightarrow> page_type \<Rightarrow> page" where
  "page_new pid ty =
     (let h = page_header_new pid ty in
      \<lparr>pg_header = h, pg_data = write_header (replicate page_size 0) h, pg_pin_count = 0, pg_is_dirty = False\<rparr>)"

definition page_from_bytes :: "bytes \<Rightarrow> page aegis_result" where
  "page_from_bytes data =
     (if length data \<noteq> page_size then
        Inl (Corruption (''Invalid page size: '' @ nat_to_string (length data) @ '' (expected ''
              @ nat_to_string page_size @ '')''))
      else
        let (pid, buf) = get_u64_le data;
            (ty, buf) = get_u8 buf;
            (_, buf) = get_u8 buf;
            (num_slots, buf) = get_u16_le buf;
            (start, buf) = get_u16_le buf;
            (fin, buf) = get_u16_le buf;
            (flags, buf) = get_u16_le buf
        in Inr \<lparr>pg_header = \<lparr>pg_page_id = pid, pg_page_type = page_type_from ty, pg_num_slots = num_slots,
                  pg_free_space_start = start, pg_free_space_end = fin, pg_flags = flags\<rparr>,
                pg_data = data, pg_pin_count = 0, pg_is_dirty = False\<rparr>)"

definition page_to_bytes :: "page \<Rightarrow> bytes" where
  "page_to_bytes p = pg_data p"

definition slot_pos :: "nat \<Rightarrow> nat" where
  "slot_pos i = page_header_size + i * slot_size"

definition read_slot :: "bytes \<Rightarrow> nat \<Rightarrow> slot" where
  "read_slot data i =
     \<lparr>sl_offset = of_nat (le_nat (slice data (slot_pos i) 2)),
      sl_length = of_nat (le_nat (slice data (slot_pos i + 2) 2))\<rparr>"

definition write_slot :: "bytes \<Rightarrow> nat \<Rightarrow> slot \<Rightarrow> bytes" where
  "write_slot data i s =
     splice (splice data (slot_pos i) (put_u16_le (sl_offset s))) (slot_pos i + 2) (put_u16_le (sl_length s))"

definition mark_dirty :: "page \<Rightarrow> page" where
  "mark_dirty p = p\<lparr>pg_is_dirty := True\<rparr>"

definition clear_dirty :: "page \<Rightarrow> page" where
  "clear_dirty p = p\<lparr>pg_is_dirty := False\<rparr>"

definition page_pin :: "page \<Rightarrow> page" where
  "page_pin p = p\<lparr>pg_pin_count := pg_pin_count p + 1\<rparr>"

definition page_unpin :: "page \<Rightarrow> page" where
  "page_unpin p = p\<lparr>pg_pin_count := pg_pin_count p - 1\<rparr>"

definition is_pinned :: "page \<Rightarrow> bool" where
  "is_pinned p \<longleftrightarrow> pg_pin_count p > 0"

definition insert_tuple :: "page \<Rightarrow> bytes \<Rightarrow> (u16 aegis_result \<times> page) option" where
  "insert_tuple p tuple =
     (let h = pg_header p; len = length tuple in
      if len + slot_size > free_space h then Some (Inl (Storage ''Page full''), p)
      else if len > max_tuple_size then Some (Inl (Storage ''Tuple too large''), p)
      else
        let slot_offset = slot_pos (unat (pg_num_slots h));
            tuple_offset = unat (pg_free_space_end h) - len
        in if unat (pg_free_space_end h) < len \<or> tuple_offset + len > length (pg_data p)
              \<or> slot_offset + slot_size > length (pg_data p) then None
           else
             let data1 = splice (pg_data p) tuple_offset tuple;
                 data2 = write_slot data1 (unat (pg_num_slots h))
                   \<lparr>sl_offset = of_nat tuple_offset, sl_length = of_nat len\<rparr>;
                 h' = h\<lparr>pg_num_slots := pg_num_slots h + 1,
                        pg_free_space_start := of_nat (slot_offset + slot_size),
                        pg_free_space_end := of_nat tuple_offset\<rparr>
             in Some (Inr (pg_num_slots h),
                      mark_dirty (p\<lparr>pg_header := h', pg_data := write_header data2 h'\<rparr>)))"

definition read_tuple :: "page \<Rightarrow> u16 \<Rightarrow> bytes aegis_result option" where
  "read_tuple p slot_id =
     (if slot_id \<ge> pg_num_slots (pg_header p) then Some (Inl (Storage ''Invalid slot ID''))
      else
        let s = read_slot (pg_data p) (unat slot_id) in
        if slot_is_empty s then Some (Inl (Storage ''Slot is empty''))
        else if unat (sl_offset s) + unat (sl_length s) > length (pg_data p) then None
        else Some (Inr (slice (pg_data p) (unat (sl_offset s)) (unat (sl_length s)))))"

definition delete_tuple :: "page \<Rightarrow> u16 \<Rightarrow> unit aegis_result \<times> page" where
  "delete_tuple p slot_id =
     (if slot_id \<ge> pg_num_slots (pg_header p) then (Inl (Storage ''Invalid slot ID''), p)
      else (Inr (), mark_dirty (p\<lparr>pg_data := write_slot (pg_data p) (unat slot_id)
                                    \<lparr>sl_offset = 0, sl_length = 0\<rparr>\<rparr>)))"

section \<open>The page as a list of tuples\<close>

lemmas page_consts = page_size_def page_header_size_def max_tuple_size_def slot_size_def slot_pos_def

abbreviation num_slots :: "page \<Rightarrow> nat" where
  "num_slots p \<equiv> unat (pg_num_slots (pg_header p))"

abbreviation data_end :: "page \<Rightarrow> nat" where
  "data_end p \<equiv> unat (pg_free_space_end (pg_header p))"

definition slot_tuple :: "bytes \<Rightarrow> nat \<Rightarrow> bytes" where
  "slot_tuple data i =
     slice data (unat (sl_offset (read_slot data i))) (unat (sl_length (read_slot data i)))"

definition page_tuples :: "page \<Rightarrow> bytes list" where
  "page_tuples p = map (slot_tuple (pg_data p)) [0..<num_slots p]"

text \<open>A slot is empty or points between the end of the free space and the end of the page.\<close>

definition slot_ok :: "bytes \<Rightarrow> nat \<Rightarrow> nat \<Rightarrow> bool" where
  "slot_ok data bound i \<longleftrightarrow>
     sl_length (read_slot data i) = 0
     \<or> bound \<le> unat (sl_offset (read_slot data i))
       \<and> unat (sl_offset (read_slot data i)) + unat (sl_length (read_slot data i)) \<le> page_size"

definition page_ok :: "page \<Rightarrow> bool" where
  "page_ok p \<longleftrightarrow>
     length (pg_data p) = page_size
     \<and> unat (pg_free_space_start (pg_header p)) = slot_pos (num_slots p)
     \<and> slot_pos (num_slots p) \<le> data_end p \<and> data_end p \<le> page_size
     \<and> slice (pg_data p) 0 18 = header_bytes (pg_header p)
     \<and> list_all (slot_ok (pg_data p) (data_end p)) [0..<num_slots p]"

lemma length_header_bytes [simp]: "length (header_bytes h) = 18"
  by (simp add: header_bytes_def)

lemma page_type_from_code [simp]: "page_type_from (page_type_code ty) = ty"
  by (cases ty) (simp_all add: page_type_from_def)

lemma unat_of_nat_u16: "n < 2 ^ 16 \<Longrightarrow> unat (of_nat n :: u16) = n"
  by (simp add: unat_of_nat)

lemma length_write_slot [simp]:
  "slot_pos i + 4 \<le> length data \<Longrightarrow> length (write_slot data i s) = length data"
  by (simp add: write_slot_def)

lemma length_write_header [simp]: "18 \<le> length data \<Longrightarrow> length (write_header data h) = length data"
  by (simp add: write_header_def)

lemma slice_write_slot_before:
  "off + n \<le> slot_pos i \<Longrightarrow> slot_pos i + 4 \<le> length data \<Longrightarrow> slice (write_slot data i s) off n = slice data off n"
  by (simp add: write_slot_def slice_splice_before)

lemma slice_write_slot_after:
  "slot_pos i + 4 \<le> off \<Longrightarrow> slot_pos i + 4 \<le> length data \<Longrightarrow> slice (write_slot data i s) off n = slice data off n"
  by (simp add: write_slot_def slice_splice_after)

lemma slice_write_header:
  "18 \<le> off \<Longrightarrow> 18 \<le> length data \<Longrightarrow> slice (write_header data h) off n = slice data off n"
  by (simp add: write_header_def slice_splice_after)

lemma read_slot_cong:
  "slice data' (slot_pos i) 2 = slice data (slot_pos i) 2 \<Longrightarrow>
   slice data' (slot_pos i + 2) 2 = slice data (slot_pos i + 2) 2 \<Longrightarrow> read_slot data' i = read_slot data i"
  by (simp add: read_slot_def)

lemma read_write_slot:
  assumes "slot_pos i + 4 \<le> length data"
  shows "read_slot (write_slot data i s) i = s"
proof -
  have "slice (write_slot data i s) (slot_pos i) 2 = put_u16_le (sl_offset s)"
    using assms by (simp add: write_slot_def slice_splice_before)
  moreover have "slice (write_slot data i s) (slot_pos i + 2) 2 = put_u16_le (sl_length s)"
    using assms by (simp add: write_slot_def)
  ultimately show ?thesis by (simp add: read_slot_def le_nat_put)
qed

lemma read_other_slot:
  assumes "j \<noteq> i" "slot_pos i + 4 \<le> length data"
  shows "read_slot (write_slot data i s) j = read_slot data j"
proof (cases "j < i")
  case True
  then have "slot_pos j + 4 \<le> slot_pos i" by (simp add: page_consts)
  with assms show ?thesis by (intro read_slot_cong) (simp_all add: slice_write_slot_before)
next
  case False
  then have "slot_pos i + 4 \<le> slot_pos j" using assms(1) by (simp add: page_consts)
  with assms show ?thesis by (intro read_slot_cong) (simp_all add: slice_write_slot_after)
qed

lemma page_okD:
  assumes "page_ok p"
  shows "length (pg_data p) = 8192" "slot_pos (num_slots p) \<le> data_end p" "data_end p \<le> 8192"
    "slice (pg_data p) 0 18 = header_bytes (pg_header p)"
    "i < num_slots p \<Longrightarrow> slot_ok (pg_data p) (data_end p) i"
    "free_space (pg_header p) = data_end p - slot_pos (num_slots p)"
    "i < num_slots p \<Longrightarrow> slot_pos i + 4 \<le> 8192"
proof -
  let ?h = "pg_header p"
  have "pg_free_space_start ?h \<le> pg_free_space_end ?h"
    using assms by (simp add: page_ok_def word_le_nat_alt)
  then show "free_space ?h = data_end p - slot_pos (num_slots p)"
    using assms by (simp add: free_space_def page_ok_def unat_sub)
  show "i < num_slots p \<Longrightarrow> slot_pos i + 4 \<le> 8192"
    using assms by (simp add: page_ok_def page_consts)
qed (use assms in \<open>simp_all add: page_ok_def page_size_def list_all_iff\<close>)

lemma page_ok_new: "page_ok (page_new pid ty)"
  by (simp add: page_ok_def page_new_def Let_def write_header_def page_header_new_def page_consts splice_def)

lemma page_tuples_new: "page_tuples (page_new pid ty) = []"
  by (simp add: page_tuples_def page_new_def page_header_new_def Let_def)

text \<open>What an insertion does, on a well-formed page with enough room.\<close>

lemma insert_tuple_ok:
  assumes ok: "page_ok p" and room: "length t + 4 \<le> free_space (pg_header p)" "length t \<le> max_tuple_size"
  shows "\<exists>p'. insert_tuple p t = Some (Inr (pg_num_slots (pg_header p)), p')
    \<and> page_ok p' \<and> page_tuples p' = page_tuples p @ [t] \<and> num_slots p' = num_slots p + 1
    \<and> data_end p' = data_end p - length t"
proof -
  let ?h = "pg_header p" and ?n = "num_slots p" and ?e = "data_end p"
  define ofs where "ofs = ?e - length t"
  let ?s = "\<lparr>sl_offset = of_nat ofs, sl_length = of_nat (length t)\<rparr> :: slot"
  note d = page_okD [OF ok]
  have bounds: "slot_pos ?n + 4 \<le> ofs" "ofs + length t = ?e" "length t \<le> ?e" "?e \<le> 8192"
    using room(1) d(2,3,6) by (auto simp: ofs_def)
  have n: "?n < 2048" using bounds by (simp add: page_consts)
  define data1 where "data1 = splice (pg_data p) ofs t"
  define data2 where "data2 = write_slot data1 ?n ?s"
  define h' where "h' = ?h\<lparr>pg_num_slots := pg_num_slots ?h + 1,
      pg_free_space_start := of_nat (slot_pos ?n + slot_size), pg_free_space_end := of_nat ofs\<rparr>"
  define p' where "p' = mark_dirty (p\<lparr>pg_header := h', pg_data := write_header data2 h'\<rparr>)"
  have ins: "insert_tuple p t = Some (Inr (pg_num_slots ?h), p')"
    using room d(1) bounds
    by (simp add: insert_tuple_def Let_def slot_size_def p'_def h'_def data2_def data1_def flip: ofs_def)
  have len: "length data1 = 8192" "length data2 = 8192"
    using bounds d(1) by (simp_all add: data1_def data2_def)
  have num: "unat (pg_num_slots h') = ?n + 1" using n by (simp add: h'_def unat_word_ariths)
  have fin: "unat (pg_free_space_end h') = ofs" using bounds by (simp add: h'_def unat_of_nat_u16)
  have start: "unat (pg_free_space_start h') = slot_pos (?n + 1)"
  proof -
    have "unat (of_nat (slot_pos ?n + slot_size) :: u16) = slot_pos ?n + slot_size"
      using bounds by (intro unat_of_nat_u16) (simp add: slot_size_def)
    then show ?thesis by (simp only: h'_def page_header.simps) (simp add: page_consts)
  qed
  have old: "read_slot (write_header data2 h') i = read_slot (pg_data p) i" if "i < ?n" for i
  proof -
    have i: "slot_pos i + 4 \<le> slot_pos ?n" "18 \<le> slot_pos i" using that by (simp_all add: page_consts)
    have "read_slot (write_header data2 h') i = read_slot data2 i"
      using i len by (intro read_slot_cong) (simp_all add: slice_write_header)
    also have "\<dots> = read_slot data1 i"
      unfolding data2_def using that bounds len by (intro read_other_slot) auto
    also have "\<dots> = read_slot (pg_data p) i"
      unfolding data1_def using i bounds d(1) by (intro read_slot_cong) (simp_all add: slice_splice_before)
    finally show ?thesis .
  qed
  have new: "read_slot (write_header data2 h') ?n = ?s"
  proof -
    have "read_slot (write_header data2 h') ?n = read_slot data2 ?n"
      using len by (intro read_slot_cong) (simp_all add: slice_write_header page_consts)
    then show ?thesis unfolding data2_def using bounds len by (simp add: read_write_slot)
  qed
  have tail: "slice (write_header data2 h') off k = slice data1 off k" if "ofs \<le> off" for off k
    using that bounds len by (simp add: slice_write_header slice_write_slot_after data2_def page_consts)
  have new_tuple: "slot_tuple (write_header data2 h') ?n = t"
    using bounds d(1) by (simp add: slot_tuple_def new tail unat_of_nat_u16) (simp add: data1_def)
  have old_tuple: "slot_tuple (write_header data2 h') i = slot_tuple (pg_data p) i" if "i < ?n" for i
  proof (cases "sl_length (read_slot (pg_data p) i) = 0")
    case False
    with d(5) [OF that] have "?e \<le> unat (sl_offset (read_slot (pg_data p) i))" by (simp add: slot_ok_def)
    then show ?thesis using bounds d(1)
      by (simp add: slot_tuple_def old [OF that] tail) (simp add: data1_def slice_splice_after)
  qed (simp add: slot_tuple_def old [OF that])
  have slots: "slot_ok (write_header data2 h') ofs i" if "i < ?n + 1" for i
  proof (cases "i = ?n")
    case True
    then show ?thesis using new bounds by (simp add: slot_ok_def unat_of_nat_u16 page_size_def)
  next
    case False
    with that d(5) [of i] old [of i] bounds show ?thesis by (auto simp: slot_ok_def)
  qed
  have "page_ok p'"
    using len num fin start slots bounds
    by (simp add: page_ok_def p'_def mark_dirty_def page_size_def list_all_iff write_header_def)
       (simp add: page_consts splice_def)
  moreover have "page_tuples p' = page_tuples p @ [t]"
    using new_tuple old_tuple num by (simp add: page_tuples_def p'_def mark_dirty_def)
  ultimately show ?thesis using ins num fin by (auto simp: p'_def mark_dirty_def ofs_def)
qed

lemma slot_tuple_length:
  assumes "page_ok p" "i < num_slots p"
  shows "slot_tuple (pg_data p) i = [] \<longleftrightarrow> sl_length (read_slot (pg_data p) i) = 0"
  using page_okD(1) [OF assms(1)] page_okD(5) [OF assms]
  by (auto simp: slot_tuple_def slot_ok_def page_size_def unat_eq_0 simp flip: length_0_conv)

lemma read_tuple_ok:
  assumes "page_ok p"
  shows "read_tuple p i =
    Some (if unat i < num_slots p
          then (if page_tuples p ! unat i = [] then Inl (Storage ''Slot is empty'') else Inr (page_tuples p ! unat i))
          else Inl (Storage ''Invalid slot ID''))"
proof (cases "unat i < num_slots p")
  case True
  then have "page_tuples p ! unat i = slot_tuple (pg_data p) (unat i)" by (simp add: page_tuples_def)
  moreover have "unat (sl_offset (read_slot (pg_data p) (unat i))) + unat (sl_length (read_slot (pg_data p) (unat i)))
      \<le> length (pg_data p)" if "sl_length (read_slot (pg_data p) (unat i)) \<noteq> 0"
    using that page_okD(5) [OF assms True] page_okD(1) [OF assms] by (auto simp: slot_ok_def page_size_def)
  ultimately show ?thesis
    using True slot_tuple_length [OF assms True]
    by (auto simp: read_tuple_def Let_def slot_is_empty_def word_le_nat_alt) (simp add: slot_tuple_def)
next
  case False
  then show ?thesis by (simp add: read_tuple_def word_le_nat_alt)
qed

lemma delete_tuple_ok:
  assumes ok: "page_ok p" and i: "unat i < num_slots p"
  shows "fst (delete_tuple p i) = Inr () \<and> page_ok (snd (delete_tuple p i))
    \<and> page_tuples (snd (delete_tuple p i)) = (page_tuples p)[unat i := []]"
proof -
  note d = page_okD [OF ok]
  let ?data = "write_slot (pg_data p) (unat i) \<lparr>sl_offset = 0, sl_length = 0\<rparr>"
  have pos: "slot_pos (unat i) + 4 \<le> length (pg_data p)" using d(7) [OF i] d(1) by simp
  have lt: "slot_pos (unat i) + 4 \<le> data_end p" using d(2) i by (simp add: page_consts)
  have eq: "delete_tuple p i = (Inr (), mark_dirty (p\<lparr>pg_data := ?data\<rparr>))"
    using i by (simp add: delete_tuple_def word_le_nat_alt)
  have here: "read_slot ?data (unat i) = \<lparr>sl_offset = 0, sl_length = 0\<rparr>" using pos by (rule read_write_slot)
  have there: "read_slot ?data j = read_slot (pg_data p) j" if "j \<noteq> unat i" for j
    using that pos by (rule read_other_slot)
  have "slot_ok ?data (data_end p) j" if "j < num_slots p" for j
    using d(5) [OF that] here there [of j] by (cases "j = unat i") (auto simp: slot_ok_def)
  moreover have "slice ?data 0 18 = slice (pg_data p) 0 18"
    using pos by (intro slice_write_slot_before) (simp_all add: page_consts)
  ultimately have "page_ok (mark_dirty (p\<lparr>pg_data := ?data\<rparr>))"
    using ok pos by (simp add: page_ok_def mark_dirty_def list_all_iff)
  moreover have "slot_tuple ?data j = (if j = unat i then [] else slot_tuple (pg_data p) j)" if "j < num_slots p" for j
  proof (cases "j = unat i \<or> sl_length (read_slot (pg_data p) j) = 0")
    case True
    then show ?thesis using here there [of j] by (auto simp: slot_tuple_def)
  next
    case False
    then have "data_end p \<le> unat (sl_offset (read_slot (pg_data p) j))" using d(5) [OF that] by (simp add: slot_ok_def)
    with False lt pos there [of j] show ?thesis by (simp add: slot_tuple_def slice_write_slot_after)
  qed
  then have "page_tuples (mark_dirty (p\<lparr>pg_data := ?data\<rparr>)) = (page_tuples p)[unat i := []]"
    by (intro nth_equalityI) (auto simp: page_tuples_def mark_dirty_def nth_list_update)
  ultimately show ?thesis by (simp add: eq)
qed

text \<open>C11: A page is the list of its tuples.  On a well-formed page no operation panics; reading a
  slot returns its tuple (or the error for an empty or unknown slot), insertion appends the tuple
  and returns its slot or leaves the page alone when it is full, deletion empties one slot and
  moves no other, and every operation keeps the page well-formed, starting with a new page.\<close>

theorem page_operations_refine:
  assumes "page_ok p"
  shows "(\<forall>i. read_tuple p i =
            Some (if unat i < length (page_tuples p)
                  then (if page_tuples p ! unat i = [] then Inl (Storage ''Slot is empty'')
                        else Inr (page_tuples p ! unat i))
                  else Inl (Storage ''Invalid slot ID'')))
    \<and> (\<exists>res p'. insert_tuple p t = Some (res, p') \<and> page_ok p'
         \<and> (if length t + 4 \<le> data_end p - slot_pos (num_slots p) \<and> length t \<le> max_tuple_size
            then res = Inr (of_nat (length (page_tuples p))) \<and> page_tuples p' = page_tuples p @ [t]
            else isl res \<and> p' = p))
    \<and> (\<forall>i. page_ok (snd (delete_tuple p i))
         \<and> (if unat i < length (page_tuples p)
            then page_tuples (snd (delete_tuple p i)) = (page_tuples p)[unat i := []]
            else delete_tuple p i = (Inl (Storage ''Invalid slot ID''), p)))
    \<and> page_ok (page_new pid ty) \<and> page_tuples (page_new pid ty) = []"
proof -
  have len: "length (page_tuples p) = num_slots p" by (simp add: page_tuples_def)
  have fs: "free_space (pg_header p) = data_end p - slot_pos (num_slots p)" by (rule page_okD(6) [OF assms])
  have ins: "\<exists>res p'. insert_tuple p t = Some (res, p') \<and> page_ok p'
         \<and> (if length t + 4 \<le> data_end p - slot_pos (num_slots p) \<and> length t \<le> max_tuple_size
            then res = Inr (of_nat (length (page_tuples p))) \<and> page_tuples p' = page_tuples p @ [t]
            else isl res \<and> p' = p)"
  proof (cases "length t + 4 \<le> data_end p - slot_pos (num_slots p) \<and> length t \<le> max_tuple_size")
    case True
    with insert_tuple_ok [OF assms, of t] fs len show ?thesis by auto
  next
    case False
    with assms fs show ?thesis by (auto simp: insert_tuple_def Let_def slot_size_def not_le)
  qed
  have del: "page_ok (snd (delete_tuple p i)) \<and> (if unat i < length (page_tuples p)
      then page_tuples (snd (delete_tuple p i)) = (page_tuples p)[unat i := []]
      else delete_tuple p i = (Inl (Storage ''Invalid slot ID''), p))" for i
    using delete_tuple_ok [OF assms, of i] assms len by (auto simp: delete_tuple_def word_le_nat_alt)
  show ?thesis
    using read_tuple_ok [OF assms] ins del page_ok_new page_tuples_new unfolding len by blast
qed

theorem page_operations_refine_witness:
  "\<exists>p'. insert_tuple (page_new 1 PData) [1, 2] = Some (Inr 0, p') \<and> read_tuple p' 0 = Some (Inr [1, 2])
     \<and> read_tuple p' 1 = Some (Inl (Storage ''Invalid slot ID''))"
proof -
  let ?p = "page_new 1 PData"
  have "length [1, 2 :: u8] + 4 \<le> data_end ?p - slot_pos (num_slots ?p)" "length [1, 2 :: u8] \<le> max_tuple_size"
    by (simp_all add: page_new_def page_header_new_def Let_def page_consts)
  with page_operations_refine [OF page_ok_new, of 1 PData "[1, 2]" 1 PData] obtain p' where
    p': "insert_tuple ?p [1, 2] = Some (Inr (of_nat (length (page_tuples ?p))), p')" "page_ok p'"
      "page_tuples p' = page_tuples ?p @ [[1, 2]]" by auto
  moreover have "page_tuples ?p = []" by (rule page_tuples_new)
  ultimately show ?thesis using page_operations_refine [OF p'(2)] by auto
qed

text \<open>C35: Writing a well-formed page and reading it back gives the same header, bytes and tuples;
  bytes of any other length are refused as corrupt.\<close>

theorem page_bytes_roundtrip:
  assumes "page_ok p"
  shows "page_from_bytes (page_to_bytes p) = Inr (p\<lparr>pg_pin_count := 0, pg_is_dirty := False\<rparr>)
    \<and> (length bs \<noteq> 8192 \<longrightarrow> (\<exists>msg. page_from_bytes bs = Inl (Corruption msg)))"
proof -
  note d = page_okD [OF assms]
  have "pg_data p = header_bytes (pg_header p) @ drop 18 (pg_data p)"
    using d(4) by (metis append_take_drop_id drop_0)
  then have "pg_data p = put_u64_le (pg_page_id (pg_header p)) @ page_type_code (pg_page_type (pg_header p)) # 0
      # put_u16_le (pg_num_slots (pg_header p)) @ put_u16_le (pg_free_space_start (pg_header p))
      @ put_u16_le (pg_free_space_end (pg_header p)) @ put_u16_le (pg_flags (pg_header p)) @ drop 18 (pg_data p)"
    by (simp only: header_bytes_def append_assoc append_Cons append_Nil)
  then obtain rest where data: "pg_data p = put_u64_le (pg_page_id (pg_header p))
      @ page_type_code (pg_page_type (pg_header p)) # 0
      # put_u16_le (pg_num_slots (pg_header p)) @ put_u16_le (pg_free_space_start (pg_header p))
      @ put_u16_le (pg_free_space_end (pg_header p)) @ put_u16_le (pg_flags (pg_header p)) @ rest" by blast
  have "length (page_to_bytes p) = page_size" using d(1) by (simp add: page_to_bytes_def page_size_def)
  then have "page_from_bytes (page_to_bytes p) = Inr (p\<lparr>pg_pin_count := 0, pg_is_dirty := False\<rparr>)"
    by (simp add: page_from_bytes_def) (simp add: page_to_bytes_def data)
  then show ?thesis by (auto simp: page_from_bytes_def page_size_def)
qed

theorem page_bytes_roundtrip_witness:
  "page_from_bytes (page_to_bytes (page_new 3 PIndex)) = Inr (page_new 3 PIndex)"
  using page_bytes_roundtrip [OF page_ok_new, of 3 PIndex "[]"] by (simp add: page_new_def Let_def)

end
