(* ===== verification/BufferPool.thy ===== *)
theory BufferPool
  imports Page
begin

text \<open>
  The buffer pool, \<^verbatim>\<open>crates/aegis-storage/src/buffer.rs\<close>: frames that hold pages, the page
  table, the free list and the LRU list.  A page handle is the index of its frame with the page
  identifier; dropping it unpins whatever page the frame holds.  Each method is one atomic step.
\<close>

section \<open>Data\<close>

record buffer_frame =
  fr_page :: "page option"
  fr_page_id :: "page_id option"

definition frame_new :: buffer_frame where
  "frame_new = \<lparr>fr_page = None, fr_page_id = None\<rparr>"

record buffer_pool =
  bp_frames :: "buffer_frame list"
  bp_page_table :: "(page_id, nat) hmap"
  bp_free_list :: "nat list"
  bp_lru_list :: "nat list"
  bp_pool_size :: nat

definition pool_new :: "nat \<Rightarrow> buffer_pool" where
  "pool_new n =
     \<lparr>bp_frames = replicate n frame_new, bp_page_table = [], bp_free_list = [0..<n], bp_lru_list = [],
      bp_pool_size = n\<rparr>"

record page_handle =
  hd_frame :: nat
  hd_page_id :: page_id

section \<open>Operations\<close>

definition frame_pinned :: "buffer_frame \<Rightarrow> bool" where
  "frame_pinned f = (case fr_page f of None \<Rightarrow> False | Some p \<Rightarrow> is_pinned p)"

definition update_lru :: "buffer_pool \<Rightarrow> nat \<Rightarrow> buffer_pool" where
  "update_lru s i = s\<lparr>bp_lru_list := filter (\<lambda>j. j \<noteq> i) (bp_lru_list s) @ [i]\<rparr>"

text \<open>The loop of \<^verbatim>\<open>evict_page\<close>, which runs once per entry of the LRU list.\<close>

fun evict_loop :: "nat \<Rightarrow> buffer_pool \<Rightarrow> nat aegis_result \<times> buffer_pool" where
  "evict_loop 0 s = (Inl (ResourceExhausted ''No evictable pages in buffer pool''), s)"
| "evict_loop (Suc n) s =
     (case bp_lru_list s of
        [] \<Rightarrow> evict_loop n s
      | i # rest \<Rightarrow>
          let f = bp_frames s ! i in
          if frame_pinned f then evict_loop n (s\<lparr>bp_lru_list := rest @ [i]\<rparr>)
          else (Inr i,
                s\<lparr>bp_lru_list := rest,
                  bp_page_table := (case fr_page_id f of
                    None \<Rightarrow> bp_page_table s | Some pid \<Rightarrow> hm_remove pid (bp_page_table s)),
                  bp_frames := (bp_frames s)[i := frame_new]\<rparr>))"

definition evict_page :: "buffer_pool \<Rightarrow> nat aegis_result \<times> buffer_pool" where
  "evict_page s = evict_loop (length (bp_lru_list s)) s"

definition get_free_frame :: "buffer_pool \<Rightarrow> nat aegis_result \<times> buffer_pool" where
  "get_free_frame s =
     (case bp_free_list s of
        i # rest \<Rightarrow> (Inr i, s\<lparr>bp_free_list := rest\<rparr>)
      | [] \<Rightarrow> evict_page s)"

text \<open>The common end of \<^verbatim>\<open>fetch_page\<close> and \<^verbatim>\<open>new_page\<close>: put a new, pinned page into a
  free frame.\<close>

definition install_page ::
    "buffer_pool \<Rightarrow> page_id \<Rightarrow> page_type \<Rightarrow> page_handle aegis_result \<times> buffer_pool" where
  "install_page s pid ty =
     (case get_free_frame s of
        (Inl e, s1) \<Rightarrow> (Inl e, s1)
      | (Inr i, s1) \<Rightarrow>
          (Inr \<lparr>hd_frame = i, hd_page_id = pid\<rparr>,
           update_lru (s1\<lparr>bp_frames := (bp_frames s1)
               [i := \<lparr>fr_page = Some (page_pin (page_new pid ty)), fr_page_id = Some pid\<rparr>],
             bp_page_table := hm_insert pid i (bp_page_table s1)\<rparr>) i))"

definition fetch_page :: "buffer_pool \<Rightarrow> page_id \<Rightarrow> page_handle aegis_result \<times> buffer_pool" where
  "fetch_page s pid =
     (case hm_get (bp_page_table s) pid of
        Some i \<Rightarrow>
          (case fr_page (bp_frames s ! i) of
             Some p \<Rightarrow>
               (Inr \<lparr>hd_frame = i, hd_page_id = pid\<rparr>,
                update_lru (s\<lparr>bp_frames := (bp_frames s)
                  [i := (bp_frames s ! i)\<lparr>fr_page := Some (page_pin p)\<rparr>]\<rparr>) i)
           | None \<Rightarrow> install_page s pid PData)
      | None \<Rightarrow> install_page s pid PData)"

definition pool_new_page :: "buffer_pool \<Rightarrow> page_id \<Rightarrow> page_type \<Rightarrow> page_handle aegis_result \<times> buffer_pool" where
  "pool_new_page s pid ty =
     (if hm_contains (bp_page_table s) pid
      then (Inl (Storage (''Page '' @ u64_to_string pid @ '' already exists'')), s)
      else install_page s pid ty)"

definition flush_page :: "buffer_pool \<Rightarrow> page_id \<Rightarrow> page option aegis_result \<times> buffer_pool" where
  "flush_page s pid =
     (case hm_get (bp_page_table s) pid of
        None \<Rightarrow> (Inr None, s)
      | Some i \<Rightarrow>
          (case fr_page (bp_frames s ! i) of
             None \<Rightarrow> (Inr None, s)
           | Some p \<Rightarrow>
               if \<not> pg_is_dirty p then (Inr None, s)
               else case page_from_bytes (page_to_bytes p) of
                      Inl e \<Rightarrow> (Inl e, s)
                    | Inr cloned \<Rightarrow>
                        (Inr (Some cloned),
                         s\<lparr>bp_frames := (bp_frames s)[i := (bp_frames s ! i)\<lparr>fr_page := Some (clear_dirty p)\<rparr>]\<rparr>)))"

definition unpin_frame :: "buffer_pool \<Rightarrow> nat \<Rightarrow> buffer_pool" where
  "unpin_frame s i =
     (case fr_page (bp_frames s ! i) of
        None \<Rightarrow> s
      | Some p \<Rightarrow> s\<lparr>bp_frames := (bp_frames s)[i := (bp_frames s ! i)\<lparr>fr_page := Some (page_unpin p)\<rparr>]\<rparr>)"

definition unpin_page :: "buffer_pool \<Rightarrow> page_id \<Rightarrow> buffer_pool" where
  "unpin_page s pid =
     (case hm_get (bp_page_table s) pid of None \<Rightarrow> s | Some i \<Rightarrow> unpin_frame s i)"

definition handle_drop :: "buffer_pool \<Rightarrow> page_handle \<Rightarrow> buffer_pool" where
  "handle_drop s h = unpin_frame s (hd_frame h)"

text \<open>Writing through a handle.\<close>

definition handle_write :: "buffer_pool \<Rightarrow> page_handle \<Rightarrow> (page \<Rightarrow> page) \<Rightarrow> buffer_pool option" where
  "handle_write s h g =
     (case fr_page (bp_frames s ! hd_frame h) of
        None \<Rightarrow> None
      | Some p \<Rightarrow> Some (s\<lparr>bp_frames := (bp_frames s)
          [hd_frame h := (bp_frames s ! hd_frame h)\<lparr>fr_page := Some (g p)\<rparr>]\<rparr>))"

record pool_stats =
  st_total_frames :: nat
  st_used_frames :: nat
  st_free_frames :: nat
  st_dirty_pages :: nat
  st_pinned_pages :: nat

definition pool_stats_of :: "buffer_pool \<Rightarrow> pool_stats" where
  "pool_stats_of s =
     (let count = (\<lambda>P. length (filter (\<lambda>i. case fr_page (bp_frames s ! i) of None \<Rightarrow> False | Some p \<Rightarrow> P p)
            (hm_values (bp_page_table s))))
      in \<lparr>st_total_frames = bp_pool_size s, st_used_frames = hm_len (bp_page_table s),
          st_free_frames = length (bp_free_list s), st_dirty_pages = count pg_is_dirty,
          st_pinned_pages = count is_pinned\<rparr>)"

section \<open>The invariant\<close>

text \<open>Every frame is free or in use; a frame in use holds the page the page table says.\<close>

definition pool_ok :: "buffer_pool \<Rightarrow> bool" where
  "pool_ok s \<longleftrightarrow>
     length (bp_frames s) = bp_pool_size s
     \<and> hm_ok (bp_page_table s)
     \<and> distinct (bp_free_list s @ bp_lru_list s)
     \<and> set (bp_free_list s @ bp_lru_list s) = {0..<bp_pool_size s}
     \<and> (\<forall>i \<in> set (bp_free_list s). bp_frames s ! i = frame_new)
     \<and> (\<forall>i \<in> set (bp_lru_list s). \<exists>p pid. bp_frames s ! i = \<lparr>fr_page = Some p, fr_page_id = Some pid\<rparr>
          \<and> pg_page_id (pg_header p) = pid \<and> hm_get (bp_page_table s) pid = Some i)
     \<and> (\<forall>pid i. hm_get (bp_page_table s) pid = Some i \<longrightarrow>
          i \<in> set (bp_lru_list s) \<and> fr_page_id (bp_frames s ! i) = Some pid)"

lemma pool_ok_new: "pool_ok (pool_new n)"
  by (auto simp: pool_ok_def pool_new_def)

lemma pool_okD:
  assumes "pool_ok s"
  shows "i \<in> set (bp_lru_list s) \<Longrightarrow> i < length (bp_frames s)"
    and "hm_get (bp_page_table s) pid = Some i \<Longrightarrow>
      i \<in> set (bp_lru_list s) \<and> (\<exists>p. bp_frames s ! i = \<lparr>fr_page = Some p, fr_page_id = Some pid\<rparr>
        \<and> pg_page_id (pg_header p) = pid)"
proof -
  show "i \<in> set (bp_lru_list s) \<Longrightarrow> i < length (bp_frames s)"
    using assms unfolding pool_ok_def by (metis Un_iff atLeastLessThan_iff set_append)
  assume "hm_get (bp_page_table s) pid = Some i"
  then have i: "i \<in> set (bp_lru_list s)" "fr_page_id (bp_frames s ! i) = Some pid"
    using assms by (auto simp: pool_ok_def)
  then obtain p pid' where "bp_frames s ! i = \<lparr>fr_page = Some p, fr_page_id = Some pid'\<rparr>"
      "pg_page_id (pg_header p) = pid'"
    using assms unfolding pool_ok_def by blast
  with i show "i \<in> set (bp_lru_list s) \<and> (\<exists>p. bp_frames s ! i = \<lparr>fr_page = Some p, fr_page_id = Some pid\<rparr>
      \<and> pg_page_id (pg_header p) = pid)" by auto
qed

text \<open>Eviction takes the first unpinned frame of the LRU list and moves the pinned ones before
  it to the back; with only pinned frames it fails and leaves the pool as it was.\<close>

lemma evict_loop_spec:
  assumes "bp_lru_list s = xs @ ys" "\<forall>i \<in> set xs. frame_pinned (bp_frames s ! i)"
  shows "evict_loop (length xs + k) s = evict_loop k (s\<lparr>bp_lru_list := ys @ xs\<rparr>)"
  using assms
proof (induction xs arbitrary: ys s)
  case (Cons x xs)
  let ?s = "s\<lparr>bp_lru_list := xs @ ys @ [x]\<rparr>"
  have "evict_loop (length (x # xs) + k) s = evict_loop (length xs + k) ?s"
    using Cons.prems by (simp add: Let_def)
  also have "\<dots> = evict_loop k (?s\<lparr>bp_lru_list := (ys @ [x]) @ xs\<rparr>)"
    by (rule Cons.IH) (use Cons.prems in simp_all)
  finally show ?case by simp
next
  case Nil
  then have "s\<lparr>bp_lru_list := ys @ []\<rparr> = s" by (intro buffer_pool.equality) simp_all
  then show ?case by simp
qed

lemma evict_page_cases:
  obtains (full) "\<forall>i \<in> set (bp_lru_list s). frame_pinned (bp_frames s ! i)"
      "evict_page s = (Inl (ResourceExhausted ''No evictable pages in buffer pool''), s)"
  | (evicted) xs i ys where "bp_lru_list s = xs @ i # ys" "\<forall>j \<in> set xs. frame_pinned (bp_frames s ! j)"
      "\<not> frame_pinned (bp_frames s ! i)"
      "evict_page s = (Inr i, s\<lparr>bp_lru_list := ys @ xs,
         bp_page_table := (case fr_page_id (bp_frames s ! i) of
            None \<Rightarrow> bp_page_table s | Some pid \<Rightarrow> hm_remove pid (bp_page_table s)),
         bp_frames := (bp_frames s)[i := frame_new]\<rparr>)"
proof (cases "\<forall>i \<in> set (bp_lru_list s). frame_pinned (bp_frames s ! i)")
  case True
  moreover have "evict_page s = (Inl (ResourceExhausted ''No evictable pages in buffer pool''), s)"
    using evict_loop_spec [of s "bp_lru_list s" "[]" 0] True by (simp add: evict_page_def)
  ultimately show ?thesis by (rule full)
next
  case False
  then obtain xs i ys where lru: "bp_lru_list s = xs @ i # ys" "\<not> frame_pinned (bp_frames s ! i)"
      "\<forall>j \<in> set xs. frame_pinned (bp_frames s ! j)"
    using split_list_first_prop [of "bp_lru_list s" "\<lambda>i. \<not> frame_pinned (bp_frames s ! i)"] by auto
  have "evict_page s = evict_loop (Suc (length ys)) (s\<lparr>bp_lru_list := (i # ys) @ xs\<rparr>)"
    using evict_loop_spec [of s xs "i # ys" "Suc (length ys)"] lru by (simp add: evict_page_def)
  then show ?thesis using lru by (intro evicted [of xs i ys]) (simp_all add: Let_def split: option.splits)
qed

text \<open>The state between taking a frame and filling it: everything holds but the frame \<open>i\<close> is in
  neither list and holds nothing.\<close>

definition taken_ok :: "buffer_pool \<Rightarrow> nat \<Rightarrow> bool" where
  "taken_ok s i \<longleftrightarrow>
     length (bp_frames s) = bp_pool_size s \<and> i < bp_pool_size s
     \<and> hm_ok (bp_page_table s)
     \<and> distinct (bp_free_list s @ bp_lru_list s)
     \<and> set (bp_free_list s @ bp_lru_list s) = {0..<bp_pool_size s} - {i}
     \<and> (\<forall>j \<in> set (bp_free_list s). bp_frames s ! j = frame_new)
     \<and> (\<forall>j \<in> set (bp_lru_list s). \<exists>p pid. bp_frames s ! j = \<lparr>fr_page = Some p, fr_page_id = Some pid\<rparr>
          \<and> pg_page_id (pg_header p) = pid \<and> hm_get (bp_page_table s) pid = Some j)
     \<and> (\<forall>pid j. hm_get (bp_page_table s) pid = Some j \<longrightarrow>
          j \<in> set (bp_lru_list s) \<and> fr_page_id (bp_frames s ! j) = Some pid)"

text \<open>What taking a frame leaves untouched: absent pages stay absent, pinned pages stay where
  they are.\<close>

definition keeps :: "buffer_pool \<Rightarrow> buffer_pool \<Rightarrow> bool" where
  "keeps s s1 \<longleftrightarrow>
     (\<forall>pid. hm_get (bp_page_table s) pid = None \<longrightarrow> hm_get (bp_page_table s1) pid = None)
     \<and> (\<forall>pid j. hm_get (bp_page_table s) pid = Some j \<longrightarrow> frame_pinned (bp_frames s ! j) \<longrightarrow>
          hm_get (bp_page_table s1) pid = Some j \<and> bp_frames s1 ! j = bp_frames s ! j)
     \<and> bp_pool_size s1 = bp_pool_size s"

lemma evicted_ok:
  assumes ok: "pool_ok s" "bp_free_list s = []" and lru: "bp_lru_list s = xs @ i # ys"
    and np: "\<not> frame_pinned (bp_frames s ! i)"
  shows "let s1 = s\<lparr>bp_lru_list := ys @ xs,
         bp_page_table := (case fr_page_id (bp_frames s ! i) of
            None \<Rightarrow> bp_page_table s | Some pid \<Rightarrow> hm_remove pid (bp_page_table s)),
         bp_frames := (bp_frames s)[i := frame_new]\<rparr>
       in taken_ok s1 i \<and> keeps s s1"
proof -
  obtain p pid0 where f: "bp_frames s ! i = \<lparr>fr_page = Some p, fr_page_id = Some pid0\<rparr>"
      "hm_get (bp_page_table s) pid0 = Some i"
    using ok(1) lru unfolding pool_ok_def by fastforce
  let ?t = "hm_remove pid0 (bp_page_table s)"
  have i: "i < length (bp_frames s)" using pool_okD(1) [OF ok(1)] lru by simp
  have dist: "distinct (xs @ i # ys)" and all: "set (xs @ i # ys) = {0..<bp_pool_size s}"
    using ok lru by (auto simp: pool_ok_def)
  have table: "hm_get ?t pid = Some j \<longleftrightarrow> hm_get (bp_page_table s) pid = Some j \<and> j \<noteq> i" for pid j
    using f pool_okD(2) [OF ok(1), of pid j] by (auto simp: hm_simps)
  have other: "\<exists>p pid. bp_frames s ! j = \<lparr>fr_page = Some p, fr_page_id = Some pid\<rparr>
      \<and> pg_page_id (pg_header p) = pid \<and> hm_get ?t pid = Some j" if "j \<in> set (ys @ xs)" for j
  proof -
    have "j \<in> set (bp_lru_list s)" "j \<noteq> i" using that lru dist by auto
    then show ?thesis using ok(1) table unfolding pool_ok_def by blast
  qed
  let ?fs = "(bp_frames s)[i := frame_new]"
  have same: "?fs ! j = bp_frames s ! j" if "j \<in> set (ys @ xs)" for j
    using that dist by (subst nth_list_update_neq) auto
  have "\<forall>pid j. hm_get ?t pid = Some j \<longrightarrow> j \<in> set (ys @ xs) \<and> fr_page_id (?fs ! j) = Some pid"
  proof (intro allI impI)
    fix pid j
    assume "hm_get ?t pid = Some j"
    then have "j \<in> set (ys @ xs)" "fr_page_id (bp_frames s ! j) = Some pid"
      using pool_okD(2) [OF ok(1), of pid j] table [of pid j] lru by auto
    then show "j \<in> set (ys @ xs) \<and> fr_page_id (?fs ! j) = Some pid" using same by simp
  qed
  moreover have "\<forall>j \<in> set (ys @ xs). \<exists>p pid. ?fs ! j = \<lparr>fr_page = Some p, fr_page_id = Some pid\<rparr>
      \<and> pg_page_id (pg_header p) = pid \<and> hm_get ?t pid = Some j"
    using other same by metis
  moreover have "hm_ok ?t" "length (bp_frames s) = bp_pool_size s"
    using ok(1) by (auto simp: pool_ok_def intro: hm_intros)
  moreover have "set (ys @ xs) = {0..<bp_pool_size s} - {i}" using dist all by auto
  ultimately have "taken_ok (s\<lparr>bp_lru_list := ys @ xs, bp_page_table := ?t, bp_frames := ?fs\<rparr>) i"
    unfolding taken_ok_def using i dist ok(2) by (simp only: buffer_pool.simps) auto
  moreover have "keeps s (s\<lparr>bp_lru_list := ys @ xs, bp_page_table := ?t,
      bp_frames := (bp_frames s)[i := frame_new]\<rparr>)"
    using table np by (auto simp: keeps_def hm_simps) (metis nth_list_update_neq)
  ultimately show ?thesis by (simp add: Let_def f)
qed

lemma get_free_frame_ok:
  assumes ok: "pool_ok s" and get: "get_free_frame s = (Inr i, s1)"
  shows "taken_ok s1 i \<and> keeps s s1"
proof (cases "bp_free_list s")
  case (Cons j rest)
  then have "s1 = s\<lparr>bp_free_list := rest\<rparr>" "i = j" using get by (simp_all add: get_free_frame_def)
  moreover have "set (rest @ bp_lru_list s) = {0..<bp_pool_size s} - {j}" "j < bp_pool_size s"
    using ok Cons by (auto simp: pool_ok_def)
  ultimately show ?thesis using ok Cons by (auto simp: taken_ok_def pool_ok_def keeps_def)
next
  case Nil
  then have ev: "evict_page s = (Inr i, s1)" using get by (simp add: get_free_frame_def)
  show ?thesis
  proof (cases rule: evict_page_cases [of s])
    case full
    with ev show ?thesis by simp
  next
    case (evicted xs j ys)
    with ev have "j = i" "s1 = s\<lparr>bp_lru_list := ys @ xs,
         bp_page_table := (case fr_page_id (bp_frames s ! i) of
            None \<Rightarrow> bp_page_table s | Some pid \<Rightarrow> hm_remove pid (bp_page_table s)),
         bp_frames := (bp_frames s)[i := frame_new]\<rparr>" by auto
    with evicted_ok [OF ok Nil evicted(1,3)] show ?thesis by (simp only: Let_def)
  qed
qed

lemma get_free_frame_full:
  assumes "pool_ok s"
  shows "isl (fst (get_free_frame s)) \<longleftrightarrow>
      bp_free_list s = [] \<and> (\<forall>i \<in> set (bp_lru_list s). frame_pinned (bp_frames s ! i))"
    and "isl (fst (get_free_frame s)) \<Longrightarrow>
      get_free_frame s = (Inl (ResourceExhausted ''No evictable pages in buffer pool''), s)"
  by (cases rule: evict_page_cases [of s]; auto simp: get_free_frame_def split: list.splits)+

text \<open>Filling the frame restores the invariant.\<close>

lemma install_ok:
  assumes t: "taken_ok s i" and new: "hm_get (bp_page_table s) pid = None"
  shows "pool_ok (update_lru (s\<lparr>bp_frames := (bp_frames s)
      [i := \<lparr>fr_page = Some (page_pin (page_new pid ty)), fr_page_id = Some pid\<rparr>],
      bp_page_table := hm_insert pid i (bp_page_table s)\<rparr>) i)"
proof -
  let ?f = "\<lparr>fr_page = Some (page_pin (page_new pid ty)), fr_page_id = Some pid\<rparr>"
  let ?fs = "(bp_frames s)[i := ?f]"
  have i: "i < length (bp_frames s)" "i \<notin> set (bp_lru_list s)" "i \<notin> set (bp_free_list s)"
    using t by (auto simp: taken_ok_def)
  have fs: "?fs ! j = (if j = i then ?f else bp_frames s ! j)" for j using i(1) by (simp add: nth_list_update)
  have lru: "filter (\<lambda>j. j \<noteq> i) (bp_lru_list s) = bp_lru_list s" using i(2) by (auto simp: filter_id_conv)
  have pid: "pg_page_id (pg_header (page_pin (page_new pid ty))) = pid"
    by (simp add: page_pin_def page_new_def page_header_new_def Let_def)
  have old: "hm_get (bp_page_table s) q = Some j \<Longrightarrow> q \<noteq> pid \<and> j \<noteq> i" for q j
    using new i(2) t by (auto simp: taken_ok_def)
  have "\<exists>p q. ?fs ! j = \<lparr>fr_page = Some p, fr_page_id = Some q\<rparr> \<and> pg_page_id (pg_header p) = q
      \<and> hm_get (hm_insert pid i (bp_page_table s)) q = Some j" if "j \<in> set (bp_lru_list s @ [i])" for j
  proof (cases "j = i")
    case True
    then show ?thesis using fs pid by (simp add: hm_simps)
  next
    case False
    with that obtain p q where "bp_frames s ! j = \<lparr>fr_page = Some p, fr_page_id = Some q\<rparr>"
        "pg_page_id (pg_header p) = q" "hm_get (bp_page_table s) q = Some j"
      using t unfolding taken_ok_def by auto
    with False fs old show ?thesis by (auto simp: hm_simps)
  qed
  moreover have "j \<in> set (bp_lru_list s @ [i]) \<and> fr_page_id (?fs ! j) = Some q"
    if "hm_get (hm_insert pid i (bp_page_table s)) q = Some j" for q j
    using that t old [of q j] i(1) by (cases "q = pid") (auto simp: hm_simps taken_ok_def)
  moreover have "set (bp_free_list s @ bp_lru_list s @ [i]) = {0..<bp_pool_size s}"
    using t by (auto simp: taken_ok_def)
  moreover have "?fs ! j = frame_new" if "j \<in> set (bp_free_list s)" for j
    using that i(3) t by (auto simp: fs taken_ok_def)
  ultimately show ?thesis
    using t i by (simp add: pool_ok_def taken_ok_def update_lru_def lru hm_ok_insert del: ex_simps)
qed

text \<open>Changing the page in a used frame, but not its identifier; and using a frame.\<close>

lemma touch_ok:
  assumes ok: "pool_ok s" and i: "i \<in> set (bp_lru_list s)" and f: "fr_page (bp_frames s ! i) = Some p"
    and p': "pg_page_id (pg_header p') = pg_page_id (pg_header p)"
  shows "pool_ok (s\<lparr>bp_frames := (bp_frames s)[i := (bp_frames s ! i)\<lparr>fr_page := Some p'\<rparr>]\<rparr>)"
proof -
  let ?fs = "(bp_frames s)[i := (bp_frames s ! i)\<lparr>fr_page := Some p'\<rparr>]"
  have len: "i < length (bp_frames s)" by (rule pool_okD(1) [OF ok i])
  have fs: "?fs ! j = (if j = i then (bp_frames s ! i)\<lparr>fr_page := Some p'\<rparr> else bp_frames s ! j)" for j
    using len by (simp add: nth_list_update)
  have "\<exists>q pid. ?fs ! j = \<lparr>fr_page = Some q, fr_page_id = Some pid\<rparr> \<and> pg_page_id (pg_header q) = pid
      \<and> hm_get (bp_page_table s) pid = Some j" if "j \<in> set (bp_lru_list s)" for j
  proof -
    from ok that obtain q pid where "bp_frames s ! j = \<lparr>fr_page = Some q, fr_page_id = Some pid\<rparr>"
        "pg_page_id (pg_header q) = pid" "hm_get (bp_page_table s) pid = Some j"
      unfolding pool_ok_def by blast
    then show ?thesis using fs f p' by auto
  qed
  moreover have "fr_page_id (?fs ! j) = fr_page_id (bp_frames s ! j)" for j using fs by simp
  moreover have "?fs ! j = frame_new" if "j \<in> set (bp_free_list s)" for j
    using that ok i fs by (auto simp: pool_ok_def)
  ultimately show ?thesis using ok by (simp add: pool_ok_def del: ex_simps)
qed

lemma update_lru_ok: "pool_ok s \<Longrightarrow> i \<in> set (bp_lru_list s) \<Longrightarrow> pool_ok (update_lru s i)"
  by (auto simp: pool_ok_def update_lru_def)

lemma install_page_ok:
  assumes ok: "pool_ok s" and new: "hm_get (bp_page_table s) pid = None"
  shows "pool_ok (snd (install_page s pid ty))"
proof (cases "get_free_frame s")
  case (Pair r s1)
  show ?thesis
  proof (cases r)
    case (Inl e)
    then have "s1 = s" using get_free_frame_full(2) [OF ok] Pair by simp
    with Inl Pair ok show ?thesis by (simp add: install_page_def)
  next
    case (Inr i)
    with get_free_frame_ok [OF ok, of i s1] Pair new install_ok [of s1 i pid ty] show ?thesis
      by (simp add: install_page_def keeps_def)
  qed
qed

lemma fetch_page_cases:
  assumes "pool_ok s"
  obtains (hit) i p where "hm_get (bp_page_table s) pid = Some i" "i \<in> set (bp_lru_list s)"
      "bp_frames s ! i = \<lparr>fr_page = Some p, fr_page_id = Some pid\<rparr>" "pg_page_id (pg_header p) = pid"
      "fetch_page s pid = (Inr \<lparr>hd_frame = i, hd_page_id = pid\<rparr>,
         update_lru (s\<lparr>bp_frames := (bp_frames s)[i := (bp_frames s ! i)\<lparr>fr_page := Some (page_pin p)\<rparr>]\<rparr>) i)"
  | (miss) "hm_get (bp_page_table s) pid = None" "fetch_page s pid = install_page s pid PData"
proof (cases "hm_get (bp_page_table s) pid")
  case None
  then show ?thesis using miss by (simp add: fetch_page_def)
next
  case (Some i)
  with pool_okD(2) [OF assms Some] obtain p where
    p: "i \<in> set (bp_lru_list s)" "bp_frames s ! i = \<lparr>fr_page = Some p, fr_page_id = Some pid\<rparr>"
      "pg_page_id (pg_header p) = pid" by blast
  show ?thesis by (rule hit [OF Some p]) (simp add: fetch_page_def Some p)
qed

lemma unpin_frame_ok: "pool_ok s \<Longrightarrow> i < bp_pool_size s \<Longrightarrow> pool_ok (unpin_frame s i)"
proof -
  assume ok: "pool_ok s" and i: "i < bp_pool_size s"
  show ?thesis
  proof (cases "fr_page (bp_frames s ! i)")
    case None
    then show ?thesis using ok by (simp add: unpin_frame_def)
  next
    case (Some p)
    have "i \<in> set (bp_free_list s @ bp_lru_list s)" using ok i by (simp add: pool_ok_def)
    moreover have "i \<notin> set (bp_free_list s)" using ok Some by (auto simp: pool_ok_def frame_new_def)
    ultimately have "i \<in> set (bp_lru_list s)" by simp
    from touch_ok [OF ok this Some, of "page_unpin p"] show ?thesis
      by (simp add: unpin_frame_def Some page_unpin_def)
  qed
qed

text \<open>C13: The buffer pool stays consistent: after every operation each frame is either free and
  empty or holds exactly the page the page table maps to it, no page is in two frames, and the
  free list and the LRU list partition the frames.\<close>

theorem buffer_pool_invariant:
  assumes "pool_ok s"
  shows "pool_ok (snd (fetch_page s pid)) \<and> pool_ok (snd (pool_new_page s pid ty))
    \<and> pool_ok (snd (flush_page s pid)) \<and> pool_ok (unpin_page s pid)
    \<and> (hd_frame h < bp_pool_size s \<longrightarrow> pool_ok (handle_drop s h)) \<and> pool_ok (pool_new n)"
proof -
  have "pool_ok (snd (fetch_page s pid))"
    using assms
  proof (cases rule: fetch_page_cases [where pid = pid])
    case (hit i p)
    have "pool_ok (s\<lparr>bp_frames := (bp_frames s)[i := (bp_frames s ! i)\<lparr>fr_page := Some (page_pin p)\<rparr>]\<rparr>)"
      using hit by (intro touch_ok [OF assms, of i p]) (simp_all add: page_pin_def)
    with hit show ?thesis by (simp add: update_lru_ok)
  next
    case miss
    then show ?thesis using install_page_ok [OF assms] by simp
  qed
  moreover have "pool_ok (snd (pool_new_page s pid ty))"
    using assms install_page_ok [OF assms] by (simp add: pool_new_page_def)
  moreover have "pool_ok (snd (flush_page s pid))"
  proof (cases "hm_get (bp_page_table s) pid")
    case (Some i)
    from pool_okD(2) [OF assms Some] obtain p where
      "i \<in> set (bp_lru_list s)" "fr_page (bp_frames s ! i) = Some p" by force
    with touch_ok [OF assms this, of "clear_dirty p"] Some assms show ?thesis
      by (simp add: flush_page_def clear_dirty_def split: sum.splits)
  qed (simp add: flush_page_def assms)
  moreover have "pool_ok (unpin_page s pid)"
  proof (cases "hm_get (bp_page_table s) pid")
    case (Some i)
    then have "i < bp_pool_size s"
      using pool_okD [OF assms] assms by (metis pool_ok_def)
    then show ?thesis using unpin_frame_ok [OF assms] Some by (simp add: unpin_page_def)
  qed (simp add: unpin_page_def assms)
  ultimately show ?thesis using unpin_frame_ok [OF assms] pool_ok_new by (simp add: handle_drop_def)
qed


section \<open>Examples\<close>

text \<open>A pool of two frames with page 1 pinned and page 2 unpinned.\<close>

definition sample_pool :: buffer_pool where
  "sample_pool = unpin_page (snd (fetch_page (snd (fetch_page (pool_new 2) 1)) 2)) 2"

lemma sample_pool_eq:
  "sample_pool = \<lparr>bp_frames = [\<lparr>fr_page = Some (page_pin (page_new 1 PData)), fr_page_id = Some 1\<rparr>,
       \<lparr>fr_page = Some (page_new 2 PData), fr_page_id = Some 2\<rparr>],
     bp_page_table = [(1, 0), (2, 1)], bp_free_list = [], bp_lru_list = [0, 1], bp_pool_size = 2\<rparr>"
  by (simp add: sample_pool_def pool_new_def fetch_page_def install_page_def get_free_frame_def update_lru_def
      unpin_page_def unpin_frame_def page_pin_def page_unpin_def upt_rec numeral_2_eq_2)

lemma sample_pool_ok: "pool_ok sample_pool"
  by (auto simp: sample_pool_eq pool_ok_def hm_ok_def page_pin_def page_new_def page_header_new_def Let_def
      split: if_splits)

theorem buffer_pool_invariant_witness:
  "pool_ok (snd (fetch_page sample_pool 3)) \<and> pool_ok (handle_drop sample_pool \<lparr>hd_frame = 0, hd_page_id = 1\<rparr>)"
proof -
  have "hd_frame \<lparr>hd_frame = 0, hd_page_id = 1\<rparr> < bp_pool_size sample_pool" by (simp add: sample_pool_eq)
  then show ?thesis using buffer_pool_invariant [OF sample_pool_ok, of 3 PData "\<lparr>hd_frame = 0, hd_page_id = 1\<rparr>"] by simp
qed


text \<open>Evicting a page throws its changes away: in a pool of one frame, a page that a client
  wrote to and unpinned is replaced without being written anywhere, and fetching it again returns
  an empty page.\<close>

theorem dirty_page_lost_on_eviction:
  "let (r1, s1) = fetch_page (pool_new 1) 1;
       h = \<lparr>hd_frame = 0, hd_page_id = 1\<rparr>;
       s2 = the (handle_write s1 h (\<lambda>p. snd (the (insert_tuple p [42]))));
       s3 = snd (fetch_page (handle_drop s2 h) 2);
       s4 = snd (fetch_page (handle_drop s3 \<lparr>hd_frame = 0, hd_page_id = 2\<rparr>) 1)
   in r1 = Inr h
      \<and> map_option (\<lambda>p. (pg_is_dirty p, page_tuples p)) (fr_page (bp_frames s2 ! 0)) = Some (True, [[42]])
      \<and> map_option page_tuples (fr_page (bp_frames s4 ! 0)) = Some []"
proof -
  let ?p = "page_pin (page_new 1 PData)"
  have ok: "page_ok ?p" "page_tuples ?p = []" "free_space (pg_header ?p) = 8168"
    using page_ok_new [of 1 PData] page_tuples_new [of 1 PData] page_okD(6) [OF page_ok_new [of 1 PData]]
    by (simp_all add: page_pin_def page_ok_def page_tuples_def page_new_def page_header_new_def Let_def page_consts)
  then obtain q where q: "insert_tuple ?p [42] = Some (Inr 0, q)" "page_tuples q = [[42]]"
    using insert_tuple_ok [of ?p "[42]"]
    by (auto simp: page_consts page_pin_def page_new_def page_header_new_def Let_def)
  have dirty: "pg_is_dirty q \<and> pg_pin_count q = 1"
    using q(1) by (auto simp: insert_tuple_def mark_dirty_def page_pin_def page_new_def Let_def split: if_splits)
  have "page_tuples (page_pin (page_new 1 PData)) = []" by (rule ok(2))
  then show ?thesis
    using q dirty
    by (simp add: Let_def pool_new_def fetch_page_def install_page_def get_free_frame_def update_lru_def
        evict_page_def frame_pinned_def is_pinned_def handle_drop_def handle_write_def unpin_frame_def
        page_unpin_def page_pin_def page_new_def)
qed

end
