(* ===== verification/Block.thy ===== *)
theory Block
  imports ByteCodec
begin

text \<open>
  Storage blocks, \<^verbatim>\<open>crates/aegis-storage/src/block.rs\<close>: a typed header with sizes and a
  checksum over the data, compression, encryption and the byte format.

  The libraries the module calls are the fields of \<open>block_libs\<close>: the checksum, the three
  compressors, AES-256-GCM, the encoding of the header (\<^verbatim>\<open>bincode\<close>), the key from the
  environment and the random nonce.  What the module relies on is \<open>libs_ok\<close>: what was
  compressed, encrypted or encoded comes back.
\<close>

section \<open>Data\<close>

datatype block_type = TableData | TimeSeriesData | DocumentData | IndexData | LogEntryBlock | MetadataBlock

datatype compression_type = NoCompression | Lz4 | Zstd | Snappy

datatype encryption_type = NoEncryption | Aes256Gcm

record block_header =
  bh_block_id :: block_id
  bh_block_type :: block_type
  bh_compression :: compression_type
  bh_encryption :: encryption_type
  bh_data_size :: u32
  bh_uncompressed_size :: u32
  bh_checksum :: u32
  bh_version :: u16
  bh_flags :: u16

definition block_header_new :: "block_id \<Rightarrow> block_type \<Rightarrow> block_header" where
  "block_header_new bid ty =
     \<lparr>bh_block_id = bid, bh_block_type = ty, bh_compression = NoCompression, bh_encryption = NoEncryption,
      bh_data_size = 0, bh_uncompressed_size = 0, bh_checksum = 0, bh_version = 1, bh_flags = 0\<rparr>"

record block_libs =
  blk_crc32 :: "bytes \<Rightarrow> u32"
  lib_compress :: "compression_type \<Rightarrow> bytes \<Rightarrow> string + bytes"
  lib_decompress :: "compression_type \<Rightarrow> bytes \<Rightarrow> string + bytes"
  lib_key :: "bytes aegis_result"
  lib_nonce :: "string + bytes"
  aes_encrypt :: "bytes \<Rightarrow> bytes \<Rightarrow> bytes \<Rightarrow> string + bytes"
  aes_decrypt :: "bytes \<Rightarrow> bytes \<Rightarrow> bytes \<Rightarrow> string + bytes"
  bincode_ser :: "block_header \<Rightarrow> string + bytes"
  bincode_de :: "bytes \<Rightarrow> string + block_header"

record block =
  b_header :: block_header
  b_data :: bytes

section \<open>Encryption\<close>

definition aes_gcm_nonce_size :: nat where
  "aes_gcm_nonce_size = 12"

definition encrypt_aes256gcm :: "block_libs \<Rightarrow> bytes \<Rightarrow> bytes aegis_result" where
  "encrypt_aes256gcm lib plaintext =
     (case lib_key lib of
        Inl e \<Rightarrow> Inl e
      | Inr key \<Rightarrow>
          (case lib_nonce lib of
             Inl e \<Rightarrow> Inl (Encryption (''Failed to generate nonce: '' @ e))
           | Inr nonce \<Rightarrow>
               (case aes_encrypt lib key nonce plaintext of
                  Inl e \<Rightarrow> Inl (Encryption (''Encryption failed: '' @ e))
                | Inr ciphertext \<Rightarrow> Inr (nonce @ ciphertext))))"

definition decrypt_aes256gcm :: "block_libs \<Rightarrow> bytes \<Rightarrow> bytes aegis_result" where
  "decrypt_aes256gcm lib encrypted =
     (if length encrypted < aes_gcm_nonce_size
      then Inl (Encryption ''Encrypted data too short: missing nonce'')
      else case lib_key lib of
        Inl e \<Rightarrow> Inl e
      | Inr key \<Rightarrow>
          (case aes_decrypt lib key (take aes_gcm_nonce_size encrypted) (drop aes_gcm_nonce_size encrypted) of
             Inl e \<Rightarrow> Inl (Encryption (''Decryption failed: '' @ e))
           | Inr plaintext \<Rightarrow> Inr plaintext))"

section \<open>Blocks\<close>

definition block_new :: "block_libs \<Rightarrow> block_id \<Rightarrow> block_type \<Rightarrow> bytes \<Rightarrow> block" where
  "block_new lib bid ty data =
     (let size = of_nat (length data) in
      \<lparr>b_header = \<lparr>bh_block_id = bid, bh_block_type = ty, bh_compression = NoCompression,
         bh_encryption = NoEncryption, bh_data_size = size, bh_uncompressed_size = size,
         bh_checksum = blk_crc32 lib data, bh_version = 1, bh_flags = 0\<rparr>,
       b_data = data\<rparr>)"

definition block_empty :: "block_libs \<Rightarrow> block_id \<Rightarrow> block_type \<Rightarrow> block" where
  "block_empty lib bid ty = block_new lib bid ty []"

definition verify_checksum :: "block_libs \<Rightarrow> block \<Rightarrow> bool" where
  "verify_checksum lib b \<longleftrightarrow> blk_crc32 lib (b_data b) = bh_checksum (b_header b)"

definition update_checksum :: "block_libs \<Rightarrow> block \<Rightarrow> block" where
  "update_checksum lib b =
     b\<lparr>b_header := (b_header b)\<lparr>bh_checksum := blk_crc32 lib (b_data b),
                                bh_data_size := of_nat (length (b_data b))\<rparr>\<rparr>"

definition block_compress :: "block_libs \<Rightarrow> block \<Rightarrow> compression_type \<Rightarrow> unit aegis_result \<times> block" where
  "block_compress lib b c =
     (if bh_compression (b_header b) \<noteq> NoCompression then (Inr (), b)
      else if c = NoCompression then (Inr (), b)
      else case lib_compress lib c (b_data b) of
             Inl e \<Rightarrow> (Inl (Storage e), b)
           | Inr compressed \<Rightarrow>
               (Inr (), update_checksum lib
                 \<lparr>b_header = (b_header b)\<lparr>bh_uncompressed_size := bh_data_size (b_header b),
                     bh_data_size := of_nat (length compressed), bh_compression := c\<rparr>,
                  b_data = compressed\<rparr>))"

definition block_decompress :: "block_libs \<Rightarrow> block \<Rightarrow> unit aegis_result \<times> block" where
  "block_decompress lib b =
     (if bh_compression (b_header b) = NoCompression then (Inr (), b)
      else case lib_decompress lib (bh_compression (b_header b)) (b_data b) of
             Inl e \<Rightarrow> (Inl (Storage e), b)
           | Inr decompressed \<Rightarrow>
               (Inr (), update_checksum lib
                 \<lparr>b_header = (b_header b)\<lparr>bh_data_size := of_nat (length decompressed),
                     bh_compression := NoCompression\<rparr>,
                  b_data = decompressed\<rparr>))"

definition block_encrypt :: "block_libs \<Rightarrow> block \<Rightarrow> encryption_type \<Rightarrow> unit aegis_result \<times> block" where
  "block_encrypt lib b c =
     (if bh_encryption (b_header b) \<noteq> NoEncryption then (Inr (), b)
      else if c = NoEncryption then (Inr (), b)
      else case encrypt_aes256gcm lib (b_data b) of
             Inl e \<Rightarrow> (Inl e, b)
           | Inr encrypted \<Rightarrow>
               (Inr (), update_checksum lib
                 \<lparr>b_header = (b_header b)\<lparr>bh_data_size := of_nat (length encrypted), bh_encryption := c\<rparr>,
                  b_data = encrypted\<rparr>))"

definition block_decrypt :: "block_libs \<Rightarrow> block \<Rightarrow> unit aegis_result \<times> block" where
  "block_decrypt lib b =
     (if bh_encryption (b_header b) = NoEncryption then (Inr (), b)
      else case decrypt_aes256gcm lib (b_data b) of
             Inl e \<Rightarrow> (Inl e, b)
           | Inr decrypted \<Rightarrow>
               (Inr (), update_checksum lib
                 \<lparr>b_header = (b_header b)\<lparr>bh_data_size := of_nat (length decrypted),
                     bh_encryption := NoEncryption\<rparr>,
                  b_data = decrypted\<rparr>))"

definition block_to_bytes :: "block_libs \<Rightarrow> block \<Rightarrow> bytes aegis_result" where
  "block_to_bytes lib b =
     (case bincode_ser lib (b_header b) of
        Inl e \<Rightarrow> Inl (Serialization e)
      | Inr header \<Rightarrow>
          Inr (put_u32_le (of_nat (length header)) @ header
               @ put_u32_le (of_nat (length (b_data b))) @ b_data b))"

definition block_from_bytes :: "block_libs \<Rightarrow> bytes \<Rightarrow> block aegis_result" where
  "block_from_bytes lib data =
     (if length data < 8 then Inl (Corruption ''Block too small'')
      else let header_len = le_nat (slice data 0 4) in
        if length data < 4 + header_len + 4 then Inl (Corruption ''Block header truncated'')
        else case bincode_de lib (slice data 4 header_len) of
          Inl e \<Rightarrow> Inl (Serialization e)
        | Inr header \<Rightarrow>
            let data_offset = 4 + header_len; data_len = le_nat (slice data data_offset 4) in
            if length data < data_offset + 4 + data_len then Inl (Corruption ''Block data truncated'')
            else Inr \<lparr>b_header = header, b_data = slice data (data_offset + 4) data_len\<rparr>)"

definition block_header_size :: nat where
  "block_header_size = 32"

definition block_total_size :: "block \<Rightarrow> nat" where
  "block_total_size b = block_header_size + length (b_data b)"

section \<open>Round trips\<close>

text \<open>What the module relies on: whatever a library produced, its inverse takes back, and
  AES-GCM is used with 12-byte nonces.\<close>

definition libs_ok :: "block_libs \<Rightarrow> bool" where
  "libs_ok lib \<longleftrightarrow>
     (\<forall>c x y. lib_compress lib c x = Inr y \<longrightarrow> lib_decompress lib c y = Inr x)
     \<and> (\<forall>key nonce x y. aes_encrypt lib key nonce x = Inr y \<longrightarrow> aes_decrypt lib key nonce y = Inr x)
     \<and> (\<forall>nonce. lib_nonce lib = Inr nonce \<longrightarrow> length nonce = 12)
     \<and> (\<forall>h bs. bincode_ser lib h = Inr bs \<longrightarrow> bincode_de lib bs = Inr h \<and> length bs < 2 ^ 32)"

text \<open>The sizes and the checksum in the header describe the data.\<close>

definition block_ok :: "block_libs \<Rightarrow> block \<Rightarrow> bool" where
  "block_ok lib b \<longleftrightarrow> verify_checksum lib b \<and> bh_data_size (b_header b) = of_nat (length (b_data b))"

lemma block_ok_new: "block_ok lib (block_new lib bid ty data)"
  by (simp add: block_ok_def block_new_def verify_checksum_def Let_def)

lemma block_ok_ops:
  assumes "block_ok lib b"
  shows "block_ok lib (snd (block_compress lib b c))" "block_ok lib (snd (block_decompress lib b))"
    "block_ok lib (snd (block_encrypt lib b e))" "block_ok lib (snd (block_decrypt lib b))"
  using assms
  by (auto simp: block_ok_def verify_checksum_def block_compress_def block_decompress_def block_encrypt_def
      block_decrypt_def update_checksum_def split: sum.splits)

lemma block_decompress_compress:
  assumes "libs_ok lib" "block_ok lib b" "block_compress lib b c = (Inr (), b')"
    and "bh_compression (b_header b) = NoCompression" "bh_uncompressed_size (b_header b) = bh_data_size (b_header b)"
  shows "block_decompress lib b' = (Inr (), b)"
  using assms
  by (auto simp: block_compress_def block_decompress_def libs_ok_def update_checksum_def block_ok_def
      verify_checksum_def split: sum.splits if_splits)

lemma block_decrypt_encrypt:
  assumes "libs_ok lib" "block_ok lib b" "block_encrypt lib b c = (Inr (), b')"
    and "bh_encryption (b_header b) = NoEncryption"
  shows "block_decrypt lib b' = (Inr (), b)"
proof (cases "c = NoEncryption")
  case True
  with assms show ?thesis by (simp add: block_encrypt_def block_decrypt_def)
next
  case False
  with assms obtain key nonce ct where
    k: "lib_key lib = Inr key" "lib_nonce lib = Inr nonce" "aes_encrypt lib key nonce (b_data b) = Inr ct"
    and b': "b' = update_checksum lib
      \<lparr>b_header = (b_header b)\<lparr>bh_data_size := of_nat (length (nonce @ ct)), bh_encryption := c\<rparr>, b_data = nonce @ ct\<rparr>"
    by (auto simp: block_encrypt_def encrypt_aes256gcm_def split: sum.splits)
  have "decrypt_aes256gcm lib (nonce @ ct) = Inr (b_data b)"
    using assms(1) k by (simp add: decrypt_aes256gcm_def aes_gcm_nonce_size_def libs_ok_def)
  with False assms(2,4) show ?thesis
    by (simp add: b' block_decrypt_def update_checksum_def block_ok_def verify_checksum_def)
qed

lemma block_bytes_roundtrip:
  assumes "libs_ok lib" "block_to_bytes lib b = Inr bs" "length (b_data b) < 2 ^ 32"
  shows "block_from_bytes lib bs = Inr b"
proof -
  obtain h where h: "bincode_ser lib (b_header b) = Inr h" "length h < 2 ^ 32" "bincode_de lib h = Inr (b_header b)"
    using assms(1,2) by (auto simp: block_to_bytes_def libs_ok_def split: sum.splits)
  have bs: "bs = put_u32_le (of_nat (length h)) @ h @ put_u32_le (of_nat (length (b_data b))) @ b_data b"
    using assms(2) h by (simp add: block_to_bytes_def)
  have n: "unat (of_nat (length h) :: u32) = length h" "unat (of_nat (length (b_data b)) :: u32) = length (b_data b)"
    using h(2) assms(3) by (simp_all add: unat_of_nat)
  show ?thesis using h(3) by (simp add: block_from_bytes_def bs Let_def le_nat_put n)
qed

text \<open>A block that is created, compressed, encrypted, written, read, decrypted and
  decompressed comes back exactly as it was, header and data, and its checksum is right at every
  stage.\<close>

theorem block_pipeline_roundtrip:
  assumes "libs_ok lib" "b = block_new lib bid ty data"
    and "block_compress lib b c = (Inr (), b1)" "block_encrypt lib b1 e = (Inr (), b2)"
    and "block_to_bytes lib b2 = Inr bs" "length (b_data b2) < 2 ^ 32"
  shows "block_from_bytes lib bs = Inr b2 \<and> block_decrypt lib b2 = (Inr (), b1)
    \<and> block_decompress lib b1 = (Inr (), b)
    \<and> verify_checksum lib b \<and> verify_checksum lib b1 \<and> verify_checksum lib b2"
proof -
  have ok: "block_ok lib b" by (simp add: assms(2) block_ok_new)
  have ok1: "block_ok lib b1" using block_ok_ops(1) [OF ok, of c] assms(3) by simp
  have ok2: "block_ok lib b2" using block_ok_ops(3) [OF ok1, of e] assms(4) by simp
  have plain: "bh_compression (b_header b) = NoCompression" "bh_encryption (b_header b) = NoEncryption"
      "bh_uncompressed_size (b_header b) = bh_data_size (b_header b)"
    by (simp_all add: assms(2) block_new_def Let_def)
  have "bh_encryption (b_header b1) = NoEncryption"
    using assms(3) plain(2) by (auto simp: block_compress_def update_checksum_def split: if_splits sum.splits)
  then show ?thesis
    using block_bytes_roundtrip [OF assms(1,5,6)] block_decrypt_encrypt [OF assms(1) ok1 assms(4)]
      block_decompress_compress [OF assms(1) ok assms(3) plain(1,3)] ok ok1 ok2
    by (simp add: block_ok_def)
qed

text \<open>Small libraries that keep their promises: a compressor that adds a tag, a cipher that
  reverses, and an encoder that knows one header.\<close>

definition sample_header :: block_header where
  "sample_header = \<lparr>bh_block_id = 5, bh_block_type = TableData, bh_compression = Lz4, bh_encryption = Aes256Gcm,
     bh_data_size = 15, bh_uncompressed_size = 2, bh_checksum = 15, bh_version = 1, bh_flags = 0\<rparr>"

definition sample_libs :: block_libs where
  "sample_libs =
     \<lparr>blk_crc32 = (\<lambda>b. of_nat (length b)), lib_compress = (\<lambda>_ x. Inr (0 # x)), lib_decompress = (\<lambda>_ x. Inr (tl x)),
      lib_key = Inr [], lib_nonce = Inr (replicate 12 7), aes_encrypt = (\<lambda>_ _ x. Inr (rev x)),
      aes_decrypt = (\<lambda>_ _ x. Inr (rev x)),
      bincode_ser = (\<lambda>h. if h = sample_header then Inr [1] else Inl ''unknown''),
      bincode_de = (\<lambda>_. Inr sample_header)\<rparr>"

theorem block_pipeline_roundtrip_witness:
  "\<exists>b1 b2 bs. block_compress sample_libs (block_new sample_libs 5 TableData [1, 2]) Lz4 = (Inr (), b1)
     \<and> block_encrypt sample_libs b1 Aes256Gcm = (Inr (), b2) \<and> block_to_bytes sample_libs b2 = Inr bs
     \<and> block_from_bytes sample_libs bs = Inr b2 \<and> block_decrypt sample_libs b2 = (Inr (), b1)
     \<and> block_decompress sample_libs b1 = (Inr (), block_new sample_libs 5 TableData [1, 2])"
proof -
  let ?b = "block_new sample_libs 5 TableData [1, 2]"
  define b1 where "b1 = snd (block_compress sample_libs ?b Lz4)"
  define b2 where "b2 = snd (block_encrypt sample_libs b1 Aes256Gcm)"
  have libs: "libs_ok sample_libs" by (auto simp: libs_ok_def sample_libs_def split: if_splits)
  have 1: "block_compress sample_libs ?b Lz4 = (Inr (), b1)"
    by (simp add: b1_def block_compress_def sample_libs_def block_new_def Let_def)
  have 2: "block_encrypt sample_libs b1 Aes256Gcm = (Inr (), b2)"
    by (simp add: b2_def b1_def block_encrypt_def block_compress_def encrypt_aes256gcm_def sample_libs_def
        block_new_def update_checksum_def Let_def)
  have b2: "b2 = \<lparr>b_header = sample_header, b_data = replicate 12 7 @ [2, 1, 0]\<rparr>"
    by (simp add: b2_def b1_def block_encrypt_def block_compress_def encrypt_aes256gcm_def sample_libs_def
        block_new_def update_checksum_def Let_def sample_header_def)
  then have 3: "block_to_bytes sample_libs b2 = Inr (put_u32_le 1 @ [1] @ put_u32_le 15 @ b_data b2)"
    by (simp add: block_to_bytes_def sample_libs_def)
  have "length (b_data b2) < 2 ^ 32" by (simp add: b2)
  from block_pipeline_roundtrip [OF libs refl 1 2 3 this] 1 2 3 show ?thesis by blast
qed

end
