(* ===== verification/Backend.thy ===== *)
theory Backend
  imports Block
begin

text \<open>
  Storage backends, \<^verbatim>\<open>crates/aegis-storage/src/backend.rs\<close>: the trait
  \<^verbatim>\<open>StorageBackend\<close> and its two implementations, in memory and on the local file system.

  A directory is a map from file names to contents; the file system has room and refuses
  nothing but missing files, so the only I/O error is a missing file.  What \<^verbatim>\<open>fsync\<close> does
  to durability is not modelled.  Every method is one atomic step.
\<close>

section \<open>Hexadecimal file names\<close>

text \<open>\<^verbatim>\<open>format!("{:016x}")\<close> and \<^verbatim>\<open>u64::from_str_radix(_, 16)\<close>.\<close>

definition hex_char :: "nat \<Rightarrow> char" where
  "hex_char d = char_of (if d < 10 then 48 + d else 87 + d)"

primrec hex_digits :: "nat \<Rightarrow> nat \<Rightarrow> string" where
  "hex_digits 0 n = []"
| "hex_digits (Suc k) n = hex_digits k (n div 16) @ [hex_char (n mod 16)]"

definition hex_value :: "char \<Rightarrow> nat option" where
  "hex_value c =
     (let v = of_char c :: nat in
      if 48 \<le> v \<and> v \<le> 57 then Some (v - 48)
      else if 97 \<le> v \<and> v \<le> 102 then Some (v - 87)
      else if 65 \<le> v \<and> v \<le> 70 then Some (v - 55)
      else None)"

fun parse_hex_digits :: "nat \<Rightarrow> string \<Rightarrow> nat option" where
  "parse_hex_digits acc [] = Some acc"
| "parse_hex_digits acc (c # cs) =
     (case hex_value c of None \<Rightarrow> None | Some d \<Rightarrow> parse_hex_digits (acc * 16 + d) cs)"

definition parse_hex_u64 :: "string \<Rightarrow> u64 option" where
  "parse_hex_u64 s =
     (let t = (case s of c # cs \<Rightarrow> if c = CHR ''+'' then cs else s | [] \<Rightarrow> s) in
      if t = [] then None
      else case parse_hex_digits 0 t of
             None \<Rightarrow> None
           | Some n \<Rightarrow> if n < 2 ^ 64 then Some (of_nat n) else None)"

definition block_path :: "block_id \<Rightarrow> string" where
  "block_path i = ''block_'' @ hex_digits 16 (unat i) @ ''.dat''"

definition block_temp_path :: "block_id \<Rightarrow> string" where
  "block_temp_path i = ''block_'' @ hex_digits 16 (unat i) @ ''.tmp''"

text \<open>The block a file of the directory holds, if its name is that of a block file.\<close>

definition block_file_id :: "string \<Rightarrow> block_id option" where
  "block_file_id name =
     (if take 6 name = ''block_'' \<and> ends_with name ''.dat''
      then parse_hex_u64 (take (length name - 10) (drop 6 name))
      else None)"

lemma hex_value_hex_char [simp]: "d < 16 \<Longrightarrow> hex_value (hex_char d) = Some d"
  by (auto simp: hex_value_def hex_char_def Let_def)

lemma hex_char_not_plus [simp]: "d < 16 \<Longrightarrow> hex_char d \<noteq> CHR ''+''"
proof
  assume "d < 16" "hex_char d = CHR ''+''"
  then have "hex_value CHR ''+'' = Some d" using hex_value_hex_char [of d] by simp
  then show False by (simp add: hex_value_def)
qed

lemma length_hex_digits [simp]: "length (hex_digits k n) = k"
  by (induction k arbitrary: n) simp_all

lemma parse_hex_digits_append:
  "parse_hex_digits acc (s @ t) =
     (case parse_hex_digits acc s of None \<Rightarrow> None | Some a \<Rightarrow> parse_hex_digits a t)"
  by (induction s arbitrary: acc) (auto split: option.splits)

lemma parse_hex_digits_hex: "n < 16 ^ k \<Longrightarrow> parse_hex_digits 0 (hex_digits k n) = Some n"
proof (induction k arbitrary: n)
  case (Suc k)
  then have "n div 16 < 16 ^ k" by (simp add: less_mult_imp_div_less mult.commute)
  from Suc.IH [OF this] show ?case by (simp add: parse_hex_digits_append)
qed simp

lemma set_hex_digits: "set (hex_digits k n) \<subseteq> hex_char ` {..<16}"
  by (induction k arbitrary: n) auto

lemma parse_hex_roundtrip [simp]: "parse_hex_u64 (hex_digits 16 (unat i)) = Some i"
proof -
  have lt: "unat i < 16 ^ 16" using unat_lt_u64 [of i] by simp
  have "hex_digits 16 (unat i) \<noteq> []" by (metis length_hex_digits list.size(3) zero_neq_numeral)
  then obtain c cs where h: "hex_digits 16 (unat i) = c # cs" by (cases "hex_digits 16 (unat i)") auto
  then have "c \<in> hex_char ` {..<16}" using set_hex_digits [of 16 "unat i"] by auto
  then have "c \<noteq> CHR ''+''" by auto
  with h parse_hex_digits_hex [OF lt] unat_lt_u64 [of i] show ?thesis
    by (simp add: parse_hex_u64_def Let_def del: parse_hex_digits.simps)
qed

lemma block_file_id_path [simp]: "block_file_id (block_path i) = Some i"
  by (simp add: block_file_id_def block_path_def ends_with_def)

lemma block_file_id_temp [simp]: "block_file_id (block_temp_path i) = None"
  by (simp add: block_file_id_def block_temp_path_def ends_with_def)

lemma block_path_inj [simp]: "block_path i = block_path j \<longleftrightarrow> i = j"
  by (metis block_file_id_path option.inject)

lemma block_path_temp [simp]: "block_path i \<noteq> block_temp_path j" "block_temp_path j \<noteq> block_path i"
  by (metis block_file_id_path block_file_id_temp option.distinct(1))+

section \<open>Statistics and transaction states\<close>

record storage_stats =
  st_total_blocks :: u64
  st_total_bytes :: u64
  st_read_ops :: u64
  st_write_ops :: u64
  st_delete_ops :: u64

definition stats_default :: storage_stats where
  "stats_default = \<lparr>st_total_blocks = 0, st_total_bytes = 0, st_read_ops = 0, st_write_ops = 0, st_delete_ops = 0\<rparr>"

datatype backend_tx_state = BtActive | BtCommitted | BtRolledBack

text \<open>A new block counts with its size; overwriting one counts nothing.\<close>

definition count_new :: "bool \<Rightarrow> nat \<Rightarrow> storage_stats \<Rightarrow> storage_stats" where
  "count_new is_new len s =
     (if is_new then s\<lparr>st_total_blocks := st_total_blocks s + 1,
                       st_total_bytes := st_total_bytes s + of_nat len\<rparr> else s)"

definition count_write :: "bool \<Rightarrow> nat \<Rightarrow> storage_stats \<Rightarrow> storage_stats" where
  "count_write is_new len s = count_new is_new len (s\<lparr>st_write_ops := st_write_ops s + 1\<rparr>)"

text \<open>The check at the head of \<^verbatim>\<open>commit_transaction\<close>; both implementations have the same.\<close>

definition check_commit :: "(transaction_id, backend_tx_state) hmap \<Rightarrow> transaction_id \<Rightarrow> unit aegis_result" where
  "check_commit txs t =
     (case hm_get txs t of
        Some BtActive \<Rightarrow> Inr ()
      | Some BtCommitted \<Rightarrow> Inl (Transaction ''Transaction already committed'')
      | Some BtRolledBack \<Rightarrow> Inl (Transaction ''Transaction was rolled back'')
      | None \<Rightarrow> Inl (Transaction ''Transaction not found''))"

section \<open>The backend in memory\<close>

record memory_backend =
  mb_blocks :: "(block_id, block) hmap"
  mb_next_block_id :: u64
  mb_next_tx_id :: u64
  mb_stats :: storage_stats
  mb_transactions :: "(transaction_id, backend_tx_state) hmap"
  mb_pending_writes :: "(transaction_id, (block_id, block) hmap) hmap"
  mb_pending_deletes :: "(transaction_id, block_id list) hmap"

definition mb_new :: memory_backend where
  "mb_new = \<lparr>mb_blocks = [], mb_next_block_id = 1, mb_next_tx_id = 1, mb_stats = stats_default,
     mb_transactions = [], mb_pending_writes = [], mb_pending_deletes = []\<rparr>"

definition mb_allocate_block_id :: "memory_backend \<Rightarrow> block_id \<times> memory_backend" where
  "mb_allocate_block_id m = (mb_next_block_id m, m\<lparr>mb_next_block_id := mb_next_block_id m + 1\<rparr>)"

definition mb_allocate_tx_id :: "memory_backend \<Rightarrow> transaction_id \<times> memory_backend" where
  "mb_allocate_tx_id m = (mb_next_tx_id m, m\<lparr>mb_next_tx_id := mb_next_tx_id m + 1\<rparr>)"

definition with_block_id :: "block \<Rightarrow> block_id \<Rightarrow> block" where
  "with_block_id b i = b\<lparr>b_header := (b_header b)\<lparr>bh_block_id := i\<rparr>\<rparr>"

definition mb_write_block :: "memory_backend \<Rightarrow> block \<Rightarrow> block_id aegis_result \<times> memory_backend" where
  "mb_write_block m b =
     (let (i, m1) = (if bh_block_id (b_header b) = 0 then mb_allocate_block_id m
                     else (bh_block_id (b_header b), m));
          is_new = \<not> hm_contains (mb_blocks m1) i
      in (Inr i, m1\<lparr>mb_blocks := hm_insert i (with_block_id b i) (mb_blocks m1),
                    mb_stats := count_write is_new (length (b_data b)) (mb_stats m1)\<rparr>))"

definition mb_read_block :: "memory_backend \<Rightarrow> block_id \<Rightarrow> block aegis_result \<times> memory_backend" where
  "mb_read_block m i =
     (case hm_get (mb_blocks m) i of
        None \<Rightarrow> (Inl (BlockNotFound i), m)
      | Some b \<Rightarrow> (Inr b, m\<lparr>mb_stats := (mb_stats m)\<lparr>st_read_ops := st_read_ops (mb_stats m) + 1\<rparr>\<rparr>))"

definition mb_uncount :: "block \<Rightarrow> storage_stats \<Rightarrow> storage_stats" where
  "mb_uncount b s = s\<lparr>st_total_blocks := st_total_blocks s - 1,
                      st_total_bytes := st_total_bytes s - of_nat (length (b_data b))\<rparr>"

definition mb_delete_block :: "memory_backend \<Rightarrow> block_id \<Rightarrow> unit aegis_result \<times> memory_backend" where
  "mb_delete_block m i =
     (case hm_get (mb_blocks m) i of
        None \<Rightarrow> (Inl (BlockNotFound i), m)
      | Some b \<Rightarrow>
          (Inr (), m\<lparr>mb_blocks := hm_remove i (mb_blocks m),
                     mb_stats := mb_uncount b ((mb_stats m)\<lparr>st_delete_ops := st_delete_ops (mb_stats m) + 1\<rparr>)\<rparr>))"

definition mb_block_exists :: "memory_backend \<Rightarrow> block_id \<Rightarrow> bool aegis_result" where
  "mb_block_exists m i = Inr (hm_contains (mb_blocks m) i)"

definition mb_begin_transaction :: "memory_backend \<Rightarrow> transaction_id aegis_result \<times> memory_backend" where
  "mb_begin_transaction m =
     (let (t, m1) = mb_allocate_tx_id m in
      (Inr t, m1\<lparr>mb_transactions := hm_insert t BtActive (mb_transactions m1),
                 mb_pending_writes := hm_insert t [] (mb_pending_writes m1),
                 mb_pending_deletes := hm_insert t [] (mb_pending_deletes m1)\<rparr>))"

definition mb_apply_write :: "memory_backend \<Rightarrow> block_id \<times> block \<Rightarrow> memory_backend" where
  "mb_apply_write m ib =
     (let (i, b) = ib; is_new = \<not> hm_contains (mb_blocks m) i in
      m\<lparr>mb_blocks := hm_insert i b (mb_blocks m),
        mb_stats := count_new is_new (length (b_data b)) (mb_stats m)\<rparr>)"

definition mb_apply_delete :: "memory_backend \<Rightarrow> block_id \<Rightarrow> memory_backend" where
  "mb_apply_delete m i =
     (case hm_get (mb_blocks m) i of
        None \<Rightarrow> m
      | Some b \<Rightarrow> m\<lparr>mb_blocks := hm_remove i (mb_blocks m), mb_stats := mb_uncount b (mb_stats m)\<rparr>)"

definition mb_commit_transaction :: "memory_backend \<Rightarrow> transaction_id \<Rightarrow> unit aegis_result \<times> memory_backend" where
  "mb_commit_transaction m t =
     (case check_commit (mb_transactions m) t of
        Inl e \<Rightarrow> (Inl e, m)
      | Inr _ \<Rightarrow>
          let pending = hm_get_or (mb_pending_writes m) t [];
              m1 = foldl mb_apply_write (m\<lparr>mb_pending_writes := hm_remove t (mb_pending_writes m)\<rparr>) pending;
              deletes = hm_get_or (mb_pending_deletes m1) t [];
              m2 = foldl mb_apply_delete (m1\<lparr>mb_pending_deletes := hm_remove t (mb_pending_deletes m1)\<rparr>) deletes
          in (Inr (), m2\<lparr>mb_transactions := hm_insert t BtCommitted (mb_transactions m2)\<rparr>))"

definition mb_rollback_transaction :: "memory_backend \<Rightarrow> transaction_id \<Rightarrow> unit aegis_result \<times> memory_backend" where
  "mb_rollback_transaction m t =
     (case hm_get (mb_transactions m) t of
        Some BtActive \<Rightarrow>
          (Inr (), m\<lparr>mb_pending_writes := hm_remove t (mb_pending_writes m),
                     mb_pending_deletes := hm_remove t (mb_pending_deletes m),
                     mb_transactions := hm_insert t BtRolledBack (mb_transactions m)\<rparr>)
      | Some BtCommitted \<Rightarrow> (Inl (Transaction ''Cannot rollback committed transaction''), m)
      | Some BtRolledBack \<Rightarrow> (Inr (), m)
      | None \<Rightarrow> (Inl (Transaction ''Transaction not found''), m))"

section \<open>The backend on the file system\<close>

datatype pending_operation = PendingWrite block_id bytes | PendingDelete block_id

record local_backend =
  lb_dir :: "(string, bytes) hmap"
  lb_blocks :: "(block_id, string) hmap"
  lb_next_block_id :: u64
  lb_next_tx_id :: u64
  lb_stats :: storage_stats
  lb_sync_writes :: bool
  lb_transactions :: "(transaction_id, backend_tx_state) hmap"
  lb_pending_ops :: "(transaction_id, pending_operation list) hmap"
  lb_tx_last_lsn :: "(transaction_id, u64) hmap"

definition recover_block_ids :: "local_backend \<Rightarrow> local_backend" where
  "recover_block_ids l =
     (let (max_id, blocks) =
        foldl (\<lambda>(max_id, blocks) name.
                 case block_file_id name of
                   None \<Rightarrow> (max_id, blocks)
                 | Some i \<Rightarrow> (max max_id i, hm_insert i name blocks))
          (0, lb_blocks l) (hm_keys (lb_dir l))
      in l\<lparr>lb_blocks := blocks, lb_next_block_id := max_id + 1\<rparr>)"

definition lb_new :: "(string, bytes) hmap \<Rightarrow> bool \<Rightarrow> local_backend" where
  "lb_new dir sync_writes =
     recover_block_ids
       \<lparr>lb_dir = dir, lb_blocks = [], lb_next_block_id = 1, lb_next_tx_id = 1, lb_stats = stats_default,
        lb_sync_writes = sync_writes, lb_transactions = [], lb_pending_ops = [], lb_tx_last_lsn = []\<rparr>"

definition lb_allocate_block_id :: "local_backend \<Rightarrow> block_id \<times> local_backend" where
  "lb_allocate_block_id l = (lb_next_block_id l, l\<lparr>lb_next_block_id := lb_next_block_id l + 1\<rparr>)"

definition lb_allocate_tx_id :: "local_backend \<Rightarrow> transaction_id \<times> local_backend" where
  "lb_allocate_tx_id l = (lb_next_tx_id l, l\<lparr>lb_next_tx_id := lb_next_tx_id l + 1\<rparr>)"

definition check_active :: "(transaction_id, backend_tx_state) hmap \<Rightarrow> transaction_id \<Rightarrow> unit aegis_result" where
  "check_active txs t =
     (case hm_get txs t of
        Some BtActive \<Rightarrow> Inr ()
      | Some _ \<Rightarrow> Inl (Transaction ''Transaction not active'')
      | None \<Rightarrow> Inl (Transaction ''Transaction not found''))"

definition push_pending :: "transaction_id \<Rightarrow> pending_operation \<Rightarrow> local_backend \<Rightarrow> local_backend" where
  "push_pending t op l = l\<lparr>lb_pending_ops := hm_upsert t [] (\<lambda>ops. ops @ [op]) (lb_pending_ops l)\<rparr>"

definition write_block_in_tx ::
    "block_libs \<Rightarrow> local_backend \<Rightarrow> transaction_id \<Rightarrow> block \<Rightarrow> block_id aegis_result \<times> local_backend" where
  "write_block_in_tx lib l t b =
     (case check_active (lb_transactions l) t of
        Inl e \<Rightarrow> (Inl e, l)
      | Inr _ \<Rightarrow>
          let (i, l1) = (if bh_block_id (b_header b) = 0 then lb_allocate_block_id l
                         else (bh_block_id (b_header b), l))
          in case block_to_bytes lib (with_block_id b i) of
               Inl e \<Rightarrow> (Inl e, l1)
             | Inr data \<Rightarrow> (Inr i, push_pending t (PendingWrite i data) l1))"

definition delete_block_in_tx ::
    "local_backend \<Rightarrow> transaction_id \<Rightarrow> block_id \<Rightarrow> unit aegis_result \<times> local_backend" where
  "delete_block_in_tx l t i =
     (case check_active (lb_transactions l) t of
        Inl e \<Rightarrow> (Inl e, l)
      | Inr _ \<Rightarrow> (Inr (), push_pending t (PendingDelete i) l))"

text \<open>Renaming a file over another; a missing source is an error.\<close>

definition fs_rename :: "string \<Rightarrow> string \<Rightarrow> (string, bytes) hmap \<Rightarrow> (string, bytes) hmap aegis_result" where
  "fs_rename a b dir =
     (case hm_get dir a of
        None \<Rightarrow> Inl (Io ''No such file or directory'')
      | Some data \<Rightarrow> Inr (hm_insert b data (hm_remove a dir)))"

definition lb_store :: "local_backend \<Rightarrow> block_id \<Rightarrow> bytes \<Rightarrow> local_backend" where
  "lb_store l i data =
     (let is_new = \<not> hm_contains (lb_blocks l) i in
      l\<lparr>lb_blocks := hm_insert i (block_path i) (lb_blocks l),
        lb_stats := count_write is_new (length data) (lb_stats l)\<rparr>)"

definition lb_write_block ::
    "block_libs \<Rightarrow> local_backend \<Rightarrow> block \<Rightarrow> block_id aegis_result \<times> local_backend" where
  "lb_write_block lib l b =
     (let (i, l1) = (if bh_block_id (b_header b) = 0 then lb_allocate_block_id l
                     else (bh_block_id (b_header b), l))
      in case block_to_bytes lib (with_block_id b i) of
           Inl e \<Rightarrow> (Inl e, l1)
         | Inr data \<Rightarrow>
             (case fs_rename (block_temp_path i) (block_path i)
                     (hm_insert (block_temp_path i) data (lb_dir l1)) of
                Inl e \<Rightarrow> (Inl e, l1\<lparr>lb_dir := hm_insert (block_temp_path i) data (lb_dir l1)\<rparr>)
              | Inr dir \<Rightarrow> (Inr i, lb_store (l1\<lparr>lb_dir := dir\<rparr>) i data)))"

text \<open>The newest pending operation on a block, over the running transactions in the order of
  the map.\<close>

definition op_block :: "pending_operation \<Rightarrow> block_id" where
  "op_block op = (case op of PendingWrite i _ \<Rightarrow> i | PendingDelete i \<Rightarrow> i)"

fun pending_lookup ::
    "(transaction_id, backend_tx_state) hmap \<Rightarrow> (transaction_id, pending_operation list) hmap \<Rightarrow> block_id
      \<Rightarrow> pending_operation option" where
  "pending_lookup txs [] i = None"
| "pending_lookup txs ((t, ops) # rest) i =
     (if hm_get txs t = Some BtActive then
        (case find (\<lambda>op. op_block op = i) (rev ops) of
           Some op \<Rightarrow> Some op
         | None \<Rightarrow> pending_lookup txs rest i)
      else pending_lookup txs rest i)"

definition lb_read_block ::
    "block_libs \<Rightarrow> local_backend \<Rightarrow> block_id \<Rightarrow> block aegis_result \<times> local_backend" where
  "lb_read_block lib l i =
     (case pending_lookup (lb_transactions l) (lb_pending_ops l) i of
        Some (PendingWrite _ data) \<Rightarrow> (block_from_bytes lib data, l)
      | Some (PendingDelete _) \<Rightarrow> (Inl (BlockNotFound i), l)
      | None \<Rightarrow>
          (case hm_get (lb_dir l) (block_path i) of
             None \<Rightarrow> (Inl (BlockNotFound i), l)
           | Some data \<Rightarrow>
               (block_from_bytes lib data,
                l\<lparr>lb_stats := (lb_stats l)\<lparr>st_read_ops := st_read_ops (lb_stats l) + 1\<rparr>\<rparr>)))"

definition lb_uncount :: "storage_stats \<Rightarrow> storage_stats" where
  "lb_uncount s = s\<lparr>st_delete_ops := st_delete_ops s + 1,
                    st_total_blocks := saturating_sub (st_total_blocks s) 1\<rparr>"

definition lb_forget :: "local_backend \<Rightarrow> block_id \<Rightarrow> local_backend" where
  "lb_forget l i =
     l\<lparr>lb_dir := hm_remove (block_path i) (lb_dir l), lb_blocks := hm_remove i (lb_blocks l),
       lb_stats := lb_uncount (lb_stats l)\<rparr>"

definition lb_delete_block :: "local_backend \<Rightarrow> block_id \<Rightarrow> unit aegis_result \<times> local_backend" where
  "lb_delete_block l i =
     (if hm_contains (lb_dir l) (block_path i) then (Inr (), lb_forget l i)
      else (Inl (BlockNotFound i), l))"

definition lb_block_exists :: "local_backend \<Rightarrow> block_id \<Rightarrow> bool aegis_result" where
  "lb_block_exists l i =
     Inr (case pending_lookup (lb_transactions l) (lb_pending_ops l) i of
            Some (PendingWrite _ _) \<Rightarrow> True
          | Some (PendingDelete _) \<Rightarrow> False
          | None \<Rightarrow> hm_contains (lb_dir l) (block_path i))"

definition lb_begin_transaction :: "local_backend \<Rightarrow> transaction_id aegis_result \<times> local_backend" where
  "lb_begin_transaction l =
     (let (t, l1) = lb_allocate_tx_id l in
      (Inr t, l1\<lparr>lb_transactions := hm_insert t BtActive (lb_transactions l1),
                 lb_pending_ops := hm_insert t [] (lb_pending_ops l1),
                 lb_tx_last_lsn := hm_insert t 0 (lb_tx_last_lsn l1)\<rparr>))"

text \<open>Commit: all writes go to temporary files, which are then renamed in order, and then the
  deletions happen.\<close>

fun pending_writes :: "pending_operation list \<Rightarrow> (block_id \<times> bytes) list" where
  "pending_writes [] = []"
| "pending_writes (PendingWrite i data # ops) = (i, data) # pending_writes ops"
| "pending_writes (PendingDelete i # ops) = pending_writes ops"

fun pending_deletes :: "pending_operation list \<Rightarrow> block_id list" where
  "pending_deletes [] = []"
| "pending_deletes (PendingWrite i data # ops) = pending_deletes ops"
| "pending_deletes (PendingDelete i # ops) = i # pending_deletes ops"

definition write_temps :: "(string, bytes) hmap \<Rightarrow> (block_id \<times> bytes) list \<Rightarrow> (string, bytes) hmap" where
  "write_temps dir ws = foldl (\<lambda>d (i, data). hm_insert (block_temp_path i) data d) dir ws"

fun rename_temps :: "local_backend \<Rightarrow> (block_id \<times> bytes) list \<Rightarrow> unit aegis_result \<times> local_backend" where
  "rename_temps l [] = (Inr (), l)"
| "rename_temps l ((i, data) # ws) =
     (case fs_rename (block_temp_path i) (block_path i) (lb_dir l) of
        Inl e \<Rightarrow> (Inl e, l)
      | Inr dir \<Rightarrow> rename_temps (lb_store (l\<lparr>lb_dir := dir\<rparr>) i data) ws)"

definition lb_commit_transaction :: "local_backend \<Rightarrow> transaction_id \<Rightarrow> unit aegis_result \<times> local_backend" where
  "lb_commit_transaction l t =
     (case check_commit (lb_transactions l) t of
        Inl e \<Rightarrow> (Inl e, l)
      | Inr _ \<Rightarrow>
          let operations = hm_get_or (lb_pending_ops l) t [];
              l1 = l\<lparr>lb_pending_ops := hm_remove t (lb_pending_ops l),
                     lb_dir := write_temps (lb_dir l) (pending_writes operations)\<rparr>
          in case rename_temps l1 (pending_writes operations) of
               (Inl e, l2) \<Rightarrow> (Inl e, l2)
             | (Inr _, l2) \<Rightarrow>
                 let l3 = foldl lb_forget l2 (pending_deletes operations)
                 in (Inr (), l3\<lparr>lb_transactions := hm_insert t BtCommitted (lb_transactions l3),
                               lb_tx_last_lsn := hm_remove t (lb_tx_last_lsn l3)\<rparr>))"

definition lb_rollback_transaction :: "local_backend \<Rightarrow> transaction_id \<Rightarrow> unit aegis_result \<times> local_backend" where
  "lb_rollback_transaction l t =
     (case hm_get (lb_transactions l) t of
        Some BtActive \<Rightarrow>
          (Inr (), l\<lparr>lb_pending_ops := hm_remove t (lb_pending_ops l),
                     lb_dir := filter (\<lambda>(name, _). \<not> ends_with name ''.tmp'') (lb_dir l),
                     lb_transactions := hm_insert t BtRolledBack (lb_transactions l),
                     lb_tx_last_lsn := hm_remove t (lb_tx_last_lsn l)\<rparr>)
      | Some BtCommitted \<Rightarrow> (Inl (Transaction ''Cannot rollback committed transaction''), l)
      | Some BtRolledBack \<Rightarrow> (Inr (), l)
      | None \<Rightarrow> (Inl (Transaction ''Transaction not found''), l))"

section \<open>The trait as an abstract store\<close>

text \<open>The operations of the trait, their results, and what a backend promises: a map from block
  identifiers to blocks, two counters and the state of every transaction.\<close>

datatype backend_op =
    OpWrite block | OpRead block_id | OpDelete block_id | OpExists block_id
  | OpBegin | OpCommit transaction_id | OpRollback transaction_id

datatype backend_result =
    RId "u64 aegis_result" | RBlock "block aegis_result" | RUnit "unit aegis_result" | RBool "bool aegis_result"

definition mb_do :: "backend_op \<Rightarrow> memory_backend \<Rightarrow> backend_result \<times> memory_backend" where
  "mb_do op m =
     (case op of
        OpWrite b \<Rightarrow> apfst RId (mb_write_block m b)
      | OpRead i \<Rightarrow> apfst RBlock (mb_read_block m i)
      | OpDelete i \<Rightarrow> apfst RUnit (mb_delete_block m i)
      | OpExists i \<Rightarrow> (RBool (mb_block_exists m i), m)
      | OpBegin \<Rightarrow> apfst RId (mb_begin_transaction m)
      | OpCommit t \<Rightarrow> apfst RUnit (mb_commit_transaction m t)
      | OpRollback t \<Rightarrow> apfst RUnit (mb_rollback_transaction m t))"

definition lb_do :: "block_libs \<Rightarrow> backend_op \<Rightarrow> local_backend \<Rightarrow> backend_result \<times> local_backend" where
  "lb_do lib op l =
     (case op of
        OpWrite b \<Rightarrow> apfst RId (lb_write_block lib l b)
      | OpRead i \<Rightarrow> apfst RBlock (lb_read_block lib l i)
      | OpDelete i \<Rightarrow> apfst RUnit (lb_delete_block l i)
      | OpExists i \<Rightarrow> (RBool (lb_block_exists l i), l)
      | OpBegin \<Rightarrow> apfst RId (lb_begin_transaction l)
      | OpCommit t \<Rightarrow> apfst RUnit (lb_commit_transaction l t)
      | OpRollback t \<Rightarrow> apfst RUnit (lb_rollback_transaction l t))"

record store_spec =
  sp_blocks :: "block_id \<rightharpoonup> block"
  sp_next_block :: u64
  sp_next_tx :: u64
  sp_txs :: "transaction_id \<rightharpoonup> backend_tx_state"

definition spec_do :: "backend_op \<Rightarrow> store_spec \<Rightarrow> backend_result \<times> store_spec" where
  "spec_do op a =
     (case op of
        OpWrite b \<Rightarrow>
          (let fresh = bh_block_id (b_header b) = 0;
               i = (if fresh then sp_next_block a else bh_block_id (b_header b))
           in (RId (Inr i), a\<lparr>sp_blocks := (sp_blocks a)(i \<mapsto> with_block_id b i),
                             sp_next_block := sp_next_block a + (if fresh then 1 else 0)\<rparr>))
      | OpRead i \<Rightarrow>
          (RBlock (case sp_blocks a i of None \<Rightarrow> Inl (BlockNotFound i) | Some b \<Rightarrow> Inr b), a)
      | OpDelete i \<Rightarrow>
          (if sp_blocks a i = None then (RUnit (Inl (BlockNotFound i)), a)
           else (RUnit (Inr ()), a\<lparr>sp_blocks := (sp_blocks a)(i := None)\<rparr>))
      | OpExists i \<Rightarrow> (RBool (Inr (sp_blocks a i \<noteq> None)), a)
      | OpBegin \<Rightarrow>
          (RId (Inr (sp_next_tx a)),
           a\<lparr>sp_txs := (sp_txs a)(sp_next_tx a \<mapsto> BtActive), sp_next_tx := sp_next_tx a + 1\<rparr>)
      | OpCommit t \<Rightarrow>
          (case sp_txs a t of
             Some BtActive \<Rightarrow> (RUnit (Inr ()), a\<lparr>sp_txs := (sp_txs a)(t \<mapsto> BtCommitted)\<rparr>)
           | Some BtCommitted \<Rightarrow> (RUnit (Inl (Transaction ''Transaction already committed'')), a)
           | Some BtRolledBack \<Rightarrow> (RUnit (Inl (Transaction ''Transaction was rolled back'')), a)
           | None \<Rightarrow> (RUnit (Inl (Transaction ''Transaction not found'')), a))
      | OpRollback t \<Rightarrow>
          (case sp_txs a t of
             Some BtActive \<Rightarrow> (RUnit (Inr ()), a\<lparr>sp_txs := (sp_txs a)(t \<mapsto> BtRolledBack)\<rparr>)
           | Some BtCommitted \<Rightarrow> (RUnit (Inl (Transaction ''Cannot rollback committed transaction'')), a)
           | Some BtRolledBack \<Rightarrow> (RUnit (Inr ()), a)
           | None \<Rightarrow> (RUnit (Inl (Transaction ''Transaction not found'')), a)))"

fun run_ops :: "('op \<Rightarrow> 's \<Rightarrow> 'r \<times> 's) \<Rightarrow> 'op list \<Rightarrow> 's \<Rightarrow> 'r list \<times> 's" where
  "run_ops f [] s = ([], s)"
| "run_ops f (op # ops) s = (let (r, s') = f op s; (rs, s'') = run_ops f ops s' in (r # rs, s''))"

locale storage_backend =
  fixes valid :: "backend_op \<Rightarrow> bool" and exec :: "backend_op \<Rightarrow> 's \<Rightarrow> backend_result \<times> 's"
    and inv :: "'s \<Rightarrow> bool" and abst :: "'s \<Rightarrow> store_spec"
  assumes exec_inv: "inv s \<Longrightarrow> valid op \<Longrightarrow> inv (snd (exec op s))"
    and exec_spec: "inv s \<Longrightarrow> valid op \<Longrightarrow> spec_do op (abst s) = (fst (exec op s), abst (snd (exec op s)))"
begin

lemma run_spec:
  "inv s \<Longrightarrow> list_all valid ops \<Longrightarrow>
     inv (snd (run_ops exec ops s))
     \<and> run_ops spec_do ops (abst s) = (fst (run_ops exec ops s), abst (snd (run_ops exec ops s)))"
  by (induction ops arbitrary: s) (simp_all add: exec_inv exec_spec split_beta Let_def)

end

text \<open>The memory backend.  Nothing in the code fills its pending maps, so a commit has nothing to
  apply.\<close>

definition mb_inv :: "memory_backend \<Rightarrow> bool" where
  "mb_inv m \<longleftrightarrow> (\<forall>t. hm_get_or (mb_pending_writes m) t [] = []) \<and> (\<forall>t. hm_get_or (mb_pending_deletes m) t [] = [])"

definition mb_spec :: "memory_backend \<Rightarrow> store_spec" where
  "mb_spec m = \<lparr>sp_blocks = hm_get (mb_blocks m), sp_next_block = mb_next_block_id m,
     sp_next_tx = mb_next_tx_id m, sp_txs = hm_get (mb_transactions m)\<rparr>"

lemmas mb_ops = mb_do_def mb_write_block_def mb_read_block_def mb_delete_block_def mb_block_exists_def
  mb_begin_transaction_def mb_commit_transaction_def mb_rollback_transaction_def mb_allocate_block_id_def
  mb_allocate_tx_id_def check_commit_def

interpretation mem: storage_backend "\<lambda>_. True" mb_do mb_inv mb_spec
proof unfold_locales
  fix m op
  assume inv: "mb_inv m"
  then show "mb_inv (snd (mb_do op m))"
    by (auto simp: mb_ops mb_inv_def hm_simps Let_def split: backend_op.split option.split
        backend_tx_state.split)
  show "spec_do op (mb_spec m) = (fst (mb_do op m), mb_spec (snd (mb_do op m)))"
    using inv
    by (auto simp: mb_ops mb_inv_def spec_do_def mb_spec_def hm_simps Let_def fun_eq_iff
        split: backend_op.split option.split backend_tx_state.split)
qed

text \<open>The local backend while no transaction has pending operations: every block file holds a
  readable block, and every file that looks like a block file has a name of the code's making.\<close>

definition lb_inv :: "block_libs \<Rightarrow> local_backend \<Rightarrow> bool" where
  "lb_inv lib l \<longleftrightarrow> libs_ok lib \<and> hm_ok (lb_dir l) \<and> (\<forall>(t, ops) \<in> set (lb_pending_ops l). ops = [])
     \<and> (\<forall>name i. hm_get (lb_dir l) name \<noteq> None \<and> block_file_id name = Some i \<longrightarrow> name = block_path i)
     \<and> (\<forall>i data. hm_get (lb_dir l) (block_path i) = Some data \<longrightarrow> (\<exists>b. block_from_bytes lib data = Inr b))"

definition lb_spec :: "block_libs \<Rightarrow> local_backend \<Rightarrow> store_spec" where
  "lb_spec lib l =
     \<lparr>sp_blocks = (\<lambda>i. case hm_get (lb_dir l) (block_path i) of
          None \<Rightarrow> None | Some data \<Rightarrow> (case block_from_bytes lib data of Inl _ \<Rightarrow> None | Inr b \<Rightarrow> Some b)),
      sp_next_block = lb_next_block_id l, sp_next_tx = lb_next_tx_id l, sp_txs = hm_get (lb_transactions l)\<rparr>"

text \<open>A block the serialiser accepts under any identifier, and whose length fits its field.\<close>

definition writable :: "block_libs \<Rightarrow> block \<Rightarrow> bool" where
  "writable lib b \<longleftrightarrow> length (b_data b) < 2 ^ 32 \<and> (\<forall>i. \<exists>data. block_to_bytes lib (with_block_id b i) = Inr data)"

definition op_ok :: "block_libs \<Rightarrow> backend_op \<Rightarrow> bool" where
  "op_ok lib op = (case op of OpWrite b \<Rightarrow> writable lib b | _ \<Rightarrow> True)"

lemma pending_lookup_empty:
  "\<forall>(t, ops) \<in> set pend. ops = [] \<Longrightarrow> pending_lookup txs pend i = None"
  by (induction txs pend i rule: pending_lookup.induct) auto

lemma pending_get_empty:
  "\<forall>(t, ops) \<in> set pend. ops = [] \<Longrightarrow> hm_get_or pend t [] = []"
  by (auto simp: hm_get_or_def dest!: map_of_SomeD split: option.splits)

lemma set_hm_insert_subset: "set (hm_insert k v m) \<subseteq> insert (k, v) (set m)"
  by (induction m) auto

lemma set_hm_remove_subset: "set (hm_remove k m) \<subseteq> set m"
  by (auto simp: AList.delete_eq)

lemma pending_empty_insert:
  "\<forall>(t, ops) \<in> set pend. ops = [] \<Longrightarrow> \<forall>(t, ops) \<in> set (hm_insert k [] pend). ops = []"
  using set_hm_insert_subset [of k "[]" pend] by auto

lemma pending_empty_remove:
  "\<forall>(t, ops) \<in> set pend. ops = [] \<Longrightarrow> \<forall>(t, ops) \<in> set (hm_remove k pend). ops = []"
  using set_hm_remove_subset [of k pend] by auto

lemma block_path_not_tmp [simp]: "\<not> ends_with (block_path i) ''.tmp''"
  by (simp add: ends_with_def block_path_def)

lemma b_data_with_block_id [simp]: "b_data (with_block_id b i) = b_data b"
  by (simp add: with_block_id_def)

lemma lb_write_block_run:
  assumes "writable lib b"
  obtains i data where "i = (if bh_block_id (b_header b) = 0 then lb_next_block_id l else bh_block_id (b_header b))"
    "block_to_bytes lib (with_block_id b i) = Inr data"
    "fst (lb_write_block lib l b) = Inr i"
    "lb_dir (snd (lb_write_block lib l b)) =
       hm_insert (block_path i) data (hm_remove (block_temp_path i) (hm_insert (block_temp_path i) data (lb_dir l)))"
    "lb_next_block_id (snd (lb_write_block lib l b)) =
       lb_next_block_id l + (if bh_block_id (b_header b) = 0 then 1 else 0)"
    "lb_next_tx_id (snd (lb_write_block lib l b)) = lb_next_tx_id l"
    "lb_transactions (snd (lb_write_block lib l b)) = lb_transactions l"
    "lb_pending_ops (snd (lb_write_block lib l b)) = lb_pending_ops l"
proof -
  define i where "i = (if bh_block_id (b_header b) = 0 then lb_next_block_id l else bh_block_id (b_header b))"
  obtain data where data: "block_to_bytes lib (with_block_id b i) = Inr data"
    using assms by (auto simp: writable_def)
  show thesis
    by (rule that [OF i_def data])
       (use data in \<open>auto simp: lb_write_block_def lb_allocate_block_id_def fs_rename_def lb_store_def hm_simps i_def
          Let_def\<close>)
qed

lemma lb_inv_write:
  assumes "lb_inv lib l" "writable lib b"
  shows "lb_inv lib (snd (lb_write_block lib l b))
    \<and> spec_do (OpWrite b) (lb_spec lib l) =
        (RId (fst (lb_write_block lib l b)), lb_spec lib (snd (lb_write_block lib l b)))"
  using assms(2)
proof (cases rule: lb_write_block_run [where l = l])
  case (1 i data)
  have "block_from_bytes lib data = Inr (with_block_id b i)"
    using assms 1(2) by (intro block_bytes_roundtrip) (auto simp: lb_inv_def writable_def)
  with assms(1) 1 show ?thesis
    by (auto simp: lb_inv_def lb_spec_def spec_do_def Let_def hm_simps fun_eq_iff intro: hm_intros)
qed

lemma lb_inv_delete:
  assumes "lb_inv lib l"
  shows "lb_inv lib (snd (lb_delete_block l i))
    \<and> spec_do (OpDelete i) (lb_spec lib l) = (RUnit (fst (lb_delete_block l i)), lb_spec lib (snd (lb_delete_block l i)))"
  using assms
  by (fastforce simp: lb_inv_def lb_spec_def spec_do_def lb_delete_block_def lb_forget_def hm_simps fun_eq_iff
      intro: hm_intros split: option.splits sum.splits)

lemma lb_inv_read:
  assumes "lb_inv lib l"
  shows "lb_inv lib (snd (lb_read_block lib l i))
    \<and> spec_do (OpRead i) (lb_spec lib l) = (RBlock (fst (lb_read_block lib l i)), lb_spec lib (snd (lb_read_block lib l i)))"
  using assms pending_lookup_empty [of "lb_pending_ops l" "lb_transactions l" i]
  by (fastforce simp: lb_inv_def lb_spec_def spec_do_def lb_read_block_def split: option.splits sum.splits)

lemma lb_inv_exists:
  assumes "lb_inv lib l"
  shows "spec_do (OpExists i) (lb_spec lib l) = (RBool (lb_block_exists l i), lb_spec lib l)"
  using assms pending_lookup_empty [of "lb_pending_ops l" "lb_transactions l" i]
  by (fastforce simp: lb_inv_def lb_spec_def spec_do_def lb_block_exists_def split: option.splits sum.splits)

lemma lb_inv_commit:
  assumes "lb_inv lib l"
  shows "lb_inv lib (snd (lb_commit_transaction l t))
    \<and> spec_do (OpCommit t) (lb_spec lib l) =
        (RUnit (fst (lb_commit_transaction l t)), lb_spec lib (snd (lb_commit_transaction l t)))"
  using assms pending_get_empty [of "lb_pending_ops l" t] pending_empty_remove [of "lb_pending_ops l" t]
  by (auto simp: lb_inv_def lb_spec_def spec_do_def lb_commit_transaction_def check_commit_def write_temps_def
      hm_simps Let_def fun_eq_iff split: option.split backend_tx_state.split)

lemma hm_get_no_temps:
  "hm_ok dir \<Longrightarrow> hm_get (filter (\<lambda>(name, _). \<not> ends_with name ''.tmp'') dir) name =
     (if ends_with name ''.tmp'' then None else hm_get dir name)"
  by (simp add: hm_simps split: option.splits)

lemma lb_inv_rollback:
  assumes "lb_inv lib l"
  shows "lb_inv lib (snd (lb_rollback_transaction l t))
    \<and> spec_do (OpRollback t) (lb_spec lib l) =
        (RUnit (fst (lb_rollback_transaction l t)), lb_spec lib (snd (lb_rollback_transaction l t)))"
  using assms pending_empty_remove [of "lb_pending_ops l" t]
  by (auto simp: lb_inv_def lb_spec_def spec_do_def lb_rollback_transaction_def hm_get_no_temps hm_get_insert
      fun_eq_iff intro: hm_ok_filter split: option.split backend_tx_state.split)

lemma lb_inv_begin:
  assumes "lb_inv lib l"
  shows "lb_inv lib (snd (lb_begin_transaction l))
    \<and> spec_do OpBegin (lb_spec lib l) = (RId (fst (lb_begin_transaction l)), lb_spec lib (snd (lb_begin_transaction l)))"
  using assms pending_empty_insert [of "lb_pending_ops l" "lb_next_tx_id l"]
  by (auto simp: lb_inv_def lb_spec_def spec_do_def lb_begin_transaction_def lb_allocate_tx_id_def hm_simps fun_eq_iff)

interpretation loc: storage_backend "op_ok lib" "lb_do lib" "lb_inv lib" "lb_spec lib" for lib
proof unfold_locales
  fix l op
  assume inv: "lb_inv lib l" and ok: "op_ok lib op"
  note all = lb_inv_write [OF inv] lb_inv_read [OF inv] lb_inv_delete [OF inv] lb_inv_exists [OF inv]
    lb_inv_begin [OF inv] lb_inv_commit [OF inv] lb_inv_rollback [OF inv]
  show "lb_inv lib (snd (lb_do lib op l))"
    using inv ok all by (cases op) (simp_all add: lb_do_def op_ok_def)
  show "spec_do op (lb_spec lib l) = (fst (lb_do lib op l), lb_spec lib (snd (lb_do lib op l)))"
    using inv ok all by (cases op) (simp_all add: lb_do_def op_ok_def)
qed

section \<open>Properties\<close>

text \<open>C16: Through the trait the two backends cannot be told apart.  Whatever blocks are written,
  read and deleted and whatever transactions are begun, committed and rolled back, the backend in
  memory and the one on an empty directory answer every call alike, errors included.\<close>

theorem backends_equivalent:
  assumes "libs_ok lib" "list_all (op_ok lib) ops"
  shows "fst (run_ops mb_do ops mb_new) = fst (run_ops (lb_do lib) ops (lb_new [] sync_writes))"
proof -
  have "mb_inv mb_new" by (simp add: mb_inv_def mb_new_def hm_get_or_def)
  then have m: "run_ops spec_do ops (mb_spec mb_new) =
      (fst (run_ops mb_do ops mb_new), mb_spec (snd (run_ops mb_do ops mb_new)))"
    using mem.run_spec [of mb_new ops] by (simp add: list_all_iff)
  have "lb_inv lib (lb_new [] sync_writes)"
    using assms(1) by (simp add: lb_inv_def lb_new_def recover_block_ids_def)
  from loc.run_spec [OF this assms(2)] have l: "run_ops spec_do ops (lb_spec lib (lb_new [] sync_writes)) =
      (fst (run_ops (lb_do lib) ops (lb_new [] sync_writes)),
       lb_spec lib (snd (run_ops (lb_do lib) ops (lb_new [] sync_writes))))" by blast
  have "mb_spec mb_new = lb_spec lib (lb_new [] sync_writes)"
    by (auto simp: mb_spec_def lb_spec_def mb_new_def lb_new_def recover_block_ids_def)
  with m l show ?thesis by (metis fst_conv)
qed

text \<open>Libraries for the examples: a header is encoded by a tag that says which block it is of.\<close>

definition plain_header :: "block_id \<Rightarrow> block_header" where
  "plain_header i = \<lparr>bh_block_id = i, bh_block_type = TableData, bh_compression = NoCompression,
     bh_encryption = NoEncryption, bh_data_size = 2, bh_uncompressed_size = 2, bh_checksum = 2,
     bh_version = 1, bh_flags = 0\<rparr>"

definition plain_libs :: block_libs where
  "plain_libs = sample_libs\<lparr>bincode_ser := (\<lambda>h. if h = plain_header (bh_block_id h) then Inr (put_u64_le (bh_block_id h)) else Inl ''unknown''),
     bincode_de := (\<lambda>bs. Inr (plain_header (of_nat (le_nat (take 8 bs)))))\<rparr>"

definition plain_block :: "block_id \<Rightarrow> bytes \<Rightarrow> block" where
  "plain_block i data = \<lparr>b_header = plain_header i, b_data = data\<rparr>"

lemma plain_libs_ok: "libs_ok plain_libs"
proof -
  have "plain_header (bh_block_id h) = h" if "h = plain_header (bh_block_id h)" for h
    using that by simp
  then show ?thesis
    by (auto simp: libs_ok_def plain_libs_def sample_libs_def le_nat_put split: if_splits)
qed

lemma plain_block_to_bytes:
  "block_to_bytes plain_libs (plain_block i data) =
     Inr (put_u32_le 8 @ put_u64_le i @ put_u32_le (of_nat (length data)) @ data)"
proof -
  have "plain_header (bh_block_id (plain_header i)) = plain_header i"
    by (simp add: plain_header_def)
  then show ?thesis
    by (simp add: block_to_bytes_def plain_block_def plain_libs_def plain_header_def)
qed

lemma with_block_id_plain [simp]: "with_block_id (plain_block i data) j = plain_block j data"
  by (simp add: with_block_id_def plain_block_def plain_header_def)

lemma plain_writable: "length data < 2 ^ 32 \<Longrightarrow> writable plain_libs (plain_block i data)"
  by (simp add: writable_def plain_block_to_bytes) (simp add: plain_block_def)

lemma plain_id [simp]: "bh_block_id (b_header (plain_block i data)) = i"
  by (simp add: plain_block_def plain_header_def)

theorem backends_equivalent_witness:
  "fst (run_ops (lb_do plain_libs)
      [OpWrite (plain_block 0 [1, 2]), OpBegin, OpRead 1, OpCommit 1, OpRollback 1, OpDelete 9, OpExists 1]
      (lb_new [] True)) =
   [RId (Inr 1), RId (Inr 1), RBlock (Inr (plain_block 1 [1, 2])), RUnit (Inr ()),
    RUnit (Inl (Transaction ''Cannot rollback committed transaction'')), RUnit (Inl (BlockNotFound 9)),
    RBool (Inr True)]"
proof -
  let ?ops = "[OpWrite (plain_block 0 [1, 2]), OpBegin, OpRead 1, OpCommit 1, OpRollback 1, OpDelete 9, OpExists 1]"
  have "list_all (op_ok plain_libs) ?ops" by (simp add: op_ok_def plain_writable)
  from backends_equivalent [OF plain_libs_ok this, of True] show ?thesis
    by (simp add: mb_ops mb_new_def Let_def hm_get_or_def)
qed

text \<open>Recovery of a directory: the largest identifier found, and the block files by identifier.\<close>

lemma recover_fold:
  assumes "foldl (\<lambda>(max_id, blocks) name. case block_file_id name of None \<Rightarrow> (max_id, blocks)
            | Some i \<Rightarrow> (max max_id i, hm_insert i name blocks)) (m0, b0) names = (m, b)"
  shows "m0 \<le> m \<and> (\<forall>name \<in> set names. \<forall>i. block_file_id name = Some i \<longrightarrow> i \<le> m)
    \<and> (\<forall>i. hm_contains b i \<longleftrightarrow> hm_contains b0 i \<or> (\<exists>name \<in> set names. block_file_id name = Some i))"
  using assms
proof (induction names arbitrary: m0 b0)
  case (Cons name names)
  show ?case
  proof (cases "block_file_id name")
    case None
    with Cons show ?thesis by auto
  next
    case (Some i)
    with Cons.prems Cons.IH [of "max m0 i" "hm_insert i name b0"] show ?thesis
      by (auto simp: hm_simps)
  qed
qed auto

lemma recover_max:
  fixes m0 :: u64 and b0 :: "(block_id, string) hmap" and ns :: "string list"
  defines "r \<equiv> foldl (\<lambda>(max_id, blocks) name. case block_file_id name of None \<Rightarrow> (max_id, blocks)
            | Some i \<Rightarrow> (max max_id i, hm_insert i name blocks)) (m0, b0) ns"
  shows "fst r = m0 \<or> (\<exists>name \<in> set ns. block_file_id name = Some (fst r))"
  unfolding r_def
proof (induction ns arbitrary: m0 b0)
  case (Cons name ns)
  show ?case
  proof (cases "block_file_id name")
    case None
    with Cons show ?thesis by auto
  next
    case (Some i)
    with Cons [of "max m0 i" "hm_insert i name b0"] show ?thesis by (auto simp: max_def split: if_splits)
  qed
qed simp

text \<open>A backend that is reopened on the directory of an earlier one reads the same blocks, its
  table lists exactly the blocks there are files for, and the next identifier it allocates is not
  zero and belongs to no block, unless all identifiers up to the last are used.\<close>

theorem reopened_backend_recovers:
  assumes "lb_inv lib l" "hm_get (lb_dir l) (block_path (- 1)) = None"
  shows "fst (lb_read_block lib (lb_new (lb_dir l) sync_writes) i) = fst (lb_read_block lib l i)
    \<and> (hm_contains (lb_blocks (lb_new (lb_dir l) sync_writes)) i \<longleftrightarrow> hm_contains (lb_dir l) (block_path i))
    \<and> fst (lb_allocate_block_id (lb_new (lb_dir l) sync_writes)) \<noteq> 0
    \<and> \<not> hm_contains (lb_dir l) (block_path (fst (lb_allocate_block_id (lb_new (lb_dir l) sync_writes))))"
proof -
  let ?f = "\<lambda>(max_id, blocks) name. case block_file_id name of None \<Rightarrow> (max_id, blocks)
            | Some i \<Rightarrow> (max max_id i, hm_insert i name blocks)"
  obtain m b where f: "foldl ?f (0, []) (hm_keys (lb_dir l)) = (m, b)" by force
  have new: "lb_blocks (lb_new (lb_dir l) sync_writes) = b" "lb_next_block_id (lb_new (lb_dir l) sync_writes) = m + 1"
      "lb_dir (lb_new (lb_dir l) sync_writes) = lb_dir l" "lb_pending_ops (lb_new (lb_dir l) sync_writes) = []"
    by (simp_all add: lb_new_def recover_block_ids_def f)
  have keys: "name \<in> set (hm_keys (lb_dir l)) \<longleftrightarrow> hm_contains (lb_dir l) name" for name
    by (simp add: map_of_eq_None_iff)
  have files: "(\<exists>name \<in> set (hm_keys (lb_dir l)). block_file_id name = Some j) \<longleftrightarrow> hm_contains (lb_dir l) (block_path j)" for j
    using assms(1) unfolding keys Bex_def lb_inv_def by (metis block_file_id_path)
  have le: "j \<le> m" if "hm_contains (lb_dir l) (block_path j)" for j
    using recover_fold [OF f] that keys by (metis block_file_id_path)
  have "m \<noteq> - 1"
  proof
    assume "m = - 1"
    moreover have "m = 0 \<or> hm_contains (lb_dir l) (block_path m)"
      using recover_max [of 0 "[]" "hm_keys (lb_dir l)"] unfolding f files by simp
    ultimately show False using assms(2) by auto
  qed
  then have "m + 1 \<noteq> 0" "m < m + 1" using u64_lt_Suc [of m] by (auto simp: word_gt_0)
  then have "\<not> hm_contains (lb_dir l) (block_path (m + 1))" using le [of "m + 1"] by (meson leD)
  moreover have "fst (lb_read_block lib (lb_new (lb_dir l) sync_writes) i) = fst (lb_read_block lib l i)"
    using assms(1) pending_lookup_empty [of "lb_pending_ops l" "lb_transactions l" i]
    by (auto simp: lb_read_block_def new lb_inv_def split: option.splits)
  moreover have "hm_contains b i \<longleftrightarrow> hm_contains (lb_dir l) (block_path i)"
    using recover_fold [OF f] files by simp
  ultimately show ?thesis using \<open>m + 1 \<noteq> 0\<close> by (simp add: new lb_allocate_block_id_def)
qed

text \<open>A directory with one block, written by the code.\<close>

definition sample_backend :: local_backend where
  "sample_backend = snd (lb_write_block plain_libs (lb_new [] True) (plain_block 0 [1, 2]))"

lemma sample_backend_inv: "lb_inv plain_libs sample_backend"
proof -
  have "lb_inv plain_libs (lb_new [] True)"
    using plain_libs_ok by (simp add: lb_inv_def lb_new_def recover_block_ids_def)
  then show ?thesis unfolding sample_backend_def by (rule lb_inv_write [THEN conjunct1]) (simp add: plain_writable)
qed

lemma sample_backend_eq:
  "lb_dir sample_backend = [(block_path 1, put_u32_le 8 @ put_u64_le 1 @ put_u32_le 2 @ [1, 2])]"
  "lb_transactions sample_backend = []" "lb_pending_ops sample_backend = []" "lb_next_tx_id sample_backend = 1"
  by (simp_all add: sample_backend_def lb_write_block_def lb_new_def recover_block_ids_def
      lb_allocate_block_id_def plain_block_to_bytes fs_rename_def lb_store_def Let_def)

theorem reopened_backend_recovers_witness:
  "fst (lb_read_block plain_libs (lb_new (lb_dir sample_backend) False) 1) = Inr (plain_block 1 [1, 2])
   \<and> fst (lb_allocate_block_id (lb_new (lb_dir sample_backend) False)) = 2"
proof -
  have free: "hm_get (lb_dir sample_backend) (block_path (- 1)) = None" by (simp add: sample_backend_eq)
  have data: "block_to_bytes plain_libs (plain_block 1 [1, 2]) = Inr (put_u32_le 8 @ put_u64_le 1 @ put_u32_le 2 @ [1, 2])"
    by (simp add: plain_block_to_bytes)
  have "block_from_bytes plain_libs (put_u32_le 8 @ put_u64_le 1 @ put_u32_le 2 @ [1, 2]) = Inr (plain_block 1 [1, 2])"
    by (rule block_bytes_roundtrip [OF plain_libs_ok data]) (simp add: plain_block_def)
  then have "fst (lb_read_block plain_libs sample_backend 1) = Inr (plain_block 1 [1, 2])"
    by (simp add: lb_read_block_def sample_backend_eq)
  with reopened_backend_recovers [OF sample_backend_inv free, of False 1]
  have "fst (lb_read_block plain_libs (lb_new (lb_dir sample_backend) False) 1) = Inr (plain_block 1 [1, 2])" by simp
  then show ?thesis by (simp add: lb_allocate_block_id_def lb_new_def recover_block_ids_def sample_backend_eq)
qed

text \<open>The two phases of a commit.\<close>

lemma block_temp_path_inj [simp]: "block_temp_path i = block_temp_path j \<longleftrightarrow> i = j"
proof
  assume "block_temp_path i = block_temp_path j"
  then have "hex_digits 16 (unat i) = hex_digits 16 (unat j)" by (simp add: block_temp_path_def)
  then show "i = j" by (metis parse_hex_roundtrip option.inject)
qed simp

lemma write_temps_path: "hm_get (write_temps dir ws) (block_path i) = hm_get dir (block_path i)"
  unfolding write_temps_def by (induction ws arbitrary: dir) (auto simp: hm_simps)

lemma write_temps_temp:
  "distinct (map fst ws) \<Longrightarrow> (i, data) \<in> set ws \<Longrightarrow>
     hm_get (write_temps dir ws) (block_temp_path i) = Some data"
proof (induction ws arbitrary: dir)
  case (Cons w ws)
  have keep: "hm_get (foldl (\<lambda>d (i, data). hm_insert (block_temp_path i) data d) dir ws) (block_temp_path j)
      = hm_get dir (block_temp_path j)" if "j \<notin> fst ` set ws" for j dir
    using that by (induction ws arbitrary: dir) (auto simp: hm_simps)
  from Cons show ?case by (auto simp: write_temps_def hm_simps keep)
qed simp

lemma rename_temps_run:
  assumes "distinct (map fst ws)" "\<forall>(i, data) \<in> set ws. hm_get (lb_dir l) (block_temp_path i) = Some data"
  shows "fst (rename_temps l ws) = Inr ()
    \<and> (\<forall>i. hm_get (lb_dir (snd (rename_temps l ws))) (block_path i) =
           (case map_of ws i of Some data \<Rightarrow> Some data | None \<Rightarrow> hm_get (lb_dir l) (block_path i)))
    \<and> lb_transactions (snd (rename_temps l ws)) = lb_transactions l
    \<and> lb_pending_ops (snd (rename_temps l ws)) = lb_pending_ops l"
  using assms
proof (induction ws arbitrary: l)
  case (Cons w ws)
  obtain i data where w: "w = (i, data)" by force
  define l1 where "l1 = lb_store (l\<lparr>lb_dir := hm_insert (block_path i) data (hm_remove (block_temp_path i) (lb_dir l))\<rparr>) i data"
  have step: "rename_temps l (w # ws) = rename_temps l1 ws"
    using Cons.prems(2) by (simp add: w fs_rename_def l1_def)
  have dir: "lb_dir l1 = hm_insert (block_path i) data (hm_remove (block_temp_path i) (lb_dir l))"
      "lb_transactions l1 = lb_transactions l" "lb_pending_ops l1 = lb_pending_ops l"
    by (simp_all add: l1_def lb_store_def Let_def)
  have "\<forall>(j, d) \<in> set ws. hm_get (lb_dir l1) (block_temp_path j) = Some d"
    using Cons.prems by (force simp: dir w hm_simps)
  moreover have "map_of ws i = None" using Cons.prems(1) by (simp add: w map_of_eq_None_iff)
  ultimately show ?case using Cons.IH [of l1] Cons.prems(1)
    unfolding step by (simp add: dir w hm_get_insert hm_get_remove split: option.splits)
qed simp

lemma forget_fold:
  "hm_get (lb_dir (foldl lb_forget l ds)) (block_path i) =
     (if i \<in> set ds then None else hm_get (lb_dir l) (block_path i))
   \<and> lb_transactions (foldl lb_forget l ds) = lb_transactions l
   \<and> lb_pending_ops (foldl lb_forget l ds) = lb_pending_ops l"
  by (induction ds arbitrary: l) (auto simp: lb_forget_def hm_simps)

lemma lb_commit_run:
  assumes "hm_get (lb_transactions l) t = Some BtActive"
    and "distinct (map fst (pending_writes (hm_get_or (lb_pending_ops l) t [])))"
  defines "ops \<equiv> hm_get_or (lb_pending_ops l) t []" and "l' \<equiv> snd (lb_commit_transaction l t)"
  shows "fst (lb_commit_transaction l t) = Inr ()
    \<and> (\<forall>i. hm_get (lb_dir l') (block_path i) =
           (if i \<in> set (pending_deletes ops) then None
            else case map_of (pending_writes ops) i of
                   Some data \<Rightarrow> Some data | None \<Rightarrow> hm_get (lb_dir l) (block_path i)))
    \<and> hm_get (lb_transactions l') t = Some BtCommitted \<and> \<not> hm_contains (lb_pending_ops l') t"
proof -
  define l1 where "l1 = l\<lparr>lb_pending_ops := hm_remove t (lb_pending_ops l),
      lb_dir := write_temps (lb_dir l) (pending_writes ops)\<rparr>"
  have l1: "lb_dir l1 = write_temps (lb_dir l) (pending_writes ops)" "lb_transactions l1 = lb_transactions l"
      "lb_pending_ops l1 = hm_remove t (lb_pending_ops l)" by (simp_all add: l1_def)
  have d: "distinct (map fst (pending_writes ops))" using assms(2) by (simp add: ops_def)
  have "\<forall>(i, data) \<in> set (pending_writes ops). hm_get (lb_dir l1) (block_temp_path i) = Some data"
    using write_temps_temp [OF d] by (auto simp: l1)
  note run = rename_temps_run [OF d this]
  define l2 where "l2 = snd (rename_temps l1 (pending_writes ops))"
  have "rename_temps l1 (pending_writes ops) = (Inr (), l2)" using run by (metis l2_def prod.collapse)
  note l2 = this run [folded l2_def, unfolded l1 write_temps_path]
  define l3 where "l3 = foldl lb_forget l2 (pending_deletes ops)"
  have c: "lb_commit_transaction l t = (Inr (), l3\<lparr>lb_transactions := hm_insert t BtCommitted (lb_transactions l3),
      lb_tx_last_lsn := hm_remove t (lb_tx_last_lsn l3)\<rparr>)"
    using assms(1) l2(1) by (simp add: lb_commit_transaction_def check_commit_def Let_def l1_def l3_def ops_def)
  then show ?thesis
    using forget_fold [of l2 "pending_deletes ops"] l2 by (simp add: l'_def l3_def hm_simps)
qed


definition sample_tx :: local_backend where
  "sample_tx =
     (let l1 = snd (lb_begin_transaction sample_backend);
          l2 = snd (write_block_in_tx plain_libs l1 1 (plain_block 7 [3, 4]))
      in snd (delete_block_in_tx l2 1 1))"

lemma sample_tx_eq:
  "lb_transactions sample_tx = [(1, BtActive)]"
  "lb_pending_ops sample_tx = [(1, [PendingWrite 7 (put_u32_le 8 @ put_u64_le 7 @ put_u32_le 2 @ [3, 4]), PendingDelete 1])]"
  "lb_dir sample_tx = lb_dir sample_backend"
  by (simp_all add: sample_tx_def lb_begin_transaction_def lb_allocate_tx_id_def write_block_in_tx_def check_active_def
      delete_block_in_tx_def push_pending_def plain_block_to_bytes sample_backend_eq hm_upsert_def hm_get_or_def Let_def)


text \<open>Pending operations are not isolated: as soon as a running transaction has written a block,
  every read outside it returns the uncommitted data, and after its rollback the block is gone
  again.\<close>

theorem pending_writes_are_visible:
  "fst (lb_read_block plain_libs sample_tx 7) = Inr (plain_block 7 [3, 4])
   \<and> fst (lb_read_block plain_libs sample_tx 1) = Inl (BlockNotFound 1)
   \<and> fst (lb_read_block plain_libs (snd (lb_rollback_transaction sample_tx 1)) 7) = Inl (BlockNotFound 7)"
proof -
  have "block_from_bytes plain_libs (put_u32_le 8 @ put_u64_le 7 @ put_u32_le 2 @ [3, 4]) = Inr (plain_block 7 [3, 4])"
    by (rule block_bytes_roundtrip [OF plain_libs_ok]) (simp_all add: plain_block_to_bytes, simp add: plain_block_def)
  then show ?thesis
    by (simp add: lb_read_block_def lb_rollback_transaction_def sample_tx_eq op_block_def sample_backend_eq)
qed

text \<open>A transaction that writes the same block twice cannot commit: the second rename finds no
  temporary file, the commit fails with an I/O error after the operations before it took effect,
  and a second attempt reports success although the rest is lost.\<close>

theorem rewrite_in_transaction_breaks_commit:
  "let l1 = snd (lb_begin_transaction (lb_new [] True));
       l2 = snd (write_block_in_tx plain_libs l1 1 (plain_block 7 [3, 4]));
       l3 = snd (write_block_in_tx plain_libs l2 1 (plain_block 7 [5, 6]));
       l4 = snd (write_block_in_tx plain_libs l3 1 (plain_block 8 [7, 8]));
       (r, c) = lb_commit_transaction l4 1; (r', c') = lb_commit_transaction c 1
   in r = Inl (Io ''No such file or directory'') \<and> hm_contains (lb_dir c) (block_path 7)
      \<and> r' = Inr () \<and> \<not> hm_contains (lb_dir c') (block_path 8)"
  by (simp add: lb_new_def recover_block_ids_def lb_begin_transaction_def lb_allocate_tx_id_def write_block_in_tx_def
      check_active_def push_pending_def plain_block_to_bytes hm_upsert_def hm_get_or_def lb_commit_transaction_def
      check_commit_def write_temps_def fs_rename_def lb_store_def)

end
