(* ===== verification/Gorilla.thy ===== *)
theory Gorilla
  imports ByteCodec
begin

text \<open>
  The compression of time series, \<^verbatim>\<open>crates/aegis-timeseries/src/compression.rs\<close>: bit streams,
  the Gorilla compressor and decompressor (differences of differences of timestamps, exclusive or
  of values), compressed blocks and the dispatch between the two codecs of a block.  A point is a
  time in nanoseconds since 1970 and the 64-bit pattern of a floating point number.  The calendar
  of the crate \<^verbatim>\<open>chrono\<close> is the argument \<open>valid\<close>: which numbers of milliseconds it can
  represent; \<^verbatim>\<open>crc32fast\<close> and \<^verbatim>\<open>nexuscompress\<close> are arguments too.
\<close>

unbundle bit_operations_syntax

section \<open>Bit streams\<close>

record bit_writer =
  bw_buffer :: bytes
  bw_current :: u8
  bw_position :: nat

definition bw_new :: bit_writer where
  "bw_new = \<lparr>bw_buffer = [], bw_current = 0, bw_position = 0\<rparr>"

definition write_bit :: "bool \<Rightarrow> bit_writer \<Rightarrow> bit_writer" where
  "write_bit b w =
     (let current = (if b then bw_current w OR push_bit (7 - bw_position w) 1 else bw_current w);
          position = bw_position w + 1
      in if position = 8 then \<lparr>bw_buffer = bw_buffer w @ [current], bw_current = 0, bw_position = 0\<rparr>
         else w\<lparr>bw_current := current, bw_position := position\<rparr>)"

definition write_bits :: "u64 \<Rightarrow> nat \<Rightarrow> bit_writer \<Rightarrow> bit_writer" where
  "write_bits value num_bits w =
     foldl (\<lambda>w i. write_bit (drop_bit i value AND 1 = 1) w) w (rev [0..<num_bits])"

definition bw_finish :: "bit_writer \<Rightarrow> bytes" where
  "bw_finish w = (if bw_position w > 0 then bw_buffer w @ [bw_current w] else bw_buffer w)"

record bit_reader =
  br_data :: bytes
  br_byte :: nat
  br_bit :: nat

definition br_new :: "bytes \<Rightarrow> bit_reader" where
  "br_new data = \<lparr>br_data = data, br_byte = 0, br_bit = 0\<rparr>"

definition read_bit :: "bit_reader \<Rightarrow> (bool \<times> bit_reader) option" where
  "read_bit r =
     (if br_byte r \<ge> length (br_data r) then None
      else
        let b = (drop_bit (7 - br_bit r) (br_data r ! br_byte r) AND 1 = 1);
            position = br_bit r + 1
        in Some (b, if position = 8 then r\<lparr>br_byte := br_byte r + 1, br_bit := 0\<rparr> else r\<lparr>br_bit := position\<rparr>))"

fun read_bits_loop :: "nat \<Rightarrow> u64 \<Rightarrow> bit_reader \<Rightarrow> (u64 \<times> bit_reader) option" where
  "read_bits_loop 0 value r = Some (value, r)"
| "read_bits_loop (Suc n) value r =
     (case read_bit r of None \<Rightarrow> None
      | Some (b, r') \<Rightarrow> read_bits_loop n (push_bit 1 value OR (if b then 1 else 0)) r')"

definition read_bits :: "nat \<Rightarrow> bit_reader \<Rightarrow> (u64 \<times> bit_reader) option" where
  "read_bits n r = read_bits_loop n 0 r"

text \<open>What the streams hold, as a list of bits.\<close>

definition byte_bits :: "u8 \<Rightarrow> bool list" where
  "byte_bits b = map (bit b) (rev [0..<8])"

definition bw_bits :: "bit_writer \<Rightarrow> bool list" where
  "bw_bits w = concat (map byte_bits (bw_buffer w)) @ take (bw_position w) (byte_bits (bw_current w))"

definition bw_ok :: "bit_writer \<Rightarrow> bool" where
  "bw_ok w \<longleftrightarrow> bw_position w < 8 \<and> (\<forall>i < 8 - bw_position w. \<not> bit (bw_current w) i)"

definition br_bits :: "bit_reader \<Rightarrow> bool list" where
  "br_bits r = drop (8 * br_byte r + br_bit r) (concat (map byte_bits (br_data r)))"

definition br_ok :: "bit_reader \<Rightarrow> bool" where
  "br_ok r \<longleftrightarrow> br_bit r < 8"

definition word_bits :: "nat \<Rightarrow> u64 \<Rightarrow> bool list" where
  "word_bits n v = map (bit v) (rev [0..<n])"

lemma length_byte_bits [simp]: "length (byte_bits b) = 8"
  by (simp add: byte_bits_def)

lemma length_word_bits [simp]: "length (word_bits n v) = n"
  by (simp add: word_bits_def)

lemma word_bits_Suc: "word_bits (Suc n) v = bit v n # word_bits n v"
  by (simp add: word_bits_def)

lemma byte_bits_nth: "i < 8 \<Longrightarrow> byte_bits b ! i = bit b (7 - i)"
  by (simp add: byte_bits_def rev_nth)

lemma drop_bit_and_1: "drop_bit i v AND 1 = 1 \<longleftrightarrow> bit v i" for v :: "'a::len word"
  by (simp add: and_one_eq bit_iff_odd_drop_bit odd_iff_mod_2_eq_one)

lemma bw_ok_new [simp]: "bw_ok bw_new" "bw_bits bw_new = []"
  by (simp_all add: bw_ok_def bw_new_def bw_bits_def)

lemma write_bit_ok:
  assumes "bw_ok w"
  shows "bw_ok (write_bit b w)" "bw_bits (write_bit b w) = bw_bits w @ [b]"
proof -
  let ?p = "bw_position w" and ?c = "bw_current w"
  let ?c' = "if b then ?c OR push_bit (7 - ?p) 1 else ?c"
  have p: "?p < 8" and z: "\<And>i. i < 8 - ?p \<Longrightarrow> \<not> bit ?c i" using assms by (auto simp: bw_ok_def)
  have bits: "bit ?c' i \<longleftrightarrow> bit ?c i \<or> (b \<and> i = 7 - ?p)" for i
    using p by (auto simp: bit_simps)
  have old: "take ?p (byte_bits ?c') = take ?p (byte_bits ?c)"
    using p by (intro nth_equalityI) (auto simp: byte_bits_nth bits)
  have new: "byte_bits ?c' ! ?p = b"
    using p z [of "7 - ?p"] by (simp add: byte_bits_nth bits)
  have "take (Suc ?p) (byte_bits ?c') = take ?p (byte_bits ?c) @ [b]"
    using p by (simp add: take_Suc_conv_app_nth old new)
  then show "bw_bits (write_bit b w) = bw_bits w @ [b]"
    using p by (auto simp: write_bit_def bw_bits_def Let_def)
  show "bw_ok (write_bit b w)"
    using p z by (auto simp: write_bit_def bw_ok_def Let_def bits)
qed

lemma write_bits_ok:
  assumes "bw_ok w"
  shows "bw_ok (write_bits v n w)" "bw_bits (write_bits v n w) = bw_bits w @ word_bits n v"
proof -
  have "bw_ok (foldl (\<lambda>w i. write_bit (drop_bit i v AND 1 = 1) w) w is)
      \<and> bw_bits (foldl (\<lambda>w i. write_bit (drop_bit i v AND 1 = 1) w) w is) = bw_bits w @ map (bit v) is" for "is"
    using assms by (induction "is" arbitrary: w) (simp_all add: write_bit_ok drop_bit_and_1)
  then show "bw_ok (write_bits v n w)" "bw_bits (write_bits v n w) = bw_bits w @ word_bits n v"
    by (simp_all add: write_bits_def word_bits_def)
qed

lemma finish_bits:
  assumes "bw_ok w"
  obtains pad where "concat (map byte_bits (bw_finish w)) = bw_bits w @ pad" "length pad < 8"
proof
  let ?pad = "if bw_position w > 0 then drop (bw_position w) (byte_bits (bw_current w)) else []"
  show "concat (map byte_bits (bw_finish w)) = bw_bits w @ ?pad"
    by (simp add: bw_finish_def bw_bits_def)
  show "length ?pad < 8" by simp
qed

lemma length_concat_bytes [simp]: "length (concat (map byte_bits bs)) = 8 * length bs"
  by (induction bs) simp_all

lemma concat_bytes_nth:
  "i < length bs \<Longrightarrow> j < 8 \<Longrightarrow> concat (map byte_bits bs) ! (8 * i + j) = byte_bits (bs ! i) ! j"
proof (induction bs arbitrary: i)
  case (Cons b bs)
  then show ?case by (cases i) (simp_all add: nth_append)
qed simp

lemma br_new_bits [simp]: "br_ok (br_new data)" "br_bits (br_new data) = concat (map byte_bits data)"
  by (simp_all add: br_ok_def br_bits_def br_new_def)

lemma read_bit_Cons:
  assumes "br_ok r" "br_bits r = b # bs"
  obtains r' where "read_bit r = Some (b, r')" "br_ok r'" "br_bits r' = bs"
proof -
  let ?i = "br_byte r" and ?j = "br_bit r" and ?all = "concat (map byte_bits (br_data r))"
  have j: "?j < 8" using assms(1) by (simp add: br_ok_def)
  have len: "8 * ?i + ?j < 8 * length (br_data r)"
    using arg_cong [OF assms(2), of length] by (simp add: br_bits_def)
  then have i: "?i < length (br_data r)" by simp
  have "b = ?all ! (8 * ?i + ?j)"
    using assms(2) len by (simp add: br_bits_def) (metis Cons_nth_drop_Suc length_concat_bytes list.inject)
  then have b: "b = bit (br_data r ! ?i) (7 - ?j)"
    using i j by (simp add: concat_bytes_nth byte_bits_nth)
  have bs: "bs = drop (Suc (8 * ?i + ?j)) ?all"
    using assms(2) len by (simp add: br_bits_def) (metis Cons_nth_drop_Suc length_concat_bytes list.inject)
  show thesis
  proof (rule that)
    show "read_bit r = Some (b, if ?j + 1 = 8 then r\<lparr>br_byte := ?i + 1, br_bit := 0\<rparr> else r\<lparr>br_bit := ?j + 1\<rparr>)"
      using i by (simp add: read_bit_def Let_def drop_bit_and_1 b)
    show "br_ok (if ?j + 1 = 8 then r\<lparr>br_byte := ?i + 1, br_bit := 0\<rparr> else r\<lparr>br_bit := ?j + 1\<rparr>)"
      using j by (auto simp: br_ok_def)
    show "br_bits (if ?j + 1 = 8 then r\<lparr>br_byte := ?i + 1, br_bit := 0\<rparr> else r\<lparr>br_bit := ?j + 1\<rparr>) = bs"
      using j by (auto simp: br_bits_def bs intro: arg_cong [where f = "\<lambda>n. drop n ?all"])
  qed
qed

lemma read_bits_loop_word:
  assumes "br_ok r" "br_bits r = word_bits n v @ rest"
  obtains r' where "read_bits_loop n acc r = Some (push_bit n acc OR take_bit n v, r')" "br_ok r'" "br_bits r' = rest"
  using assms
proof (induction n arbitrary: acc r thesis)
  case (Suc n)
  obtain r1 where r1: "read_bit r = Some (bit v n, r1)" "br_ok r1" "br_bits r1 = word_bits n v @ rest"
    using read_bit_Cons [OF Suc.prems(2)] Suc.prems(3) by (auto simp: word_bits_Suc)
  let ?acc = "push_bit 1 acc OR (if bit v n then 1 else 0)"
  obtain r2 where r2: "read_bits_loop n ?acc r1 = Some (push_bit n ?acc OR take_bit n v, r2)" "br_ok r2" "br_bits r2 = rest"
    using Suc.IH [OF _ r1(2,3)] by blast
  have "push_bit n ?acc OR take_bit n v = push_bit (Suc n) acc OR take_bit (Suc n) v"
    by (rule bit_word_eqI) (auto simp: bit_simps less_Suc_eq le_Suc_eq not_le
        dest: le_antisym intro: arg_cong [where f = "bit v"])
  with r1 r2 Suc.prems(1) show ?case by simp
qed (simp add: word_bits_def)

lemma read_bits_word:
  assumes "br_ok r" "br_bits r = word_bits n v @ rest" "take_bit n v = v"
  obtains r' where "read_bits n r = Some (v, r')" "br_ok r'" "br_bits r' = rest"
proof -
  obtain r' where "read_bits_loop n 0 r = Some (push_bit n 0 OR take_bit n v, r')" "br_ok r'" "br_bits r' = rest"
    using read_bits_loop_word [OF assms(1,2)] by blast
  then show thesis using that assms(3) by (simp add: read_bits_def)
qed

section \<open>Points and blocks\<close>

record data_point =
  dp_timestamp :: int
  dp_value :: f64

definition timestamp_millis :: "data_point \<Rightarrow> int" where
  "timestamp_millis p = dp_timestamp p div 1000000"

text \<open>\<^verbatim>\<open>DateTime::from_timestamp_millis\<close>.\<close>

definition from_millis :: "(int \<Rightarrow> bool) \<Rightarrow> int \<Rightarrow> int option" where
  "from_millis valid ms = (if valid ms then Some (ms * 1000000) else None)"

record compressed_block =
  cb_data :: bytes
  cb_first_timestamp :: int
  cb_last_timestamp :: int
  cb_count :: nat
  cb_checksum :: u32

definition cb_verify_checksum :: "(bytes \<Rightarrow> u32) \<Rightarrow> compressed_block \<Rightarrow> bool" where
  "cb_verify_checksum crc b \<longleftrightarrow> crc (cb_data b) = cb_checksum b"

section \<open>Compressor\<close>

definition leading_zeros :: "u64 \<Rightarrow> nat" where
  "leading_zeros w = length (takeWhile (\<lambda>i. \<not> bit w i) (rev [0..<64]))"

definition trailing_zeros :: "u64 \<Rightarrow> nat" where
  "trailing_zeros w = length (takeWhile (\<lambda>i. \<not> bit w i) [0..<64])"

record compressor =
  cp_writer :: bit_writer
  cp_first :: "int option"
  cp_prev_timestamp :: int
  cp_prev_delta :: int
  cp_prev_bits :: u64
  cp_prev_leading :: nat
  cp_prev_trailing :: nat
  cp_count :: nat

definition compressor_new :: compressor where
  "compressor_new =
     \<lparr>cp_writer = bw_new, cp_first = None, cp_prev_timestamp = 0, cp_prev_delta = 0, cp_prev_bits = 0,
      cp_prev_leading = 64, cp_prev_trailing = 64, cp_count = 0\<rparr>"

definition compress_timestamp :: "int \<Rightarrow> compressor \<Rightarrow> compressor" where
  "compress_timestamp timestamp c =
     (let delta = wrap_i64 (timestamp - cp_prev_timestamp c);
          dod = wrap_i64 (delta - cp_prev_delta c);
          w = cp_writer c;
          w' = (if dod = 0 then write_bit False w
                else if - 63 \<le> dod \<and> dod \<le> 64 then write_bits (of_int (dod + 63)) 7 (write_bits 2 2 w)
                else if - 255 \<le> dod \<and> dod \<le> 256 then write_bits (of_int (dod + 255)) 9 (write_bits 6 3 w)
                else if - 2047 \<le> dod \<and> dod \<le> 2048 then write_bits (of_int (dod + 2047)) 12 (write_bits 14 4 w)
                else write_bits (of_int dod) 64 (write_bits 15 4 w))
      in c\<lparr>cp_writer := w', cp_prev_delta := delta\<rparr>)"

definition compress_value :: "u64 \<Rightarrow> compressor \<Rightarrow> compressor" where
  "compress_value value_bits c =
     (let x = cp_prev_bits c XOR value_bits; w = cp_writer c in
      if x = 0 then c\<lparr>cp_writer := write_bit False w\<rparr>
      else
        let w1 = write_bit True w; lead = leading_zeros x; trail = trailing_zeros x in
        if lead \<ge> cp_prev_leading c \<and> trail \<ge> cp_prev_trailing c then
          let meaningful = 64 - cp_prev_leading c - cp_prev_trailing c
          in c\<lparr>cp_writer := write_bits (drop_bit (cp_prev_trailing c) x) meaningful (write_bit False w1)\<rparr>
        else
          let meaningful = 64 - lead - trail;
              w2 = write_bits (of_nat lead) 6 (write_bit True w1);
              w3 = write_bits (of_nat meaningful AND 0x3f) 6 w2
          in c\<lparr>cp_writer := write_bits (drop_bit trail x) meaningful w3,
               cp_prev_leading := lead, cp_prev_trailing := trail\<rparr>)"

definition compress :: "data_point \<Rightarrow> compressor \<Rightarrow> compressor" where
  "compress p c =
     (let timestamp = timestamp_millis p; value_bits = dp_value p in
      case cp_first c of
        None \<Rightarrow>
          c\<lparr>cp_first := Some timestamp,
            cp_writer := write_bits value_bits 64 (write_bits (of_int timestamp) 64 (cp_writer c)),
            cp_prev_timestamp := timestamp, cp_prev_bits := value_bits, cp_count := 1\<rparr>
      | Some _ \<Rightarrow>
          let c2 = compress_value value_bits (compress_timestamp timestamp c)
          in c2\<lparr>cp_prev_timestamp := timestamp, cp_prev_bits := value_bits, cp_count := cp_count c2 + 1\<rparr>)"

definition compressor_finish :: "(bytes \<Rightarrow> u32) \<Rightarrow> compressor \<Rightarrow> compressed_block" where
  "compressor_finish crc c =
     (let data = bw_finish (cp_writer c)
      in \<lparr>cb_data = data, cb_first_timestamp = (case cp_first c of None \<Rightarrow> 0 | Some t \<Rightarrow> t),
          cb_last_timestamp = cp_prev_timestamp c, cb_count = cp_count c, cb_checksum = crc data\<rparr>)"

definition compress_all :: "(bytes \<Rightarrow> u32) \<Rightarrow> data_point list \<Rightarrow> compressed_block" where
  "compress_all crc ps = compressor_finish crc (foldl (\<lambda>c p. compress p c) compressor_new ps)"

section \<open>Decompressor\<close>

record decompressor =
  dc_reader :: bit_reader
  dc_prev_timestamp :: int
  dc_prev_delta :: int
  dc_prev_bits :: u64
  dc_prev_leading :: nat
  dc_prev_trailing :: nat
  dc_remaining :: nat
  dc_first_read :: bool

definition decompressor_new :: "compressed_block \<Rightarrow> decompressor" where
  "decompressor_new b =
     \<lparr>dc_reader = br_new (cb_data b), dc_prev_timestamp = 0, dc_prev_delta = 0, dc_prev_bits = 0,
      dc_prev_leading = 0, dc_prev_trailing = 0, dc_remaining = cb_count b, dc_first_read = True\<rparr>"

definition checked_add_i64 :: "int \<Rightarrow> int \<Rightarrow> int option" where
  "checked_add_i64 a b = (if - (2 ^ 63) \<le> a + b \<and> a + b < 2 ^ 63 then Some (a + b) else None)"

definition checked_shl :: "u64 \<Rightarrow> nat \<Rightarrow> u64 option" where
  "checked_shl v n = (if n < 64 then Some (push_bit n v) else None)"

definition read_dod :: "bit_reader \<Rightarrow> (int \<times> bit_reader) option" where
  "read_dod r0 =
     (case read_bit r0 of None \<Rightarrow> None
      | Some (b1, r1) \<Rightarrow>
          if \<not> b1 then Some (0, r1)
          else case read_bit r1 of None \<Rightarrow> None
               | Some (b2, r2) \<Rightarrow>
                   if \<not> b2 then map_option (\<lambda>(v, r). (sint v - 63, r)) (read_bits 7 r2)
                   else case read_bit r2 of None \<Rightarrow> None
                        | Some (b3, r3) \<Rightarrow>
                            if \<not> b3 then map_option (\<lambda>(v, r). (sint v - 255, r)) (read_bits 9 r3)
                            else case read_bit r3 of None \<Rightarrow> None
                                 | Some (b4, r4) \<Rightarrow>
                                     if \<not> b4 then map_option (\<lambda>(v, r). (sint v - 2047, r)) (read_bits 12 r4)
                                     else map_option (\<lambda>(v, r). (sint v, r)) (read_bits 64 r4))"

definition decompress_timestamp :: "decompressor \<Rightarrow> (int \<times> decompressor) option" where
  "decompress_timestamp d =
     (case read_dod (dc_reader d) of None \<Rightarrow> None
      | Some (dod, r) \<Rightarrow>
          case checked_add_i64 (dc_prev_delta d) dod of None \<Rightarrow> None
          | Some delta \<Rightarrow>
              map_option (\<lambda>t. (t, d\<lparr>dc_reader := r, dc_prev_delta := delta\<rparr>))
                (checked_add_i64 (dc_prev_timestamp d) delta))"

definition decompress_value :: "decompressor \<Rightarrow> (u64 \<times> decompressor) option" where
  "decompress_value d =
     (case read_bit (dc_reader d) of None \<Rightarrow> None
      | Some (changed, r1) \<Rightarrow>
          if \<not> changed then Some (dc_prev_bits d, d\<lparr>dc_reader := r1\<rparr>)
          else case read_bit r1 of None \<Rightarrow> None
               | Some (header, r2) \<Rightarrow>
                   if \<not> header then
                     if 64 < dc_prev_leading d + dc_prev_trailing d then None
                     else
                       let meaningful = 64 - dc_prev_leading d - dc_prev_trailing d in
                       if meaningful = 0 then None
                       else case read_bits meaningful r2 of None \<Rightarrow> None
                            | Some (v, r3) \<Rightarrow>
                                map_option (\<lambda>x. (dc_prev_bits d XOR x, d\<lparr>dc_reader := r3\<rparr>))
                                  (checked_shl v (dc_prev_trailing d))
                   else case read_bits 6 r2 of None \<Rightarrow> None
                        | Some (lead, r3) \<Rightarrow>
                            case read_bits 6 r3 of None \<Rightarrow> None
                            | Some (m, r4) \<Rightarrow>
                                let meaningful = (if m = 0 then 64 else unat m) in
                                if 64 < unat lead + meaningful then None
                                else
                                  let trail = 64 - unat lead - meaningful in
                                  case read_bits meaningful r4 of None \<Rightarrow> None
                                  | Some (v, r5) \<Rightarrow>
                                      map_option
                                        (\<lambda>x. (dc_prev_bits d XOR x,
                                              d\<lparr>dc_reader := r5, dc_prev_leading := unat lead, dc_prev_trailing := trail\<rparr>))
                                        (checked_shl v trail))"

text \<open>\<^verbatim>\<open>next\<close>; the state after a failure is not used again.\<close>

definition dc_next :: "(int \<Rightarrow> bool) \<Rightarrow> decompressor \<Rightarrow> (data_point \<times> decompressor) option" where
  "dc_next valid d0 =
     (if dc_remaining d0 = 0 then None
      else
        let d = d0\<lparr>dc_remaining := dc_remaining d0 - 1\<rparr> in
        if dc_first_read d then
          case read_bits 64 (dc_reader d) of None \<Rightarrow> None
          | Some (ts, r1) \<Rightarrow>
              case read_bits 64 r1 of None \<Rightarrow> None
              | Some (v, r2) \<Rightarrow>
                  map_option (\<lambda>t. (\<lparr>dp_timestamp = t, dp_value = v\<rparr>,
                      d\<lparr>dc_first_read := False, dc_reader := r2, dc_prev_timestamp := sint ts, dc_prev_bits := v\<rparr>))
                    (from_millis valid (sint ts))
        else
          case decompress_timestamp d of None \<Rightarrow> None
          | Some (ts, d1) \<Rightarrow>
              case decompress_value d1 of None \<Rightarrow> None
              | Some (v, d2) \<Rightarrow>
                  map_option (\<lambda>t. (\<lparr>dp_timestamp = t, dp_value = v\<rparr>,
                      d2\<lparr>dc_prev_timestamp := ts, dc_prev_bits := v\<rparr>))
                    (from_millis valid ts))"

lemma dc_next_remaining: "dc_next valid d = Some (p, d') \<Longrightarrow> dc_remaining d' < dc_remaining d"
  by (auto simp: dc_next_def decompress_timestamp_def decompress_value_def Let_def
      split: if_splits option.splits prod.splits)

function decompress_all :: "(int \<Rightarrow> bool) \<Rightarrow> decompressor \<Rightarrow> data_point list" where
  "decompress_all valid d =
     (case dc_next valid d of None \<Rightarrow> [] | Some (p, d') \<Rightarrow> p # decompress_all valid d')"
  by pat_completeness auto
termination
  by (relation "measure (\<lambda>(valid, d). dc_remaining d)") (auto dest: dc_next_remaining)

declare decompress_all.simps [simp del]

section \<open>Zeros at the ends of a word\<close>

lemma leading_zeros_bit:
  assumes "64 - leading_zeros w \<le> i"
  shows "\<not> bit w i"
proof (cases "i < 64")
  case True
  let ?k = "63 - i"
  have k: "?k < leading_zeros w" using assms True by linarith
  then have "rev [0..<64] ! ?k = i" using True by (simp add: rev_nth)
  moreover have "\<not> bit w (takeWhile (\<lambda>i. \<not> bit w i) (rev [0..<64]) ! ?k)"
    using nth_mem [OF k [unfolded leading_zeros_def]] set_takeWhileD by fast
  ultimately show ?thesis
    using takeWhile_nth [OF k [unfolded leading_zeros_def]] by simp
qed (simp add: bit_word.rep_eq bit_take_bit_iff)

lemma trailing_zeros_bit:
  assumes "i < trailing_zeros w"
  shows "\<not> bit w i"
proof -
  have len: "length (takeWhile (\<lambda>i. \<not> bit w i) [0..<64]) \<le> 64" using length_takeWhile_le [of _ "[0..<64]"] by simp
  have "takeWhile (\<lambda>i. \<not> bit w i) [0..<64] ! i = i"
    using assms len by (simp add: takeWhile_nth trailing_zeros_def)
  then show ?thesis
    using nth_mem [OF assms [unfolded trailing_zeros_def]] set_takeWhileD by fastforce
qed

lemma zeros_sum:
  assumes "w \<noteq> 0"
  shows "leading_zeros w + trailing_zeros w < 64"
proof -
  have "w = 0" if "\<And>i. \<not> bit w i" by (rule bit_word_eqI) (simp add: that)
  with assms obtain i where i: "bit w i" by blast
  then have "i < 64 - leading_zeros w" "trailing_zeros w \<le> i"
    using leading_zeros_bit [of w i] trailing_zeros_bit [of i w] by (auto simp: not_le [symmetric])
  then show ?thesis by linarith
qed

text \<open>The bits between the zeros carry the word.\<close>

lemma meaningful_bits:
  assumes "l \<le> leading_zeros x" "t \<le> trailing_zeros x"
  shows "take_bit (64 - l - t) (drop_bit t x) = drop_bit t x" "push_bit t (drop_bit t x) = x"
proof -
  have hi: "i < 64 - l" if "bit x i" for i
    using leading_zeros_bit [of x i] that assms(1) by linarith
  have lo: "t \<le> i" if "bit x i" for i
    using trailing_zeros_bit [of i x] that assms(2) by (cases "i < t") auto
  show "take_bit (64 - l - t) (drop_bit t x) = drop_bit t x"
  proof (rule bit_word_eqI)
    fix n
    show "bit (take_bit (64 - l - t) (drop_bit t x)) n = bit (drop_bit t x) n"
      using hi [of "t + n"] by (auto simp: bit_simps)
  qed
  show "push_bit t (drop_bit t x) = x"
  proof (rule bit_word_eqI)
    fix n
    show "bit (push_bit t (drop_bit t x)) n = bit x n"
      using lo [of n] bit_imp_le_length [of x n] by (auto simp: bit_simps)
  qed
qed

section \<open>The code of one point\<close>

definition dod_code :: "int \<Rightarrow> bool list" where
  "dod_code d =
     (if d = 0 then [False]
      else if - 63 \<le> d \<and> d \<le> 64 then [True, False] @ word_bits 7 (of_int (d + 63))
      else if - 255 \<le> d \<and> d \<le> 256 then [True, True, False] @ word_bits 9 (of_int (d + 255))
      else if - 2047 \<le> d \<and> d \<le> 2048 then [True, True, True, False] @ word_bits 12 (of_int (d + 2047))
      else [True, True, True, True] @ word_bits 64 (of_int d))"

lemma bit_numerals: "word_bits 2 2 = [True, False]" "word_bits 3 6 = [True, True, False]"
    "word_bits 4 14 = [True, True, True, False]" "word_bits 4 15 = [True, True, True, True]"
  by (simp_all add: word_bits_def upt_rec)

lemma compress_timestamp_code:
  fixes t :: int
  assumes "bw_ok (cp_writer c)"
  defines "delta \<equiv> wrap_i64 (t - cp_prev_timestamp c)"
  shows "bw_ok (cp_writer (compress_timestamp t c))"
    "bw_bits (cp_writer (compress_timestamp t c)) = bw_bits (cp_writer c) @ dod_code (wrap_i64 (delta - cp_prev_delta c))"
    "cp_prev_delta (compress_timestamp t c) = delta"
  using assms(1)
  by (simp_all add: compress_timestamp_def Let_def delta_def dod_code_def write_bits_ok write_bit_ok bit_numerals)

lemma take_bit_of_int_small:
  "0 \<le> i \<Longrightarrow> i < 2 ^ n \<Longrightarrow> n \<le> 64 \<Longrightarrow> take_bit n (of_int i :: u64) = of_int i"
  by (rule bit_word_eqI) (metis bit_take_bit_iff bit_of_int_iff take_bit_int_eq_self)

lemma sint_of_int_u64: "- (2 ^ 63) \<le> i \<Longrightarrow> i < 2 ^ 63 \<Longrightarrow> sint (of_int i :: u64) = i"
  by (simp add: sint_word_ariths signed_of_int signed_take_bit_int_eq_self)

lemma read_signed:
  assumes "br_ok r" "br_bits r = word_bits n (of_int i) @ rest" "take_bit n (of_int i :: u64) = of_int i"
    and "- (2 ^ 63) \<le> i" "i < 2 ^ 63"
  obtains r' v where "read_bits n r = Some (v, r')" "sint v = i" "br_ok r'" "br_bits r' = rest"
proof -
  obtain r' where r': "read_bits n r = Some (of_int i, r')" "br_ok r'" "br_bits r' = rest"
    using read_bits_word [OF assms(1-3)] by blast
  show thesis by (rule that [OF r'(1) sint_of_int_u64 [OF assms(4,5)] r'(2,3)])
qed

lemma read_dod_code:
  assumes "br_ok r" "br_bits r = dod_code d @ rest" "- (2 ^ 63) \<le> d" "d < 2 ^ 63"
  obtains r' where "read_dod r = Some (d, r')" "br_ok r'" "br_bits r' = rest"
proof (cases "d = 0")
  case True
  then have "br_bits r = False # rest" using assms(2) by (simp add: dod_code_def)
  from read_bit_Cons [OF assms(1) this] obtain r1 where "read_bit r = Some (False, r1)" "br_ok r1" "br_bits r1 = rest"
    by blast
  with True show thesis using that by (simp add: read_dod_def)
next
  case nz: False
  then obtain bs1 where bs1: "br_bits r = True # bs1"
    using assms(2) by (auto simp: dod_code_def split: if_splits)
  obtain r1 where r1: "read_bit r = Some (True, r1)" "br_ok r1" "br_bits r1 = bs1"
    using read_bit_Cons [OF assms(1) bs1] by blast
  show thesis
  proof (cases "- 63 \<le> d \<and> d \<le> 64")
    case True
    then have "br_bits r1 = False # word_bits 7 (of_int (d + 63)) @ rest"
      using assms(2) bs1 r1(3) nz by (simp add: dod_code_def)
    from read_bit_Cons [OF r1(2) this] obtain r2 where r2: "read_bit r1 = Some (False, r2)" "br_ok r2"
        "br_bits r2 = word_bits 7 (of_int (d + 63)) @ rest" by blast
    obtain r3 v where "read_bits 7 r2 = Some (v, r3)" "sint v = d + 63" "br_ok r3" "br_bits r3 = rest"
      by (rule read_signed [OF r2(2,3) take_bit_of_int_small]) (use True in simp_all)
    with r1(1) r2(1) show thesis using that by (simp add: read_dod_def)
  next
    case no7: False
    then obtain bs2 where bs2: "br_bits r1 = True # bs2"
      using assms(2) bs1 r1(3) nz by (auto simp: dod_code_def split: if_splits)
    obtain r2 where r2: "read_bit r1 = Some (True, r2)" "br_ok r2" "br_bits r2 = bs2"
      using read_bit_Cons [OF r1(2) bs2] by blast
    show thesis
    proof (cases "- 255 \<le> d \<and> d \<le> 256")
      case True
      then have "br_bits r2 = False # word_bits 9 (of_int (d + 255)) @ rest"
        using assms(2) bs1 r1(3) bs2 r2(3) nz no7 by (auto simp: dod_code_def)
      from read_bit_Cons [OF r2(2) this] obtain r3 where r3: "read_bit r2 = Some (False, r3)" "br_ok r3"
          "br_bits r3 = word_bits 9 (of_int (d + 255)) @ rest" by blast
      obtain r4 v where "read_bits 9 r3 = Some (v, r4)" "sint v = d + 255" "br_ok r4" "br_bits r4 = rest"
        by (rule read_signed [OF r3(2,3) take_bit_of_int_small]) (use True in simp_all)
      with r1(1) r2(1) r3(1) show thesis using that by (simp add: read_dod_def)
    next
      case no9: False
      then obtain bs3 where bs3: "br_bits r2 = True # bs3"
        using assms(2) bs1 r1(3) bs2 r2(3) nz no7 by (auto simp: dod_code_def split: if_splits)
      obtain r3 where r3: "read_bit r2 = Some (True, r3)" "br_ok r3" "br_bits r3 = bs3"
        using read_bit_Cons [OF r2(2) bs3] by blast
      show thesis
      proof (cases "- 2047 \<le> d \<and> d \<le> 2048")
        case True
        then have "br_bits r3 = False # word_bits 12 (of_int (d + 2047)) @ rest"
          using assms(2) bs1 r1(3) bs2 r2(3) bs3 r3(3) nz no7 no9 by (auto simp: dod_code_def)
        from read_bit_Cons [OF r3(2) this] obtain r4 where r4: "read_bit r3 = Some (False, r4)" "br_ok r4"
            "br_bits r4 = word_bits 12 (of_int (d + 2047)) @ rest" by blast
        obtain r5 v where "read_bits 12 r4 = Some (v, r5)" "sint v = d + 2047" "br_ok r5" "br_bits r5 = rest"
          by (rule read_signed [OF r4(2,3) take_bit_of_int_small]) (use True in simp_all)
        with r1(1) r2(1) r3(1) r4(1) show thesis using that by (simp add: read_dod_def)
      next
        case False
        then have "br_bits r3 = True # word_bits 64 (of_int d) @ rest"
          using assms(2) bs1 r1(3) bs2 r2(3) bs3 r3(3) nz no7 no9 by (auto simp: dod_code_def)
        from read_bit_Cons [OF r3(2) this] obtain r4 where r4: "read_bit r3 = Some (True, r4)" "br_ok r4"
            "br_bits r4 = word_bits 64 (of_int d) @ rest" by blast
        have "take_bit 64 (of_int d :: u64) = of_int d" by (rule bit_word_eqI) (simp add: bit_simps)
        then obtain r5 v where "read_bits 64 r4 = Some (v, r5)" "sint v = d" "br_ok r5" "br_bits r5 = rest"
          using read_signed [OF r4(2,3) _ assms(3,4)] by blast
        with r1(1) r2(1) r3(1) r4(1) show thesis using that by (simp add: read_dod_def)
      qed
    qed
  qed
qed

definition value_code :: "nat \<Rightarrow> nat \<Rightarrow> u64 \<Rightarrow> bool list" where
  "value_code l t x =
     (if x = 0 then [False]
      else if l \<le> leading_zeros x \<and> t \<le> trailing_zeros x
           then [True, False] @ word_bits (64 - l - t) (drop_bit t x)
      else [True, True] @ word_bits 6 (of_nat (leading_zeros x))
           @ word_bits 6 (of_nat (64 - leading_zeros x - trailing_zeros x) AND 0x3f)
           @ word_bits (64 - leading_zeros x - trailing_zeros x) (drop_bit (trailing_zeros x) x))"

text \<open>The window of meaningful bits after a value.\<close>

definition next_window :: "nat \<times> nat \<Rightarrow> u64 \<Rightarrow> nat \<times> nat" where
  "next_window w x =
     (if x = 0 \<or> fst w \<le> leading_zeros x \<and> snd w \<le> trailing_zeros x then w
      else (leading_zeros x, trailing_zeros x))"

lemma compress_value_code:
  fixes c :: compressor and v :: u64
  assumes "bw_ok (cp_writer c)"
  defines "x \<equiv> cp_prev_bits c XOR v" and "w \<equiv> (cp_prev_leading c, cp_prev_trailing c)"
  shows "bw_ok (cp_writer (compress_value v c))"
    "bw_bits (cp_writer (compress_value v c)) = bw_bits (cp_writer c) @ value_code (fst w) (snd w) x"
    "(cp_prev_leading (compress_value v c), cp_prev_trailing (compress_value v c)) = next_window w x"
  using assms(1)
  by (simp_all add: compress_value_def Let_def value_code_def next_window_def x_def w_def write_bits_ok write_bit_ok)

lemma compress_frames [simp]:
  "cp_first (compress_timestamp t c) = cp_first c" "cp_prev_timestamp (compress_timestamp t c) = cp_prev_timestamp c"
  "cp_prev_bits (compress_timestamp t c) = cp_prev_bits c" "cp_count (compress_timestamp t c) = cp_count c"
  "cp_prev_leading (compress_timestamp t c) = cp_prev_leading c"
  "cp_prev_trailing (compress_timestamp t c) = cp_prev_trailing c"
  "cp_first (compress_value v c) = cp_first c" "cp_prev_timestamp (compress_value v c) = cp_prev_timestamp c"
  "cp_prev_delta (compress_value v c) = cp_prev_delta c" "cp_count (compress_value v c) = cp_count c"
  "cp_prev_bits (compress_value v c) = cp_prev_bits c"
  by (simp_all add: compress_timestamp_def compress_value_def Let_def)

text \<open>The windows of the two sides: the same, or the compressor has written none yet.\<close>

definition windows :: "nat \<times> nat \<Rightarrow> nat \<times> nat \<Rightarrow> bool" where
  "windows w w' \<longleftrightarrow> w = (64, 64) \<or> (w' = w \<and> fst w + snd w < 64)"

lemma six_bits: "n < 64 \<Longrightarrow> take_bit 6 (of_nat n :: u64) = of_nat n"
  using take_bit_of_int_small [of "int n" 6] by simp

lemma meaningful_field:
  assumes "0 < m" "m \<le> 64"
  shows "take_bit 6 (of_nat m AND 0x3f :: u64) = of_nat m AND 0x3f"
    "(if (of_nat m AND 0x3f :: u64) = 0 then 64 else unat (of_nat m AND 0x3f :: u64)) = m"
proof -
  have mask: "(of_nat m AND 0x3f :: u64) = take_bit 6 (of_nat m)"
    by (simp add: take_bit_eq_mask mask_eq_exp_minus_1)
  then show "take_bit 6 (of_nat m AND 0x3f :: u64) = of_nat m AND 0x3f" by simp
  show "(if (of_nat m AND 0x3f :: u64) = 0 then 64 else unat (of_nat m AND 0x3f :: u64)) = m"
  proof (cases "m = 64")
    case True
    then show ?thesis by simp
  next
    case False
    then have "m < 64" using assms by simp
    then have "(of_nat m AND 0x3f :: u64) = of_nat m" using six_bits mask by simp
    moreover have "unat (of_nat m :: u64) = m" using \<open>m < 64\<close> by (simp add: unat_of_nat_u64)
    ultimately show ?thesis using assms(1) by (auto simp: unat_eq_0)
  qed
qed

lemma decompress_value_code:
  fixes d :: decompressor
  assumes "br_ok (dc_reader d)" "br_bits (dc_reader d) = value_code (fst w) (snd w) x @ rest"
    and "windows w (dc_prev_leading d, dc_prev_trailing d)"
  obtains d' where "decompress_value d = Some (dc_prev_bits d XOR x, d')"
    "br_ok (dc_reader d')" "br_bits (dc_reader d') = rest"
    "windows (next_window w x) (dc_prev_leading d', dc_prev_trailing d')"
    "dc_remaining d' = dc_remaining d" "dc_first_read d' = dc_first_read d" "dc_prev_delta d' = dc_prev_delta d"
proof (cases "x = 0")
  case True
  then have "br_bits (dc_reader d) = False # rest" using assms(2) by (simp add: value_code_def)
  from read_bit_Cons [OF assms(1) this] obtain r1
    where "read_bit (dc_reader d) = Some (False, r1)" "br_ok r1" "br_bits r1 = rest" by blast
  with True show thesis using that [of "d\<lparr>dc_reader := r1\<rparr>"] assms(3)
    by (simp add: decompress_value_def next_window_def)
next
  case nz: False
  then obtain bs1 where bs1: "br_bits (dc_reader d) = True # bs1"
    using assms(2) by (auto simp: value_code_def split: if_splits)
  obtain r1 where r1: "read_bit (dc_reader d) = Some (True, r1)" "br_ok r1" "br_bits r1 = bs1"
    using read_bit_Cons [OF assms(1) bs1] by blast
  show thesis
  proof (cases "fst w \<le> leading_zeros x \<and> snd w \<le> trailing_zeros x")
    case True
    let ?l = "fst w" and ?t = "snd w"
    have eq: "(dc_prev_leading d, dc_prev_trailing d) = w" "?l + ?t < 64"
      using assms(3) True zeros_sum [OF nz] by (auto simp: windows_def)
    then have lt: "dc_prev_leading d = ?l" "dc_prev_trailing d = ?t" by auto
    have "br_bits r1 = False # word_bits (64 - ?l - ?t) (drop_bit ?t x) @ rest"
      using assms(2) bs1 r1(3) nz True by (simp add: value_code_def)
    from read_bit_Cons [OF r1(2) this] obtain r2 where r2: "read_bit r1 = Some (False, r2)" "br_ok r2"
        "br_bits r2 = word_bits (64 - ?l - ?t) (drop_bit ?t x) @ rest" by blast
    obtain r3 where r3: "read_bits (64 - ?l - ?t) r2 = Some (drop_bit ?t x, r3)" "br_ok r3" "br_bits r3 = rest"
      using read_bits_word [OF r2(2,3)] meaningful_bits(1) True by blast
    have "decompress_value d = Some (dc_prev_bits d XOR x, d\<lparr>dc_reader := r3\<rparr>)"
      using r1(1) r2(1) r3(1) eq(2) meaningful_bits(2) [of ?l x ?t] True
      by (simp add: decompress_value_def Let_def lt checked_shl_def)
    then show thesis using that r3 assms(3) nz True by (simp add: next_window_def)
  next
    case False
    let ?l = "leading_zeros x" and ?t = "trailing_zeros x"
    define m where "m = 64 - ?l - ?t"
    note sum = zeros_sum [OF nz]
    have "br_bits r1 = True # word_bits 6 (of_nat ?l) @ word_bits 6 (of_nat m AND 0x3f)
        @ word_bits m (drop_bit ?t x) @ rest"
      using assms(2) bs1 r1(3) nz False by (simp add: value_code_def m_def)
    from read_bit_Cons [OF r1(2) this] obtain r2 where r2: "read_bit r1 = Some (True, r2)" "br_ok r2"
        "br_bits r2 = word_bits 6 (of_nat ?l) @ word_bits 6 (of_nat m AND 0x3f) @ word_bits m (drop_bit ?t x) @ rest"
      by blast
    have l6: "take_bit 6 (of_nat ?l :: u64) = of_nat ?l" using sum by (intro six_bits) simp
    obtain r3 where r3: "read_bits 6 r2 = Some (of_nat ?l, r3)" "br_ok r3"
        "br_bits r3 = word_bits 6 (of_nat m AND 0x3f) @ word_bits m (drop_bit ?t x) @ rest"
      using read_bits_word [OF r2(2,3) l6] by blast
    have m: "0 < m" "m \<le> 64" using sum by (simp_all add: m_def)
    obtain r4 where r4: "read_bits 6 r3 = Some (of_nat m AND 0x3f, r4)" "br_ok r4"
        "br_bits r4 = word_bits m (drop_bit ?t x) @ rest"
      using read_bits_word [OF r3(2,3) meaningful_field(1) [OF m]] by blast
    obtain r5 where r5: "read_bits m r4 = Some (drop_bit ?t x, r5)" "br_ok r5" "br_bits r5 = rest"
      using read_bits_word [OF r4(2,3)] meaningful_bits(1) [of ?l x ?t] by (auto simp: m_def)
    have ul: "unat (of_nat ?l :: u64) = ?l" using sum by (simp add: unat_of_nat_u64)
    have trail: "64 - ?l - m = ?t" "?l + m \<le> 64" using sum by (simp_all add: m_def)
    let ?d = "d\<lparr>dc_reader := r5, dc_prev_leading := ?l, dc_prev_trailing := ?t\<rparr>"
    have "decompress_value d = Some (dc_prev_bits d XOR x, ?d)"
      using r1(1) r2(1) r3(1) r4(1) r5(1) sum meaningful_bits(2) [of ?l x ?t]
      by (simp add: decompress_value_def Let_def meaningful_field(2) [OF m] ul trail not_less checked_shl_def del: diff_diff_left)
    moreover have "windows (next_window w x) (?l, ?t)" using False nz sum by (auto simp: windows_def next_window_def)
    ultimately show thesis using that [of ?d] r5 by simp
  qed
qed

section \<open>The round trip\<close>

text \<open>What is documented of the calendar: its times are within some 263 thousand years of 1970, less
  than \<open>2^60\<close> milliseconds away.\<close>

definition calendar_ok :: "(int \<Rightarrow> bool) \<Rightarrow> bool" where
  "calendar_ok valid \<longleftrightarrow> (\<forall>ms. valid ms \<longrightarrow> - (2 ^ 60) \<le> ms \<and> ms \<le> 2 ^ 60)"

text \<open>A point loses what is below the millisecond.\<close>

definition truncate_ms :: "data_point \<Rightarrow> data_point" where
  "truncate_ms p = p\<lparr>dp_timestamp := timestamp_millis p * 1000000\<rparr>"

definition point_ok :: "(int \<Rightarrow> bool) \<Rightarrow> data_point \<Rightarrow> bool" where
  "point_ok valid p \<longleftrightarrow> valid (timestamp_millis p)"

definition point_code :: "compressor \<Rightarrow> data_point \<Rightarrow> bool list" where
  "point_code c p =
     (if cp_first c = None then word_bits 64 (of_int (timestamp_millis p)) @ word_bits 64 (dp_value p)
      else dod_code (wrap_i64 (wrap_i64 (timestamp_millis p - cp_prev_timestamp c) - cp_prev_delta c))
           @ value_code (cp_prev_leading c) (cp_prev_trailing c) (cp_prev_bits c XOR dp_value p))"

lemma compress_code:
  assumes "bw_ok (cp_writer c)"
  shows "bw_ok (cp_writer (compress p c))"
    "bw_bits (cp_writer (compress p c)) = bw_bits (cp_writer c) @ point_code c p"
  using assms compress_timestamp_code [OF assms, of "timestamp_millis p"]
    compress_value_code [of "compress_timestamp (timestamp_millis p) c" "dp_value p"]
  by (auto simp: compress_def Let_def point_code_def write_bits_ok split: option.splits)

text \<open>The two sides between two points.\<close>

definition in_step :: "compressor \<Rightarrow> decompressor \<Rightarrow> bool" where
  "in_step c d \<longleftrightarrow> bw_ok (cp_writer c) \<and> br_ok (dc_reader d) \<and> (cp_first c = None \<longleftrightarrow> dc_first_read d)
     \<and> windows (cp_prev_leading c, cp_prev_trailing c) (dc_prev_leading d, dc_prev_trailing d)
     \<and> dc_prev_delta d = cp_prev_delta c \<and> - (2 ^ 61) \<le> cp_prev_delta c \<and> cp_prev_delta c \<le> 2 ^ 61
     \<and> (\<not> dc_first_read d \<longrightarrow> dc_prev_timestamp d = cp_prev_timestamp c \<and> dc_prev_bits d = cp_prev_bits c
          \<and> - (2 ^ 60) \<le> cp_prev_timestamp c \<and> cp_prev_timestamp c \<le> 2 ^ 60)"

lemma take_bit_64 [simp]: "take_bit 64 (w :: u64) = w"
  by (rule bit_word_eqI) (simp add: bit_simps)

lemma next_first:
  assumes "in_step c d" "cp_first c = None" "valid (timestamp_millis p)" "calendar_ok valid"
    and "br_bits (dc_reader d) = point_code c p @ rest" "0 < dc_remaining d"
  obtains d' where "dc_next valid d = Some (truncate_ms p, d')" "in_step (compress p c) d'"
    "br_bits (dc_reader d') = rest" "dc_remaining d' = dc_remaining d - 1"
proof -
  let ?t = "timestamp_millis p"
  have t: "- (2 ^ 60) \<le> ?t" "?t \<le> 2 ^ 60" using assms(3,4) by (auto simp: calendar_ok_def)
  have r: "br_ok (dc_reader d)" "br_bits (dc_reader d) = word_bits 64 (of_int ?t) @ word_bits 64 (dp_value p) @ rest"
    using assms(1,2,5) by (simp_all add: in_step_def point_code_def)
  obtain r1 where r1: "read_bits 64 (dc_reader d) = Some (of_int ?t, r1)" "br_ok r1" "br_bits r1 = word_bits 64 (dp_value p) @ rest"
    using read_bits_word [OF r take_bit_64] by blast
  obtain r2 where r2: "read_bits 64 r1 = Some (dp_value p, r2)" "br_ok r2" "br_bits r2 = rest"
    using read_bits_word [OF r1(2,3) take_bit_64] by blast
  have s: "sint (of_int ?t :: u64) = ?t" using t by (intro sint_of_int_u64) simp_all
  let ?d = "d\<lparr>dc_remaining := dc_remaining d - 1, dc_first_read := False, dc_reader := r2, dc_prev_timestamp := ?t,
      dc_prev_bits := dp_value p\<rparr>"
  have "dc_next valid d = Some (truncate_ms p, ?d)"
    using assms(1,2,3,6) r1(1) r2(1) s
    by (simp add: dc_next_def Let_def in_step_def from_millis_def truncate_ms_def)
  moreover have "in_step (compress p c) ?d"
    using assms(1,2) r2(2) t compress_code(1) [of c p] by (auto simp: in_step_def compress_def Let_def)
  ultimately show thesis using that [of ?d] r2(3) by simp
qed

lemma next_later:
  assumes "in_step c d" "cp_first c \<noteq> None" "valid (timestamp_millis p)" "calendar_ok valid"
    and "br_bits (dc_reader d) = point_code c p @ rest" "0 < dc_remaining d"
  obtains d' where "dc_next valid d = Some (truncate_ms p, d')" "in_step (compress p c) d'"
    "br_bits (dc_reader d') = rest" "dc_remaining d' = dc_remaining d - 1"
proof -
  let ?t = "timestamp_millis p"
  have t: "- (2 ^ 60) \<le> ?t" "?t \<le> 2 ^ 60" using assms(3,4) by (auto simp: calendar_ok_def)
  have d: "br_ok (dc_reader d)" "\<not> dc_first_read d" "dc_prev_delta d = cp_prev_delta c"
      "dc_prev_timestamp d = cp_prev_timestamp c" "dc_prev_bits d = cp_prev_bits c"
      "windows (cp_prev_leading c, cp_prev_trailing c) (dc_prev_leading d, dc_prev_trailing d)"
    using assms(1,2) by (auto simp: in_step_def)
  have prev: "- (2 ^ 60) \<le> cp_prev_timestamp c" "cp_prev_timestamp c \<le> 2 ^ 60"
      "- (2 ^ 61) \<le> cp_prev_delta c" "cp_prev_delta c \<le> 2 ^ 61"
    using assms(1,2) by (auto simp: in_step_def)
  define delta where "delta = ?t - cp_prev_timestamp c"
  define dod where "dod = delta - cp_prev_delta c"
  have delta: "- (2 ^ 61) \<le> delta" "delta \<le> 2 ^ 61" using t prev by (simp_all add: delta_def)
  have dod: "- (2 ^ 63) \<le> dod" "dod < 2 ^ 63" using delta prev by (simp_all add: dod_def)
  have wd: "wrap_i64 (?t - cp_prev_timestamp c) = delta" "wrap_i64 (delta - cp_prev_delta c) = dod"
    using delta dod by (simp_all add: wrap_i64_id delta_def [symmetric] dod_def [symmetric])
  let ?x = "cp_prev_bits c XOR dp_value p" and ?w = "(cp_prev_leading c, cp_prev_trailing c)"
  let ?d = "d\<lparr>dc_remaining := dc_remaining d - 1\<rparr>"
  have bits: "br_bits (dc_reader ?d) = dod_code dod @ value_code (fst ?w) (snd ?w) ?x @ rest"
    using assms(2,5) by (auto simp: point_code_def wd)
  have ok: "br_ok (dc_reader ?d)" using d(1) by simp
  obtain r1 where r1: "read_dod (dc_reader ?d) = Some (dod, r1)" "br_ok r1"
      "br_bits r1 = value_code (fst ?w) (snd ?w) ?x @ rest"
    using read_dod_code [OF ok bits dod] by blast
  let ?d1 = "?d\<lparr>dc_reader := r1, dc_prev_delta := delta\<rparr>"
  have ts: "decompress_timestamp ?d = Some (?t, ?d1)"
    using r1(1) d(3,4) delta t by (simp add: decompress_timestamp_def checked_add_i64_def dod_def) (simp add: delta_def)
  have "br_ok (dc_reader ?d1)" "br_bits (dc_reader ?d1) = value_code (fst ?w) (snd ?w) ?x @ rest"
      "windows ?w (dc_prev_leading ?d1, dc_prev_trailing ?d1)"
    using r1 d(6) by simp_all
  from decompress_value_code [OF this] obtain d2 where d2:
      "decompress_value ?d1 = Some (dc_prev_bits ?d1 XOR ?x, d2)" "br_ok (dc_reader d2)" "br_bits (dc_reader d2) = rest"
      "windows (next_window ?w ?x) (dc_prev_leading d2, dc_prev_trailing d2)"
      "dc_remaining d2 = dc_remaining ?d1" "dc_first_read d2 = dc_first_read ?d1" "dc_prev_delta d2 = dc_prev_delta ?d1"
    by blast
  have v: "dc_prev_bits ?d1 XOR ?x = dp_value p" using d(5) by (simp add: xor.assoc [symmetric])
  let ?d3 = "d2\<lparr>dc_prev_timestamp := ?t, dc_prev_bits := dp_value p\<rparr>"
  have "dc_next valid d = Some (truncate_ms p, ?d3)"
    using assms(3,6) d(2) ts d2(1) v by (simp add: dc_next_def Let_def from_millis_def truncate_ms_def)
  moreover have "in_step (compress p c) ?d3"
  proof -
    have w: "bw_ok (cp_writer c)" using assms(1) by (simp add: in_step_def)
    let ?c1 = "compress_timestamp ?t c"
    have c: "compress p c = (compress_value (dp_value p) ?c1)
        \<lparr>cp_prev_timestamp := ?t, cp_prev_bits := dp_value p, cp_count := cp_count c + 1\<rparr>"
      using assms(2) by (auto simp: compress_def Let_def)
    show ?thesis
      using compress_code(1) [OF w, of p] d2 d(2) t delta assms(2) compress_timestamp_code(3) [OF w, of ?t]
        compress_value_code(3) [where c = ?c1 and v = "dp_value p", OF compress_timestamp_code(1) [OF w]]
      by (simp add: in_step_def c wd)
  qed
  ultimately show thesis using that [of ?d3] d2(3,5) by simp
qed

fun points_code :: "compressor \<Rightarrow> data_point list \<Rightarrow> bool list" where
  "points_code c [] = []"
| "points_code c (p # ps) = point_code c p @ points_code (compress p c) ps"

lemma compress_all_code:
  assumes "bw_ok (cp_writer c)"
  shows "bw_ok (cp_writer (foldl (\<lambda>c p. compress p c) c ps))
    \<and> bw_bits (cp_writer (foldl (\<lambda>c p. compress p c) c ps)) = bw_bits (cp_writer c) @ points_code c ps"
  using assms by (induction ps arbitrary: c) (simp_all add: compress_code)

lemma compress_count: "cp_first c \<noteq> None \<or> cp_count c = 0 \<Longrightarrow>
    cp_count (foldl (\<lambda>c p. compress p c) c ps) = cp_count c + length ps"
proof (induction ps arbitrary: c)
  case (Cons p ps)
  have "cp_first (compress p c) \<noteq> None" "cp_count (compress p c) = cp_count c + 1"
    using Cons.prems by (auto simp: compress_def Let_def split: option.splits)
  with Cons.IH [of "compress p c"] show ?case by simp
qed simp

lemma decompress_points:
  assumes "in_step c d" "list_all (point_ok valid) ps" "calendar_ok valid"
    and "br_bits (dc_reader d) = points_code c ps @ rest" "dc_remaining d = length ps"
  shows "decompress_all valid d = map truncate_ms ps"
  using assms
proof (induction ps arbitrary: c d)
  case Nil
  then show ?case by (simp add: decompress_all.simps [of _ d] dc_next_def)
next
  case (Cons p ps)
  have p: "valid (timestamp_millis p)" "0 < dc_remaining d" using Cons.prems(2,5) by (simp_all add: point_ok_def)
  have bits: "br_bits (dc_reader d) = point_code c p @ points_code (compress p c) ps @ rest" using Cons.prems(4) by simp
  obtain d' where d': "dc_next valid d = Some (truncate_ms p, d')" "in_step (compress p c) d'"
      "br_bits (dc_reader d') = points_code (compress p c) ps @ rest" "dc_remaining d' = dc_remaining d - 1"
    using next_first [OF Cons.prems(1) _ p(1) Cons.prems(3) bits p(2)]
      next_later [OF Cons.prems(1) _ p(1) Cons.prems(3) bits p(2)] by blast
  have "decompress_all valid d' = map truncate_ms ps"
    using Cons.IH [OF d'(2) _ Cons.prems(3) d'(3)] Cons.prems(2,5) d'(4) by simp
  with d'(1) show ?case by (simp add: decompress_all.simps [of _ d])
qed

section \<open>The two codecs\<close>

definition nczl_magic :: bytes where
  "nczl_magic = [0x4E, 0x43, 0x5A, 0x4C]"

definition is_nexus_block :: "compressed_block \<Rightarrow> bool" where
  "is_nexus_block b \<longleftrightarrow> length (cb_data b) \<ge> 4 \<and> take 4 (cb_data b) = nczl_magic"

text \<open>The codec of \<^verbatim>\<open>nexuscompress\<close> for this schema: two columns of bytes and a number of rows.\<close>

record nexus =
  nx_compress :: "bytes \<Rightarrow> bytes \<Rightarrow> nat \<Rightarrow> bytes option"
  nx_decompress :: "bytes \<Rightarrow> bytes list option"

definition put_i64_le :: "int \<Rightarrow> bytes" where
  "put_i64_le i = put_u64_le (of_int i)"

definition compress_points_nexus ::
    "(bytes \<Rightarrow> u32) \<Rightarrow> nexus \<Rightarrow> data_point list \<Rightarrow> compressed_block option" where
  "compress_points_nexus crc nx points =
     (if points = [] then None
      else
        let ts_bytes = concat (map (\<lambda>p. put_i64_le (timestamp_millis p)) points);
            val_bytes = concat (map (\<lambda>p. put_u64_le (dp_value p)) points)
        in case nx_compress nx ts_bytes val_bytes (length points) of None \<Rightarrow> None
           | Some frame \<Rightarrow>
               if length frame < 4 \<or> take 4 frame \<noteq> nczl_magic then None
               else Some \<lparr>cb_data = frame,
                      cb_first_timestamp = Min (timestamp_millis ` set points),
                      cb_last_timestamp = Max (timestamp_millis ` set points),
                      cb_count = length points, cb_checksum = crc frame\<rparr>)"

text \<open>The eight bytes of a column at an offset, when they are there.\<close>

definition column_at :: "bytes \<Rightarrow> nat \<Rightarrow> u64 option" where
  "column_at col i =
     (if 8 * i + 8 \<le> length col then Some (fst (get_u64_le (take 8 (drop (8 * i) col)))) else None)"

definition nexus_point :: "(int \<Rightarrow> bool) \<Rightarrow> bytes \<Rightarrow> bytes \<Rightarrow> nat \<Rightarrow> data_point option" where
  "nexus_point valid ts_col val_col i =
     (case column_at ts_col i of None \<Rightarrow> None
      | Some ts \<Rightarrow>
          map_option (\<lambda>t. \<lparr>dp_timestamp = t, dp_value = (case column_at val_col i of None \<Rightarrow> 0 | Some v \<Rightarrow> v)\<rparr>)
            (from_millis valid (sint ts)))"

definition decode_block :: "nexus \<Rightarrow> (int \<Rightarrow> bool) \<Rightarrow> compressed_block \<Rightarrow> data_point list" where
  "decode_block nx valid b =
     (if \<not> is_nexus_block b then decompress_all valid (decompressor_new b)
      else case nx_decompress nx (cb_data b) of
             Some [ts_col, val_col] \<Rightarrow>
               List.map_filter (nexus_point valid ts_col val_col) [0..<length ts_col div 8]
           | _ \<Rightarrow> [])"

definition block_matches_points :: "nexus \<Rightarrow> (int \<Rightarrow> bool) \<Rightarrow> compressed_block \<Rightarrow> data_point list \<Rightarrow> bool" where
  "block_matches_points nx valid b points \<longleftrightarrow>
     (if cb_count b \<noteq> length points then False
      else
        let decoded = decode_block nx valid b in
        length decoded = length points
        \<and> list_all (\<lambda>(d, p). timestamp_millis d = timestamp_millis p \<and> dp_value d = dp_value p) (zip decoded points))"

lemma in_step_new: "in_step compressor_new (decompressor_new b)"
  by (simp add: in_step_def compressor_new_def decompressor_new_def windows_def)

lemma compress_all_bits:
  obtains pad where "concat (map byte_bits (cb_data (compress_all crc ps))) = points_code compressor_new ps @ pad"
    "length pad < 8"
proof -
  let ?c = "foldl (\<lambda>c p. compress p c) compressor_new ps"
  have ok: "bw_ok (cp_writer ?c)" "bw_bits (cp_writer ?c) = points_code compressor_new ps"
    using compress_all_code [of compressor_new ps] by (simp_all add: compressor_new_def)
  show thesis
    using finish_bits [OF ok(1)] ok(2) that by (auto simp: compress_all_def compressor_finish_def Let_def)
qed

lemma small_sign_bits:
  fixes t :: int
  assumes "- (2 ^ 60) \<le> t" "t \<le> 2 ^ 60"
  shows "bit t 62 = bit t 63"
proof (cases "0 \<le> t")
  case True
  then show ?thesis using assms by (simp add: bit_iff_odd)
next
  case False
  have "(t + 2 ^ n) div 2 ^ n = t div 2 ^ n + 1" for n :: nat
    by (rule div_add_self2) simp
  moreover have "(t + 2 ^ 62) div 2 ^ 62 = 0" "(t + 2 ^ 63) div 2 ^ 63 = 0" using assms False by simp_all
  ultimately have "t div 2 ^ 62 = - 1" "t div 2 ^ 63 = - 1" by (metis add_eq_0_iff2 add.commute)+
  then show ?thesis by (simp add: bit_iff_odd)
qed

lemma gorilla_not_nexus:
  assumes "list_all (point_ok valid) ps" "calendar_ok valid"
  shows "\<not> is_nexus_block (compress_all crc ps)"
proof
  let ?data = "cb_data (compress_all crc ps)"
  assume n: "is_nexus_block (compress_all crc ps)"
  obtain pad where bits: "concat (map byte_bits ?data) = points_code compressor_new ps @ pad" "length pad < 8"
    using compress_all_bits by blast
  have len: "4 \<le> length ?data" using n by (simp add: is_nexus_block_def)
  show False
  proof (cases ps)
    case Nil
    then have "length (concat (map byte_bits ?data)) = length pad" unfolding bits(1) by simp
    with len bits(2) show False by simp
  next
    case (Cons p ps')
    let ?t = "timestamp_millis p"
    obtain rest where all: "concat (map byte_bits ?data) = word_bits 64 (of_int ?t) @ rest"
      using bits(1) Cons by (simp add: point_code_def compressor_new_def)
    have "hd ?data = 0x4E"
      using n len by (cases ?data) (auto simp: is_nexus_block_def nczl_magic_def)
    then have "concat (map byte_bits ?data) = byte_bits 0x4E @ concat (map byte_bits (tl ?data))"
      using len by (cases ?data) auto
    with all have "take 2 (word_bits 64 (of_int ?t) @ rest) = take 2 (byte_bits 0x4E @ concat (map byte_bits (tl ?data)))"
      by simp
    then have "take 2 (word_bits 64 (of_int ?t)) = take 2 (byte_bits 0x4E)" by (simp only: take_append) simp
    moreover have "word_bits 64 v = bit v 63 # bit v 62 # word_bits 62 v" for v
      using word_bits_Suc [of 63 v] word_bits_Suc [of 62 v] by simp
    moreover have "take 2 (byte_bits 0x4E) = [False, True]" by (simp add: byte_bits_def upt_rec)
    ultimately have "bit (of_int ?t :: u64) 63 = False" "bit (of_int ?t :: u64) 62 = True"
      by simp_all
    then have "\<not> bit ?t 63" "bit ?t 62" by (simp_all add: bit_of_int_iff)
    with small_sign_bits [of ?t] assms Cons show False by (auto simp: point_ok_def calendar_ok_def)
  qed
qed

lemma gorilla_decode:
  assumes "list_all (point_ok valid) ps" "calendar_ok valid"
  shows "decode_block nx valid (compress_all crc ps) = map truncate_ms ps"
proof -
  let ?b = "compress_all crc ps"
  obtain pad where bits: "concat (map byte_bits (cb_data ?b)) = points_code compressor_new ps @ pad"
    using compress_all_bits by blast
  have "cb_count ?b = length ps"
    using compress_count [of compressor_new ps] by (simp add: compress_all_def compressor_finish_def Let_def compressor_new_def)
  then have "decompress_all valid (decompressor_new ?b) = map truncate_ms ps"
    using decompress_points [OF in_step_new assms, of ?b pad] bits by (simp add: decompressor_new_def)
  then show ?thesis using gorilla_not_nexus [OF assms] by (simp add: decode_block_def)
qed

lemma millis_truncate [simp]: "timestamp_millis (truncate_ms p) = timestamp_millis p" "dp_value (truncate_ms p) = dp_value p"
  by (simp_all add: truncate_ms_def timestamp_millis_def)

lemma matches_truncated:
  assumes "decode_block nx valid b = map truncate_ms ps" "cb_count b = length ps"
  shows "block_matches_points nx valid b ps"
  using assms by (auto simp: block_matches_points_def Let_def list_all_length)

text \<open>C33: What was compressed is decoded.  Every series of points whose times the calendar can
  represent decodes from its compressed block to the same points, values to the last bit and times
  to the millisecond; the block's checksum is right, the block is never taken for one of the other
  codec, and the check that the engine makes before it replaces data by a block succeeds.\<close>

theorem gorilla_roundtrip:
  assumes "calendar_ok valid" "list_all (point_ok valid) ps"
  shows "decode_block nx valid (compress_all crc ps) = map truncate_ms ps
    \<and> cb_verify_checksum crc (compress_all crc ps) \<and> \<not> is_nexus_block (compress_all crc ps)
    \<and> block_matches_points nx valid (compress_all crc ps) ps"
proof -
  have d: "decode_block nx valid (compress_all crc ps) = map truncate_ms ps" by (rule gorilla_decode [OF assms(2,1)])
  have "cb_count (compress_all crc ps) = length ps"
    using compress_count [of compressor_new ps] by (simp add: compress_all_def compressor_finish_def Let_def compressor_new_def)
  with d show ?thesis
    using gorilla_not_nexus [OF assms(2,1)] matches_truncated
    by (simp add: cb_verify_checksum_def compress_all_def compressor_finish_def Let_def)
qed

definition sample_calendar :: "int \<Rightarrow> bool" where
  "sample_calendar ms \<longleftrightarrow> - (2 ^ 53) \<le> ms \<and> ms \<le> 2 ^ 53"

definition sample_points :: "data_point list" where
  "sample_points =
     [\<lparr>dp_timestamp = 1700000000000000000, dp_value = 0x4045000000000000\<rparr>,
      \<lparr>dp_timestamp = 1700000001000000000, dp_value = 0x4045000000000000\<rparr>,
      \<lparr>dp_timestamp = 1700000001999000042, dp_value = 0xC045800000000000\<rparr>]"

lemma sample_points_ok: "calendar_ok sample_calendar" "list_all (point_ok sample_calendar) sample_points"
  by (simp_all add: calendar_ok_def sample_calendar_def sample_points_def point_ok_def timestamp_millis_def)

definition sample_nexus :: nexus where
  "sample_nexus =
     \<lparr>nx_compress = (\<lambda>a b n. Some (nczl_magic @ a @ b)),
      nx_decompress = (\<lambda>f. let n = (length f - 4) div 2 in Some [take n (drop 4 f), drop (4 + n) f])\<rparr>"

theorem gorilla_roundtrip_witness:
  "map timestamp_millis (decode_block sample_nexus sample_calendar (compress_all (\<lambda>_. 7) sample_points)) =
     [1700000000000, 1700000001000, 1700000001999]
   \<and> map dp_value (decode_block sample_nexus sample_calendar (compress_all (\<lambda>_. 7) sample_points)) =
     [0x4045000000000000, 0x4045000000000000, 0xC045800000000000]"
  using gorilla_roundtrip [OF sample_points_ok, of sample_nexus "\<lambda>_. 7"]
  by (simp add: sample_points_def) (simp add: timestamp_millis_def)

text \<open>What is documented of \<^verbatim>\<open>nexuscompress\<close>: a batch decompresses to its columns.\<close>

definition nexus_ok :: "nexus \<Rightarrow> bool" where
  "nexus_ok nx \<longleftrightarrow>
     (\<forall>a b n f. length a = 8 * n \<and> length b = 8 * n \<and> nx_compress nx a b n = Some f \<longrightarrow>
        nx_decompress nx f = Some [a, b])"

lemma drop_columns: "length (concat (map g ps)) = 8 * length ps"
  if "\<And>p. length (g p) = (8::nat)" for g :: "'a \<Rightarrow> bytes"
  using that by (induction ps) simp_all

lemma column_nth:
  assumes "i < length ps"
  shows "column_at (concat (map (\<lambda>p. put_u64_le (g p)) ps)) i = Some (g (ps ! i))"
  using assms
proof (induction ps arbitrary: i)
  case (Cons p ps)
  show ?case
  proof (cases i)
    case 0
    then show ?thesis
      using get_put(1) [of "g p" "[]"] by (simp add: column_at_def)
  next
    case (Suc j)
    with Cons.IH [of j] Cons.prems show ?thesis by (auto simp: column_at_def add.commute split: if_splits)
  qed
qed simp

lemma nexus_decode:
  assumes "nexus_ok nx" "calendar_ok valid" "list_all (point_ok valid) ps" "compress_points_nexus crc nx ps = Some b"
  shows "decode_block nx valid b = map truncate_ms ps" "cb_count b = length ps" "cb_verify_checksum crc b" "is_nexus_block b"
proof -
  let ?a = "concat (map (\<lambda>p. put_u64_le (of_int (timestamp_millis p))) ps)" and ?v = "concat (map (\<lambda>p. put_u64_le (dp_value p)) ps)"
  have b: "nx_compress nx ?a ?v (length ps) = Some (cb_data b)" "take 4 (cb_data b) = nczl_magic" "4 \<le> length (cb_data b)"
      "cb_count b = length ps" "cb_checksum b = crc (cb_data b)"
    using assms(4) by (auto simp: compress_points_nexus_def put_i64_le_def Let_def split: if_splits option.splits)
  have len: "length ?a = 8 * length ps" "length ?v = 8 * length ps" by (simp_all add: drop_columns)
  have d: "nx_decompress nx (cb_data b) = Some [?a, ?v]" using assms(1) b(1) len by (auto simp: nexus_ok_def)
  have p: "nexus_point valid ?a ?v i = Some (truncate_ms (ps ! i))" if "i < length ps" for i
  proof -
    have v: "valid (timestamp_millis (ps ! i))" using assms(3) that by (simp add: list_all_length point_ok_def)
    then have "- (2 ^ 60) \<le> timestamp_millis (ps ! i)" "timestamp_millis (ps ! i) \<le> 2 ^ 60"
      using assms(2) by (auto simp: calendar_ok_def)
    then have "sint (of_int (timestamp_millis (ps ! i)) :: u64) = timestamp_millis (ps ! i)"
      by (intro sint_of_int_u64) simp_all
    with v show ?thesis
      by (simp add: nexus_point_def column_nth [OF that] from_millis_def truncate_ms_def)
  qed
  have "List.map_filter (nexus_point valid ?a ?v) [0..<length ps] = map (\<lambda>i. truncate_ms (ps ! i)) [0..<length ps]"
    by (simp add: List.map_filter_def p cong: map_cong filter_cong)
  moreover have "map (\<lambda>i. truncate_ms (ps ! i)) [0..<length ps] = map truncate_ms ps"
    by (intro nth_equalityI) simp_all
  moreover show nexus: "is_nexus_block b" using b by (simp add: is_nexus_block_def)
  ultimately show "decode_block nx valid b = map truncate_ms ps"
    using d len by (simp add: decode_block_def)
  show "cb_count b = length ps" "cb_verify_checksum crc b" using b by (simp_all add: cb_verify_checksum_def)
qed

text \<open>Recompression loses nothing.  When a block of the first codec is recompressed by the second
  one, the new block decodes to the very points the old one did, is recognised by its magic number,
  and passes the check that guards the replacement.\<close>

theorem recompression_keeps_points:
  assumes "nexus_ok nx" "calendar_ok valid" "list_all (point_ok valid) ps"
    and "compress_points_nexus crc nx (decode_block nx valid (compress_all crc ps)) = Some b"
  shows "decode_block nx valid b = decode_block nx valid (compress_all crc ps)
    \<and> is_nexus_block b \<and> cb_verify_checksum crc b \<and> block_matches_points nx valid b ps"
proof -
  have old: "decode_block nx valid (compress_all crc ps) = map truncate_ms ps" by (rule gorilla_decode [OF assms(3,2)])
  have ok: "list_all (point_ok valid) (map truncate_ms ps)"
    using assms(3) by (simp add: list_all_length point_ok_def)
  have twice: "map truncate_ms (map truncate_ms ps) = map truncate_ms ps"
    by (simp add: truncate_ms_def timestamp_millis_def)
  from nexus_decode [OF assms(1,2) ok] assms(4) old twice show ?thesis
    using matches_truncated by simp
qed

lemma sample_nexus_ok: "nexus_ok sample_nexus"
proof -
  have "length nczl_magic = 4" by (simp add: nczl_magic_def)
  then show ?thesis by (simp add: nexus_ok_def sample_nexus_def Let_def)
qed

theorem recompression_keeps_points_witness:
  "\<exists>b. compress_points_nexus (\<lambda>_. 7) sample_nexus
         (decode_block sample_nexus sample_calendar (compress_all (\<lambda>_. 7) sample_points)) = Some b
     \<and> decode_block sample_nexus sample_calendar b
         = decode_block sample_nexus sample_calendar (compress_all (\<lambda>_. 7) sample_points)"
proof -
  let ?old = "decode_block sample_nexus sample_calendar (compress_all (\<lambda>_. 7) sample_points)"
  have "?old = map truncate_ms sample_points" by (rule gorilla_decode [OF sample_points_ok(2,1)])
  then have "?old \<noteq> []" by (simp add: sample_points_def)
  then obtain b where b: "compress_points_nexus (\<lambda>_. 7) sample_nexus ?old = Some b"
    by (simp add: compress_points_nexus_def sample_nexus_def nczl_magic_def Let_def)
  with recompression_keeps_points [OF sample_nexus_ok sample_points_ok b] show ?thesis by blast
qed

section \<open>Sizes\<close>

lemma length_dod_code: "length (dod_code d) \<le> 68"
  by (simp add: dod_code_def)

lemma length_value_code: "length (value_code l t x) \<le> 78"
  by (auto simp: value_code_def)

lemma length_points_code:
  assumes "cp_first c \<noteq> None"
  shows "length (points_code c ps) \<le> 146 * length ps"
  using assms
proof (induction ps arbitrary: c)
  case (Cons p ps)
  have "cp_first (compress p c) \<noteq> None" by (auto simp: compress_def Let_def Cons.prems split: option.splits)
  moreover have "length (point_code c p) \<le> 146"
    using Cons.prems length_dod_code [of "wrap_i64 (wrap_i64 (timestamp_millis p - cp_prev_timestamp c) - cp_prev_delta c)"]
      length_value_code [of "cp_prev_leading c" "cp_prev_trailing c" "cp_prev_bits c XOR dp_value p"]
    by (auto simp: point_code_def)
  ultimately show ?case using Cons.IH [of "compress p c"] by simp
qed simp

text \<open>Points at a steady pace with one value.\<close>

fun steady :: "int \<Rightarrow> int \<Rightarrow> f64 \<Rightarrow> data_point list \<Rightarrow> bool" where
  "steady t d v [] \<longleftrightarrow> True"
| "steady t d v (p # ps) \<longleftrightarrow> timestamp_millis p = t + d \<and> dp_value p = v \<and> steady (t + d) d v ps"

lemma length_steady_code:
  assumes "cp_first c \<noteq> None" "steady (cp_prev_timestamp c) (cp_prev_delta c) (cp_prev_bits c) ps"
    and "- (2 ^ 63) \<le> cp_prev_delta c" "cp_prev_delta c < 2 ^ 63"
  shows "length (points_code c ps) = 2 * length ps"
  using assms
proof (induction ps arbitrary: c)
  case (Cons p ps)
  have t: "timestamp_millis p - cp_prev_timestamp c = cp_prev_delta c" "dp_value p = cp_prev_bits c"
    using Cons.prems(2) by simp_all
  have code: "point_code c p = [False] @ [False]"
    using Cons.prems(1,3,4) t by (auto simp: point_code_def wrap_i64_id dod_code_def value_code_def)
  have "cp_first (compress p c) \<noteq> None" "cp_prev_delta (compress p c) = cp_prev_delta c"
      "cp_prev_timestamp (compress p c) = timestamp_millis p" "cp_prev_bits (compress p c) = cp_prev_bits c"
    using Cons.prems(1,3,4) t
    by (auto simp: compress_def Let_def compress_timestamp_def wrap_i64_id split: option.splits)
  then show ?case using Cons.IH [of "compress p c"] Cons.prems t code by (simp add: algebra_simps)
qed simp

text \<open>Compressed sizes.  The bits of a block are at most 128 for the first point and 146 for each
  later one; points that go on at a steady pace with an unchanged value take two bits each.\<close>

theorem gorilla_size:
  assumes "ps \<noteq> []"
  shows "8 * length (cb_data (compress_all crc ps)) < 128 + 146 * (length ps - 1) + 8
    \<and> (\<forall>p q qs. ps = p # q # qs \<and> - (2 ^ 63) \<le> timestamp_millis q - timestamp_millis p
          \<and> timestamp_millis q - timestamp_millis p < 2 ^ 63
          \<and> steady (timestamp_millis q) (timestamp_millis q - timestamp_millis p) (dp_value q) qs
        \<longrightarrow> 8 * length (cb_data (compress_all crc ps)) < 128 + 146 + 2 * length qs + 8)"
proof -
  obtain pad where bits: "concat (map byte_bits (cb_data (compress_all crc ps))) = points_code compressor_new ps @ pad"
      "length pad < 8" using compress_all_bits by blast
  have "length (concat (map byte_bits (cb_data (compress_all crc ps)))) = length (points_code compressor_new ps) + length pad"
    unfolding bits(1) by simp
  then have len: "8 * length (cb_data (compress_all crc ps)) < length (points_code compressor_new ps) + 8"
    using bits(2) by simp
  have first: "length (points_code compressor_new (p # qs)) = 128 + length (points_code (compress p compressor_new) qs)" for p qs
    by (simp add: point_code_def) (simp add: compressor_new_def)
  have some: "cp_first (compress p c) \<noteq> None" for p c by (auto simp: compress_def Let_def split: option.splits)
  obtain p qs where ps: "ps = p # qs" using assms by (cases ps) auto
  have a: "length (points_code compressor_new ps) \<le> 128 + 146 * (length ps - 1)"
    using first [of p qs] length_points_code [OF some, of p compressor_new qs] ps by simp
  have b: "length (points_code compressor_new (p # q # qs)) \<le> 128 + 146 + 2 * length qs"
    if "- (2 ^ 63) \<le> timestamp_millis q - timestamp_millis p" "timestamp_millis q - timestamp_millis p < 2 ^ 63"
      "steady (timestamp_millis q) (timestamp_millis q - timestamp_millis p) (dp_value q) qs" for p q qs
  proof -
    let ?c1 = "compress p compressor_new"
    let ?c2 = "compress q ?c1"
    have "length (points_code ?c1 [q]) \<le> 146" using length_points_code [OF some, of p compressor_new "[q]"] by simp
    moreover have "cp_prev_timestamp ?c1 = timestamp_millis p" by (simp add: compress_def compressor_new_def Let_def)
    then have "cp_prev_delta ?c2 = timestamp_millis q - timestamp_millis p" "cp_prev_timestamp ?c2 = timestamp_millis q"
        "cp_prev_bits ?c2 = dp_value q"
      using some [of p compressor_new] that(1,2)
      by (auto simp: compress_def [of q] Let_def wrap_i64_id compress_timestamp_def split: option.splits)
    then have "length (points_code ?c2 qs) = 2 * length qs"
      using that by (intro length_steady_code [OF some]) simp_all
    ultimately show ?thesis using first [of p "q # qs"] by simp
  qed
  show ?thesis using len a b by fastforce
qed

theorem gorilla_size_witness:
  "8 * length (cb_data (compress_all (\<lambda>_. 7) sample_points)) < 428"
  using gorilla_size [of sample_points "\<lambda>_. 7"] by (simp add: sample_points_def)

end
