(* ===== verification/Float64.thy ===== *)
theory Float64
  imports RustText
begin

text \<open>
  The 64-bit floating point numbers of the Rust sources as bit patterns: their exact values, the
  one rounding of IEEE 754 (to nearest, ties to even), arithmetic, comparison, the conversions
  \<^verbatim>\<open>as f64\<close> and \<^verbatim>\<open>as i64\<close>, the parser \<^verbatim>\<open>str::parse\<close> and the two printed forms
  \<^verbatim>\<open>{}\<close> and \<^verbatim>\<open>{:?}\<close>, both with the fewest digits that read back as the number.
  The lemmas say where arithmetic is exact: on integers of at most 53 bits.

  A finite number is an integer multiple of \<open>2 ^ -1074\<close>; \<open>fl_scaled\<close> is that integer.  The bit
  pattern that stands for an invalid result is the quiet one, whose payload IEEE 754 leaves open.
\<close>

section \<open>The value of a bit pattern\<close>

definition fl_neg :: "f64 \<Rightarrow> bool" where
  "fl_neg x \<longleftrightarrow> 2 ^ 63 \<le> unat x"

text \<open>The pattern without its sign, and its two fields.\<close>

definition fl_mag :: "f64 \<Rightarrow> nat" where
  "fl_mag x = unat x mod 2 ^ 63"

definition mag_exp :: "nat \<Rightarrow> nat" where
  "mag_exp m = m div 2 ^ 52"

definition inf_mag :: nat where
  "inf_mag = 2047 * 2 ^ 52"

definition is_nan :: "f64 \<Rightarrow> bool" where
  "is_nan x \<longleftrightarrow> inf_mag < fl_mag x"

definition is_inf :: "f64 \<Rightarrow> bool" where
  "is_inf x \<longleftrightarrow> fl_mag x = inf_mag"

definition is_finite :: "f64 \<Rightarrow> bool" where
  "is_finite x \<longleftrightarrow> fl_mag x < inf_mag"

text \<open>The magnitude in units of \<open>2 ^ -1074\<close>; an infinity counts as \<open>2 ^ 1024\<close>.\<close>

definition mag_units :: "nat \<Rightarrow> nat" where
  "mag_units m = (if m < 2 ^ 52 then m else (m mod 2 ^ 52 + 2 ^ 52) * 2 ^ (mag_exp m - 1))"

definition fl_scaled :: "f64 \<Rightarrow> int" where
  "fl_scaled x = (if fl_neg x then - int (mag_units (fl_mag x)) else int (mag_units (fl_mag x)))"

text \<open>The number 1 in these units.\<close>

definition fl_one :: nat where
  "fl_one = 2 ^ 1074"

definition with_sign :: "bool \<Rightarrow> nat \<Rightarrow> f64" where
  "with_sign s m = of_nat (if s then 2 ^ 63 + m else m)"

definition fl_nan :: f64 where
  "fl_nan = 0x7FF8000000000000"

section \<open>Rounding\<close>

fun bit_len :: "nat \<Rightarrow> nat" where
  "bit_len n =
     (if n = 0 then 0 else if 2 ^ 64 \<le> n then 64 + bit_len (n div 2 ^ 64) else Suc (bit_len (n div 2)))"

declare bit_len.simps [simp del]

definition half_even :: "nat \<Rightarrow> nat \<Rightarrow> nat" where
  "half_even p q =
     (let d = p div q; r = p mod q in if q < 2 * r \<or> (2 * r = q \<and> odd d) then d + 1 else d)"

text \<open>The magnitude nearest to \<open>p / q\<close> units.  The 53 leading bits stay; what is shifted out goes into
  the exponent field, and a carry out of the fraction moves into it as well.\<close>

definition round_mag :: "nat \<Rightarrow> nat \<Rightarrow> nat" where
  "round_mag p q =
     (let s = bit_len (p div q) - 53 in min inf_mag (half_even p (q * 2 ^ s) + s * 2 ^ 52))"

definition round_int :: "bool \<Rightarrow> int \<Rightarrow> f64" where
  "round_int z i = with_sign (if i = 0 then z else i < 0) (round_mag (nat \<bar>i\<bar>) 1)"

section \<open>Arithmetic\<close>

definition f64_neg :: "f64 \<Rightarrow> f64" where
  "f64_neg x = with_sign (\<not> fl_neg x) (fl_mag x)"

definition f64_abs :: "f64 \<Rightarrow> f64" where
  "f64_abs x = with_sign False (fl_mag x)"

definition f64_add :: "f64 \<Rightarrow> f64 \<Rightarrow> f64" where
  "f64_add x y =
     (if is_nan x \<or> is_nan y \<or> (is_inf x \<and> is_inf y \<and> fl_neg x \<noteq> fl_neg y) then fl_nan
      else if is_inf x then x else if is_inf y then y
      else round_int (fl_neg x \<and> fl_neg y) (fl_scaled x + fl_scaled y))"

definition f64_sub :: "f64 \<Rightarrow> f64 \<Rightarrow> f64" where
  "f64_sub x y = (if is_nan x \<or> is_nan y then fl_nan else f64_add x (f64_neg y))"

definition f64_mul :: "f64 \<Rightarrow> f64 \<Rightarrow> f64" where
  "f64_mul x y =
     (let s = (fl_neg x \<noteq> fl_neg y) in
      if is_nan x \<or> is_nan y then fl_nan
      else if is_inf x \<or> is_inf y then
        (if fl_mag x = 0 \<or> fl_mag y = 0 then fl_nan else with_sign s inf_mag)
      else with_sign s (round_mag (mag_units (fl_mag x) * mag_units (fl_mag y)) fl_one))"

definition f64_div :: "f64 \<Rightarrow> f64 \<Rightarrow> f64" where
  "f64_div x y =
     (let s = (fl_neg x \<noteq> fl_neg y) in
      if is_nan x \<or> is_nan y \<or> (is_inf x \<and> is_inf y) \<or> (fl_mag x = 0 \<and> fl_mag y = 0) then fl_nan
      else if is_inf x \<or> fl_mag y = 0 then with_sign s inf_mag
      else if is_inf y then with_sign s 0
      else with_sign s (round_mag (mag_units (fl_mag x) * fl_one) (mag_units (fl_mag y))))"

text \<open>\<^verbatim>\<open>floor\<close>, \<^verbatim>\<open>ceil\<close>, \<^verbatim>\<open>round\<close> (half away from zero), each with the sign of its argument.\<close>

definition to_integral :: "(int \<Rightarrow> int) \<Rightarrow> f64 \<Rightarrow> f64" where
  "to_integral g x =
     (if \<not> is_finite x then x else round_int (fl_neg x) (g (fl_scaled x) * int fl_one))"

definition f64_floor :: "f64 \<Rightarrow> f64" where
  "f64_floor = to_integral (\<lambda>v. v div int fl_one)"

definition f64_ceil :: "f64 \<Rightarrow> f64" where
  "f64_ceil = to_integral (\<lambda>v. - ((- v) div int fl_one))"

definition f64_round :: "f64 \<Rightarrow> f64" where
  "f64_round = to_integral (\<lambda>v. sgn v * ((2 * \<bar>v\<bar> + int fl_one) div (2 * int fl_one)))"

text \<open>\<^verbatim>\<open>as f64\<close> of an integer, \<^verbatim>\<open>as i64\<close> of a number (towards zero, saturating, 0 for an invalid one).\<close>

definition f64_of_int :: "int \<Rightarrow> f64" where
  "f64_of_int i = round_int False (i * int fl_one)"

definition f64_to_i64 :: "f64 \<Rightarrow> int" where
  "f64_to_i64 x =
     (if is_nan x then 0
      else max (- (2 ^ 63)) (min (2 ^ 63 - 1) (sgn (fl_scaled x) * (\<bar>fl_scaled x\<bar> div int fl_one))))"

section \<open>Comparison\<close>

datatype cmp_ordering = Less | Equal | Greater

definition cmp_of :: "'a::linorder \<Rightarrow> 'a \<Rightarrow> cmp_ordering" where
  "cmp_of x y = (if x < y then Less else if x = y then Equal else Greater)"

definition f64_partial_cmp :: "f64 \<Rightarrow> f64 \<Rightarrow> cmp_ordering option" where
  "f64_partial_cmp x y = (if is_nan x \<or> is_nan y then None else Some (cmp_of (fl_scaled x) (fl_scaled y)))"

text \<open>\<^verbatim>\<open>==\<close> and \<^verbatim>\<open>&lt;\<close>.\<close>

definition f64_eq :: "f64 \<Rightarrow> f64 \<Rightarrow> bool" where
  "f64_eq x y \<longleftrightarrow> f64_partial_cmp x y = Some Equal"

definition f64_less :: "f64 \<Rightarrow> f64 \<Rightarrow> bool" where
  "f64_less x y \<longleftrightarrow> f64_partial_cmp x y = Some Less"

section \<open>Text\<close>

text \<open>The number \<open>d * 10 ^ k\<close>.\<close>

definition dec_mag :: "nat \<Rightarrow> int \<Rightarrow> nat" where
  "dec_mag d k =
     (if 0 \<le> k then round_mag (d * 10 ^ nat k * fl_one) 1 else round_mag (d * fl_one) (10 ^ nat (- k)))"

definition is_digit :: "char \<Rightarrow> bool" where
  "is_digit c \<longleftrightarrow> char_digit c \<noteq> None"

definition parse_exponent :: "string \<Rightarrow> int option" where
  "parse_exponent s =
     (case s of
        [] \<Rightarrow> Some 0
      | c # cs \<Rightarrow>
          if c = CHR ''e'' \<or> c = CHR ''E'' then
            (case cs of
               CHR ''-'' # ds \<Rightarrow> map_option (\<lambda>n. - int n) (parse_nat ds)
             | CHR ''+'' # ds \<Rightarrow> map_option int (parse_nat ds)
             | _ \<Rightarrow> map_option int (parse_nat cs))
          else None)"

definition parse_decimal :: "string \<Rightarrow> nat option" where
  "parse_decimal s =
     (let ip = takeWhile is_digit s; r1 = dropWhile is_digit s;
          fp = (case r1 of CHR ''.'' # r \<Rightarrow> takeWhile is_digit r | _ \<Rightarrow> []);
          r2 = (case r1 of CHR ''.'' # r \<Rightarrow> dropWhile is_digit r | _ \<Rightarrow> r1)
      in case (parse_nat (ip @ fp), parse_exponent r2) of
           (Some d, Some e) \<Rightarrow> Some (dec_mag d (e - int (length fp)))
         | _ \<Rightarrow> None)"

text \<open>\<^verbatim>\<open>str::parse::&lt;f64&gt;\<close>.\<close>

definition parse_f64 :: "string \<Rightarrow> f64 option" where
  "parse_f64 s =
     (let neg = (case s of CHR ''-'' # _ \<Rightarrow> True | _ \<Rightarrow> False);
          t = (case s of CHR ''-'' # r \<Rightarrow> r | CHR ''+'' # r \<Rightarrow> r | _ \<Rightarrow> s);
          l = to_lower t
      in if l = ''nan'' then Some (if neg then f64_neg fl_nan else fl_nan)
         else if l = ''inf'' \<or> l = ''infinity'' then Some (with_sign neg inf_mag)
         else map_option (with_sign neg) (parse_decimal t))"

text \<open>The power of ten just above a positive number of units.\<close>

definition dec_exp :: "nat \<Rightarrow> int" where
  "dec_exp u =
     (if fl_one \<le> u then int (length (nat_to_string (u div fl_one)))
      else case find (\<lambda>j. fl_one \<le> u * 10 ^ j) [1..<340] of Some j \<Rightarrow> 1 - int j | None \<Rightarrow> - 339)"

text \<open>The two decimals of \<open>n\<close> digits around it, the nearer one first.\<close>

definition neighbours :: "nat \<Rightarrow> nat \<Rightarrow> (nat \<times> int) list" where
  "neighbours u n =
     (let k = dec_exp u - int n;
          p = (if 0 \<le> k then u else u * 10 ^ nat (- k));
          q = (if 0 \<le> k then fl_one * 10 ^ nat k else fl_one);
          lo = p div q
      in if 2 * (p mod q) \<le> q then [(lo, k), (lo + 1, k)] else [(lo + 1, k), (lo, k)])"

definition shortest :: "nat \<Rightarrow> nat \<times> int" where
  "shortest m =
     (case find (\<lambda>(d, k). dec_mag d k = m) (concat (map (neighbours (mag_units m)) [1..<18])) of
        Some r \<Rightarrow> r
      | None \<Rightarrow> (0, 0))"

definition strip_zeros :: "string \<Rightarrow> string" where
  "strip_zeros s = rev (dropWhile (\<lambda>c. c = CHR ''0'') (rev s))"

text \<open>Digits without trailing zeros, and the position of the decimal point.\<close>

definition digits_point :: "nat \<Rightarrow> string \<times> int" where
  "digits_point m =
     (let (d, k) = shortest m; s = nat_to_string d in (strip_zeros s, k + int (length s)))"

definition plain_form :: "string \<Rightarrow> int \<Rightarrow> bool \<Rightarrow> string" where
  "plain_form ds k debug =
     (if k \<le> 0 then ''0.'' @ replicate (nat (- k)) (CHR ''0'') @ ds
      else if nat k < length ds then take (nat k) ds @ ''.'' @ drop (nat k) ds
      else ds @ replicate (nat k - length ds) (CHR ''0'') @ (if debug then ''.0'' else []))"

definition exp_form :: "string \<Rightarrow> int \<Rightarrow> string" where
  "exp_form ds k =
     take 1 ds @ (if length ds = 1 then [] else ''.'' @ drop 1 ds) @ ''e'' @ i64_to_string (k - 1)"

definition show_f64 :: "bool \<Rightarrow> f64 \<Rightarrow> string" where
  "show_f64 debug x =
     (if is_nan x then ''NaN''
      else (if fl_neg x then ''-'' else []) @
        (if is_inf x then ''inf''
         else if fl_mag x = 0 then (if debug then ''0.0'' else ''0'')
         else let (ds, k) = digits_point (fl_mag x) in
           if debug \<and> (k < - 3 \<or> 16 < k) then exp_form ds k else plain_form ds k debug))"

abbreviation f64_to_string :: "f64 \<Rightarrow> string" where
  "f64_to_string \<equiv> show_f64 False"

abbreviation f64_debug :: "f64 \<Rightarrow> string" where
  "f64_debug \<equiv> show_f64 True"

section \<open>Where arithmetic is exact\<close>

lemma bit_len_bounds: "0 < n \<Longrightarrow> 2 ^ (bit_len n - 1) \<le> n \<and> n < 2 ^ bit_len n \<and> 0 < bit_len n"
proof (induction n rule: bit_len.induct)
  case (1 n)
  show ?case
  proof (cases "2 ^ 64 \<le> n")
    case True
    let ?m = "n div 2 ^ 64"
    have m: "0 < ?m" using True by (simp add: div_greater_zero_iff)
    have ih: "2 ^ (bit_len ?m - 1) \<le> ?m" "?m < 2 ^ bit_len ?m" "0 < bit_len ?m" using 1(1) [OF _ True m] 1(3) by auto
    have len: "bit_len n = 64 + bit_len ?m" using True 1(3) by (simp add: bit_len.simps [of n])
    have "n < (2 ^ bit_len ?m) * 2 ^ 64" using ih(2) by (simp only: div_less_iff_less_mult zero_less_power zero_less_numeral)
    moreover have "2 ^ (bit_len ?m - 1) * 2 ^ 64 \<le> n" using ih(1) by (simp only: less_eq_div_iff_mult_less_eq zero_less_power zero_less_numeral)
    moreover obtain k where k: "bit_len ?m = Suc k" using ih(3) by (cases "bit_len ?m") auto
    ultimately show ?thesis unfolding len k by (simp add: power_add mult.commute)
  next
    case False
    let ?m = "n div 2"
    have len: "bit_len n = Suc (bit_len ?m)" using False 1(3) by (simp add: bit_len.simps [of n])
    show ?thesis
    proof (cases "?m = 0")
      case True
      then show ?thesis using 1(3) len by (simp add: bit_len.simps [of 0])
    next
      case nz: False
      then have ih: "2 ^ (bit_len ?m - 1) \<le> ?m" "?m < 2 ^ bit_len ?m" "0 < bit_len ?m" using 1(2) [OF _ False] 1(3) by auto
      obtain k where k: "bit_len ?m = Suc k" using ih(3) by (cases "bit_len ?m") auto
      have "2 * 2 ^ k \<le> 2 * (n div 2)" "2 * (n div 2) + 2 \<le> 2 * (2 * 2 ^ k)" using ih unfolding k by simp_all
      moreover have "2 * (n div 2) \<le> n" "n < 2 * (n div 2) + 2" by simp_all
      ultimately have "2 * 2 ^ k \<le> n" "n < 2 * (2 * 2 ^ k)" by linarith+
      then show ?thesis unfolding len k by simp
    qed
  qed
qed

lemma bit_len_zero [simp]: "bit_len 0 = 0"
  by (simp add: bit_len.simps)

lemma div_mod_add: "(x :: nat) < q \<Longrightarrow> (x + k * q) div q = k \<and> (x + k * q) mod q = x"
  by auto

lemma half_even_exact: "0 < q \<Longrightarrow> q dvd p \<Longrightarrow> half_even p q = p div q"
  by (simp add: half_even_def Let_def)

lemma round_mag_exact:
  assumes n: "n = m * 2 ^ s" "m < 2 ^ 53" "n < 2 ^ 2098"
  shows "mag_units (round_mag n 1) = n" "round_mag n 1 < inf_mag"
proof -
  have "mag_units (round_mag n 1) = n \<and> round_mag n 1 < inf_mag"
  proof (cases "bit_len n \<le> 53")
    case True
    have "n < 2 ^ 53"
    proof (cases "n = 0")
      case False
      then have "n < 2 ^ bit_len n" using bit_len_bounds by blast
      also have "\<dots> \<le> 2 ^ 53" using True by (intro power_increasing) simp_all
      finally show ?thesis .
    qed simp
    moreover have "round_mag n 1 = min inf_mag n" using True by (simp add: round_mag_def half_even_def Let_def)
    moreover have "n mod 2 ^ 52 + 2 ^ 52 = n" "n div 2 ^ 52 = 1" if "2 ^ 52 \<le> n" "n < 2 ^ 53"
    proof -
      show "n div 2 ^ 52 = 1" using that by (intro div_nat_eqI) simp_all
      then show "n mod 2 ^ 52 + 2 ^ 52 = n" using div_mult_mod_eq [of n "2 ^ 52"] by simp
    qed
    ultimately show ?thesis by (simp add: mag_units_def inf_mag_def mag_exp_def)
  next
    case False
    let ?h = "bit_len n - 53"
    let ?d = "n div 2 ^ ?h"
    have pos: "0 < n" using False by (cases "n = 0") simp_all
    have b: "2 ^ (?h + 52) \<le> n" "n < 2 ^ (?h + 53)"
    proof -
      have "bit_len n = (bit_len n - 54) + 54" using False by simp
      then obtain k where k: "bit_len n = k + 54" by blast
      have "k + 54 - 1 = k + 1 + 52" "k + 54 = k + 1 + 53" by simp_all
      with bit_len_bounds [OF pos] k show "2 ^ (?h + 52) \<le> n" "n < 2 ^ (?h + 53)" by simp_all
    qed
    have "(2 :: nat) ^ (?h + 52) < 2 ^ (53 + s)"
    proof -
      have "m * 2 ^ s < 2 ^ 53 * 2 ^ s" using n(2) by (intro mult_strict_right_mono) simp_all
      with b(1) show ?thesis unfolding n(1) [symmetric] power_add [symmetric] by (rule le_less_trans)
    qed
    then have "?h + 52 < 53 + s" by (rule power_less_imp_less_exp [rotated]) simp
    then have "?h \<le> s" by simp
    then have dvd: "2 ^ ?h dvd n" using n(1) by (simp add: le_imp_power_dvd)
    have d: "2 ^ 52 \<le> ?d" "?d < 2 ^ 53"
      using b by (simp_all add: less_eq_div_iff_mult_less_eq div_less_iff_less_mult power_add mult.commute)
    have h: "?h < 2046"
    proof -
      have "(2 :: nat) ^ (?h + 52) < 2 ^ 2098" using b(1) n(3) by (rule le_less_trans)
      then have "?h + 52 < 2098" by (rule power_less_imp_less_exp [rotated]) simp
      then show ?thesis by simp
    qed
    have small: "?d + ?h * 2 ^ 52 < inf_mag"
    proof -
      have "?h * 2 ^ 52 \<le> 2045 * 2 ^ 52" using h by (intro mult_right_mono) simp_all
      with d(2) show ?thesis by (simp add: inf_mag_def)
    qed
    then have r: "round_mag n 1 = ?d + ?h * 2 ^ 52"
      using half_even_exact [OF _ dvd] by (simp add: round_mag_def Let_def)
    have split: "?d + ?h * 2 ^ 52 = (?d - 2 ^ 52) + (?h + 1) * 2 ^ 52" using d(1) by simp
    have "(?d + ?h * 2 ^ 52) div 2 ^ 52 = ?h + 1" "(?d + ?h * 2 ^ 52) mod 2 ^ 52 = ?d - 2 ^ 52"
    proof -
      have "?d - 2 ^ 52 < 2 ^ 52" using d by simp
      from div_mod_add [OF this, of "?h + 1"]
      show "(?d + ?h * 2 ^ 52) div 2 ^ 52 = ?h + 1" "(?d + ?h * 2 ^ 52) mod 2 ^ 52 = ?d - 2 ^ 52"
        unfolding split by blast+
    qed
    then have "mag_units (?d + ?h * 2 ^ 52) = ?d * 2 ^ ?h"
      using d(1) by (simp add: mag_units_def mag_exp_def)
    then show ?thesis using r small dvd by simp
  qed
  then show "mag_units (round_mag n 1) = n" "round_mag n 1 < inf_mag" by blast+
qed

lemma with_sign_fields:
  assumes "m \<le> inf_mag"
  shows "fl_mag (with_sign s m) = m" "fl_neg (with_sign s m) = s"
proof -
  have m: "m < 2 ^ 63" using assms by (simp add: inf_mag_def)
  then have "unat (with_sign s m) = (if s then 2 ^ 63 + m else m)" by (auto simp: with_sign_def unat_of_nat)
  with m show "fl_mag (with_sign s m) = m" "fl_neg (with_sign s m) = s"
    by (auto simp: fl_mag_def fl_neg_def)
qed

lemma round_mag_le: "round_mag p q \<le> inf_mag"
  by (simp add: round_mag_def Let_def)

text \<open>The integers of at most 53 bits.\<close>

definition int53 :: "int \<Rightarrow> bool" where
  "int53 i \<longleftrightarrow> \<bar>i\<bar> < 2 ^ 53"

lemma fl_one_pos [simp]: "0 < fl_one" "fl_one \<noteq> 0"
  by (simp_all add: fl_one_def del: power_eq_0_iff)

lemma fl_one_sign [simp]: "i * int fl_one < 0 \<longleftrightarrow> i < 0" "i * int fl_one \<le> 0 \<longleftrightarrow> i \<le> 0"
proof -
  have "0 < int fl_one" by simp
  then show "i * int fl_one < 0 \<longleftrightarrow> i < 0" by (simp only: mult_less_0_iff) (simp add: not_less)
  then show "i * int fl_one \<le> 0 \<longleftrightarrow> i \<le> 0" by (simp add: le_less)
qed

lemma of_int_exact:
  assumes "int53 i"
  shows "fl_scaled (f64_of_int i) = i * int fl_one" "is_finite (f64_of_int i)"
    "fl_neg (f64_of_int i) \<longleftrightarrow> i < 0"
proof -
  let ?n = "nat \<bar>i * int fl_one\<bar>"
  have n: "?n = nat \<bar>i\<bar> * fl_one" by (simp add: abs_mult nat_mult_distrib)
  have small: "nat \<bar>i\<bar> < 2 ^ 53" using assms by (simp add: int53_def nat_less_iff)
  then have "nat \<bar>i\<bar> * fl_one < 2 ^ 53 * fl_one" by simp
  also have "\<dots> \<le> (2 :: nat) ^ 2098" unfolding fl_one_def power_add [symmetric] by (intro power_increasing) simp_all
  finally have "?n < 2 ^ 2098" unfolding n .
  have "?n = nat \<bar>i\<bar> * 2 ^ 1074" using n by (simp only: fl_one_def)
  note r = round_mag_exact [OF this small \<open>?n < 2 ^ 2098\<close>]
  note f = with_sign_fields [OF round_mag_le, of _ ?n 1]
  have neg: "fl_neg (f64_of_int i) \<longleftrightarrow> i < 0" unfolding f64_of_int_def round_int_def f by simp
  have mag: "mag_units (fl_mag (f64_of_int i)) = ?n" "fl_mag (f64_of_int i) < inf_mag"
    unfolding f64_of_int_def round_int_def f using r by simp_all
  show "fl_neg (f64_of_int i) \<longleftrightarrow> i < 0" by (rule neg)
  show "is_finite (f64_of_int i)" using mag(2) by (simp add: is_finite_def)
  show "fl_scaled (f64_of_int i) = i * int fl_one"
    unfolding fl_scaled_def neg mag(1) by (simp add: abs_mult abs_if)
qed

lemma finite_simps: "is_finite x \<Longrightarrow> \<not> is_nan x \<and> \<not> is_inf x"
  by (simp add: is_finite_def is_nan_def is_inf_def)

text \<open>Sums of such integers are the rounded sums; they are exact when the sum has 53 bits, too.\<close>

lemma f64_add_of_int: "int53 i \<Longrightarrow> int53 j \<Longrightarrow> f64_add (f64_of_int i) (f64_of_int j) = f64_of_int (i + j)"
proof -
  assume ij: "int53 i" "int53 j"
  note i = of_int_exact [OF ij(1)] and j = of_int_exact [OF ij(2)]
  have "f64_add (f64_of_int i) (f64_of_int j) = round_int (i < 0 \<and> j < 0) ((i + j) * int fl_one)"
    using finite_simps [OF i(2)] finite_simps [OF j(2)] i j by (simp add: f64_add_def distrib_right)
  moreover have "round_int (i < 0 \<and> j < 0) ((i + j) * int fl_one) = round_int False ((i + j) * int fl_one)"
  proof (cases "i < 0 \<and> j < 0")
    case True
    then have "(i + j) * int fl_one \<noteq> 0" by simp
    then show ?thesis unfolding round_int_def by (simp only: if_False)
  qed (simp only: )
  ultimately show ?thesis by (simp only: f64_of_int_def)
qed

lemma f64_to_i64_of_int: "int53 i \<Longrightarrow> f64_to_i64 (f64_of_int i) = i"
proof -
  assume i: "int53 i"
  note e = of_int_exact [OF i]
  have "sgn (i * int fl_one) * (\<bar>i * int fl_one\<bar> div int fl_one) = i" by (simp add: abs_mult sgn_mult sgn_mult_abs)
  moreover have "- (2 ^ 63) \<le> i" "i \<le> 2 ^ 63 - 1" using i by (simp_all add: int53_def)
  ultimately show ?thesis using finite_simps [OF e(2)] e(1) by (simp add: f64_to_i64_def)
qed

lemma f64_cmp_of_int: "int53 i \<Longrightarrow> int53 j \<Longrightarrow> f64_partial_cmp (f64_of_int i) (f64_of_int j) = Some (cmp_of i j)"
  using of_int_exact [of i] of_int_exact [of j] finite_simps [of "f64_of_int i"] finite_simps [of "f64_of_int j"]
  by (simp add: f64_partial_cmp_def cmp_of_def)

section \<open>Orderings\<close>

lemma cmp_of_simps [simp]:
  "cmp_of x y = Less \<longleftrightarrow> x < y" "cmp_of x y = Equal \<longleftrightarrow> x = y" "cmp_of x y = Greater \<longleftrightarrow> y < x"
  "cmp_of x x = Equal"
  by (auto simp: cmp_of_def)

fun rev_ordering :: "cmp_ordering \<Rightarrow> cmp_ordering" where
  "rev_ordering Less = Greater"
| "rev_ordering Equal = Equal"
| "rev_ordering Greater = Less"

lemma rev_cmp_of [simp]: "rev_ordering (cmp_of x y) = cmp_of y x"
  by (auto simp: cmp_of_def)

end
