(* ===== verification/SqlValue.thy ===== *)
theory SqlValue
  imports Float64
begin

text \<open>
  The values of the query engine (\<^verbatim>\<open>aegis-common/src/types.rs\<close>) and what the executor
  (\<^verbatim>\<open>aegis-query/src/executor.rs\<close>) does with single values: conversion, comparison, casts, printed
  forms and the scalar functions.

  A \<^verbatim>\<open>DateTime<Utc>\<close> is its number of nanoseconds since 1970.  What is not in the repository
  is a field of the record \<open>platform\<close>: the texts of \<^verbatim>\<open>chrono\<close>, the Unicode tables behind
  \<^verbatim>\<open>to_uppercase\<close> and \<^verbatim>\<open>to_lowercase\<close>, and \<^verbatim>\<open>f64::powi\<close>, whose precision Rust leaves open.
  The comparison of two values is a total preorder on the values of one family (numbers without
  invalid ones, texts, truth values) and equates values of different families.
\<close>

section \<open>Text\<close>

text \<open>\<^verbatim>\<open>chars\<close>: the characters of a UTF-8 string, each with all its bytes.\<close>

definition utf8_len :: "char \<Rightarrow> nat" where
  "utf8_len c = (let b = of_char c :: nat in if b < 0x80 then 1 else if b < 0xE0 then 2 else if b < 0xF0 then 3 else 4)"

lemma utf8_len_pos [simp]: "0 < utf8_len c"
  by (simp add: utf8_len_def Let_def)

function utf8_chars :: "string \<Rightarrow> string list" where
  "utf8_chars [] = []"
| "utf8_chars (c # cs) = take (utf8_len c) (c # cs) # utf8_chars (drop (utf8_len c) (c # cs))"
  by pat_completeness auto
termination
  by (relation "measure length") (simp_all add: utf8_len_def Let_def)

definition white_space :: "string list" where
  "white_space =
     [[CHR 0x09], [CHR 0x0A], [CHR 0x0B], [CHR 0x0C], [CHR 0x0D], '' '', [CHR 0xC2, CHR 0x85], [CHR 0xC2, CHR 0xA0],
      [CHR 0xE1, CHR 0x9A, CHR 0x80]] @
     map (\<lambda>b. [CHR 0xE2, CHR 0x80, char_of b]) ([0x80..<0x8B] @ [0xA8, 0xA9, 0xAF :: nat]) @
     [[CHR 0xE2, CHR 0x81, CHR 0x9F], [CHR 0xE3, CHR 0x80, CHR 0x80]]"

definition trim_start :: "string \<Rightarrow> string" where
  "trim_start s = concat (dropWhile (\<lambda>c. c \<in> set white_space) (utf8_chars s))"

definition trim_end :: "string \<Rightarrow> string" where
  "trim_end s = concat (rev (dropWhile (\<lambda>c. c \<in> set white_space) (rev (utf8_chars s))))"

definition str_trim :: "string \<Rightarrow> string" where
  "str_trim s = trim_end (trim_start s)"

definition str_contains :: "string \<Rightarrow> string \<Rightarrow> bool" where
  "str_contains s p \<longleftrightarrow> str_find p s \<noteq> None"

lemma str_find_Some: "str_find p s = Some i \<Longrightarrow> i + length p \<le> length s \<and> take (length p) (drop i s) = p"
proof (induction p s arbitrary: i rule: str_find.induct)
  case (2 p c s)
  show ?case
  proof (cases "starts_with (c # s) p")
    case True
    then have "take (length p) (c # s) = p" "i = 0" using "2.prems" by (simp_all add: starts_with_def)
    then show ?thesis by (metis add_0 drop_0 length_take min.bounded_iff order_refl min_def)
  next
    case False
    then obtain j where "str_find p s = Some j" "i = Suc j" using "2.prems" by (auto split: if_splits)
    with "2.IH" [OF False, of j] show ?thesis by simp
  qed
qed (auto split: if_splits)

text \<open>\<^verbatim>\<open>split\<close> at a non-empty separator, and \<^verbatim>\<open>replace\<close>.\<close>

function str_split :: "string \<Rightarrow> string \<Rightarrow> string list" where
  "str_split sep s =
     (if sep = [] then [s]
      else case str_find sep s of None \<Rightarrow> [s]
           | Some i \<Rightarrow> take i s # str_split sep (drop (i + length sep) s))"
  by pat_completeness auto
termination
proof (relation "measure (\<lambda>(sep, s). length s)")
  show "((sep, drop (i + length sep) s), sep, s) \<in> measure (\<lambda>(sep, s). length s)"
    if "sep \<noteq> []" "str_find sep s = Some i" for sep s i
    using str_find_Some [OF that(2)] that(1) by (cases sep) auto
qed simp

declare str_split.simps [simp del]

fun str_join :: "string \<Rightarrow> string list \<Rightarrow> string" where
  "str_join sep [] = []"
| "str_join sep [s] = s"
| "str_join sep (s # t # ss) = s @ sep @ str_join sep (t # ss)"

definition str_replace :: "string \<Rightarrow> string \<Rightarrow> string \<Rightarrow> string" where
  "str_replace s from to =
     (if from = [] then to @ concat (map (\<lambda>c. c @ to) (utf8_chars s)) else str_join to (str_split from s))"

text \<open>\<^verbatim>\<open>String::from_utf8_lossy\<close>: how many bytes to take next, and whether they are a character.\<close>

fun utf8_next :: "bytes \<Rightarrow> nat \<times> bool" where
  "utf8_next [] = (1, False)"
| "utf8_next (a # r) =
     (let c1 = (case r of b # _ \<Rightarrow> utf8_cont b | [] \<Rightarrow> False);
          c2 = (case r of _ # b # _ \<Rightarrow> utf8_cont b | _ \<Rightarrow> False);
          c3 = (case r of _ # _ # b # _ \<Rightarrow> utf8_cont b | _ \<Rightarrow> False);
          b1 = (case r of b # _ \<Rightarrow> b | [] \<Rightarrow> 0)
      in if a < 0x80 then (1, True)
         else if 0xC2 \<le> a \<and> a \<le> 0xDF then (if c1 then (2, True) else (1, False))
         else if 0xE0 \<le> a \<and> a \<le> 0xEF then
           (if \<not> (c1 \<and> (a = 0xE0 \<longrightarrow> 0xA0 \<le> b1) \<and> (a = 0xED \<longrightarrow> b1 \<le> 0x9F)) then (1, False)
            else if c2 then (3, True) else (2, False))
         else if 0xF0 \<le> a \<and> a \<le> 0xF4 then
           (if \<not> (c1 \<and> (a = 0xF0 \<longrightarrow> 0x90 \<le> b1) \<and> (a = 0xF4 \<longrightarrow> b1 \<le> 0x8F)) then (1, False)
            else if \<not> c2 then (2, False) else if c3 then (4, True) else (3, False))
         else (1, False))"

lemma utf8_next_pos: "0 < fst (utf8_next bs)"
  by (cases bs) (simp_all add: Let_def)

function from_utf8_lossy :: "bytes \<Rightarrow> string" where
  "from_utf8_lossy [] = []"
| "from_utf8_lossy (b # bs) =
     (if snd (utf8_next (b # bs)) then bytes_str (take (fst (utf8_next (b # bs))) (b # bs)) else [CHR 0xEF, CHR 0xBF, CHR 0xBD])
      @ from_utf8_lossy (drop (fst (utf8_next (b # bs))) (b # bs))"
  by pat_completeness auto
termination
proof (relation "measure length")
  show "(drop (fst (utf8_next (b # bs))) (b # bs), b # bs) \<in> measure length" for b bs
    using utf8_next_pos [of "b # bs"] by (simp del: utf8_next.simps)
qed simp

section \<open>Values\<close>

datatype data_type =
    DtAny | DtBoolean | DtTinyInt | DtSmallInt | DtInteger | DtBigInt | DtFloat | DtDouble
  | DtDecimal u8 u8 | DtChar nat | DtVarchar nat | DtText | DtBinary nat | DtVarbinary nat | DtBlob
  | DtDate | DtTime | DtTimestamp | DtTimestampTz | DtInterval | DtJson | DtJsonb | DtUuid
  | DtArray data_type

datatype sql_value =
    VNull
  | VBoolean bool
  | VInteger int
  | VFloat f64
  | VString string
  | VBytes bytes
  | VTimestamp int
  | VArray "sql_value list"
  | VObject "(string \<times> sql_value) list"

type_synonym row = "sql_value list"

text \<open>The derived \<^verbatim>\<open>==\<close>; two hash maps are equal when they bind the same keys to equal values.\<close>

function value_eq :: "sql_value \<Rightarrow> sql_value \<Rightarrow> bool" where
  "value_eq VNull w = (w = VNull)"
| "value_eq (VBoolean b) w = (w = VBoolean b)"
| "value_eq (VInteger i) w = (w = VInteger i)"
| "value_eq (VFloat f) w = (case w of VFloat g \<Rightarrow> f64_eq f g | _ \<Rightarrow> False)"
| "value_eq (VString s) w = (w = VString s)"
| "value_eq (VBytes b) w = (w = VBytes b)"
| "value_eq (VTimestamp t) w = (w = VTimestamp t)"
| "value_eq (VArray xs) w =
     (case w of VArray ys \<Rightarrow> length xs = length ys \<and> (\<forall>(x, y) \<in> set (zip xs ys). value_eq x y) | _ \<Rightarrow> False)"
| "value_eq (VObject m) w =
     (case w of
        VObject n \<Rightarrow> length m = length n
          \<and> (\<forall>(k, v) \<in> set m. case map_of n k of Some v' \<Rightarrow> value_eq v v' | None \<Rightarrow> False)
      | _ \<Rightarrow> False)"
  by pat_completeness auto
termination
proof (relation "measure (\<lambda>(v, w). size v)")
  show "((x, y), VArray xs, w) \<in> measure (\<lambda>(v, w). size v)"
    if "z \<in> set (zip xs ys)" "(x, y) = z" for xs w ys z x y
    using that by (force dest: set_zip_leftD size_list_estimation' [of _ _ _ size, OF _ order_refl])
  show "((v, v'), VObject m, w) \<in> measure (\<lambda>(v, w). size v)"
    if "z \<in> set m" "(k, v) = z" for m w n z k v v'
  proof -
    have "size_prod (\<lambda>x. 0) size z \<le> size_list (size_prod (\<lambda>x. 0) size) m"
      by (rule size_list_estimation' [OF that(1) order_refl])
    then show ?thesis using that(2) by auto
  qed
qed simp

text \<open>\<^verbatim>\<open>chrono\<close>, letter case and powers: \<open>pl_now\<close> prints the current time in a format,
  \<open>pl_datetime\<close> reads a date and time and gives its printed form in every format.\<close>

record platform =
  pl_upper :: "string \<Rightarrow> string"
  pl_lower :: "string \<Rightarrow> string"
  pl_powi :: "f64 \<Rightarrow> int \<Rightarrow> f64"
  pl_ts_debug :: "int \<Rightarrow> string"
  pl_ts_rfc3339 :: "int \<Rightarrow> string"
  pl_now :: "string \<Rightarrow> string"
  pl_datetime :: "string \<Rightarrow> (string \<Rightarrow> string) option"

text \<open>\<^verbatim>\<open>{:?}\<close> of a value.\<close>

definition debug_bool :: "bool \<Rightarrow> string" where
  "debug_bool b = (if b then ''true'' else ''false'')"

definition debug_bytes :: "bytes \<Rightarrow> string" where
  "debug_bytes bs = ''['' @ commas (map (\<lambda>b. nat_to_string (unat b)) bs) @ '']''"

fun debug_value :: "platform \<Rightarrow> sql_value \<Rightarrow> string" where
  "debug_value pl VNull = ''Null''"
| "debug_value pl (VBoolean b) = ''Boolean('' @ debug_bool b @ '')''"
| "debug_value pl (VInteger i) = ''Integer('' @ i64_to_string i @ '')''"
| "debug_value pl (VFloat f) = ''Float('' @ f64_debug f @ '')''"
| "debug_value pl (VString s) = ''String('' @ debug_str s @ '')''"
| "debug_value pl (VBytes b) = ''Bytes('' @ debug_bytes b @ '')''"
| "debug_value pl (VTimestamp t) = ''Timestamp('' @ pl_ts_debug pl t @ '')''"
| "debug_value pl (VArray xs) = ''Array(['' @ commas (map (debug_value pl) xs) @ ''])''"
| "debug_value pl (VObject m) = ''Object({'' @ commas (map (\<lambda>(k, v). debug_str k @ '': '' @ debug_value pl v) m) @ ''})''"

definition debug_values :: "platform \<Rightarrow> sql_value list \<Rightarrow> string" where
  "debug_values pl xs = ''['' @ commas (map (debug_value pl) xs) @ '']''"

definition debug_object :: "platform \<Rightarrow> (string \<times> sql_value) list \<Rightarrow> string" where
  "debug_object pl m = ''{'' @ commas (map (\<lambda>(k, v). debug_str k @ '': '' @ debug_value pl v) m) @ ''}''"

section \<open>Conversions\<close>

datatype executor_error =
    TableNotFound string
  | ColumnNotFound string
  | TypeMismatch string string
  | DivisionByZero
  | InvalidOperation string
  | ExecInternal string
  | ExecIndexError string

type_synonym 'a exec_result = "executor_error + 'a"

definition value_to_f64 :: "platform \<Rightarrow> sql_value \<Rightarrow> f64 exec_result" where
  "value_to_f64 pl v =
     (case v of
        VInteger i \<Rightarrow> Inr (f64_of_int i)
      | VFloat f \<Rightarrow> Inr f
      | VString s \<Rightarrow>
          (case parse_f64 s of Some f \<Rightarrow> Inr f | None \<Rightarrow> Inl (TypeMismatch ''number'' ''string''))
      | _ \<Rightarrow> Inl (TypeMismatch ''number'' (debug_value pl v)))"

definition value_to_i64 :: "platform \<Rightarrow> sql_value \<Rightarrow> int exec_result" where
  "value_to_i64 pl v =
     (case v of
        VInteger i \<Rightarrow> Inr i
      | VFloat f \<Rightarrow> Inr (f64_to_i64 f)
      | VString s \<Rightarrow>
          (case parse_i64 s of Some i \<Rightarrow> Inr i | None \<Rightarrow> Inl (TypeMismatch ''integer'' ''string''))
      | _ \<Rightarrow> Inl (TypeMismatch ''integer'' (debug_value pl v)))"

definition value_to_bool :: "platform \<Rightarrow> sql_value \<Rightarrow> bool exec_result" where
  "value_to_bool pl v =
     (case v of
        VBoolean b \<Rightarrow> Inr b
      | VInteger i \<Rightarrow> Inr (i \<noteq> 0)
      | VNull \<Rightarrow> Inr False
      | _ \<Rightarrow> Inl (TypeMismatch ''boolean'' (debug_value pl v)))"

definition value_to_string :: "platform \<Rightarrow> sql_value \<Rightarrow> string" where
  "value_to_string pl v =
     (case v of
        VString s \<Rightarrow> s
      | VInteger i \<Rightarrow> i64_to_string i
      | VFloat f \<Rightarrow> f64_to_string f
      | VBoolean b \<Rightarrow> debug_bool b
      | VNull \<Rightarrow> []
      | _ \<Rightarrow> debug_value pl v)"

text \<open>The comparison never fails; values of different families, and invalid numbers, count as equal.\<close>

definition cmp_f64 :: "f64 \<Rightarrow> f64 \<Rightarrow> cmp_ordering" where
  "cmp_f64 x y = (case f64_partial_cmp x y of Some c \<Rightarrow> c | None \<Rightarrow> Equal)"

fun compare_values :: "sql_value \<Rightarrow> sql_value \<Rightarrow> cmp_ordering" where
  "compare_values (VInteger l) (VInteger r) = cmp_of l r"
| "compare_values (VFloat l) (VFloat r) = cmp_f64 l r"
| "compare_values (VInteger l) (VFloat r) = cmp_f64 (f64_of_int l) r"
| "compare_values (VFloat l) (VInteger r) = cmp_f64 l (f64_of_int r)"
| "compare_values (VString l) (VString r) = cmp_of l r"
| "compare_values (VBoolean l) (VBoolean r) = cmp_of l r"
| "compare_values _ _ = Equal"

definition cast_value :: "platform \<Rightarrow> sql_value \<Rightarrow> data_type \<Rightarrow> sql_value exec_result" where
  "cast_value pl v t =
     (case t of
        DtInteger \<Rightarrow> (case value_to_i64 pl v of Inr i \<Rightarrow> Inr (VInteger i) | Inl e \<Rightarrow> Inl e)
      | DtFloat \<Rightarrow> (case value_to_f64 pl v of Inr f \<Rightarrow> Inr (VFloat f) | Inl e \<Rightarrow> Inl e)
      | DtText \<Rightarrow> Inr (VString (value_to_string pl v))
      | DtBoolean \<Rightarrow> (case value_to_bool pl v of Inr b \<Rightarrow> Inr (VBoolean b) | Inl e \<Rightarrow> Inl e)
      | _ \<Rightarrow> Inr v)"

section \<open>Scalar functions\<close>

definition arg_or_null :: "sql_value list \<Rightarrow> nat \<Rightarrow> sql_value" where
  "arg_or_null args i = (if i < length args then args ! i else VNull)"

text \<open>\<^verbatim>\<open>as i32\<close> and \<^verbatim>\<open>as usize\<close> of an \<^verbatim>\<open>i64\<close>.\<close>

definition int_as_i32 :: "int \<Rightarrow> int" where
  "int_as_i32 i = (i + 2 ^ 31) mod 2 ^ 32 - 2 ^ 31"

definition int_as_usize :: "int \<Rightarrow> nat" where
  "int_as_usize i = nat (i mod 2 ^ 64)"

definition fn_round :: "platform \<Rightarrow> sql_value list \<Rightarrow> sql_value exec_result" where
  "fn_round pl args =
     (case value_to_f64 pl (arg_or_null args 0) of Inl e \<Rightarrow> Inl e
      | Inr f \<Rightarrow>
          let decimals = (case arg_or_null args 1 of VInteger i \<Rightarrow> int_as_i32 i | _ \<Rightarrow> 0);
              factor = pl_powi pl (f64_of_int 10) decimals
          in Inr (VFloat (f64_div (f64_round (f64_mul f factor)) factor)))"

definition fn_substring :: "platform \<Rightarrow> sql_value list \<Rightarrow> sql_value" where
  "fn_substring pl args =
     (let s = value_to_string pl (arg_or_null args 0);
          start = (case arg_or_null args 1 of VInteger i \<Rightarrow> int_as_usize i - 1 | _ \<Rightarrow> 0);
          rest = drop start (utf8_chars s)
      in case arg_or_null args 2 of
           VInteger i \<Rightarrow> VString (concat (take (int_as_usize i) rest))
         | _ \<Rightarrow> VString (concat rest))"

definition fn_extract :: "platform \<Rightarrow> sql_value list \<Rightarrow> sql_value" where
  "fn_extract pl args =
     (let s = value_to_string pl (if args = [] then VNull else last args);
          part = pl_upper pl (value_to_string pl (arg_or_null args 0));
          field = (\<lambda>fmt f. case parse_i64 (fmt f) of Some i \<Rightarrow> i | None \<Rightarrow> 0)
      in case pl_datetime pl s of None \<Rightarrow> VNull
         | Some fmt \<Rightarrow>
             VInteger (if part = ''YEAR'' then field fmt ''%Y'' else if part = ''MONTH'' then field fmt ''%m''
               else if part = ''DAY'' then field fmt ''%d'' else if part = ''HOUR'' then field fmt ''%H''
               else if part = ''MINUTE'' then field fmt ''%M'' else if part = ''SECOND'' then field fmt ''%S'' else 0))"

definition fn_float :: "platform \<Rightarrow> (f64 \<Rightarrow> f64) \<Rightarrow> sql_value list \<Rightarrow> sql_value exec_result" where
  "fn_float pl g args =
     (case value_to_f64 pl (arg_or_null args 0) of Inl e \<Rightarrow> Inl e | Inr f \<Rightarrow> Inr (VFloat (g f)))"

definition fn_coalesce :: "sql_value list \<Rightarrow> sql_value" where
  "fn_coalesce args = (case find (\<lambda>a. a \<noteq> VNull) args of Some a \<Rightarrow> a | None \<Rightarrow> VNull)"

definition evaluate_function :: "platform \<Rightarrow> string \<Rightarrow> sql_value list \<Rightarrow> sql_value exec_result" where
  "evaluate_function pl name args =
     (let f = pl_upper pl name; s = value_to_string pl (arg_or_null args 0) in
      if f = ''UPPER'' then Inr (VString (pl_upper pl s))
      else if f = ''LOWER'' then Inr (VString (pl_lower pl s))
      else if f = ''LENGTH'' then Inr (VInteger (int (length s)))
      else if f = ''ABS'' then fn_float pl f64_abs args
      else if f = ''COALESCE'' then Inr (fn_coalesce args)
      else if f = ''ROUND'' then fn_round pl args
      else if f = ''CEIL'' \<or> f = ''CEILING'' then fn_float pl f64_ceil args
      else if f = ''FLOOR'' then fn_float pl f64_floor args
      else if f = ''SUBSTRING'' \<or> f = ''SUBSTR'' then Inr (fn_substring pl args)
      else if f = ''TRIM'' then Inr (VString (str_trim s))
      else if f = ''LTRIM'' then Inr (VString (trim_start s))
      else if f = ''RTRIM'' then Inr (VString (trim_end s))
      else if f = ''NULLIF'' then
        Inr (if 2 \<le> length args \<and> value_eq (args ! 0) (args ! 1) then VNull else arg_or_null args 0)
      else if f = ''NOW'' \<or> f = ''CURRENT_TIMESTAMP'' then Inr (VString (pl_now pl ''%Y-%m-%d %H:%M:%S''))
      else if f = ''CURRENT_DATE'' then Inr (VString (pl_now pl ''%Y-%m-%d''))
      else if f = ''CURRENT_TIME'' then Inr (VString (pl_now pl ''%H:%M:%S''))
      else if f = ''EXTRACT'' then Inr (fn_extract pl args)
      else if f = ''REPLACE'' then
        Inr (VString (str_replace s (value_to_string pl (arg_or_null args 1)) (value_to_string pl (arg_or_null args 2))))
      else if f = ''CONCAT'' then Inr (VString (concat (map (value_to_string pl) args)))
      else Inl (InvalidOperation (''Unknown function: '' @ name)))"

section \<open>When comparison is an order\<close>

text \<open>The families within which values are compared; an invalid number is in none of them.\<close>

datatype family = FNumber | FText | FTruth

fun family_of :: "sql_value \<Rightarrow> family option" where
  "family_of (VInteger i) = (if int53 i then Some FNumber else None)"
| "family_of (VFloat f) = (if is_nan f then None else Some FNumber)"
| "family_of (VString s) = Some FText"
| "family_of (VBoolean b) = Some FTruth"
| "family_of _ = None"

text \<open>A key for each value of a family; comparison compares keys.\<close>

fun number_key :: "sql_value \<Rightarrow> int" where
  "number_key (VInteger i) = i * int fl_one"
| "number_key (VFloat f) = fl_scaled f"
| "number_key _ = 0"

fun text_key :: "sql_value \<Rightarrow> string" where
  "text_key (VString s) = s"
| "text_key _ = []"

fun truth_key :: "sql_value \<Rightarrow> bool" where
  "truth_key (VBoolean b) = b"
| "truth_key _ = False"

lemma int_scaled [simp]: "cmp_of (i * int fl_one) (j * int fl_one) = cmp_of i j"
proof -
  have "0 < int fl_one" by simp
  then show ?thesis by (simp add: cmp_of_def)
qed

lemma int53_not_nan: "int53 i \<Longrightarrow> \<not> is_nan (f64_of_int i)"
  using of_int_exact(2) finite_simps by blast

lemma compare_families:
  assumes "family_of v = Some k" "family_of w = Some k"
  shows "compare_values v w =
    (case k of FNumber \<Rightarrow> cmp_of (number_key v) (number_key w) | FText \<Rightarrow> cmp_of (text_key v) (text_key w)
     | FTruth \<Rightarrow> cmp_of (truth_key v) (truth_key w))"
  using assms int53_not_nan of_int_exact(1)
  by (cases v; cases w) (auto simp: cmp_f64_def f64_partial_cmp_def split: if_splits)

lemma compare_values_sym: "compare_values w v = rev_ordering (compare_values v w)"
  by (cases v; cases w) (auto simp: cmp_f64_def f64_partial_cmp_def)

lemma compare_values_refl: "compare_values v v = Equal"
  by (cases v) (auto simp: cmp_f64_def f64_partial_cmp_def)

lemma compare_values_trans:
  assumes "family_of u = Some k" "family_of v = Some k" "family_of w = Some k"
    and "compare_values u v \<noteq> Greater" "compare_values v w \<noteq> Greater"
  shows "compare_values u w \<noteq> Greater"
  using assms(4,5) compare_families [OF assms(1,2)] compare_families [OF assms(2,3)] compare_families [OF assms(1,3)]
  by (cases k) auto

end
