(* ===== verification/SqlIndex.thy ===== *)
theory SqlIndex
  imports SqlValue "HOL-Library.Product_Lexorder"
begin

text \<open>
  The indexes of a table (\<^verbatim>\<open>aegis-query/src/index.rs\<close>): keys made of the indexed values, the
  B-tree index, the hash index, and the manager of all indexes of one table.

  A \<^verbatim>\<open>BTreeMap\<close> is the list of its entries in the order of the keys, walked the way a node is;
  a \<^verbatim>\<open>HashSet\<close> of row numbers is a list without repetitions.  What both kinds of index promise, the
  trait \<^verbatim>\<open>Index\<close>, is the locale \<open>row_index\<close>: an index is a relation between keys and rows.  The
  order of the B-tree is an order only for keys without invalid numbers (\<open>key_ok\<close>).
\<close>

section \<open>Keys\<close>

datatype index_type = BTree | Hash

datatype index_value =
    IxNull
  | IxBool bool
  | IxInt int
  | IxString string
  | IxFloat f64

type_synonym index_key = "index_value list"

fun ix_rank :: "index_value \<Rightarrow> nat" where
  "ix_rank IxNull = 0"
| "ix_rank (IxBool _) = 1"
| "ix_rank (IxInt _) = 2"
| "ix_rank (IxString _) = 3"
| "ix_rank (IxFloat _) = 4"

text \<open>The derived order, with the order of \<^verbatim>\<open>OrderedFloat\<close>, in which an invalid number equals every other.\<close>

fun cmp_index_value :: "index_value \<Rightarrow> index_value \<Rightarrow> cmp_ordering" where
  "cmp_index_value (IxBool a) (IxBool b) = cmp_of a b"
| "cmp_index_value (IxInt a) (IxInt b) = cmp_of a b"
| "cmp_index_value (IxString a) (IxString b) = cmp_of a b"
| "cmp_index_value (IxFloat a) (IxFloat b) = cmp_f64 a b"
| "cmp_index_value a b = cmp_of (ix_rank a) (ix_rank b)"

fun cmp_key :: "index_key \<Rightarrow> index_key \<Rightarrow> cmp_ordering" where
  "cmp_key [] [] = Equal"
| "cmp_key [] (y # ys) = Less"
| "cmp_key (x # xs) [] = Greater"
| "cmp_key (x # xs) (y # ys) = (case cmp_index_value x y of Equal \<Rightarrow> cmp_key xs ys | c \<Rightarrow> c)"

definition from_value :: "platform \<Rightarrow> sql_value \<Rightarrow> index_value" where
  "from_value pl v =
     (case v of
        VNull \<Rightarrow> IxNull
      | VBoolean b \<Rightarrow> IxBool b
      | VInteger i \<Rightarrow> IxInt i
      | VFloat f \<Rightarrow> IxFloat f
      | VString s \<Rightarrow> IxString s
      | VTimestamp t \<Rightarrow> IxInt (t div 10 ^ 9)
      | VBytes b \<Rightarrow> IxString (debug_bytes b)
      | VArray xs \<Rightarrow> IxString (debug_values pl xs)
      | VObject m \<Rightarrow> IxString (debug_object pl m))"

definition from_values :: "platform \<Rightarrow> sql_value list \<Rightarrow> index_key" where
  "from_values pl vs = map (from_value pl) vs"

datatype index_error = DuplicateKey string | IndexNotFound string | InvalidKey string

fun index_error_text :: "index_error \<Rightarrow> string" where
  "index_error_text (DuplicateKey m) = ''Duplicate key: '' @ m"
| "index_error_text (IndexNotFound m) = ''Index not found: '' @ m"
| "index_error_text (InvalidKey m) = ''Invalid key: '' @ m"

type_synonym row_ids = "nat list"

section \<open>B-tree index\<close>

text \<open>Lookup, insertion at a key and removal in the ordered entries.\<close>

fun bt_find :: "index_key \<Rightarrow> (index_key \<times> row_ids) list \<Rightarrow> row_ids option" where
  "bt_find key [] = None"
| "bt_find key ((k, ids) # t) =
     (case cmp_key key k of Greater \<Rightarrow> bt_find key t | Equal \<Rightarrow> Some ids | Less \<Rightarrow> None)"

fun bt_put :: "index_key \<Rightarrow> row_ids \<Rightarrow> (index_key \<times> row_ids) list \<Rightarrow> (index_key \<times> row_ids) list" where
  "bt_put key ids' [] = [(key, ids')]"
| "bt_put key ids' ((k, ids) # t) =
     (case cmp_key key k of
        Greater \<Rightarrow> (k, ids) # bt_put key ids' t
      | Equal \<Rightarrow> (k, ids') # t
      | Less \<Rightarrow> (key, ids') # (k, ids) # t)"

fun bt_delete :: "index_key \<Rightarrow> (index_key \<times> row_ids) list \<Rightarrow> (index_key \<times> row_ids) list" where
  "bt_delete key [] = []"
| "bt_delete key ((k, ids) # t) =
     (case cmp_key key k of Greater \<Rightarrow> (k, ids) # bt_delete key t | Equal \<Rightarrow> t | Less \<Rightarrow> (k, ids) # t)"

record btree_index =
  bx_name :: string
  bx_table :: string
  bx_columns :: "string list"
  bx_unique :: bool
  bx_tree :: "(index_key \<times> row_ids) list"
  bx_count :: nat

definition bx_new :: "string \<Rightarrow> string \<Rightarrow> string list \<Rightarrow> bool \<Rightarrow> btree_index" where
  "bx_new name table columns unique =
     \<lparr>bx_name = name, bx_table = table, bx_columns = columns, bx_unique = unique, bx_tree = [], bx_count = 0\<rparr>"

definition bx_get :: "index_key \<Rightarrow> btree_index \<Rightarrow> row_ids" where
  "bx_get key ix = (case bt_find key (bx_tree ix) of Some ids \<Rightarrow> ids | None \<Rightarrow> [])"

definition duplicate_key :: "string \<Rightarrow> index_error" where
  "duplicate_key name = DuplicateKey (''Duplicate key in unique index '' @ [CHR 0x27] @ name @ [CHR 0x27])"

definition bx_insert :: "index_key \<Rightarrow> nat \<Rightarrow> btree_index \<Rightarrow> index_error + btree_index" where
  "bx_insert key row ix =
     (if bx_unique ix \<and> bx_get key ix \<noteq> [] then Inl (duplicate_key (bx_name ix))
      else
        let ids = bx_get key ix in
        if row \<in> set ids then Inr (ix\<lparr>bx_tree := bt_put key ids (bx_tree ix)\<rparr>)
        else Inr (ix\<lparr>bx_tree := bt_put key (ids @ [row]) (bx_tree ix), bx_count := bx_count ix + 1\<rparr>))"

definition bx_remove :: "index_key \<Rightarrow> nat \<Rightarrow> btree_index \<Rightarrow> bool \<times> btree_index" where
  "bx_remove key row ix =
     (case bt_find key (bx_tree ix) of
        None \<Rightarrow> (False, ix)
      | Some ids \<Rightarrow>
          if row \<in> set ids then
            (let rest = remove1 row ids in
             (True, ix\<lparr>bx_tree := (if rest = [] then bt_delete key (bx_tree ix) else bt_put key rest (bx_tree ix)),
                       bx_count := bx_count ix - 1\<rparr>))
          else (False, ix))"

text \<open>\<^verbatim>\<open>BTreeMap::range\<close> panics (\<open>None\<close>) on an empty or inverted range of that kind.\<close>

definition bx_range :: "index_key option \<Rightarrow> index_key option \<Rightarrow> bool \<Rightarrow> bool \<Rightarrow> btree_index \<Rightarrow> row_ids option" where
  "bx_range start stop start_inclusive stop_inclusive ix =
     (if (case (start, stop) of
            (Some a, Some b) \<Rightarrow>
              cmp_key a b = Greater \<or> (cmp_key a b = Equal \<and> \<not> start_inclusive \<and> \<not> stop_inclusive)
          | _ \<Rightarrow> False) then None
      else
        let above = (\<lambda>k. case start of None \<Rightarrow> True
                        | Some a \<Rightarrow> cmp_key a k = Less \<or> (start_inclusive \<and> cmp_key a k = Equal));
            below = (\<lambda>k. case stop of None \<Rightarrow> True
                        | Some b \<Rightarrow> cmp_key k b = Less \<or> (stop_inclusive \<and> cmp_key k b = Equal))
        in Some (concat (map snd (filter (\<lambda>(k, _). above k \<and> below k) (bx_tree ix)))))"

definition bx_scan_all :: "btree_index \<Rightarrow> row_ids" where
  "bx_scan_all ix = concat (map snd (bx_tree ix))"

definition bx_len :: "btree_index \<Rightarrow> nat" where
  "bx_len ix = bx_count ix"

definition bx_is_empty :: "btree_index \<Rightarrow> bool" where
  "bx_is_empty ix \<longleftrightarrow> bx_len ix = 0"

definition bx_clear :: "btree_index \<Rightarrow> btree_index" where
  "bx_clear ix = ix\<lparr>bx_tree := [], bx_count := 0\<rparr>"

section \<open>Hash index\<close>

record hash_index =
  hx_name :: string
  hx_table :: string
  hx_columns :: "string list"
  hx_unique :: bool
  hx_map :: "(index_key, row_ids) hmap"
  hx_count :: nat

definition hx_new :: "string \<Rightarrow> string \<Rightarrow> string list \<Rightarrow> bool \<Rightarrow> hash_index" where
  "hx_new name table columns unique =
     \<lparr>hx_name = name, hx_table = table, hx_columns = columns, hx_unique = unique, hx_map = [], hx_count = 0\<rparr>"

definition hx_get :: "index_key \<Rightarrow> hash_index \<Rightarrow> row_ids" where
  "hx_get key ix = (case hm_get (hx_map ix) key of Some ids \<Rightarrow> ids | None \<Rightarrow> [])"

definition hx_insert :: "index_key \<Rightarrow> nat \<Rightarrow> hash_index \<Rightarrow> index_error + hash_index" where
  "hx_insert key row ix =
     (if hx_unique ix \<and> hx_get key ix \<noteq> [] then Inl (duplicate_key (hx_name ix))
      else
        let ids = hx_get key ix in
        if row \<in> set ids then Inr (ix\<lparr>hx_map := hm_insert key ids (hx_map ix)\<rparr>)
        else Inr (ix\<lparr>hx_map := hm_insert key (ids @ [row]) (hx_map ix), hx_count := hx_count ix + 1\<rparr>))"

definition hx_remove :: "index_key \<Rightarrow> nat \<Rightarrow> hash_index \<Rightarrow> bool \<times> hash_index" where
  "hx_remove key row ix =
     (case hm_get (hx_map ix) key of
        None \<Rightarrow> (False, ix)
      | Some ids \<Rightarrow>
          if row \<in> set ids then
            (let rest = remove1 row ids in
             (True, ix\<lparr>hx_map := (if rest = [] then hm_remove key (hx_map ix) else hm_insert key rest (hx_map ix)),
                       hx_count := hx_count ix - 1\<rparr>))
          else (False, ix))"

definition hx_len :: "hash_index \<Rightarrow> nat" where
  "hx_len ix = hx_count ix"

definition hx_is_empty :: "hash_index \<Rightarrow> bool" where
  "hx_is_empty ix \<longleftrightarrow> hx_len ix = 0"

definition hx_clear :: "hash_index \<Rightarrow> hash_index" where
  "hx_clear ix = ix\<lparr>hx_map := [], hx_count := 0\<rparr>"

section \<open>All indexes of a table\<close>

record index_manager =
  im_table :: string
  im_btree :: "(string, btree_index) hmap"
  im_hash :: "(string, hash_index) hmap"

definition im_new :: "string \<Rightarrow> index_manager" where
  "im_new table = \<lparr>im_table = table, im_btree = [], im_hash = []\<rparr>"

definition index_exists :: "string \<Rightarrow> index_error" where
  "index_exists name = DuplicateKey (''Index '' @ [CHR 0x27] @ name @ [CHR 0x27] @ '' already exists'')"

definition im_create_index ::
    "string \<Rightarrow> string list \<Rightarrow> bool \<Rightarrow> index_type \<Rightarrow> index_manager \<Rightarrow> index_error + index_manager" where
  "im_create_index name columns unique ty im =
     (case ty of
        BTree \<Rightarrow>
          if hm_contains (im_btree im) name then Inl (index_exists name)
          else Inr (im\<lparr>im_btree := hm_insert name (bx_new name (im_table im) columns unique) (im_btree im)\<rparr>)
      | Hash \<Rightarrow>
          if hm_contains (im_hash im) name then Inl (index_exists name)
          else Inr (im\<lparr>im_hash := hm_insert name (hx_new name (im_table im) columns unique) (im_hash im)\<rparr>))"

definition im_drop_index :: "string \<Rightarrow> index_manager \<Rightarrow> index_error + index_manager" where
  "im_drop_index name im =
     (if hm_contains (im_btree im) name then Inr (im\<lparr>im_btree := hm_remove name (im_btree im)\<rparr>)
      else if hm_contains (im_hash im) name then Inr (im\<lparr>im_hash := hm_remove name (im_hash im)\<rparr>)
      else Inl (IndexNotFound name))"

type_synonym column_values = "(string, sql_value) hmap"

definition build_key :: "platform \<Rightarrow> string list \<Rightarrow> column_values \<Rightarrow> index_key" where
  "build_key pl columns values =
     map (\<lambda>col. case hm_get values col of Some v \<Rightarrow> from_value pl v | None \<Rightarrow> IxNull) columns"

text \<open>The loops over all indexes stop at the first refusal; what was inserted before stays.\<close>

fun insert_all_btree :: "platform \<Rightarrow> nat \<Rightarrow> column_values \<Rightarrow> (string, btree_index) hmap
    \<Rightarrow> (string, btree_index) hmap \<times> index_error option" where
  "insert_all_btree pl row values [] = ([], None)"
| "insert_all_btree pl row values ((n, ix) # m) =
     (case bx_insert (build_key pl (bx_columns ix) values) row ix of
        Inl e \<Rightarrow> ((n, ix) # m, Some e)
      | Inr ix' \<Rightarrow> (case insert_all_btree pl row values m of (m', e) \<Rightarrow> ((n, ix') # m', e)))"

fun insert_all_hash :: "platform \<Rightarrow> nat \<Rightarrow> column_values \<Rightarrow> (string, hash_index) hmap
    \<Rightarrow> (string, hash_index) hmap \<times> index_error option" where
  "insert_all_hash pl row values [] = ([], None)"
| "insert_all_hash pl row values ((n, ix) # m) =
     (case hx_insert (build_key pl (hx_columns ix) values) row ix of
        Inl e \<Rightarrow> ((n, ix) # m, Some e)
      | Inr ix' \<Rightarrow> (case insert_all_hash pl row values m of (m', e) \<Rightarrow> ((n, ix') # m', e)))"

definition im_insert_row :: "platform \<Rightarrow> nat \<Rightarrow> column_values \<Rightarrow> index_manager \<Rightarrow> index_manager \<times> index_error option" where
  "im_insert_row pl row values im =
     (case insert_all_btree pl row values (im_btree im) of
        (b, Some e) \<Rightarrow> (im\<lparr>im_btree := b\<rparr>, Some e)
      | (b, None) \<Rightarrow>
          (case insert_all_hash pl row values (im_hash im) of
             (h, e) \<Rightarrow> (im\<lparr>im_btree := b, im_hash := h\<rparr>, e)))"

definition im_remove_row :: "platform \<Rightarrow> nat \<Rightarrow> column_values \<Rightarrow> index_manager \<Rightarrow> index_manager" where
  "im_remove_row pl row values im =
     im\<lparr>im_btree := map (\<lambda>(n, ix). (n, snd (bx_remove (build_key pl (bx_columns ix) values) row ix))) (im_btree im),
        im_hash := map (\<lambda>(n, ix). (n, snd (hx_remove (build_key pl (hx_columns ix) values) row ix))) (im_hash im)\<rparr>"

definition im_update_row ::
    "platform \<Rightarrow> nat \<Rightarrow> column_values \<Rightarrow> column_values \<Rightarrow> index_manager \<Rightarrow> index_manager \<times> index_error option" where
  "im_update_row pl row old_values new_values im =
     im_insert_row pl row new_values (im_remove_row pl row old_values im)"

definition lookup_eq :: "string \<Rightarrow> index_key \<Rightarrow> index_manager \<Rightarrow> row_ids option" where
  "lookup_eq name key im =
     (case hm_get (im_btree im) name of
        Some ix \<Rightarrow> Some (bx_get key ix)
      | None \<Rightarrow> map_option (hx_get key) (hm_get (im_hash im) name))"

text \<open>The outer option is that of the source, the inner one is a panic.\<close>

definition lookup_range :: "string \<Rightarrow> index_key option \<Rightarrow> index_key option \<Rightarrow> bool \<Rightarrow> bool \<Rightarrow> index_manager
    \<Rightarrow> row_ids option option" where
  "lookup_range name start stop start_inclusive stop_inclusive im =
     map_option (bx_range start stop start_inclusive stop_inclusive) (hm_get (im_btree im) name)"

definition find_index_for_columns :: "string list \<Rightarrow> index_manager \<Rightarrow> (string \<times> index_type) option" where
  "find_index_for_columns columns im =
     (case find (\<lambda>(n, ix). hx_columns ix = columns) (im_hash im) of
        Some (n, _) \<Rightarrow> Some (n, Hash)
      | None \<Rightarrow>
          (case find (\<lambda>(n, ix). length columns \<le> length (bx_columns ix)
                    \<and> take (length columns) (bx_columns ix) = columns) (im_btree im) of
             Some (n, _) \<Rightarrow> Some (n, BTree)
           | None \<Rightarrow> None))"

definition index_names :: "index_manager \<Rightarrow> string list" where
  "index_names im = hm_keys (im_btree im) @ hm_keys (im_hash im)"

definition get_index_info :: "string \<Rightarrow> index_manager \<Rightarrow> (string list \<times> bool \<times> index_type) option" where
  "get_index_info name im =
     (case hm_get (im_btree im) name of
        Some ix \<Rightarrow> Some (bx_columns ix, bx_unique ix, BTree)
      | None \<Rightarrow> map_option (\<lambda>ix. (hx_columns ix, hx_unique ix, Hash)) (hm_get (im_hash im) name))"

definition insert_into_index :: "string \<Rightarrow> index_key \<Rightarrow> nat \<Rightarrow> index_manager \<Rightarrow> index_error + index_manager" where
  "insert_into_index name key row im =
     (case hm_get (im_btree im) name of
        Some ix \<Rightarrow>
          (case bx_insert key row ix of Inl e \<Rightarrow> Inl e | Inr ix' \<Rightarrow> Inr (im\<lparr>im_btree := hm_insert name ix' (im_btree im)\<rparr>))
      | None \<Rightarrow>
          (case hm_get (im_hash im) name of
             Some ix \<Rightarrow>
               (case hx_insert key row ix of Inl e \<Rightarrow> Inl e | Inr ix' \<Rightarrow> Inr (im\<lparr>im_hash := hm_insert name ix' (im_hash im)\<rparr>))
           | None \<Rightarrow> Inl (IndexNotFound name)))"

definition remove_from_index :: "string \<Rightarrow> index_key \<Rightarrow> nat \<Rightarrow> index_manager \<Rightarrow> index_error + (bool \<times> index_manager)" where
  "remove_from_index name key row im =
     (case hm_get (im_btree im) name of
        Some ix \<Rightarrow> (case bx_remove key row ix of (b, ix') \<Rightarrow> Inr (b, im\<lparr>im_btree := hm_insert name ix' (im_btree im)\<rparr>))
      | None \<Rightarrow>
          (case hm_get (im_hash im) name of
             Some ix \<Rightarrow> (case hx_remove key row ix of (b, ix') \<Rightarrow> Inr (b, im\<lparr>im_hash := hm_insert name ix' (im_hash im)\<rparr>))
           | None \<Rightarrow> Inl (IndexNotFound name)))"

section \<open>The order of keys\<close>

text \<open>Keys without invalid numbers; a linearly ordered image of a key.\<close>

definition value_ok :: "index_value \<Rightarrow> bool" where
  "value_ok v \<longleftrightarrow> (case v of IxFloat f \<Rightarrow> \<not> is_nan f | _ \<Rightarrow> True)"

definition key_ok :: "index_key \<Rightarrow> bool" where
  "key_ok k \<longleftrightarrow> list_all value_ok k"

fun value_image :: "index_value \<Rightarrow> nat \<times> int \<times> string" where
  "value_image IxNull = (0, 0, [])"
| "value_image (IxBool b) = (1, of_bool b, [])"
| "value_image (IxInt i) = (2, i, [])"
| "value_image (IxString s) = (3, 0, s)"
| "value_image (IxFloat f) = (4, fl_scaled f, [])"

abbreviation key_image :: "index_key \<Rightarrow> (nat \<times> int \<times> string) list" where
  "key_image \<equiv> map value_image"

lemma cmp_index_value_image: "value_ok a \<Longrightarrow> value_ok b \<Longrightarrow> cmp_index_value a b = cmp_of (value_image a) (value_image b)"
  by (cases a; cases b) (auto simp: value_ok_def cmp_f64_def f64_partial_cmp_def cmp_of_def less_prod_def)

lemma cmp_key_image: "key_ok a \<Longrightarrow> key_ok b \<Longrightarrow> cmp_key a b = cmp_of (key_image a) (key_image b)"
proof (induction a b rule: cmp_key.induct)
  case (4 x xs y ys)
  then have "cmp_index_value x y = cmp_of (value_image x) (value_image y)"
    by (intro cmp_index_value_image) (simp_all add: key_ok_def)
  with 4 show ?case by (auto simp: key_ok_def cmp_of_def)
qed (simp_all add: cmp_of_def)

text \<open>Entries in strictly increasing order; none is empty, and rows are listed once.\<close>

definition entries_ok :: "(index_key \<times> row_ids) list \<Rightarrow> bool" where
  "entries_ok t \<longleftrightarrow> sorted_wrt (<) (map (key_image \<circ> fst) t)
     \<and> (\<forall>(k, ids) \<in> set t. key_ok k \<and> distinct ids \<and> ids \<noteq> [])"

lemma entries_ok_Nil [simp]: "entries_ok []"
  by (simp add: entries_ok_def)

lemma entries_ok_Cons:
  "entries_ok ((k, ids) # t) \<longleftrightarrow> key_ok k \<and> distinct ids \<and> ids \<noteq> [] \<and> entries_ok t
     \<and> (\<forall>k' \<in> fst ` set t. key_image k < key_image k')"
  by (auto simp: entries_ok_def)

lemma bt_find_above:
  "entries_ok t \<Longrightarrow> key_ok k \<Longrightarrow> \<forall>k' \<in> fst ` set t. key_image k < key_image k' \<Longrightarrow> bt_find k t = None"
  by (cases t) (auto simp: entries_ok_Cons cmp_key_image split: cmp_ordering.splits)

lemma bt_put_in: "x \<in> set (bt_put k ids t) \<Longrightarrow> fst x = k \<or> fst x \<in> fst ` set t"
  by (induction t) (auto split: cmp_ordering.splits)

lemma bt_delete_in: "x \<in> set (bt_delete k t) \<Longrightarrow> fst x \<in> fst ` set t"
  by (induction t) (auto split: cmp_ordering.splits)

lemma bt_put_ok:
  "entries_ok t \<Longrightarrow> key_ok k \<Longrightarrow> distinct ids \<Longrightarrow> ids \<noteq> [] \<Longrightarrow> entries_ok (bt_put k ids t)"
proof (induction t)
  case (Cons e t)
  obtain k' ids' where e: "e = (k', ids')" by (cases e) auto
  have "key_image k' < key_image (fst x)" if "x \<in> set (bt_put k ids t)" "key_image k' < key_image k" for x
    using bt_put_in [OF that(1)] that(2) Cons.prems unfolding e entries_ok_Cons by auto
  then show ?case
    using Cons unfolding e by (auto simp: entries_ok_Cons cmp_key_image split: cmp_ordering.splits)
qed (simp add: entries_ok_Cons)

lemma bt_delete_ok: "entries_ok t \<Longrightarrow> key_ok k \<Longrightarrow> entries_ok (bt_delete k t)"
proof (induction t)
  case (Cons e t)
  obtain k' ids' where e: "e = (k', ids')" by (cases e) auto
  have "key_image k' < key_image (fst x)" if "x \<in> set (bt_delete k t)" for x
    using bt_delete_in [OF that] Cons.prems unfolding e entries_ok_Cons by auto
  then show ?case
    using Cons unfolding e by (auto simp: entries_ok_Cons split: cmp_ordering.splits)
qed simp

lemma bt_find_put:
  "entries_ok t \<Longrightarrow> key_ok k \<Longrightarrow> key_ok k' \<Longrightarrow>
    bt_find k' (bt_put k ids t) = (if cmp_key k k' = Equal then Some ids else bt_find k' t)"
  by (induction t) (auto simp: entries_ok_Cons cmp_key_image split: cmp_ordering.splits)

lemma bt_find_delete:
  "entries_ok t \<Longrightarrow> key_ok k \<Longrightarrow> key_ok k' \<Longrightarrow>
    bt_find k' (bt_delete k t) = (if cmp_key k k' = Equal then None else bt_find k' t)"
proof (induction t)
  case (Cons e t)
  obtain a ids where e: "e = (a, ids)" by (cases e) auto
  show ?case
    using Cons bt_find_above [of t k'] unfolding e
    by (auto simp: entries_ok_Cons cmp_key_image split: cmp_ordering.splits dest: order.strict_trans)
qed simp

lemma bt_find_in: "entries_ok t \<Longrightarrow> bt_find k t = Some ids \<Longrightarrow> distinct ids \<and> ids \<noteq> []"
  by (induction t) (auto simp: entries_ok_Cons split: cmp_ordering.splits)

text \<open>How many pairs of a key and a row there are.\<close>

definition entries_size :: "('k \<times> row_ids) list \<Rightarrow> nat" where
  "entries_size t = sum_list (map (length \<circ> snd) t)"

definition rows_of :: "row_ids option \<Rightarrow> row_ids" where
  "rows_of x = (case x of Some ids \<Rightarrow> ids | None \<Rightarrow> [])"

lemma rows_of_simps [simp]: "rows_of None = []" "rows_of (Some ids) = ids"
  by (simp_all add: rows_of_def)

lemma size_bt_put:
  "entries_ok t \<Longrightarrow> key_ok k \<Longrightarrow> entries_size (bt_put k ids t) + length (rows_of (bt_find k t)) = entries_size t + length ids"
proof (induction t)
  case (Cons e t)
  then show ?case
    by (cases e) (auto simp: entries_size_def entries_ok_Cons split: cmp_ordering.splits)
qed (simp add: entries_size_def)

lemma size_bt_delete:
  "entries_ok t \<Longrightarrow> key_ok k \<Longrightarrow> entries_size (bt_delete k t) + length (rows_of (bt_find k t)) = entries_size t"
proof (induction t)
  case (Cons e t)
  then show ?case
    by (cases e) (auto simp: entries_size_def entries_ok_Cons split: cmp_ordering.splits)
qed (simp add: entries_size_def)

lemma size_hm_insert:
  "hm_ok m \<Longrightarrow> entries_size (hm_insert k ids m) + length (rows_of (hm_get m k)) = entries_size m + length ids"
  by (induction m) (auto simp: entries_size_def hm_ok_def map_of_eq_None_iff)

lemma size_hm_remove: "hm_ok m \<Longrightarrow> entries_size (hm_remove k m) + length (rows_of (hm_get m k)) = entries_size m"
proof (induction m)
  case (Cons e m)
  have "hm_remove k m = m" if "k \<notin> fst ` set m" using that by (simp add: AList.delete_eq filter_id_conv) force
  then show ?case using Cons by (cases e) (auto simp: entries_size_def hm_ok_def)
qed (simp add: entries_size_def)

lemma set_hm_insert_sub: "set (hm_insert k v m) \<subseteq> insert (k, v) (set m)"
  by (induction m) auto

section \<open>What an index promises\<close>

datatype 'k index_op = IxInsert 'k nat | IxRemove 'k nat

text \<open>An index as a relation between keys and rows.\<close>

fun relation_do :: "('k \<Rightarrow> 'k \<Rightarrow> bool) \<Rightarrow> bool \<Rightarrow> 'k index_op \<Rightarrow> ('k \<Rightarrow> nat set) \<Rightarrow> 'k \<Rightarrow> nat set" where
  "relation_do same unique (IxInsert k row) R =
     (if unique \<and> R k \<noteq> {} then R else (\<lambda>k'. if same k k' then insert row (R k') else R k'))"
| "relation_do same unique (IxRemove k row) R = (\<lambda>k'. if same k k' then R k' - {row} else R k')"

fun index_do :: "('k \<Rightarrow> nat \<Rightarrow> 's \<Rightarrow> index_error + 's) \<Rightarrow> ('k \<Rightarrow> nat \<Rightarrow> 's \<Rightarrow> bool \<times> 's) \<Rightarrow> 'k index_op \<Rightarrow> 's \<Rightarrow> 's" where
  "index_do ins rem (IxInsert k row) s = (case ins k row s of Inl e \<Rightarrow> s | Inr s' \<Rightarrow> s')"
| "index_do ins rem (IxRemove k row) s = snd (rem k row s)"

fun ix_op_key :: "'k index_op \<Rightarrow> 'k" where
  "ix_op_key (IxInsert k row) = k"
| "ix_op_key (IxRemove k row) = k"

locale row_index =
  fixes good :: "'k \<Rightarrow> bool" and same :: "'k \<Rightarrow> 'k \<Rightarrow> bool"
    and inv :: "'s \<Rightarrow> bool" and unique :: "'s \<Rightarrow> bool"
    and ins :: "'k \<Rightarrow> nat \<Rightarrow> 's \<Rightarrow> index_error + 's" and rem :: "'k \<Rightarrow> nat \<Rightarrow> 's \<Rightarrow> bool \<times> 's"
    and look :: "'k \<Rightarrow> 's \<Rightarrow> row_ids" and count :: "'s \<Rightarrow> nat"
  assumes look_distinct: "inv s \<Longrightarrow> good k \<Longrightarrow> distinct (look k s)"
    and look_same: "inv s \<Longrightarrow> good k \<Longrightarrow> good k' \<Longrightarrow> same k k' \<Longrightarrow> look k s = look k' s"
    and same_refl: "good k \<Longrightarrow> same k k"
    and ins_refused: "inv s \<Longrightarrow> good k \<Longrightarrow> unique s \<Longrightarrow> look k s \<noteq> [] \<Longrightarrow> \<exists>e. ins k row s = Inl e"
    and ins_done: "inv s \<Longrightarrow> good k \<Longrightarrow> \<not> (unique s \<and> look k s \<noteq> []) \<Longrightarrow>
      \<exists>s'. ins k row s = Inr s' \<and> inv s' \<and> unique s' = unique s
        \<and> (\<forall>k'. good k' \<longrightarrow> set (look k' s') = (if same k k' then insert row (set (look k' s)) else set (look k' s)))
        \<and> count s' = (if row \<in> set (look k s) then count s else Suc (count s))"
    and rem_done: "inv s \<Longrightarrow> good k \<Longrightarrow>
      inv (snd (rem k row s)) \<and> unique (snd (rem k row s)) = unique s
        \<and> (fst (rem k row s) \<longleftrightarrow> row \<in> set (look k s))
        \<and> (\<forall>k'. good k' \<longrightarrow>
             set (look k' (snd (rem k row s))) = (if same k k' then set (look k' s) - {row} else set (look k' s)))
        \<and> count s = (if row \<in> set (look k s) then Suc (count (snd (rem k row s))) else count (snd (rem k row s)))"
begin

definition rows :: "'s \<Rightarrow> 'k \<Rightarrow> nat set" where
  "rows s k = set (look k s)"

lemma rows_empty: "rows s k = {} \<longleftrightarrow> look k s = []"
  by (simp add: rows_def)

lemma do_refines:
  assumes "inv s" "good (ix_op_key x)"
  shows "inv (index_do ins rem x s) \<and> unique (index_do ins rem x s) = unique s
    \<and> (\<forall>k. good k \<longrightarrow> rows (index_do ins rem x s) k = relation_do same (unique s) x (rows s) k)"
proof (cases x)
  case (IxInsert k row)
  show ?thesis
  proof (cases "unique s \<and> look k s \<noteq> []")
    case True
    then obtain e where "ins k row s = Inl e" using ins_refused [of s k row] assms IxInsert by auto
    then show ?thesis using IxInsert assms True by (simp add: rows_empty)
  next
    case False
    then show ?thesis using IxInsert assms ins_done [of s k row] by (fastforce simp: rows_def)
  qed
next
  case (IxRemove k row)
  then show ?thesis using assms rem_done [of s k row] by (simp add: rows_def)
qed

lemma relation_do_cong:
  "good (ix_op_key x) \<Longrightarrow> (\<And>k. good k \<Longrightarrow> R k = R' k) \<Longrightarrow> good k \<Longrightarrow> relation_do same u x R k = relation_do same u x R' k"
  by (cases x) auto

text \<open>Any sequence of insertions and removals acts on the relation.\<close>

lemma run_refines:
  assumes "inv s" "\<forall>x \<in> set xs. good (ix_op_key x)"
  shows "inv (foldl (\<lambda>s x. index_do ins rem x s) s xs)
    \<and> unique (foldl (\<lambda>s x. index_do ins rem x s) s xs) = unique s
    \<and> (\<forall>k. good k \<longrightarrow> rows (foldl (\<lambda>s x. index_do ins rem x s) s xs) k
          = foldl (\<lambda>R x. relation_do same (unique s) x R) (rows s) xs k)"
  using assms(2)
proof (induction xs rule: rev_induct)
  case Nil
  then show ?case using assms(1) by simp
next
  case (snoc x xs)
  let ?s = "foldl (\<lambda>s x. index_do ins rem x s) s xs"
  let ?R = "foldl (\<lambda>R x. relation_do same (unique s) x R) (rows s) xs"
  have ih: "inv ?s" "unique ?s = unique s" "\<And>k. good k \<Longrightarrow> rows ?s k = ?R k" using snoc by auto
  have x: "good (ix_op_key x)" using snoc.prems by simp
  show ?case using do_refines [OF ih(1) x] ih relation_do_cong [OF x, of "rows ?s" ?R] by simp
qed

text \<open>A unique index never has two rows for a key.\<close>

lemma unique_step:
  assumes "unique s" "\<And>k. good k \<Longrightarrow> card (R k) \<le> 1 \<and> finite (R k)" "good k"
    and "\<And>k k'. good k \<Longrightarrow> good k' \<Longrightarrow> same k k' \<Longrightarrow> R k = R k'" "good (ix_op_key x)"
  shows "card (relation_do same True x R k) \<le> 1 \<and> finite (relation_do same True x R k)"
proof (cases x)
  case (IxInsert k0 row)
  then show ?thesis using assms(2) [OF assms(3)] assms(4) [of k0 k] assms(3,5) by auto
next
  case (IxRemove k0 row)
  then show ?thesis using assms(2) [OF assms(3)] card_Diff1_le [of "R k" row] by (auto intro: order_trans)
qed

lemma unique_run:
  assumes "inv s" "unique s" "\<forall>x \<in> set xs. good (ix_op_key x)" "\<And>k. good k \<Longrightarrow> length (look k s) \<le> 1" "good k"
  shows "length (look k (foldl (\<lambda>s x. index_do ins rem x s) s xs)) \<le> 1"
  using assms(3,5)
proof (induction xs arbitrary: k rule: rev_induct)
  case Nil
  then show ?case using assms(4) by simp
next
  case (snoc x xs)
  let ?s = "foldl (\<lambda>s x. index_do ins rem x s) s xs"
  have s: "inv ?s" "unique ?s" using run_refines [OF assms(1), of xs] snoc.prems assms(2) by auto
  have x: "good (ix_op_key x)" using snoc.prems by simp
  have card: "card (rows ?s k') \<le> 1 \<and> finite (rows ?s k')" if "good k'" for k'
    using snoc.IH [of k'] snoc.prems(1) that look_distinct [OF s(1) that] by (simp add: rows_def distinct_card)
  have eq: "rows ?s k1 = rows ?s k2" if "good k1" "good k2" "same k1 k2" for k1 k2
    using look_same [OF s(1) that] by (simp add: rows_def)
  have "card (rows (index_do ins rem x ?s) k) \<le> 1"
    using unique_step [OF s(2) card snoc.prems(2) eq x] do_refines [OF s(1) x] s(2) snoc.prems(2) by simp
  moreover have "distinct (look k (index_do ins rem x ?s))"
    using look_distinct do_refines [OF s(1) x] snoc.prems(2) by blast
  ultimately show ?case by (simp add: rows_def distinct_card)
qed

end

definition bx_ok :: "btree_index \<Rightarrow> bool" where
  "bx_ok ix \<longleftrightarrow> entries_ok (bx_tree ix) \<and> bx_count ix = entries_size (bx_tree ix)"

definition hx_ok :: "hash_index \<Rightarrow> bool" where
  "hx_ok ix \<longleftrightarrow> hm_ok (hx_map ix) \<and> (\<forall>(k, ids) \<in> set (hx_map ix). distinct ids \<and> ids \<noteq> [])
     \<and> hx_count ix = entries_size (hx_map ix)"

definition same_key :: "index_key \<Rightarrow> index_key \<Rightarrow> bool" where
  "same_key k k' \<longleftrightarrow> cmp_key k k' = Equal"

lemma bx_get_rows: "bx_get k ix = rows_of (bt_find k (bx_tree ix))"
  by (simp add: bx_get_def rows_of_def)

lemma hx_get_rows: "hx_get k ix = rows_of (hm_get (hx_map ix) k)"
  by (simp add: hx_get_def rows_of_def)

lemma same_key_find:
  "entries_ok t \<Longrightarrow> key_ok k \<Longrightarrow> key_ok k' \<Longrightarrow> same_key k k' \<Longrightarrow> bt_find k t = bt_find k' t"
  by (induction t) (auto simp: same_key_def entries_ok_Cons cmp_key_image split: cmp_ordering.splits)

lemma bx_get_distinct: "bx_ok ix \<Longrightarrow> distinct (bx_get k ix)"
  using bt_find_in by (fastforce simp: bx_ok_def bx_get_def split: option.splits)

lemma bx_insert_done:
  assumes "bx_ok ix" "key_ok k" "\<not> (bx_unique ix \<and> bx_get k ix \<noteq> [])"
  shows "\<exists>ix'. bx_insert k row ix = Inr ix' \<and> bx_ok ix' \<and> bx_unique ix' = bx_unique ix
    \<and> (\<forall>k'. key_ok k' \<longrightarrow> set (bx_get k' ix') = (if same_key k k' then insert row (set (bx_get k' ix)) else set (bx_get k' ix)))
    \<and> bx_len ix' = (if row \<in> set (bx_get k ix) then bx_len ix else Suc (bx_len ix))"
proof -
  let ?ids = "bx_get k ix"
  let ?new = "if row \<in> set ?ids then ?ids else ?ids @ [row]"
  let ?t = "bt_put k ?new (bx_tree ix)"
  have t: "entries_ok (bx_tree ix)" "bx_count ix = entries_size (bx_tree ix)" using assms(1) by (auto simp: bx_ok_def)
  have new: "distinct ?new" "?new \<noteq> []" "set ?new = insert row (set ?ids)"
    using bx_get_distinct [OF assms(1), of k] by auto
  have ok: "entries_ok ?t" by (rule bt_put_ok [OF t(1) assms(2) new(1,2)])
  have size: "entries_size ?t + length ?ids = entries_size (bx_tree ix) + length ?new"
    using size_bt_put [OF t(1) assms(2)] by (simp add: bx_get_rows)
  have ins: "bx_insert k row ix = Inr (ix\<lparr>bx_tree := ?t, bx_count := bx_count ix + length ?new - length ?ids\<rparr>)"
    using assms(3) by (simp add: bx_insert_def Let_def)
  have get: "bx_get k' (ix\<lparr>bx_tree := ?t, bx_count := c\<rparr>) = (if same_key k k' then ?new else bx_get k' ix)" if "key_ok k'" for k' c
    using bt_find_put [OF t(1) assms(2) that] by (simp add: bx_get_rows same_key_def)
  have "set (bx_get k' ix) = set ?ids" if "same_key k k'" "key_ok k'" for k'
    using same_key_find [OF t(1) assms(2) that(2,1)] by (simp add: bx_get_rows)
  then show ?thesis
    unfolding ins using ok size t(2) get new(3) by (auto simp: bx_ok_def bx_len_def)
qed

lemma bx_remove_done:
  assumes "bx_ok ix" "key_ok k"
  shows "bx_ok (snd (bx_remove k row ix)) \<and> bx_unique (snd (bx_remove k row ix)) = bx_unique ix
    \<and> (fst (bx_remove k row ix) \<longleftrightarrow> row \<in> set (bx_get k ix))
    \<and> (\<forall>k'. key_ok k' \<longrightarrow> set (bx_get k' (snd (bx_remove k row ix)))
          = (if same_key k k' then set (bx_get k' ix) - {row} else set (bx_get k' ix)))
    \<and> bx_len ix = (if row \<in> set (bx_get k ix) then Suc (bx_len (snd (bx_remove k row ix))) else bx_len (snd (bx_remove k row ix)))"
proof (cases "row \<in> set (bx_get k ix)")
  case False
  then have "bx_remove k row ix = (False, ix)" by (auto simp: bx_remove_def bx_get_def split: option.splits)
  moreover have "row \<notin> set (bx_get k' ix)" if "key_ok k'" "same_key k k'" for k'
    using same_key_find [OF _ assms(2) that] assms(1) False by (simp add: bx_get_rows bx_ok_def)
  ultimately show ?thesis using assms(1) False by auto
next
  case True
  let ?ids = "bx_get k ix"
  let ?rest = "remove1 row ?ids"
  let ?t = "if ?rest = [] then bt_delete k (bx_tree ix) else bt_put k ?rest (bx_tree ix)"
  have t: "entries_ok (bx_tree ix)" "bx_count ix = entries_size (bx_tree ix)" using assms(1) by (auto simp: bx_ok_def)
  have find: "bt_find k (bx_tree ix) = Some ?ids"
    using True by (cases "bt_find k (bx_tree ix)") (simp_all add: bx_get_def)
  have rem: "bx_remove k row ix = (True, ix\<lparr>bx_tree := ?t, bx_count := bx_count ix - 1\<rparr>)"
    using True find by (simp add: bx_remove_def Let_def)
  have d: "distinct ?ids" by (rule bx_get_distinct [OF assms(1)])
  have ok: "entries_ok ?t" using bt_delete_ok [OF t(1) assms(2)] bt_put_ok [OF t(1) assms(2)] d by simp
  have len: "length ?ids = Suc (length ?rest)" using length_pos_if_in_set [OF True] True by (simp add: length_remove1)
  have size: "entries_size ?t + 1 = entries_size (bx_tree ix)"
    using size_bt_put [OF t(1) assms(2), of ?rest] size_bt_delete [OF t(1) assms(2)] find len by auto
  have get: "bx_get k' (ix\<lparr>bx_tree := ?t, bx_count := c\<rparr>) = (if same_key k k' then ?rest else bx_get k' ix)" if "key_ok k'" for k' c
    using bt_find_put [OF t(1) assms(2) that] bt_find_delete [OF t(1) assms(2) that] by (simp add: bx_get_rows same_key_def)
  obtain t' where t': "t' = ?t" by blast
  have same: "set (bx_get k' ix) = set ?ids" if "same_key k k'" "key_ok k'" for k'
    using same_key_find [OF t(1) assms(2) that(2,1)] by (simp add: bx_get_rows)
  have "set ?rest = set ?ids - {row}" using d by (rule set_remove1_eq)
  with same show ?thesis
    unfolding rem [folded t'] using ok [folded t'] size [folded t'] t(2) get [folded t'] True
    by (simp add: bx_ok_def bx_len_def del: set_remove1_eq)
qed

interpretation bx: row_index key_ok same_key bx_ok bx_unique bx_insert bx_remove bx_get bx_len
proof
  show "bx_get k s = bx_get k' s" if "bx_ok s" "key_ok k" "key_ok k'" "same_key k k'" for s k k'
    using same_key_find that by (simp add: bx_get_rows bx_ok_def)
  show "same_key k k" if "key_ok k" for k using that by (simp add: same_key_def cmp_key_image)
  show "\<exists>e. bx_insert k row s = Inl e" if "bx_unique s" "bx_get k s \<noteq> []" for s k row
    using that by (simp add: bx_insert_def)
qed (simp_all add: bx_get_distinct bx_insert_done bx_remove_done)

lemma hx_get_distinct: "hx_ok ix \<Longrightarrow> distinct (hx_get k ix)"
  by (auto simp: hx_ok_def hx_get_def split: option.splits dest!: map_of_SomeD)

lemma hx_insert_done:
  assumes "hx_ok ix" "\<not> (hx_unique ix \<and> hx_get k ix \<noteq> [])"
  shows "\<exists>ix'. hx_insert k row ix = Inr ix' \<and> hx_ok ix' \<and> hx_unique ix' = hx_unique ix
    \<and> (\<forall>k'. set (hx_get k' ix') = (if k = k' then insert row (set (hx_get k' ix)) else set (hx_get k' ix)))
    \<and> hx_len ix' = (if row \<in> set (hx_get k ix) then hx_len ix else Suc (hx_len ix))"
proof -
  let ?ids = "hx_get k ix"
  let ?new = "if row \<in> set ?ids then ?ids else ?ids @ [row]"
  let ?m = "hm_insert k ?new (hx_map ix)"
  have m: "hm_ok (hx_map ix)" "hx_count ix = entries_size (hx_map ix)"
    "\<forall>(k, ids) \<in> set (hx_map ix). distinct ids \<and> ids \<noteq> []" using assms(1) by (auto simp: hx_ok_def)
  have new: "distinct ?new" "?new \<noteq> []" "set ?new = insert row (set ?ids)"
    using hx_get_distinct [OF assms(1), of k] by auto
  have size: "entries_size ?m + length ?ids = entries_size (hx_map ix) + length ?new"
    using size_hm_insert [OF m(1)] by (simp add: hx_get_rows)
  have ins: "hx_insert k row ix = Inr (ix\<lparr>hx_map := ?m, hx_count := hx_count ix + length ?new - length ?ids\<rparr>)"
    using assms(2) by (simp add: hx_insert_def Let_def)
  have get: "hx_get k' (ix\<lparr>hx_map := ?m, hx_count := c\<rparr>) = (if k = k' then ?new else hx_get k' ix)" for k' c
    by (simp add: hx_get_rows update_conv')
  have "set ?m \<subseteq> insert (k, ?new) (set (hx_map ix))" by (rule set_hm_insert_sub)
  then have "\<forall>(k, ids) \<in> set ?m. distinct ids \<and> ids \<noteq> []" using m(3) new by auto
  then show ?thesis unfolding ins using size m hm_ok_insert [OF m(1)] get new(3) by (auto simp: hx_ok_def hx_len_def)
qed

lemma hx_remove_done:
  assumes "hx_ok ix"
  shows "hx_ok (snd (hx_remove k row ix)) \<and> hx_unique (snd (hx_remove k row ix)) = hx_unique ix
    \<and> (fst (hx_remove k row ix) \<longleftrightarrow> row \<in> set (hx_get k ix))
    \<and> (\<forall>k'. set (hx_get k' (snd (hx_remove k row ix)))
          = (if k = k' then set (hx_get k' ix) - {row} else set (hx_get k' ix)))
    \<and> hx_len ix = (if row \<in> set (hx_get k ix) then Suc (hx_len (snd (hx_remove k row ix))) else hx_len (snd (hx_remove k row ix)))"
proof (cases "row \<in> set (hx_get k ix)")
  case False
  then have "hx_remove k row ix = (False, ix)" by (auto simp: hx_remove_def hx_get_def split: option.splits)
  then show ?thesis using assms False by auto
next
  case True
  let ?ids = "hx_get k ix"
  let ?rest = "remove1 row ?ids"
  let ?m = "if ?rest = [] then hm_remove k (hx_map ix) else hm_insert k ?rest (hx_map ix)"
  have m: "hm_ok (hx_map ix)" "hx_count ix = entries_size (hx_map ix)"
    "\<forall>(k, ids) \<in> set (hx_map ix). distinct ids \<and> ids \<noteq> []" using assms(1) by (auto simp: hx_ok_def)
  have find: "hm_get (hx_map ix) k = Some ?ids"
    using True by (cases "hm_get (hx_map ix) k") (simp_all add: hx_get_def)
  have rem: "hx_remove k row ix = (True, ix\<lparr>hx_map := ?m, hx_count := hx_count ix - 1\<rparr>)"
    using True find by (simp add: hx_remove_def Let_def)
  have d: "distinct ?ids" by (rule hx_get_distinct [OF assms(1)])
  have len: "length ?ids = Suc (length ?rest)" using length_pos_if_in_set [OF True] True by (simp add: length_remove1)
  have size: "entries_size ?m + 1 = entries_size (hx_map ix)"
    using size_hm_insert [OF m(1), of k ?rest] size_hm_remove [OF m(1), of k] find len by auto
  have "set ?m \<subseteq> (if ?rest = [] then {} else {(k, ?rest)}) \<union> set (hx_map ix)"
    using set_hm_insert_sub [of k ?rest "hx_map ix"] by (auto simp: AList.delete_eq)
  then have ok: "\<forall>(k, ids) \<in> set ?m. distinct ids \<and> ids \<noteq> []" using m(3) d by (auto split: if_splits)
  have get: "hx_get k' (ix\<lparr>hx_map := ?m, hx_count := c\<rparr>) = (if k = k' then ?rest else hx_get k' ix)" for k' c
    by (simp add: hx_get_rows update_conv' delete_conv')
  obtain m' where m': "m' = ?m" by blast
  have "hm_ok ?m" using m(1) by (simp add: hm_ok_insert hm_ok_remove)
  then have "hm_ok m'" unfolding m' .
  moreover have "set ?rest = set ?ids - {row}" using d by (rule set_remove1_eq)
  ultimately show ?thesis
    unfolding rem [folded m'] using ok [folded m'] size [folded m'] m(2) get [folded m'] True
    by (simp add: hx_ok_def hx_len_def del: set_remove1_eq)
qed

interpretation hx: row_index "\<lambda>_. True" "(=)" hx_ok hx_unique hx_insert hx_remove hx_get hx_len
proof
  show "\<exists>e. hx_insert k row s = Inl e" if "hx_unique s" "hx_get k s \<noteq> []" for s k row
    using that by (simp add: hx_insert_def)
qed (simp_all add: hx_get_distinct hx_insert_done hx_remove_done)

lemma bx_ok_new: "bx_ok (bx_new name table columns unique)"
  by (simp add: bx_ok_def bx_new_def entries_size_def)

lemma get_new [simp]:
  "bx_get k (bx_new name table columns unique) = []" "hx_get k (hx_new name table columns unique) = []"
  by (simp_all add: bx_get_def bx_new_def hx_get_def hx_new_def)

lemma hx_ok_new: "hx_ok (hx_new name table columns unique)"
  by (simp add: hx_ok_def hx_new_def entries_size_def hm_ok_def)

section \<open>Properties\<close>

definition bx_run :: "index_key index_op list \<Rightarrow> btree_index \<Rightarrow> btree_index" where
  "bx_run xs ix = foldl (\<lambda>s x. index_do bx_insert bx_remove x s) ix xs"

definition hx_run :: "index_key index_op list \<Rightarrow> hash_index \<Rightarrow> hash_index" where
  "hx_run xs ix = foldl (\<lambda>s x. index_do hx_insert hx_remove x s) ix xs"

definition index_spec :: "(index_key \<Rightarrow> index_key \<Rightarrow> bool) \<Rightarrow> bool \<Rightarrow> index_key index_op list \<Rightarrow> index_key \<Rightarrow> nat set" where
  "index_spec same unique xs = foldl (\<lambda>R x. relation_do same unique x R) (\<lambda>_. {}) xs"


text \<open>The rows whose key lies in a range.\<close>

definition in_range :: "index_key option \<Rightarrow> index_key option \<Rightarrow> bool \<Rightarrow> bool \<Rightarrow> index_key \<Rightarrow> bool" where
  "in_range start stop si ti k \<longleftrightarrow>
     (case start of None \<Rightarrow> True | Some a \<Rightarrow> key_image a < key_image k \<or> (si \<and> key_image a = key_image k))
     \<and> (case stop of None \<Rightarrow> True | Some b \<Rightarrow> key_image k < key_image b \<or> (ti \<and> key_image k = key_image b))"

lemma bt_find_mem: "entries_ok t \<Longrightarrow> (k, ids) \<in> set t \<Longrightarrow> bt_find k t = Some ids"
  by (induction t) (force simp: entries_ok_Cons entries_ok_def cmp_key_image split: cmp_ordering.splits)+

text \<open>C40: A range scan of a B-tree index that does not panic returns exactly the rows whose keys lie in
  the range, in the order of their keys: the rows of a smaller key come before those of a larger one.
  It panics only on an inverted range, or on an empty one with both ends excluded.\<close>

theorem range_scan_correct:
  assumes "bx_ok ix" "\<And>a. start = Some a \<Longrightarrow> key_ok a" "\<And>b. stop = Some b \<Longrightarrow> key_ok b"
  shows "(case bx_range start stop si ti ix of
      None \<Rightarrow> (\<exists>a b. start = Some a \<and> stop = Some b
                 \<and> (key_image b < key_image a \<or> (key_image a = key_image b \<and> \<not> si \<and> \<not> ti)))
    | Some rows \<Rightarrow>
        set rows = {r. \<exists>k. k \<in> fst ` set (bx_tree ix) \<and> in_range start stop si ti k \<and> r \<in> set (bx_get k ix)}
        \<and> (\<exists>keys. sorted_wrt (<) (map key_image keys) \<and> rows = concat (map (\<lambda>k. bx_get k ix) keys)))"
proof (cases "bx_range start stop si ti ix")
  case None
  then show ?thesis
    using assms(2,3) by (auto simp: bx_range_def cmp_key_image Let_def split: if_splits option.splits)
next
  case (Some rows)
  let ?t = "filter (\<lambda>(k, _). in_range start stop si ti k) (bx_tree ix)"
  have t: "entries_ok (bx_tree ix)" using assms(1) by (simp add: bx_ok_def)
  have "filter (\<lambda>(k, _). (case start of None \<Rightarrow> True | Some a \<Rightarrow> cmp_key a k = Less \<or> si \<and> cmp_key a k = Equal)
      \<and> (case stop of None \<Rightarrow> True | Some b \<Rightarrow> cmp_key k b = Less \<or> ti \<and> cmp_key k b = Equal)) (bx_tree ix) = ?t"
    using assms(2,3) t by (intro filter_cong refl) (auto simp: in_range_def entries_ok_def cmp_key_image split: option.splits)
  then have rows: "rows = concat (map snd ?t)"
    using Some by (simp add: bx_range_def Let_def split: if_splits)
  have get: "bx_get (fst e) ix = snd e" if "e \<in> set (bx_tree ix)" for e
    using bt_find_mem [OF t, of "fst e" "snd e"] that by (simp add: bx_get_def)
  have "sorted_wrt (<) (map (key_image \<circ> fst) ?t)"
    using t by (simp add: entries_ok_def sorted_wrt_map sorted_wrt_filter)
  moreover have "map snd ?t = map (\<lambda>k. bx_get k ix) (map fst ?t)" using get by simp
  ultimately have "\<exists>keys. sorted_wrt (<) (map key_image keys) \<and> rows = concat (map (\<lambda>k. bx_get k ix) keys)"
    unfolding rows by (intro exI [of _ "map fst ?t"]) (simp only: map_map)
  moreover have "set rows = {r. \<exists>k. k \<in> fst ` set (bx_tree ix) \<and> in_range start stop si ti k \<and> r \<in> set (bx_get k ix)}"
    unfolding rows using get by (fastforce simp: image_iff)
  ultimately show ?thesis using Some by simp
qed

text \<open>Two keys, the second of which is inserted twice; a unique index refuses the repetition.\<close>

definition sample_index_ops :: "index_key index_op list" where
  "sample_index_ops = [IxInsert [IxInt 2] 0, IxInsert [IxInt 1] 1, IxInsert [IxInt 1] 2, IxRemove [IxInt 2] 0]"


definition sample_index :: btree_index where
  "sample_index = bx_run [IxInsert [IxInt 3] 7, IxInsert [IxInt 1] 5, IxInsert [IxInt 2] 6]
     (bx_new ''i'' ''t'' [''a''] False)"

lemma sample_index_tree:
  "bx_tree sample_index = [([IxInt 1], [5]), ([IxInt 2], [6]), ([IxInt 3], [7])]" "bx_count sample_index = 3"
  by (simp_all add: sample_index_def bx_run_def bx_new_def bx_insert_def bx_get_def Let_def cmp_of_def)

theorem range_scan_correct_witness:
  "bx_range (Some [IxInt 1]) (Some [IxInt 3]) False True sample_index = Some [6, 7]
   \<and> set [6, 7] = {r. \<exists>k. k \<in> fst ` set (bx_tree sample_index)
       \<and> in_range (Some [IxInt 1]) (Some [IxInt 3]) False True k \<and> r \<in> set (bx_get k sample_index)}"
proof -
  have ok: "bx_ok sample_index"
    using bx.run_refines [OF bx_ok_new, of "[IxInsert [IxInt 3] 7, IxInsert [IxInt 1] 5, IxInsert [IxInt 2] 6]" "''i''" "''t''" "[''a'']" False]
    by (simp add: sample_index_def bx_run_def key_ok_def value_ok_def)
  have scan: "bx_range (Some [IxInt 1]) (Some [IxInt 3]) False True sample_index = Some [6, 7]"
    by (simp add: bx_range_def sample_index_tree cmp_of_def)
  have "key_ok [IxInt 1]" "key_ok [IxInt 3]" by (simp_all add: key_ok_def value_ok_def)
  with range_scan_correct [OF ok, of "Some [IxInt 1]" "Some [IxInt 3]" False True] scan show ?thesis by simp
qed

text \<open>A row that a unique index refuses stays in the indexes that came before it: the insertion into
  all indexes is not atomic.\<close>

definition sample_manager :: index_manager where
  "sample_manager =
     \<lparr>im_table = ''t'', im_btree = [(''i'', bx_new ''i'' ''t'' [''a''] False), (''u'', bx_new ''u'' ''t'' [''b''] True)],
      im_hash = []\<rparr>"

lemma refused_row_stays_indexed:
  "let r1 = im_insert_row pl 0 [(''a'', VInteger 1), (''b'', VInteger 1)] sample_manager;
       r2 = im_insert_row pl 1 [(''a'', VInteger 1), (''b'', VInteger 1)] (fst r1)
   in snd r2 = Some (duplicate_key ''u'') \<and> lookup_eq ''i'' [IxInt 1] (fst r2) = Some [0, 1]"
  by (simp add: sample_manager_def im_insert_row_def bx_new_def bx_insert_def bx_get_def build_key_def from_value_def
      lookup_eq_def Let_def cmp_of_def)

end
