(* ===== verification/SqlPlan.thy ===== *)
theory SqlPlan
  imports SqlValue
begin

text \<open>
  Query plans and the evaluation of expressions (\<^verbatim>\<open>aegis-query/src/planner.rs\<close>, data types;
  \<^verbatim>\<open>aegis-query/src/executor.rs\<close>, expression evaluation and parameter substitution).

  The two types of the source are mutually recursive: a plan holds expressions, and an expression may
  hold a plan as a subquery.  Here an expression is a datatype over the type \<open>'q\<close> of its subqueries, and
  a plan is the fixed point.  The executor evaluates every expression without an executor for subqueries
  (\<^verbatim>\<open>EvalContext::new\<close>), so that a subquery is always an error.
\<close>

section \<open>Results\<close>

definition bind_res :: "'e + 'a \<Rightarrow> ('a \<Rightarrow> 'e + 'b) \<Rightarrow> 'e + 'b" where
  "bind_res r f = (case r of Inl e \<Rightarrow> Inl e | Inr x \<Rightarrow> f x)"

lemma bind_res_simps [simp]: "bind_res (Inl e) f = Inl e" "bind_res (Inr x) f = f x"
  by (simp_all add: bind_res_def)

lemma bind_res_cong [fundef_cong]:
  "r = r' \<Longrightarrow> (\<And>x. r' = Inr x \<Longrightarrow> f x = g x) \<Longrightarrow> bind_res r f = bind_res r' g"
  by (auto simp: bind_res_def split: sum.splits)

lemma bind_res_Inr [simp]: "bind_res r f = Inr y \<longleftrightarrow> (\<exists>x. r = Inr x \<and> f x = Inr y)"
  by (auto simp: bind_res_def split: sum.splits)

text \<open>\<^verbatim>\<open>collect::<Result<Vec<_>, _>>()\<close>: the first error, or all results.\<close>

fun map_res :: "('a \<Rightarrow> 'e + 'b) \<Rightarrow> 'a list \<Rightarrow> 'e + 'b list" where
  "map_res f [] = Inr []"
| "map_res f (x # xs) = bind_res (f x) (\<lambda>y. bind_res (map_res f xs) (\<lambda>ys. Inr (y # ys)))"

lemma map_res_cong [fundef_cong]:
  "xs = ys \<Longrightarrow> (\<And>x. x \<in> set ys \<Longrightarrow> f x = g x) \<Longrightarrow> map_res f xs = map_res g ys"
proof -
  have "(\<forall>x \<in> set xs. f x = g x) \<longrightarrow> map_res f xs = map_res g xs" by (induction xs) auto
  then show "xs = ys \<Longrightarrow> (\<And>x. x \<in> set ys \<Longrightarrow> f x = g x) \<Longrightarrow> map_res f xs = map_res g ys" by simp
qed

lemma map_res_Inr: "map_res f xs = Inr ys \<longleftrightarrow> list_all2 (\<lambda>x y. f x = Inr y) xs ys"
  by (induction xs arbitrary: ys) (auto simp: list_all2_Cons1)

definition opt_res :: "('a \<Rightarrow> 'e + 'b) \<Rightarrow> 'a option \<Rightarrow> 'e + 'b option" where
  "opt_res f x = (case x of None \<Rightarrow> Inr None | Some y \<Rightarrow> bind_res (f y) (\<lambda>z. Inr (Some z)))"

lemma opt_res_cong [fundef_cong]:
  "x = y \<Longrightarrow> (\<And>z. y = Some z \<Longrightarrow> f z = g z) \<Longrightarrow> opt_res f x = opt_res g y"
  by (cases y) (simp_all add: opt_res_def)

section \<open>Plans\<close>

datatype plan_literal = LNull | LBoolean bool | LInteger int | LFloat f64 | LString string

datatype plan_binary_op =
    OpAdd | OpSubtract | OpMultiply | OpDivide | OpModulo
  | OpEqual | OpNotEqual | OpLessThan | OpLessThanOrEqual | OpGreaterThan | OpGreaterThanOrEqual
  | OpAnd | OpOr | OpConcat

datatype plan_unary_op = OpNot | OpNegative

datatype 'q plan_expression =
    PColumn "string option" string data_type
  | PLiteral plan_literal
  | PBinary "'q plan_expression" plan_binary_op "'q plan_expression"
  | PUnary plan_unary_op "'q plan_expression"
  | PFunction string "'q plan_expression list" data_type
  | PCast "'q plan_expression" data_type
  | PIsNull "'q plan_expression" bool
  | PCase "'q plan_expression option" "('q plan_expression \<times> 'q plan_expression) list" "'q plan_expression option"
  | PInList "'q plan_expression" "'q plan_expression list" bool
  | PBetween "'q plan_expression" "'q plan_expression" "'q plan_expression" bool
  | PLike "'q plan_expression" "'q plan_expression" bool
  | PInSubquery "'q plan_expression" 'q bool
  | PExists 'q bool
  | PScalarSubquery 'q
  | PPlaceholder nat

datatype 'e key_bounds = KeyBounds (kb_start: "'e option") (kb_start_inclusive: bool) (kb_end: "'e option") (kb_end_inclusive: bool)
datatype 'e index_scan = IndexScan (is_index: string) (is_range: "'e key_bounds")
datatype 'e projection_expr = ProjectionExpr (pj_expr: 'e) (pj_alias: "string option")
datatype 'e sort_key = SortKey (sk_expr: 'e) (sk_ascending: bool) (sk_nulls_first: bool)
datatype plan_join_type = JtInner | JtLeft | JtRight | JtFull | JtCross
datatype join_strategy = NestedLoop | HashJoin | MergeJoin
datatype aggregate_function = AggCount | AggSum | AggAvg | AggMin | AggMax
datatype 'e aggregate_expr =
  AggregateExpr (ag_function: aggregate_function) (ag_argument: "'e option") (ag_distinct: bool) (ag_alias: "string option")
datatype 'e create_column_def =
  CreateColumnDef (cd_name: string) (cd_data_type: data_type) (cd_nullable: bool) (cd_default: "'e option")
    (cd_primary_key: bool) (cd_unique: bool)
datatype 'e create_table_constraint =
    TcPrimaryKey "string list"
  | TcUnique "string list"
  | TcForeignKey "string list" string "string list"
  | TcCheck 'e
datatype 'e plan_alter_operation =
    AlAddColumn "'e create_column_def"
  | AlDropColumn string bool
  | AlRenameColumn string string
  | AlAlterColumn string "data_type option" "bool option" "'e option option"
  | AlRenameTable string
  | AlAddConstraint "'e create_table_constraint"
  | AlDropConstraint string
datatype ('n, 'e) insert_plan_source = InsValues "'e list list" | InsQuery 'n
datatype set_operation_type = SetUnion | SetUnionAll | SetIntersect | SetExcept

datatype plan_node =
    NScan string "string option" "string list" "plan_node plan_expression index_scan option"
  | NFilter plan_node "plan_node plan_expression"
  | NProject plan_node "plan_node plan_expression projection_expr list"
  | NJoin plan_node plan_node plan_join_type "plan_node plan_expression option" join_strategy
  | NAggregate plan_node "plan_node plan_expression list" "plan_node plan_expression aggregate_expr list"
  | NSort plan_node "plan_node plan_expression sort_key list"
  | NLimit plan_node "nat option" "nat option"
  | NEmpty
  | NCreateTable string "plan_node plan_expression create_column_def list"
      "plan_node plan_expression create_table_constraint list" bool
  | NDropTable string bool
  | NAlterTable string "plan_node plan_expression plan_alter_operation list"
  | NCreateIndex string string "string list" bool bool
  | NDropIndex string bool
  | NInsert string "string list" "(plan_node, plan_node plan_expression) insert_plan_source"
  | NUpdate string "(string \<times> plan_node plan_expression) list" "plan_node plan_expression option"
  | NDelete string "plan_node plan_expression option"
  | NSetOperation set_operation_type plan_node plan_node
  | NBeginTransaction
  | NCommitTransaction
  | NRollbackTransaction

type_synonym expression = "plan_node plan_expression"

end
