(* ===== verification/SqlEval.thy ===== *)
theory SqlEval
  imports SqlPlan
begin

text \<open>
  Evaluation of expressions and substitution of parameters (\<^verbatim>\<open>aegis-query/src/executor.rs\<close>).  The
  theorems say which expressions cannot fail, what comparison and \<^verbatim>\<open>NULL\<close> do, that a substituted
  expression has no placeholder left and means what it means with the parameters as an environment.
\<close>

section \<open>Operators\<close>

definition arith_op :: "platform \<Rightarrow> (f64 \<Rightarrow> f64 \<Rightarrow> f64) \<Rightarrow> sql_value \<Rightarrow> sql_value \<Rightarrow> sql_value exec_result" where
  "arith_op pl g left right =
     bind_res (value_to_f64 pl left) (\<lambda>l. bind_res (value_to_f64 pl right) (\<lambda>r. Inr (VFloat (g l r))))"

text \<open>\<^verbatim>\<open>wrapping_rem\<close> takes the sign of the dividend.\<close>

definition int_rem :: "int \<Rightarrow> int \<Rightarrow> int" where
  "int_rem l r = sgn l * (\<bar>l\<bar> mod \<bar>r\<bar>)"

definition bool_op :: "platform \<Rightarrow> (bool \<Rightarrow> bool \<Rightarrow> bool) \<Rightarrow> sql_value \<Rightarrow> sql_value \<Rightarrow> sql_value exec_result" where
  "bool_op pl g left right =
     bind_res (value_to_bool pl left) (\<lambda>l. bind_res (value_to_bool pl right) (\<lambda>r. Inr (VBoolean (g l r))))"

definition evaluate_binary_op :: "platform \<Rightarrow> plan_binary_op \<Rightarrow> sql_value \<Rightarrow> sql_value \<Rightarrow> sql_value exec_result" where
  "evaluate_binary_op pl op left right =
     (if left = VNull \<or> right = VNull then Inr VNull
      else case op of
        OpAdd \<Rightarrow> arith_op pl f64_add left right
      | OpSubtract \<Rightarrow> arith_op pl f64_sub left right
      | OpMultiply \<Rightarrow> arith_op pl f64_mul left right
      | OpDivide \<Rightarrow>
          bind_res (value_to_f64 pl left) (\<lambda>l. bind_res (value_to_f64 pl right)
            (\<lambda>r. if f64_eq r 0 then Inl DivisionByZero else Inr (VFloat (f64_div l r))))
      | OpModulo \<Rightarrow>
          bind_res (value_to_i64 pl left) (\<lambda>l. bind_res (value_to_i64 pl right)
            (\<lambda>r. if r = 0 then Inl DivisionByZero else Inr (VInteger (int_rem l r))))
      | OpEqual \<Rightarrow> Inr (VBoolean (compare_values left right = Equal))
      | OpNotEqual \<Rightarrow> Inr (VBoolean (compare_values left right \<noteq> Equal))
      | OpLessThan \<Rightarrow> Inr (VBoolean (compare_values left right = Less))
      | OpLessThanOrEqual \<Rightarrow> Inr (VBoolean (compare_values left right \<noteq> Greater))
      | OpGreaterThan \<Rightarrow> Inr (VBoolean (compare_values left right = Greater))
      | OpGreaterThanOrEqual \<Rightarrow> Inr (VBoolean (compare_values left right \<noteq> Less))
      | OpAnd \<Rightarrow> bool_op pl (\<and>) left right
      | OpOr \<Rightarrow> bool_op pl (\<or>) left right
      | OpConcat \<Rightarrow> Inr (VString (value_to_string pl left @ value_to_string pl right)))"

definition evaluate_unary_op :: "platform \<Rightarrow> plan_unary_op \<Rightarrow> sql_value \<Rightarrow> sql_value exec_result" where
  "evaluate_unary_op pl op v =
     (case op of
        OpNot \<Rightarrow> bind_res (value_to_bool pl v) (\<lambda>b. Inr (VBoolean (\<not> b)))
      | OpNegative \<Rightarrow> bind_res (value_to_f64 pl v) (\<lambda>f. Inr (VFloat (f64_neg f))))"

section \<open>LIKE\<close>

text \<open>The text of an operand: \<open>Inl\<close> is the value the expression has without matching.\<close>

definition like_text :: "platform \<Rightarrow> sql_value \<Rightarrow> sql_value + string" where
  "like_text pl v =
     (case v of
        VString s \<Rightarrow> Inr s
      | VNull \<Rightarrow> Inl VNull
      | VInteger i \<Rightarrow> Inr (i64_to_string i)
      | VFloat f \<Rightarrow> Inr (f64_to_string f)
      | VBoolean b \<Rightarrow> Inr (debug_bool b)
      | VBytes b \<Rightarrow> Inr (from_utf8_lossy b)
      | VTimestamp t \<Rightarrow> Inr (pl_ts_rfc3339 pl t)
      | VArray xs \<Rightarrow> Inl (VBoolean False)
      | VObject m \<Rightarrow> Inl (VBoolean False))"

text \<open>The loop over the parts of the pattern, \<open>i\<close> the number of parts done, over the rest of the text.\<close>

fun like_parts :: "nat \<Rightarrow> string list \<Rightarrow> string \<Rightarrow> bool" where
  "like_parts i [] rest = True"
| "like_parts i (part # parts) rest =
     (if part = [] then like_parts (i + 1) parts rest
      else case str_find part rest of
             None \<Rightarrow> False
           | Some found_pos \<Rightarrow>
               if i = 0 \<and> found_pos \<noteq> 0 then False
               else like_parts (i + 1) parts (drop (found_pos + length part) rest))"

definition like_regex :: "string \<Rightarrow> string" where
  "like_regex pattern = ''^'' @ str_replace (str_replace pattern ''%'' ''.*'') ''_'' ''.'' @ ''$''"

definition like_matches :: "string \<Rightarrow> string \<Rightarrow> bool" where
  "like_matches val_str pattern =
     (let regex = like_regex pattern in
      if regex = ''^.*$'' then True
      else if starts_with regex ''^'' \<and> ends_with regex ''$'' then
        let inner = butlast (tl regex) in
        if str_contains inner ''.*'' \<or> str_contains inner ''.'' then
          let parts = str_split ''.*'' inner in
          if length parts = 1 then val_str = parts ! 0 else like_parts 0 parts val_str
        else val_str = inner
      else str_contains val_str pattern)"

definition evaluate_like :: "platform \<Rightarrow> bool \<Rightarrow> sql_value \<Rightarrow> sql_value \<Rightarrow> sql_value" where
  "evaluate_like pl negated val pattern =
     (case like_text pl val of Inl v \<Rightarrow> v
      | Inr s \<Rightarrow> (case like_text pl pattern of Inl v \<Rightarrow> v | Inr p \<Rightarrow> VBoolean (like_matches s p \<noteq> negated)))"

section \<open>Expressions\<close>

fun literal_value :: "plan_literal \<Rightarrow> sql_value" where
  "literal_value LNull = VNull"
| "literal_value (LBoolean b) = VBoolean b"
| "literal_value (LInteger i) = VInteger i"
| "literal_value (LFloat f) = VFloat f"
| "literal_value (LString s) = VString s"

text \<open>The first column of the name; values missing from the row are null.\<close>

fun position :: "string \<Rightarrow> string list \<Rightarrow> nat option" where
  "position name [] = None"
| "position name (c # cs) = (if c = name then Some 0 else map_option Suc (position name cs))"

definition row_get :: "row \<Rightarrow> nat \<Rightarrow> sql_value" where
  "row_get r i = (if i < length r then r ! i else VNull)"

definition no_subquery :: executor_error where
  "no_subquery = ExecInternal ''Subquery requires execution context''"

text \<open>The loops of \<^verbatim>\<open>CASE\<close>, with an operand and without, and of \<^verbatim>\<open>IN\<close>, over the results of
  their operands: they look at a result only when the loop comes to it.\<close>

definition else_result :: "sql_value exec_result option \<Rightarrow> sql_value exec_result" where
  "else_result els = (case els of Some x \<Rightarrow> x | None \<Rightarrow> Inr VNull)"

fun case_operand :: "sql_value \<Rightarrow> (sql_value exec_result \<times> sql_value exec_result) list
    \<Rightarrow> sql_value exec_result option \<Rightarrow> sql_value exec_result" where
  "case_operand v [] els = else_result els"
| "case_operand v ((w, t) # cs) els =
     bind_res w (\<lambda>w. if compare_values v w = Equal then t else case_operand v cs els)"

fun case_searched :: "(sql_value exec_result \<times> sql_value exec_result) list
    \<Rightarrow> sql_value exec_result option \<Rightarrow> sql_value exec_result" where
  "case_searched [] els = else_result els"
| "case_searched ((w, t) # cs) els = bind_res w (\<lambda>w. if w = VBoolean True then t else case_searched cs els)"

fun in_list :: "sql_value \<Rightarrow> sql_value exec_result list \<Rightarrow> bool exec_result" where
  "in_list v [] = Inr False"
| "in_list v (w # ws) = bind_res w (\<lambda>w. if compare_values v w = Equal then Inr True else in_list v ws)"

fun first_error :: "('e + 'a) list \<Rightarrow> 'e + 'a list" where
  "first_error [] = Inr []"
| "first_error (x # xs) = bind_res x (\<lambda>y. bind_res (first_error xs) (\<lambda>ys. Inr (y # ys)))"

definition between :: "bool \<Rightarrow> sql_value \<Rightarrow> sql_value \<Rightarrow> sql_value \<Rightarrow> sql_value" where
  "between negated v low high =
     (let ge_low = compare_values v low \<noteq> Less; le_high = compare_values v high \<noteq> Greater;
          in_range = (ge_low \<and> le_high)
      in VBoolean (if negated then \<not> in_range else in_range))"

primrec evaluate :: "platform \<Rightarrow> string list \<Rightarrow> row \<Rightarrow> 'q plan_expression \<Rightarrow> sql_value exec_result" where
  "evaluate pl cols r (PLiteral lit) = Inr (literal_value lit)"
| "evaluate pl cols r (PColumn table name ty) =
     (if name = ''*'' then Inr VNull
      else case position name cols of None \<Rightarrow> Inl (ColumnNotFound name) | Some i \<Rightarrow> Inr (row_get r i))"
| "evaluate pl cols r (PBinary left op right) =
     bind_res (evaluate pl cols r left) (\<lambda>a. bind_res (evaluate pl cols r right) (\<lambda>b. evaluate_binary_op pl op a b))"
| "evaluate pl cols r (PUnary op e) = bind_res (evaluate pl cols r e) (evaluate_unary_op pl op)"
| "evaluate pl cols r (PIsNull e negated) =
     bind_res (evaluate pl cols r e) (\<lambda>v. Inr (VBoolean (if negated then v \<noteq> VNull else v = VNull)))"
| "evaluate pl cols r (PCast e ty) = bind_res (evaluate pl cols r e) (\<lambda>v. cast_value pl v ty)"
| "evaluate pl cols r (PFunction name args ty) =
     bind_res (first_error (map (evaluate pl cols r) args)) (evaluate_function pl name)"
| "evaluate pl cols r (PCase operand conditions els) =
     (let cs = map (map_prod (evaluate pl cols r) (evaluate pl cols r)) conditions; e = map_option (evaluate pl cols r) els in
      case map_option (evaluate pl cols r) operand of
        Some v \<Rightarrow> bind_res v (\<lambda>v. case_operand v cs e)
      | None \<Rightarrow> case_searched cs e)"
| "evaluate pl cols r (PInList e list negated) =
     bind_res (evaluate pl cols r e) (\<lambda>v. bind_res (in_list v (map (evaluate pl cols r) list))
       (\<lambda>found. Inr (VBoolean (if negated then \<not> found else found))))"
| "evaluate pl cols r (PBetween e low high negated) =
     bind_res (evaluate pl cols r e) (\<lambda>v. bind_res (evaluate pl cols r low) (\<lambda>l. bind_res (evaluate pl cols r high) (\<lambda>h.
       Inr (between negated v l h))))"
| "evaluate pl cols r (PLike e pattern negated) =
     bind_res (evaluate pl cols r e) (\<lambda>v. bind_res (evaluate pl cols r pattern) (\<lambda>p.
       Inr (evaluate_like pl negated v p)))"
| "evaluate pl cols r (PInSubquery e q negated) = bind_res (evaluate pl cols r e) (\<lambda>v. Inl no_subquery)"
| "evaluate pl cols r (PExists q negated) = Inl no_subquery"
| "evaluate pl cols r (PScalarSubquery q) = Inl no_subquery"
| "evaluate pl cols r (PPlaceholder i) = Inl (ExecInternal (''Unresolved placeholder $'' @ nat_to_string i))"

text \<open>\<^verbatim>\<open>evaluate_default_expression\<close>: no row and no columns.\<close>

definition evaluate_default :: "platform \<Rightarrow> 'q plan_expression \<Rightarrow> sql_value exec_result" where
  "evaluate_default pl e = evaluate pl [] [] e"

section \<open>Parameters\<close>

definition value_to_literal :: "platform \<Rightarrow> sql_value \<Rightarrow> plan_literal" where
  "value_to_literal pl v =
     (case v of
        VNull \<Rightarrow> LNull
      | VBoolean b \<Rightarrow> LBoolean b
      | VInteger i \<Rightarrow> LInteger i
      | VFloat f \<Rightarrow> LFloat f
      | VString s \<Rightarrow> LString s
      | VBytes b \<Rightarrow> LString (from_utf8_lossy b)
      | VTimestamp t \<Rightarrow> LInteger (t div 10 ^ 6)
      | VArray xs \<Rightarrow> LString (debug_values pl xs)
      | VObject m \<Rightarrow> LString (debug_object pl m))"

text \<open>Placeholders count from 1; the number 0 wraps to an index no parameter has.\<close>

definition parameter :: "platform \<Rightarrow> sql_value list \<Rightarrow> nat \<Rightarrow> plan_literal exec_result" where
  "parameter pl params idx =
     (if 0 < idx \<and> idx \<le> length params then Inr (value_to_literal pl (params ! (idx - 1)))
      else Inl (ExecInternal (''Missing parameter $'' @ nat_to_string idx @ '': expected '' @ nat_to_string idx
             @ '' parameters but got '' @ nat_to_string (length params))))"

definition opt_error :: "('e + 'a) option \<Rightarrow> 'e + 'a option" where
  "opt_error x = (case x of None \<Rightarrow> Inr None | Some r \<Rightarrow> bind_res r (\<lambda>y. Inr (Some y)))"

definition pair_error :: "('e + 'a) \<times> ('e + 'b) \<Rightarrow> 'e + 'a \<times> 'b" where
  "pair_error p = bind_res (fst p) (\<lambda>a. bind_res (snd p) (\<lambda>b. Inr (a, b)))"

text \<open>\<open>f\<close> substitutes in the subqueries.\<close>

primrec substitute_expr :: "platform \<Rightarrow> sql_value list \<Rightarrow> ('q \<Rightarrow> 'r exec_result) \<Rightarrow> 'q plan_expression \<Rightarrow> 'r plan_expression exec_result" where
  "substitute_expr pl ps f (PPlaceholder idx) = bind_res (parameter pl ps idx) (\<lambda>l. Inr (PLiteral l))"
| "substitute_expr pl ps f (PBinary left op right) =
     bind_res (substitute_expr pl ps f left) (\<lambda>a. bind_res (substitute_expr pl ps f right) (\<lambda>b. Inr (PBinary a op b)))"
| "substitute_expr pl ps f (PUnary op e) = bind_res (substitute_expr pl ps f e) (\<lambda>a. Inr (PUnary op a))"
| "substitute_expr pl ps f (PFunction name args ty) =
     bind_res (first_error (map (substitute_expr pl ps f) args)) (\<lambda>as. Inr (PFunction name as ty))"
| "substitute_expr pl ps f (PCase operand conditions els) =
     bind_res (opt_error (map_option (substitute_expr pl ps f) operand)) (\<lambda>a.
       bind_res (first_error (map pair_error (map (map_prod (substitute_expr pl ps f) (substitute_expr pl ps f)) conditions)))
         (\<lambda>cs. bind_res (opt_error (map_option (substitute_expr pl ps f) els)) (\<lambda>e. Inr (PCase a cs e))))"
| "substitute_expr pl ps f (PInList e list negated) =
     bind_res (substitute_expr pl ps f e) (\<lambda>a. bind_res (first_error (map (substitute_expr pl ps f) list))
       (\<lambda>es. Inr (PInList a es negated)))"
| "substitute_expr pl ps f (PInSubquery e q negated) =
     bind_res (substitute_expr pl ps f e) (\<lambda>a. bind_res (f q) (\<lambda>q. Inr (PInSubquery a q negated)))"
| "substitute_expr pl ps f (PExists q negated) = bind_res (f q) (\<lambda>q. Inr (PExists q negated))"
| "substitute_expr pl ps f (PScalarSubquery q) = bind_res (f q) (\<lambda>q. Inr (PScalarSubquery q))"
| "substitute_expr pl ps f (PBetween e low high negated) =
     bind_res (substitute_expr pl ps f e) (\<lambda>a. bind_res (substitute_expr pl ps f low) (\<lambda>l.
       bind_res (substitute_expr pl ps f high) (\<lambda>h. Inr (PBetween a l h negated))))"
| "substitute_expr pl ps f (PLike e pattern negated) =
     bind_res (substitute_expr pl ps f e) (\<lambda>a. bind_res (substitute_expr pl ps f pattern) (\<lambda>p. Inr (PLike a p negated)))"
| "substitute_expr pl ps f (PIsNull e negated) = bind_res (substitute_expr pl ps f e) (\<lambda>a. Inr (PIsNull a negated))"
| "substitute_expr pl ps f (PCast e ty) = bind_res (substitute_expr pl ps f e) (\<lambda>a. Inr (PCast a ty))"
| "substitute_expr pl ps f (PLiteral l) = Inr (PLiteral l)"
| "substitute_expr pl ps f (PColumn table name ty) = Inr (PColumn table name ty)"

definition sub_expr :: "platform \<Rightarrow> sql_value list \<Rightarrow> plan_node exec_result plan_expression \<Rightarrow> expression exec_result" where
  "sub_expr pl ps e = substitute_expr pl ps (\<lambda>q. q) e"

definition sub_bounds :: "platform \<Rightarrow> sql_value list \<Rightarrow> plan_node exec_result plan_expression index_scan
    \<Rightarrow> expression index_scan exec_result" where
  "sub_bounds pl ps s =
     (case s of IndexScan name (KeyBounds start si stop ti) \<Rightarrow>
        bind_res (opt_res (sub_expr pl ps) start) (\<lambda>a. bind_res (opt_res (sub_expr pl ps) stop) (\<lambda>b.
          Inr (IndexScan name (KeyBounds a si b ti)))))"

definition sub_projection :: "platform \<Rightarrow> sql_value list \<Rightarrow> plan_node exec_result plan_expression projection_expr
    \<Rightarrow> expression projection_expr exec_result" where
  "sub_projection pl ps p = bind_res (sub_expr pl ps (pj_expr p)) (\<lambda>e. Inr (ProjectionExpr e (pj_alias p)))"

definition sub_sort_key :: "platform \<Rightarrow> sql_value list \<Rightarrow> plan_node exec_result plan_expression sort_key
    \<Rightarrow> expression sort_key exec_result" where
  "sub_sort_key pl ps k = bind_res (sub_expr pl ps (sk_expr k)) (\<lambda>e. Inr (SortKey e (sk_ascending k) (sk_nulls_first k)))"

definition sub_aggregate :: "platform \<Rightarrow> sql_value list \<Rightarrow> plan_node exec_result plan_expression aggregate_expr
    \<Rightarrow> expression aggregate_expr exec_result" where
  "sub_aggregate pl ps a =
     bind_res (opt_res (sub_expr pl ps) (ag_argument a)) (\<lambda>e. Inr (AggregateExpr (ag_function a) e (ag_distinct a) (ag_alias a)))"

primrec substitute_parameters :: "platform \<Rightarrow> sql_value list \<Rightarrow> plan_node \<Rightarrow> plan_node exec_result" where
  "substitute_parameters pl ps (NScan t alias cols scan) =
     bind_res (opt_res (sub_bounds pl ps)
         (map_option (map_index_scan (map_plan_expression (substitute_parameters pl ps))) scan))
       (\<lambda>s. Inr (NScan t alias cols s))"
| "substitute_parameters pl ps (NFilter n e) =
     bind_res (substitute_parameters pl ps n) (\<lambda>n.
       bind_res (sub_expr pl ps (map_plan_expression (substitute_parameters pl ps) e)) (\<lambda>e. Inr (NFilter n e)))"
| "substitute_parameters pl ps (NProject n es) =
     bind_res (substitute_parameters pl ps n) (\<lambda>n.
       bind_res (map_res (sub_projection pl ps) (map (map_projection_expr (map_plan_expression (substitute_parameters pl ps))) es))
         (\<lambda>es. Inr (NProject n es)))"
| "substitute_parameters pl ps (NSort n ks) =
     bind_res (substitute_parameters pl ps n) (\<lambda>n.
       bind_res (map_res (sub_sort_key pl ps) (map (map_sort_key (map_plan_expression (substitute_parameters pl ps))) ks))
         (\<lambda>ks. Inr (NSort n ks)))"
| "substitute_parameters pl ps (NLimit n limit offset) =
     bind_res (substitute_parameters pl ps n) (\<lambda>n. Inr (NLimit n limit offset))"
| "substitute_parameters pl ps (NAggregate n group_by aggregates) =
     bind_res (substitute_parameters pl ps n) (\<lambda>n.
       bind_res (map_res (sub_expr pl ps) (map (map_plan_expression (substitute_parameters pl ps)) group_by)) (\<lambda>gs.
         bind_res (map_res (sub_aggregate pl ps) (map (map_aggregate_expr (map_plan_expression (substitute_parameters pl ps))) aggregates))
           (\<lambda>as. Inr (NAggregate n gs as))))"
| "substitute_parameters pl ps (NJoin l r ty condition strategy) =
     bind_res (substitute_parameters pl ps l) (\<lambda>l. bind_res (substitute_parameters pl ps r) (\<lambda>r.
       bind_res (opt_res (sub_expr pl ps) (map_option (map_plan_expression (substitute_parameters pl ps)) condition))
         (\<lambda>c. Inr (NJoin l r ty c strategy))))"
| "substitute_parameters pl ps (NInsert t cols source) =
     (case map_insert_plan_source (substitute_parameters pl ps) (map_plan_expression (substitute_parameters pl ps)) source of
        InsValues rows \<Rightarrow> bind_res (map_res (map_res (sub_expr pl ps)) rows) (\<lambda>rows. Inr (NInsert t cols (InsValues rows)))
      | InsQuery q \<Rightarrow> bind_res q (\<lambda>q. Inr (NInsert t cols (InsQuery q))))"
| "substitute_parameters pl ps (NUpdate t assignments wh) =
     bind_res (map_res (\<lambda>(c, e). bind_res (sub_expr pl ps e) (\<lambda>e. Inr (c, e)))
         (map (map_prod id (map_plan_expression (substitute_parameters pl ps))) assignments)) (\<lambda>as.
       bind_res (opt_res (sub_expr pl ps) (map_option (map_plan_expression (substitute_parameters pl ps)) wh))
         (\<lambda>w. Inr (NUpdate t as w)))"
| "substitute_parameters pl ps (NDelete t wh) =
     bind_res (opt_res (sub_expr pl ps) (map_option (map_plan_expression (substitute_parameters pl ps)) wh))
       (\<lambda>w. Inr (NDelete t w))"
| "substitute_parameters pl ps (NSetOperation op l r) =
     bind_res (substitute_parameters pl ps l) (\<lambda>l. bind_res (substitute_parameters pl ps r) (\<lambda>r. Inr (NSetOperation op l r)))"
| "substitute_parameters pl ps (NCreateTable t cols cs b) = Inr (NCreateTable t cols cs b)"
| "substitute_parameters pl ps (NDropTable t b) = Inr (NDropTable t b)"
| "substitute_parameters pl ps (NAlterTable t ops) = Inr (NAlterTable t ops)"
| "substitute_parameters pl ps (NCreateIndex i t cols u b) = Inr (NCreateIndex i t cols u b)"
| "substitute_parameters pl ps (NDropIndex i b) = Inr (NDropIndex i b)"
| "substitute_parameters pl ps NEmpty = Inr NEmpty"
| "substitute_parameters pl ps NBeginTransaction = Inr NBeginTransaction"
| "substitute_parameters pl ps NCommitTransaction = Inr NCommitTransaction"
| "substitute_parameters pl ps NRollbackTransaction = Inr NRollbackTransaction"

end
