(* ===== verification/SqlOps.thy ===== *)
theory SqlOps
  imports SqlEval
begin

text \<open>
  The operators of the executor (\<^verbatim>\<open>aegis-query/src/executor.rs\<close>), a pull-based pipeline: each call of
  \<^verbatim>\<open>next_batch\<close> returns a batch, the end, or an error.

  What an operator hands out is a \<open>stream\<close>: its batches in order, and the error that ends them, if any.
  An operator is a state, which holds the streams of its inputs, and a step \<open>..._next\<close>, the body of
  \<^verbatim>\<open>next_batch\<close>; \<open>drain\<close> collects the stream of an operator and is \<open>None\<close> when the calls never come
  to an end.  The locale \<open>pull_operator\<close> is what the executor relies on: the work left decreases with
  every batch.  The sections at the end say what each operator computes on its whole input.
\<close>

section \<open>Streams\<close>

record result_batch =
  rb_columns :: "string list"
  rb_rows :: "row list"

type_synonym stream = "result_batch list \<times> executor_error option"
type_synonym pulled = "result_batch option exec_result"

abbreviation batch :: "string list \<Rightarrow> row list \<Rightarrow> result_batch" where
  "batch cols rows \<equiv> \<lparr>rb_columns = cols, rb_rows = rows\<rparr>"

fun pull :: "stream \<Rightarrow> pulled \<times> stream" where
  "pull ([], None) = (Inr None, ([], None))"
| "pull ([], Some e) = (Inl e, ([], Some e))"
| "pull (b # bs, e) = (Inr (Some b), (bs, e))"

definition stream_rows :: "stream \<Rightarrow> row list" where
  "stream_rows s = concat (map rb_rows (fst s))"

partial_function (option) drain :: "('s \<Rightarrow> pulled \<times> 's) \<Rightarrow> 's \<Rightarrow> stream option" where
  "drain next s =
     (case next s of (r, s') \<Rightarrow>
        (case r of
           Inl e \<Rightarrow> Some ([], Some e)
         | Inr None \<Rightarrow> Some ([], None)
         | Inr (Some b) \<Rightarrow> Option.bind (drain next s') (\<lambda>(bs, e). Some (b # bs, e))))"

text \<open>All rows of an input, as the loops \<^verbatim>\<open>while let Some(batch) = input.next_batch()?\<close> collect them.\<close>

definition collect_rows :: "stream \<Rightarrow> row list exec_result" where
  "collect_rows s = (case snd s of None \<Rightarrow> Inr (stream_rows s) | Some e \<Rightarrow> Inl e)"

section \<open>Scan\<close>

text \<open>A version is 0 when the vector is too short to have it.\<close>

record table_data =
  td_name :: string
  td_columns :: "string list"
  td_rows :: "row list"
  td_created :: "u64 list"
  td_deleted :: "u64 list"

definition version_at :: "u64 list \<Rightarrow> nat \<Rightarrow> u64" where
  "version_at vs i = (if i < length vs then vs ! i else 0)"

definition version_visible :: "u64 option \<Rightarrow> u64 \<Rightarrow> u64 \<Rightarrow> bool" where
  "version_visible snapshot created deleted =
     (case snapshot of
        Some snap \<Rightarrow> created \<le> snap \<and> (deleted = 0 \<or> snap < deleted)
      | None \<Rightarrow> deleted = 0)"

definition visible_rows :: "u64 option \<Rightarrow> table_data \<Rightarrow> row list" where
  "visible_rows snapshot t =
     map ((!) (td_rows t))
       (filter (\<lambda>i. version_visible snapshot (version_at (td_created t) i) (version_at (td_deleted t) i))
         [0..<length (td_rows t)])"

record scan_op =
  so_rows :: "row list"
  so_columns :: "string list"
  so_position :: nat
  so_batch_size :: nat

definition scan_new :: "string list \<Rightarrow> u64 option \<Rightarrow> nat \<Rightarrow> table_data \<Rightarrow> scan_op" where
  "scan_new columns snapshot batch_size t =
     \<lparr>so_rows = visible_rows snapshot t, so_columns = (if columns = [] then td_columns t else columns),
      so_position = 0, so_batch_size = batch_size\<rparr>"

definition scan_next :: "scan_op \<Rightarrow> pulled \<times> scan_op" where
  "scan_next s =
     (if length (so_rows s) \<le> so_position s then (Inr None, s)
      else
        let stop = min (so_position s + so_batch_size s) (length (so_rows s)) in
        (Inr (Some (batch (so_columns s) (take (stop - so_position s) (drop (so_position s) (so_rows s))))),
         s\<lparr>so_position := stop\<rparr>))"

section \<open>Filter and projection\<close>

definition evaluate_predicate :: "platform \<Rightarrow> 'q plan_expression \<Rightarrow> string list \<Rightarrow> row \<Rightarrow> bool exec_result" where
  "evaluate_predicate pl p cols r =
     bind_res (evaluate pl cols r p) (\<lambda>v. case v of
        VBoolean b \<Rightarrow> Inr b
      | VNull \<Rightarrow> Inr False
      | _ \<Rightarrow> Inl (TypeMismatch ''boolean'' (debug_value pl v)))"

text \<open>A row on which the predicate fails is dropped without an error.\<close>

definition passes :: "platform \<Rightarrow> 'q plan_expression \<Rightarrow> string list \<Rightarrow> row \<Rightarrow> bool" where
  "passes pl p cols r = (case evaluate_predicate pl p cols r of Inr b \<Rightarrow> b | Inl e \<Rightarrow> False)"

fun filter_next :: "platform \<Rightarrow> 'q plan_expression \<Rightarrow> string list \<Rightarrow> stream \<Rightarrow> pulled \<times> stream" where
  "filter_next pl p cols ([], e) = pull ([], e)"
| "filter_next pl p cols (b # bs, e) =
     (let filtered = filter (passes pl p (rb_columns b)) (rb_rows b) in
      if filtered \<noteq> [] then (Inr (Some (batch cols filtered)), (bs, e)) else filter_next pl p cols (bs, e))"

fun extract_column_name :: "'q plan_expression \<Rightarrow> string option" where
  "extract_column_name (PColumn t name ty) = Some name"
| "extract_column_name (PFunction name args ty) = Some name"
| "extract_column_name (PCast e ty) = extract_column_name e"
| "extract_column_name (PUnary op e) = extract_column_name e"
| "extract_column_name e = None"

text \<open>Expansion of wildcards and the names of the output columns.\<close>

definition wildcard_column :: "string option \<Rightarrow> string \<Rightarrow> bool" where
  "wildcard_column tbl col =
     (case tbl of None \<Rightarrow> True
      | Some t \<Rightarrow> starts_with col (t @ ''.'') \<or> col = t \<or> \<not> str_contains col ''.'')"

definition expand_projection :: "string list \<Rightarrow> nat \<Rightarrow> 'q plan_expression projection_expr
    \<Rightarrow> ('q plan_expression projection_expr \<times> string) list" where
  "expand_projection input_columns i p =
     (let regular = [(p, case pj_alias p of Some a \<Rightarrow> a
                       | None \<Rightarrow> (case extract_column_name (pj_expr p) of Some n \<Rightarrow> n
                                  | None \<Rightarrow> ''column_'' @ nat_to_string i))]
      in case pj_expr p of
           PColumn tbl name ty \<Rightarrow>
             if name = ''*'' then
               map (\<lambda>c. (ProjectionExpr (PColumn None c DtAny) None, c)) (filter (wildcard_column tbl) input_columns)
             else regular
         | _ \<Rightarrow> regular)"

definition expand_projections :: "string list \<Rightarrow> 'q plan_expression projection_expr list
    \<Rightarrow> ('q plan_expression projection_expr \<times> string) list" where
  "expand_projections input_columns ps =
     concat (map (\<lambda>(i, p). expand_projection input_columns i p) (enumerate 0 ps))"

definition project_row :: "platform \<Rightarrow> string list \<Rightarrow> 'q plan_expression projection_expr list \<Rightarrow> row \<Rightarrow> row exec_result" where
  "project_row pl input_columns ps r = map_res (\<lambda>p. evaluate pl input_columns r (pj_expr p)) ps"

definition project_next :: "platform \<Rightarrow> string list \<Rightarrow> 'q plan_expression projection_expr list \<Rightarrow> string list
    \<Rightarrow> stream \<Rightarrow> pulled \<times> stream" where
  "project_next pl input_columns ps cols s =
     (case pull s of
        (Inr (Some b), s') \<Rightarrow>
          (bind_res (map_res (project_row pl input_columns ps) (rb_rows b)) (\<lambda>rows. Inr (Some (batch cols rows))), s')
      | (r, s') \<Rightarrow> (r, s'))"

section \<open>Joins\<close>

definition reject_unsupported_join_type :: "plan_join_type \<Rightarrow> unit exec_result" where
  "reject_unsupported_join_type ty =
     (case ty of
        JtRight \<Rightarrow> Inl (InvalidOperation ''RIGHT OUTER JOIN is not supported yet; rewrite as a LEFT JOIN with the tables swapped'')
      | JtFull \<Rightarrow> Inl (InvalidOperation ''FULL OUTER JOIN is not supported yet'')
      | _ \<Rightarrow> Inr ())"

definition join_condition :: "platform \<Rightarrow> 'q plan_expression option \<Rightarrow> string list \<Rightarrow> row \<Rightarrow> row \<Rightarrow> bool exec_result" where
  "join_condition pl condition cols l r =
     (case condition of
        None \<Rightarrow> Inr True
      | Some e \<Rightarrow> bind_res (evaluate pl cols (l @ r) e) (\<lambda>v. case v of VBoolean b \<Rightarrow> Inr b | _ \<Rightarrow> Inr False))"

text \<open>The nested loop.  \<open>join_row\<close> is the loop over the right rows for one left row: the rows from the
  current one on, its index, the result so far and whether there was a match; it stops early when the
  result has 1024 rows.\<close>

fun join_row :: "(row \<Rightarrow> bool exec_result) \<Rightarrow> row \<Rightarrow> row list \<Rightarrow> nat \<Rightarrow> row list \<Rightarrow> bool
    \<Rightarrow> (bool \<times> nat \<times> row list \<times> bool) exec_result" where
  "join_row cond l [] i acc matched = Inr (False, i, acc, matched)"
| "join_row cond l (r # rs) i acc matched =
     bind_res (cond r) (\<lambda>b.
       if b then
         (if 1024 \<le> length (acc @ [l @ r]) then Inr (True, i + 1, acc @ [l @ r], True)
          else join_row cond l rs (i + 1) (acc @ [l @ r]) True)
       else join_row cond l rs (i + 1) acc matched)"

record nl_join_op =
  jo_left :: stream
  jo_right :: stream
  jo_type :: plan_join_type
  jo_columns :: "string list"
  jo_right_cols :: nat
  jo_right_data :: "row list option"
  jo_left_batch :: "result_batch option"
  jo_left_idx :: nat
  jo_right_idx :: nat

definition join_new :: "string list \<Rightarrow> stream \<Rightarrow> string list \<Rightarrow> stream \<Rightarrow> plan_join_type \<Rightarrow> nl_join_op exec_result" where
  "join_new left_columns left right_columns right ty =
     bind_res (reject_unsupported_join_type ty) (\<lambda>_.
       Inr \<lparr>jo_left = left, jo_right = right, jo_type = ty, jo_columns = left_columns @ right_columns,
            jo_right_cols = length right_columns, jo_right_data = None, jo_left_batch = None,
            jo_left_idx = 0, jo_right_idx = 0\<rparr>)"

text \<open>The loop over the rest of the current left batch: full, or done with the batch.\<close>

fun join_batch :: "(row \<Rightarrow> row \<Rightarrow> bool exec_result) \<Rightarrow> bool \<Rightarrow> nat \<Rightarrow> row list \<Rightarrow> row list \<Rightarrow> nat \<Rightarrow> nat \<Rightarrow> row list
    \<Rightarrow> (bool \<times> nat \<times> nat \<times> row list) exec_result" where
  "join_batch cond outer width right [] li ri acc = Inr (False, li, ri, acc)"
| "join_batch cond outer width right (l # ls) li ri acc =
     bind_res (join_row (cond l) l (drop ri right) ri acc False) (\<lambda>(full, i, acc', matched).
       if full then Inr (True, li, i, acc')
       else
         let acc'' = (if \<not> matched \<and> outer then acc' @ [l @ replicate width VNull] else acc')
         in join_batch cond outer width right ls (li + 1) 0 acc'')"

text \<open>The loop over the left batches.\<close>

fun join_left :: "(row \<Rightarrow> row \<Rightarrow> bool exec_result) \<Rightarrow> bool \<Rightarrow> nat \<Rightarrow> row list \<Rightarrow> string list
    \<Rightarrow> result_batch list \<Rightarrow> executor_error option \<Rightarrow> row list
    \<Rightarrow> pulled \<times> (stream \<times> result_batch option \<times> nat \<times> nat)" where
  "join_left cond outer width right cols [] e acc =
     ((case e of Some x \<Rightarrow> Inl x | None \<Rightarrow> Inr (if acc = [] then None else Some (batch cols acc))), ([], e), None, 0, 0)"
| "join_left cond outer width right cols (b # bs) e acc =
     (case join_batch cond outer width right (rb_rows b) 0 0 acc of
        Inl x \<Rightarrow> (Inl x, (bs, e), Some b, 0, 0)
      | Inr (True, li, ri, acc') \<Rightarrow> (Inr (Some (batch cols acc')), (bs, e), Some b, li, ri)
      | Inr (False, li, ri, acc') \<Rightarrow> join_left cond outer width right cols bs e acc')"

definition join_next :: "platform \<Rightarrow> 'q plan_expression option \<Rightarrow> nl_join_op \<Rightarrow> pulled \<times> nl_join_op" where
  "join_next pl condition s =
     (case (case jo_right_data s of Some rows \<Rightarrow> Inr rows | None \<Rightarrow> collect_rows (jo_right s)) of
        Inl e \<Rightarrow> (Inl e, s)
      | Inr right \<Rightarrow>
          let cond = join_condition pl condition (jo_columns s); outer = (jo_type s = JtLeft);
              width = jo_right_cols s; cols = jo_columns s;
              (r, left, lb, li, ri) =
                (case jo_left_batch s of
                   None \<Rightarrow> join_left cond outer width right cols (fst (jo_left s)) (snd (jo_left s)) []
                 | Some b \<Rightarrow>
                     (case join_batch cond outer width right (drop (jo_left_idx s) (rb_rows b)) (jo_left_idx s) (jo_right_idx s) [] of
                        Inl x \<Rightarrow> (Inl x, jo_left s, Some b, 0, 0)
                      | Inr (True, li, ri, acc) \<Rightarrow> (Inr (Some (batch cols acc)), jo_left s, Some b, li, ri)
                      | Inr (False, li, ri, acc) \<Rightarrow>
                          join_left cond outer width right cols (fst (jo_left s)) (snd (jo_left s)) acc))
          in (r, s\<lparr>jo_left := left, jo_right_data := Some right, jo_left_batch := lb, jo_left_idx := li, jo_right_idx := ri\<rparr>))"

section \<open>Hash join\<close>

record hash_join_op =
  ho_left :: stream
  ho_type :: plan_join_type
  ho_columns :: "string list"
  ho_right_cols :: nat
  ho_table :: "(string, row list) hmap"
  ho_left_key :: "nat option"
  ho_done :: bool

text \<open>\<^verbatim>\<open>c == n || c.ends_with(".n")\<close>: the first such column.\<close>

fun find_key_column :: "string \<Rightarrow> string list \<Rightarrow> nat option" where
  "find_key_column n [] = None"
| "find_key_column n (c # cs) =
     (if c = n \<or> ends_with c (''.'' @ n) then Some 0 else map_option Suc (find_key_column n cs))"

definition key_name :: "'q plan_expression \<Rightarrow> string option" where
  "key_name e = (case e of PColumn t name ty \<Rightarrow> Some name | _ \<Rightarrow> None)"

definition extract_key_indices :: "'q plan_expression option \<Rightarrow> string list \<Rightarrow> string list \<Rightarrow> nat option \<times> nat option" where
  "extract_key_indices condition left_columns right_columns =
     (case condition of
        Some (PBinary left OpEqual right) \<Rightarrow>
          (case (key_name left, key_name right) of
             (Some ln, Some rn) \<Rightarrow>
               (case (find_key_column ln left_columns, find_key_column rn right_columns) of
                  (Some li, Some ri) \<Rightarrow> (Some li, Some ri)
                | _ \<Rightarrow>
                    (case (find_key_column rn left_columns, find_key_column ln right_columns) of
                       (Some li, Some ri) \<Rightarrow> (Some li, Some ri)
                     | _ \<Rightarrow> (None, None)))
           | _ \<Rightarrow> (None, None))
      | _ \<Rightarrow> (None, None))"

definition join_hash_key :: "platform \<Rightarrow> nat \<Rightarrow> row \<Rightarrow> string" where
  "join_hash_key pl i r = debug_value pl (row_get r i)"

definition hash_table_insert :: "platform \<Rightarrow> nat option \<Rightarrow> (string, row list) hmap \<Rightarrow> row \<Rightarrow> (string, row list) hmap" where
  "hash_table_insert pl key_idx m r =
     (let key = (case key_idx of Some i \<Rightarrow> join_hash_key pl i r | None \<Rightarrow> [])
      in hm_insert key (hm_get_or m key [] @ [r]) m)"

definition hash_join_new :: "platform \<Rightarrow> string list \<Rightarrow> stream \<Rightarrow> string list \<Rightarrow> stream \<Rightarrow> plan_join_type
    \<Rightarrow> 'q plan_expression option \<Rightarrow> hash_join_op exec_result" where
  "hash_join_new pl left_columns left right_columns right ty condition =
     bind_res (reject_unsupported_join_type ty) (\<lambda>_.
       let (lk, rk) = extract_key_indices condition left_columns right_columns in
       bind_res (collect_rows right) (\<lambda>rows.
         Inr \<lparr>ho_left = left, ho_type = ty, ho_columns = left_columns @ right_columns, ho_right_cols = length right_columns,
              ho_table = foldl (hash_table_insert pl rk) [] rows, ho_left_key = lk, ho_done = False\<rparr>))"

definition candidates :: "platform \<Rightarrow> hash_join_op \<Rightarrow> row \<Rightarrow> row list" where
  "candidates pl s l = (case ho_left_key s of Some i \<Rightarrow> hm_get_or (ho_table s) (join_hash_key pl i l) [] | None \<Rightarrow> [])"

text \<open>The loop over the rows of a left batch: when the result is full, the rest of the batch is gone.\<close>

fun hash_join_batch :: "(row \<Rightarrow> row \<Rightarrow> bool exec_result) \<Rightarrow> bool \<Rightarrow> nat \<Rightarrow> (row \<Rightarrow> row list) \<Rightarrow> row list \<Rightarrow> row list
    \<Rightarrow> (bool \<times> row list) exec_result" where
  "hash_join_batch cond outer width cands [] acc = Inr (False, acc)"
| "hash_join_batch cond outer width cands (l # ls) acc =
     bind_res (join_row (cond l) l (cands l) 0 acc False) (\<lambda>(full, i, acc', matched).
       if full then Inr (True, acc')
       else
         let acc'' = (if \<not> matched \<and> outer then acc' @ [l @ replicate width VNull] else acc')
         in hash_join_batch cond outer width cands ls acc'')"

fun hash_join_left :: "(row \<Rightarrow> row \<Rightarrow> bool exec_result) \<Rightarrow> bool \<Rightarrow> nat \<Rightarrow> (row \<Rightarrow> row list) \<Rightarrow> string list
    \<Rightarrow> result_batch list \<Rightarrow> executor_error option \<Rightarrow> row list \<Rightarrow> pulled \<times> stream \<times> bool" where
  "hash_join_left cond outer width cands cols [] e acc =
     (case e of
        Some x \<Rightarrow> (Inl x, ([], e), False)
      | None \<Rightarrow> (Inr (if acc = [] then None else Some (batch cols acc)), ([], e), True))"
| "hash_join_left cond outer width cands cols (b # bs) e acc =
     (case hash_join_batch cond outer width cands (rb_rows b) acc of
        Inl x \<Rightarrow> (Inl x, (bs, e), False)
      | Inr (True, acc') \<Rightarrow> (Inr (Some (batch cols acc')), (bs, e), False)
      | Inr (False, acc') \<Rightarrow> hash_join_left cond outer width cands cols bs e acc')"

definition hash_join_next :: "platform \<Rightarrow> 'q plan_expression option \<Rightarrow> hash_join_op \<Rightarrow> pulled \<times> hash_join_op" where
  "hash_join_next pl condition s =
     (if ho_done s then (Inr None, s)
      else
        case hash_join_left (join_condition pl condition (ho_columns s)) (ho_type s = JtLeft) (ho_right_cols s)
               (candidates pl s) (ho_columns s) (fst (ho_left s)) (snd (ho_left s)) [] of
          (r, left, finished) \<Rightarrow> (r, s\<lparr>ho_left := left, ho_done := finished\<rparr>))"

section \<open>Aggregation\<close>

record accumulator =
  ac_function :: aggregate_function
  ac_count :: int
  ac_sum :: f64
  ac_min :: "sql_value option"
  ac_max :: "sql_value option"

definition accumulator_new :: "aggregate_function \<Rightarrow> accumulator" where
  "accumulator_new f = \<lparr>ac_function = f, ac_count = 0, ac_sum = 0, ac_min = None, ac_max = None\<rparr>"

definition accumulate :: "platform \<Rightarrow> sql_value \<Rightarrow> accumulator \<Rightarrow> accumulator exec_result" where
  "accumulate pl v a0 =
     (if v = VNull then Inr a0
      else
        let a = a0\<lparr>ac_count := wrap_i64 (ac_count a0 + 1)\<rparr> in
        case ac_function a of
          AggCount \<Rightarrow> Inr a
        | AggSum \<Rightarrow> bind_res (value_to_f64 pl v) (\<lambda>f. Inr (a\<lparr>ac_sum := f64_add (ac_sum a) f\<rparr>))
        | AggAvg \<Rightarrow> bind_res (value_to_f64 pl v) (\<lambda>f. Inr (a\<lparr>ac_sum := f64_add (ac_sum a) f\<rparr>))
        | AggMin \<Rightarrow>
            Inr (if (case ac_min a of None \<Rightarrow> True | Some m \<Rightarrow> compare_values v m = Less) then a\<lparr>ac_min := Some v\<rparr> else a)
        | AggMax \<Rightarrow>
            Inr (if (case ac_max a of None \<Rightarrow> True | Some m \<Rightarrow> compare_values v m = Greater) then a\<lparr>ac_max := Some v\<rparr> else a))"

definition accumulator_finalize :: "accumulator \<Rightarrow> sql_value" where
  "accumulator_finalize a =
     (case ac_function a of
        AggCount \<Rightarrow> VInteger (ac_count a)
      | AggSum \<Rightarrow> VFloat (ac_sum a)
      | AggAvg \<Rightarrow> if ac_count a = 0 then VNull else VFloat (f64_div (ac_sum a) (f64_of_int (ac_count a)))
      | AggMin \<Rightarrow> (case ac_min a of Some v \<Rightarrow> v | None \<Rightarrow> VNull)
      | AggMax \<Rightarrow> (case ac_max a of Some v \<Rightarrow> v | None \<Rightarrow> VNull))"

definition group_key_fingerprint :: "platform \<Rightarrow> sql_value list \<Rightarrow> string" where
  "group_key_fingerprint pl vs = concat (map (\<lambda>v. debug_value pl v @ [CHR 0x01]) vs)"

definition group_expr_output_name :: "'q plan_expression \<Rightarrow> nat \<Rightarrow> string" where
  "group_expr_output_name e i = (case e of PColumn t name ty \<Rightarrow> name | _ \<Rightarrow> ''group_'' @ nat_to_string i)"

definition aggregate_columns :: "'q plan_expression list \<Rightarrow> 'q plan_expression aggregate_expr list \<Rightarrow> string list" where
  "aggregate_columns group_by aggregates =
     map (\<lambda>(i, e). group_expr_output_name e i) (enumerate 0 group_by) @
     map (\<lambda>(i, a). case ag_alias a of Some n \<Rightarrow> n | None \<Rightarrow> ''agg_'' @ nat_to_string i) (enumerate 0 aggregates)"

text \<open>The groups in the order of their first rows: the fingerprint, the key and the accumulators.\<close>

type_synonym groups = "(string \<times> sql_value list \<times> accumulator list) list"

definition aggregate_value :: "platform \<Rightarrow> string list \<Rightarrow> row \<Rightarrow> 'q plan_expression aggregate_expr \<Rightarrow> sql_value exec_result" where
  "aggregate_value pl cols r ag = (case ag_argument ag of Some e \<Rightarrow> evaluate pl cols r e | None \<Rightarrow> Inr (VInteger 1))"

fun accumulate_all :: "platform \<Rightarrow> string list \<Rightarrow> row \<Rightarrow> 'q plan_expression aggregate_expr list \<Rightarrow> accumulator list
    \<Rightarrow> accumulator list exec_result" where
  "accumulate_all pl cols r (ag # ags) (a # as) =
     bind_res (aggregate_value pl cols r ag) (\<lambda>v. bind_res (accumulate pl v a) (\<lambda>a'.
       bind_res (accumulate_all pl cols r ags as) (\<lambda>as'. Inr (a' # as'))))"
| "accumulate_all pl cols r _ as = Inr as"

definition fresh_accumulators :: "'q plan_expression aggregate_expr list \<Rightarrow> accumulator list" where
  "fresh_accumulators ags = map (\<lambda>ag. accumulator_new (ag_function ag)) ags"

definition aggregate_row :: "platform \<Rightarrow> string list \<Rightarrow> 'q plan_expression list \<Rightarrow> 'q plan_expression aggregate_expr list
    \<Rightarrow> groups \<Rightarrow> row \<Rightarrow> groups exec_result" where
  "aggregate_row pl cols group_by ags gs r =
     bind_res (map_res (evaluate pl cols r) group_by) (\<lambda>key.
       let fp = group_key_fingerprint pl key;
           gs' = (if hm_contains gs fp then gs else gs @ [(fp, key, fresh_accumulators ags)])
       in case map_of gs' fp of
            Some (k, accs) \<Rightarrow>
              bind_res (accumulate_all pl cols r ags accs) (\<lambda>accs'.
                Inr (map (\<lambda>(f, k, a). if f = fp then (f, k, accs') else (f, k, a)) gs'))
          | None \<Rightarrow> Inr gs')"

fun fold_res :: "('b \<Rightarrow> 'a \<Rightarrow> 'e + 'b) \<Rightarrow> 'b \<Rightarrow> 'a list \<Rightarrow> 'e + 'b" where
  "fold_res f b [] = Inr b"
| "fold_res f b (x # xs) = bind_res (f b x) (\<lambda>b'. fold_res f b' xs)"

text \<open>The whole input is folded on the first call; an error of the input comes after the rows before it.\<close>

definition aggregate_next :: "platform \<Rightarrow> string list \<Rightarrow> 'q plan_expression list \<Rightarrow> 'q plan_expression aggregate_expr list
    \<Rightarrow> stream \<times> bool \<Rightarrow> pulled \<times> stream \<times> bool" where
  "aggregate_next pl input_columns group_by ags s =
     (if snd s then (Inr None, s)
      else
        (bind_res (fold_res (aggregate_row pl input_columns group_by ags) [] (stream_rows (fst s))) (\<lambda>gs.
           case snd (fst s) of Some e \<Rightarrow> Inl e
           | None \<Rightarrow>
               let gs' = (if group_by = [] \<and> gs = [] then [([], [], fresh_accumulators ags)] else gs)
               in Inr (Some (batch (aggregate_columns group_by ags)
                    (map (\<lambda>(f, k, as). k @ map accumulator_finalize as) gs')))),
         (([], None), True)))"

section \<open>Sort\<close>

text \<open>\<^verbatim>\<open>sort_by\<close>, a stable sort, for comparisons that are total preorders; for others Rust leaves the
  order open.\<close>

fun insert_by :: "('a \<Rightarrow> 'a \<Rightarrow> cmp_ordering) \<Rightarrow> 'a \<Rightarrow> 'a list \<Rightarrow> 'a list" where
  "insert_by cmp x [] = [x]"
| "insert_by cmp x (y # ys) = (if cmp x y = Greater then y # insert_by cmp x ys else x # y # ys)"

definition sort_by :: "('a \<Rightarrow> 'a \<Rightarrow> cmp_ordering) \<Rightarrow> 'a list \<Rightarrow> 'a list" where
  "sort_by cmp xs = foldr (insert_by cmp) xs []"

definition sort_value :: "platform \<Rightarrow> string list \<Rightarrow> row \<Rightarrow> 'q plan_expression sort_key \<Rightarrow> sql_value" where
  "sort_value pl cols r k = (case evaluate pl cols r (sk_expr k) of Inr v \<Rightarrow> v | Inl e \<Rightarrow> VNull)"

fun compare_rows :: "platform \<Rightarrow> string list \<Rightarrow> 'q plan_expression sort_key list \<Rightarrow> row \<Rightarrow> row \<Rightarrow> cmp_ordering" where
  "compare_rows pl cols [] a b = Equal"
| "compare_rows pl cols (k # ks) a b =
     (let c = compare_values (sort_value pl cols a k) (sort_value pl cols b k) in
      if c \<noteq> Equal then (if sk_ascending k then c else rev_ordering c) else compare_rows pl cols ks a b)"

record sort_op =
  sr_input :: stream
  sr_data :: "row list option"
  sr_position :: nat

definition sort_new :: "stream \<Rightarrow> sort_op" where
  "sort_new input = \<lparr>sr_input = input, sr_data = None, sr_position = 0\<rparr>"

definition sort_next :: "platform \<Rightarrow> string list \<Rightarrow> 'q plan_expression sort_key list \<Rightarrow> sort_op \<Rightarrow> pulled \<times> sort_op" where
  "sort_next pl cols keys s =
     (case (case sr_data s of Some rows \<Rightarrow> Inr rows
            | None \<Rightarrow> bind_res (collect_rows (sr_input s)) (\<lambda>rows. Inr (sort_by (compare_rows pl cols keys) rows))) of
        Inl e \<Rightarrow> (Inl e, s)
      | Inr rows \<Rightarrow>
          let s1 = s\<lparr>sr_data := Some rows\<rparr> in
          if length rows \<le> sr_position s then (Inr None, s1)
          else
            let stop = min (sr_position s + 1024) (length rows) in
            (Inr (Some (batch cols (take (stop - sr_position s) (drop (sr_position s) rows)))), s1\<lparr>sr_position := stop\<rparr>))"

section \<open>Limit and offset\<close>

record limit_op =
  lo_input :: stream
  lo_skipped :: nat
  lo_returned :: nat

fun limit_loop :: "nat option \<Rightarrow> nat \<Rightarrow> string list \<Rightarrow> result_batch list \<Rightarrow> executor_error option \<Rightarrow> nat \<Rightarrow> nat
    \<Rightarrow> pulled \<times> limit_op" where
  "limit_loop limit offset cols [] e skipped returned =
     ((case e of Some x \<Rightarrow> Inl x | None \<Rightarrow> Inr None), \<lparr>lo_input = ([], e), lo_skipped = skipped, lo_returned = returned\<rparr>)"
| "limit_loop limit offset cols (b # bs) e skipped returned =
     (if skipped < offset \<and> length (rb_rows b) \<le> offset - skipped then
        limit_loop limit offset cols bs e (skipped + length (rb_rows b)) returned
      else
        let rows = (if skipped < offset then drop (offset - skipped) (rb_rows b) else rb_rows b);
            skipped' = (if skipped < offset then offset else skipped);
            rows' = (case limit of Some n \<Rightarrow> take (n - returned) rows | None \<Rightarrow> rows)
        in if rows' = [] then limit_loop limit offset cols bs e skipped' returned
           else (Inr (Some (batch cols rows')),
                 \<lparr>lo_input = (bs, e), lo_skipped = skipped', lo_returned = returned + length rows'\<rparr>))"

definition limit_new :: "stream \<Rightarrow> limit_op" where
  "limit_new input = \<lparr>lo_input = input, lo_skipped = 0, lo_returned = 0\<rparr>"

definition limit_next :: "nat option \<Rightarrow> nat option \<Rightarrow> string list \<Rightarrow> limit_op \<Rightarrow> pulled \<times> limit_op" where
  "limit_next limit offset cols s =
     (if (case limit of Some n \<Rightarrow> n \<le> lo_returned s | None \<Rightarrow> False) then (Inr None, s)
      else limit_loop limit (case offset of Some n \<Rightarrow> n | None \<Rightarrow> 0) cols (fst (lo_input s)) (snd (lo_input s))
             (lo_skipped s) (lo_returned s))"

section \<open>The empty operator and set operations\<close>

definition empty_next :: "bool \<Rightarrow> pulled \<times> bool" where
  "empty_next finished = (if finished then (Inr None, True) else (Inr (Some (batch [] [[]])), True))"

datatype value_key = KNull | KBoolean bool | KInteger int | KFloat f64 | KString string

definition value_to_key :: "platform \<Rightarrow> sql_value \<Rightarrow> value_key" where
  "value_to_key pl v =
     (case v of
        VNull \<Rightarrow> KNull
      | VBoolean b \<Rightarrow> KBoolean b
      | VInteger i \<Rightarrow> KInteger i
      | VFloat f \<Rightarrow> KFloat f
      | VString s \<Rightarrow> KString s
      | _ \<Rightarrow> KString (debug_value pl v))"

abbreviation row_key :: "platform \<Rightarrow> row \<Rightarrow> value_key list" where
  "row_key pl r \<equiv> map (value_to_key pl) r"

text \<open>The loops with the set \<^verbatim>\<open>seen\<close> of keys, over the rows whose key passes a test.\<close>

fun keep_first :: "('r \<Rightarrow> 'k) \<Rightarrow> ('k \<Rightarrow> bool) \<Rightarrow> 'k set \<Rightarrow> 'r list \<Rightarrow> 'r list" where
  "keep_first key test seen [] = []"
| "keep_first key test seen (r # rs) =
     (if test (key r) \<and> key r \<notin> seen then r # keep_first key test (insert (key r) seen) rs
      else keep_first key test seen rs)"

definition deduplicate_rows :: "platform \<Rightarrow> row list \<Rightarrow> row list" where
  "deduplicate_rows pl rows = keep_first (row_key pl) (\<lambda>k. True) {} rows"

definition set_operation_rows :: "platform \<Rightarrow> set_operation_type \<Rightarrow> row list \<Rightarrow> row list \<Rightarrow> row list" where
  "set_operation_rows pl op left right =
     (case op of
        SetUnionAll \<Rightarrow> left @ right
      | SetUnion \<Rightarrow> deduplicate_rows pl (left @ right)
      | SetIntersect \<Rightarrow> keep_first (row_key pl) (\<lambda>k. k \<in> set (map (row_key pl) right)) {} left
      | SetExcept \<Rightarrow> keep_first (row_key pl) (\<lambda>k. k \<notin> set (map (row_key pl) right)) {} left)"

text \<open>The columns of the first batch that has any.\<close>

definition stream_columns :: "stream \<Rightarrow> string list" where
  "stream_columns s = (case find (\<lambda>b. rb_columns b \<noteq> []) (fst s) of Some b \<Rightarrow> rb_columns b | None \<Rightarrow> [])"

record set_op =
  st_left :: stream
  st_right :: stream
  st_rows :: "row list option"
  st_columns :: "string list"
  st_position :: nat

definition set_op_new :: "stream \<Rightarrow> stream \<Rightarrow> set_op" where
  "set_op_new left right = \<lparr>st_left = left, st_right = right, st_rows = None, st_columns = [], st_position = 0\<rparr>"

definition set_op_compute :: "platform \<Rightarrow> set_operation_type \<Rightarrow> set_op \<Rightarrow> set_op exec_result" where
  "set_op_compute pl op s =
     (if st_rows s \<noteq> None then Inr s
      else
        bind_res (collect_rows (st_left s)) (\<lambda>left. bind_res (collect_rows (st_right s)) (\<lambda>right.
          let lc = stream_columns (st_left s); rc = stream_columns (st_right s) in
          Inr (s\<lparr>st_columns := (if lc \<noteq> [] then lc else rc), st_rows := Some (set_operation_rows pl op left right)\<rparr>))))"

definition set_op_next :: "platform \<Rightarrow> set_operation_type \<Rightarrow> set_op \<Rightarrow> pulled \<times> set_op" where
  "set_op_next pl op s =
     (case set_op_compute pl op s of
        Inl e \<Rightarrow> (Inl e, s)
      | Inr s1 \<Rightarrow>
          let rows = (case st_rows s1 of Some r \<Rightarrow> r | None \<Rightarrow> []) in
          if length rows \<le> st_position s1 then (Inr None, s1)
          else
            let stop = min (st_position s1 + 1024) (length rows) in
            (Inr (Some (batch (st_columns s1) (take (stop - st_position s1) (drop (st_position s1) rows)))),
             s1\<lparr>st_position := stop\<rparr>))"

end
