(* ===== verification/SqlPipeline.thy ===== *)
theory SqlPipeline
  imports SqlOps "HOL-Library.Multiset"
begin

text \<open>
  What the operators compute on their whole input.  The interface \<open>rows_operator\<close> describes an operator
  by the rows that are still to come from a state; its consequence is that draining the operator ends and
  gives exactly these rows.  Every operator of \<open>SqlOps\<close> is an instance, so that a pipeline computes the
  composition of the functions on lists of rows that the instances name.
\<close>

section \<open>The interface of an operator\<close>

locale pull_operator =
  fixes nxt :: "'s \<Rightarrow> pulled \<times> 's" and good :: "'s \<Rightarrow> bool" and work :: "'s \<Rightarrow> nat"
  assumes progress: "good s \<Longrightarrow> nxt s = (Inr (Some b), s') \<Longrightarrow> good s' \<and> work s' < work s"
begin

lemma drain_ends: "good s \<Longrightarrow> \<exists>t. drain nxt s = Some t"
proof (induction "work s" arbitrary: s rule: less_induct)
  case less
  obtain r s' where n: "nxt s = (r, s')" by (cases "nxt s")
  show ?case
  proof (cases "\<exists>b. r = Inr (Some b)")
    case True
    then obtain b where "r = Inr (Some b)" by blast
    with less progress [OF less.prems] n obtain t where "drain nxt s' = Some t" by blast
    then show ?thesis by (subst drain.simps) (simp add: n \<open>r = Inr (Some b)\<close> split: prod.splits)
  next
    case False
    then show ?thesis by (subst drain.simps) (simp add: n split: sum.splits option.splits)
  qed
qed

end

text \<open>The rows to come and the error after them; all batches carry the same columns.\<close>

locale rows_operator = pull_operator nxt good work
  for nxt :: "'s \<Rightarrow> pulled \<times> 's" and good :: "'s \<Rightarrow> bool" and work :: "'s \<Rightarrow> nat" +
  fixes pending :: "'s \<Rightarrow> row list" and fails :: "'s \<Rightarrow> executor_error option" and header :: "'s \<Rightarrow> string list"
  assumes some: "good s \<Longrightarrow> nxt s = (Inr (Some b), s') \<Longrightarrow>
      pending s = rb_rows b @ pending s' \<and> fails s' = fails s \<and> rb_columns b = header s \<and> header s' = header s"
    and ends: "good s \<Longrightarrow> nxt s = (Inr None, s') \<Longrightarrow> pending s = [] \<and> fails s = None"
    and stops: "good s \<Longrightarrow> nxt s = (Inl e, s') \<Longrightarrow> pending s = [] \<and> fails s = Some e"
begin

lemma drain_rows:
  "good s \<Longrightarrow> \<exists>t. drain nxt s = Some t \<and> stream_rows t = pending s \<and> snd t = fails s
    \<and> (\<forall>b \<in> set (fst t). rb_columns b = header s)"
proof (induction "work s" arbitrary: s rule: less_induct)
  case less
  obtain r s' where n: "nxt s = (r, s')" by (cases "nxt s")
  consider b where "r = Inr (Some b)" | "r = Inr None" | e where "r = Inl e"
    by (metis obj_sumE option.exhaust)
  then show ?case
  proof cases
    case 1
    note b = progress [OF less.prems n [unfolded 1]] some [OF less.prems n [unfolded 1]]
    then obtain t where "drain nxt s' = Some t" "stream_rows t = pending s'" "snd t = fails s'"
        "\<forall>b \<in> set (fst t). rb_columns b = header s'"
      using less.hyps by blast
    then show ?thesis
      using b 1 by (subst drain.simps) (auto simp: n stream_rows_def split: prod.splits)
  next
    case 2
    then show ?thesis using ends [OF less.prems] n by (subst drain.simps) (simp add: stream_rows_def)
  next
    case 3
    then show ?thesis using stops [OF less.prems] n by (subst drain.simps) (simp add: stream_rows_def)
  qed
qed

end

text \<open>The laws in one case distinction over the result of a step.\<close>

definition step_ok :: "('s \<Rightarrow> bool) \<Rightarrow> ('s \<Rightarrow> nat) \<Rightarrow> ('s \<Rightarrow> row list) \<Rightarrow> ('s \<Rightarrow> executor_error option) \<Rightarrow> ('s \<Rightarrow> string list)
    \<Rightarrow> 's \<Rightarrow> pulled \<times> 's \<Rightarrow> bool" where
  "step_ok good work pending fails header s p \<longleftrightarrow>
     (case p of (r, s') \<Rightarrow>
        case r of
          Inr (Some b) \<Rightarrow> good s' \<and> work s' < work s \<and> pending s = rb_rows b @ pending s' \<and> fails s' = fails s
            \<and> rb_columns b = header s \<and> header s' = header s
        | Inr None \<Rightarrow> pending s = [] \<and> fails s = None
        | Inl e \<Rightarrow> pending s = [] \<and> fails s = Some e)"

lemma rows_operatorI:
  assumes "\<And>s. good s \<Longrightarrow> step_ok good work pending fails header s (nxt s)"
  shows "rows_operator nxt good work pending fails header"
proof
  fix s b s' e
  assume g: "good s"
  note ok = assms [OF g]
  show "good s' \<and> work s' < work s" if "nxt s = (Inr (Some b), s')"
    using ok that by (simp add: step_ok_def)
  show "pending s = rb_rows b @ pending s' \<and> fails s' = fails s \<and> rb_columns b = header s \<and> header s' = header s"
    if "nxt s = (Inr (Some b), s')" using ok that by (simp add: step_ok_def)
  show "pending s = [] \<and> fails s = None" if "nxt s = (Inr None, s')" using ok that by (simp add: step_ok_def)
  show "pending s = [] \<and> fails s = Some e" if "nxt s = (Inl e, s')" using ok that by (simp add: step_ok_def)
qed

section \<open>Scan, filter, projection\<close>

lemma take_drop_split: "p \<le> q \<Longrightarrow> drop p xs = take (q - p) (drop p xs) @ drop q xs"
  by (metis append_take_drop_id drop_drop le_add_diff_inverse2)

interpretation scan: rows_operator scan_next "\<lambda>s. 0 < so_batch_size s" "\<lambda>s. length (so_rows s) - so_position s"
    "\<lambda>s. drop (so_position s) (so_rows s)" "\<lambda>s. None" so_columns
proof (rule rows_operatorI)
  fix s :: scan_op
  assume "0 < so_batch_size s"
  then show "step_ok (\<lambda>s. 0 < so_batch_size s) (\<lambda>s. length (so_rows s) - so_position s)
      (\<lambda>s. drop (so_position s) (so_rows s)) (\<lambda>s. None) so_columns s (scan_next s)"
    using take_drop_split [of "so_position s" "min (so_position s + so_batch_size s) (length (so_rows s))" "so_rows s"]
    by (auto simp: step_ok_def scan_next_def Let_def)
qed

definition filtered_rows :: "platform \<Rightarrow> 'q plan_expression \<Rightarrow> result_batch list \<Rightarrow> row list" where
  "filtered_rows pl p bs = concat (map (\<lambda>b. filter (passes pl p (rb_columns b)) (rb_rows b)) bs)"

lemma filter_next_ok:
  "step_ok (\<lambda>s. True) (\<lambda>s. length (fst s)) (\<lambda>s. filtered_rows pl p (fst s)) snd (\<lambda>s. cols) s (filter_next pl p cols s)"
proof (induction pl p cols s rule: filter_next.induct)
  case (1 pl p cols e)
  then show ?case by (cases e) (simp_all add: step_ok_def filtered_rows_def)
next
  case (2 pl p cols b bs e)
  show ?case
  proof (cases "filter (passes pl p (rb_columns b)) (rb_rows b) = []")
    case True
    then show ?thesis using 2 [OF refl]
      by (auto simp: Let_def step_ok_def filtered_rows_def split: prod.splits sum.splits option.splits)
  qed (simp add: Let_def step_ok_def filtered_rows_def)
qed

interpretation filter_op: rows_operator "filter_next pl p cols" "\<lambda>s. True" "\<lambda>s. length (fst s)"
    "\<lambda>s. filtered_rows pl p (fst s)" snd "\<lambda>s. cols" for pl p cols
  by (rule rows_operatorI) (rule filter_next_ok)

text \<open>Projection of rows none of which fails.\<close>

definition projects :: "platform \<Rightarrow> string list \<Rightarrow> 'q plan_expression projection_expr list \<Rightarrow> row list \<Rightarrow> bool" where
  "projects pl cols ps rows \<longleftrightarrow> (\<forall>r \<in> set rows. \<exists>r'. project_row pl cols ps r = Inr r')"

definition projected :: "platform \<Rightarrow> string list \<Rightarrow> 'q plan_expression projection_expr list \<Rightarrow> row \<Rightarrow> row" where
  "projected pl cols ps r = (case project_row pl cols ps r of Inr r' \<Rightarrow> r' | Inl e \<Rightarrow> [])"

lemma map_res_ok: "\<forall>x \<in> set xs. \<exists>y. f x = Inr y \<Longrightarrow> map_res f xs = Inr (map (\<lambda>x. case f x of Inr y \<Rightarrow> y | Inl e \<Rightarrow> d) xs)"
  by (induction xs) auto

lemma project_batch: "projects pl cols ps rows \<Longrightarrow> map_res (project_row pl cols ps) rows = Inr (map (projected pl cols ps) rows)"
  unfolding projects_def projected_def by (rule map_res_ok)

interpretation project_op: rows_operator "project_next pl input ps cols" "\<lambda>s. projects pl input ps (stream_rows s)"
    "\<lambda>s. length (fst s)" "\<lambda>s. map (projected pl input ps) (stream_rows s)" snd "\<lambda>s. cols" for pl input ps cols
proof (rule rows_operatorI)
  fix s :: stream
  assume good: "projects pl input ps (stream_rows s)"
  obtain bs x where s: "s = (bs, x)" by (cases s)
  show "step_ok (\<lambda>s. projects pl input ps (stream_rows s)) (\<lambda>s. length (fst s)) (\<lambda>s. map (projected pl input ps) (stream_rows s))
      snd (\<lambda>s. cols) s (project_next pl input ps cols s)"
  proof (cases bs)
    case Nil
    then show ?thesis by (cases x) (simp_all add: s step_ok_def project_next_def stream_rows_def)
  next
    case (Cons b bs')
    then have "projects pl input ps (rb_rows b)" "projects pl input ps (stream_rows (bs', x))"
      using good by (auto simp: s stream_rows_def projects_def)
    then show ?thesis using Cons by (simp add: s step_ok_def project_next_def project_batch stream_rows_def)
  qed
qed

section \<open>Sort, limit, set operations, the empty operator\<close>

lemma collect_rows_simps [simp]: "collect_rows s = Inr rows \<longleftrightarrow> snd s = None \<and> rows = stream_rows s"
  by (auto simp: collect_rows_def split: option.splits)

definition sort_pending :: "platform \<Rightarrow> string list \<Rightarrow> 'q plan_expression sort_key list \<Rightarrow> sort_op \<Rightarrow> row list" where
  "sort_pending pl cols keys s =
     drop (sr_position s)
       (case sr_data s of Some rows \<Rightarrow> rows | None \<Rightarrow> sort_by (compare_rows pl cols keys) (stream_rows (sr_input s)))"

interpretation sort_op: rows_operator "sort_next pl cols keys" "\<lambda>s. snd (sr_input s) = None"
    "\<lambda>s. length (sort_pending pl cols keys s)" "sort_pending pl cols keys" "\<lambda>s. None" "\<lambda>s. cols" for pl cols keys
proof (rule rows_operatorI)
  fix s :: sort_op
  assume good: "snd (sr_input s) = None"
  obtain rows where rows: "rows = (case sr_data s of Some rows \<Rightarrow> rows
      | None \<Rightarrow> sort_by (compare_rows pl cols keys) (stream_rows (sr_input s)))" by blast
  have r: "(case sr_data s of Some rows \<Rightarrow> Inr rows
      | None \<Rightarrow> bind_res (collect_rows (sr_input s)) (\<lambda>rows. Inr (sort_by (compare_rows pl cols keys) rows))) = Inr rows"
    using good rows by (auto simp: collect_rows_def split: option.splits)
  show "step_ok (\<lambda>s. snd (sr_input s) = None) (\<lambda>s. length (sort_pending pl cols keys s)) (sort_pending pl cols keys)
      (\<lambda>s. None) (\<lambda>s. cols) s (sort_next pl cols keys s)"
    using good take_drop_split [of "sr_position s" "min (sr_position s + 1024) (length rows)" rows]
    unfolding sort_next_def r by (auto simp: step_ok_def sort_pending_def Let_def rows [symmetric])
qed

text \<open>Rows still wanted by a limit.\<close>

definition limit_pending :: "nat option \<Rightarrow> nat \<Rightarrow> limit_op \<Rightarrow> row list" where
  "limit_pending limit offset s =
     (let rows = drop (offset - lo_skipped s) (stream_rows (lo_input s)) in
      case limit of Some n \<Rightarrow> take (n - lo_returned s) rows | None \<Rightarrow> rows)"

lemma limit_loop_ok:
  assumes "\<And>n. limit = Some n \<Longrightarrow> returned < n"
  shows "step_ok (\<lambda>s. snd (lo_input s) = None) (\<lambda>s. length (fst (lo_input s))) (limit_pending limit offset) (\<lambda>s. None) (\<lambda>s. cols)
     \<lparr>lo_input = (bs, None), lo_skipped = skipped, lo_returned = returned\<rparr> (limit_loop limit offset cols bs None skipped returned)"
  using assms
proof (induction bs arbitrary: skipped returned)
  case Nil
  then show ?case by (simp add: step_ok_def limit_pending_def stream_rows_def split: option.splits)
next
  case (Cons b bs)
  let ?s = "\<lparr>lo_input = (b # bs, None), lo_skipped = skipped, lo_returned = returned\<rparr>"
  have next_: "limit_pending limit offset ?s
      = limit_pending limit offset \<lparr>lo_input = (bs, None), lo_skipped = skipped + length (rb_rows b), lo_returned = returned\<rparr>"
    if "skipped < offset" "length (rb_rows b) \<le> offset - skipped"
    using that by (simp add: limit_pending_def Let_def stream_rows_def split: option.splits)
  show ?case
  proof (cases "skipped < offset \<and> length (rb_rows b) \<le> offset - skipped")
    case True
    then show ?thesis using Cons.IH [OF Cons.prems, of "skipped + length (rb_rows b)"] next_
      by (auto simp: step_ok_def split: prod.splits sum.splits option.splits)
  next
    case False
    let ?rows = "drop (offset - skipped) (rb_rows b)"
    let ?rows' = "case limit of Some n \<Rightarrow> take (n - returned) ?rows | None \<Rightarrow> ?rows"
    have split: "drop (offset - skipped) (rb_rows b @ rs) = ?rows @ rs" for rs using False by auto
    have empty: "?rows' = [] \<longleftrightarrow> ?rows = []" using Cons.prems by (auto split: option.splits)
    show ?thesis
    proof (cases "?rows' = []")
      case True
      then have "limit_pending limit offset ?s
          = limit_pending limit offset \<lparr>lo_input = (bs, None), lo_skipped = max offset skipped, lo_returned = returned\<rparr>"
        using split empty by (simp add: limit_pending_def stream_rows_def max_def split: option.splits)
      then show ?thesis
        using Cons.IH [OF Cons.prems, of "max offset skipped"] False True
        by (auto simp: step_ok_def Let_def max_def split: prod.splits sum.splits option.splits)
    next
      case ne: False
      then show ?thesis
        using False split
        by (auto simp: step_ok_def Let_def limit_pending_def stream_rows_def min_def split: option.splits)
    qed
  qed
qed

interpretation limit_op: rows_operator "limit_next limit offset cols" "\<lambda>s. snd (lo_input s) = None"
    "\<lambda>s. length (fst (lo_input s))" "limit_pending limit (case offset of Some n \<Rightarrow> n | None \<Rightarrow> 0)" "\<lambda>s. None" "\<lambda>s. cols"
  for limit offset cols
proof (rule rows_operatorI)
  fix s :: limit_op
  assume good: "snd (lo_input s) = None"
  let ?offset = "case offset of Some n \<Rightarrow> n | None \<Rightarrow> 0"
  show "step_ok (\<lambda>s. snd (lo_input s) = None) (\<lambda>s. length (fst (lo_input s))) (limit_pending limit ?offset)
      (\<lambda>s. None) (\<lambda>s. cols) s (limit_next limit offset cols s)"
  proof (cases "case limit of Some n \<Rightarrow> n \<le> lo_returned s | None \<Rightarrow> False")
    case True
    then show ?thesis by (auto simp: step_ok_def limit_next_def limit_pending_def Let_def split: option.splits)
  next
    case False
    have "s = \<lparr>lo_input = (fst (lo_input s), None), lo_skipped = lo_skipped s, lo_returned = lo_returned s\<rparr>"
      using good by (cases s; cases "lo_input s") simp
    moreover have "lo_returned s < n" if "limit = Some n" for n using that False by simp
    ultimately show ?thesis
      using limit_loop_ok [of limit "lo_returned s" ?offset cols "fst (lo_input s)" "lo_skipped s"] False good
      by (simp add: limit_next_def)
  qed
qed

definition set_op_pending :: "platform \<Rightarrow> set_operation_type \<Rightarrow> set_op \<Rightarrow> row list" where
  "set_op_pending pl op s =
     drop (st_position s)
       (case st_rows s of Some rows \<Rightarrow> rows
        | None \<Rightarrow> set_operation_rows pl op (stream_rows (st_left s)) (stream_rows (st_right s)))"

definition set_op_header :: "set_op \<Rightarrow> string list" where
  "set_op_header s =
     (if st_rows s \<noteq> None then st_columns s
      else if stream_columns (st_left s) \<noteq> [] then stream_columns (st_left s) else stream_columns (st_right s))"

interpretation set_op: rows_operator "set_op_next pl op" "\<lambda>s. snd (st_left s) = None \<and> snd (st_right s) = None"
    "\<lambda>s. length (set_op_pending pl op s)" "set_op_pending pl op" "\<lambda>s. None" set_op_header for pl op
proof (rule rows_operatorI)
  fix s :: set_op
  assume good: "snd (st_left s) = None \<and> snd (st_right s) = None"
  let ?rows = "case st_rows s of Some rows \<Rightarrow> rows
      | None \<Rightarrow> set_operation_rows pl op (stream_rows (st_left s)) (stream_rows (st_right s))"
  have collect: "collect_rows (st_left s) = Inr (stream_rows (st_left s))" "collect_rows (st_right s) = Inr (stream_rows (st_right s))"
    using good by simp_all
  obtain s1 where s1: "set_op_compute pl op s = Inr s1" "st_rows s1 = Some ?rows" "st_position s1 = st_position s"
      "st_columns s1 = set_op_header s" "st_left s1 = st_left s" "st_right s1 = st_right s"
  proof (cases "st_rows s")
    case None
    then show thesis
      by (intro that [of "s\<lparr>st_columns := set_op_header s,
            st_rows := Some (set_operation_rows pl op (stream_rows (st_left s)) (stream_rows (st_right s)))\<rparr>"])
        (simp_all add: set_op_compute_def collect Let_def set_op_header_def)
  qed (auto simp: set_op_compute_def set_op_header_def intro: that)
  show "step_ok (\<lambda>s. snd (st_left s) = None \<and> snd (st_right s) = None) (\<lambda>s. length (set_op_pending pl op s))
      (set_op_pending pl op) (\<lambda>s. None) set_op_header s (set_op_next pl op s)"
    using good s1 take_drop_split [of "st_position s" "min (st_position s + 1024) (length ?rows)" ?rows]
    by (auto simp: set_op_next_def step_ok_def set_op_pending_def set_op_header_def [of "st_position_update f s1" for f] Let_def)
qed

interpretation empty_op: rows_operator empty_next "\<lambda>s. True" "\<lambda>s. if s then 0 else 1"
    "\<lambda>s. if s then [] else [[]]" "\<lambda>s. None" "\<lambda>s. []"
  by (rule rows_operatorI) (simp add: step_ok_def empty_next_def)

section \<open>Joins\<close>

text \<open>The rows a left row contributes: with every right row that satisfies the condition, or with nulls
  when there is none and the join is outer.\<close>

definition matches :: "(row \<Rightarrow> row \<Rightarrow> bool exec_result) \<Rightarrow> row \<Rightarrow> row list \<Rightarrow> row list" where
  "matches cond l rs = map ((@) l) (filter (\<lambda>r. cond l r = Inr True) rs)"

definition joined :: "(row \<Rightarrow> row \<Rightarrow> bool exec_result) \<Rightarrow> bool \<Rightarrow> nat \<Rightarrow> row \<Rightarrow> row list \<Rightarrow> row list" where
  "joined cond outer width l rs =
     (if matches cond l rs = [] \<and> outer then [l @ replicate width VNull] else matches cond l rs)"

definition decides :: "(row \<Rightarrow> row \<Rightarrow> bool exec_result) \<Rightarrow> row list \<Rightarrow> row list \<Rightarrow> bool" where
  "decides cond ls rs \<longleftrightarrow> (\<forall>l \<in> set ls. \<forall>r \<in> set rs. \<exists>b. cond l r = Inr b)"

lemma matches_simps [simp]:
  "matches cond l [] = []"
  "matches cond l (r # rs) = (if cond l r = Inr True then (l @ r) # matches cond l rs else matches cond l rs)"
  by (simp_all add: matches_def)

text \<open>One left row: the loop adds its matches, and stops with 1024 rows at most.\<close>

lemma join_row_ok:
  assumes "decides cond [l] rs" "length acc < 1024"
  shows "\<exists>full i' acc' m'. join_row (cond l) l rs i acc m = Inr (full, i', acc', m')
    \<and> acc' @ matches cond l (drop (i' - i) rs) = acc @ matches cond l rs \<and> i \<le> i' \<and> i' - i \<le> length rs
    \<and> (full \<longrightarrow> length acc' = 1024 \<and> i < i')
    \<and> (\<not> full \<longrightarrow> length acc' < 1024 \<and> i' = i + length rs \<and> (m' \<longleftrightarrow> m \<or> matches cond l rs \<noteq> []))"
  using assms
proof (induction rs arbitrary: i acc m)
  case (Cons r rs)
  obtain b where b: "cond l r = Inr b" using Cons.prems(1) by (auto simp: decides_def)
  have d: "decides cond [l] rs" using Cons.prems(1) by (simp add: decides_def)
  have shift: "drop (i' - i) (r # rs) = drop (i' - (i + 1)) rs" if "i + 1 \<le> i'" for i'
  proof -
    have "i' - i = Suc (i' - (i + 1))" using that by simp
    then show ?thesis by simp
  qed
  show ?case
  proof (cases "b \<and> 1024 \<le> length (acc @ [l @ r])")
    case True
    then show ?thesis using b Cons.prems(2) by (auto intro!: exI [of _ "i + 1"])
  next
    case False
    let ?acc = "if b then acc @ [l @ r] else acc"
    have "length ?acc < 1024" using False Cons.prems(2) by auto
    from Cons.IH [OF d this, of "i + 1" "m \<or> b"] obtain full i' acc' m' where
      ih: "join_row (cond l) l rs (i + 1) ?acc (m \<or> b) = Inr (full, i', acc', m')"
        "acc' @ matches cond l (drop (i' - (i + 1)) rs) = ?acc @ matches cond l rs" "i + 1 \<le> i'" "i' - (i + 1) \<le> length rs"
        "full \<longrightarrow> length acc' = 1024 \<and> i + 1 < i'"
        "\<not> full \<longrightarrow> length acc' < 1024 \<and> i' = i + 1 + length rs \<and> (m' \<longleftrightarrow> (m \<or> b) \<or> matches cond l rs \<noteq> [])"
      by blast
    have "join_row (cond l) l (r # rs) i acc m = Inr (full, i', acc', m')"
      using ih(1) b False by (cases b) auto
    then show ?thesis using ih b shift [OF ih(3)] by (cases b) auto
  qed
next
  case Nil
  then show ?case by simp blast
qed

text \<open>The inner join: what is left of a batch, from a left row and a right row on.\<close>

definition batch_matches :: "(row \<Rightarrow> row \<Rightarrow> bool exec_result) \<Rightarrow> row list \<Rightarrow> row list \<Rightarrow> nat \<Rightarrow> row list" where
  "batch_matches cond right ls ri =
     (case ls of [] \<Rightarrow> [] | l # ls' \<Rightarrow> matches cond l (drop ri right) @ concat (map (\<lambda>l. matches cond l right) ls'))"

lemma batch_matches_0 [simp]: "batch_matches cond right ls 0 = concat (map (\<lambda>l. matches cond l right) ls)"
  by (cases ls) (simp_all add: batch_matches_def)

lemma decides_drop: "decides cond ls rs \<Longrightarrow> decides cond ls (drop n rs)"
  by (auto simp: decides_def dest: in_set_dropD)

lemma join_batch_inner:
  assumes "decides cond ls right" "length acc < 1024" "ri \<le> length right"
  shows "\<exists>full li' ri' acc'. join_batch cond False width right ls li ri acc = Inr (full, li', ri', acc')
    \<and> (\<not> full \<longrightarrow> acc' = acc @ batch_matches cond right ls ri \<and> length acc' < 1024)
    \<and> (full \<longrightarrow> acc' @ batch_matches cond right (drop (li' - li) ls) ri' = acc @ batch_matches cond right ls ri
         \<and> length acc' = 1024 \<and> li \<le> li' \<and> ri' \<le> length right)"
  using assms
proof (induction ls arbitrary: li ri acc)
  case Nil
  then show ?case by (simp add: batch_matches_def) blast
next
  case (Cons l ls)
  have d: "decides cond [l] (drop ri right)" "decides cond ls right"
    using Cons.prems(1) decides_drop [of cond "l # ls" right ri] by (auto simp: decides_def)
  from join_row_ok [OF d(1) Cons.prems(2), of ri False] obtain full i' acc' m' where
    row: "join_row (cond l) l (drop ri right) ri acc False = Inr (full, i', acc', m')"
      "acc' @ matches cond l (drop (i' - ri) (drop ri right)) = acc @ matches cond l (drop ri right)"
      "ri \<le> i'" "i' - ri \<le> length (drop ri right)" "full \<longrightarrow> length acc' = 1024"
      "\<not> full \<longrightarrow> length acc' < 1024 \<and> i' = ri + length (drop ri right)"
    by blast
  show ?case
  proof (cases full)
    case True
    then have jb: "join_batch cond False width right (l # ls) li ri acc = Inr (True, li, i', acc')" using row(1) by simp
    have "i' \<le> length right" using row(4) Cons.prems(3) row(3) by simp
    moreover have "acc' @ batch_matches cond right (drop (li - li) (l # ls)) i' = acc @ batch_matches cond right (l # ls) ri"
      using row(2,3) by (simp add: batch_matches_def)
    ultimately show ?thesis using row(5) True jb
      by (intro exI [of _ True] exI [of _ li] exI [of _ i'] exI [of _ acc']) (simp only: order_refl simp_thms)
  next
    case False
    then have acc': "acc' = acc @ matches cond l (drop ri right)" "length acc' < 1024" using row Cons.prems(3) by auto
    from Cons.IH [OF d(2) acc'(2), of 0 "li + 1"] obtain full2 li2 ri2 acc2 where
      ih: "join_batch cond False width right ls (li + 1) 0 acc' = Inr (full2, li2, ri2, acc2)"
        "\<not> full2 \<longrightarrow> acc2 = acc' @ batch_matches cond right ls 0 \<and> length acc2 < 1024"
        "full2 \<longrightarrow> acc2 @ batch_matches cond right (drop (li2 - (li + 1)) ls) ri2 = acc' @ batch_matches cond right ls 0
           \<and> length acc2 = 1024 \<and> li + 1 \<le> li2 \<and> ri2 \<le> length right"
      by blast
    have dr: "drop (li2 - li) (l # ls) = drop (li2 - (li + 1)) ls" if "li + 1 \<le> li2"
    proof -
      have "li2 - li = Suc (li2 - (li + 1))" using that by simp
      then show ?thesis by simp
    qed
    have jb: "join_batch cond False width right (l # ls) li ri acc = Inr (full2, li2, ri2, acc2)"
      using row(1) False ih(1) by simp
    have eq: "acc' @ batch_matches cond right ls 0 = acc @ batch_matches cond right (l # ls) ri"
      by (simp add: acc'(1) batch_matches_def [of _ _ "l # ls"])
    have "full2 \<longrightarrow> acc2 @ batch_matches cond right (drop (li2 - li) (l # ls)) ri2 = acc @ batch_matches cond right (l # ls) ri
        \<and> length acc2 = 1024 \<and> li \<le> li2 \<and> ri2 \<le> length right"
      using ih(3) dr unfolding eq by auto
    with ih(2) jb show ?thesis unfolding eq by blast
  qed
qed

definition rows_matches :: "(row \<Rightarrow> row \<Rightarrow> bool exec_result) \<Rightarrow> row list \<Rightarrow> row list \<Rightarrow> row list" where
  "rows_matches cond right ls = concat (map (\<lambda>l. matches cond l right) ls)"

definition partial_matches :: "(row \<Rightarrow> row \<Rightarrow> bool exec_result) \<Rightarrow> row list \<Rightarrow> result_batch option \<Rightarrow> nat \<Rightarrow> nat \<Rightarrow> row list" where
  "partial_matches cond right lb li ri =
     (case lb of None \<Rightarrow> [] | Some b \<Rightarrow> batch_matches cond right (drop li (rb_rows b)) ri)"

text \<open>The outcome of a call that had \<open>todo\<close> left to produce.\<close>

definition inner_ok :: "(row \<Rightarrow> row \<Rightarrow> bool exec_result) \<Rightarrow> row list \<Rightarrow> string list \<Rightarrow> row list \<Rightarrow> result_batch option
    \<Rightarrow> result_batch list \<Rightarrow> result_batch option \<Rightarrow> nat \<Rightarrow> nat \<Rightarrow> bool" where
  "inner_ok cond right cols todo r left lb li ri \<longleftrightarrow>
     (case r of None \<Rightarrow> todo = []
      | Some b \<Rightarrow> rb_columns b = cols \<and> rb_rows b \<noteq> [] \<and> ri \<le> length right
          \<and> decides cond (concat (map rb_rows left)) right \<and> (\<forall>b. lb = Some b \<longrightarrow> decides cond (rb_rows b) right)
          \<and> rb_rows b @ partial_matches cond right lb li ri @ rows_matches cond right (concat (map rb_rows left)) = todo)"

lemma join_left_inner:
  assumes "decides cond (concat (map rb_rows bs)) right" "length acc < 1024"
  shows "\<exists>r left lb li ri. join_left cond False width right cols bs None acc = (Inr r, (left, None), lb, li, ri)
    \<and> inner_ok cond right cols (acc @ rows_matches cond right (concat (map rb_rows bs))) r left lb li ri"
  using assms
proof (induction bs arbitrary: acc)
  case Nil
  then show ?case by (simp add: inner_ok_def rows_matches_def partial_matches_def decides_def)
next
  case (Cons b bs)
  have d: "decides cond (rb_rows b) right" "decides cond (concat (map rb_rows bs)) right"
    using Cons.prems(1) by (auto simp: decides_def)
  from join_batch_inner [OF d(1) Cons.prems(2), of 0 width 0] obtain full li ri acc' where
    batch: "join_batch cond False width right (rb_rows b) 0 0 acc = Inr (full, li, ri, acc')"
      "\<not> full \<longrightarrow> acc' = acc @ rows_matches cond right (rb_rows b) \<and> length acc' < 1024"
      "full \<longrightarrow> acc' @ batch_matches cond right (drop li (rb_rows b)) ri = acc @ rows_matches cond right (rb_rows b)
         \<and> length acc' = 1024 \<and> ri \<le> length right"
    by (auto simp: rows_matches_def)
  have sp: "rows_matches cond right (concat (map rb_rows (b # bs)))
      = rows_matches cond right (rb_rows b) @ rows_matches cond right (concat (map rb_rows bs))"
    by (simp add: rows_matches_def)
  show ?case
  proof (cases full)
    case True
    then have "acc' \<noteq> []" using batch(3) by auto
    then show ?thesis using True batch d sp by (simp add: inner_ok_def partial_matches_def)
  next
    case False
    then have "length acc' < 1024" using batch(2) by blast
    from Cons.IH [OF d(2) this] obtain r left lb li' ri' where
      ih: "join_left cond False width right cols bs None acc' = (Inr r, (left, None), lb, li', ri')"
      "inner_ok cond right cols (acc' @ rows_matches cond right (concat (map rb_rows bs))) r left lb li' ri'" by blast
    have "acc' @ rows_matches cond right (concat (map rb_rows bs)) = acc @ rows_matches cond right (concat (map rb_rows (b # bs)))"
      using batch(2) False unfolding sp by simp
    with ih(2) have "inner_ok cond right cols (acc @ rows_matches cond right (concat (map rb_rows (b # bs)))) r left lb li' ri'"
      by (simp only:)
    moreover have "join_left cond False width right cols (b # bs) None acc = (Inr r, (left, None), lb, li', ri')"
      using batch(1) False ih(1) by simp
    ultimately show ?thesis by blast
  qed
qed

definition join_right :: "nl_join_op \<Rightarrow> row list" where
  "join_right s = (case jo_right_data s of Some rows \<Rightarrow> rows | None \<Rightarrow> stream_rows (jo_right s))"

definition join_pending :: "platform \<Rightarrow> 'q plan_expression option \<Rightarrow> nl_join_op \<Rightarrow> row list" where
  "join_pending pl condition s =
     (let cond = join_condition pl condition (jo_columns s) in
      partial_matches cond (join_right s) (jo_left_batch s) (jo_left_idx s) (jo_right_idx s)
        @ rows_matches cond (join_right s) (stream_rows (jo_left s)))"

definition join_good :: "platform \<Rightarrow> 'q plan_expression option \<Rightarrow> nl_join_op \<Rightarrow> bool" where
  "join_good pl condition s \<longleftrightarrow>
     jo_type s \<noteq> JtLeft \<and> snd (jo_left s) = None \<and> (jo_right_data s = None \<longrightarrow> snd (jo_right s) = None)
     \<and> decides (join_condition pl condition (jo_columns s)) (stream_rows (jo_left s)) (join_right s)
     \<and> (\<forall>b. jo_left_batch s = Some b \<longrightarrow>
          decides (join_condition pl condition (jo_columns s)) (rb_rows b) (join_right s) \<and> jo_right_idx s \<le> length (join_right s))"

lemma decides_drop_left: "decides cond ls rs \<Longrightarrow> decides cond (drop n ls) rs"
  by (auto simp: decides_def dest: in_set_dropD)

text \<open>The part of a call after the right side is there.\<close>

lemma join_inner_call:
  assumes "join_good pl condition s"
  shows "\<exists>r left lb li ri. join_next pl condition s
        = (Inr r, s\<lparr>jo_left := (left, None), jo_right_data := Some (join_right s), jo_left_batch := lb, jo_left_idx := li, jo_right_idx := ri\<rparr>)
    \<and> inner_ok (join_condition pl condition (jo_columns s)) (join_right s) (jo_columns s) (join_pending pl condition s) r left lb li ri"
proof -
  let ?cond = "join_condition pl condition (jo_columns s)"
  let ?right = "join_right s"
  obtain bs where left: "jo_left s = (bs, None)" using assms by (cases "jo_left s") (simp add: join_good_def)
  have collect: "(case jo_right_data s of Some rows \<Rightarrow> Inr rows | None \<Rightarrow> collect_rows (jo_right s)) = Inr ?right"
    using assms by (auto simp: join_good_def join_right_def split: option.splits)
  have d: "decides ?cond (concat (map rb_rows bs)) ?right" using assms left by (simp add: join_good_def stream_rows_def)
  have rows: "stream_rows (jo_left s) = concat (map rb_rows bs)" by (simp add: left stream_rows_def)
  have inner: "(jo_type s = JtLeft) = False" using assms by (simp add: join_good_def)
  show ?thesis
  proof (cases "jo_left_batch s")
    case None
    have "length ([] :: row list) < 1024" by simp
    from join_left_inner [OF d this, of "jo_right_cols s" "jo_columns s"] obtain r left' lb li ri where
      "join_left ?cond False (jo_right_cols s) ?right (jo_columns s) bs None [] = (Inr r, (left', None), lb, li, ri)"
      "inner_ok ?cond ?right (jo_columns s) (rows_matches ?cond ?right (concat (map rb_rows bs))) r left' lb li ri" by auto
    moreover have "join_pending pl condition s = rows_matches ?cond ?right (concat (map rb_rows bs))"
      by (simp add: join_pending_def Let_def rows None partial_matches_def)
    ultimately show ?thesis by (auto simp: join_next_def collect Let_def inner None left)
  next
    case (Some b)
    let ?ls = "drop (jo_left_idx s) (rb_rows b)"
    have b: "decides ?cond ?ls ?right" "jo_right_idx s \<le> length ?right"
      using assms Some decides_drop_left by (auto simp: join_good_def)
    have "length ([] :: row list) < 1024" by simp
    from join_batch_inner [OF b(1) this b(2), of "jo_right_cols s" "jo_left_idx s"] obtain full li ri acc where
      batch: "join_batch ?cond False (jo_right_cols s) ?right ?ls (jo_left_idx s) (jo_right_idx s) [] = Inr (full, li, ri, acc)"
        "\<not> full \<longrightarrow> acc = batch_matches ?cond ?right ?ls (jo_right_idx s) \<and> length acc < 1024"
        "full \<longrightarrow> acc @ batch_matches ?cond ?right (drop (li - jo_left_idx s) ?ls) ri = batch_matches ?cond ?right ?ls (jo_right_idx s)
           \<and> length acc = 1024 \<and> jo_left_idx s \<le> li \<and> ri \<le> length ?right"
      by auto
    have pend: "join_pending pl condition s
        = batch_matches ?cond ?right ?ls (jo_right_idx s) @ rows_matches ?cond ?right (concat (map rb_rows bs))"
      by (simp add: join_pending_def Let_def rows Some partial_matches_def)
    show ?thesis
    proof (cases full)
      case True
      then have full: "acc @ batch_matches ?cond ?right (drop li (rb_rows b)) ri = batch_matches ?cond ?right ?ls (jo_right_idx s)"
          "acc \<noteq> []" "ri \<le> length ?right" using batch(3) by auto
      have dd: "decides ?cond (rb_rows b) ?right" using assms Some by (simp add: join_good_def)
      have "inner_ok ?cond ?right (jo_columns s) (join_pending pl condition s) (Some (batch (jo_columns s) acc)) bs (Some b) li ri"
        unfolding pend full(1) [symmetric] using full(2,3) d dd by (simp add: inner_ok_def partial_matches_def)
      moreover have "join_next pl condition s = (Inr (Some (batch (jo_columns s) acc)),
          s\<lparr>jo_left := (bs, None), jo_right_data := Some ?right, jo_left_batch := Some b, jo_left_idx := li, jo_right_idx := ri\<rparr>)"
        using batch(1) True by (simp add: join_next_def collect Let_def inner Some left)
      ultimately show ?thesis by blast
    next
      case False
      then have acc: "acc = batch_matches ?cond ?right ?ls (jo_right_idx s)" "length acc < 1024" using batch(2) by blast+
      from join_left_inner [OF d acc(2), of "jo_right_cols s" "jo_columns s"] obtain r left' lb li' ri' where
        jl: "join_left ?cond False (jo_right_cols s) ?right (jo_columns s) bs None acc = (Inr r, (left', None), lb, li', ri')"
        "inner_ok ?cond ?right (jo_columns s) (acc @ rows_matches ?cond ?right (concat (map rb_rows bs))) r left' lb li' ri'" by blast
      have "join_next pl condition s = (Inr r,
          s\<lparr>jo_left := (left', None), jo_right_data := Some ?right, jo_left_batch := lb, jo_left_idx := li', jo_right_idx := ri'\<rparr>)"
        using batch(1) False jl(1) by (simp add: join_next_def collect Let_def inner Some left)
      then show ?thesis using jl(2) acc(1) pend by auto
    qed
  qed
qed

interpretation nl_join_op: rows_operator "join_next pl condition" "join_good pl condition"
    "\<lambda>s. length (join_pending pl condition s)" "join_pending pl condition" "\<lambda>s. None" jo_columns for pl condition
proof (rule rows_operatorI)
  fix s
  assume good: "join_good pl condition s"
  from join_inner_call [OF this] obtain r left lb li ri where
    call: "join_next pl condition s = (Inr r, s\<lparr>jo_left := (left, None), jo_right_data := Some (join_right s),
        jo_left_batch := lb, jo_left_idx := li, jo_right_idx := ri\<rparr>)"
    "inner_ok (join_condition pl condition (jo_columns s)) (join_right s) (jo_columns s) (join_pending pl condition s) r left lb li ri"
    by blast
  let ?s' = "s\<lparr>jo_left := (left, None), jo_right_data := Some (join_right s), jo_left_batch := lb, jo_left_idx := li, jo_right_idx := ri\<rparr>"
  have fields: "join_right ?s' = join_right s" "jo_columns ?s' = jo_columns s" "jo_left ?s' = (left, None)" by (simp_all add: join_right_def)
  show "step_ok (join_good pl condition) (\<lambda>s. length (join_pending pl condition s)) (join_pending pl condition) (\<lambda>s. None) jo_columns s
      (join_next pl condition s)"
  proof (cases r)
    case None
    then show ?thesis using call by (simp add: step_ok_def inner_ok_def)
  next
    case (Some b)
    have pend: "join_pending pl condition ?s' = partial_matches (join_condition pl condition (jo_columns s)) (join_right s) lb li ri
        @ rows_matches (join_condition pl condition (jo_columns s)) (join_right s) (concat (map rb_rows left))"
      by (simp only: join_pending_def fields Let_def) (simp add: stream_rows_def)
    have ok: "rb_columns b = jo_columns s" "rb_rows b \<noteq> []" "join_pending pl condition s = rb_rows b @ join_pending pl condition ?s'"
      unfolding pend using call(2) Some by (simp_all add: inner_ok_def)
    have "join_good pl condition ?s'"
      using good call(2) Some unfolding join_good_def [of _ _ ?s'] fields
      by (auto simp: inner_ok_def stream_rows_def join_good_def)
    moreover have "length (join_pending pl condition ?s') < length (join_pending pl condition s)"
      unfolding ok(3) using ok(2) by (cases "rb_rows b") auto
    ultimately show ?thesis unfolding call(1) Some using ok by (simp add: step_ok_def)
  qed
qed

text \<open>Joins whose result is smaller than a batch, outer ones and hash joins included.\<close>

definition joined_rows :: "(row \<Rightarrow> row \<Rightarrow> bool exec_result) \<Rightarrow> bool \<Rightarrow> nat \<Rightarrow> (row \<Rightarrow> row list) \<Rightarrow> row list \<Rightarrow> row list" where
  "joined_rows cond outer width cands ls = concat (map (\<lambda>l. joined cond outer width l (cands l)) ls)"

definition decides_each :: "(row \<Rightarrow> row \<Rightarrow> bool exec_result) \<Rightarrow> (row \<Rightarrow> row list) \<Rightarrow> row list \<Rightarrow> bool" where
  "decides_each cond cands ls \<longleftrightarrow> (\<forall>l \<in> set ls. decides cond [l] (cands l))"

lemma joined_rows_simps [simp]:
  "joined_rows cond outer width cands [] = []"
  "joined_rows cond outer width cands (l # ls) = joined cond outer width l (cands l) @ joined_rows cond outer width cands ls"
  "joined_rows cond outer width cands (ls @ ls') = joined_rows cond outer width cands ls @ joined_rows cond outer width cands ls'"
  by (simp_all add: joined_rows_def)

lemma join_row_small:
  assumes "decides cond [l] rs" "length acc + length (joined cond outer width l rs) < 1024"
  shows "\<exists>i' acc' m'. join_row (cond l) l rs i acc False = Inr (False, i', acc', m')
    \<and> (if \<not> m' \<and> outer then acc' @ [l @ replicate width VNull] else acc') = acc @ joined cond outer width l rs"
proof -
  have less: "length acc + length (matches cond l rs) < 1024" "length acc < 1024"
    using assms(2) by (auto simp: joined_def split: if_splits)
  from join_row_ok [OF assms(1) less(2), of i False] obtain full i' acc' m' where
    row: "join_row (cond l) l rs i acc False = Inr (full, i', acc', m')"
      "acc' @ matches cond l (drop (i' - i) rs) = acc @ matches cond l rs"
      "full \<longrightarrow> length acc' = 1024" "\<not> full \<longrightarrow> i' = i + length rs \<and> (m' \<longleftrightarrow> matches cond l rs \<noteq> [])"
    by auto
  have "length acc' \<le> length acc + length (matches cond l rs)"
    using arg_cong [OF row(2), of length] by simp
  then have "\<not> full" using row(3) less(1) by auto
  then show ?thesis using row by (auto simp: joined_def)
qed

lemma hash_join_batch_small:
  "decides_each cond cands ls \<Longrightarrow> length acc + length (joined_rows cond outer width cands ls) < 1024 \<Longrightarrow>
    hash_join_batch cond outer width cands ls acc = Inr (False, acc @ joined_rows cond outer width cands ls)"
proof (induction ls arbitrary: acc)
  case (Cons l ls)
  have d: "decides cond [l] (cands l)" "decides_each cond cands ls" using Cons.prems(1) by (auto simp: decides_each_def)
  have small: "length acc + length (joined cond outer width l (cands l)) < 1024" using Cons.prems(2) by simp
  from join_row_small [OF d(1) small, of 0] obtain i' acc' m' where
    row: "join_row (cond l) l (cands l) 0 acc False = Inr (False, i', acc', m')"
      "(if \<not> m' \<and> outer then acc' @ [l @ replicate width VNull] else acc') = acc @ joined cond outer width l (cands l)" by blast
  have "hash_join_batch cond outer width cands (l # ls) acc
      = hash_join_batch cond outer width cands ls (if \<not> m' \<and> outer then acc' @ [l @ replicate width VNull] else acc')"
    by (simp only: hash_join_batch.simps row(1) bind_res_simps Let_def case_prod_conv if_False)
  then show ?case
    unfolding row(2) using Cons.IH [OF d(2), of "acc @ joined cond outer width l (cands l)"] Cons.prems(2) by simp
qed simp

lemma join_batch_small:
  "decides_each cond (\<lambda>_. right) ls \<Longrightarrow> length acc + length (joined_rows cond outer width (\<lambda>_. right) ls) < 1024 \<Longrightarrow>
    join_batch cond outer width right ls li 0 acc = Inr (False, li + length ls, 0, acc @ joined_rows cond outer width (\<lambda>_. right) ls)"
proof (induction ls arbitrary: acc li)
  case (Cons l ls)
  have d: "decides cond [l] right" "decides_each cond (\<lambda>_. right) ls" using Cons.prems(1) by (auto simp: decides_each_def)
  have small: "length acc + length (joined cond outer width l right) < 1024" using Cons.prems(2) by simp
  from join_row_small [OF d(1) small, of 0] obtain i' acc' m' where
    row: "join_row (cond l) l right 0 acc False = Inr (False, i', acc', m')"
      "(if \<not> m' \<and> outer then acc' @ [l @ replicate width VNull] else acc') = acc @ joined cond outer width l right" by blast
  show ?case
    using Cons.IH [OF d(2), of "acc @ joined cond outer width l right" "li + 1"] Cons.prems(2) row
    by (simp add: Let_def del: bind_res_Inr)
qed simp

lemma decides_each_append: "decides_each cond cands (xs @ ys) \<longleftrightarrow> decides_each cond cands xs \<and> decides_each cond cands ys"
  by (auto simp: decides_each_def)

lemma join_left_small:
  "decides_each cond (\<lambda>_. right) (concat (map rb_rows bs)) \<Longrightarrow>
    length acc + length (joined_rows cond outer width (\<lambda>_. right) (concat (map rb_rows bs))) < 1024 \<Longrightarrow>
    join_left cond outer width right cols bs None acc
      = (Inr (if acc @ joined_rows cond outer width (\<lambda>_. right) (concat (map rb_rows bs)) = [] then None
              else Some (batch cols (acc @ joined_rows cond outer width (\<lambda>_. right) (concat (map rb_rows bs))))),
         ([], None), None, 0, 0)"
proof (induction bs arbitrary: acc)
  case (Cons b bs)
  have "join_batch cond outer width right (rb_rows b) 0 0 acc
      = Inr (False, length (rb_rows b), 0, acc @ joined_rows cond outer width (\<lambda>_. right) (rb_rows b))"
    using Cons.prems join_batch_small [of cond right "rb_rows b" acc outer width 0] by (simp add: decides_each_append)
  then show ?case using Cons.IH [of "acc @ joined_rows cond outer width (\<lambda>_. right) (rb_rows b)"] Cons.prems
    by (simp add: decides_each_append)
qed simp

lemma hash_join_left_small:
  "decides_each cond cands (concat (map rb_rows bs)) \<Longrightarrow>
    length acc + length (joined_rows cond outer width cands (concat (map rb_rows bs))) < 1024 \<Longrightarrow>
    hash_join_left cond outer width cands cols bs None acc
      = (Inr (if acc @ joined_rows cond outer width cands (concat (map rb_rows bs)) = [] then None
              else Some (batch cols (acc @ joined_rows cond outer width cands (concat (map rb_rows bs))))),
         ([], None), True)"
proof (induction bs arbitrary: acc)
  case (Cons b bs)
  have "hash_join_batch cond outer width cands (rb_rows b) acc
      = Inr (False, acc @ joined_rows cond outer width cands (rb_rows b))"
    using Cons.prems hash_join_batch_small [of cond cands "rb_rows b" acc outer width] by (simp add: decides_each_append)
  then show ?case using Cons.IH [of "acc @ joined_rows cond outer width cands (rb_rows b)"] Cons.prems
    by (simp add: decides_each_append)
qed simp

text \<open>Such a join hands out its whole result in one batch.\<close>

lemma drain_one:
  assumes "nxt s = (Inr (if rows = [] then None else Some (batch cols rows)), s')" "fst (nxt s') = Inr None"
  shows "\<exists>t. drain nxt s = Some t \<and> stream_rows t = rows \<and> snd t = None \<and> (\<forall>b \<in> set (fst t). rb_columns b = cols)"
proof (cases "rows = []")
  case True
  then show ?thesis using assms(1) by (subst drain.simps) (simp add: stream_rows_def)
next
  case False
  have "drain nxt s' = Some ([], None)" using assms(2) by (subst drain.simps) (cases "nxt s'"; simp)
  then show ?thesis using False assms(1) by (subst drain.simps) (simp add: stream_rows_def)
qed

lemma join_small:
  assumes "jo_left_batch s = None" "jo_right_data s = None" "snd (jo_left s) = None" "snd (jo_right s) = None"
    and "decides_each (join_condition pl condition (jo_columns s)) (\<lambda>_. stream_rows (jo_right s)) (stream_rows (jo_left s))"
    and "length (joined_rows (join_condition pl condition (jo_columns s)) (jo_type s = JtLeft) (jo_right_cols s)
           (\<lambda>_. stream_rows (jo_right s)) (stream_rows (jo_left s))) < 1024"
  shows "\<exists>t. drain (join_next pl condition) s = Some t \<and> snd t = None \<and> (\<forall>b \<in> set (fst t). rb_columns b = jo_columns s)
    \<and> stream_rows t = joined_rows (join_condition pl condition (jo_columns s)) (jo_type s = JtLeft) (jo_right_cols s)
        (\<lambda>_. stream_rows (jo_right s)) (stream_rows (jo_left s))"
proof -
  let ?right = "stream_rows (jo_right s)"
  let ?rows = "joined_rows (join_condition pl condition (jo_columns s)) (jo_type s = JtLeft) (jo_right_cols s) (\<lambda>_. ?right) (stream_rows (jo_left s))"
  let ?s' = "s\<lparr>jo_left := ([], None), jo_right_data := Some ?right, jo_left_batch := None, jo_left_idx := 0, jo_right_idx := 0\<rparr>"
  obtain bs where left: "jo_left s = (bs, None)" using assms(3) by (cases "jo_left s") simp
  have collect: "collect_rows (jo_right s) = Inr ?right" using assms(4) by simp
  have "join_next pl condition s = (Inr (if ?rows = [] then None else Some (batch (jo_columns s) ?rows)), ?s')"
    using join_left_small [of "join_condition pl condition (jo_columns s)" ?right bs "[]" "jo_type s = JtLeft" "jo_right_cols s" "jo_columns s"]
      assms(5,6)
    by (simp add: join_next_def assms(1,2) collect left stream_rows_def Let_def)
  moreover have "fst (join_next pl condition ?s') = Inr None" by (simp add: join_next_def Let_def)
  ultimately show ?thesis using drain_one [of "join_next pl condition" s ?rows "jo_columns s" ?s'] by blast
qed

lemma hash_join_small:
  assumes "\<not> ho_done s" "snd (ho_left s) = None"
    and "decides_each (join_condition pl condition (ho_columns s)) (candidates pl s) (stream_rows (ho_left s))"
    and "length (joined_rows (join_condition pl condition (ho_columns s)) (ho_type s = JtLeft) (ho_right_cols s)
           (candidates pl s) (stream_rows (ho_left s))) < 1024"
  shows "\<exists>t. drain (hash_join_next pl condition) s = Some t \<and> snd t = None \<and> (\<forall>b \<in> set (fst t). rb_columns b = ho_columns s)
    \<and> stream_rows t = joined_rows (join_condition pl condition (ho_columns s)) (ho_type s = JtLeft) (ho_right_cols s)
        (candidates pl s) (stream_rows (ho_left s))"
proof -
  let ?rows = "joined_rows (join_condition pl condition (ho_columns s)) (ho_type s = JtLeft) (ho_right_cols s) (candidates pl s) (stream_rows (ho_left s))"
  let ?s' = "s\<lparr>ho_left := ([], None), ho_done := True\<rparr>"
  obtain bs where left: "ho_left s = (bs, None)" using assms(2) by (cases "ho_left s") simp
  have "hash_join_next pl condition s = (Inr (if ?rows = [] then None else Some (batch (ho_columns s) ?rows)), ?s')"
    using hash_join_left_small [of "join_condition pl condition (ho_columns s)" "candidates pl s" bs "[]" "ho_type s = JtLeft"
        "ho_right_cols s" "ho_columns s"] assms(3,4)
    by (simp add: hash_join_next_def assms(1) left stream_rows_def)
  moreover have "fst (hash_join_next pl condition ?s') = Inr None" by (simp add: hash_join_next_def)
  ultimately show ?thesis using drain_one [of "hash_join_next pl condition" s ?rows "ho_columns s" ?s'] by blast
qed

lemma hash_table_lookup:
  "hm_get_or (foldl (hash_table_insert pl (Some j)) m rows) key [] = hm_get_or m key [] @ filter (\<lambda>r. join_hash_key pl j r = key) rows"
proof (induction rows arbitrary: m)
  case (Cons r rows)
  have "hm_get_or (hash_table_insert pl (Some j) m r) key [] = hm_get_or m key [] @ (if join_hash_key pl j r = key then [r] else [])"
    by (auto simp: hash_table_insert_def hm_get_or_insert Let_def)
  then show ?case using Cons.IH by simp
qed simp

end
