(* ===== verification/SqlContext.thy ===== *)
theory SqlContext
  imports SqlOps SqlIndex
begin

text \<open>
  The execution context (\<^verbatim>\<open>aegis-query/src/executor.rs\<close>, \<^verbatim>\<open>ExecutionContext\<close>): tables with
  versioned rows, their schemas, the secondary indexes, and the statements that change them.

  A table behind its lock is a field of the context.  A statement gives the new context and a result;
  where the source can index a vector out of range the result is an \<open>option\<close>, and \<open>None\<close> is the
  panic.  The reference count of an index manager is one whenever a statement changes it, as long as no
  caller keeps the handle that \<^verbatim>\<open>get_index_manager\<close> gives out.
\<close>

section \<open>State\<close>

record column_schema =
  csc_name :: string
  csc_data_type :: data_type
  csc_nullable :: bool
  csc_default :: "sql_value option"

datatype stored_constraint_type =
    ScPrimaryKey "string list"
  | ScUnique "string list"
  | ScForeignKey "string list" string "string list"
  | ScCheck string

record stored_constraint =
  stc_name :: string
  stc_type :: stored_constraint_type

record table_schema =
  tsc_name :: string
  tsc_columns :: "column_schema list"
  tsc_primary_key :: "string list option"
  tsc_constraints :: "stored_constraint list"

record index_schema =
  xsc_name :: string
  xsc_table :: string
  xsc_columns :: "string list"
  xsc_unique :: bool

record exec_context =
  xc_tables :: "(string, table_data) hmap"
  xc_schemas :: "(string, table_schema) hmap"
  xc_indexes :: "(string, index_schema list) hmap"
  xc_table_indexes :: "(string, index_manager) hmap"
  xc_batch_size :: nat
  xc_clock :: u64
  xc_snapshot :: "u64 option"

record context_snapshot =
  xsn_tables :: "table_data list"
  xsn_schemas :: "table_schema list"
  xsn_indexes :: "(string, index_schema list) hmap"

definition xc_new :: exec_context where
  "xc_new =
     \<lparr>xc_tables = [], xc_schemas = [], xc_indexes = [], xc_table_indexes = [], xc_batch_size = 1024,
      xc_clock = 1, xc_snapshot = None\<rparr>"

definition begin_snapshot :: "exec_context \<Rightarrow> exec_context" where
  "begin_snapshot c = c\<lparr>xc_snapshot := Some (xc_clock c)\<rparr>"

definition commit_snapshot :: "exec_context \<Rightarrow> exec_context" where
  "commit_snapshot c = c\<lparr>xc_clock := xc_clock c + 1, xc_snapshot := None\<rparr>"

definition rollback_snapshot :: "exec_context \<Rightarrow> exec_context" where
  "rollback_snapshot c = c\<lparr>xc_snapshot := None\<rparr>"

definition current_version :: "exec_context \<Rightarrow> u64" where
  "current_version c = xc_clock c"

definition is_row_visible :: "exec_context \<Rightarrow> table_data \<Rightarrow> nat \<Rightarrow> bool" where
  "is_row_visible c t i = version_visible (xc_snapshot c) (version_at (td_created t) i) (version_at (td_deleted t) i)"

definition with_batch_size :: "nat \<Rightarrow> exec_context \<Rightarrow> exec_context" where
  "with_batch_size n c = c\<lparr>xc_batch_size := n\<rparr>"

definition add_table :: "table_data \<Rightarrow> exec_context \<Rightarrow> exec_context" where
  "add_table t c = c\<lparr>xc_tables := hm_insert (td_name t) t (xc_tables c)\<rparr>"

definition get_table :: "exec_context \<Rightarrow> string \<Rightarrow> table_data option" where
  "get_table c name = hm_get (xc_tables c) name"

definition get_index_manager :: "exec_context \<Rightarrow> string \<Rightarrow> index_manager option" where
  "get_index_manager c name = hm_get (xc_table_indexes c) name"

definition get_indexes :: "exec_context \<Rightarrow> string \<Rightarrow> index_schema list option" where
  "get_indexes c name = hm_get (xc_indexes c) name"

definition get_table_schema :: "exec_context \<Rightarrow> string \<Rightarrow> table_schema option" where
  "get_table_schema c name = hm_get (xc_schemas c) name"

definition list_tables :: "exec_context \<Rightarrow> string list" where
  "list_tables c = hm_keys (xc_tables c)"

definition put_table :: "string \<Rightarrow> table_data \<Rightarrow> exec_context \<Rightarrow> exec_context" where
  "put_table name t c = c\<lparr>xc_tables := hm_insert name t (xc_tables c)\<rparr>"

section \<open>Definition of tables\<close>

definition in_quotes :: "string \<Rightarrow> string" where
  "in_quotes s = [CHR 0x27] @ s @ [CHR 0x27]"

definition create_table :: "string \<Rightarrow> column_schema list \<Rightarrow> string list option \<Rightarrow> stored_constraint list \<Rightarrow> bool
    \<Rightarrow> exec_context \<Rightarrow> exec_context \<times> unit exec_result" where
  "create_table name columns primary_key constraints if_not_exists c =
     (if hm_contains (xc_tables c) name then
        (c, if if_not_exists then Inr () else Inl (InvalidOperation (''Table '' @ in_quotes name @ '' already exists'')))
      else
        (c\<lparr>xc_schemas := hm_insert name
               \<lparr>tsc_name = name, tsc_columns = columns, tsc_primary_key = primary_key, tsc_constraints = constraints\<rparr> (xc_schemas c),
           xc_tables := hm_insert name
               \<lparr>td_name = name, td_columns = map csc_name columns, td_rows = [], td_created = [], td_deleted = []\<rparr> (xc_tables c)\<rparr>,
         Inr ()))"

definition drop_table :: "string \<Rightarrow> bool \<Rightarrow> exec_context \<Rightarrow> exec_context \<times> unit exec_result" where
  "drop_table name if_exists c =
     (if \<not> hm_contains (xc_tables c) name then (c, if if_exists then Inr () else Inl (TableNotFound name))
      else
        (c\<lparr>xc_tables := hm_remove name (xc_tables c), xc_schemas := hm_remove name (xc_schemas c),
           xc_indexes := hm_remove name (xc_indexes c)\<rparr>,
         Inr ()))"

text \<open>\<^verbatim>\<open>find\<close> for a change in place: the first column of the name.\<close>

fun change_column :: "string \<Rightarrow> (column_schema \<Rightarrow> column_schema) \<Rightarrow> column_schema list \<Rightarrow> column_schema list" where
  "change_column name f [] = []"
| "change_column name f (col # cols) = (if csc_name col = name then f col # cols else col # change_column name f cols)"

definition remove_nth :: "nat \<Rightarrow> 'a list \<Rightarrow> 'a list" where
  "remove_nth i xs = take i xs @ drop (Suc i) xs"

text \<open>The rows of a table are changed only when the table is there.\<close>

definition change_rows :: "string \<Rightarrow> (row \<Rightarrow> row) \<Rightarrow> exec_context \<Rightarrow> exec_context" where
  "change_rows name f c =
     (case hm_get (xc_tables c) name of None \<Rightarrow> c
      | Some t \<Rightarrow> put_table name (t\<lparr>td_rows := map f (td_rows t)\<rparr>) c)"

definition put_schema :: "string \<Rightarrow> table_schema \<Rightarrow> exec_context \<Rightarrow> exec_context" where
  "put_schema name s c = c\<lparr>xc_schemas := hm_insert name s (xc_schemas c)\<rparr>"

definition column_not_found :: "table_schema \<Rightarrow> string list \<Rightarrow> executor_error option" where
  "column_not_found s cols = map_option ColumnNotFound (find (\<lambda>c. c \<notin> set (map csc_name (tsc_columns s))) cols)"

text \<open>A new constraint: an error, or the schema, the suffix of its name and what is stored.  \<open>show_expr\<close> is
  the debugging text of an expression.\<close>

definition new_constraint :: "(expression \<Rightarrow> string) \<Rightarrow> string \<Rightarrow> table_schema \<Rightarrow> expression create_table_constraint
    \<Rightarrow> (table_schema \<times> string \<times> stored_constraint_type) exec_result" where
  "new_constraint show_expr name s k =
     (case k of
        TcPrimaryKey columns \<Rightarrow>
          if tsc_primary_key s \<noteq> None then Inl (InvalidOperation (''Table '' @ in_quotes name @ '' already has a primary key''))
          else Inr (s\<lparr>tsc_primary_key := Some columns\<rparr>, ''pk'', ScPrimaryKey columns)
      | TcUnique columns \<Rightarrow>
          (case column_not_found s columns of Some e \<Rightarrow> Inl e | None \<Rightarrow> Inr (s, ''uq'', ScUnique columns))
      | TcForeignKey columns ref_table ref_columns \<Rightarrow>
          (case column_not_found s columns of Some e \<Rightarrow> Inl e
           | None \<Rightarrow> Inr (s, ''fk'', ScForeignKey columns ref_table ref_columns))
      | TcCheck e \<Rightarrow> Inr (s, ''ck'', ScCheck (show_expr e)))"

definition alter_add_column :: "platform \<Rightarrow> string \<Rightarrow> table_schema \<Rightarrow> expression create_column_def
    \<Rightarrow> exec_context \<Rightarrow> exec_context \<times> unit exec_result" where
  "alter_add_column pl name s col c =
     (if cd_name col \<in> set (map csc_name (tsc_columns s)) then
        (c, Inl (InvalidOperation (''Column '' @ in_quotes (cd_name col) @ '' already exists in table '' @ in_quotes name)))
      else
        case opt_res (evaluate_default pl) (cd_default col) of
          Inl e \<Rightarrow> (c, Inl e)
        | Inr dflt \<Rightarrow>
            (change_rows name (\<lambda>r. r @ [case dflt of Some v \<Rightarrow> v | None \<Rightarrow> VNull])
               (put_schema name (s\<lparr>tsc_columns := tsc_columns s @
                  [\<lparr>csc_name = cd_name col, csc_data_type = cd_data_type col, csc_nullable = cd_nullable col,
                    csc_default = dflt\<rparr>]\<rparr>) c),
             Inr ()))"

definition alter_drop_column :: "string \<Rightarrow> table_schema \<Rightarrow> string \<Rightarrow> bool \<Rightarrow> exec_context \<Rightarrow> exec_context \<times> unit exec_result" where
  "alter_drop_column name s col if_exists c =
     (case position col (map csc_name (tsc_columns s)) of
        Some i \<Rightarrow>
          (change_rows name (\<lambda>r. if i < length r then remove_nth i r else r)
             (put_schema name (s\<lparr>tsc_columns := remove_nth i (tsc_columns s)\<rparr>) c), Inr ())
      | None \<Rightarrow> (c, if if_exists then Inr () else Inl (ColumnNotFound col)))"

text \<open>The type and the nullability are changed before the new default is evaluated.\<close>

definition alter_column :: "platform \<Rightarrow> string \<Rightarrow> table_schema \<Rightarrow> string \<Rightarrow> data_type option \<Rightarrow> bool option
    \<Rightarrow> expression option option \<Rightarrow> exec_context \<Rightarrow> exec_context \<times> unit exec_result" where
  "alter_column pl name s col ty not_null dflt c =
     (if col \<notin> set (map csc_name (tsc_columns s)) then (c, Inl (ColumnNotFound col))
      else
        let f = (\<lambda>k. k\<lparr>csc_data_type := (case ty of Some t \<Rightarrow> t | None \<Rightarrow> csc_data_type k),
                      csc_nullable := (case not_null of Some b \<Rightarrow> \<not> b | None \<Rightarrow> csc_nullable k)\<rparr>);
            put = (\<lambda>g. put_schema name (s\<lparr>tsc_columns := change_column col g (tsc_columns s)\<rparr>) c)
        in case dflt of
             None \<Rightarrow> (put f, Inr ())
           | Some d \<Rightarrow>
               (case opt_res (evaluate_default pl) d of
                  Inl e \<Rightarrow> (put f, Inl e)
                | Inr v \<Rightarrow> (put (\<lambda>k. (f k)\<lparr>csc_default := v\<rparr>), Inr ())))"

definition rename_key :: "string \<Rightarrow> string \<Rightarrow> ('v \<Rightarrow> 'v) \<Rightarrow> (string, 'v) hmap \<Rightarrow> (string, 'v) hmap" where
  "rename_key old new f m = (case hm_get m old of None \<Rightarrow> m | Some v \<Rightarrow> hm_insert new (f v) (hm_remove old m))"

definition alter_rename_table :: "string \<Rightarrow> string \<Rightarrow> exec_context \<Rightarrow> exec_context" where
  "alter_rename_table name new c =
     c\<lparr>xc_tables := rename_key name new (\<lambda>t. t) (xc_tables c),
       xc_schemas := rename_key name new (\<lambda>s. s\<lparr>tsc_name := new\<rparr>) (xc_schemas c),
       xc_indexes := rename_key name new (\<lambda>x. x) (xc_indexes c)\<rparr>"

definition alter_add_constraint :: "(expression \<Rightarrow> string) \<Rightarrow> string \<Rightarrow> table_schema \<Rightarrow> expression create_table_constraint
    \<Rightarrow> exec_context \<Rightarrow> exec_context \<times> unit exec_result" where
  "alter_add_constraint show_expr name s k c =
     (case (case k of TcForeignKey _ ref_table _ \<Rightarrow> if hm_contains (xc_schemas c) ref_table then None else Some ref_table | _ \<Rightarrow> None) of
        Some ref_table \<Rightarrow> (c, Inl (TableNotFound ref_table))
      | None \<Rightarrow>
          (case new_constraint show_expr name s k of
             Inl e \<Rightarrow> (c, Inl e)
           | Inr (s', suffix, ty) \<Rightarrow>
               (put_schema name (s'\<lparr>tsc_constraints := tsc_constraints s' @
                  [\<lparr>stc_name = name @ ''_'' @ suffix @ nat_to_string (length (tsc_constraints s) + 1), stc_type = ty\<rparr>]\<rparr>) c, Inr ())))"

definition alter_drop_constraint :: "string \<Rightarrow> table_schema \<Rightarrow> string \<Rightarrow> exec_context \<Rightarrow> exec_context \<times> unit exec_result" where
  "alter_drop_constraint name s k c =
     (case position k (map stc_name (tsc_constraints s)) of
        Some i \<Rightarrow>
          (let s' = s\<lparr>tsc_constraints := remove_nth i (tsc_constraints s)\<rparr>;
               s'' = (case stc_type (tsc_constraints s ! i) of ScPrimaryKey _ \<Rightarrow> s'\<lparr>tsc_primary_key := None\<rparr> | _ \<Rightarrow> s')
           in (put_schema name s'' c, Inr ()))
      | None \<Rightarrow> (c, Inl (InvalidOperation (''Constraint '' @ in_quotes k @ '' not found on table '' @ in_quotes name))))"

definition alter_table :: "platform \<Rightarrow> (expression \<Rightarrow> string) \<Rightarrow> string \<Rightarrow> expression plan_alter_operation
    \<Rightarrow> exec_context \<Rightarrow> exec_context \<times> unit exec_result" where
  "alter_table pl show_expr name op c =
     (case hm_get (xc_schemas c) name of
        None \<Rightarrow> (c, Inl (TableNotFound name))
      | Some s \<Rightarrow>
          (case op of
             AlAddColumn col \<Rightarrow> alter_add_column pl name s col c
           | AlDropColumn col if_exists \<Rightarrow> alter_drop_column name s col if_exists c
           | AlRenameColumn old new \<Rightarrow>
               if old \<notin> set (map csc_name (tsc_columns s)) then (c, Inl (ColumnNotFound old))
               else (put_schema name (s\<lparr>tsc_columns := change_column old (\<lambda>k. k\<lparr>csc_name := new\<rparr>) (tsc_columns s)\<rparr>) c, Inr ())
           | AlAlterColumn col ty not_null dflt \<Rightarrow> alter_column pl name s col ty not_null dflt c
           | AlRenameTable new \<Rightarrow> (alter_rename_table name new c, Inr ())
           | AlAddConstraint k \<Rightarrow> alter_add_constraint show_expr name s k c
           | AlDropConstraint k \<Rightarrow> alter_drop_constraint name s k c))"

section \<open>Definition of indexes\<close>

definition index_failed :: "index_error \<Rightarrow> executor_error" where
  "index_failed e = ExecIndexError (index_error_text e)"

text \<open>\<^verbatim>\<open>columns.zip(values)\<close> collected into a map: of two columns of one name the later wins.\<close>

definition column_values_of :: "string list \<Rightarrow> row \<Rightarrow> column_values" where
  "column_values_of columns r = foldl (\<lambda>m (k, v). hm_insert k v m) [] (zip columns r)"

text \<open>The loop that fills a new index stops at the first row it refuses.\<close>

fun fill_index :: "platform \<Rightarrow> string \<Rightarrow> string list \<Rightarrow> string list \<Rightarrow> nat \<Rightarrow> row list \<Rightarrow> index_manager
    \<Rightarrow> index_manager \<times> index_error option" where
  "fill_index pl name columns table_columns i [] m = (m, None)"
| "fill_index pl name columns table_columns i (r # rs) m =
     (case insert_into_index name (build_key pl columns (column_values_of table_columns r)) i m of
        Inl e \<Rightarrow> (m, Some e)
      | Inr m' \<Rightarrow> fill_index pl name columns table_columns (i + 1) rs m')"

definition build_index :: "platform \<Rightarrow> string \<Rightarrow> string list \<Rightarrow> bool \<Rightarrow> table_data \<Rightarrow> index_manager
    \<Rightarrow> index_manager \<times> index_error option" where
  "build_index pl name columns unique t m =
     (case im_create_index name columns unique BTree m of
        Inl e \<Rightarrow> (m, Some e)
      | Inr m' \<Rightarrow> fill_index pl name columns (td_columns t) 0 (td_rows t) m')"

definition rebuild_index :: "platform \<Rightarrow> string \<Rightarrow> string \<Rightarrow> string list \<Rightarrow> bool \<Rightarrow> exec_context
    \<Rightarrow> exec_context \<times> unit exec_result" where
  "rebuild_index pl name table columns unique c =
     (case hm_get (xc_tables c) table of
        None \<Rightarrow> (c, Inl (TableNotFound table))
      | Some t \<Rightarrow>
          (case build_index pl name columns unique t (hm_get_or (xc_table_indexes c) table (im_new table)) of
             (m, e) \<Rightarrow>
               (c\<lparr>xc_table_indexes := hm_insert table m (xc_table_indexes c)\<rparr>,
                case e of None \<Rightarrow> Inr () | Some e \<Rightarrow> Inl (index_failed e))))"

text \<open>The index is recorded before it is filled, and stays recorded when that fails.\<close>

definition create_index :: "platform \<Rightarrow> string \<Rightarrow> string \<Rightarrow> string list \<Rightarrow> bool \<Rightarrow> bool \<Rightarrow> exec_context
    \<Rightarrow> exec_context \<times> unit exec_result" where
  "create_index pl name table columns unique if_not_exists c =
     (if \<not> hm_contains (xc_tables c) table then (c, Inl (TableNotFound table))
      else
        let idxs = hm_get_or (xc_indexes c) table [] in
        if name \<in> set (map xsc_name idxs) then
          (c\<lparr>xc_indexes := hm_insert table idxs (xc_indexes c)\<rparr>,
           if if_not_exists then Inr () else Inl (InvalidOperation (''Index '' @ in_quotes name @ '' already exists'')))
        else
          rebuild_index pl name table columns unique
            (c\<lparr>xc_indexes := hm_insert table
                 (idxs @ [\<lparr>xsc_name = name, xsc_table = table, xsc_columns = columns, xsc_unique = unique\<rparr>]) (xc_indexes c)\<rparr>))"

text \<open>The first table, in the order of the map, that has an index of the name.\<close>

definition drop_index :: "string \<Rightarrow> bool \<Rightarrow> exec_context \<Rightarrow> exec_context \<times> unit exec_result" where
  "drop_index name if_exists c =
     (case find (\<lambda>(tbl, idxs). name \<in> set (map xsc_name idxs)) (xc_indexes c) of
        Some (tbl, idxs) \<Rightarrow>
          (let i = (case position name (map xsc_name idxs) of Some i \<Rightarrow> i | None \<Rightarrow> 0);
               ti = (case hm_get (xc_table_indexes c) tbl of
                       None \<Rightarrow> xc_table_indexes c
                     | Some m \<Rightarrow> (case im_drop_index name m of Inl e \<Rightarrow> xc_table_indexes c
                                  | Inr m' \<Rightarrow> hm_insert tbl m' (xc_table_indexes c)))
           in (c\<lparr>xc_indexes := hm_insert tbl (remove_nth i idxs) (xc_indexes c), xc_table_indexes := ti\<rparr>, Inr ()))
      | None \<Rightarrow> (c, if if_exists then Inr () else Inl (InvalidOperation (''Index '' @ in_quotes name @ '' not found''))))"

section \<open>Saving and loading\<close>

definition to_snapshot :: "exec_context \<Rightarrow> context_snapshot" where
  "to_snapshot c = \<lparr>xsn_tables = hm_values (xc_tables c), xsn_schemas = hm_values (xc_schemas c), xsn_indexes = xc_indexes c\<rparr>"

definition insert_schemas :: "table_schema list \<Rightarrow> exec_context \<Rightarrow> exec_context" where
  "insert_schemas ss c = c\<lparr>xc_schemas := foldl (\<lambda>m s. hm_insert (tsc_name s) s m) (xc_schemas c) ss\<rparr>"

definition insert_tables :: "table_data list \<Rightarrow> exec_context \<Rightarrow> exec_context" where
  "insert_tables ts c = c\<lparr>xc_tables := foldl (\<lambda>m t. hm_insert (td_name t) t m) (xc_tables c) ts\<rparr>"

text \<open>Every index is built again; one that fails is left as far as it came.\<close>

definition rebuild_indexes :: "platform \<Rightarrow> (string, index_schema list) hmap \<Rightarrow> exec_context \<Rightarrow> exec_context" where
  "rebuild_indexes pl indexes c =
     foldl (\<lambda>c (table, idxs). foldl (\<lambda>c x. fst (rebuild_index pl (xsc_name x) table (xsc_columns x) (xsc_unique x) c)) c idxs)
       c indexes"

definition load_snapshot :: "platform \<Rightarrow> context_snapshot \<Rightarrow> exec_context \<Rightarrow> exec_context" where
  "load_snapshot pl s c =
     rebuild_indexes pl (xsn_indexes s)
       ((insert_tables (xsn_tables s) (insert_schemas (xsn_schemas s) c))\<lparr>xc_indexes := xsn_indexes s\<rparr>)"

definition from_snapshot :: "platform \<Rightarrow> context_snapshot \<Rightarrow> exec_context" where
  "from_snapshot pl s = load_snapshot pl s xc_new"

definition restore_from_snapshot :: "platform \<Rightarrow> context_snapshot \<Rightarrow> exec_context \<Rightarrow> exec_context" where
  "restore_from_snapshot pl s c =
     load_snapshot pl s
       (c\<lparr>xc_tables := [], xc_schemas := [], xc_indexes := [], xc_table_indexes := [], xc_snapshot := None\<rparr>)"

text \<open>\<^verbatim>\<open>merge_from_file\<close> after the file is parsed: it builds no index.\<close>

definition merge_snapshot :: "context_snapshot \<Rightarrow> exec_context \<Rightarrow> exec_context" where
  "merge_snapshot s c =
     (let c1 = insert_tables (xsn_tables s) (insert_schemas (xsn_schemas s) c) in
      c1\<lparr>xc_indexes := foldl (\<lambda>m (t, idxs). hm_insert t idxs m) (xc_indexes c1) (xsn_indexes s)\<rparr>)"

section \<open>Insertion\<close>

text \<open>\<open>None\<close>: an index out of range.\<close>

definition pick :: "nat list \<Rightarrow> row \<Rightarrow> row option" where
  "pick idx r = (if \<forall>i \<in> set idx. i < length r then Some (map ((!) r) idx) else None)"

fun fill_row :: "row \<Rightarrow> (nat \<times> sql_value) list \<Rightarrow> row option" where
  "fill_row r [] = Some r"
| "fill_row r ((i, v) # ps) = (if i < length r then fill_row (r[i := v]) ps else None)"

abbreviation same_values :: "row \<Rightarrow> row \<Rightarrow> bool" where
  "same_values \<equiv> list_all2 value_eq"

text \<open>The loop over the visible rows that looks for one with the same values in some columns.\<close>

fun has_same :: "nat list \<Rightarrow> row \<Rightarrow> row list \<Rightarrow> bool option" where
  "has_same idx vals [] = Some False"
| "has_same idx vals (r # rs) =
     (case pick idx r of None \<Rightarrow> None | Some vs \<Rightarrow> if same_values vals vs then Some True else has_same idx vals rs)"

text \<open>What \<^verbatim>\<open>insert_rows\<close> computes from the schema before its loop.\<close>

record row_rules =
  rr_defaults :: row
  rr_not_null :: "nat list"
  rr_primary_key :: "nat list"
  rr_unique :: "nat list list"

definition positions :: "string list \<Rightarrow> string list \<Rightarrow> nat list" where
  "positions columns names = List.map_filter (\<lambda>n. position n columns) names"

definition row_rules_of :: "table_schema \<Rightarrow> string list \<Rightarrow> row_rules" where
  "row_rules_of s columns =
     \<lparr>rr_defaults = map (\<lambda>c. case csc_default c of Some v \<Rightarrow> v | None \<Rightarrow> VNull) (tsc_columns s),
      rr_not_null = filter (\<lambda>i. \<not> csc_nullable (tsc_columns s ! i)) [0..<length (tsc_columns s)],
      rr_primary_key = (case tsc_primary_key s of Some pk \<Rightarrow> positions columns pk | None \<Rightarrow> []),
      rr_unique = List.map_filter (\<lambda>k. case stc_type k of ScUnique cols \<Rightarrow> Some (positions columns cols) | _ \<Rightarrow> None)
        (tsc_constraints s)\<rparr>"

definition not_null_error :: "string list \<Rightarrow> nat \<Rightarrow> executor_error" where
  "not_null_error columns i =
     InvalidOperation (''NOT NULL constraint violated for column '' @ in_quotes (if i < length columns then columns ! i else []))"

text \<open>The unique constraints in order; one with a null among its values is not checked.\<close>

fun check_unique :: "nat list list \<Rightarrow> row \<Rightarrow> row list \<Rightarrow> unit exec_result option" where
  "check_unique [] new rows = Some (Inr ())"
| "check_unique (idx # idxs) new rows =
     (case pick idx new of
        None \<Rightarrow> None
      | Some vals \<Rightarrow>
          if VNull \<in> set vals then check_unique idxs new rows
          else (case has_same idx vals rows of
                  None \<Rightarrow> None
                | Some True \<Rightarrow> Some (Inl (InvalidOperation ''UNIQUE constraint violated''))
                | Some False \<Rightarrow> check_unique idxs new rows))"

definition check_row :: "string \<Rightarrow> string list \<Rightarrow> row_rules \<Rightarrow> row \<Rightarrow> row list \<Rightarrow> unit exec_result option" where
  "check_row name columns rules new rows =
     (case find (\<lambda>i. row_get new i = VNull) (rr_not_null rules) of
        Some i \<Rightarrow> Some (Inl (not_null_error columns i))
      | None \<Rightarrow>
          if rr_primary_key rules = [] then check_unique (rr_unique rules) new rows
          else
            (case pick (rr_primary_key rules) new of
               None \<Rightarrow> None
             | Some vals \<Rightarrow>
                 (case has_same (rr_primary_key rules) vals rows of
                    None \<Rightarrow> None
                  | Some True \<Rightarrow>
                      Some (Inl (InvalidOperation (''PRIMARY KEY constraint violated: duplicate key in table '' @ in_quotes name)))
                  | Some False \<Rightarrow> check_unique (rr_unique rules) new rows)))"

definition push_row :: "u64 \<Rightarrow> row \<Rightarrow> table_data \<Rightarrow> table_data" where
  "push_row clock r t =
     t\<lparr>td_rows := td_rows t @ [r], td_created := td_created t @ [clock], td_deleted := td_deleted t @ [0]\<rparr>"

text \<open>The loop: the rows before the first refused one stay in the table.\<close>

fun insert_loop :: "u64 option \<Rightarrow> u64 \<Rightarrow> string \<Rightarrow> row_rules \<Rightarrow> nat list \<Rightarrow> row list \<Rightarrow> table_data \<Rightarrow> nat
    \<Rightarrow> (table_data \<times> nat exec_result) option" where
  "insert_loop snapshot clock name rules idx [] t n = Some (t, Inr n)"
| "insert_loop snapshot clock name rules idx (vals # rest) t n =
     (case fill_row (rr_defaults rules) (zip idx vals) of
        None \<Rightarrow> None
      | Some new \<Rightarrow>
          (case check_row name (td_columns t) rules new (visible_rows snapshot t) of
             None \<Rightarrow> None
           | Some (Inl e) \<Rightarrow> Some (t, Inl e)
           | Some (Inr _) \<Rightarrow> insert_loop snapshot clock name rules idx rest (push_row clock new t) (n + 1)))"

fun column_indices :: "string list \<Rightarrow> string list \<Rightarrow> nat list exec_result" where
  "column_indices columns [] = Inr []"
| "column_indices columns (n # ns) =
     (case position n columns of
        None \<Rightarrow> Inl (ColumnNotFound n)
      | Some i \<Rightarrow> bind_res (column_indices columns ns) (\<lambda>is. Inr (i # is)))"

definition insert_rows :: "string \<Rightarrow> string list \<Rightarrow> row list \<Rightarrow> exec_context \<Rightarrow> (exec_context \<times> nat exec_result) option" where
  "insert_rows name columns rows c =
     (case get_table c name of
        None \<Rightarrow> Some (c, Inl (TableNotFound name))
      | Some t \<Rightarrow>
          (case get_table_schema c name of
             None \<Rightarrow> Some (c, Inl (TableNotFound name))
           | Some s \<Rightarrow>
               (case column_indices (td_columns t) (if columns = [] then td_columns t else columns) of
                  Inl e \<Rightarrow> Some (c, Inl e)
                | Inr idx \<Rightarrow>
                    map_option (\<lambda>(t', r). (put_table name t' c, r))
                      (insert_loop (xc_snapshot c) (xc_clock c) name (row_rules_of s (td_columns t)) idx rows t 0))))"

section \<open>Update and deletion\<close>

type_synonym row_test = "row \<Rightarrow> string list \<Rightarrow> bool"

definition row_chosen :: "row_test option \<Rightarrow> string list \<Rightarrow> row \<Rightarrow> bool" where
  "row_chosen p columns r = (case p of Some p \<Rightarrow> p r columns | None \<Rightarrow> True)"

fun update_loop :: "(nat \<Rightarrow> row \<Rightarrow> bool) \<Rightarrow> (nat \<times> sql_value) list \<Rightarrow> nat \<Rightarrow> row list \<Rightarrow> (row list \<times> nat) option" where
  "update_loop chosen assigns i [] = Some ([], 0)"
| "update_loop chosen assigns i (r # rs) =
     (if chosen i r then
        (case fill_row r assigns of
           None \<Rightarrow> None
         | Some r' \<Rightarrow> map_option (\<lambda>(rs', n). (r' # rs', n + 1)) (update_loop chosen assigns (i + 1) rs))
      else map_option (\<lambda>(rs', n). (r # rs', n)) (update_loop chosen assigns (i + 1) rs))"

definition update_rows :: "string \<Rightarrow> (string \<times> sql_value) list \<Rightarrow> row_test option \<Rightarrow> exec_context
    \<Rightarrow> (exec_context \<times> nat exec_result) option" where
  "update_rows name assignments p c =
     (case get_table c name of
        None \<Rightarrow> Some (c, Inl (TableNotFound name))
      | Some t \<Rightarrow>
          (case column_indices (td_columns t) (map fst assignments) of
             Inl e \<Rightarrow> Some (c, Inl e)
           | Inr idx \<Rightarrow>
               map_option (\<lambda>(rows, n). (put_table name (t\<lparr>td_rows := rows\<rparr>) c, Inr n))
                 (update_loop (\<lambda>i r. is_row_visible c t i \<and> row_chosen p (td_columns t) r)
                   (zip idx (map snd assignments)) 0 (td_rows t))))"

text \<open>The version vectors may be shorter than the rows.\<close>

definition delete_marks :: "(nat \<Rightarrow> bool) \<Rightarrow> u64 \<Rightarrow> u64 list \<Rightarrow> u64 list" where
  "delete_marks chosen clock deleted = map (\<lambda>(i, d). if chosen i then clock else d) (enumerate 0 deleted)"

text \<open>Compaction: what is marked as deleted is removed from all three vectors.\<close>

fun compact_rows :: "row list \<Rightarrow> u64 list \<Rightarrow> u64 list \<Rightarrow> row list \<times> u64 list \<times> u64 list" where
  "compact_rows [] cs ds = ([], cs, ds)"
| "compact_rows (r # rs) cs ds =
     (case compact_rows rs (drop 1 cs) (drop 1 ds) of (rs', cs', ds') \<Rightarrow>
        if 0 < version_at ds 0 then (rs', cs', ds') else (r # rs', take 1 cs @ cs', take 1 ds @ ds'))"

definition delete_rows :: "string \<Rightarrow> row_test option \<Rightarrow> exec_context \<Rightarrow> exec_context \<times> nat exec_result" where
  "delete_rows name p c =
     (case get_table c name of
        None \<Rightarrow> (c, Inl (TableNotFound name))
      | Some t \<Rightarrow>
          (let chosen = (\<lambda>i. i < length (td_rows t) \<and> is_row_visible c t i \<and> row_chosen p (td_columns t) (td_rows t ! i));
               deleted = delete_marks chosen (xc_clock c) (td_deleted t);
               t1 = t\<lparr>td_deleted := deleted\<rparr>;
               t2 = (if xc_snapshot c = None then
                       case compact_rows (td_rows t) (td_created t) deleted of
                         (rs, cs, ds) \<Rightarrow> t1\<lparr>td_rows := rs, td_created := cs, td_deleted := ds\<rparr>
                     else t1)
           in (put_table name t2 c, Inr (length (filter chosen [0..<length (td_rows t)])))))"

section \<open>The fast paths through an index\<close>

datatype transfer_outcome = Committed_transfer | InsufficientFunds | AccountMissing

definition no_indexes :: "string \<Rightarrow> executor_error" where
  "no_indexes table = InvalidOperation (''table '' @ in_quotes table @ '' has no indexes'')"

definition no_index_on :: "string \<Rightarrow> string \<Rightarrow> executor_error" where
  "no_index_on column table = InvalidOperation (''no index on column '' @ in_quotes column @ '' of table '' @ in_quotes table)"

text \<open>The rows an index has for a value.\<close>

definition indexed_rows :: "platform \<Rightarrow> exec_context \<Rightarrow> string \<Rightarrow> string \<Rightarrow> sql_value list \<Rightarrow> nat list list exec_result" where
  "indexed_rows pl c table column values =
     (case get_index_manager c table of
        None \<Rightarrow> Inl (no_indexes table)
      | Some m \<Rightarrow>
          (case find_index_for_columns [column] m of
             None \<Rightarrow> Inl (no_index_on column table)
           | Some (index, _) \<Rightarrow>
               Inr (map (\<lambda>v. case lookup_eq index [from_value pl v] m of Some ids \<Rightarrow> ids | None \<Rightarrow> []) values)))"

definition set_value :: "nat \<Rightarrow> nat \<Rightarrow> sql_value \<Rightarrow> row list \<Rightarrow> row list" where
  "set_value row col v rows = rows[row := (rows ! row)[col := v]]"

fun update_indexed_loop :: "exec_context \<Rightarrow> table_data \<Rightarrow> nat \<Rightarrow> (sql_value \<Rightarrow> sql_value) \<Rightarrow> nat list \<Rightarrow> row list \<times> nat
    \<Rightarrow> row list \<times> nat" where
  "update_indexed_loop c t col f [] (rows, n) = (rows, n)"
| "update_indexed_loop c t col f (i # is) (rows, n) =
     (if is_row_visible c t i \<and> i < length rows \<and> col < length (rows ! i)
      then update_indexed_loop c t col f is (set_value i col (f (rows ! i ! col)) rows, n + 1)
      else update_indexed_loop c t col f is (rows, n))"

definition execute_update_indexed_fn :: "platform \<Rightarrow> string \<Rightarrow> string \<Rightarrow> sql_value \<Rightarrow> nat \<Rightarrow> (sql_value \<Rightarrow> sql_value)
    \<Rightarrow> exec_context \<Rightarrow> exec_context \<times> nat exec_result" where
  "execute_update_indexed_fn pl table column key col f c =
     (case indexed_rows pl c table column [key] of
        Inl e \<Rightarrow> (c, Inl e)
      | Inr ids \<Rightarrow>
          (case get_table c table of
             None \<Rightarrow> (c, Inl (TableNotFound table))
           | Some t \<Rightarrow>
               (case update_indexed_loop c t col f (concat ids) (td_rows t, 0) of
                  (rows, n) \<Rightarrow> (put_table table (t\<lparr>td_rows := rows\<rparr>) c, Inr n))))"

definition read_balance :: "table_data \<Rightarrow> nat \<Rightarrow> nat \<Rightarrow> int exec_result" where
  "read_balance t col i =
     (case (if i < length (td_rows t) \<and> col < length (td_rows t ! i) then td_rows t ! i ! col else VNull) of
        VInteger n \<Rightarrow> Inr n
      | _ \<Rightarrow> Inl (InvalidOperation ''balance column is not an integer''))"

definition execute_transfer_indexed :: "platform \<Rightarrow> string \<Rightarrow> string \<Rightarrow> sql_value \<Rightarrow> sql_value \<Rightarrow> nat \<Rightarrow> int
    \<Rightarrow> exec_context \<Rightarrow> exec_context \<times> transfer_outcome exec_result" where
  "execute_transfer_indexed pl table column from_key to_key col amount c =
     (case indexed_rows pl c table column [from_key, to_key] of
        Inl e \<Rightarrow> (c, Inl e)
      | Inr ids \<Rightarrow>
          (case get_table c table of
             None \<Rightarrow> (c, Inl (TableNotFound table))
           | Some t \<Rightarrow>
               (case (find (is_row_visible c t) (ids ! 0), find (is_row_visible c t) (ids ! 1)) of
                  (Some from_id, Some to_id) \<Rightarrow>
                    (case read_balance t col from_id of
                       Inl e \<Rightarrow> (c, Inl e)
                     | Inr sender \<Rightarrow>
                         (case read_balance t col to_id of
                            Inl e \<Rightarrow> (c, Inl e)
                          | Inr receiver \<Rightarrow>
                              if sender < amount then (c, Inr InsufficientFunds)
                              else
                                (put_table table (t\<lparr>td_rows :=
                                   set_value to_id col (VInteger (wrap_i64 (receiver + amount)))
                                     (set_value from_id col (VInteger (wrap_i64 (sender - amount))) (td_rows t))\<rparr>) c,
                                 Inr Committed_transfer)))
                | _ \<Rightarrow> (c, Inr AccountMissing))))"

section \<open>Statements as operations on lists of rows\<close>

text \<open>The rows at the positions that pass a test.\<close>

definition selected :: "(nat \<Rightarrow> bool) \<Rightarrow> nat \<Rightarrow> 'a list \<Rightarrow> 'a list" where
  "selected v k xs = map snd (filter (\<lambda>(i, x). v i) (enumerate k xs))"

lemma selected_simps [simp]:
  "selected v k [] = []"
  "selected v k (x # xs) = (if v k then x # selected v (Suc k) xs else selected v (Suc k) xs)"
  by (simp_all add: selected_def)

lemma selected_append: "selected v k (xs @ ys) = selected v k xs @ selected v (k + length xs) ys"
  by (induction xs arbitrary: k) simp_all

lemma selected_Suc: "selected v (Suc k) xs = selected (\<lambda>i. v (Suc i)) k xs"
  by (induction xs arbitrary: k) simp_all

lemma selected_cong: "(\<And>i. k \<le> i \<Longrightarrow> i < k + length xs \<Longrightarrow> v i = w i) \<Longrightarrow> selected v k xs = selected w k xs"
  by (induction xs arbitrary: k) simp_all

lemma selected_filter:
  "filter p (selected v k xs) = selected (\<lambda>i. v i \<and> p (xs ! (i - k))) k xs"
proof (induction xs arbitrary: k)
  case (Cons x xs)
  have "selected (\<lambda>i. v i \<and> p ((x # xs) ! (i - k))) (Suc k) xs = selected (\<lambda>i. v i \<and> p (xs ! (i - Suc k))) (Suc k) xs"
    by (rule selected_cong) (simp add: Suc_diff_le)
  then show ?case using Cons by simp
qed simp

abbreviation visible :: "u64 option \<Rightarrow> table_data \<Rightarrow> nat \<Rightarrow> bool" where
  "visible snapshot t i \<equiv> version_visible snapshot (version_at (td_created t) i) (version_at (td_deleted t) i)"

lemma visible_rows_selected: "visible_rows snapshot t = selected (visible snapshot t) 0 (td_rows t)"
proof -
  have "enumerate 0 (td_rows t) = map (\<lambda>i. (i, td_rows t ! i)) [0..<length (td_rows t)]"
    by (rule nth_equalityI) (simp_all add: nth_enumerate_eq)
  then show ?thesis by (simp add: visible_rows_def selected_def filter_map comp_def)
qed

lemma version_at_simps [simp]:
  "version_at (v # vs) 0 = v" "version_at (v # vs) (Suc i) = version_at vs i"
  "version_at (vs @ [x]) (length vs) = x" "i < length vs \<Longrightarrow> version_at (vs @ ws) i = version_at vs i"
  by (simp_all add: version_at_def nth_append)

text \<open>The abstract operations know no versions.\<close>

fun rel_insert :: "string \<Rightarrow> string list \<Rightarrow> row_rules \<Rightarrow> nat list \<Rightarrow> row list \<Rightarrow> row list \<Rightarrow> nat
    \<Rightarrow> (row list \<times> nat exec_result) option" where
  "rel_insert name columns rules idx [] rows n = Some (rows, Inr n)"
| "rel_insert name columns rules idx (vals # rest) rows n =
     (case fill_row (rr_defaults rules) (zip idx vals) of
        None \<Rightarrow> None
      | Some new \<Rightarrow>
          (case check_row name columns rules new rows of
             None \<Rightarrow> None
           | Some (Inl e) \<Rightarrow> Some (rows, Inl e)
           | Some (Inr _) \<Rightarrow> rel_insert name columns rules idx rest (rows @ [new]) (n + 1)))"

definition rel_update :: "(row \<Rightarrow> bool) \<Rightarrow> (nat \<times> sql_value) list \<Rightarrow> row list \<Rightarrow> (row list \<times> nat) option" where
  "rel_update chosen assigns rows = update_loop (\<lambda>i. chosen) assigns 0 rows"

definition rel_delete :: "(row \<Rightarrow> bool) \<Rightarrow> row list \<Rightarrow> row list" where
  "rel_delete chosen rows = filter (\<lambda>r. \<not> chosen r) rows"

text \<open>The version vectors are as long as the rows, no version is of the future, and a snapshot is that
  of the current clock.\<close>

definition versions_ok :: "u64 \<Rightarrow> table_data \<Rightarrow> bool" where
  "versions_ok clock t \<longleftrightarrow> length (td_created t) = length (td_rows t) \<and> length (td_deleted t) = length (td_rows t)
     \<and> (\<forall>v \<in> set (td_created t). v \<le> clock) \<and> (\<forall>v \<in> set (td_deleted t). v \<le> clock)"

definition clock_ok :: "exec_context \<Rightarrow> bool" where
  "clock_ok c \<longleftrightarrow> 0 < xc_clock c \<and> (xc_snapshot c = None \<or> xc_snapshot c = Some (xc_clock c))"

definition context_ok :: "exec_context \<Rightarrow> bool" where
  "context_ok c \<longleftrightarrow> clock_ok c \<and> hm_ok (xc_tables c) \<and> hm_ok (xc_schemas c)
     \<and> (\<forall>name t. get_table c name = Some t \<longrightarrow> versions_ok (xc_clock c) t \<and> td_name t = name)
     \<and> (\<forall>name s. get_table_schema c name = Some s \<longrightarrow> tsc_name s = name)"

definition relation_of :: "exec_context \<Rightarrow> string \<Rightarrow> row list option" where
  "relation_of c name = map_option (visible_rows (xc_snapshot c)) (get_table c name)"

lemma get_table_put [simp]: "get_table (put_table name t c) name' = (if name' = name then Some t else get_table c name')"
  by (simp add: get_table_def put_table_def hm_simps)

lemma put_table_fields [simp]:
  "xc_clock (put_table name t c) = xc_clock c" "xc_snapshot (put_table name t c) = xc_snapshot c"
  "xc_schemas (put_table name t c) = xc_schemas c" "get_table_schema (put_table name t c) = get_table_schema c"
  by (simp_all add: put_table_def get_table_schema_def fun_eq_iff)

lemma context_ok_put:
  "context_ok c \<Longrightarrow> versions_ok (xc_clock c) t \<Longrightarrow> td_name t = name \<Longrightarrow> context_ok (put_table name t c)"
  by (auto simp: context_ok_def clock_ok_def) (simp_all add: put_table_def hm_intros)

lemma relation_of_put:
  "relation_of (put_table name t c) = (relation_of c)(name \<mapsto> visible_rows (xc_snapshot c) t)"
  by (auto simp: relation_of_def fun_eq_iff)

subsection \<open>Insertion\<close>

lemma visible_push:
  assumes "clock_ok c" "versions_ok (xc_clock c) t"
  shows "visible_rows (xc_snapshot c) (push_row (xc_clock c) r t) = visible_rows (xc_snapshot c) t @ [r]"
proof -
  let ?t = "push_row (xc_clock c) r t" and ?v = "visible (xc_snapshot c)"
  have len: "length (td_created t) = length (td_rows t)" "length (td_deleted t) = length (td_rows t)"
    using assms(2) by (simp_all add: versions_ok_def)
  have "selected (?v ?t) 0 (td_rows t) = selected (?v t) 0 (td_rows t)"
    by (rule selected_cong) (simp add: push_row_def len)
  moreover have "version_at (td_created ?t) (length (td_rows t)) = xc_clock c" "version_at (td_deleted ?t) (length (td_rows t)) = 0"
    using version_at_simps(3) [of "td_created t"] version_at_simps(3) [of "td_deleted t"] by (simp_all add: push_row_def len)
  then have "?v ?t (length (td_rows t))"
    using assms(1) by (auto simp: version_visible_def clock_ok_def)
  moreover have "td_rows ?t = td_rows t @ [r]" by (simp add: push_row_def)
  ultimately show ?thesis unfolding visible_rows_selected by (simp only: selected_append) simp
qed

lemma versions_ok_push: "versions_ok clock t \<Longrightarrow> versions_ok clock (push_row clock r t)"
  by (auto simp: versions_ok_def push_row_def)

lemma insert_loop_refines:
  "clock_ok c \<Longrightarrow> versions_ok (xc_clock c) t \<Longrightarrow>
    rel_insert name (td_columns t) rules idx vals (visible_rows (xc_snapshot c) t) n
      = map_option (\<lambda>(t', r). (visible_rows (xc_snapshot c) t', r))
          (insert_loop (xc_snapshot c) (xc_clock c) name rules idx vals t n)
    \<and> (\<forall>t' r. insert_loop (xc_snapshot c) (xc_clock c) name rules idx vals t n = Some (t', r) \<longrightarrow>
          versions_ok (xc_clock c) t' \<and> td_name t' = td_name t \<and> td_columns t' = td_columns t)"
proof (induction vals arbitrary: t n)
  case (Cons v vals)
  have cols: "td_columns (push_row k r t) = td_columns t" "td_name (push_row k r t) = td_name t" for k r
    by (simp_all add: push_row_def)
  show ?case
    using Cons.IH [OF Cons.prems(1) versions_ok_push [OF Cons.prems(2)]] Cons.prems
    by (auto simp: visible_push [OF Cons.prems] cols split: option.splits sum.splits)
qed simp

subsection \<open>Update\<close>

lemma update_loop_shift: "update_loop (\<lambda>i. q) assigns j xs = update_loop (\<lambda>i. q) assigns 0 xs"
proof (induction xs arbitrary: j)
  case (Cons x xs)
  show ?case using Cons [of "Suc j"] Cons [of "Suc 0"] by (simp split: option.splits)
qed simp

lemma update_loop_selected:
  "update_loop (\<lambda>i. q) assigns 0 (selected v k rs)
     = map_option (\<lambda>(rs', n). (selected v k rs', n)) (update_loop (\<lambda>i r. v i \<and> q r) assigns k rs)"
proof (induction rs arbitrary: k)
  case (Cons r rs)
  show ?case
    using Cons [of "Suc k"] update_loop_shift [of q assigns "Suc 0" "selected v (Suc k) rs"]
    by (cases "update_loop (\<lambda>i r. v i \<and> q r) assigns (Suc k) rs") (auto split: option.splits)
qed simp

lemma update_loop_length: "update_loop chosen assigns k rs = Some (rs', n) \<Longrightarrow> length rs' = length rs"
  by (induction rs arbitrary: k rs' n) (auto split: if_splits option.splits)

subsection \<open>Deletion\<close>

lemma version_at_marks:
  "version_at (delete_marks chosen clock ds) i = (if i < length ds \<and> chosen i then clock else version_at ds i)"
  by (simp add: version_at_def delete_marks_def nth_enumerate_eq)

lemma length_marks [simp]: "length (delete_marks chosen clock ds) = length ds"
  by (simp add: delete_marks_def)

lemma compact_rows_selected:
  assumes "length cs = length rs" "length ds = length rs" "compact_rows rs cs ds = (rs', cs', ds')"
  shows "rs' = selected (\<lambda>i. version_at ds i = 0) 0 rs \<and> selected (\<lambda>i. version_at ds' i = 0) 0 rs' = rs'
    \<and> length cs' = length rs' \<and> length ds' = length rs' \<and> set cs' \<subseteq> set cs \<and> set ds' \<subseteq> set ds"
  using assms
proof (induction rs cs ds arbitrary: rs' cs' ds' rule: compact_rows.induct)
  case (2 r rs cs ds)
  obtain k ks d dd where e: "cs = k # ks" "ds = d # dd"
    using 2(2,3) by (cases cs; cases ds) auto
  obtain rs1 cs1 ds1 where rec: "compact_rows rs ks dd = (rs1, cs1, ds1)" by (metis prod_cases3)
  have "length (drop 1 cs) = length rs" "length (drop 1 ds) = length rs" "compact_rows rs (drop 1 cs) (drop 1 ds) = (rs1, cs1, ds1)"
    using 2(2,3) rec by (simp_all add: e)
  note ih = 2(1) [OF this, unfolded e, simplified]
  show ?case
    using 2(4) ih by (auto simp: e rec selected_Suc word_gt_0 split: if_splits)
qed simp

lemma length_selected: "length (selected v k xs) = length (filter (\<lambda>i. v (i + k)) [0..<length xs])"
proof (induction xs arbitrary: k)
  case (Cons x xs)
  have "filter (\<lambda>i. v (i + k)) [Suc 0..<Suc (length xs)] = map Suc (filter (\<lambda>i. v (i + Suc k)) [0..<length xs])"
    by (simp only: map_Suc_upt [symmetric] filter_map) (simp add: comp_def)
  then show ?case using Cons [of "Suc k"] by (simp add: upt_conv_Cons del: upt_Suc)
qed simp

text \<open>The table after a deletion.\<close>

lemma delete_refines:
  assumes ok: "clock_ok c" "versions_ok (xc_clock c) t"
    and chosen: "chosen = (\<lambda>i. i < length (td_rows t) \<and> is_row_visible c t i \<and> q (td_rows t ! i))"
    and t1: "t1 = t\<lparr>td_deleted := delete_marks chosen (xc_clock c) (td_deleted t)\<rparr>"
    and t2: "t2 = (if xc_snapshot c = None then
        case compact_rows (td_rows t) (td_created t) (td_deleted t1) of
          (rs, cs, ds) \<Rightarrow> t1\<lparr>td_rows := rs, td_created := cs, td_deleted := ds\<rparr>
      else t1)"
  shows "visible_rows (xc_snapshot c) t2 = rel_delete q (visible_rows (xc_snapshot c) t) \<and> versions_ok (xc_clock c) t2
    \<and> td_name t2 = td_name t \<and> td_columns t2 = td_columns t
    \<and> length (filter chosen [0..<length (td_rows t)]) = length (filter q (visible_rows (xc_snapshot c) t))"
proof -
  let ?v = "visible (xc_snapshot c)"
  have len: "length (td_created t) = length (td_rows t)" "length (td_deleted t) = length (td_rows t)"
    using ok by (simp_all add: versions_ok_def)
  have marks: "version_at (td_deleted t1) i = (if chosen i then xc_clock c else version_at (td_deleted t) i)" if "i < length (td_rows t)" for i
    using that by (simp add: t1 version_at_marks len)
  have hidden: "?v t1 i \<longleftrightarrow> ?v t i \<and> \<not> chosen i" if "i < length (td_rows t)" for i
    using ok(1) marks [OF that] by (auto simp: version_visible_def clock_ok_def t1 split: option.splits)
  have ch: "chosen i \<longleftrightarrow> ?v t i \<and> q (td_rows t ! i)" if "i < length (td_rows t)" for i
    using that by (simp add: chosen is_row_visible_def)
  have rel: "rel_delete q (visible_rows (xc_snapshot c) t) = selected (?v t1) 0 (td_rows t)"
    unfolding rel_delete_def visible_rows_selected selected_filter
    by (rule selected_cong) (auto simp: hidden ch)
  have vers: "versions_ok (xc_clock c) t1"
    using ok(2) by (auto simp: versions_ok_def t1 delete_marks_def in_set_enumerate_eq)
  have count: "length (filter chosen [0..<length (td_rows t)]) = length (filter q (visible_rows (xc_snapshot c) t))"
    unfolding visible_rows_selected selected_filter length_selected
    by (rule arg_cong [where f = length]) (rule filter_cong, auto simp: ch)
  show ?thesis
  proof (cases "xc_snapshot c")
    case None
    obtain rs cs ds where comp: "compact_rows (td_rows t) (td_created t) (td_deleted t1) = (rs, cs, ds)" by (metis prod_cases3)
    have len1: "length (td_deleted t1) = length (td_rows t)" by (simp add: t1 len)
    note sel = compact_rows_selected [OF len(1) len1 comp]
    have "?v t1 = (\<lambda>i. version_at (td_deleted t1) i = 0)" by (simp add: version_visible_def None fun_eq_iff)
    then have "rs = selected (?v t1) 0 (td_rows t)" using sel by simp
    moreover have t2': "t2 = t1\<lparr>td_rows := rs, td_created := cs, td_deleted := ds\<rparr>" by (simp add: t2 None comp)
    moreover have "visible_rows (xc_snapshot c) t2 = rs"
      using conjunct1 [OF conjunct2 [OF sel]] by (simp add: visible_rows_selected t2' version_visible_def None)
    moreover have "versions_ok (xc_clock c) t2"
      using sel vers by (auto simp: versions_ok_def t2' t1)
    ultimately show ?thesis using rel count by (simp add: t1)
  next
    case (Some snap)
    then have "t2 = t1" by (simp add: t2)
    then show ?thesis using rel vers count by (simp add: visible_rows_selected) (simp add: t1)
  qed
qed

lemma delete_run:
  assumes "clock_ok c" "versions_ok (xc_clock c) t" "get_table c name = Some t"
  shows "\<exists>t2. delete_rows name p c
        = (put_table name t2 c, Inr (length (filter (row_chosen p (td_columns t)) (visible_rows (xc_snapshot c) t))))
    \<and> visible_rows (xc_snapshot c) t2 = rel_delete (row_chosen p (td_columns t)) (visible_rows (xc_snapshot c) t)
    \<and> versions_ok (xc_clock c) t2 \<and> td_name t2 = td_name t \<and> td_columns t2 = td_columns t"
proof -
  let ?q = "row_chosen p (td_columns t)"
  let ?ch = "\<lambda>i. i < length (td_rows t) \<and> is_row_visible c t i \<and> ?q (td_rows t ! i)"
  let ?t1 = "t\<lparr>td_deleted := delete_marks ?ch (xc_clock c) (td_deleted t)\<rparr>"
  obtain t2 where t2: "t2 = (if xc_snapshot c = None then
        case compact_rows (td_rows t) (td_created t) (td_deleted ?t1) of
          (rs, cs, ds) \<Rightarrow> ?t1\<lparr>td_rows := rs, td_created := cs, td_deleted := ds\<rparr>
      else ?t1)" by blast
  have "delete_rows name p c = (put_table name t2 c, Inr (length (filter ?ch [0..<length (td_rows t)])))"
    using assms(3) by (simp add: delete_rows_def Let_def t2)
  then show ?thesis using delete_refines [OF assms(1,2) refl refl t2] by auto
qed

end
