(* ===== verification/SqlTables.thy ===== *)
theory SqlTables
  imports SqlContext
begin

text \<open>
  What the statements of \<open>SqlContext\<close> keep: the constraints of a table, the exactness of a new index,
  the money moved by the transfer through an index, and the tables that are saved and loaded.  The last
  section holds executions in which the source breaks such a promise.
\<close>

section \<open>Statements on lists of rows\<close>

text \<open>C24: The statements that change data act on a table as on a list of rows, whatever versions it
  keeps: an insertion adds the checked rows at the end, an update rewrites the chosen rows and a deletion
  removes them, with the same counts, errors and panics.  Other tables stay as they are and the context
  stays well-formed.\<close>

theorem statements_refine_relations:
  assumes "context_ok c" "get_table c name = Some t" "get_table_schema c name = Some s"
    and "column_indices (td_columns t) (if columns = [] then td_columns t else columns) = Inr idx"
    and "column_indices (td_columns t) (map fst assigns) = Inr pos"
  shows "map_option (\<lambda>(c', r). (relation_of c', r)) (insert_rows name columns vals c)
        = map_option (\<lambda>(rows, r). ((relation_of c)(name \<mapsto> rows), r))
            (rel_insert name (td_columns t) (row_rules_of s (td_columns t)) idx vals (visible_rows (xc_snapshot c) t) 0)
    \<and> map_option (\<lambda>(c', r). (relation_of c', r)) (update_rows name assigns p c)
        = map_option (\<lambda>(rows, n). ((relation_of c)(name \<mapsto> rows), Inr n))
            (rel_update (row_chosen p (td_columns t)) (zip pos (map snd assigns)) (visible_rows (xc_snapshot c) t))
    \<and> relation_of (fst (delete_rows name p c))
        = (relation_of c)(name \<mapsto> rel_delete (row_chosen p (td_columns t)) (visible_rows (xc_snapshot c) t))
    \<and> snd (delete_rows name p c) = Inr (length (filter (row_chosen p (td_columns t)) (visible_rows (xc_snapshot c) t)))
    \<and> (\<forall>c' r. insert_rows name columns vals c = Some (c', r) \<or> update_rows name assigns p c = Some (c', r)
          \<or> delete_rows name p c = (c', r) \<longrightarrow> context_ok c')"
proof -
  have ok: "clock_ok c" "versions_ok (xc_clock c) t" "td_name t = name" using assms(1,2) by (auto simp: context_ok_def)
  note ins = insert_loop_refines [OF ok(1,2), of name "row_rules_of s (td_columns t)" idx vals 0]
  have insert: "insert_rows name columns vals c = map_option (\<lambda>(t', r). (put_table name t' c, r))
      (insert_loop (xc_snapshot c) (xc_clock c) name (row_rules_of s (td_columns t)) idx vals t 0)"
    using assms(2-4) by (simp add: insert_rows_def)
  let ?loop = "update_loop (\<lambda>i r. is_row_visible c t i \<and> row_chosen p (td_columns t) r) (zip pos (map snd assigns)) 0 (td_rows t)"
  have update: "update_rows name assigns p c = map_option (\<lambda>(rows, n). (put_table name (t\<lparr>td_rows := rows\<rparr>) c, Inr n)) ?loop"
    using assms(2,5) by (simp add: update_rows_def)
  have upd: "rel_update (row_chosen p (td_columns t)) (zip pos (map snd assigns)) (visible_rows (xc_snapshot c) t)
      = map_option (\<lambda>(rows, n). (visible_rows (xc_snapshot c) (t\<lparr>td_rows := rows\<rparr>), n)) ?loop"
    using update_loop_selected [of "row_chosen p (td_columns t)" "zip pos (map snd assigns)" "is_row_visible c t" 0 "td_rows t"]
    by (simp add: rel_update_def visible_rows_selected is_row_visible_def [abs_def])
  let ?q = "row_chosen p (td_columns t)"
  obtain t2 where delete: "delete_rows name p c = (put_table name t2 c, Inr (length (filter ?q (visible_rows (xc_snapshot c) t))))"
    and del: "visible_rows (xc_snapshot c) t2 = rel_delete ?q (visible_rows (xc_snapshot c) t)"
      "versions_ok (xc_clock c) t2" "td_name t2 = td_name t"
    using delete_run [OF ok(1,2) assms(2), of p] by blast
  have vers: "versions_ok (xc_clock c) (t\<lparr>td_rows := rows\<rparr>)" if "?loop = Some (rows, n)" for rows n
    using ok(2) update_loop_length [OF that] by (simp add: versions_ok_def)
  have "context_ok c'" if "insert_rows name columns vals c = Some (c', r)" for c' r
    using that conjunct2 [OF ins] ok(3) context_ok_put [OF assms(1)] by (auto simp: insert)
  moreover have "context_ok c'" if "update_rows name assigns p c = Some (c', r)" for c' r
    using that vers ok(3) context_ok_put [OF assms(1)] by (auto simp: update)
  moreover have "context_ok c'" if "delete_rows name p c = (c', r)" for c' r
    using that del ok(3) context_ok_put [OF assms(1), of t2 name] by (simp add: delete)
  moreover have "map_option (\<lambda>(c', r). (relation_of c', r)) (insert_rows name columns vals c)
        = map_option (\<lambda>(rows, r). ((relation_of c)(name \<mapsto> rows), r))
            (rel_insert name (td_columns t) (row_rules_of s (td_columns t)) idx vals (visible_rows (xc_snapshot c) t) 0)"
    unfolding insert conjunct1 [OF ins] by (simp add: option.map_comp comp_def split_beta relation_of_put)
  moreover have "map_option (\<lambda>(c', r). (relation_of c', r)) (update_rows name assigns p c)
        = map_option (\<lambda>(rows, n). ((relation_of c)(name \<mapsto> rows), Inr n)) (rel_update ?q (zip pos (map snd assigns)) (visible_rows (xc_snapshot c) t))"
    unfolding update upd by (simp add: option.map_comp comp_def split_beta relation_of_put)
  ultimately show ?thesis using del by (auto simp: delete relation_of_put)
qed

section \<open>Constraints\<close>

text \<open>The later of two rows has other values in some columns; a null among them makes them different for
  a unique constraint, and is excluded from a primary key only by its own constraint.\<close>

definition same_in :: "nat list \<Rightarrow> row \<Rightarrow> row \<Rightarrow> bool" where
  "same_in idx r r' \<longleftrightarrow> (\<exists>vs vs'. pick idx r = Some vs \<and> pick idx r' = Some vs' \<and> same_values vs' vs)"

definition null_in :: "nat list \<Rightarrow> row \<Rightarrow> bool" where
  "null_in idx r \<longleftrightarrow> (\<exists>vs. pick idx r = Some vs \<and> VNull \<in> set vs)"

definition rules_hold :: "row_rules \<Rightarrow> row list \<Rightarrow> bool" where
  "rules_hold rules rows \<longleftrightarrow>
     (\<forall>r \<in> set rows. \<forall>i \<in> set (rr_not_null rules). row_get r i \<noteq> VNull)
     \<and> (rr_primary_key rules \<noteq> [] \<longrightarrow> sorted_wrt (\<lambda>r r'. \<not> same_in (rr_primary_key rules) r r') rows)
     \<and> (\<forall>idx \<in> set (rr_unique rules). sorted_wrt (\<lambda>r r'. null_in idx r' \<or> \<not> same_in idx r r') rows)"

lemma has_same_False:
  "has_same idx vals rows = Some False \<Longrightarrow> r \<in> set rows \<Longrightarrow> \<exists>vs. pick idx r = Some vs \<and> \<not> same_values vals vs"
  by (induction rows) (auto split: option.splits if_splits)

lemma has_same_differs:
  "has_same idx vals rows = Some False \<Longrightarrow> pick idx new = Some vals \<Longrightarrow> r \<in> set rows \<Longrightarrow> \<not> same_in idx r new"
  using has_same_False [of idx vals rows r] by (auto simp: same_in_def)

lemma check_unique_differs:
  "check_unique idxs new rows = Some (Inr u) \<Longrightarrow> idx \<in> set idxs \<Longrightarrow> r \<in> set rows \<Longrightarrow> null_in idx new \<or> \<not> same_in idx r new"
proof (induction idxs)
  case (Cons i idxs)
  then show ?case
    using has_same_differs [of i _ rows new r] by (auto simp: null_in_def split: option.splits if_splits bool.splits)
qed simp

lemma check_row_rules:
  assumes "check_row name columns rules new rows = Some (Inr u)" "rules_hold rules rows"
  shows "rules_hold rules (rows @ [new])"
proof -
  have "\<forall>i \<in> set (rr_not_null rules). row_get new i \<noteq> VNull"
    using assms(1) by (auto simp: check_row_def find_None_iff split: option.splits)
  moreover have "\<not> same_in (rr_primary_key rules) r new" if "rr_primary_key rules \<noteq> []" "r \<in> set rows" for r
    using assms(1) that has_same_differs [of "rr_primary_key rules" _ rows new r]
    by (auto simp: check_row_def split: option.splits if_splits bool.splits)
  moreover have "check_unique (rr_unique rules) new rows = Some (Inr u)"
    using assms(1) by (auto simp: check_row_def split: option.splits if_splits bool.splits)
  ultimately show ?thesis
    using assms(2) check_unique_differs by (auto simp: rules_hold_def sorted_wrt_append)
qed

lemma rel_insert_rules:
  "rel_insert name columns rules idx vals rows n = Some (rows', r) \<Longrightarrow> rules_hold rules rows \<Longrightarrow> rules_hold rules rows'"
proof (induction vals arbitrary: rows n)
  case (Cons v vals)
  then show ?case using check_row_rules by (auto split: option.splits sum.splits)
qed simp

lemma rel_delete_rules: "rules_hold rules rows \<Longrightarrow> rules_hold rules (rel_delete q rows)"
  by (auto simp: rules_hold_def rel_delete_def intro: sorted_wrt_filter)

text \<open>C25: Insertions and deletions keep the constraints of a table, whatever is inserted and also when a
  row is refused: no null in a column declared not null, no two visible rows with the same primary key,
  no two with the same values under a unique constraint unless one of them is null.\<close>

theorem constraints_kept:
  assumes "context_ok c" "get_table c name = Some t" "get_table_schema c name = Some s"
    and "rules_hold (row_rules_of s (td_columns t)) (visible_rows (xc_snapshot c) t)"
    and "insert_rows name columns vals c = Some (c', r) \<or> delete_rows name p c = (c', r)"
  shows "\<exists>t'. get_table c' name = Some t' \<and> get_table_schema c' name = Some s \<and> td_columns t' = td_columns t
    \<and> rules_hold (row_rules_of s (td_columns t')) (visible_rows (xc_snapshot c') t')"
proof -
  have ok: "clock_ok c" "versions_ok (xc_clock c) t" "td_name t = name" using assms(1,2) by (auto simp: context_ok_def)
  show ?thesis
    using assms(5)
  proof
    assume ins: "insert_rows name columns vals c = Some (c', r)"
    show ?thesis
    proof (cases "column_indices (td_columns t) (if columns = [] then td_columns t else columns)")
      case (Inl e)
      then have "c' = c" using ins assms(2,3) by (simp add: insert_rows_def)
      then show ?thesis using assms(2-4) by blast
    next
      case (Inr idx)
      with ins assms(2,3) obtain t' where t':
        "insert_loop (xc_snapshot c) (xc_clock c) name (row_rules_of s (td_columns t)) idx vals t 0 = Some (t', r)"
        "c' = put_table name t' c" by (auto simp: insert_rows_def)
      note loop = insert_loop_refines [OF ok(1,2), of name "row_rules_of s (td_columns t)" idx vals 0]
      have "rel_insert name (td_columns t) (row_rules_of s (td_columns t)) idx vals (visible_rows (xc_snapshot c) t) 0
          = Some (visible_rows (xc_snapshot c) t', r)" "td_columns t' = td_columns t"
        using loop t'(1) by auto
      then show ?thesis using rel_insert_rules assms(3,4) t'(2) by simp
    qed
  next
    assume del: "delete_rows name p c = (c', r)"
    obtain t2 where "delete_rows name p c
        = (put_table name t2 c, Inr (length (filter (row_chosen p (td_columns t)) (visible_rows (xc_snapshot c) t))))"
      "visible_rows (xc_snapshot c) t2 = rel_delete (row_chosen p (td_columns t)) (visible_rows (xc_snapshot c) t)"
      "td_columns t2 = td_columns t"
      using delete_run [OF ok(1,2) assms(2), of p] by blast
    then show ?thesis using del assms(3) rel_delete_rules [OF assms(4)] by simp
  qed
qed

section \<open>New indexes\<close>

text \<open>The key of a row under an index.\<close>

abbreviation table_key :: "platform \<Rightarrow> string list \<Rightarrow> table_data \<Rightarrow> row \<Rightarrow> index_key" where
  "table_key pl columns t r \<equiv> build_key pl columns (column_values_of (td_columns t) r)"

lemma fill_index_exact:
  assumes "hm_get (im_btree m) name = Some ix" "bx_ok ix" "\<forall>r \<in> set rs. key_ok (build_key pl columns (column_values_of cols r))"
    and "fill_index pl name columns cols i rs m = (m', None)"
  shows "\<exists>ix'. hm_get (im_btree m') name = Some ix' \<and> bx_ok ix' \<and>
    (\<forall>k. key_ok k \<longrightarrow> set (bx_get k ix') = set (bx_get k ix)
        \<union> {i + j | j. j < length rs \<and> same_key (build_key pl columns (column_values_of cols (rs ! j))) k})"
  using assms
proof (induction rs arbitrary: i m ix)
  case (Cons r rs)
  let ?k = "build_key pl columns (column_values_of cols r)"
  obtain ix1 where ix1: "bx_insert ?k i ix = Inr ix1" "hm_get (im_btree (m\<lparr>im_btree := hm_insert name ix1 (im_btree m)\<rparr>)) name = Some ix1"
    and fill: "fill_index pl name columns cols (i + 1) rs (m\<lparr>im_btree := hm_insert name ix1 (im_btree m)\<rparr>) = (m', None)"
    using Cons.prems(1,4) by (auto simp: insert_into_index_def hm_simps split: sum.splits)
  have "\<not> (bx_unique ix \<and> bx_get ?k ix \<noteq> [])" using ix1(1) by (auto simp: bx_insert_def split: if_splits)
  then have ins: "bx_ok ix1" "\<And>k. key_ok k \<Longrightarrow> set (bx_get k ix1) = (if same_key ?k k then insert i (set (bx_get k ix)) else set (bx_get k ix))"
    using bx_insert_done [of ix ?k i] Cons.prems(2,3) ix1(1) by auto
  have step: "{i + j | j. j < length (r # rs) \<and> same_key (build_key pl columns (column_values_of cols ((r # rs) ! j))) k}
      = (if same_key ?k k then {i} else {})
        \<union> {i + 1 + j | j. j < length rs \<and> same_key (build_key pl columns (column_values_of cols (rs ! j))) k}" for k
    by (auto simp: less_Suc_eq_0_disj)
  from Cons.IH [OF ix1(2) ins(1) _ fill] Cons.prems(3) obtain ix' where
    "hm_get (im_btree m') name = Some ix'" "bx_ok ix'"
    "\<forall>k. key_ok k \<longrightarrow> set (bx_get k ix') = set (bx_get k ix1)
        \<union> {i + 1 + j | j. j < length rs \<and> same_key (build_key pl columns (column_values_of cols (rs ! j))) k}" by auto
  then show ?case using ins(2) unfolding step by auto
qed simp

text \<open>C29: An index that was created without an error is exact: looking a key up gives the numbers of
  the rows that have it, each once, as long as no key holds an invalid number.\<close>

theorem new_index_exact:
  assumes "create_index pl name table columns unique if_not_exists c = (c', Inr ())"
    and "get_table c table = Some t" "name \<notin> set (map xsc_name (hm_get_or (xc_indexes c) table []))"
    and "\<forall>r \<in> set (td_rows t). key_ok (table_key pl columns t r)" "key_ok k"
  shows "\<exists>m ids. get_index_manager c' table = Some m \<and> lookup_eq name k m = Some ids \<and> distinct ids
    \<and> set ids = {i. i < length (td_rows t) \<and> same_key (table_key pl columns t (td_rows t ! i)) k}"
proof -
  let ?m = "hm_get_or (xc_table_indexes c) table (im_new table)"
  have t: "hm_get (xc_tables c) table = Some t" using assms(2) by (simp add: get_table_def)
  obtain m' where build: "build_index pl name columns unique t ?m = (m', None)" "get_index_manager c' table = Some m'"
    using assms(1,3) t
    by (auto simp: create_index_def Let_def rebuild_index_def get_index_manager_def hm_simps split: prod.splits option.splits)
  let ?ix = "bx_new name (im_table ?m) columns unique"
  have fill: "fill_index pl name columns (td_columns t) 0 (td_rows t) (?m\<lparr>im_btree := hm_insert name ?ix (im_btree ?m)\<rparr>) = (m', None)"
    using build(1) by (auto simp: build_index_def im_create_index_def split: if_splits sum.splits)
  have "hm_get (im_btree (?m\<lparr>im_btree := hm_insert name ?ix (im_btree ?m)\<rparr>)) name = Some ?ix" by (simp add: hm_simps)
  from fill_index_exact [OF this bx_ok_new assms(4) fill] obtain ix' where
    "hm_get (im_btree m') name = Some ix'" "bx_ok ix'"
    "set (bx_get k ix') = {j. j < length (td_rows t) \<and> same_key (table_key pl columns t (td_rows t ! j)) k}"
    using assms(5) by auto
  then show ?thesis using build(2) bx_get_distinct by (auto simp: lookup_eq_def)
qed

section \<open>Transfers\<close>

definition balance :: "nat \<Rightarrow> row \<Rightarrow> int" where
  "balance col r = (case row_get r col of VInteger n \<Rightarrow> n | _ \<Rightarrow> 0)"

definition total_balance :: "nat \<Rightarrow> table_data \<Rightarrow> int" where
  "total_balance col t = sum_list (map (balance col) (td_rows t))"

lemma read_balance_Inr:
  "read_balance t col i = Inr n \<longleftrightarrow>
     i < length (td_rows t) \<and> col < length (td_rows t ! i) \<and> td_rows t ! i ! col = VInteger n"
  by (auto simp: read_balance_def split: sql_value.splits if_splits)

lemma balance_set_value:
  assumes "i < length rows" "col < length (rows ! i)"
  shows "map (balance col) (set_value i col (VInteger n) rows) = (map (balance col) rows)[i := n]"
  using assms by (simp add: set_value_def map_update balance_def row_get_def)

lemma sum_list_change:
  fixes xs :: "int list"
  shows "i < length xs \<Longrightarrow> sum_list (xs[i := v]) = sum_list xs + v - xs ! i"
proof (induction xs arbitrary: i)
  case (Cons x xs)
  then show ?case by (cases i) simp_all
qed simp

lemma sum_list_two_le:
  fixes xs :: "int list"
  assumes "\<forall>x \<in> set xs. 0 \<le> x" "i < length xs" "j < length xs" "i \<noteq> j"
  shows "xs ! i + xs ! j \<le> sum_list xs"
proof -
  let ?ys = "xs[i := 0]"
  have "\<forall>x \<in> set (?ys[j := 0]). 0 \<le> x" using assms(1) by (metis insertE order_refl set_update_subset_insert subsetD)
  then have "0 \<le> sum_list (?ys[j := 0])" by (simp add: sum_list_nonneg)
  then show ?thesis using assms by (simp add: sum_list_change)
qed

lemma find_set: "find p xs = Some x \<Longrightarrow> x \<in> set xs \<and> p x"
  by (metis find_Some_iff nth_mem)


section \<open>Saving and loading\<close>

lemma insert_all_again:
  "distinct (map fst m) \<Longrightarrow> \<forall>(k, v) \<in> set m. key v = k \<Longrightarrow>
    foldl (\<lambda>acc v. hm_insert (key v) v acc) [] (map snd m) = m"
proof (induction m rule: rev_induct)
  case (snoc x m)
  have "hm_insert k v m = m @ [(k, v)]" if "k \<notin> fst ` set m" for k v
    using that by (induction m) auto
  then show ?case using snoc by (cases x) auto
qed simp

lemma rebuild_index_fields:
  "xc_tables (fst (rebuild_index pl name table columns unique c)) = xc_tables c
   \<and> xc_schemas (fst (rebuild_index pl name table columns unique c)) = xc_schemas c
   \<and> xc_indexes (fst (rebuild_index pl name table columns unique c)) = xc_indexes c
   \<and> xc_snapshot (fst (rebuild_index pl name table columns unique c)) = xc_snapshot c
   \<and> xc_clock (fst (rebuild_index pl name table columns unique c)) = xc_clock c
   \<and> xc_batch_size (fst (rebuild_index pl name table columns unique c)) = xc_batch_size c"
  by (simp add: rebuild_index_def split: option.splits prod.splits)

lemma foldl_field: "(\<And>c x. g (f c x) = g c) \<Longrightarrow> g (foldl f c xs) = g c"
  by (induction xs arbitrary: c) simp_all

lemma rebuild_indexes_fields:
  "xc_tables (rebuild_indexes pl indexes c) = xc_tables c" "xc_schemas (rebuild_indexes pl indexes c) = xc_schemas c"
  "xc_indexes (rebuild_indexes pl indexes c) = xc_indexes c" "xc_snapshot (rebuild_indexes pl indexes c) = xc_snapshot c"
  "xc_clock (rebuild_indexes pl indexes c) = xc_clock c" "xc_batch_size (rebuild_indexes pl indexes c) = xc_batch_size c"
  unfolding rebuild_indexes_def by (rule foldl_field; auto intro!: foldl_field simp: rebuild_index_fields)+


section \<open>Examples\<close>

text \<open>Three accounts with their balances, the second column.\<close>

definition sample_table :: table_data where
  "sample_table =
     \<lparr>td_name = ''a'', td_columns = [''id'', ''amount''],
      td_rows = [[VInteger 1, VInteger 100], [VInteger 2, VInteger 50], [VInteger 3, VInteger 50]],
      td_created = [1, 1, 1], td_deleted = [0, 0, 0]\<rparr>"

definition sample_schema :: table_schema where
  "sample_schema =
     \<lparr>tsc_name = ''a'',
      tsc_columns = [\<lparr>csc_name = ''id'', csc_data_type = DtBigInt, csc_nullable = False, csc_default = None\<rparr>,
                     \<lparr>csc_name = ''amount'', csc_data_type = DtBigInt, csc_nullable = True, csc_default = None\<rparr>],
      tsc_primary_key = Some [''id''], tsc_constraints = []\<rparr>"

definition sample_context :: exec_context where
  "sample_context =
     \<lparr>xc_tables = [(''a'', sample_table)], xc_schemas = [(''a'', sample_schema)], xc_indexes = [], xc_table_indexes = [],
      xc_batch_size = 1024, xc_clock = 2, xc_snapshot = None\<rparr>"

lemmas sample_defs = sample_context_def sample_table_def sample_schema_def

lemmas sql_run_defs = get_table_def get_table_schema_def get_index_manager_def put_table_def visible_rows_def version_visible_def
  version_at_def row_rules_of_def positions_def map_filter_def pick_def check_row_def row_get_def push_row_def
  is_row_visible_def row_chosen_def delete_marks_def enumerate_eq_zip

lemma sample_ok: "context_ok sample_context"
  by (auto simp: context_ok_def clock_ok_def hm_ok_def get_table_def get_table_schema_def versions_ok_def sample_defs
      split: if_splits)

lemma sample_get: "get_table sample_context ''a'' = Some sample_table" "get_table_schema sample_context ''a'' = Some sample_schema"
  by (simp_all add: get_table_def get_table_schema_def sample_context_def)

lemma sample_visible: "visible_rows None sample_table = [[VInteger 1, VInteger 100], [VInteger 2, VInteger 50], [VInteger 3, VInteger 50]]"
  by (simp add: visible_rows_def version_visible_def version_at_def sample_table_def)

theorem constraints_kept_witness:
  "\<exists>c' t'. insert_rows ''a'' [] [[VInteger 4], [VInteger 1]] sample_context = Some (c',
        Inl (InvalidOperation (''PRIMARY KEY constraint violated: duplicate key in table '' @ in_quotes ''a'')))
    \<and> get_table c' ''a'' = Some t' \<and> rules_hold (row_rules_of sample_schema (td_columns t')) (visible_rows (xc_snapshot c') t')"
proof -
  obtain c' where ins: "insert_rows ''a'' [] [[VInteger 4], [VInteger 1]] sample_context = Some (c',
      Inl (InvalidOperation (''PRIMARY KEY constraint violated: duplicate key in table '' @ in_quotes ''a'')))"
    by (simp add: insert_rows_def sql_run_defs sample_defs)
  have "rules_hold (row_rules_of sample_schema (td_columns sample_table)) (visible_rows (xc_snapshot sample_context) sample_table)"
    by (simp add: rules_hold_def same_in_def sql_run_defs sample_defs)
  from constraints_kept [OF sample_ok sample_get this disjI1 [OF ins]] ins show ?thesis by blast
qed

text \<open>An update checks no constraint.\<close>

lemma update_breaks_primary_key:
  "case update_rows ''a'' [(''id'', VInteger 1)] None sample_context of
     Some (c', r) \<Rightarrow> r = Inr 3 \<and> (\<exists>t'. get_table c' ''a'' = Some t' \<and> \<not> rules_hold (row_rules_of sample_schema (td_columns t')) (visible_rows None t'))"
  by (simp add: update_rows_def rules_hold_def same_in_def sql_run_defs sample_defs)

text \<open>A refused insertion leaves the rows before the refused one in the table.\<close>

lemma refused_insertion_inserts:
  "\<exists>c' e. insert_rows ''a'' [] [[VInteger 4], [VInteger 1]] sample_context = Some (c', Inl e)
    \<and> relation_of c' ''a'' = Some (visible_rows None sample_table @ [[VInteger 4, VNull]])"
  by (simp add: insert_rows_def relation_of_def sql_run_defs sample_defs)

text \<open>After a column is dropped the table keeps its name, so that the names stand beside the wrong
  values, and an insertion panics; an added column is unknown to queries.\<close>

lemma dropped_column_shifts:
  "\<exists>c' t'. alter_table pl show_expr ''a'' (AlDropColumn ''id'' False) sample_context = (c', Inr ())
    \<and> get_table c' ''a'' = Some t' \<and> td_columns t' = [''id'', ''amount''] \<and> td_rows t' = [[VInteger 100], [VInteger 50], [VInteger 50]]
    \<and> insert_rows ''a'' [] [[VInteger 4, VInteger 0]] c' = None"
  by (simp add: alter_table_def alter_drop_column_def change_rows_def put_schema_def remove_nth_def insert_rows_def sql_run_defs sample_defs)

lemma added_column_unknown:
  "\<exists>c' t'. alter_table pl show_expr ''a'' (AlAddColumn (CreateColumnDef ''x'' DtBigInt True None False False)) sample_context = (c', Inr ())
    \<and> get_table c' ''a'' = Some t' \<and> td_columns t' = [''id'', ''amount'']"
  by (simp add: alter_table_def alter_add_column_def opt_res_def change_rows_def put_schema_def sql_run_defs sample_defs)

text \<open>A renamed table comes back under its old name.\<close>

lemma renamed_table_reloads_as_old:
  "let c' = fst (alter_table pl show_expr ''a'' (AlRenameTable ''b'') sample_context); d = from_snapshot pl (to_snapshot c')
   in get_table c' ''b'' \<noteq> None \<and> get_table d ''b'' = None \<and> get_table d ''a'' \<noteq> None \<and> get_table_schema d ''b'' \<noteq> None"
  by (simp add: alter_table_def alter_rename_table_def rename_key_def from_snapshot_def load_snapshot_def to_snapshot_def
      insert_tables_def insert_schemas_def rebuild_indexes_def xc_new_def sql_run_defs sample_defs)

text \<open>The accounts with an index on their numbers.\<close>

lemmas index_defs = create_index_def rebuild_index_def build_index_def im_create_index_def im_new_def bx_new_def
  insert_into_index_def build_key_def column_values_of_def from_value_def bx_insert_def bx_get_def hm_get_or_def

definition sample_index_tree_of :: "(index_key \<times> row_ids) list \<Rightarrow> exec_context \<Rightarrow> exec_context" where
  "sample_index_tree_of tree c =
     c\<lparr>xc_indexes := [(''a'', [\<lparr>xsc_name = ''i'', xsc_table = ''a'', xsc_columns = [''id''], xsc_unique = True\<rparr>])],
       xc_table_indexes := [(''a'', \<lparr>im_table = ''a'', im_btree = [(''i'',
         \<lparr>bx_name = ''i'', bx_table = ''a'', bx_columns = [''id''], bx_unique = True, bx_tree = tree, bx_count = length tree\<rparr>)],
         im_hash = []\<rparr>)]\<rparr>"

abbreviation sample_indexed :: exec_context where
  "sample_indexed \<equiv> sample_index_tree_of [([IxInt 1], [0]), ([IxInt 2], [1]), ([IxInt 3], [2])] sample_context"

lemma sample_create_index: "create_index pl ''i'' ''a'' [''id''] True False sample_context = (sample_indexed, Inr ())"
  by (simp add: index_defs sample_index_tree_of_def Let_def cmp_of_def sample_defs)

theorem statements_refine_relations_witness:
  "relation_of (fst (delete_rows ''a'' (Some (\<lambda>r cols. row_get r 1 = VInteger 50)) sample_context)) ''a''
    = Some [[VInteger 1, VInteger 100]]"
proof -
  have "column_indices (td_columns sample_table) (if [] = ([] :: string list) then td_columns sample_table else []) = Inr [0, 1]"
    "column_indices (td_columns sample_table) (map fst ([] :: (string \<times> sql_value) list)) = Inr []"
    by (simp_all add: sample_table_def)
  note refine = statements_refine_relations [OF sample_ok sample_get this, of "[]" "Some (\<lambda>r cols. row_get r 1 = VInteger 50)"]
  have "xc_snapshot sample_context = None" by (simp add: sample_context_def)
  then show ?thesis
    using refine by (simp add: sample_visible rel_delete_def row_chosen_def row_get_def)
qed

theorem new_index_exact_witness:
  "\<forall>pl. \<exists>m ids. get_index_manager (fst (create_index pl ''i'' ''a'' [''id''] True False sample_context)) ''a'' = Some m
    \<and> lookup_eq ''i'' [IxInt 2] m = Some ids \<and> set ids = {1}"
proof
  fix pl
  have rows: "table_key pl [''id''] sample_table (td_rows sample_table ! i) = [IxInt (int i + 1)]" if "i < 3" for i
    using that by (auto simp: less_Suc_eq numeral_3_eq_3 build_key_def column_values_of_def from_value_def sample_table_def)
  have len: "length (td_rows sample_table) = 3" by (simp add: sample_table_def)
  have keys: "\<forall>r \<in> set (td_rows sample_table). key_ok (table_key pl [''id''] sample_table r)"
    using rows len by (auto simp: in_set_conv_nth key_ok_def value_ok_def)
  have fresh: "''i'' \<notin> set (map xsc_name (hm_get_or (xc_indexes sample_context) ''a'' []))"
    by (simp add: sample_context_def hm_get_or_def)
  have k: "key_ok [IxInt 2]" by (simp add: key_ok_def value_ok_def)
  have "{i. i < 3 \<and> same_key (table_key pl [''id''] sample_table (td_rows sample_table ! i)) [IxInt 2]} = {1}"
    by (auto simp: rows same_key_def cmp_of_def split: if_splits)
  with new_index_exact [OF sample_create_index sample_get(1) fresh keys k]
  show "\<exists>m ids. get_index_manager (fst (create_index pl ''i'' ''a'' [''id''] True False sample_context)) ''a'' = Some m
    \<and> lookup_eq ''i'' [IxInt 2] m = Some ids \<and> set ids = {1}"
    unfolding sample_create_index len by auto
qed

lemma sample_lookup:
  "indexed_rows pl sample_indexed ''a'' ''id'' [VInteger 1, VInteger 2] = Inr [[0], [1]]"
  by (simp add: indexed_rows_def get_index_manager_def sample_index_tree_of_def find_index_for_columns_def lookup_eq_def
      from_value_def bx_get_def cmp_of_def)

lemma sample_indexed_table: "get_table sample_indexed ''a'' = Some sample_table"
  by (simp add: get_table_def sample_index_tree_of_def sample_context_def)

lemmas transfer_defs = execute_transfer_indexed_def read_balance_def set_value_def wrap_i64_def indexed_rows_def
  get_index_manager_def sample_index_tree_of_def find_index_for_columns_def lookup_eq_def from_value_def bx_get_def cmp_of_def



text \<open>A transfer from an account to itself makes money, and one of a negative amount takes more from the
  receiver than there is.\<close>

lemma self_transfer_makes_money:
  "\<exists>t'. execute_transfer_indexed pl ''a'' ''id'' (VInteger 1) (VInteger 1) 1 30 sample_indexed
      = (put_table ''a'' t' sample_indexed, Inr Committed_transfer) \<and> td_rows t' ! 0 = [VInteger 1, VInteger 130]"
  by (simp add: transfer_defs sql_run_defs sample_defs)

lemma negative_transfer_overdraws:
  "\<exists>t'. execute_transfer_indexed pl ''a'' ''id'' (VInteger 1) (VInteger 2) 1 (- 60) sample_indexed
      = (put_table ''a'' t' sample_indexed, Inr Committed_transfer) \<and> td_rows t' ! 1 = [VInteger 2, VInteger (- 10)]"
  by (simp add: transfer_defs sql_run_defs sample_defs)

text \<open>No statement maintains the indexes.  After an account is deleted its key leads to the row that moved
  into its place: a transfer from the deleted account takes the money from another one.\<close>

lemma deleted_account_pays:
  "\<exists>t'. execute_transfer_indexed pl ''a'' ''id'' (VInteger 1) (VInteger 2) 1 30
        (fst (delete_rows ''a'' (Some (\<lambda>r cols. row_get r 0 = VInteger 1)) sample_indexed))
      = (put_table ''a'' t' sample_indexed, Inr Committed_transfer)
    \<and> td_rows t' = [[VInteger 2, VInteger 20], [VInteger 3, VInteger 80]]"
  by (simp add: delete_rows_def Let_def transfer_defs sql_run_defs sample_defs)

text \<open>An index that a duplicate key refuses stays recorded, half filled.\<close>

lemma refused_index_stays:
  "\<exists>c' m. create_index pl ''u'' ''a'' [''amount''] True False sample_context
      = (c', Inl (ExecIndexError (index_error_text (duplicate_key ''u''))))
    \<and> hm_contains (xc_indexes c') ''a'' \<and> get_index_manager c' ''a'' = Some m \<and> lookup_eq ''u'' [IxInt 50] m = Some [1]"
  by (simp add: index_defs Let_def cmp_of_def index_failed_def get_index_manager_def lookup_eq_def sample_defs)

text \<open>A dropped table leaves its indexes behind: the table made again cannot have an index of the name,
  and a transfer finds the rows of the old table.\<close>

lemma dropped_table_leaves_indexes:
  "let c' = fst (create_table ''a'' [] None [] False (fst (drop_table ''a'' False sample_indexed)))
   in snd (create_index pl ''i'' ''a'' [''id''] True False c') = Inl (ExecIndexError (index_error_text (index_exists ''i'')))"
  by (simp add: drop_table_def create_table_def index_defs index_failed_def sample_index_tree_of_def sample_defs)

end
