(* ===== verification/SqlExec.thy ===== *)
theory SqlExec
  imports SqlTables SqlPipeline
begin

text \<open>
  The executor (\<^verbatim>\<open>aegis-query/src/executor.rs\<close>, \<^verbatim>\<open>Executor\<close>): building the operators of a plan,
  running a query, and the statements.

  An operator that was built is its columns and its stream; the stream is \<open>None\<close> when it never comes to
  an end, which a batch size of 0 brings about, and nothing is said about what a query over it does.
  The result of a statement is the new context and a result, or \<open>None\<close> for a panic or no end.
\<close>

section \<open>Queries\<close>

type_synonym opened = "string list \<times> stream option"

definition open_join :: "platform \<Rightarrow> plan_join_type \<Rightarrow> expression option \<Rightarrow> join_strategy \<Rightarrow> opened \<Rightarrow> opened
    \<Rightarrow> opened exec_result" where
  "open_join pl ty condition strategy l r =
     bind_res (reject_unsupported_join_type ty) (\<lambda>_.
       case (l, r) of
         ((lc, Some ls), (rc, Some rs)) \<Rightarrow>
           (case strategy of
              HashJoin \<Rightarrow>
                bind_res (hash_join_new pl lc ls rc rs ty condition)
                  (\<lambda>s. Inr (ho_columns s, drain (hash_join_next pl condition) s))
            | _ \<Rightarrow>
                bind_res (join_new lc ls rc rs ty) (\<lambda>s. Inr (jo_columns s, drain (join_next pl condition) s)))
       | _ \<Rightarrow> Inr (fst l @ fst r, None))"

definition not_an_operator :: executor_error where
  "not_an_operator = ExecInternal ''DDL/DML/transaction nodes should not be in operator tree''"

primrec create_operator :: "platform \<Rightarrow> exec_context \<Rightarrow> plan_node \<Rightarrow> opened exec_result" where
  "create_operator pl c (NScan table alias columns scan) =
     (case get_table c table of
        None \<Rightarrow> Inl (TableNotFound table)
      | Some t \<Rightarrow>
          let s = scan_new columns (xc_snapshot c) (xc_batch_size c) t in Inr (so_columns s, drain scan_next s))"
| "create_operator pl c (NFilter n p) =
     bind_res (create_operator pl c n) (\<lambda>(cols, s). Inr (cols, Option.bind s (drain (filter_next pl p cols))))"
| "create_operator pl c (NProject n ps) =
     bind_res (create_operator pl c n) (\<lambda>(cols, s).
       let ps' = expand_projections cols ps; out = map snd ps' in
       Inr (out, Option.bind s (drain (project_next pl cols (map fst ps') out))))"
| "create_operator pl c (NJoin l r ty condition strategy) =
     bind_res (create_operator pl c l) (\<lambda>l. bind_res (create_operator pl c r) (\<lambda>r. open_join pl ty condition strategy l r))"
| "create_operator pl c (NAggregate n group_by aggregates) =
     bind_res (create_operator pl c n) (\<lambda>(cols, s).
       Inr (aggregate_columns group_by aggregates,
            Option.bind s (\<lambda>s. drain (aggregate_next pl cols group_by aggregates) (s, False))))"
| "create_operator pl c (NSort n keys) =
     bind_res (create_operator pl c n) (\<lambda>(cols, s). Inr (cols, Option.bind s (\<lambda>s. drain (sort_next pl cols keys) (sort_new s))))"
| "create_operator pl c (NLimit n limit offset) =
     bind_res (create_operator pl c n) (\<lambda>(cols, s).
       Inr (cols, Option.bind s (\<lambda>s. drain (limit_next limit offset cols) (limit_new s))))"
| "create_operator pl c NEmpty = Inr ([], drain empty_next False)"
| "create_operator pl c (NSetOperation op l r) =
     bind_res (create_operator pl c l) (\<lambda>(_, l). bind_res (create_operator pl c r) (\<lambda>(_, r).
       Inr ([], Option.bind l (\<lambda>l. Option.bind r (\<lambda>r. drain (set_op_next pl op) (set_op_new l r))))))"
| "create_operator pl c (NCreateTable table columns constraints b) = Inl not_an_operator"
| "create_operator pl c (NDropTable table b) = Inl not_an_operator"
| "create_operator pl c (NAlterTable table ops) = Inl not_an_operator"
| "create_operator pl c (NCreateIndex index table columns unique b) = Inl not_an_operator"
| "create_operator pl c (NDropIndex index b) = Inl not_an_operator"
| "create_operator pl c (NInsert table columns source) = Inl not_an_operator"
| "create_operator pl c (NUpdate table assignments wh) = Inl not_an_operator"
| "create_operator pl c (NDelete table wh) = Inl not_an_operator"
| "create_operator pl c NBeginTransaction = Inl not_an_operator"
| "create_operator pl c NCommitTransaction = Inl not_an_operator"
| "create_operator pl c NRollbackTransaction = Inl not_an_operator"

record query_result =
  qr_columns :: "string list"
  qr_rows :: "row list"
  qr_affected :: nat

definition query_result_new :: "string list \<Rightarrow> row list \<Rightarrow> query_result" where
  "query_result_new columns rows = \<lparr>qr_columns = columns, qr_rows = rows, qr_affected = length rows\<rparr>"

definition query_result_empty :: query_result where
  "query_result_empty = \<lparr>qr_columns = [], qr_rows = [], qr_affected = 0\<rparr>"

definition max_result_rows :: nat where
  "max_result_rows = 100000"

fun fetch :: "result_batch list \<Rightarrow> executor_error option \<Rightarrow> string list \<Rightarrow> row list \<Rightarrow> query_result exec_result" where
  "fetch [] e cols rows = (case e of Some x \<Rightarrow> Inl x | None \<Rightarrow> Inr (query_result_new cols rows))"
| "fetch (b # bs) e cols rows =
     (let cols' = (if cols = [] then rb_columns b else cols); rows' = rows @ rb_rows b in
      if max_result_rows < length rows' then Inr (query_result_new cols' (take max_result_rows rows'))
      else fetch bs e cols' rows')"

definition execute_query :: "platform \<Rightarrow> exec_context \<Rightarrow> plan_node \<Rightarrow> query_result exec_result option" where
  "execute_query pl c n =
     (case create_operator pl c n of
        Inl e \<Rightarrow> Some (Inl e)
      | Inr (cols, s) \<Rightarrow> map_option (\<lambda>s. fetch (fst s) (snd s) [] []) s)"

section \<open>Statements\<close>

type_synonym executed = "(exec_context \<times> query_result exec_result) option"

definition status_result :: "string \<Rightarrow> string \<Rightarrow> query_result" where
  "status_result column text = \<lparr>qr_columns = [column], qr_rows = [[VString text]], qr_affected = 0\<rparr>"

definition affected :: "nat \<Rightarrow> query_result" where
  "affected n = \<lparr>qr_columns = [''rows_affected''], qr_rows = [[VInteger (int n)]], qr_affected = n\<rparr>"

definition with_message :: "exec_context \<times> unit exec_result \<Rightarrow> string \<Rightarrow> executed" where
  "with_message p text = Some (fst p, bind_res (snd p) (\<lambda>_. Inr (status_result ''result'' text)))"

definition with_count :: "exec_context \<times> nat exec_result \<Rightarrow> exec_context \<times> query_result exec_result" where
  "with_count p = (fst p, bind_res (snd p) (\<lambda>n. Inr (affected n)))"

definition column_of_def :: "platform \<Rightarrow> expression create_column_def \<Rightarrow> column_schema exec_result" where
  "column_of_def pl col =
     bind_res (opt_res (evaluate_default pl) (cd_default col)) (\<lambda>d.
       Inr \<lparr>csc_name = cd_name col, csc_data_type = cd_data_type col, csc_nullable = cd_nullable col, csc_default = d\<rparr>)"

definition primary_key_of :: "expression create_column_def list \<Rightarrow> expression create_table_constraint list \<Rightarrow> string list option" where
  "primary_key_of columns constraints =
     (case List.map_filter (\<lambda>k. case k of TcPrimaryKey cols \<Rightarrow> Some cols | _ \<Rightarrow> None) constraints of
        cols # _ \<Rightarrow> Some cols
      | [] \<Rightarrow> (case map cd_name (filter cd_primary_key columns) of [] \<Rightarrow> None | cols \<Rightarrow> Some cols))"

definition stored_constraint_of :: "(expression \<Rightarrow> string) \<Rightarrow> string \<Rightarrow> nat \<Rightarrow> expression create_table_constraint \<Rightarrow> stored_constraint" where
  "stored_constraint_of show_expr table n k =
     (let (suffix, ty) =
        (case k of
           TcPrimaryKey cols \<Rightarrow> (''pk'', ScPrimaryKey cols)
         | TcUnique cols \<Rightarrow> (''uq'', ScUnique cols)
         | TcForeignKey cols ref_table ref_columns \<Rightarrow> (''fk'', ScForeignKey cols ref_table ref_columns)
         | TcCheck e \<Rightarrow> (''ck'', ScCheck (show_expr e)))
      in \<lparr>stc_name = table @ ''_'' @ suffix @ nat_to_string n, stc_type = ty\<rparr>)"

text \<open>The counter of the generated names runs on from the table's constraints to those of its columns.\<close>

definition stored_constraints_of :: "(expression \<Rightarrow> string) \<Rightarrow> string \<Rightarrow> expression create_column_def list
    \<Rightarrow> expression create_table_constraint list \<Rightarrow> stored_constraint list" where
  "stored_constraints_of show_expr table columns constraints =
     map (\<lambda>(n, k). stored_constraint_of show_expr table n k) (enumerate 1 constraints) @
     map (\<lambda>(n, col). \<lparr>stc_name = table @ ''_'' @ cd_name col @ ''_uq'' @ nat_to_string n, stc_type = ScUnique [cd_name col]\<rparr>)
       (enumerate (length constraints + 1) (filter cd_unique columns))"

definition execute_create_table :: "platform \<Rightarrow> (expression \<Rightarrow> string) \<Rightarrow> string \<Rightarrow> expression create_column_def list
    \<Rightarrow> expression create_table_constraint list \<Rightarrow> bool \<Rightarrow> exec_context \<Rightarrow> executed" where
  "execute_create_table pl show_expr table columns constraints if_not_exists c =
     (case map_res (column_of_def pl) columns of
        Inl e \<Rightarrow> Some (c, Inl e)
      | Inr cols \<Rightarrow>
          with_message
            (create_table table cols (primary_key_of columns constraints)
               (stored_constraints_of show_expr table columns constraints) if_not_exists c)
            (''Table '' @ in_quotes table @ '' created''))"

definition execute_drop_table :: "string \<Rightarrow> bool \<Rightarrow> exec_context \<Rightarrow> executed" where
  "execute_drop_table table if_exists c = with_message (drop_table table if_exists c) (''Table '' @ in_quotes table @ '' dropped'')"

fun alter_all :: "platform \<Rightarrow> (expression \<Rightarrow> string) \<Rightarrow> string \<Rightarrow> expression plan_alter_operation list \<Rightarrow> exec_context
    \<Rightarrow> exec_context \<times> unit exec_result" where
  "alter_all pl show_expr table [] c = (c, Inr ())"
| "alter_all pl show_expr table (op # ops) c =
     (case alter_table pl show_expr table op c of
        (c', Inl e) \<Rightarrow> (c', Inl e)
      | (c', Inr _) \<Rightarrow> alter_all pl show_expr table ops c')"

definition execute_alter_table :: "platform \<Rightarrow> (expression \<Rightarrow> string) \<Rightarrow> string \<Rightarrow> expression plan_alter_operation list
    \<Rightarrow> exec_context \<Rightarrow> executed" where
  "execute_alter_table pl show_expr table ops c =
     with_message (alter_all pl show_expr table ops c)
       (''Table '' @ in_quotes table @ '' altered'' @
        (if length ops = 1 then [] else '' ('' @ nat_to_string (length ops) @ '' operations)''))"

definition execute_create_index :: "platform \<Rightarrow> string \<Rightarrow> string \<Rightarrow> string list \<Rightarrow> bool \<Rightarrow> bool \<Rightarrow> exec_context \<Rightarrow> executed" where
  "execute_create_index pl index table columns unique if_not_exists c =
     with_message (create_index pl index table columns unique if_not_exists c) (''Index '' @ in_quotes index @ '' created'')"

definition execute_drop_index :: "string \<Rightarrow> bool \<Rightarrow> exec_context \<Rightarrow> executed" where
  "execute_drop_index index if_exists c = with_message (drop_index index if_exists c) (''Index '' @ in_quotes index @ '' dropped'')"

text \<open>The rows to insert: values are evaluated without a row.\<close>

definition source_rows :: "platform \<Rightarrow> exec_context \<Rightarrow> (plan_node, expression) insert_plan_source \<Rightarrow> row list exec_result option" where
  "source_rows pl c source =
     (case source of
        InsValues rows \<Rightarrow> Some (map_res (map_res (evaluate pl [] [])) rows)
      | InsQuery q \<Rightarrow>
          (case create_operator pl c q of
             Inl e \<Rightarrow> Some (Inl e)
           | Inr (_, s) \<Rightarrow> map_option collect_rows s))"

definition execute_insert :: "platform \<Rightarrow> string \<Rightarrow> string list \<Rightarrow> (plan_node, expression) insert_plan_source
    \<Rightarrow> exec_context \<Rightarrow> executed" where
  "execute_insert pl table columns source c =
     (case source_rows pl c source of
        None \<Rightarrow> None
      | Some (Inl e) \<Rightarrow> Some (c, Inl e)
      | Some (Inr rows) \<Rightarrow> map_option with_count (insert_rows table columns rows c))"

definition where_test :: "platform \<Rightarrow> expression \<Rightarrow> row_test" where
  "where_test pl e r cols = (evaluate pl cols r e = Inr (VBoolean True))"

definition execute_update :: "platform \<Rightarrow> string \<Rightarrow> (string \<times> expression) list \<Rightarrow> expression option \<Rightarrow> exec_context \<Rightarrow> executed" where
  "execute_update pl table assignments wh c =
     (case get_table c table of
        None \<Rightarrow> Some (c, Inl (TableNotFound table))
      | Some t \<Rightarrow>
          (case map_res (\<lambda>(col, e). bind_res (evaluate pl [] [] e) (\<lambda>v. Inr (col, v))) assignments of
             Inl e \<Rightarrow> Some (c, Inl e)
           | Inr as \<Rightarrow> map_option with_count (update_rows table as (map_option (where_test pl) wh) c)))"

definition execute_delete :: "platform \<Rightarrow> string \<Rightarrow> expression option \<Rightarrow> exec_context \<Rightarrow> executed" where
  "execute_delete pl table wh c = Some (with_count (delete_rows table (map_option (where_test pl) wh) c))"

primrec execute_internal :: "platform \<Rightarrow> (expression \<Rightarrow> string) \<Rightarrow> exec_context \<Rightarrow> plan_node \<Rightarrow> executed" where
  "execute_internal pl show_expr c (NCreateTable table columns constraints b) =
     execute_create_table pl show_expr table columns constraints b c"
| "execute_internal pl show_expr c (NDropTable table b) = execute_drop_table table b c"
| "execute_internal pl show_expr c (NAlterTable table ops) = execute_alter_table pl show_expr table ops c"
| "execute_internal pl show_expr c (NCreateIndex index table columns unique b) =
     execute_create_index pl index table columns unique b c"
| "execute_internal pl show_expr c (NDropIndex index b) = execute_drop_index index b c"
| "execute_internal pl show_expr c (NInsert table columns source) = execute_insert pl table columns source c"
| "execute_internal pl show_expr c (NUpdate table assignments wh) = execute_update pl table assignments wh c"
| "execute_internal pl show_expr c (NDelete table wh) = execute_delete pl table wh c"
| "execute_internal pl show_expr c NBeginTransaction = Some (c, Inr (status_result ''status'' ''BEGIN''))"
| "execute_internal pl show_expr c NCommitTransaction = Some (c, Inr (status_result ''status'' ''COMMIT''))"
| "execute_internal pl show_expr c NRollbackTransaction = Some (c, Inr (status_result ''status'' ''ROLLBACK''))"
| "execute_internal pl show_expr c (NScan table alias columns scan) =
     map_option (Pair c) (execute_query pl c (NScan table alias columns scan))"
| "execute_internal pl show_expr c (NFilter n p) = map_option (Pair c) (execute_query pl c (NFilter n p))"
| "execute_internal pl show_expr c (NProject n ps) = map_option (Pair c) (execute_query pl c (NProject n ps))"
| "execute_internal pl show_expr c (NJoin l r ty condition strategy) =
     map_option (Pair c) (execute_query pl c (NJoin l r ty condition strategy))"
| "execute_internal pl show_expr c (NAggregate n group_by aggregates) =
     map_option (Pair c) (execute_query pl c (NAggregate n group_by aggregates))"
| "execute_internal pl show_expr c (NSort n keys) = map_option (Pair c) (execute_query pl c (NSort n keys))"
| "execute_internal pl show_expr c (NLimit n limit offset) = map_option (Pair c) (execute_query pl c (NLimit n limit offset))"
| "execute_internal pl show_expr c NEmpty = map_option (Pair c) (execute_query pl c NEmpty)"
| "execute_internal pl show_expr c (NSetOperation op l r) = map_option (Pair c) (execute_query pl c (NSetOperation op l r))"

definition execute_with_params :: "platform \<Rightarrow> (expression \<Rightarrow> string) \<Rightarrow> exec_context \<Rightarrow> plan_node \<Rightarrow> sql_value list \<Rightarrow> executed" where
  "execute_with_params pl show_expr c n params =
     (case substitute_parameters pl params n of
        Inl e \<Rightarrow> Some (c, Inl e)
      | Inr n' \<Rightarrow> execute_internal pl show_expr c n')"

end
