(* ===== verification/SqlQuery.thy ===== *)
theory SqlQuery
  imports SqlExec
begin

text \<open>
  What a query means, and that the executor computes it.  \<open>meaning\<close> gives a plan its relation, by the
  textbook: the names its operator announces, the names of its batches, and the rows.  \<open>supported\<close> says
  when the executor can be trusted with it; the sections before show what it leaves out.
\<close>

section \<open>Aggregates\<close>

text \<open>What an aggregate function gives for the values of a group; nulls do not count.\<close>

definition no_nulls :: "sql_value list \<Rightarrow> sql_value list" where
  "no_nulls vs = filter (\<lambda>v. v \<noteq> VNull) vs"

definition number_of :: "platform \<Rightarrow> sql_value \<Rightarrow> f64" where
  "number_of pl v = (case value_to_f64 pl v of Inr f \<Rightarrow> f | Inl e \<Rightarrow> 0)"

definition sum_of :: "platform \<Rightarrow> sql_value list \<Rightarrow> f64" where
  "sum_of pl vs = foldl (\<lambda>s v. f64_add s (number_of pl v)) 0 (no_nulls vs)"

definition best_of :: "cmp_ordering \<Rightarrow> sql_value list \<Rightarrow> sql_value option" where
  "best_of side vs = foldl (\<lambda>m v. case m of None \<Rightarrow> Some v | Some w \<Rightarrow> if compare_values v w = side then Some v else Some w)
     None (no_nulls vs)"

definition count_of :: "sql_value list \<Rightarrow> int" where
  "count_of vs = wrap_i64 (int (length (no_nulls vs)))"

definition aggregate_meaning :: "platform \<Rightarrow> aggregate_function \<Rightarrow> sql_value list \<Rightarrow> sql_value" where
  "aggregate_meaning pl f vs =
     (case f of
        AggCount \<Rightarrow> VInteger (count_of vs)
      | AggSum \<Rightarrow> VFloat (sum_of pl vs)
      | AggAvg \<Rightarrow> if count_of vs = 0 then VNull else VFloat (f64_div (sum_of pl vs) (f64_of_int (count_of vs)))
      | AggMin \<Rightarrow> (case best_of Less vs of Some v \<Rightarrow> v | None \<Rightarrow> VNull)
      | AggMax \<Rightarrow> (case best_of Greater vs of Some v \<Rightarrow> v | None \<Rightarrow> VNull))"

text \<open>The accumulator after the values of a group.\<close>

definition accumulated :: "platform \<Rightarrow> aggregate_function \<Rightarrow> sql_value list \<Rightarrow> accumulator" where
  "accumulated pl f vs =
     \<lparr>ac_function = f, ac_count = count_of vs, ac_sum = (if f \<in> {AggSum, AggAvg} then sum_of pl vs else 0),
      ac_min = (if f = AggMin then best_of Less vs else None), ac_max = (if f = AggMax then best_of Greater vs else None)\<rparr>"

definition accepts :: "platform \<Rightarrow> aggregate_function \<Rightarrow> sql_value \<Rightarrow> bool" where
  "accepts pl f v \<longleftrightarrow> f \<in> {AggSum, AggAvg} \<longrightarrow> v = VNull \<or> (\<exists>x. value_to_f64 pl v = Inr x)"

lemma wrap_i64_Suc: "wrap_i64 (wrap_i64 i + 1) = wrap_i64 (i + 1)"
  unfolding wrap_i64_def by (simp add: mod_simps algebra_simps)

lemma accumulated_Nil: "accumulated pl f [] = accumulator_new f"
  by (simp add: accumulated_def accumulator_new_def count_of_def sum_of_def best_of_def no_nulls_def wrap_i64_def)

lemma accumulate_step:
  assumes "accepts pl f v"
  shows "accumulate pl v (accumulated pl f vs) = Inr (accumulated pl f (vs @ [v]))"
proof (cases "v = VNull")
  case True
  then show ?thesis by (simp add: accumulate_def accumulated_def count_of_def sum_of_def best_of_def no_nulls_def)
next
  case False
  have nn: "no_nulls (vs @ [v]) = no_nulls vs @ [v]" using False by (simp add: no_nulls_def)
  have count: "wrap_i64 (count_of vs + 1) = count_of (vs @ [v])"
    using wrap_i64_Suc [of "int (length (no_nulls vs))"] by (simp add: count_of_def nn add.commute)
  show ?thesis
    using False assms
    by (cases f) (auto simp: accumulate_def accumulated_def count accepts_def number_of_def sum_of_def best_of_def nn
        split: option.splits)
qed

lemma finalize_accumulated: "accumulator_finalize (accumulated pl f vs) = aggregate_meaning pl f vs"
  by (cases f) (simp_all add: accumulator_finalize_def accumulated_def aggregate_meaning_def)

lemma finalize_new: "accumulator_finalize (accumulator_new f) = aggregate_meaning pl f []"
  by (simp only: finalize_accumulated accumulated_Nil [of pl, symmetric])

text \<open>Groups: rows of one fingerprint, in the order of their first rows.\<close>

definition firsts :: "'a list \<Rightarrow> 'a list" where
  "firsts xs = rev (remdups (rev xs))"

lemma firsts_simps [simp]:
  "firsts [] = []" "firsts (xs @ [x]) = (if x \<in> set xs then firsts xs else firsts xs @ [x])"
  "set (firsts xs) = set xs" "firsts xs = [] \<longleftrightarrow> xs = []"
  by (simp_all add: firsts_def)

definition group_key :: "platform \<Rightarrow> string list \<Rightarrow> 'q plan_expression list \<Rightarrow> row \<Rightarrow> sql_value list" where
  "group_key pl cols group_by r = (case map_res (evaluate pl cols r) group_by of Inr k \<Rightarrow> k | Inl e \<Rightarrow> [])"

definition fingerprint :: "platform \<Rightarrow> string list \<Rightarrow> 'q plan_expression list \<Rightarrow> row \<Rightarrow> string" where
  "fingerprint pl cols group_by r = group_key_fingerprint pl (group_key pl cols group_by r)"

definition argument_of :: "platform \<Rightarrow> string list \<Rightarrow> 'q plan_expression aggregate_expr \<Rightarrow> row \<Rightarrow> sql_value" where
  "argument_of pl cols ag r = (case aggregate_value pl cols r ag of Inr v \<Rightarrow> v | Inl e \<Rightarrow> VNull)"

definition aggregable :: "platform \<Rightarrow> string list \<Rightarrow> 'q plan_expression list \<Rightarrow> 'q plan_expression aggregate_expr list
    \<Rightarrow> row list \<Rightarrow> bool" where
  "aggregable pl cols group_by ags rows \<longleftrightarrow>
     (\<forall>r \<in> set rows. (\<exists>k. map_res (evaluate pl cols r) group_by = Inr k)
        \<and> (\<forall>ag \<in> set ags. \<exists>v. aggregate_value pl cols r ag = Inr v \<and> accepts pl (ag_function ag) v))"

definition group_rows :: "platform \<Rightarrow> string list \<Rightarrow> 'q plan_expression list \<Rightarrow> row list \<Rightarrow> string \<Rightarrow> row list" where
  "group_rows pl cols group_by rows f = filter (\<lambda>r. fingerprint pl cols group_by r = f) rows"

definition aggregate_meanings :: "platform \<Rightarrow> string list \<Rightarrow> 'q plan_expression list \<Rightarrow> 'q plan_expression aggregate_expr list
    \<Rightarrow> row list \<Rightarrow> row list" where
  "aggregate_meanings pl cols group_by ags rows =
     (if group_by = [] \<and> rows = [] then [map (\<lambda>ag. aggregate_meaning pl (ag_function ag) []) ags]
      else
        map (\<lambda>f. let g = group_rows pl cols group_by rows f in
               group_key pl cols group_by (hd g) @
               map (\<lambda>ag. aggregate_meaning pl (ag_function ag) (map (argument_of pl cols ag) g)) ags)
          (firsts (map (fingerprint pl cols group_by) rows)))"

definition group_state :: "platform \<Rightarrow> string list \<Rightarrow> 'q plan_expression list \<Rightarrow> 'q plan_expression aggregate_expr list
    \<Rightarrow> row list \<Rightarrow> string \<Rightarrow> string \<times> sql_value list \<times> accumulator list" where
  "group_state pl cols group_by ags rows f =
     (let g = group_rows pl cols group_by rows f in
      (f, group_key pl cols group_by (hd g),
       map (\<lambda>ag. accumulated pl (ag_function ag) (map (argument_of pl cols ag) g)) ags))"

definition all_groups :: "platform \<Rightarrow> string list \<Rightarrow> 'q plan_expression list \<Rightarrow> 'q plan_expression aggregate_expr list
    \<Rightarrow> row list \<Rightarrow> groups" where
  "all_groups pl cols group_by ags rows =
     map (group_state pl cols group_by ags rows) (firsts (map (fingerprint pl cols group_by) rows))"

lemma accumulate_all_step:
  assumes "\<forall>ag \<in> set ags. \<exists>v. aggregate_value pl cols r ag = Inr v \<and> accepts pl (ag_function ag) v"
  shows "accumulate_all pl cols r ags (map (\<lambda>ag. accumulated pl (ag_function ag) (map (argument_of pl cols ag) g)) ags)
    = Inr (map (\<lambda>ag. accumulated pl (ag_function ag) (map (argument_of pl cols ag) (g @ [r]))) ags)"
  using assms
proof (induction ags)
  case (Cons ag ags)
  then obtain v where v: "aggregate_value pl cols r ag = Inr v" "accepts pl (ag_function ag) v" by auto
  then have "argument_of pl cols ag r = v" by (simp add: argument_of_def)
  then show ?case using Cons v accumulate_step [OF v(2)] by (simp del: bind_res_Inr)
qed simp

lemma map_of_groups:
  "map_of (map (\<lambda>f. (f, h f)) fs) f = (if f \<in> set fs then Some (h f) else None)"
  by (induction fs) auto

lemma aggregate_row_step:
  assumes "aggregable pl cols group_by ags [r]"
  shows "aggregate_row pl cols group_by ags (all_groups pl cols group_by ags rows) r
    = Inr (all_groups pl cols group_by ags (rows @ [r]))"
proof -
  let ?fp = "fingerprint pl cols group_by" and ?key = "group_key pl cols group_by"
  let ?fs = "firsts (map ?fp rows)" and ?g = "group_rows pl cols group_by"
  let ?accs = "\<lambda>g. map (\<lambda>ag. accumulated pl (ag_function ag) (map (argument_of pl cols ag) g)) ags"
  let ?gs = "all_groups pl cols group_by ags rows"
  have key: "map_res (evaluate pl cols r) group_by = Inr (?key r)"
    using assms by (auto simp: aggregable_def group_key_def)
  have fp: "group_key_fingerprint pl (?key r) = ?fp r" by (simp add: fingerprint_def)
  have args: "\<forall>ag \<in> set ags. \<exists>v. aggregate_value pl cols r ag = Inr v \<and> accepts pl (ag_function ag) v"
    using assms by (simp add: aggregable_def)
  have gs: "?gs = map (\<lambda>f. (f, ?key (hd (?g rows f)), ?accs (?g rows f))) ?fs"
    by (simp add: all_groups_def group_state_def Let_def)
  have known: "hm_contains ?gs (?fp r) \<longleftrightarrow> ?fp r \<in> set (map ?fp rows)"
    unfolding gs map_of_groups by simp
  let ?gs' = "if hm_contains ?gs (?fp r) then ?gs else ?gs @ [(?fp r, ?key r, fresh_accumulators ags)]"
  have mem: "?g (rows @ [r]) f = (if f = ?fp r then ?g rows f @ [r] else ?g rows f)" for f
    by (simp add: group_rows_def)
  have nonempty: "?g rows f \<noteq> []" if "f \<in> set (map ?fp rows)" for f
    using that by (auto simp: group_rows_def filter_empty_conv)
  have fresh: "fresh_accumulators ags = ?accs []" by (simp add: fresh_accumulators_def accumulated_Nil)
  have found: "map_of ?gs' (?fp r) = Some (?key (hd (?g (rows @ [r]) (?fp r))), ?accs (?g rows (?fp r)))"
  proof (cases "?fp r \<in> set (map ?fp rows)")
    case True
    then show ?thesis using known nonempty [OF True] by (simp add: gs map_of_groups mem hd_append)
  next
    case False
    then have "?g rows (?fp r) = []"
      unfolding group_rows_def filter_empty_conv by (metis image_eqI list.set_map)
    moreover have "map_of ?gs (?fp r) = None" using known False by blast
    ultimately show ?thesis using known False by (simp add: mem fresh map_add_def)
  qed
  have "map (\<lambda>(f, k, a). if f = ?fp r then (f, k, ?accs (?g rows (?fp r) @ [r])) else (f, k, a)) ?gs'
      = all_groups pl cols group_by ags (rows @ [r])"
  proof (cases "?fp r \<in> set (map ?fp rows)")
    case True
    have "?gs' = ?gs" using True known by simp
    then show ?thesis
      using True nonempty
      by (auto simp: gs all_groups_def group_state_def Let_def mem hd_append)
  next
    case False
    then have "?g rows (?fp r) = []"
      unfolding group_rows_def filter_empty_conv by (metis image_eqI list.set_map)
    moreover have "?gs' = ?gs @ [(?fp r, ?key r, fresh_accumulators ags)]" using False known by simp
    moreover have "?fp x \<noteq> ?fp r" if "x \<in> set rows" for x using False that by (metis image_eqI list.set_map)
    ultimately show ?thesis
      using False by (auto simp: gs all_groups_def group_state_def Let_def mem)
  qed
  then show ?thesis
    unfolding aggregate_row_def key bind_res_simps fp Let_def found option.case prod.case accumulate_all_step [OF args]
    by (simp only:)
qed

lemma fold_res_append: "fold_res f b (xs @ ys) = bind_res (fold_res f b xs) (\<lambda>b. fold_res f b ys)"
proof (induction xs arbitrary: b)
  case (Cons x xs)
  then show ?case by (cases "f b x") simp_all
qed simp

lemma aggregate_fold:
  "aggregable pl cols group_by ags rows \<Longrightarrow>
    fold_res (aggregate_row pl cols group_by ags) [] rows = Inr (all_groups pl cols group_by ags rows)"
proof (induction rows rule: rev_induct)
  case Nil
  then show ?case by (simp add: all_groups_def)
next
  case (snoc r rows)
  have "aggregable pl cols group_by ags rows" "aggregable pl cols group_by ags [r]"
    using snoc.prems by (auto simp: aggregable_def)
  then show ?case using snoc.IH aggregate_row_step [of pl cols group_by ags r rows] by (simp add: fold_res_append del: bind_res_Inr)
qed

lemma aggregate_drain:
  assumes "aggregable pl cols group_by ags (stream_rows s)" "snd s = None"
  shows "\<exists>t. drain (aggregate_next pl cols group_by ags) (s, False) = Some t \<and> snd t = None
    \<and> stream_rows t = aggregate_meanings pl cols group_by ags (stream_rows s)
    \<and> (\<forall>b \<in> set (fst t). rb_columns b = aggregate_columns group_by ags)"
proof -
  let ?rows = "aggregate_meanings pl cols group_by ags (stream_rows s)"
  have empty: "all_groups pl cols group_by ags (stream_rows s) = [] \<longleftrightarrow> stream_rows s = []"
    by (simp add: all_groups_def)
  have "aggregate_next pl cols group_by ags (s, False)
      = (Inr (Some (batch (aggregate_columns group_by ags) ?rows)), (([], None), True))"
    using assms aggregate_fold [OF assms(1)] empty
    by (auto simp: aggregate_next_def aggregate_meanings_def all_groups_def group_state_def Let_def fresh_accumulators_def
        finalize_accumulated finalize_new)
  moreover have "aggregate_next pl cols group_by ags (([], None), True) = (Inr None, (([], None), True))"
    by (simp add: aggregate_next_def)
  ultimately show ?thesis by (subst drain.simps) (simp add: stream_rows_def, subst drain.simps, simp)
qed

section \<open>The meaning of a plan\<close>

text \<open>A database is what the context has of every table: its columns and its visible rows.\<close>

type_synonym database = "string \<Rightarrow> (string list \<times> row list) option"

definition database_of :: "exec_context \<Rightarrow> database" where
  "database_of c table = map_option (\<lambda>t. (td_columns t, visible_rows (xc_snapshot c) t)) (get_table c table)"

text \<open>The names the operator announces, the names of its batches, and the rows.\<close>

type_synonym relation = "string list \<times> string list \<times> row list"

abbreviation announced :: "relation \<Rightarrow> string list" where
  "announced R \<equiv> fst R"

abbreviation names :: "relation \<Rightarrow> string list" where
  "names R \<equiv> fst (snd R)"

abbreviation tuples :: "relation \<Rightarrow> row list" where
  "tuples R \<equiv> snd (snd R)"

abbreviation same_names :: "string list \<Rightarrow> row list \<Rightarrow> relation" where
  "same_names cols rows \<equiv> (cols, cols, rows)"

definition limited :: "nat option \<Rightarrow> nat option \<Rightarrow> row list \<Rightarrow> row list" where
  "limited limit offset rows =
     (let rest = drop (case offset of Some n \<Rightarrow> n | None \<Rightarrow> 0) rows in
      case limit of Some n \<Rightarrow> take n rest | None \<Rightarrow> rest)"

definition join_meaning :: "platform \<Rightarrow> plan_join_type \<Rightarrow> expression option \<Rightarrow> relation \<Rightarrow> relation \<Rightarrow> relation" where
  "join_meaning pl ty condition L R =
     same_names (announced L @ announced R)
       (joined_rows (join_condition pl condition (announced L @ announced R)) (ty = JtLeft) (length (announced R))
          (\<lambda>_. tuples R) (tuples L))"

primrec plan_meaning :: "platform \<Rightarrow> database \<Rightarrow> plan_node \<Rightarrow> relation" where
  "plan_meaning pl db (NScan table alias columns scan) =
     (case db table of None \<Rightarrow> ([], [], [])
      | Some (cols, rows) \<Rightarrow> same_names (if columns = [] then cols else columns) rows)"
| "plan_meaning pl db (NFilter n p) =
     (let R = plan_meaning pl db n in same_names (announced R) (filter (passes pl p (names R)) (tuples R)))"
| "plan_meaning pl db (NProject n ps) =
     (let R = plan_meaning pl db n; ps' = expand_projections (announced R) ps in
      same_names (map snd ps') (map (projected pl (announced R) (map fst ps')) (tuples R)))"
| "plan_meaning pl db (NJoin l r ty condition strategy) =
     join_meaning pl ty condition (plan_meaning pl db l) (plan_meaning pl db r)"
| "plan_meaning pl db (NAggregate n group_by ags) =
     (let R = plan_meaning pl db n in
      same_names (aggregate_columns group_by ags) (aggregate_meanings pl (announced R) group_by ags (tuples R)))"
| "plan_meaning pl db (NSort n keys) =
     (let R = plan_meaning pl db n in same_names (announced R) (sort_by (compare_rows pl (announced R) keys) (tuples R)))"
| "plan_meaning pl db (NLimit n limit offset) =
     (let R = plan_meaning pl db n in same_names (announced R) (limited limit offset (tuples R)))"
| "plan_meaning pl db NEmpty = ([], [], [[]])"
| "plan_meaning pl db (NSetOperation op l r) =
     (let L = plan_meaning pl db l; R = plan_meaning pl db r in ([], names L, set_operation_rows pl op (tuples L) (tuples R)))"
| "plan_meaning pl db (NCreateTable table columns constraints b) = ([], [], [])"
| "plan_meaning pl db (NDropTable table b) = ([], [], [])"
| "plan_meaning pl db (NAlterTable table ops) = ([], [], [])"
| "plan_meaning pl db (NCreateIndex index table columns unique b) = ([], [], [])"
| "plan_meaning pl db (NDropIndex index b) = ([], [], [])"
| "plan_meaning pl db (NInsert table columns source) = ([], [], [])"
| "plan_meaning pl db (NUpdate table assignments wh) = ([], [], [])"
| "plan_meaning pl db (NDelete table wh) = ([], [], [])"
| "plan_meaning pl db NBeginTransaction = ([], [], [])"
| "plan_meaning pl db NCommitTransaction = ([], [], [])"
| "plan_meaning pl db NRollbackTransaction = ([], [], [])"

text \<open>Rows that satisfy the condition of a hash join must have the same key.\<close>

definition hash_keys_agree :: "platform \<Rightarrow> expression option \<Rightarrow> relation \<Rightarrow> relation \<Rightarrow> bool" where
  "hash_keys_agree pl condition L R \<longleftrightarrow>
     (case extract_key_indices condition (announced L) (announced R) of
        (Some i, Some j) \<Rightarrow>
          \<forall>l \<in> set (tuples L). \<forall>r \<in> set (tuples R).
            join_condition pl condition (announced L @ announced R) l r = Inr True \<longrightarrow> join_hash_key pl i l = join_hash_key pl j r
      | _ \<Rightarrow> False)"

text \<open>A join is computed correctly by the nested loop if it is an inner one, by either strategy if the
  result is smaller than a batch; its condition must not fail.\<close>

definition join_supported :: "platform \<Rightarrow> plan_join_type \<Rightarrow> expression option \<Rightarrow> join_strategy \<Rightarrow> relation \<Rightarrow> relation \<Rightarrow> bool" where
  "join_supported pl ty condition strategy L R \<longleftrightarrow>
     ty \<in> {JtInner, JtLeft, JtCross}
     \<and> decides (join_condition pl condition (announced L @ announced R)) (tuples L) (tuples R)
     \<and> (ty = JtLeft \<or> strategy = HashJoin \<longrightarrow> length (tuples (join_meaning pl ty condition L R)) < 1024)
     \<and> (strategy = HashJoin \<longrightarrow> hash_keys_agree pl condition L R)"

primrec plan_supported :: "platform \<Rightarrow> database \<Rightarrow> plan_node \<Rightarrow> bool" where
  "plan_supported pl db (NScan table alias columns scan) \<longleftrightarrow> db table \<noteq> None"
| "plan_supported pl db (NFilter n p) \<longleftrightarrow> plan_supported pl db n"
| "plan_supported pl db (NProject n ps) \<longleftrightarrow>
     plan_supported pl db n
     \<and> (let R = plan_meaning pl db n in projects pl (announced R) (map fst (expand_projections (announced R) ps)) (tuples R))"
| "plan_supported pl db (NJoin l r ty condition strategy) \<longleftrightarrow>
     plan_supported pl db l \<and> plan_supported pl db r
     \<and> join_supported pl ty condition strategy (plan_meaning pl db l) (plan_meaning pl db r)"
| "plan_supported pl db (NAggregate n group_by ags) \<longleftrightarrow>
     plan_supported pl db n \<and> (let R = plan_meaning pl db n in aggregable pl (announced R) group_by ags (tuples R))"
| "plan_supported pl db (NSort n keys) \<longleftrightarrow> plan_supported pl db n"
| "plan_supported pl db (NLimit n limit offset) \<longleftrightarrow> plan_supported pl db n"
| "plan_supported pl db NEmpty \<longleftrightarrow> True"
| "plan_supported pl db (NSetOperation op l r) \<longleftrightarrow>
     plan_supported pl db l \<and> plan_supported pl db r \<and> names (plan_meaning pl db l) = names (plan_meaning pl db r)"
| "plan_supported pl db (NCreateTable table columns constraints b) \<longleftrightarrow> False"
| "plan_supported pl db (NDropTable table b) \<longleftrightarrow> False"
| "plan_supported pl db (NAlterTable table ops) \<longleftrightarrow> False"
| "plan_supported pl db (NCreateIndex index table columns unique b) \<longleftrightarrow> False"
| "plan_supported pl db (NDropIndex index b) \<longleftrightarrow> False"
| "plan_supported pl db (NInsert table columns source) \<longleftrightarrow> False"
| "plan_supported pl db (NUpdate table assignments wh) \<longleftrightarrow> False"
| "plan_supported pl db (NDelete table wh) \<longleftrightarrow> False"
| "plan_supported pl db NBeginTransaction \<longleftrightarrow> False"
| "plan_supported pl db NCommitTransaction \<longleftrightarrow> False"
| "plan_supported pl db NRollbackTransaction \<longleftrightarrow> False"

section \<open>The executor computes the meaning\<close>

text \<open>A stream without an error that carries a relation.\<close>

definition carries :: "stream \<Rightarrow> relation \<Rightarrow> bool" where
  "carries s R \<longleftrightarrow> snd s = None \<and> stream_rows s = tuples R \<and> (\<forall>b \<in> set (fst s). rb_columns b = names R)"

definition opened_as :: "opened exec_result \<Rightarrow> relation \<Rightarrow> bool" where
  "opened_as o' R \<longleftrightarrow> (\<exists>s. o' = Inr (announced R, Some s) \<and> carries s R)"

lemma scan_carries:
  assumes "0 < n"
  shows "\<exists>s. drain scan_next (scan_new columns snapshot n t) = Some s
    \<and> carries s (same_names (if columns = [] then td_columns t else columns) (visible_rows snapshot t))"
  using scan.drain_rows [of "scan_new columns snapshot n t"] assms by (auto simp: carries_def scan_new_def)

lemma filter_carries:
  assumes "carries s R"
  shows "\<exists>s'. drain (filter_next pl p cols) s = Some s' \<and> carries s' (same_names cols (filter (passes pl p (names R)) (tuples R)))"
proof -
  have "filtered_rows pl p bs = filter (passes pl p cols') (concat (map rb_rows bs))" if "\<forall>b \<in> set bs. rb_columns b = cols'" for bs cols'
    using that by (induction bs) (simp_all add: filtered_rows_def)
  from this [of "fst s" "names R"] have "filtered_rows pl p (fst s) = filter (passes pl p (names R)) (tuples R)"
    using assms by (simp add: carries_def stream_rows_def)
  then show ?thesis using filter_op.drain_rows [of pl p cols s] assms by (auto simp: carries_def)
qed

lemma project_carries:
  assumes "carries s R" "projects pl input ps (tuples R)"
  shows "\<exists>s'. drain (project_next pl input ps cols) s = Some s' \<and> carries s' (same_names cols (map (projected pl input ps) (tuples R)))"
  using project_op.drain_rows [of pl input ps s cols] assms by (auto simp: carries_def)

lemma sort_carries:
  assumes "carries s R"
  shows "\<exists>s'. drain (sort_next pl cols keys) (sort_new s) = Some s' \<and> carries s' (same_names cols (sort_by (compare_rows pl cols keys) (tuples R)))"
  using sort_op.drain_rows [of "sort_new s" pl cols keys] assms
  by (auto simp: carries_def sort_new_def sort_pending_def)

lemma limit_carries:
  assumes "carries s R"
  shows "\<exists>s'. drain (limit_next limit offset cols) (limit_new s) = Some s' \<and> carries s' (same_names cols (limited limit offset (tuples R)))"
  using limit_op.drain_rows [of "limit_new s" limit offset cols] assms
  by (auto simp: carries_def limit_new_def limit_pending_def limited_def Let_def split: option.splits)

lemma find_names:
  assumes "\<forall>b \<in> set bs. rb_columns b = cols" "bs \<noteq> []"
  shows "stream_columns (bs, e) = cols"
proof (cases "cols = []")
  case True
  then have "find (\<lambda>b. rb_columns b \<noteq> []) bs = None" using assms(1) by (auto simp: find_None_iff)
  then show ?thesis using True by (simp add: stream_columns_def)
next
  case False
  then show ?thesis using assms by (cases bs) (simp_all add: stream_columns_def)
qed

lemma carries_names: "carries s R \<Longrightarrow> stream_columns s = names R \<or> fst s = []"
  using find_names [of "fst s" "names R" "snd s"] by (cases s) (auto simp: carries_def)

lemma collect_ok: "snd s = None \<Longrightarrow> collect_rows s = Inr (stream_rows s)"
  by simp

lemma set_op_carries:
  assumes "carries l L" "carries r R" "names L = names R"
  shows "\<exists>s. drain (set_op_next pl op) (set_op_new l r) = Some s
    \<and> carries s ([], names L, set_operation_rows pl op (tuples L) (tuples R))"
proof -
  obtain s where s: "drain (set_op_next pl op) (set_op_new l r) = Some s"
    "stream_rows s = set_op_pending pl op (set_op_new l r)" "snd s = None" "\<forall>b \<in> set (fst s). rb_columns b = set_op_header (set_op_new l r)"
    using set_op.drain_rows [of "set_op_new l r" pl op] assms by (auto simp: carries_def set_op_new_def)
  have rows: "set_op_pending pl op (set_op_new l r) = set_operation_rows pl op (tuples L) (tuples R)"
    using assms by (simp add: set_op_pending_def set_op_new_def carries_def)
  have cols: "stream_columns l = names L \<or> fst l = []" "stream_columns r = names L \<or> fst r = []"
    using carries_names [OF assms(1)] carries_names [OF assms(2)] assms(3) by auto
  have "fst s = []" if "fst l = []" "fst r = []"
  proof -
    have "tuples L = []" "tuples R = []" using assms that by (auto simp: carries_def stream_rows_def)
    then have none: "set_operation_rows pl op (tuples L) (tuples R) = []"
      by (cases op) (simp_all add: set_operation_rows_def deduplicate_rows_def)
    have "snd l = None" "snd r = None" "stream_rows l = tuples L" "stream_rows r = tuples R" using assms by (simp_all add: carries_def)
    then have "fst (set_op_next pl op (set_op_new l r)) = Inr None"
      by (simp add: set_op_next_def set_op_compute_def set_op_new_def none Let_def collect_ok)
    then have "drain (set_op_next pl op) (set_op_new l r) = Some ([], None)"
      by (subst drain.simps) (cases "set_op_next pl op (set_op_new l r)"; simp)
    then show ?thesis using s(1) by simp
  qed
  moreover have "stream_columns l = []" if "fst l = []" using that by (simp add: stream_columns_def)
  moreover have "stream_columns r = []" if "fst r = []" using that by (simp add: stream_columns_def)
  ultimately have "\<forall>b \<in> set (fst s). rb_columns b = names L"
    using s(4) cols by (auto simp: set_op_header_def set_op_new_def)
  then show ?thesis using s rows by (auto simp: carries_def)
qed

lemma empty_carries: "\<exists>s. drain empty_next False = Some s \<and> carries s ([], [], [[]])"
  using empty_op.drain_rows [of False] by (auto simp: carries_def)

lemma joined_inner [simp]: "joined_rows cond False width (\<lambda>_. rs) ls = rows_matches cond rs ls"
  by (simp add: joined_rows_def rows_matches_def joined_def)

lemma nested_join_carries:
  assumes "carries l L" "carries r R" "join_supported pl ty condition NestedLoop L R"
  shows "\<exists>s t. join_new (announced L) l (announced R) r ty = Inr s \<and> jo_columns s = announced L @ announced R
    \<and> drain (join_next pl condition) s = Some t \<and> carries t (join_meaning pl ty condition L R)"
proof -
  let ?cond = "join_condition pl condition (announced L @ announced R)"
  have reject: "reject_unsupported_join_type ty = Inr ()"
    using assms(3) by (auto simp: join_supported_def reject_unsupported_join_type_def)
  obtain s where sd: "s = \<lparr>jo_left = l, jo_right = r, jo_type = ty, jo_columns = announced L @ announced R,
      jo_right_cols = length (announced R), jo_right_data = None, jo_left_batch = None, jo_left_idx = 0, jo_right_idx = 0\<rparr>" by blast
  have s: "join_new (announced L) l (announced R) r ty = Inr s" "jo_left s = l" "jo_right s = r" "jo_type s = ty"
    "jo_columns s = announced L @ announced R" "jo_right_cols s = length (announced R)" "jo_right_data s = None"
    "jo_left_batch s = None" "jo_left_idx s = 0" "jo_right_idx s = 0"
    by (simp_all add: sd join_new_def reject)
  have rows: "snd l = None" "stream_rows l = tuples L" "snd r = None" "stream_rows r = tuples R"
    using assms(1,2) by (simp_all add: carries_def)
  have dec: "decides ?cond (tuples L) (tuples R)" using assms(3) by (simp add: join_supported_def)
  have "\<exists>t. drain (join_next pl condition) s = Some t \<and> carries t (join_meaning pl ty condition L R)"
  proof (cases "ty = JtLeft")
    case True
    then have "length (joined_rows ?cond True (length (announced R)) (\<lambda>_. tuples R) (tuples L)) < 1024"
      using assms(3) by (simp add: join_supported_def join_meaning_def)
    moreover have "decides_each ?cond (\<lambda>_. tuples R) (tuples L)" using dec by (auto simp: decides_each_def decides_def)
    ultimately show ?thesis
      using join_small [of s pl condition] s rows True by (auto simp: carries_def join_meaning_def)
  next
    case False
    have right: "join_right s = tuples R" by (simp add: join_right_def s rows)
    have pend: "join_pending pl condition s = rows_matches ?cond (tuples R) (tuples L)"
      by (simp add: join_pending_def Let_def right s rows partial_matches_def)
    have "join_good pl condition s" using False dec by (simp add: join_good_def right s rows)
    from nl_join_op.drain_rows [OF this] show ?thesis
      using False by (auto simp: carries_def join_meaning_def pend s)
  qed
  then show ?thesis using s by blast
qed

lemma hash_join_carries:
  assumes "carries l L" "carries r R" "join_supported pl ty condition HashJoin L R"
  shows "\<exists>s t. hash_join_new pl (announced L) l (announced R) r ty condition = Inr s \<and> ho_columns s = announced L @ announced R
    \<and> drain (hash_join_next pl condition) s = Some t \<and> carries t (join_meaning pl ty condition L R)"
proof -
  let ?cond = "join_condition pl condition (announced L @ announced R)"
  have rows: "snd l = None" "stream_rows l = tuples L" "snd r = None" "stream_rows r = tuples R"
    using assms(1,2) by (simp_all add: carries_def)
  have keys: "hash_keys_agree pl condition L R" using assms(3) by (simp add: join_supported_def)
  then obtain i j where ij: "extract_key_indices condition (announced L) (announced R) = (Some i, Some j)"
    by (auto simp: hash_keys_agree_def split: option.splits prod.splits)
  have reject: "reject_unsupported_join_type ty = Inr ()"
    using assms(3) by (auto simp: join_supported_def reject_unsupported_join_type_def)
  obtain s where sd: "s = \<lparr>ho_left = l, ho_type = ty, ho_columns = announced L @ announced R, ho_right_cols = length (announced R),
      ho_table = foldl (hash_table_insert pl (Some j)) [] (tuples R), ho_left_key = Some i, ho_done = False\<rparr>" by blast
  have s: "hash_join_new pl (announced L) l (announced R) r ty condition = Inr s" "ho_left s = l" "ho_type s = ty"
    "ho_columns s = announced L @ announced R" "ho_right_cols s = length (announced R)" "\<not> ho_done s" "ho_left_key s = Some i"
    "ho_table s = foldl (hash_table_insert pl (Some j)) [] (tuples R)"
    by (simp_all add: sd hash_join_new_def reject ij collect_ok rows)
  have cands: "candidates pl s x = filter (\<lambda>y. join_hash_key pl j y = join_hash_key pl i x) (tuples R)" for x
    using hash_table_lookup [of pl j "[]" "tuples R"] by (simp add: candidates_def s hm_get_or_def)
  have dec: "decides ?cond (tuples L) (tuples R)" using assms(3) by (simp add: join_supported_def)
  have "matches ?cond x (candidates pl s x) = matches ?cond x (tuples R)" if "x \<in> set (tuples L)" for x
    using keys that by (auto simp: matches_def cands hash_keys_agree_def ij intro!: arg_cong [where f = "map _"] filter_cong)
  then have joined: "joined_rows ?cond outer w (candidates pl s) (tuples L) = joined_rows ?cond outer w (\<lambda>_. tuples R) (tuples L)" for outer w
    by (auto simp: joined_rows_def joined_def intro!: arg_cong [where f = concat])
  have "decides_each ?cond (candidates pl s) (tuples L)" using dec by (auto simp: decides_each_def decides_def cands)
  moreover have "length (joined_rows ?cond (ty = JtLeft) (length (announced R)) (candidates pl s) (tuples L)) < 1024"
    using assms(3) by (simp only: join_supported_def join_meaning_def joined) simp
  ultimately have "\<exists>t. drain (hash_join_next pl condition) s = Some t \<and> carries t (join_meaning pl ty condition L R)"
    using hash_join_small [of s pl condition] s rows unfolding joined by (auto simp: carries_def join_meaning_def joined)
  then show ?thesis using s by blast
qed

lemma open_join_carries:
  assumes "carries l L" "carries r R" "join_supported pl ty condition strategy L R"
  shows "opened_as (open_join pl ty condition strategy (announced L, Some l) (announced R, Some r)) (join_meaning pl ty condition L R)"
proof -
  have reject: "reject_unsupported_join_type ty = Inr ()"
    using assms(3) by (auto simp: join_supported_def reject_unsupported_join_type_def)
  have ann: "announced (join_meaning pl ty condition L R) = announced L @ announced R" by (simp add: join_meaning_def)
  show ?thesis
  proof (cases "strategy = HashJoin")
    case True
    then show ?thesis using hash_join_carries [of l L r R pl ty condition] assms reject
      by (auto simp: open_join_def opened_as_def ann)
  next
    case False
    then have "join_supported pl ty condition NestedLoop L R" using assms(3) by (auto simp: join_supported_def)
    from nested_join_carries [OF assms(1,2) this] False reject show ?thesis
      by (cases strategy) (auto simp: open_join_def opened_as_def ann)
  qed
qed

lemma operator_carries:
  assumes "0 < xc_batch_size c"
  shows "plan_supported pl (database_of c) n \<Longrightarrow> opened_as (create_operator pl c n) (plan_meaning pl (database_of c) n)"
proof (induction n)
  case (NScan table al columns scan)
  then obtain t where "get_table c table = Some t" by (auto simp: database_of_def)
  then show ?case
    using scan_carries [OF assms, of columns "xc_snapshot c" t]
    by (auto simp: opened_as_def database_of_def Let_def) (simp_all add: scan_new_def)
next
  case (NFilter n p)
  obtain s where s: "create_operator pl c n = Inr (announced (plan_meaning pl (database_of c) n), Some s)"
    "carries s (plan_meaning pl (database_of c) n)" using NFilter by (auto simp: opened_as_def)
  then show ?case using filter_carries [OF s(2), of pl p "announced (plan_meaning pl (database_of c) n)"] by (auto simp: opened_as_def Let_def)
next
  case (NProject n ps)
  let ?R = "plan_meaning pl (database_of c) n"
  let ?ps = "expand_projections (announced ?R) ps"
  obtain s where s: "create_operator pl c n = Inr (announced ?R, Some s)" "carries s ?R"
    using NProject by (auto simp: opened_as_def)
  moreover have "projects pl (announced ?R) (map fst ?ps) (tuples ?R)" using NProject.prems by (simp add: Let_def)
  ultimately show ?case
    using project_carries [OF s(2), of pl "announced ?R" "map fst ?ps" "map snd ?ps"] by (auto simp: opened_as_def Let_def)
next
  case (NJoin l r ty condition strategy)
  let ?L = "plan_meaning pl (database_of c) l" and ?R = "plan_meaning pl (database_of c) r"
  obtain sl sr where "create_operator pl c l = Inr (announced ?L, Some sl)" "carries sl ?L"
    "create_operator pl c r = Inr (announced ?R, Some sr)" "carries sr ?R" "join_supported pl ty condition strategy ?L ?R"
    using NJoin by (auto simp: opened_as_def)
  then show ?case using open_join_carries [of sl ?L sr ?R pl ty condition strategy] by simp
next
  case (NAggregate n group_by ags)
  let ?R = "plan_meaning pl (database_of c) n"
  obtain s where s: "create_operator pl c n = Inr (announced ?R, Some s)" "carries s ?R"
    using NAggregate by (auto simp: opened_as_def)
  then show ?case
    using aggregate_drain [of pl "announced ?R" group_by ags s] NAggregate.prems
    by (auto simp: opened_as_def carries_def Let_def)
next
  case (NSort n keys)
  obtain s where s: "create_operator pl c n = Inr (announced (plan_meaning pl (database_of c) n), Some s)"
    "carries s (plan_meaning pl (database_of c) n)" using NSort by (auto simp: opened_as_def)
  then show ?case using sort_carries [OF s(2), of pl "announced (plan_meaning pl (database_of c) n)" keys] by (auto simp: opened_as_def Let_def)
next
  case (NLimit n limit offset)
  obtain s where s: "create_operator pl c n = Inr (announced (plan_meaning pl (database_of c) n), Some s)"
    "carries s (plan_meaning pl (database_of c) n)" using NLimit by (auto simp: opened_as_def)
  then show ?case using limit_carries [OF s(2), of limit offset "announced (plan_meaning pl (database_of c) n)"] by (auto simp: opened_as_def Let_def)
next
  case NEmpty
  then show ?case using empty_carries by (auto simp: opened_as_def)
next
  case (NSetOperation op l r)
  let ?L = "plan_meaning pl (database_of c) l" and ?R = "plan_meaning pl (database_of c) r"
  obtain sl sr where "create_operator pl c l = Inr (announced ?L, Some sl)" "carries sl ?L"
    "create_operator pl c r = Inr (announced ?R, Some sr)" "carries sr ?R" "names ?L = names ?R"
    using NSetOperation by (auto simp: opened_as_def)
  then show ?case using set_op_carries [of sl ?L sr ?R pl op] by (auto simp: opened_as_def Let_def)
qed simp_all

lemma fetch_all:
  "\<forall>b \<in> set bs. rb_columns b = cols \<Longrightarrow> cols' = cols \<or> cols' = [] \<Longrightarrow> length rows \<le> max_result_rows \<Longrightarrow>
    \<exists>out. fetch bs None cols' rows = Inr (query_result_new out (take max_result_rows (rows @ concat (map rb_rows bs))))
      \<and> (out = cols \<or> out = [] \<and> bs = [] \<and> cols' = [])"
proof (induction bs arbitrary: cols' rows)
  case Nil
  then show ?case by (intro exI [of _ cols']) auto
next
  case (Cons b bs)
  show ?case
  proof (cases "max_result_rows < length (rows @ rb_rows b)")
    case True
    then show ?thesis using Cons.prems(1,2) by (auto simp: Let_def)
  next
    case False
    then show ?thesis using Cons.IH [of "if cols' = [] then rb_columns b else cols'" "rows @ rb_rows b"] Cons.prems
      by (auto simp: Let_def)
  qed
qed

lemma execute_supported:
  assumes "0 < xc_batch_size c" "plan_supported pl (database_of c) n"
  shows "\<exists>out. execute_query pl c n
      = Some (Inr (query_result_new out (take max_result_rows (tuples (plan_meaning pl (database_of c) n)))))
    \<and> (out = names (plan_meaning pl (database_of c) n) \<or> out = [] \<and> tuples (plan_meaning pl (database_of c) n) = [])"
proof -
  let ?R = "plan_meaning pl (database_of c) n"
  obtain s where s: "create_operator pl c n = Inr (announced ?R, Some s)" "carries s ?R"
    using operator_carries [OF assms] by (auto simp: opened_as_def)
  have bs: "\<forall>b \<in> set (fst s). rb_columns b = names ?R" "concat (map rb_rows (fst s)) = tuples ?R" "snd s = None"
    using s(2) by (simp_all add: carries_def stream_rows_def)
  have "fst s = [] \<Longrightarrow> tuples ?R = []" using bs(2) by auto
  with fetch_all [OF bs(1), of "[]" "[]"] bs(2,3) s(1) show ?thesis
    by (auto simp: execute_query_def)
qed

text \<open>C23: The executor computes what a query means.  For a plan it supports, on any context whose batch
  size is not 0, building the operators and pulling their batches comes to an end without an error and
  returns the rows of the relation that the plan denotes, in its order, cut off at the limit of 100,000
  rows, under the names of that relation; only an empty result may come without names.\<close>

theorem queries_computed:
  assumes "0 < xc_batch_size c" "plan_supported pl (database_of c) n"
  shows "\<exists>out. execute_query pl c n
      = Some (Inr (query_result_new out (take max_result_rows (tuples (plan_meaning pl (database_of c) n)))))
    \<and> (out = names (plan_meaning pl (database_of c) n) \<or> out = [] \<and> tuples (plan_meaning pl (database_of c) n) = [])"
  by (rule execute_supported [OF assms])

text \<open>Two of the three sample accounts have a balance of 50.\<close>

definition sample_query :: plan_node where
  "sample_query =
     NProject (NFilter (NScan ''a'' None [] None) (PBinary (PColumn None ''amount'' DtBigInt) OpEqual (PLiteral (LInteger 50))))
       [ProjectionExpr (PColumn None ''id'' DtBigInt) (Some ''account'')]"

lemma sample_database: "database_of sample_context ''a'' =
    Some ([''id'', ''amount''], [[VInteger 1, VInteger 100], [VInteger 2, VInteger 50], [VInteger 3, VInteger 50]])"
  using sample_get(1) sample_visible by (simp add: database_of_def) (simp add: sample_context_def sample_table_def)

lemma sample_meaning:
  "plan_meaning pl (database_of sample_context) sample_query = same_names [''account''] [[VInteger 2], [VInteger 3]]"
  by (simp add: sample_query_def sample_database passes_def evaluate_predicate_def row_get_def evaluate_binary_op_def cmp_of_def
      expand_projections_def expand_projection_def projected_def project_row_def)

theorem queries_computed_witness:
  "\<forall>pl. \<exists>out. execute_query pl sample_context sample_query = Some (Inr (query_result_new out [[VInteger 2], [VInteger 3]]))
    \<and> out = [''account'']"
proof
  fix pl
  have "0 < xc_batch_size sample_context" by (simp add: sample_context_def)
  moreover have "plan_supported pl (database_of sample_context) sample_query"
    by (simp add: sample_query_def sample_database passes_def evaluate_predicate_def row_get_def evaluate_binary_op_def cmp_of_def
        expand_projections_def expand_projection_def projects_def project_row_def)
  ultimately show "\<exists>out. execute_query pl sample_context sample_query = Some (Inr (query_result_new out [[VInteger 2], [VInteger 3]]))
    \<and> out = [''account'']"
    using queries_computed [of sample_context pl sample_query] by (simp add: sample_meaning max_result_rows_def)
qed

end
