(* ===== verification/SqlResults.thy ===== *)
theory SqlResults
  imports SqlQuery
begin

text \<open>
  What the meaning of a plan amounts to: when \<^verbatim>\<open>ORDER BY\<close> sorts, when the hash join is the nested loop,
  what a set operation keeps; and the queries for which the executor does not do what it is asked.
\<close>

section \<open>Sorting\<close>

text \<open>A comparison that is a total preorder on a set.\<close>

locale comparison =
  fixes carrier :: "'a set" and cmp :: "'a \<Rightarrow> 'a \<Rightarrow> cmp_ordering"
  assumes cmp_sym: "x \<in> carrier \<Longrightarrow> y \<in> carrier \<Longrightarrow> cmp y x = rev_ordering (cmp x y)"
    and cmp_trans: "x \<in> carrier \<Longrightarrow> y \<in> carrier \<Longrightarrow> z \<in> carrier \<Longrightarrow>
      cmp x y \<noteq> Greater \<Longrightarrow> cmp y z \<noteq> Greater \<Longrightarrow> cmp x z \<noteq> Greater"
begin

lemma cmp_Greater: "x \<in> carrier \<Longrightarrow> y \<in> carrier \<Longrightarrow> cmp x y = Greater \<Longrightarrow> cmp y x = Less"
  using cmp_sym [of x y] by simp

lemma Equal_left:
  assumes "x \<in> carrier" "y \<in> carrier" "z \<in> carrier" "cmp x y = Equal"
  shows "cmp x z = cmp y z"
proof -
  have yx: "cmp y x = Equal" and z: "cmp z x = rev_ordering (cmp x z)" "cmp z y = rev_ordering (cmp y z)"
    using assms(4) cmp_sym [OF assms(1,2)] cmp_sym [OF assms(1,3)] cmp_sym [OF assms(2,3)] by simp_all
  have "cmp x z = Greater \<longleftrightarrow> cmp y z = Greater"
    using cmp_trans [OF assms(1-3)] cmp_trans [OF assms(2,1,3)] assms(4) yx by auto
  moreover have "cmp z x = Greater \<longleftrightarrow> cmp z y = Greater"
    using cmp_trans [OF assms(3,1,2)] cmp_trans [OF assms(3,2,1)] assms(4) yx by auto
  ultimately show ?thesis unfolding z by (cases "cmp x z"; cases "cmp y z") auto
qed

lemma insert_set: "set (insert_by cmp x xs) = insert x (set xs)"
  by (induction xs) auto

lemma insert_sorted:
  "x \<in> carrier \<Longrightarrow> set xs \<subseteq> carrier \<Longrightarrow> sorted_wrt (\<lambda>a b. cmp a b \<noteq> Greater) xs \<Longrightarrow>
    sorted_wrt (\<lambda>a b. cmp a b \<noteq> Greater) (insert_by cmp x xs)"
proof (induction xs)
  case (Cons y ys)
  then have y: "y \<in> carrier" "set ys \<subseteq> carrier" by auto
  show ?case
  proof (cases "cmp x y = Greater")
    case True
    then have "cmp y x \<noteq> Greater" using cmp_Greater Cons.prems(1) y(1) by force
    then show ?thesis using Cons True y by (auto simp: insert_set)
  next
    case False
    then have "\<forall>z \<in> set ys. cmp x z \<noteq> Greater" using Cons.prems cmp_trans [of x y] y by auto
    then show ?thesis using Cons.prems False by simp
  qed
qed simp

lemma sort_sorted: "set xs \<subseteq> carrier \<Longrightarrow> sorted_wrt (\<lambda>a b. cmp a b \<noteq> Greater) (sort_by cmp xs) \<and> set (sort_by cmp xs) = set xs"
  by (induction xs) (simp_all add: sort_by_def insert_sorted insert_set)

text \<open>Rows that compare equal keep their order.\<close>

lemma insert_stable:
  assumes "x \<in> carrier" "set xs \<subseteq> carrier" "a \<in> carrier"
  shows "filter (\<lambda>b. cmp a b = Equal) (insert_by cmp x xs) = filter (\<lambda>b. cmp a b = Equal) (x # xs)"
  using assms
proof (induction xs)
  case (Cons y ys)
  have "cmp a x \<noteq> Equal \<or> cmp a y \<noteq> Equal" if "cmp x y = Greater"
    using Equal_left [of a x y] that Cons.prems by auto
  then show ?case using Cons by auto
qed simp

lemma sort_stable:
  "set xs \<subseteq> carrier \<Longrightarrow> a \<in> carrier \<Longrightarrow> filter (\<lambda>b. cmp a b = Equal) (sort_by cmp xs) = filter (\<lambda>b. cmp a b = Equal) xs"
proof (induction xs)
  case (Cons x xs)
  then have "set (sort_by cmp xs) \<subseteq> carrier" using sort_sorted [of xs] by simp
  then show ?case using Cons insert_stable [of x "sort_by cmp xs" a] by (simp add: sort_by_def)
qed (simp add: sort_by_def)

end

lemma mset_insert_by: "mset (insert_by cmp x xs) = add_mset x (mset xs)"
  by (induction xs) auto

lemma mset_sort_by: "mset (sort_by cmp xs) = mset xs"
  by (induction xs) (simp_all add: sort_by_def mset_insert_by)

text \<open>Values of one family, and rows whose sort values under every key are of one family.\<close>

interpretation value_order: comparison "{v. family_of v = Some k}" compare_values for k
  by unfold_locales (rule compare_values_sym, use compare_values_trans in blast)

definition sortable_rows :: "platform \<Rightarrow> string list \<Rightarrow> ('q plan_expression sort_key \<Rightarrow> family)
    \<Rightarrow> 'q plan_expression sort_key list \<Rightarrow> row set" where
  "sortable_rows pl cols fam keys = {r. \<forall>k \<in> set keys. family_of (sort_value pl cols r k) = Some (fam k)}"

lemma compare_rows_sym: "compare_rows pl cols keys b a = rev_ordering (compare_rows pl cols keys a b)"
proof (induction keys)
  case (Cons k keys)
  have "compare_values (sort_value pl cols b k) (sort_value pl cols a k)
      = rev_ordering (compare_values (sort_value pl cols a k) (sort_value pl cols b k))" by (rule compare_values_sym)
  then show ?case
    using Cons by (cases "compare_values (sort_value pl cols a k) (sort_value pl cols b k)") (simp_all add: Let_def)
qed simp

lemma compare_rows_trans:
  "x \<in> sortable_rows pl cols fam keys \<Longrightarrow> y \<in> sortable_rows pl cols fam keys \<Longrightarrow> z \<in> sortable_rows pl cols fam keys \<Longrightarrow>
    compare_rows pl cols keys x y \<noteq> Greater \<Longrightarrow> compare_rows pl cols keys y z \<noteq> Greater \<Longrightarrow> compare_rows pl cols keys x z \<noteq> Greater"
proof (induction keys)
  case (Cons k keys)
  let ?v = "\<lambda>r. sort_value pl cols r k"
  have fam: "family_of (?v x) = Some (fam k)" "family_of (?v y) = Some (fam k)" "family_of (?v z) = Some (fam k)"
    and rest: "x \<in> sortable_rows pl cols fam keys" "y \<in> sortable_rows pl cols fam keys" "z \<in> sortable_rows pl cols fam keys"
    using Cons.prems(1-3) by (simp_all add: sortable_rows_def)
  note ord = value_order.cmp_trans [of _ "fam k", simplified] value_order.Equal_left [of _ "fam k", simplified]
  have sym: "compare_values (?v b) (?v a) = rev_ordering (compare_values (?v a) (?v b))" for a b by (rule compare_values_sym)
  have le: "compare_values (?v x) (?v z) \<noteq> Greater"
    if "compare_values (?v x) (?v y) \<noteq> Greater" "compare_values (?v y) (?v z) \<noteq> Greater"
    using ord(1) fam that by blast
  have ge: "compare_values (?v z) (?v x) \<noteq> Greater"
    if "compare_values (?v z) (?v y) \<noteq> Greater" "compare_values (?v y) (?v x) \<noteq> Greater"
    using ord(1) fam that by blast
  have eq: "compare_values (?v x) (?v z) = compare_values (?v y) (?v z)" if "compare_values (?v x) (?v y) = Equal"
    using ord(2) fam that by blast
  have eq': "compare_values (?v z) (?v x) = compare_values (?v y) (?v x)" if "compare_values (?v z) (?v y) = Equal"
    using ord(2) fam that by blast
  have eq2: "compare_values (?v x) (?v y) = compare_values (?v z) (?v y)" if "compare_values (?v x) (?v z) = Equal"
    using ord(2) fam that by blast
  show ?case
    using Cons.prems(4,5) Cons.IH [OF rest] le ge eq eq' eq2 sym [of y x] sym [of z y] sym [of z x]
    by (cases "compare_values (?v x) (?v y)"; cases "compare_values (?v y) (?v z)"; cases "compare_values (?v x) (?v z)")
      (auto simp: Let_def split: if_splits)
qed simp

interpretation rows_order: comparison "sortable_rows pl cols fam keys" "compare_rows pl cols keys" for pl cols fam keys
  by unfold_locales (rule compare_rows_sym, rule compare_rows_trans)


text \<open>The rows of the sample accounts by falling amount; the two with 50 stay as they are.\<close>

definition by_amount :: "expression sort_key list" where
  "by_amount = [SortKey (PColumn None ''amount'' DtBigInt) False False]"


section \<open>The two ways to join\<close>

text \<open>Values that are equal only if they print the same: integers, texts or truth values, or a null.\<close>

definition printed_alike :: "sql_value \<Rightarrow> sql_value \<Rightarrow> bool" where
  "printed_alike v w \<longleftrightarrow> v = VNull \<or> w = VNull
     \<or> (\<exists>i j. v = VInteger i \<and> w = VInteger j) \<or> (\<exists>s t. v = VString s \<and> w = VString t) \<or> (\<exists>b c. v = VBoolean b \<and> w = VBoolean c)"

lemma printed_alike_equal:
  assumes "printed_alike v w" "evaluate_binary_op pl OpEqual v w = Inr (VBoolean True)"
  shows "v = w"
  using assms by (auto simp: printed_alike_def evaluate_binary_op_def cmp_of_def split: if_splits)

text \<open>The condition \<open>a = b\<close> of a column of the left side and one of the right side.\<close>

definition key_condition :: "string \<Rightarrow> string \<Rightarrow> expression" where
  "key_condition a b = PBinary (PColumn None a DtBigInt) OpEqual (PColumn None b DtBigInt)"

definition key_columns :: "string \<Rightarrow> string \<Rightarrow> string list \<Rightarrow> string list \<Rightarrow> nat \<Rightarrow> nat \<Rightarrow> bool" where
  "key_columns a b ls rs i j \<longleftrightarrow>
     a \<noteq> ''*'' \<and> b \<noteq> ''*'' \<and> position a ls = Some i \<and> find_key_column a ls = Some i
     \<and> position b ls = None \<and> position b rs = Some j \<and> find_key_column b rs = Some j"

lemma position_append:
  "position a (xs @ ys) = (case position a xs of Some i \<Rightarrow> Some i | None \<Rightarrow> map_option ((+) (length xs)) (position a ys))"
  by (induction xs; cases "position a ys") (auto split: option.splits)

lemma position_less: "position a xs = Some i \<Longrightarrow> i < length xs"
  by (induction xs arbitrary: i) (auto split: if_splits)

lemma key_condition_value:
  assumes "key_columns a b ls rs i j" "length l = length ls"
  shows "join_condition pl (Some (key_condition a b)) (ls @ rs) l r
    = bind_res (evaluate_binary_op pl OpEqual (row_get l i) (row_get r j)) (\<lambda>v. case v of VBoolean b \<Rightarrow> Inr b | _ \<Rightarrow> Inr False)"
  using assms position_less [of a ls i]
  by (simp add: join_condition_def key_condition_def key_columns_def position_append row_get_def nth_append)

lemma equal_decides:
  "\<exists>b. bind_res (evaluate_binary_op pl OpEqual v w) (\<lambda>v. case v of VBoolean b \<Rightarrow> Inr b | _ \<Rightarrow> Inr False) = Inr b"
  by (cases "v = VNull \<or> w = VNull") (auto simp: evaluate_binary_op_def)

lemma keyed_join_supported:
  assumes "key_columns a b (announced L) (announced R) i j" "ty \<in> {JtInner, JtLeft, JtCross}"
    and "\<forall>l \<in> set (tuples L). length l = length (announced L)"
    and "\<forall>l \<in> set (tuples L). \<forall>r \<in> set (tuples R). printed_alike (row_get l i) (row_get r j)"
    and "length (tuples (join_meaning pl ty (Some (key_condition a b)) L R)) < 1024"
  shows "join_supported pl ty (Some (key_condition a b)) strategy L R"
proof -
  let ?cond = "join_condition pl (Some (key_condition a b)) (announced L @ announced R)"
  have "join_hash_key pl i l = join_hash_key pl j r"
    if rows: "l \<in> set (tuples L)" "r \<in> set (tuples R)" and eq: "?cond l r = Inr True" for l r
  proof -
    have "length l = length (announced L)" "printed_alike (row_get l i) (row_get r j)" using assms(3,4) rows by blast+
    moreover from this eq have "evaluate_binary_op pl OpEqual (row_get l i) (row_get r j) = Inr (VBoolean True)"
      using key_condition_value [OF assms(1)]
      by (cases "row_get l i = VNull \<or> row_get r j = VNull") (auto simp: evaluate_binary_op_def)
    ultimately have "row_get l i = row_get r j" using printed_alike_equal by blast
    then show ?thesis by (simp add: join_hash_key_def)
  qed
  moreover have "extract_key_indices (Some (key_condition a b)) (announced L) (announced R) = (Some i, Some j)"
    using assms(1) by (simp add: extract_key_indices_def key_condition_def key_name_def key_columns_def)
  ultimately have "hash_keys_agree pl (Some (key_condition a b)) L R" by (simp add: hash_keys_agree_def)
  moreover have "decides (join_condition pl (Some (key_condition a b)) (announced L @ announced R)) (tuples L) (tuples R)"
    using assms(3) key_condition_value [OF assms(1)] equal_decides by (simp add: decides_def)
  ultimately show ?thesis using assms(2,5) by (simp add: join_supported_def)
qed



section \<open>Queries that are not computed\<close>

text \<open>A left row after which the hash join's result is full ends its batch: the rest of it is not joined.\<close>

lemma hash_join_loses_rows:
  assumes "\<forall>r \<in> set rs. cond l r = Inr True" "1024 \<le> length rs" "cands l = rs"
  shows "hash_join_batch cond outer width cands (l # lost) [] = Inr (True, map ((@) l) (take 1024 rs))"
proof -
  have dec: "decides cond [l] rs" and all: "matches cond l rs' = map ((@) l) rs'" if "set rs' \<subseteq> set rs" for rs'
    using assms(1) that by (auto simp: decides_def matches_def subset_iff intro!: arg_cong [where f = "map _"] filter_True)
  from join_row_ok [OF dec, of rs "[]" 0 False] assms(2) obtain full i' acc' m' where
    row: "join_row (cond l) l rs 0 [] False = Inr (full, i', acc', m')"
      "acc' @ matches cond l (drop i' rs) = matches cond l rs" "i' \<le> length rs"
      "full \<longrightarrow> length acc' = 1024" "\<not> full \<longrightarrow> length acc' < 1024 \<and> i' = length rs"
    by auto
  have "matches cond l rs = map ((@) l) rs" using all by simp
  then have full: full using row assms(2) by (cases full) (auto simp: matches_def dest: arg_cong [where f = length])
  then have "acc' = take 1024 (acc' @ matches cond l (drop i' rs))" using row(4) by simp
  also have "\<dots> = map ((@) l) (take 1024 rs)" using row(2) all by (simp add: take_map)
  finally show ?thesis using row(1) full assms(3) by simp
qed

text \<open>A left join whose result is full just at the last match of a row goes on after the batch as if that
  row had had none.\<close>

lemma left_join_adds_a_null_row:
  "join_batch cond True width right (l # ls) li (length right) [] = join_batch cond True width right ls (li + 1) 0 [l @ replicate width VNull]"
  by simp

text \<open>A number and a text compare as equal, a whole number equals a float that prints differently.\<close>

lemma number_equals_text: "evaluate_binary_op pl OpEqual (VInteger i) (VString s) = Inr (VBoolean True)"
  by (simp add: evaluate_binary_op_def)

text \<open>\<^verbatim>\<open>NULL AND FALSE\<close> and \<^verbatim>\<open>NULL OR TRUE\<close> are null.\<close>

lemma null_decides:
  "evaluate_binary_op pl OpAnd VNull (VBoolean False) = Inr VNull"
  "evaluate_binary_op pl OpOr VNull (VBoolean True) = Inr VNull"
  by (simp_all add: evaluate_binary_op_def)

text \<open>With nulls the order is none: 1 and 2 are both equal to a null, and 1 is less than 2.\<close>

lemma null_breaks_order:
  "compare_values (VInteger 2) VNull = Equal \<and> compare_values VNull (VInteger 1) = Equal
    \<and> compare_values (VInteger 2) (VInteger 1) = Greater"
  by (simp add: cmp_of_def)

text \<open>A set operation announces no columns, so that an \<^verbatim>\<open>ORDER BY\<close> on top of it finds none and sorts nothing.\<close>

lemma set_operation_announces_nothing: "announced (plan_meaning pl db (NSetOperation op l r)) = []"
  by (simp add: Let_def)

end
