(* ===== verification/SqlAst.thy ===== *)
theory SqlAst
  imports SqlEval
begin

text \<open>
  The syntax tree of a statement (\<^verbatim>\<open>aegis-query/src/ast.rs\<close>).  Expressions and queries of the source are
  mutually recursive: as in the plans, an expression is a datatype over the type \<open>'q\<close> of its subqueries
  and a query is the fixed point.  Expressions are also over the type \<open>'f\<close> of the numbers in
  their literals, so that the derived equality of the source, which compares numbers as numbers, is the
  relator of the datatype over \<open>f64_eq\<close>.
\<close>

section \<open>Expressions\<close>

datatype 'f ast_literal = LitNull | LitBoolean bool | LitInteger int | LitFloat 'f | LitString string

datatype column_ref = ColumnRef (cr_table: "string option") (cr_column: string)

datatype binary_operator =
    BoAdd | BoSubtract | BoMultiply | BoDivide | BoModulo
  | BoEqual | BoNotEqual | BoLessThan | BoLessThanOrEqual | BoGreaterThan | BoGreaterThanOrEqual
  | BoAnd | BoOr | BoConcat

datatype unary_operator = UoNot | UoNegative | UoPositive

datatype ('f, 'q) sql_expr =
    ELiteral "'f ast_literal"
  | EColumn column_ref
  | EBinary "('f, 'q) sql_expr" binary_operator "('f, 'q) sql_expr"
  | EUnary unary_operator "('f, 'q) sql_expr"
  | EFunction string "('f, 'q) sql_expr list" bool
  | ECase "('f, 'q) sql_expr option" "(('f, 'q) sql_expr \<times> ('f, 'q) sql_expr) list" "('f, 'q) sql_expr option"
  | ECast "('f, 'q) sql_expr" data_type
  | EInList "('f, 'q) sql_expr" "('f, 'q) sql_expr list" bool
  | EInSubquery "('f, 'q) sql_expr" 'q bool
  | EBetween "('f, 'q) sql_expr" "('f, 'q) sql_expr" "('f, 'q) sql_expr" bool
  | ELike "('f, 'q) sql_expr" "('f, 'q) sql_expr" bool
  | EIsNull "('f, 'q) sql_expr" bool
  | EExists 'q bool
  | ESubquery 'q
  | EPlaceholder nat

section \<open>Queries\<close>

datatype 'e select_column = AllColumns | TableAllColumns string | ExprColumn 'e "string option"

datatype join_type = JoinInner | JoinLeft | JoinRight | JoinFull | JoinCross

datatype 'q table_reference = TrTable string "string option" | TrSubquery 'q string

datatype ('q, 'e) join_clause = JoinClause (jc_type: join_type) (jc_table: "'q table_reference") (jc_condition: "'e option")

datatype ('q, 'e) from_clause = FromClause (fc_source: "'q table_reference") (fc_joins: "('q, 'e) join_clause list")

datatype 'e order_by_item = OrderByItem (ob_expression: 'e) (ob_ascending: bool) (ob_nulls_first: "bool option")

datatype ('q, 'e) select_body =
  SelectBody (sb_distinct: bool) (sb_columns: "'e select_column list") (sb_from: "('q, 'e) from_clause option")
    (sb_where: "'e option") (sb_group_by: "'e list") (sb_having: "'e option") (sb_order_by: "'e order_by_item list")
    (sb_limit: "nat option") (sb_offset: "nat option")

datatype 'f select_statement = SelectQuery "('f select_statement, ('f, 'f select_statement) sql_expr) select_body"

type_synonym query = "f64 select_statement"
type_synonym ast_expr = "(f64, query) sql_expr"

text \<open>The derived \<^verbatim>\<open>==\<close> of queries and of expressions.\<close>

definition query_eq :: "query \<Rightarrow> query \<Rightarrow> bool" where
  "query_eq = rel_select_statement f64_eq"

definition expr_eq :: "('q \<Rightarrow> 'q \<Rightarrow> bool) \<Rightarrow> (f64, 'q) sql_expr \<Rightarrow> (f64, 'q) sql_expr \<Rightarrow> bool" where
  "expr_eq R = rel_sql_expr f64_eq R"

section \<open>Other statements\<close>

datatype insert_source = IsValues "ast_expr list list" | IsQuery query

datatype column_constraint =
  CcPrimaryKey | CcUnique | CcNotNull | CcCheck ast_expr | CcReferences string string

record column_definition =
  cl_name :: string
  cl_data_type :: data_type
  cl_nullable :: bool
  cl_default :: "ast_expr option"
  cl_constraints :: "column_constraint list"

datatype table_constraint =
    TblPrimaryKey "string list"
  | TblUnique "string list"
  | TblForeignKey "string list" string "string list"
  | TblCheck ast_expr

datatype alter_table_operation =
    AddColumn column_definition
  | DropColumn string bool
  | RenameColumn string string
  | AlterColumn string "data_type option" "bool option" "ast_expr option option"
  | RenameTable string
  | AddConstraint table_constraint
  | DropConstraint string

record create_table_statement =
  ct_name :: string
  ct_columns :: "column_definition list"
  ct_constraints :: "table_constraint list"
  ct_if_not_exists :: bool

record create_index_statement =
  ci_name :: string
  ci_table :: string
  ci_columns :: "string list"
  ci_unique :: bool
  ci_if_not_exists :: bool

datatype statement =
    StSelect query
  | StInsert string "string list option" insert_source
  | StUpdate string "(string \<times> ast_expr) list" "ast_expr option"
  | StDelete string "ast_expr option"
  | StCreateTable create_table_statement
  | StDropTable string bool
  | StAlterTable string "alter_table_operation list"
  | StCreateIndex create_index_statement
  | StDropIndex string bool
  | StSetOperation set_operation_type statement statement
  | StBegin
  | StCommit
  | StRollback

text \<open>Shorthands of the source for leaves.\<close>

definition column_expr :: "string \<Rightarrow> ast_expr" where
  "column_expr name = EColumn (ColumnRef None name)"

definition qualified_column :: "string \<Rightarrow> string \<Rightarrow> ast_expr" where
  "qualified_column table name = EColumn (ColumnRef (Some table) name)"

definition int_literal :: "int \<Rightarrow> ast_expr" where
  "int_literal i = ELiteral (LitInteger i)"

definition string_literal :: "string \<Rightarrow> ast_expr" where
  "string_literal s = ELiteral (LitString s)"

definition bool_literal :: "bool \<Rightarrow> ast_expr" where
  "bool_literal b = ELiteral (LitBoolean b)"

definition null_literal :: ast_expr where
  "null_literal = ELiteral LitNull"

end
