(* ===== verification/SqlPlanner.thy ===== *)
theory SqlPlanner
  imports SqlAst
begin

text \<open>
  The planner (\<^verbatim>\<open>aegis-query/src/planner.rs\<close>): from a statement to a plan, with an estimate of its cost.
  A query inside an expression is planned by the recursion of \<open>plan_select\<close>; the functions before it
  work on expressions whose subqueries are pairs of the query and its plan.
\<close>

section \<open>Schema and plans\<close>

datatype planner_error = PeTableNotFound string | PeColumnNotFound string | PeUnsupported string | PeInternal string

type_synonym 'a planner_result = "planner_error + 'a"

record query_plan =
  qp_root :: plan_node
  qp_cost :: f64
  qp_rows :: u64

record column_info =
  cn_name :: string
  cn_data_type :: data_type
  cn_nullable :: bool

record table_info =
  ti_name :: string
  ti_columns :: "column_info list"
  ti_row_count :: u64

record index_info =
  ii_name :: string
  ii_columns :: "string list"
  ii_unique :: bool

record planner_schema =
  ps_tables :: "(string, table_info) hmap"
  ps_indexes :: "(string, index_info list) hmap"

definition planner_schema_new :: planner_schema where
  "planner_schema_new = \<lparr>ps_tables = [], ps_indexes = []\<rparr>"

definition ps_add_table :: "table_info \<Rightarrow> planner_schema \<Rightarrow> planner_schema" where
  "ps_add_table t s = s\<lparr>ps_tables := hm_insert (ti_name t) t (ps_tables s)\<rparr>"

definition ps_add_index :: "string \<Rightarrow> index_info \<Rightarrow> planner_schema \<Rightarrow> planner_schema" where
  "ps_add_index table i s = s\<lparr>ps_indexes := hm_insert table (hm_get_or (ps_indexes s) table [] @ [i]) (ps_indexes s)\<rparr>"

definition ps_get_table :: "string \<Rightarrow> planner_schema \<Rightarrow> table_info option" where
  "ps_get_table name s = hm_get (ps_tables s) name"

definition ps_get_indexes :: "string \<Rightarrow> planner_schema \<Rightarrow> index_info list option" where
  "ps_get_indexes table s = hm_get (ps_indexes s) table"

section \<open>Estimates\<close>

text \<open>Logarithm and square root of floats are those of the platform.\<close>

record maths =
  mt_log2 :: "f64 \<Rightarrow> f64"
  mt_sqrt :: "f64 \<Rightarrow> f64"

definition f64_of_u64 :: "u64 \<Rightarrow> f64" where
  "f64_of_u64 n = f64_of_int (uint n)"

definition f64_to_u64 :: "f64 \<Rightarrow> u64" where
  "f64_to_u64 x =
     (if is_nan x then 0
      else of_int (max 0 (min (2 ^ 64 - 1) (sgn (fl_scaled x) * (\<bar>fl_scaled x\<bar> div int fl_one)))))"

definition f64_tenth :: f64 where "f64_tenth = 0x3FB999999999999A"
definition f64_hundredth :: f64 where "f64_hundredth = 0x3F847AE147AE147B"
definition f64_half :: f64 where "f64_half = 0x3FE0000000000000"
definition f64_six_fifths :: f64 where "f64_six_fifths = 0x3FF3333333333333"

definition row_count_or :: "u64 \<Rightarrow> string \<Rightarrow> planner_schema \<Rightarrow> u64" where
  "row_count_or n table s = (case ps_get_table table s of Some t \<Rightarrow> ti_row_count t | None \<Rightarrow> n)"

definition join_rows :: "plan_join_type \<Rightarrow> u64 \<Rightarrow> u64 \<Rightarrow> u64" where
  "join_rows ty l r = (if ty = JtCross then l * r else (l + r) div 2)"

definition join_cost :: "maths \<Rightarrow> join_strategy \<Rightarrow> u64 \<Rightarrow> u64 \<Rightarrow> f64" where
  "join_cost mt strategy l r =
     (case strategy of
        NestedLoop \<Rightarrow> f64_mul (f64_of_u64 l) (f64_of_u64 r)
      | HashJoin \<Rightarrow> f64_add (f64_add (f64_of_u64 l) (f64_of_u64 r)) (f64_mul (f64_of_u64 r) f64_six_fifths)
      | MergeJoin \<Rightarrow>
          f64_add (f64_add (f64_mul (f64_of_u64 l) (mt_log2 mt (f64_of_int 2))) (f64_mul (f64_of_u64 r) (mt_log2 mt (f64_of_int 2))))
            (f64_of_u64 (l + r)))"

primrec estimate_cost :: "maths \<Rightarrow> planner_schema \<Rightarrow> plan_node \<Rightarrow> f64 \<times> u64" where
  "estimate_cost mt s (NScan table alias columns scan) =
     (let rows = row_count_or 1000 table s in (f64_mul (f64_of_u64 rows) (f64_of_int 1), rows))"
| "estimate_cost mt s (NFilter input p) =
     (case estimate_cost mt s input of (cost, rows) \<Rightarrow>
        (f64_add cost (f64_mul (f64_of_u64 rows) f64_tenth), max (f64_to_u64 (f64_mul (f64_of_u64 rows) f64_tenth)) 1))"
| "estimate_cost mt s (NProject input ps) =
     (case estimate_cost mt s input of (cost, rows) \<Rightarrow> (f64_add cost (f64_mul (f64_of_u64 rows) f64_hundredth), rows))"
| "estimate_cost mt s (NJoin l r ty condition strategy) =
     (case (estimate_cost mt s l, estimate_cost mt s r) of ((lcost, lrows), (rcost, rrows)) \<Rightarrow>
        (f64_add (f64_add lcost rcost) (join_cost mt strategy lrows rrows), join_rows ty lrows rrows))"
| "estimate_cost mt s (NAggregate input group_by ags) =
     (case estimate_cost mt s input of (cost, rows) \<Rightarrow>
        (f64_add cost (f64_mul (f64_of_u64 rows) f64_half),
         max (if group_by = [] then 1 else f64_to_u64 (mt_sqrt mt (f64_of_u64 rows))) 1))"
| "estimate_cost mt s (NSort input keys) =
     (case estimate_cost mt s input of (cost, rows) \<Rightarrow>
        (f64_add cost (f64_mul (f64_of_u64 rows) (mt_log2 mt (f64_of_u64 rows))), rows))"
| "estimate_cost mt s (NLimit input limit offset) =
     (case estimate_cost mt s input of (cost, rows) \<Rightarrow>
        (cost, min (case limit of Some n \<Rightarrow> of_nat n | None \<Rightarrow> rows) rows))"
| "estimate_cost mt s NEmpty = (0, 1)"
| "estimate_cost mt s (NCreateTable table columns constraints b) = (f64_of_int 1, 0)"
| "estimate_cost mt s (NDropTable table b) = (f64_of_int 1, 0)"
| "estimate_cost mt s (NAlterTable table ops) = (f64_of_int 1, 0)"
| "estimate_cost mt s (NCreateIndex index table columns unique b) = (f64_of_int 1, 0)"
| "estimate_cost mt s (NDropIndex index b) = (f64_of_int 1, 0)"
| "estimate_cost mt s (NInsert table columns source) =
     (let rows = (case map_insert_plan_source (estimate_cost mt s) (\<lambda>e. e) source of
                    InsValues vs \<Rightarrow> of_nat (length vs)
                  | InsQuery (cost, rows) \<Rightarrow> rows)
      in (f64_of_u64 rows, rows))"
| "estimate_cost mt s (NUpdate table assignments wh) =
     (let rows = row_count_or 100 table s in (f64_of_u64 rows, rows))"
| "estimate_cost mt s (NDelete table wh) =
     (let rows = row_count_or 100 table s in (f64_of_u64 rows, rows))"
| "estimate_cost mt s (NSetOperation op l r) =
     (case (estimate_cost mt s l, estimate_cost mt s r) of ((lcost, lrows), (rcost, rrows)) \<Rightarrow>
        (f64_add (f64_add lcost rcost) (f64_of_u64 (lrows + rrows)), lrows + rrows))"
| "estimate_cost mt s NBeginTransaction = (0, 0)"
| "estimate_cost mt s NCommitTransaction = (0, 0)"
| "estimate_cost mt s NRollbackTransaction = (0, 0)"

section \<open>Expressions\<close>

definition plan_literal_of :: "f64 ast_literal \<Rightarrow> plan_literal" where
  "plan_literal_of l =
     (case l of
        LitNull \<Rightarrow> LNull
      | LitBoolean b \<Rightarrow> LBoolean b
      | LitInteger i \<Rightarrow> LInteger i
      | LitFloat f \<Rightarrow> LFloat f
      | LitString s \<Rightarrow> LString s)"

definition plan_op :: "binary_operator \<Rightarrow> plan_binary_op" where
  "plan_op op =
     (case op of
        BoAdd \<Rightarrow> OpAdd
      | BoSubtract \<Rightarrow> OpSubtract
      | BoMultiply \<Rightarrow> OpMultiply
      | BoDivide \<Rightarrow> OpDivide
      | BoModulo \<Rightarrow> OpModulo
      | BoEqual \<Rightarrow> OpEqual
      | BoNotEqual \<Rightarrow> OpNotEqual
      | BoLessThan \<Rightarrow> OpLessThan
      | BoLessThanOrEqual \<Rightarrow> OpLessThanOrEqual
      | BoGreaterThan \<Rightarrow> OpGreaterThan
      | BoGreaterThanOrEqual \<Rightarrow> OpGreaterThanOrEqual
      | BoAnd \<Rightarrow> OpAnd
      | BoOr \<Rightarrow> OpOr
      | BoConcat \<Rightarrow> OpConcat)"

text \<open>\<open>sub\<close> plans a subquery.\<close>

primrec plan_expression :: "('q \<Rightarrow> query_plan planner_result) \<Rightarrow> (f64, 'q) sql_expr \<Rightarrow> expression planner_result" where
  "plan_expression sub (ELiteral l) = Inr (PLiteral (plan_literal_of l))"
| "plan_expression sub (EColumn c) = Inr (PColumn (cr_table c) (cr_column c) DtAny)"
| "plan_expression sub (EBinary left op right) =
     bind_res (plan_expression sub left) (\<lambda>a. bind_res (plan_expression sub right) (\<lambda>b. Inr (PBinary a (plan_op op) b)))"
| "plan_expression sub (EUnary op e) =
     (case op of
        UoNot \<Rightarrow> bind_res (plan_expression sub e) (\<lambda>a. Inr (PUnary OpNot a))
      | UoNegative \<Rightarrow> bind_res (plan_expression sub e) (\<lambda>a. Inr (PUnary OpNegative a))
      | UoPositive \<Rightarrow> plan_expression sub e)"
| "plan_expression sub (EFunction name args dst) =
     bind_res (first_error (map (plan_expression sub) args)) (\<lambda>as. Inr (PFunction name as DtAny))"
| "plan_expression sub (ECase operand conditions els) =
     bind_res (opt_error (map_option (plan_expression sub) operand)) (\<lambda>a.
       bind_res (first_error (map pair_error (map (map_prod (plan_expression sub) (plan_expression sub)) conditions))) (\<lambda>cs.
         bind_res (opt_error (map_option (plan_expression sub) els)) (\<lambda>e. Inr (PCase a cs e))))"
| "plan_expression sub (ECast e ty) = bind_res (plan_expression sub e) (\<lambda>a. Inr (PCast a ty))"
| "plan_expression sub (EInList e list negated) =
     bind_res (first_error (map (plan_expression sub) list)) (\<lambda>as.
       bind_res (plan_expression sub e) (\<lambda>a. Inr (PInList a as negated)))"
| "plan_expression sub (EInSubquery e q negated) =
     bind_res (sub q) (\<lambda>p. bind_res (plan_expression sub e) (\<lambda>a. Inr (PInSubquery a (qp_root p) negated)))"
| "plan_expression sub (EBetween e low high negated) =
     bind_res (plan_expression sub e) (\<lambda>a. bind_res (plan_expression sub low) (\<lambda>l. bind_res (plan_expression sub high) (\<lambda>h.
       Inr (PBetween a l h negated))))"
| "plan_expression sub (ELike e pattern negated) =
     bind_res (plan_expression sub e) (\<lambda>a. bind_res (plan_expression sub pattern) (\<lambda>p. Inr (PLike a p negated)))"
| "plan_expression sub (EIsNull e negated) = bind_res (plan_expression sub e) (\<lambda>a. Inr (PIsNull a negated))"
| "plan_expression sub (EExists q negated) = bind_res (sub q) (\<lambda>p. Inr (PExists (qp_root p) negated))"
| "plan_expression sub (ESubquery q) = bind_res (sub q) (\<lambda>p. Inr (PScalarSubquery (qp_root p)))"
| "plan_expression sub (EPlaceholder i) = Inr (PPlaceholder i)"

section \<open>Aggregates\<close>

definition aggregate_function_of :: "platform \<Rightarrow> string \<Rightarrow> aggregate_function option" where
  "aggregate_function_of pl name =
     (let n = pl_upper pl name in
      if n = ''COUNT'' then Some AggCount
      else if n = ''SUM'' then Some AggSum
      else if n = ''AVG'' then Some AggAvg
      else if n = ''MIN'' then Some AggMin
      else if n = ''MAX'' then Some AggMax
      else None)"

definition is_aggregate_function :: "platform \<Rightarrow> string \<Rightarrow> bool" where
  "is_aggregate_function pl name \<longleftrightarrow> pl_upper pl name \<in> {''COUNT'', ''SUM'', ''AVG'', ''MIN'', ''MAX''}"

definition aggregate_call_name :: "platform \<Rightarrow> (f64, 'q) sql_expr \<Rightarrow> string option" where
  "aggregate_call_name pl e =
     (case e of EFunction name args dst \<Rightarrow> if is_aggregate_function pl name then Some name else None | _ \<Rightarrow> None)"

primrec expression_has_aggregate :: "platform \<Rightarrow> (f64, 'q) sql_expr \<Rightarrow> bool" where
  "expression_has_aggregate pl (EFunction name args dst) \<longleftrightarrow>
     is_aggregate_function pl name \<or> True \<in> set (map (expression_has_aggregate pl) args)"
| "expression_has_aggregate pl (EBinary left op right) \<longleftrightarrow>
     expression_has_aggregate pl left \<or> expression_has_aggregate pl right"
| "expression_has_aggregate pl (EUnary op e) \<longleftrightarrow> expression_has_aggregate pl e"
| "expression_has_aggregate pl (ECast e ty) \<longleftrightarrow> expression_has_aggregate pl e"
| "expression_has_aggregate pl (ELiteral l) \<longleftrightarrow> False"
| "expression_has_aggregate pl (EColumn c) \<longleftrightarrow> False"
| "expression_has_aggregate pl (ECase operand conditions els) \<longleftrightarrow> False"
| "expression_has_aggregate pl (EInList e list negated) \<longleftrightarrow> False"
| "expression_has_aggregate pl (EInSubquery e q negated) \<longleftrightarrow> False"
| "expression_has_aggregate pl (EBetween e low high negated) \<longleftrightarrow> False"
| "expression_has_aggregate pl (ELike e pattern negated) \<longleftrightarrow> False"
| "expression_has_aggregate pl (EIsNull e negated) \<longleftrightarrow> False"
| "expression_has_aggregate pl (EExists q negated) \<longleftrightarrow> False"
| "expression_has_aggregate pl (ESubquery q) \<longleftrightarrow> False"
| "expression_has_aggregate pl (EPlaceholder i) \<longleftrightarrow> False"

definition has_aggregates :: "platform \<Rightarrow> (f64, 'q) sql_expr select_column list \<Rightarrow> bool" where
  "has_aggregates pl columns \<longleftrightarrow>
     (\<exists>c \<in> set columns. case c of ExprColumn e alias \<Rightarrow> expression_has_aggregate pl e | _ \<Rightarrow> False)"

definition extract_aggregate :: "platform \<Rightarrow> ('q \<Rightarrow> query_plan planner_result) \<Rightarrow> (f64, 'q) sql_expr \<Rightarrow> string option
    \<Rightarrow> expression aggregate_expr option planner_result" where
  "extract_aggregate pl sub e alias =
     (case e of
        EFunction name args dst \<Rightarrow>
          (case aggregate_function_of pl name of
             None \<Rightarrow> Inr None
           | Some f \<Rightarrow>
               bind_res (opt_error (map_option (plan_expression sub) (case args of [] \<Rightarrow> None | a # as \<Rightarrow> Some a)))
                 (\<lambda>argument. Inr (Some (AggregateExpr f argument dst alias))))
      | _ \<Rightarrow> Inr None)"

text \<open>The calls lifted so far, each with its aggregate; lifting an expression may add some.\<close>

type_synonym 'q lifted = "((f64, 'q) sql_expr \<times> expression aggregate_expr) list"
type_synonym ('q, 'a) lifting = "'q lifted \<Rightarrow> ('a \<times> 'q lifted) planner_result"

definition lift_return :: "'a \<Rightarrow> ('q, 'a) lifting" where
  "lift_return x ls = Inr (x, ls)"

definition lift_bind :: "('q, 'a) lifting \<Rightarrow> ('a \<Rightarrow> ('q, 'b) lifting) \<Rightarrow> ('q, 'b) lifting" where
  "lift_bind m f ls = bind_res (m ls) (\<lambda>(x, ls'). f x ls')"

fun lift_all :: "('q, 'a) lifting list \<Rightarrow> ('q, 'a list) lifting" where
  "lift_all [] = lift_return []"
| "lift_all (m # ms) = lift_bind m (\<lambda>x. lift_bind (lift_all ms) (\<lambda>xs. lift_return (x # xs)))"

definition lift_option :: "('q, 'a) lifting option \<Rightarrow> ('q, 'a option) lifting" where
  "lift_option m = (case m of None \<Rightarrow> lift_return None | Some m \<Rightarrow> lift_bind m (\<lambda>x. lift_return (Some x)))"

definition lift_pair :: "('q, 'a) lifting \<times> ('q, 'b) lifting \<Rightarrow> ('q, 'a \<times> 'b) lifting" where
  "lift_pair p = lift_bind (fst p) (\<lambda>x. lift_bind (snd p) (\<lambda>y. lift_return (x, y)))"

fun position_of :: "('a \<Rightarrow> bool) \<Rightarrow> 'a list \<Rightarrow> nat option" where
  "position_of P [] = None"
| "position_of P (x # xs) = (if P x then Some 0 else map_option Suc (position_of P xs))"

definition agg_column :: "nat \<Rightarrow> string" where
  "agg_column i = ''__agg_'' @ nat_to_string i"

definition lift_call :: "platform \<Rightarrow> ('q \<Rightarrow> query_plan planner_result) \<Rightarrow> ('q \<Rightarrow> 'q \<Rightarrow> bool) \<Rightarrow> (f64, 'q) sql_expr \<Rightarrow> string
    \<Rightarrow> ('q, (f64, 'q) sql_expr) lifting" where
  "lift_call pl sub eq e name ls =
     (case position_of (\<lambda>(x, agg). expr_eq eq x e) ls of
        Some i \<Rightarrow> Inr (EColumn (ColumnRef None (agg_column i)), ls)
      | None \<Rightarrow>
          bind_res (extract_aggregate pl sub e (Some (agg_column (length ls)))) (\<lambda>agg.
            case agg of
              None \<Rightarrow> Inl (PeInternal (''aggregate '' @ name @ '' could not be planned''))
            | Some a \<Rightarrow> Inr (EColumn (ColumnRef None (agg_column (length ls))), ls @ [(e, a)])))"

primrec lift_aggregates :: "platform \<Rightarrow> ('q \<Rightarrow> query_plan planner_result) \<Rightarrow> ('q \<Rightarrow> 'q \<Rightarrow> bool) \<Rightarrow> (f64, 'q) sql_expr
    \<Rightarrow> ('q, (f64, 'q) sql_expr) lifting" where
  "lift_aggregates pl sub eq (EFunction name args dst) =
     (if is_aggregate_function pl name then lift_call pl sub eq (EFunction name args dst) name
      else lift_bind (lift_all (map (lift_aggregates pl sub eq) args)) (\<lambda>as. lift_return (EFunction name as dst)))"
| "lift_aggregates pl sub eq (EBinary left op right) =
     lift_bind (lift_aggregates pl sub eq left) (\<lambda>a. lift_bind (lift_aggregates pl sub eq right) (\<lambda>b.
       lift_return (EBinary a op b)))"
| "lift_aggregates pl sub eq (EUnary op e) = lift_bind (lift_aggregates pl sub eq e) (\<lambda>a. lift_return (EUnary op a))"
| "lift_aggregates pl sub eq (ECast e ty) = lift_bind (lift_aggregates pl sub eq e) (\<lambda>a. lift_return (ECast a ty))"
| "lift_aggregates pl sub eq (EIsNull e negated) = lift_bind (lift_aggregates pl sub eq e) (\<lambda>a. lift_return (EIsNull a negated))"
| "lift_aggregates pl sub eq (EBetween e low high negated) =
     lift_bind (lift_aggregates pl sub eq e) (\<lambda>a. lift_bind (lift_aggregates pl sub eq low) (\<lambda>l.
       lift_bind (lift_aggregates pl sub eq high) (\<lambda>h. lift_return (EBetween a l h negated))))"
| "lift_aggregates pl sub eq (EInList e list negated) =
     lift_bind (lift_aggregates pl sub eq e) (\<lambda>a. lift_bind (lift_all (map (lift_aggregates pl sub eq) list)) (\<lambda>as.
       lift_return (EInList a as negated)))"
| "lift_aggregates pl sub eq (ECase operand conditions els) =
     lift_bind (lift_option (map_option (lift_aggregates pl sub eq) operand)) (\<lambda>a.
       lift_bind (lift_all (map lift_pair (map (map_prod (lift_aggregates pl sub eq) (lift_aggregates pl sub eq)) conditions))) (\<lambda>cs.
         lift_bind (lift_option (map_option (lift_aggregates pl sub eq) els)) (\<lambda>e. lift_return (ECase a cs e))))"
| "lift_aggregates pl sub eq (ELiteral l) = lift_return (ELiteral l)"
| "lift_aggregates pl sub eq (EColumn c) = lift_return (EColumn c)"
| "lift_aggregates pl sub eq (EInSubquery e q negated) = lift_return (EInSubquery e q negated)"
| "lift_aggregates pl sub eq (ELike e pattern negated) = lift_return (ELike e pattern negated)"
| "lift_aggregates pl sub eq (EExists q negated) = lift_return (EExists q negated)"
| "lift_aggregates pl sub eq (ESubquery q) = lift_return (ESubquery q)"
| "lift_aggregates pl sub eq (EPlaceholder i) = lift_return (EPlaceholder i)"

section \<open>Names of the output\<close>

primrec name_of :: "(f64, 'q) sql_expr \<Rightarrow> string option" where
  "name_of (EColumn c) = Some (cr_column c)"
| "name_of (EFunction name args dst) = Some name"
| "name_of (ECast e ty) = name_of e"
| "name_of (EUnary op e) = name_of e"
| "name_of (ELiteral l) = None"
| "name_of (EBinary left op right) = None"
| "name_of (ECase operand conditions els) = None"
| "name_of (EInList e list negated) = None"
| "name_of (EInSubquery e q negated) = None"
| "name_of (EBetween e low high negated) = None"
| "name_of (ELike e pattern negated) = None"
| "name_of (EIsNull e negated) = None"
| "name_of (EExists q negated) = None"
| "name_of (ESubquery q) = None"
| "name_of (EPlaceholder i) = None"

definition output_name :: "nat \<Rightarrow> (f64, 'q) sql_expr select_column \<Rightarrow> string option" where
  "output_name i c =
     (case c of
        ExprColumn e alias \<Rightarrow>
          Some (case alias of Some a \<Rightarrow> a
                | None \<Rightarrow> (case name_of e of Some n \<Rightarrow> n | None \<Rightarrow> ''column_'' @ nat_to_string i))
      | _ \<Rightarrow> None)"

fun output_names_from :: "nat \<Rightarrow> (f64, 'q) sql_expr select_column list \<Rightarrow> string list option" where
  "output_names_from i [] = Some []"
| "output_names_from i (c # cs) =
     (case output_name i c of
        None \<Rightarrow> None
      | Some n \<Rightarrow> map_option ((#) n) (output_names_from (i + 1) cs))"

definition output_names :: "(f64, 'q) sql_expr select_column list \<Rightarrow> string list option" where
  "output_names columns =
     (case output_names_from 0 columns of
        Some names \<Rightarrow> if distinct names then Some names else None
      | None \<Rightarrow> None)"

fun projected_name_of :: "('q \<Rightarrow> 'q \<Rightarrow> bool) \<Rightarrow> (f64, 'q) sql_expr \<Rightarrow> (f64, 'q) sql_expr select_column list
    \<Rightarrow> (f64, 'q) sql_expr select_column list \<Rightarrow> string option" where
  "projected_name_of eq e (old # olds) (new # news) =
     (case (old, new) of
        (ExprColumn x a, ExprColumn y (Some name)) \<Rightarrow>
          if expr_eq eq x e then Some name else projected_name_of eq e olds news
      | _ \<Rightarrow> projected_name_of eq e olds news)"
| "projected_name_of eq e olds news = None"

text \<open>Sort keys that are not columns of the output become hidden columns.\<close>

definition named_column :: "string \<Rightarrow> ('f, 'q) sql_expr" where
  "named_column name = EColumn (ColumnRef None name)"

definition sort_column :: "nat \<Rightarrow> string" where
  "sort_column i = ''__sort_'' @ nat_to_string i"

definition is_output_column :: "string list \<Rightarrow> ('f, 'q) sql_expr \<Rightarrow> bool" where
  "is_output_column names e \<longleftrightarrow> (case e of EColumn c \<Rightarrow> cr_column c \<in> set names | _ \<Rightarrow> False)"

fun hide_sort_keys :: "('q \<Rightarrow> 'q \<Rightarrow> bool) \<Rightarrow> string list \<Rightarrow> (f64, 'q) sql_expr list \<Rightarrow> (f64, 'q) sql_expr select_column list \<Rightarrow> nat
    \<Rightarrow> (f64, 'q) sql_expr list \<times> (f64, 'q) sql_expr select_column list \<times> nat" where
  "hide_sort_keys eq names [] columns hidden = ([], columns, hidden)"
| "hide_sort_keys eq names (e # es) columns hidden =
     (let (e', columns', hidden') =
        (case projected_name_of eq e columns columns of
           Some name \<Rightarrow> (named_column name, columns, hidden)
         | None \<Rightarrow>
             if is_output_column names e then (e, columns, hidden)
             else (named_column (sort_column hidden), columns @ [ExprColumn e (Some (sort_column hidden))], hidden + 1))
      in case hide_sort_keys eq names es columns' hidden' of (es', r) \<Rightarrow> (e' # es', r))"

section \<open>The clauses of a query\<close>

definition plan_table_reference :: "planner_schema \<Rightarrow> ('q \<Rightarrow> query_plan planner_result) \<Rightarrow> 'q table_reference \<Rightarrow> plan_node planner_result" where
  "plan_table_reference s sub r =
     (case r of
        TrTable name alias \<Rightarrow>
          Inr (NScan name alias (case ps_get_table name s of Some t \<Rightarrow> map cn_name (ti_columns t) | None \<Rightarrow> []) None)
      | TrSubquery q alias \<Rightarrow> bind_res (sub q) (\<lambda>p. Inr (qp_root p)))"

definition choose_join_strategy :: "'e option \<Rightarrow> join_strategy" where
  "choose_join_strategy condition = (case condition of None \<Rightarrow> NestedLoop | Some e \<Rightarrow> HashJoin)"

definition plan_join_type_of :: "join_type \<Rightarrow> plan_join_type" where
  "plan_join_type_of ty =
     (case ty of JoinInner \<Rightarrow> JtInner | JoinLeft \<Rightarrow> JtLeft | JoinRight \<Rightarrow> JtRight | JoinFull \<Rightarrow> JtFull | JoinCross \<Rightarrow> JtCross)"

definition plan_join :: "planner_schema \<Rightarrow> ('q \<Rightarrow> query_plan planner_result) \<Rightarrow> plan_node \<Rightarrow> ('q, (f64, 'q) sql_expr) join_clause
    \<Rightarrow> plan_node planner_result" where
  "plan_join s sub left j =
     bind_res (plan_table_reference s sub (jc_table j)) (\<lambda>right.
       bind_res (opt_error (map_option (plan_expression sub) (jc_condition j))) (\<lambda>condition.
         Inr (NJoin left right (plan_join_type_of (jc_type j)) condition (choose_join_strategy condition))))"

fun plan_joins :: "planner_schema \<Rightarrow> ('q \<Rightarrow> query_plan planner_result) \<Rightarrow> ('q, (f64, 'q) sql_expr) join_clause list \<Rightarrow> plan_node
    \<Rightarrow> plan_node planner_result" where
  "plan_joins s sub [] p = Inr p"
| "plan_joins s sub (j # js) p = bind_res (plan_join s sub p j) (plan_joins s sub js)"

definition plan_from_clause :: "planner_schema \<Rightarrow> ('q \<Rightarrow> query_plan planner_result) \<Rightarrow> ('q, (f64, 'q) sql_expr) from_clause option
    \<Rightarrow> plan_node planner_result" where
  "plan_from_clause s sub from =
     (case from of
        None \<Rightarrow> Inr NEmpty
      | Some f \<Rightarrow> bind_res (plan_table_reference s sub (fc_source f)) (plan_joins s sub (fc_joins f)))"

definition plan_filter :: "('q \<Rightarrow> query_plan planner_result) \<Rightarrow> (f64, 'q) sql_expr option \<Rightarrow> plan_node \<Rightarrow> plan_node planner_result" where
  "plan_filter sub e p =
     (case e of None \<Rightarrow> Inr p | Some e \<Rightarrow> bind_res (plan_expression sub e) (\<lambda>predicate. Inr (NFilter p predicate)))"

definition plan_column :: "('q \<Rightarrow> query_plan planner_result) \<Rightarrow> (f64, 'q) sql_expr select_column
    \<Rightarrow> expression projection_expr planner_result" where
  "plan_column sub c =
     (case c of
        AllColumns \<Rightarrow> Inr (ProjectionExpr (PColumn None ''*'' DtAny) None)
      | TableAllColumns table \<Rightarrow> Inr (ProjectionExpr (PColumn (Some table) ''*'' DtAny) None)
      | ExprColumn e alias \<Rightarrow> bind_res (plan_expression sub e) (\<lambda>x. Inr (ProjectionExpr x alias)))"

definition plan_projection :: "('q \<Rightarrow> query_plan planner_result) \<Rightarrow> plan_node \<Rightarrow> (f64, 'q) sql_expr select_column list
    \<Rightarrow> plan_node planner_result" where
  "plan_projection sub input columns = bind_res (map_res (plan_column sub) columns) (\<lambda>ps. Inr (NProject input ps))"

definition plan_aggregation :: "('q \<Rightarrow> query_plan planner_result) \<Rightarrow> plan_node \<Rightarrow> (f64, 'q) sql_expr list \<Rightarrow> 'q lifted
    \<Rightarrow> plan_node planner_result" where
  "plan_aggregation sub input group_by ls =
     bind_res (map_res (plan_expression sub) group_by) (\<lambda>gs. Inr (NAggregate input gs (map snd ls)))"

text \<open>The select list, \<^verbatim>\<open>HAVING\<close> and \<^verbatim>\<open>ORDER BY\<close> of a grouped query.\<close>

definition lift_column :: "platform \<Rightarrow> ('q \<Rightarrow> query_plan planner_result) \<Rightarrow> ('q \<Rightarrow> 'q \<Rightarrow> bool) \<Rightarrow> (f64, 'q) sql_expr select_column
    \<Rightarrow> ('q, (f64, 'q) sql_expr select_column) lifting" where
  "lift_column pl sub eq c =
     (case c of
        ExprColumn e alias \<Rightarrow>
          lift_bind (lift_aggregates pl sub eq e) (\<lambda>e'.
            lift_return (ExprColumn e' (case alias of None \<Rightarrow> aggregate_call_name pl e | Some a \<Rightarrow> Some a)))
      | _ \<Rightarrow> lift_return c)"

definition lift_sort_key :: "platform \<Rightarrow> ('q \<Rightarrow> query_plan planner_result) \<Rightarrow> ('q \<Rightarrow> 'q \<Rightarrow> bool) \<Rightarrow> (f64, 'q) sql_expr select_column list
    \<Rightarrow> (f64, 'q) sql_expr select_column list \<Rightarrow> (f64, 'q) sql_expr \<Rightarrow> ('q, (f64, 'q) sql_expr) lifting" where
  "lift_sort_key pl sub eq old new e =
     (case projected_name_of eq e old new of
        Some name \<Rightarrow> lift_return (named_column name)
      | None \<Rightarrow> lift_aggregates pl sub eq e)"

definition lift_clauses :: "platform \<Rightarrow> ('q \<Rightarrow> query_plan planner_result) \<Rightarrow> ('q \<Rightarrow> 'q \<Rightarrow> bool) \<Rightarrow> ('q, (f64, 'q) sql_expr) select_body
    \<Rightarrow> ('q, (f64, 'q) sql_expr select_column list \<times> (f64, 'q) sql_expr option \<times> (f64, 'q) sql_expr list) lifting" where
  "lift_clauses pl sub eq b =
     lift_bind (lift_all (map (lift_column pl sub eq) (sb_columns b))) (\<lambda>columns.
       lift_bind (lift_option (map_option (lift_aggregates pl sub eq) (sb_having b))) (\<lambda>having.
         lift_bind (lift_all (map (lift_sort_key pl sub eq (sb_columns b) columns) (map ob_expression (sb_order_by b)))) (\<lambda>order.
           lift_return (columns, having, order))))"

definition is_grouped :: "platform \<Rightarrow> ('q, (f64, 'q) sql_expr) select_body \<Rightarrow> bool" where
  "is_grouped pl b \<longleftrightarrow> sb_group_by b \<noteq> [] \<or> has_aggregates pl (sb_columns b)"

definition plan_grouping :: "platform \<Rightarrow> ('q \<Rightarrow> query_plan planner_result) \<Rightarrow> ('q \<Rightarrow> 'q \<Rightarrow> bool) \<Rightarrow> ('q, (f64, 'q) sql_expr) select_body \<Rightarrow> plan_node
    \<Rightarrow> (plan_node \<times> (f64, 'q) sql_expr select_column list \<times> (f64, 'q) sql_expr option \<times> (f64, 'q) sql_expr list) planner_result" where
  "plan_grouping pl sub eq b p =
     (if is_grouped pl b then
        bind_res (lift_clauses pl sub eq b []) (\<lambda>(clauses, ls).
          bind_res (plan_aggregation sub p (sb_group_by b) ls) (\<lambda>p'. Inr (p', clauses)))
      else Inr (p, sb_columns b, sb_having b, map ob_expression (sb_order_by b)))"

definition plan_sort_key :: "('q \<Rightarrow> query_plan planner_result) \<Rightarrow> (f64, 'q) sql_expr order_by_item \<times> (f64, 'q) sql_expr
    \<Rightarrow> expression sort_key planner_result" where
  "plan_sort_key sub p =
     bind_res (plan_expression sub (snd p)) (\<lambda>e.
       Inr (SortKey e (ob_ascending (fst p))
         (case ob_nulls_first (fst p) of Some b \<Rightarrow> b | None \<Rightarrow> \<not> ob_ascending (fst p))))"

definition plan_order :: "('q \<Rightarrow> query_plan planner_result) \<Rightarrow> (f64, 'q) sql_expr order_by_item list \<Rightarrow> (f64, 'q) sql_expr list \<Rightarrow> plan_node
    \<Rightarrow> plan_node planner_result" where
  "plan_order sub items es p =
     (if items = [] then Inr p
      else bind_res (map_res (plan_sort_key sub) (zip items es)) (\<lambda>keys. Inr (NSort p keys)))"

definition plan_limit :: "nat option \<Rightarrow> nat option \<Rightarrow> plan_node \<Rightarrow> plan_node" where
  "plan_limit limit offset p = (if limit \<noteq> None \<or> offset \<noteq> None then NLimit p limit offset else p)"

definition hide_columns :: "string list \<Rightarrow> plan_node \<Rightarrow> plan_node" where
  "hide_columns names p = NProject p (map (\<lambda>n. ProjectionExpr (PColumn None n DtAny) (Some n)) names)"

text \<open>From \<^verbatim>\<open>HAVING\<close> on: the hidden columns of sort keys, the projection, order and limit.\<close>

definition plan_output :: "('q \<Rightarrow> query_plan planner_result) \<Rightarrow> ('q \<Rightarrow> 'q \<Rightarrow> bool) \<Rightarrow> ('q, (f64, 'q) sql_expr) select_body
    \<Rightarrow> plan_node \<times> (f64, 'q) sql_expr select_column list \<times> (f64, 'q) sql_expr option \<times> (f64, 'q) sql_expr list
    \<Rightarrow> plan_node planner_result" where
  "plan_output sub eq b = (\<lambda>(p, columns, having, order).
     let visible = output_names columns;
         (order, columns, hidden) =
           (case visible of Some ns \<Rightarrow> hide_sort_keys eq ns order columns 0 | None \<Rightarrow> (order, columns, 0))
     in
       bind_res (plan_filter sub having p) (\<lambda>p.
       bind_res (plan_projection sub p columns) (\<lambda>p.
       bind_res (plan_order sub (sb_order_by b) order p) (\<lambda>p.
         let p = plan_limit (sb_limit b) (sb_offset b) p in
         Inr (case visible of Some ns \<Rightarrow> if 0 < hidden then hide_columns ns p else p | None \<Rightarrow> p)))))"

definition plan_body :: "platform \<Rightarrow> planner_schema \<Rightarrow> ('q \<Rightarrow> query_plan planner_result) \<Rightarrow> ('q \<Rightarrow> 'q \<Rightarrow> bool)
    \<Rightarrow> ('q, (f64, 'q) sql_expr) select_body \<Rightarrow> plan_node planner_result" where
  "plan_body pl s sub eq b =
     bind_res (plan_from_clause s sub (sb_from b)) (\<lambda>p.
     bind_res (plan_filter sub (sb_where b) p) (\<lambda>p.
     bind_res (plan_grouping pl sub eq b p) (plan_output sub eq b)))"

definition with_estimate :: "maths \<Rightarrow> planner_schema \<Rightarrow> plan_node \<Rightarrow> query_plan" where
  "with_estimate mt s p =
     (case estimate_cost mt s p of (cost, rows) \<Rightarrow> \<lparr>qp_root = p, qp_cost = cost, qp_rows = rows\<rparr>)"

primrec plan_select :: "platform \<Rightarrow> maths \<Rightarrow> planner_schema \<Rightarrow> query \<Rightarrow> query_plan planner_result" where
  "plan_select pl mt s (SelectQuery b) =
     bind_res
       (plan_body pl s snd (\<lambda>q q'. query_eq (fst q) (fst q'))
         (map_select_body (\<lambda>q. (q, plan_select pl mt s q)) (map_sql_expr (\<lambda>f. f) (\<lambda>q. (q, plan_select pl mt s q))) b))
       (\<lambda>p. Inr (with_estimate mt s p))"

section \<open>Statements\<close>

definition simple_plan :: "plan_node \<Rightarrow> query_plan" where
  "simple_plan p = \<lparr>qp_root = p, qp_cost = f64_of_int 1, qp_rows = 0\<rparr>"

definition plan_column_def :: "(query \<Rightarrow> query_plan planner_result) \<Rightarrow> bool \<Rightarrow> bool \<Rightarrow> column_definition
    \<Rightarrow> expression create_column_def planner_result" where
  "plan_column_def sub key unique c =
     bind_res (opt_error (map_option (plan_expression sub) (cl_default c))) (\<lambda>d.
       Inr (CreateColumnDef (cl_name c) (cl_data_type c) (cl_nullable c) d key unique))"

definition plan_new_column :: "(query \<Rightarrow> query_plan planner_result) \<Rightarrow> column_definition \<Rightarrow> expression create_column_def planner_result" where
  "plan_new_column sub c =
     plan_column_def sub (CcPrimaryKey \<in> set (cl_constraints c)) (CcUnique \<in> set (cl_constraints c)) c"

definition plan_constraint :: "(query \<Rightarrow> query_plan planner_result) \<Rightarrow> table_constraint
    \<Rightarrow> expression create_table_constraint planner_result" where
  "plan_constraint sub c =
     (case c of
        TblPrimaryKey columns \<Rightarrow> Inr (TcPrimaryKey columns)
      | TblUnique columns \<Rightarrow> Inr (TcUnique columns)
      | TblForeignKey columns ref_table ref_columns \<Rightarrow> Inr (TcForeignKey columns ref_table ref_columns)
      | TblCheck e \<Rightarrow> bind_res (plan_expression sub e) (\<lambda>x. Inr (TcCheck x)))"

definition plan_create_table :: "(query \<Rightarrow> query_plan planner_result) \<Rightarrow> create_table_statement \<Rightarrow> query_plan planner_result" where
  "plan_create_table sub c =
     bind_res (map_res (plan_new_column sub) (ct_columns c)) (\<lambda>columns.
       bind_res (map_res (plan_constraint sub) (ct_constraints c)) (\<lambda>constraints.
         Inr (simple_plan (NCreateTable (ct_name c) columns constraints (ct_if_not_exists c)))))"

definition plan_default :: "(query \<Rightarrow> query_plan planner_result) \<Rightarrow> ast_expr option option \<Rightarrow> expression option option planner_result" where
  "plan_default sub d =
     (case d of
        Some (Some e) \<Rightarrow> bind_res (plan_expression sub e) (\<lambda>x. Inr (Some (Some x)))
      | Some None \<Rightarrow> Inr (Some None)
      | None \<Rightarrow> Inr None)"

definition plan_alter_op :: "(query \<Rightarrow> query_plan planner_result) \<Rightarrow> alter_table_operation \<Rightarrow> expression plan_alter_operation planner_result" where
  "plan_alter_op sub a =
     (case a of
        AddColumn c \<Rightarrow> bind_res (plan_column_def sub False False c) (\<lambda>d. Inr (AlAddColumn d))
      | DropColumn name if_exists \<Rightarrow> Inr (AlDropColumn name if_exists)
      | RenameColumn old new \<Rightarrow> Inr (AlRenameColumn old new)
      | AlterColumn name ty set_not_null set_default \<Rightarrow>
          bind_res (plan_default sub set_default) (\<lambda>d. Inr (AlAlterColumn name ty set_not_null d))
      | RenameTable new \<Rightarrow> Inr (AlRenameTable new)
      | AddConstraint c \<Rightarrow> bind_res (plan_constraint sub c) (\<lambda>x. Inr (AlAddConstraint x))
      | DropConstraint name \<Rightarrow> Inr (AlDropConstraint name))"

definition plan_alter_table :: "(query \<Rightarrow> query_plan planner_result) \<Rightarrow> string \<Rightarrow> alter_table_operation list \<Rightarrow> query_plan planner_result" where
  "plan_alter_table sub name ops =
     bind_res (map_res (plan_alter_op sub) ops) (\<lambda>ps. Inr (simple_plan (NAlterTable name ps)))"

definition plan_create_index :: "create_index_statement \<Rightarrow> query_plan" where
  "plan_create_index c = simple_plan (NCreateIndex (ci_name c) (ci_table c) (ci_columns c) (ci_unique c) (ci_if_not_exists c))"

definition plan_drop_table :: "string \<Rightarrow> bool \<Rightarrow> query_plan" where
  "plan_drop_table name if_exists = simple_plan (NDropTable name if_exists)"

definition plan_drop_index :: "string \<Rightarrow> bool \<Rightarrow> query_plan" where
  "plan_drop_index name if_exists = simple_plan (NDropIndex name if_exists)"

definition counted_plan :: "plan_node \<Rightarrow> u64 \<Rightarrow> query_plan" where
  "counted_plan p rows = \<lparr>qp_root = p, qp_cost = f64_of_u64 rows, qp_rows = rows\<rparr>"

definition plan_insert :: "(query \<Rightarrow> query_plan planner_result) \<Rightarrow> string \<Rightarrow> string list option \<Rightarrow> insert_source
    \<Rightarrow> query_plan planner_result" where
  "plan_insert sub table columns source =
     (let cols = (case columns of Some cs \<Rightarrow> cs | None \<Rightarrow> []) in
      case source of
        IsValues rows \<Rightarrow>
          bind_res (map_res (map_res (plan_expression sub)) rows) (\<lambda>vs.
            Inr (counted_plan (NInsert table cols (InsValues vs)) (of_nat (length vs))))
      | IsQuery q \<Rightarrow> bind_res (sub q) (\<lambda>p. Inr (counted_plan (NInsert table cols (InsQuery (qp_root p))) (qp_rows p))))"

definition plan_assignment :: "(query \<Rightarrow> query_plan planner_result) \<Rightarrow> string \<times> ast_expr \<Rightarrow> (string \<times> expression) planner_result" where
  "plan_assignment sub a = bind_res (plan_expression sub (snd a)) (\<lambda>x. Inr (fst a, x))"

definition plan_update :: "planner_schema \<Rightarrow> (query \<Rightarrow> query_plan planner_result) \<Rightarrow> string \<Rightarrow> (string \<times> ast_expr) list \<Rightarrow> ast_expr option
    \<Rightarrow> query_plan planner_result" where
  "plan_update s sub table assignments wh =
     bind_res (map_res (plan_assignment sub) assignments) (\<lambda>as.
       bind_res (opt_error (map_option (plan_expression sub) wh)) (\<lambda>w.
         Inr (counted_plan (NUpdate table as w) (row_count_or 100 table s))))"

definition plan_delete :: "planner_schema \<Rightarrow> (query \<Rightarrow> query_plan planner_result) \<Rightarrow> string \<Rightarrow> ast_expr option \<Rightarrow> query_plan planner_result" where
  "plan_delete s sub table wh =
     bind_res (opt_error (map_option (plan_expression sub) wh)) (\<lambda>w.
       Inr (counted_plan (NDelete table w) (row_count_or 100 table s)))"

definition plan_set_operation :: "set_operation_type \<Rightarrow> query_plan \<Rightarrow> query_plan \<Rightarrow> query_plan" where
  "plan_set_operation op l r =
     (let rows = qp_rows l + qp_rows r in
      \<lparr>qp_root = NSetOperation op (qp_root l) (qp_root r),
       qp_cost = f64_add (f64_add (qp_cost l) (qp_cost r)) (f64_of_u64 rows), qp_rows = rows\<rparr>)"

definition control_plan :: "plan_node \<Rightarrow> query_plan" where
  "control_plan p = \<lparr>qp_root = p, qp_cost = 0, qp_rows = 0\<rparr>"

primrec plan :: "platform \<Rightarrow> maths \<Rightarrow> planner_schema \<Rightarrow> statement \<Rightarrow> query_plan planner_result" where
  "plan pl mt s (StSelect q) = plan_select pl mt s q"
| "plan pl mt s (StInsert table columns source) = plan_insert (plan_select pl mt s) table columns source"
| "plan pl mt s (StUpdate table assignments wh) = plan_update s (plan_select pl mt s) table assignments wh"
| "plan pl mt s (StDelete table wh) = plan_delete s (plan_select pl mt s) table wh"
| "plan pl mt s (StCreateTable c) = plan_create_table (plan_select pl mt s) c"
| "plan pl mt s (StDropTable name if_exists) = Inr (plan_drop_table name if_exists)"
| "plan pl mt s (StAlterTable name ops) = plan_alter_table (plan_select pl mt s) name ops"
| "plan pl mt s (StCreateIndex c) = Inr (plan_create_index c)"
| "plan pl mt s (StDropIndex name if_exists) = Inr (plan_drop_index name if_exists)"
| "plan pl mt s (StSetOperation op l r) =
     bind_res (plan pl mt s l) (\<lambda>a. bind_res (plan pl mt s r) (\<lambda>b. Inr (plan_set_operation op a b)))"
| "plan pl mt s StBegin = Inr (control_plan NBeginTransaction)"
| "plan pl mt s StCommit = Inr (control_plan NCommitTransaction)"
| "plan pl mt s StRollback = Inr (control_plan NRollbackTransaction)"

end
