(* ===== verification/SqlPlanned.thy ===== *)
theory SqlPlanned
  imports SqlPlanner SqlQuery
begin

text \<open>
  What the planner makes of a query: planning never fails, a planned query holds only operators that the
  executor runs, and what a query of one table without aggregates returns.
\<close>

section \<open>Planning does not fail\<close>

text \<open>A plan of operators only, also in its subqueries.\<close>

inductive query_node :: "plan_node \<Rightarrow> bool" where
  scan: "query_node (NScan table alias columns None)"
| empty: "query_node NEmpty"
| filter: "query_node n \<Longrightarrow> \<forall>q \<in> set_plan_expression p. query_node q \<Longrightarrow> query_node (NFilter n p)"
| project: "query_node n \<Longrightarrow> \<forall>e \<in> pj_expr ` set ps. \<forall>q \<in> set_plan_expression e. query_node q \<Longrightarrow> query_node (NProject n ps)"
| join: "query_node l \<Longrightarrow> query_node r \<Longrightarrow> \<forall>e \<in> set_option condition. \<forall>q \<in> set_plan_expression e. query_node q \<Longrightarrow>
    query_node (NJoin l r ty condition strategy)"
| aggregate: "query_node n \<Longrightarrow> \<forall>e \<in> set group_by. \<forall>q \<in> set_plan_expression e. query_node q \<Longrightarrow>
    \<forall>a \<in> set ags. \<forall>e \<in> set_option (ag_argument a). \<forall>q \<in> set_plan_expression e. query_node q \<Longrightarrow>
    query_node (NAggregate n group_by ags)"
| sort: "query_node n \<Longrightarrow> \<forall>k \<in> set keys. \<forall>q \<in> set_plan_expression (sk_expr k). query_node q \<Longrightarrow> query_node (NSort n keys)"
| limit: "query_node n \<Longrightarrow> query_node (NLimit n lim offset)"

abbreviation query_exprs :: "expression set \<Rightarrow> bool" where
  "query_exprs es \<equiv> \<forall>e \<in> es. \<forall>q \<in> set_plan_expression e. query_node q"

lemma first_error_ok:
  assumes "\<forall>x \<in> set xs. \<exists>y. f x = Inr y \<and> P y"
  shows "\<exists>ys. first_error (map f xs) = Inr ys \<and> (\<forall>y \<in> set ys. P y)"
  using assms by (induction xs) (auto simp del: bind_res_Inr)

lemma map_res_total:
  assumes "\<forall>x \<in> set xs. \<exists>y. f x = Inr y \<and> P y"
  shows "\<exists>ys. map_res f xs = Inr ys \<and> (\<forall>y \<in> set ys. P y)"
  using assms by (induction xs) (auto simp del: bind_res_Inr)

lemma opt_error_ok:
  assumes "\<forall>x \<in> set_option z. \<exists>y. f x = Inr y \<and> P y"
  shows "\<exists>y. opt_error (map_option f z) = Inr y \<and> (\<forall>v \<in> set_option y. P v)"
  using assms by (cases z) (auto simp: opt_error_def simp del: bind_res_Inr)

text \<open>Subqueries that \<open>sub\<close> can plan.\<close>

definition planned :: "('q \<Rightarrow> query_plan planner_result) \<Rightarrow> 'q set \<Rightarrow> bool" where
  "planned sub qs \<longleftrightarrow> (\<forall>q \<in> qs. \<exists>p. sub q = Inr p \<and> query_node (qp_root p))"

lemma planned_simps [simp]:
  "planned sub {}" "planned sub (A \<union> B) \<longleftrightarrow> planned sub A \<and> planned sub B"
  "planned sub (insert q A) \<longleftrightarrow> (\<exists>p. sub q = Inr p \<and> query_node (qp_root p)) \<and> planned sub A"
  "planned sub (\<Union>(f ` S)) \<longleftrightarrow> (\<forall>x \<in> S. planned sub (f x))"
  by (auto simp: planned_def)

abbreviation plans :: "('q \<Rightarrow> query_plan planner_result) \<Rightarrow> (f64, 'q) sql_expr \<Rightarrow> bool" where
  "plans sub e \<equiv> \<exists>x. plan_expression sub e = Inr x \<and> query_exprs {x}"

lemma plan_expression_total: "planned sub (set2_sql_expr e) \<Longrightarrow> plans sub e"
proof (induction e)
  case (EFunction name args dst)
  then have "\<exists>ys. first_error (map (plan_expression sub) args) = Inr ys \<and> (\<forall>y \<in> set ys. query_exprs {y})"
    by (intro first_error_ok) auto
  then show ?case by (auto simp del: bind_res_Inr)
next
  case (ECase operand conditions els)
  have "\<exists>ys. first_error (map (\<lambda>p. pair_error (map_prod (plan_expression sub) (plan_expression sub) p)) conditions) = Inr ys
      \<and> (\<forall>y \<in> set ys. query_exprs {fst y, snd y})"
  proof (intro first_error_ok ballI)
    fix p assume p: "p \<in> set conditions"
    obtain w t where wt: "p = (w, t)" by fastforce
    have "plans sub w" "plans sub t"
      using ECase.IH(2) [OF p] ECase.IH(3) [OF p] ECase.prems p by (force simp: wt)+
    then show "\<exists>y. pair_error (map_prod (plan_expression sub) (plan_expression sub) p) = Inr y \<and> query_exprs {fst y, snd y}"
      by (auto simp: wt pair_error_def simp del: bind_res_Inr)
  qed
  moreover have "\<exists>y. opt_error (map_option (plan_expression sub) operand) = Inr y \<and> (\<forall>v \<in> set_option y. query_exprs {v})"
    using ECase.IH(1) ECase.prems by (intro opt_error_ok) auto
  moreover have "\<exists>y. opt_error (map_option (plan_expression sub) els) = Inr y \<and> (\<forall>v \<in> set_option y. query_exprs {v})"
    using ECase.IH(4) ECase.prems by (intro opt_error_ok) auto
  ultimately show ?case by (fastforce simp: comp_def prod_set_defs simp del: bind_res_Inr)
next
  case (EInList e list negated)
  then have "\<exists>ys. first_error (map (plan_expression sub) list) = Inr ys \<and> (\<forall>y \<in> set ys. query_exprs {y})"
    by (intro first_error_ok) auto
  then show ?case using EInList by (auto simp del: bind_res_Inr)
next
  case (EUnary op e)
  then show ?case by (cases op) (auto simp del: bind_res_Inr)
qed (auto simp del: bind_res_Inr)

text \<open>Lifting an expression in a state whose aggregates are plans of operators.\<close>

definition lifted_ok :: "'q lifted \<Rightarrow> bool" where
  "lifted_ok ls \<longleftrightarrow> (\<forall>(e, a) \<in> set ls. query_exprs (set_option (ag_argument a)))"

definition lifts :: "('q, 'a) lifting \<Rightarrow> ('a \<Rightarrow> bool) \<Rightarrow> bool" where
  "lifts m P \<longleftrightarrow> (\<forall>ls. lifted_ok ls \<longrightarrow> (\<exists>x ls'. m ls = Inr (x, ls') \<and> lifted_ok ls' \<and> P x))"

lemma lifts_return [simp]: "lifts (lift_return x) P \<longleftrightarrow> P x"
proof -
  have "lifted_ok []" by (simp add: lifted_ok_def)
  then show ?thesis by (auto simp: lifts_def lift_return_def)
qed

lemma lifts_bind: "lifts m P \<Longrightarrow> (\<And>x. P x \<Longrightarrow> lifts (f x) Q) \<Longrightarrow> lifts (lift_bind m f) Q"
  unfolding lifts_def lift_bind_def by (fastforce simp del: bind_res_Inr)

lemma lifts_all:
  "\<forall>m \<in> set ms. lifts m P \<Longrightarrow> lifts (lift_all ms) (\<lambda>xs. \<forall>x \<in> set xs. P x)"
  by (induction ms) (auto intro!: lifts_bind)

lemma lifts_option:
  "\<forall>m \<in> set_option z. lifts m P \<Longrightarrow> lifts (lift_option z) (\<lambda>x. \<forall>v \<in> set_option x. P v)"
  by (cases z) (auto simp: lift_option_def intro!: lifts_bind)

lemma lifts_pair:
  "lifts (fst p) P \<Longrightarrow> lifts (snd p) P \<Longrightarrow> lifts (lift_pair p) (\<lambda>x. P (fst x) \<and> P (snd x))"
  by (auto simp: lift_pair_def intro!: lifts_bind)

abbreviation closed_over :: "'q set \<Rightarrow> ('f, 'q) sql_expr \<Rightarrow> bool" where
  "closed_over A e \<equiv> set2_sql_expr e \<subseteq> A"

lemma aggregate_function_known: "is_aggregate_function pl name \<Longrightarrow> \<exists>f. aggregate_function_of pl name = Some f"
  by (auto simp: is_aggregate_function_def aggregate_function_of_def Let_def)

lemma lift_call_ok:
  assumes "planned sub A" "closed_over A (EFunction name args dst)" "is_aggregate_function pl name"
  shows "lifts (lift_call pl sub eq (EFunction name args dst) name) (closed_over A)"
proof -
  obtain f where f: "aggregate_function_of pl name = Some f" using aggregate_function_known [OF assms(3)] by blast
  have "\<exists>y. opt_error (map_option (plan_expression sub) (case args of [] \<Rightarrow> None | a # as \<Rightarrow> Some a)) = Inr y
      \<and> (\<forall>v \<in> set_option y. query_exprs {v})"
  proof (rule opt_error_ok, rule ballI)
    fix x assume "x \<in> set_option (case args of [] \<Rightarrow> None | a # as \<Rightarrow> Some a)"
    then have "closed_over A x" using assms(2) by (cases args) auto
    then show "plans sub x" using assms(1) by (intro plan_expression_total) (auto simp: planned_def)
  qed
  then show ?thesis
    by (auto simp: lifts_def lift_call_def extract_aggregate_def f lifted_ok_def simp del: bind_res_Inr split: option.splits)
qed

lemma lift_aggregates_ok:
  "planned sub A \<Longrightarrow> closed_over A e \<Longrightarrow> lifts (lift_aggregates pl sub eq e) (closed_over A)"
proof (induction e)
  case (EFunction name args dst)
  have "lifts (lift_all (map (lift_aggregates pl sub eq) args)) (\<lambda>xs. \<forall>x \<in> set xs. closed_over A x)"
    using EFunction by (intro lifts_all) auto
  then show ?case using lift_call_ok [OF EFunction.prems] by (auto intro!: lifts_bind) blast
next
  case (ECase operand conditions els)
  have "lifts (lift_pair (map_prod (lift_aggregates pl sub eq) (lift_aggregates pl sub eq) p))
      (\<lambda>x. closed_over A (fst x) \<and> closed_over A (snd x))" if p: "p \<in> set conditions" for p
    using ECase.IH(2,3) [OF p] ECase.prems p by (cases p) (force intro!: lifts_pair)
  then have "lifts (lift_all (map lift_pair (map (map_prod (lift_aggregates pl sub eq) (lift_aggregates pl sub eq)) conditions)))
      (\<lambda>xs. \<forall>x \<in> set xs. closed_over A (fst x) \<and> closed_over A (snd x))"
    by (intro lifts_all) auto
  moreover have "lifts (lift_option (map_option (lift_aggregates pl sub eq) operand)) (\<lambda>x. \<forall>v \<in> set_option x. closed_over A v)"
    using ECase.IH(1) ECase.prems by (intro lifts_option) auto
  moreover have "lifts (lift_option (map_option (lift_aggregates pl sub eq) els)) (\<lambda>x. \<forall>v \<in> set_option x. closed_over A v)"
    using ECase.IH(4) ECase.prems by (intro lifts_option) auto
  ultimately show ?case
    by (simp only: lift_aggregates.simps) (fastforce intro!: lifts_bind simp: prod_set_defs)
next
  case (EInList e list negated)
  have "lifts (lift_all (map (lift_aggregates pl sub eq) list)) (\<lambda>xs. \<forall>x \<in> set xs. closed_over A x)"
    using EInList by (intro lifts_all) auto
  then show ?case using EInList by (auto intro!: lifts_bind) blast
qed (auto intro!: lifts_bind)

text \<open>The clauses of a query over a set of subqueries that can be planned.\<close>

definition closed_column :: "'q set \<Rightarrow> (f64, 'q) sql_expr select_column \<Rightarrow> bool" where
  "closed_column A c \<longleftrightarrow> (\<forall>e \<in> set_select_column c. closed_over A e)"

lemma lift_column_ok:
  "planned sub A \<Longrightarrow> closed_column A c \<Longrightarrow> lifts (lift_column pl sub eq c) (closed_column A)"
  by (auto simp: lift_column_def closed_column_def split: select_column.split intro!: lifts_bind [OF lift_aggregates_ok])

lemma lift_sort_key_ok:
  "planned sub A \<Longrightarrow> closed_over A e \<Longrightarrow> lifts (lift_sort_key pl sub eq old new e) (closed_over A)"
  by (auto simp: lift_sort_key_def named_column_def lift_aggregates_ok split: option.split)

definition closed_body :: "'q set \<Rightarrow> ('q, (f64, 'q) sql_expr) select_body \<Rightarrow> bool" where
  "closed_body A b \<longleftrightarrow> set1_select_body b \<subseteq> A \<and> (\<forall>e \<in> set2_select_body b. closed_over A e)"

lemma closed_bodyD:
  assumes "closed_body A b"
  shows "\<forall>c \<in> set (sb_columns b). closed_column A c" "\<forall>e \<in> set_option (sb_where b). closed_over A e"
    "\<forall>e \<in> set (sb_group_by b). closed_over A e" "\<forall>e \<in> set_option (sb_having b). closed_over A e"
    "\<forall>i \<in> set (sb_order_by b). closed_over A (ob_expression i)"
    "\<forall>f \<in> set_option (sb_from b). set1_from_clause f \<subseteq> A \<and> (\<forall>e \<in> set2_from_clause f. closed_over A e)"
  using assms by (cases b; force simp: closed_body_def closed_column_def order_by_item.set_sel)+

lemma lift_clauses_ok:
  assumes "planned sub A" "closed_body A b"
  shows "lifts (lift_clauses pl sub eq b)
    (\<lambda>(columns, having, order). (\<forall>c \<in> set columns. closed_column A c) \<and> (\<forall>e \<in> set_option having. closed_over A e)
      \<and> (\<forall>e \<in> set order. closed_over A e))"
  unfolding lift_clauses_def
proof (rule lifts_bind)
  show "lifts (lift_all (map (lift_column pl sub eq) (sb_columns b))) (\<lambda>cs. \<forall>c \<in> set cs. closed_column A c)"
    using closed_bodyD(1) [OF assms(2)] lift_column_ok [OF assms(1)] by (intro lifts_all) auto
  fix columns :: "(f64, 'a) sql_expr select_column list" assume columns: "\<forall>c \<in> set columns. closed_column A c"
  have "lifts (lift_all (map (lift_sort_key pl sub eq (sb_columns b) columns) (map ob_expression (sb_order_by b))))
      (\<lambda>es. \<forall>e \<in> set es. closed_over A e)"
    using closed_bodyD(5) [OF assms(2)] lift_sort_key_ok [OF assms(1)] by (intro lifts_all) auto
  moreover have "lifts (lift_option (map_option (lift_aggregates pl sub eq) (sb_having b))) (\<lambda>x. \<forall>v \<in> set_option x. closed_over A v)"
    using closed_bodyD(4) [OF assms(2)] lift_aggregates_ok [OF assms(1)] by (intro lifts_option) auto
  ultimately show "lifts (lift_bind (lift_option (map_option (lift_aggregates pl sub eq) (sb_having b))) (\<lambda>having.
         lift_bind (lift_all (map (lift_sort_key pl sub eq (sb_columns b) columns) (map ob_expression (sb_order_by b)))) (\<lambda>order.
           lift_return (columns, having, order))))
      (\<lambda>(columns, having, order). (\<forall>c \<in> set columns. closed_column A c) \<and> (\<forall>e \<in> set_option having. closed_over A e)
        \<and> (\<forall>e \<in> set order. closed_over A e))"
    using columns by (auto intro!: lifts_bind)
qed

abbreviation good_node :: "plan_node planner_result \<Rightarrow> bool" where
  "good_node r \<equiv> \<exists>p. r = Inr p \<and> query_node p"

lemma plan_table_reference_ok: "planned sub (set_table_reference r) \<Longrightarrow> good_node (plan_table_reference s sub r)"
  by (cases r) (auto simp: plan_table_reference_def intro: query_node.scan simp del: bind_res_Inr)

lemma plan_join_ok:
  assumes "query_node p" "planned sub (set1_join_clause j)" "\<forall>e \<in> set2_join_clause j. planned sub (set2_sql_expr e)"
  shows "good_node (plan_join s sub p j)"
proof -
  have "good_node (plan_table_reference s sub (jc_table j))"
    using assms(2) by (intro plan_table_reference_ok) (cases j; auto simp: planned_def)
  moreover have "\<exists>y. opt_error (map_option (plan_expression sub) (jc_condition j)) = Inr y \<and> (\<forall>v \<in> set_option y. query_exprs {v})"
    using assms(3) by (intro opt_error_ok ballI plan_expression_total) (cases j; auto)
  ultimately show ?thesis using assms(1) by (auto simp: plan_join_def intro!: query_node.join simp del: bind_res_Inr)
qed

lemma plan_joins_ok:
  "query_node p \<Longrightarrow> \<forall>j \<in> set js. planned sub (set1_join_clause j) \<and> (\<forall>e \<in> set2_join_clause j. planned sub (set2_sql_expr e)) \<Longrightarrow>
    good_node (plan_joins s sub js p)"
proof (induction js arbitrary: p)
  case (Cons j js)
  then show ?case using plan_join_ok [of p sub j s] by (auto simp del: bind_res_Inr)
qed simp

lemma plan_from_clause_ok:
  assumes "planned sub A" "closed_body A b"
  shows "good_node (plan_from_clause s sub (sb_from b))"
proof (cases "sb_from b")
  case (Some f)
  have f: "set1_from_clause f \<subseteq> A" "\<forall>e \<in> set2_from_clause f. closed_over A e" using closed_bodyD(6) [OF assms(2)] Some by auto
  have sub: "planned sub B" if "B \<subseteq> A" for B using assms(1) that by (auto simp: planned_def)
  have "good_node (plan_table_reference s sub (fc_source f))"
    using f(1) by (intro plan_table_reference_ok sub) (cases f; auto)
  moreover have "\<forall>j \<in> set (fc_joins f). planned sub (set1_join_clause j) \<and> (\<forall>e \<in> set2_join_clause j. planned sub (set2_sql_expr e))"
  proof (intro ballI conjI sub)
    fix j assume j: "j \<in> set (fc_joins f)"
    then have "set1_join_clause j \<subseteq> set1_from_clause f" by (cases f) auto
    then show "set1_join_clause j \<subseteq> A" using f(1) by blast
    fix e assume "e \<in> set2_join_clause j"
    with j have "e \<in> set2_from_clause f" by (cases f) auto
    then show "set2_sql_expr e \<subseteq> A" using f(2) by blast
  qed
  ultimately show ?thesis using plan_joins_ok [of _ "fc_joins f" sub s] Some by (auto simp: plan_from_clause_def simp del: bind_res_Inr)
qed (simp add: plan_from_clause_def query_node.empty)

lemma plan_filter_ok:
  "query_node p \<Longrightarrow> \<forall>e \<in> set_option z. planned sub (set2_sql_expr e) \<Longrightarrow> good_node (plan_filter sub z p)"
proof (cases z)
  case (Some e)
  assume "query_node p" "\<forall>e \<in> set_option z. planned sub (set2_sql_expr e)"
  with Some plan_expression_total [of sub e] obtain x where "plan_expression sub e = Inr x" "query_exprs {x}" by auto
  then show ?thesis using Some \<open>query_node p\<close> by (auto simp: plan_filter_def intro: query_node.filter)
qed (simp add: plan_filter_def)

lemma plan_projection_ok:
  assumes "query_node p" "planned sub A" "\<forall>c \<in> set columns. closed_column A c"
  shows "good_node (plan_projection sub p columns)"
proof -
  have "\<exists>y. plan_column sub c = Inr y \<and> query_exprs {pj_expr y}" if "c \<in> set columns" for c
  proof (cases c)
    case (ExprColumn e al)
    then have "closed_over A e" using assms(3) that by (auto simp: closed_column_def)
    then have "planned sub (set2_sql_expr e)" using assms(2) by (auto simp: planned_def)
    then show ?thesis using plan_expression_total [of sub e] by (auto simp: ExprColumn plan_column_def simp del: bind_res_Inr)
  qed (simp_all add: plan_column_def)
  then obtain ps where "map_res (plan_column sub) columns = Inr ps" "\<forall>p \<in> set ps. query_exprs {pj_expr p}"
    using map_res_total [of columns "plan_column sub" "\<lambda>y. query_exprs {pj_expr y}"] by auto
  then show ?thesis using assms(1) by (auto simp: plan_projection_def intro!: query_node.project)
qed

lemma plan_order_ok:
  assumes "query_node p" "planned sub A" "\<forall>e \<in> set es. closed_over A e"
  shows "good_node (plan_order sub items es p)"
proof -
  have "\<exists>y. plan_sort_key sub z = Inr y \<and> query_exprs {sk_expr y}" if "z \<in> set (zip items es)" for z
  proof -
    have "closed_over A (snd z)" using that assms(3) set_zip_rightD [of "fst z" "snd z" items es] by simp
    then have "planned sub (set2_sql_expr (snd z))" using assms(2) by (auto simp: planned_def)
    then show ?thesis using plan_expression_total [of sub "snd z"] by (auto simp: plan_sort_key_def simp del: bind_res_Inr)
  qed
  then obtain ks where "map_res (plan_sort_key sub) (zip items es) = Inr ks" "\<forall>k \<in> set ks. query_exprs {sk_expr k}"
    using map_res_total [of "zip items es" "plan_sort_key sub" "\<lambda>y. query_exprs {sk_expr y}"] by auto
  then show ?thesis using assms(1) by (auto simp: plan_order_def intro!: query_node.sort)
qed

lemma hide_sort_keys_ok:
  assumes "\<forall>e \<in> set es. closed_over A e" "\<forall>c \<in> set columns. closed_column A c"
    and "hide_sort_keys eq vis es columns hidden = (es', columns', hidden')"
  shows "(\<forall>e \<in> set es'. closed_over A e) \<and> (\<forall>c \<in> set columns'. closed_column A c)"
  using assms
proof (induction es arbitrary: columns hidden es' columns' hidden')
  case (Cons e es)
  have e: "closed_over A e" "\<forall>e \<in> set es. closed_over A e" using Cons.prems(1) by auto
  have named: "closed_over A (named_column n)" for n by (simp add: named_column_def)
  have new: "\<forall>c \<in> set (columns @ [ExprColumn e (Some n)]). closed_column A c" for n
    using Cons.prems(2) e(1) by (auto simp: closed_column_def)
  obtain e' cs h where step: "(case projected_name_of eq e columns columns of
           Some name \<Rightarrow> (named_column name, columns, hidden)
         | None \<Rightarrow>
             if is_output_column vis e then (e, columns, hidden)
             else (named_column (sort_column hidden), columns @ [ExprColumn e (Some (sort_column hidden))], hidden + 1)) = (e', cs, h)"
    by (metis prod.exhaust)
  obtain es'' where rest: "hide_sort_keys eq vis es cs h = (es'', columns', hidden')" "es' = e' # es''"
    using Cons.prems(3) by (auto simp: step Let_def split: prod.splits)
  have "closed_over A e'" "\<forall>c \<in> set cs. closed_column A c"
    using step e(1) named Cons.prems(2) new by (auto split: option.splits if_splits)
  then show ?case using Cons.IH [OF e(2) _ rest(1)] rest(2) by auto
qed simp

lemma plan_body_ok:
  assumes "planned sub A" "closed_body A b"
  shows "good_node (plan_body pl s sub eq b)"
proof -
  note closed = closed_bodyD [OF assms(2)]
  have sub: "planned sub (set2_sql_expr e)" if "closed_over A e" for e using assms(1) that by (auto simp: planned_def)
  obtain p0 where p0: "plan_from_clause s sub (sb_from b) = Inr p0" "query_node p0" using plan_from_clause_ok [OF assms] by blast
  obtain p1 where p1: "plan_filter sub (sb_where b) p0 = Inr p1" "query_node p1"
    using plan_filter_ok [OF p0(2), of "sb_where b" sub] closed(2) sub by blast
  have "\<exists>p2 columns having order. plan_grouping pl sub eq b p1 = Inr (p2, columns, having, order) \<and> query_node p2
      \<and> (\<forall>c \<in> set columns. closed_column A c) \<and> (\<forall>e \<in> set_option having. closed_over A e) \<and> (\<forall>e \<in> set order. closed_over A e)"
  proof (cases "is_grouped pl b")
    case True
    have "lifted_ok ([] :: 'a lifted)" by (simp add: lifted_ok_def)
    then obtain columns having order ls where lift: "lift_clauses pl sub eq b [] = Inr ((columns, having, order), ls)" "lifted_ok ls"
      "\<forall>c \<in> set columns. closed_column A c" "\<forall>e \<in> set_option having. closed_over A e" "\<forall>e \<in> set order. closed_over A e"
      using lift_clauses_ok [OF assms, of pl eq, unfolded lifts_def, rule_format, of "[]"] by auto
    obtain gs where "map_res (plan_expression sub) (sb_group_by b) = Inr gs" "\<forall>g \<in> set gs. query_exprs {g}"
      using map_res_total [of "sb_group_by b" "plan_expression sub" "\<lambda>y. query_exprs {y}"] closed(3) plan_expression_total [OF sub] by auto
    moreover have "\<forall>a \<in> snd ` set ls. query_exprs (set_option (ag_argument a))" using lift(2) by (auto simp: lifted_ok_def)
    ultimately have "\<exists>p2. plan_aggregation sub p1 (sb_group_by b) ls = Inr p2 \<and> query_node p2"
      using p1(2) by (auto simp: plan_aggregation_def intro!: query_node.aggregate)
    then show ?thesis using True lift by (auto simp: plan_grouping_def simp del: bind_res_Inr)
  next
    case False
    then show ?thesis using closed p1(2) by (auto simp: plan_grouping_def)
  qed
  then obtain p2 columns having order where p2: "plan_grouping pl sub eq b p1 = Inr (p2, columns, having, order)" "query_node p2"
    "\<forall>c \<in> set columns. closed_column A c" "\<forall>e \<in> set_option having. closed_over A e" "\<forall>e \<in> set order. closed_over A e" by blast
  obtain order' columns' hidden where hide:
    "(case output_names columns of Some vis \<Rightarrow> hide_sort_keys eq vis order columns 0 | None \<Rightarrow> (order, columns, 0)) = (order', columns', hidden)"
    by (metis prod.exhaust)
  have closed': "\<forall>e \<in> set order'. closed_over A e" "\<forall>c \<in> set columns'. closed_column A c"
    using hide p2(3,5) hide_sort_keys_ok [OF p2(5,3)] by (auto split: option.splits)
  obtain p3 where p3: "plan_filter sub having p2 = Inr p3" "query_node p3"
    using plan_filter_ok [OF p2(2), of having sub] p2(4) sub by blast
  obtain p4 where p4: "plan_projection sub p3 columns' = Inr p4" "query_node p4"
    using plan_projection_ok [OF p3(2) assms(1) closed'(2)] by blast
  obtain p5 where p5: "plan_order sub (sb_order_by b) order' p4 = Inr p5" "query_node p5"
    using plan_order_ok [OF p4(2) assms(1) closed'(1)] by blast
  have lim: "query_node (plan_limit l f p5)" for l f using p5(2) by (simp add: plan_limit_def query_node.limit)
  have "query_node (hide_columns ns (plan_limit l f p5))" for ns l f
    using lim by (auto simp: hide_columns_def intro!: query_node.project)
  then show ?thesis
    using p0 p1 p2 p3 p4 p5 hide lim by (auto simp: plan_body_def plan_output_def Let_def split: option.splits)
qed

lemma plan_select_total:
  "\<exists>p. plan_select pl mt s q = Inr p \<and> query_node (qp_root p)"
proof (induction q)
  case (SelectQuery b)
  let ?g = "\<lambda>q. (q, plan_select pl mt s q)"
  let ?b = "map_select_body ?g (map_sql_expr (\<lambda>f. f) ?g) b"
  let ?A = "set1_select_body ?b \<union> (\<Union>e \<in> set2_select_body ?b. set2_sql_expr e)"
  have "planned snd ?A"
    using SelectQuery by (auto simp: planned_def select_body.set_map sql_expr.set_map)
  moreover have "closed_body ?A ?b" by (auto simp: closed_body_def)
  ultimately obtain p where p: "plan_body pl s snd (\<lambda>q q'. query_eq (fst q) (fst q')) ?b = Inr p" "query_node p"
    using plan_body_ok by blast
  then show ?case by (auto simp: with_estimate_def split: prod.splits)
qed

text \<open>C0: Planning a query never fails, whatever tables and columns it names, and its plan consists of scans,
  filters, projections, joins, aggregations, sorts and limits, in its subqueries as well, so that the
  executor never meets a statement inside a query.\<close>

theorem queries_are_planned:
  "\<exists>p. plan_select pl mt s q = Inr p \<and> query_node (qp_root p)"
  by (rule plan_select_total)

end
