(* ===== verification/SqlSelect.thy ===== *)
theory SqlSelect
  imports SqlPlanned
begin

text \<open>
  The planner on a query: \<open>plan_select\<close> satisfies the recursive equation of the source, and what a planned
  query of one table returns.
\<close>

section \<open>The recursive equation of the planner\<close>

text \<open>\<open>plan_select\<close> works on subqueries paired with their plans.  Nothing but the planning and the
  comparison of subqueries depends on what they are.\<close>

abbreviation map_sub :: "('q \<Rightarrow> 'p) \<Rightarrow> (f64, 'q) sql_expr \<Rightarrow> (f64, 'p) sql_expr" where
  "map_sub g \<equiv> map_sql_expr (\<lambda>f. f) g"

abbreviation map_cols :: "('q \<Rightarrow> 'p) \<Rightarrow> (f64, 'q) sql_expr select_column list \<Rightarrow> (f64, 'p) sql_expr select_column list" where
  "map_cols g \<equiv> map (map_select_column (map_sub g))"

lemma map_pair_error_cong:
  "(\<And>p. p \<in> set ps \<Longrightarrow> f (fst p) = f' (fst p) \<and> f (snd p) = f' (snd p)) \<Longrightarrow>
    map (\<lambda>p. pair_error (map_prod f f p)) ps = map (\<lambda>p. pair_error (map_prod f' f' p)) ps"
  by (auto simp: pair_error_def map_prod_def split: prod.splits)

lemma plan_expression_map [simp]: "plan_expression sub (map_sub g e) = plan_expression (\<lambda>q. sub (g q)) e"
proof (induction e)
  case (EFunction name args dst)
  then have "map (\<lambda>e. plan_expression sub (map_sub g e)) args = map (plan_expression (\<lambda>q. sub (g q))) args"
    by (intro map_cong) auto
  then show ?case by (simp add: comp_def del: map_eq_conv)
next
  case (EInList e list negated)
  then have "map (\<lambda>e. plan_expression sub (map_sub g e)) list = map (plan_expression (\<lambda>q. sub (g q))) list"
    by (intro map_cong) auto
  then show ?case using EInList by (simp add: comp_def del: map_eq_conv)
next
  case (ECase operand conditions els)
  have "map (\<lambda>p. pair_error (map_prod (\<lambda>e. plan_expression sub (map_sub g e)) (\<lambda>e. plan_expression sub (map_sub g e)) p)) conditions
      = map (\<lambda>p. pair_error (map_prod (plan_expression (\<lambda>q. sub (g q))) (plan_expression (\<lambda>q. sub (g q))) p)) conditions"
    using ECase.IH(2,3) by (intro map_pair_error_cong) (auto simp: fsts.simps snds.simps)
  moreover have "map_option (\<lambda>e. plan_expression sub (map_sub g e)) z = map_option (plan_expression (\<lambda>q. sub (g q))) z"
    if "z = operand \<or> z = els" for z
    using ECase.IH(1,4) that by (cases z) auto
  ultimately show ?case by (simp add: comp_def option.map_comp map_prod_compose prod.map_comp del: map_eq_conv)
next
  case (EUnary op e)
  then show ?case by (cases op) simp_all
qed (simp_all add: ast_literal.map_ident)

lemma expr_eq_map [simp]: "expr_eq eq (map_sub g e) (map_sub g e') = expr_eq (\<lambda>a b. eq (g a) (g b)) e e'"
  by (simp add: expr_eq_def sql_expr.rel_map)

lemma name_of_map [simp]: "name_of (map_sub g e) = name_of e"
  by (induction e) simp_all

lemma aggregate_call_name_map [simp]: "aggregate_call_name pl (map_sub g e) = aggregate_call_name pl e"
  by (cases e) (simp_all add: aggregate_call_name_def)

lemma has_aggregate_map [simp]: "expression_has_aggregate pl (map_sub g e) = expression_has_aggregate pl e"
  by (induction e) (force simp: image_iff)+

lemma output_name_map [simp]: "output_name i (map_select_column (map_sub g) c) = output_name i c"
  by (cases c) (simp_all add: output_name_def split: option.split)

lemma output_names_map [simp]: "output_names (map_cols g columns) = output_names columns"
proof -
  have "output_names_from i (map_cols g columns) = output_names_from i columns" for i
    by (induction columns arbitrary: i) (simp_all split: option.splits)
  then show ?thesis by (simp add: output_names_def)
qed

lemma has_aggregates_map [simp]: "has_aggregates pl (map_cols g columns) = has_aggregates pl columns"
proof -
  have "(case map_select_column (map_sub g) c of ExprColumn e a \<Rightarrow> expression_has_aggregate pl e | _ \<Rightarrow> False)
      = (case c of ExprColumn e a \<Rightarrow> expression_has_aggregate pl e | _ \<Rightarrow> False)" for c
    by (cases c) simp_all
  then show ?thesis by (simp add: has_aggregates_def)
qed

lemma projected_name_of_map [simp]:
  "projected_name_of eq (map_sub g e) (map_cols g olds) (map_cols g news) = projected_name_of (\<lambda>a b. eq (g a) (g b)) e olds news"
proof (induction "\<lambda>a b. eq (g a) (g b)" e olds news rule: projected_name_of.induct)
  case (1 e old olds new news)
  then show ?case by (cases old; cases new) (auto split: option.split)
qed simp_all

lemma named_column_map [simp]: "map_sub g (named_column n) = named_column n"
  by (simp add: named_column_def)

lemma is_output_column_map [simp]: "is_output_column vis (map_sub g e) = is_output_column vis e"
  by (cases e) (simp_all add: is_output_column_def)

lemma hide_sort_keys_map:
  "hide_sort_keys eq vis (map (map_sub g) es) (map_cols g columns) hidden
    = (case hide_sort_keys (\<lambda>a b. eq (g a) (g b)) vis es columns hidden of
         (es', columns', hidden') \<Rightarrow> (map (map_sub g) es', map_cols g columns', hidden'))"
proof (induction es arbitrary: columns hidden)
  case (Cons e es)
  have "map_cols g columns @ [ExprColumn (map_sub g e) a] = map_cols g (columns @ [ExprColumn e a])" for a by simp
  then show ?case by (simp only: list.map hide_sort_keys.simps Cons.IH projected_name_of_map is_output_column_map)
      (simp add: Let_def Cons.IH del: map_append split: option.split prod.split)
qed simp

text \<open>Lifting: \<open>m\<close> does on the mapped state what \<open>m'\<close> does on the state.\<close>

abbreviation map_lifted :: "('q \<Rightarrow> 'p) \<Rightarrow> 'q lifted \<Rightarrow> 'p lifted" where
  "map_lifted g \<equiv> map (map_prod (map_sub g) (\<lambda>a. a))"

definition follows :: "('q \<Rightarrow> 'p) \<Rightarrow> ('a \<Rightarrow> 'b) \<Rightarrow> ('p, 'b) lifting \<Rightarrow> ('q, 'a) lifting \<Rightarrow> bool" where
  "follows g k m m' \<longleftrightarrow>
     (\<forall>ls. m (map_lifted g ls) = (case m' ls of Inl e \<Rightarrow> Inl e | Inr (x, ls') \<Rightarrow> Inr (k x, map_lifted g ls')))"

lemma follows_return: "y = k x \<Longrightarrow> follows g k (lift_return y) (lift_return x)"
  by (simp add: follows_def lift_return_def)

lemma follows_bind:
  assumes "follows g k m m'" "\<And>x. follows g h (f (k x)) (f' x)"
  shows "follows g h (lift_bind m f) (lift_bind m' f')"
proof -
  have "lift_bind m f (map_lifted g ls) = (case lift_bind m' f' ls of Inl e \<Rightarrow> Inl e | Inr (x, ls') \<Rightarrow> Inr (h x, map_lifted g ls'))" for ls
  proof (cases "m' ls")
    case (Inr r)
    obtain x ls' where r: "r = (x, ls')" by fastforce
    have "m (map_lifted g ls) = Inr (k x, map_lifted g ls')"
      using assms(1) [unfolded follows_def, rule_format, of ls] by (simp add: Inr r)
    moreover have "f (k x) (map_lifted g ls') = (case f' x ls' of Inl e \<Rightarrow> Inl e | Inr (x, ls') \<Rightarrow> Inr (h x, map_lifted g ls'))"
      using assms(2) [of x, unfolded follows_def, rule_format, of ls'] .
    ultimately show ?thesis by (simp add: lift_bind_def Inr r)
  next
    case (Inl e)
    then have "m (map_lifted g ls) = Inl e" using assms(1) [unfolded follows_def, rule_format, of ls] by simp
    then show ?thesis by (simp add: lift_bind_def Inl)
  qed
  then show ?thesis by (simp add: follows_def)
qed

lemma follows_all: "\<forall>x \<in> set xs. follows g k (m x) (m' x) \<Longrightarrow> follows g (map k) (lift_all (map m xs)) (lift_all (map m' xs))"
  by (induction xs) (auto intro!: follows_return follows_bind)

lemma follows_option:
  "\<forall>x \<in> set_option z. follows g k (m x) (m' x) \<Longrightarrow> follows g (map_option k) (lift_option (map_option m z)) (lift_option (map_option m' z))"
  by (cases z) (auto simp: lift_option_def intro!: follows_return follows_bind)

lemma follows_pair:
  assumes "follows g k (m (fst p)) (m' (fst p))" "follows g k (m (snd p)) (m' (snd p))"
  shows "follows g (map_prod k k) (lift_pair (map_prod m m p)) (lift_pair (map_prod m' m' p))"
  unfolding lift_pair_def by (rule follows_bind, use assms in simp, rule follows_bind, use assms in simp, rule follows_return) simp

lemma position_of_map: "position_of P (map f xs) = position_of (\<lambda>x. P (f x)) xs"
  by (induction xs) simp_all

lemma follows_call:
  "follows g (map_sub g) (lift_call pl sub eq (EFunction name (map (map_sub g) args) dst) name)
    (lift_call pl (\<lambda>q. sub (g q)) (\<lambda>a b. eq (g a) (g b)) (EFunction name args dst) name)"
proof -
  let ?e = "EFunction name args dst"
  have "extract_aggregate pl sub (map_sub g ?e) a = extract_aggregate pl (\<lambda>q. sub (g q)) ?e a" for a
    by (cases args) (auto simp: extract_aggregate_def split: option.split)
  moreover have "position_of (\<lambda>(x, agg). expr_eq eq x (map_sub g ?e)) (map_lifted g ls)
      = position_of (\<lambda>(x, agg). expr_eq (\<lambda>a b. eq (g a) (g b)) x ?e) ls" for ls
    unfolding position_of_map by (simp only: case_prod_map_prod expr_eq_map)
  ultimately have "lift_call pl sub eq (map_sub g ?e) name (map_lifted g ls)
      = (case lift_call pl (\<lambda>q. sub (g q)) (\<lambda>a b. eq (g a) (g b)) ?e name ls of
           Inl e \<Rightarrow> Inl e | Inr (x, ls') \<Rightarrow> Inr (map_sub g x, map_lifted g ls'))" for ls
    unfolding lift_call_def by (simp add: bind_res_def split: option.split sum.split)
  then show ?thesis by (simp add: follows_def)
qed

lemma follows_lift:
  "follows g (map_sub g) (lift_aggregates pl sub eq (map_sub g e)) (lift_aggregates pl (\<lambda>q. sub (g q)) (\<lambda>a b. eq (g a) (g b)) e)"
proof (induction e)
  case (EFunction name args dst)
  have "follows g (map (map_sub g)) (lift_all (map (\<lambda>e. lift_aggregates pl sub eq (map_sub g e)) args))
      (lift_all (map (lift_aggregates pl (\<lambda>q. sub (g q)) (\<lambda>a b. eq (g a) (g b))) args))"
    using EFunction by (intro follows_all) auto
  then show ?case
    using follows_call [of g pl sub eq name args dst] by (auto simp: comp_def intro!: follows_bind follows_return)
next
  case (EInList e list negated)
  have "follows g (map (map_sub g)) (lift_all (map (\<lambda>e. lift_aggregates pl sub eq (map_sub g e)) list))
      (lift_all (map (lift_aggregates pl (\<lambda>q. sub (g q)) (\<lambda>a b. eq (g a) (g b))) list))"
    using EInList by (intro follows_all) auto
  then show ?case using EInList(1) by (auto simp: comp_def intro!: follows_bind follows_return)
next
  case (ECase operand conditions els)
  let ?m = "\<lambda>e. lift_aggregates pl sub eq (map_sub g e)" and ?m' = "lift_aggregates pl (\<lambda>q. sub (g q)) (\<lambda>a b. eq (g a) (g b))"
  have "follows g (map_prod (map_sub g) (map_sub g)) (lift_pair (map_prod ?m ?m p)) (lift_pair (map_prod ?m' ?m' p))"
    if "p \<in> set conditions" for p
    using ECase.IH(2,3) [OF that] by (intro follows_pair) (auto simp: fsts.simps snds.simps)
  then have "follows g (map (map_prod (map_sub g) (map_sub g))) (lift_all (map (\<lambda>p. lift_pair (map_prod ?m ?m p)) conditions))
      (lift_all (map (\<lambda>p. lift_pair (map_prod ?m' ?m' p)) conditions))"
    by (intro follows_all) auto
  moreover have "follows g (map_option (map_sub g)) (lift_option (map_option ?m z)) (lift_option (map_option ?m' z))"
    if "z = operand \<or> z = els" for z
    using ECase.IH(1,4) that by (intro follows_option) auto
  ultimately show ?case
    by (simp add: comp_def option.map_comp map_prod_compose prod.map_comp) (auto intro!: follows_bind follows_return)
qed (auto intro!: follows_bind follows_return)

text \<open>The clauses.\<close>

abbreviation map_body :: "('q \<Rightarrow> 'p) \<Rightarrow> ('q, (f64, 'q) sql_expr) select_body \<Rightarrow> ('p, (f64, 'p) sql_expr) select_body" where
  "map_body g \<equiv> map_select_body g (map_sub g)"

lemma follows_column:
  "follows g (map_select_column (map_sub g)) (lift_column pl sub eq (map_select_column (map_sub g) c))
    (lift_column pl (\<lambda>q. sub (g q)) (\<lambda>a b. eq (g a) (g b)) c)"
  by (cases c) (auto simp: lift_column_def intro!: follows_return follows_bind [OF follows_lift] split: option.split)

lemma follows_sort_key:
  "follows g (map_sub g) (lift_sort_key pl sub eq (map_cols g old) (map_cols g new) (map_sub g e))
    (lift_sort_key pl (\<lambda>q. sub (g q)) (\<lambda>a b. eq (g a) (g b)) old new e)"
  by (auto simp: lift_sort_key_def intro!: follows_return follows_lift split: option.split)

lemma body_sels [simp]:
  "sb_columns (map_body g b) = map_cols g (sb_columns b)" "sb_where (map_body g b) = map_option (map_sub g) (sb_where b)"
  "sb_group_by (map_body g b) = map (map_sub g) (sb_group_by b)" "sb_having (map_body g b) = map_option (map_sub g) (sb_having b)"
  "sb_order_by (map_body g b) = map (map_order_by_item (map_sub g)) (sb_order_by b)"
  "sb_from (map_body g b) = map_option (map_from_clause g (map_sub g)) (sb_from b)"
  "sb_limit (map_body g b) = sb_limit b" "sb_offset (map_body g b) = sb_offset b"
  by (simp_all add: select_body.map_sel)

lemma follows_clauses:
  "follows g (\<lambda>(cs, h, es). (map_cols g cs, map_option (map_sub g) h, map (map_sub g) es)) (lift_clauses pl sub eq (map_body g b))
    (lift_clauses pl (\<lambda>q. sub (g q)) (\<lambda>a b. eq (g a) (g b)) b)"
proof -
  have keys: "map ob_expression (map (map_order_by_item (map_sub g)) items) = map (map_sub g) (map ob_expression items)" for items
    by (simp add: order_by_item.map_sel)
  have k: "follows g (map (map_sub g)) (lift_all (map (lift_sort_key pl sub eq (map_cols g (sb_columns b)) (map_cols g cs)) (map (map_sub g) es)))
      (lift_all (map (lift_sort_key pl (\<lambda>q. sub (g q)) (\<lambda>a b. eq (g a) (g b)) (sb_columns b) cs) es))" for cs es
    unfolding map_map comp_def by (intro follows_all ballI follows_sort_key)
  have z: "follows g (map_option (map_sub g)) (lift_option (map_option (lift_aggregates pl sub eq) (map_option (map_sub g) z)))
      (lift_option (map_option (lift_aggregates pl (\<lambda>q. sub (g q)) (\<lambda>a b. eq (g a) (g b))) z))" for z
    unfolding option.map_comp comp_def by (intro follows_option ballI follows_lift)
  have c: "follows g (map_cols g) (lift_all (map (lift_column pl sub eq) (map_cols g cs)))
      (lift_all (map (lift_column pl (\<lambda>q. sub (g q)) (\<lambda>a b. eq (g a) (g b))) cs))" for cs
    unfolding map_map comp_def by (intro follows_all ballI follows_column)
  show ?thesis
    unfolding lift_clauses_def body_sels keys
    by (rule follows_bind [OF c], rule follows_bind [OF z], rule follows_bind [OF k], rule follows_return) simp
qed

lemma plan_table_reference_map [simp]:
  "plan_table_reference s sub (map_table_reference g r) = plan_table_reference s (\<lambda>q. sub (g q)) r"
  by (cases r) (simp_all add: plan_table_reference_def)

lemma plan_join_map [simp]: "plan_join s sub p (map_join_clause g (map_sub g) j) = plan_join s (\<lambda>q. sub (g q)) p j"
  by (simp add: plan_join_def join_clause.map_sel option.map_comp comp_def)

lemma plan_joins_map: "plan_joins s sub (map (map_join_clause g (map_sub g)) js) p = plan_joins s (\<lambda>q. sub (g q)) js p"
proof (induction js arbitrary: p)
  case (Cons j js)
  have "plan_joins s sub (map (map_join_clause g (map_sub g)) js) = plan_joins s (\<lambda>q. sub (g q)) js" using Cons.IH by blast
  then show ?case by simp
qed simp

lemma plan_from_clause_map [simp]:
  "plan_from_clause s sub (map_option (map_from_clause g (map_sub g)) f) = plan_from_clause s (\<lambda>q. sub (g q)) f"
proof (cases f)
  case (Some x)
  have "plan_joins s sub (map (map_join_clause g (map_sub g)) (fc_joins x)) = plan_joins s (\<lambda>q. sub (g q)) (fc_joins x)"
    using plan_joins_map by blast
  then show ?thesis by (simp add: Some plan_from_clause_def from_clause.map_sel)
qed (simp add: plan_from_clause_def)

lemma plan_filter_map [simp]: "plan_filter sub (map_option (map_sub g) z) p = plan_filter (\<lambda>q. sub (g q)) z p"
  by (cases z) (simp_all add: plan_filter_def)

lemma plan_column_map [simp]: "plan_column sub (map_select_column (map_sub g) c) = plan_column (\<lambda>q. sub (g q)) c"
  by (cases c) (simp_all add: plan_column_def)

lemma map_res_map: "map_res f (map h xs) = map_res (\<lambda>x. f (h x)) xs"
  by (induction xs) simp_all

lemma plan_projection_map [simp]: "plan_projection sub p (map_cols g cs) = plan_projection (\<lambda>q. sub (g q)) p cs"
proof -
  have "(\<lambda>c. plan_column sub (map_select_column (map_sub g) c)) = plan_column (\<lambda>q. sub (g q))" by (rule ext) simp
  then show ?thesis by (simp add: plan_projection_def map_res_map)
qed

lemma plan_order_map [simp]:
  "plan_order sub (map (map_order_by_item (map_sub g)) items) (map (map_sub g) es) p = plan_order (\<lambda>q. sub (g q)) items es p"
proof -
  have "(\<lambda>z. plan_sort_key sub (map_prod (map_order_by_item (map_sub g)) (map_sub g) z)) = plan_sort_key (\<lambda>q. sub (g q))"
    by (rule ext) (simp add: plan_sort_key_def order_by_item.map_sel split: option.split)
  then show ?thesis by (simp add: plan_order_def zip_map_map map_res_map map_prod_def [symmetric])
qed

lemma plan_aggregation_map [simp]:
  "plan_aggregation sub p (map (map_sub g) gs) (map_lifted g ls) = plan_aggregation (\<lambda>q. sub (g q)) p gs ls"
proof -
  have "(\<lambda>e. plan_expression sub (map_sub g e)) = plan_expression (\<lambda>q. sub (g q))" by (rule ext) simp
  then show ?thesis by (simp add: plan_aggregation_def map_res_map comp_def)
qed

lemma is_grouped_map [simp]: "is_grouped pl (map_body g b) = is_grouped pl b"
  by (simp add: is_grouped_def)

lemma plan_grouping_map:
  "plan_grouping pl sub eq (map_body g b) p = (case plan_grouping pl (\<lambda>q. sub (g q)) (\<lambda>a b. eq (g a) (g b)) b p of
     Inl e \<Rightarrow> Inl e
   | Inr (p, cs, h, es) \<Rightarrow> Inr (p, map_cols g cs, map_option (map_sub g) h, map (map_sub g) es))"
proof -
  have "lift_clauses pl sub eq (map_body g b) [] = (case lift_clauses pl (\<lambda>q. sub (g q)) (\<lambda>a b. eq (g a) (g b)) b [] of
      Inl e \<Rightarrow> Inl e
    | Inr ((cs, h, es), ls) \<Rightarrow> Inr ((map_cols g cs, map_option (map_sub g) h, map (map_sub g) es), map_lifted g ls))"
    using follows_clauses [of g pl sub eq b, unfolded follows_def, rule_format, of "[]"] by (simp add: case_prod_beta split: sum.split)
  then show ?thesis
    by (auto simp: plan_grouping_def order_by_item.map_sel bind_res_def comp_def split: sum.split prod.split)
qed

lemma plan_output_map:
  "plan_output sub eq (map_body g b) (p, map_cols g cs, map_option (map_sub g) h, map (map_sub g) es)
    = plan_output (\<lambda>q. sub (g q)) (\<lambda>a b. eq (g a) (g b)) b (p, cs, h, es)"
proof (cases "output_names cs")
  case (Some ns)
  obtain es' cs' hidden where "hide_sort_keys (\<lambda>a b. eq (g a) (g b)) ns es cs 0 = (es', cs', hidden)" by (metis prod.exhaust)
  then show ?thesis by (simp add: plan_output_def Some hide_sort_keys_map)
qed (simp add: plan_output_def)

lemma plan_body_map:
  "plan_body pl s sub eq (map_body g b) = plan_body pl s (\<lambda>q. sub (g q)) (\<lambda>a b. eq (g a) (g b)) b"
proof -
  have "bind_res (plan_grouping pl sub eq (map_body g b) p) (plan_output sub eq (map_body g b))
      = bind_res (plan_grouping pl (\<lambda>q. sub (g q)) (\<lambda>a b. eq (g a) (g b)) b p)
          (plan_output (\<lambda>q. sub (g q)) (\<lambda>a b. eq (g a) (g b)) b)" for p
    unfolding plan_grouping_map
    by (cases "plan_grouping pl (\<lambda>q. sub (g q)) (\<lambda>a b. eq (g a) (g b)) b p") (auto simp: plan_output_map split: prod.split)
  then show ?thesis by (simp add: plan_body_def)
qed

text \<open>The planner as the source writes it: a query plans its subqueries by itself.\<close>

lemma plan_select_unfold:
  "plan_select pl mt s (SelectQuery b)
    = bind_res (plan_body pl s (plan_select pl mt s) query_eq b) (\<lambda>p. Inr (with_estimate mt s p))"
  using plan_body_map [of pl s snd "\<lambda>q q'. query_eq (fst q) (fst q')" "\<lambda>q. (q, plan_select pl mt s q)" b] by simp

end
