(* ===== verification/Spec2Isabelle.thy ===== *)
theory Spec2Isabelle
  imports RaftCommit Engine TwoPhase Crdt Shards Mvcc Wal BufferPool Backend Gorilla Float64 SqlValue SqlIndex SqlPlan SqlEval SqlOps SqlPipeline SqlContext SqlTables SqlExec SqlQuery SqlResults SqlAst SqlPlanner SqlPlanned SqlSelect
begin

text \<open>
  A verification of the core of Aegis-DB: the replication layer
  (\<^verbatim>\<open>crates/aegis-replication\<close>), the storage engine (\<^verbatim>\<open>crates/aegis-storage\<close>), the
  execution of queries (\<^verbatim>\<open>crates/aegis-query\<close>), the compression of time series and the
  common types they share (\<^verbatim>\<open>crates/aegis-common\<close>).  Every definition is a translation of a
  Rust item; its theory says which file it comes from.

  \<^bold>\<open>The parts and how they interact.\<close>
  A replication engine (\<^verbatim>\<open>engine.rs\<close>) drives one Raft node (\<^verbatim>\<open>raft.rs\<close>) and a table of the
  cluster's nodes (\<^verbatim>\<open>cluster.rs\<close>, \<^verbatim>\<open>node.rs\<close>), and exchanges messages over a transport
  (\<^verbatim>\<open>transport.rs\<close>).  A Raft node owns a replicated log (\<^verbatim>\<open>log.rs\<close>) and a state machine
  (\<^verbatim>\<open>state.rs\<close>): a client proposes a command to the leader, which appends it to its log, sends
  the log to its peers, advances the commit index when enough of them hold an entry, and feeds
  committed entries to its state machine; a peer that is too far behind gets a snapshot.  Data
  is split into shards (\<^verbatim>\<open>shard.rs\<close>, \<^verbatim>\<open>partition.rs\<close>) that a router finds
  (\<^verbatim>\<open>router.rs\<close>); transactions over several shards run by two-phase commit
  (\<^verbatim>\<open>transaction.rs\<close>).  Data that is replicated without consensus uses vector clocks
  (\<^verbatim>\<open>vector_clock.rs\<close>) and CRDTs (\<^verbatim>\<open>crdt.rs\<close>); keys are placed on nodes by consistent hashing
  (\<^verbatim>\<open>hash.rs\<close>).  Below, the storage engine keeps tuples in slotted pages (\<^verbatim>\<open>page.rs\<close>) that a
  buffer pool caches (\<^verbatim>\<open>buffer.rs\<close>), stores blocks (\<^verbatim>\<open>block.rs\<close>) through a backend
  (\<^verbatim>\<open>backend.rs\<close>), logs changes ahead (\<^verbatim>\<open>wal.rs\<close>), and isolates local transactions by locks
  and multi-version snapshots (\<^verbatim>\<open>transaction.rs\<close> of the storage crate).

  \<^bold>\<open>Shared theories.\<close>
  \<^item> \<open>Prelude\<close>: machine words, hash maps as association lists with distinct keys, the
    locale \<open>join_op\<close> of mergeable values (whatever joins, the entry-wise merge of two hash
    maps joins too), quorum intersection.  \<open>RustText\<close>: the parts of Rust's text handling the
    sources use (UTF-8 validation, decimal printing and parsing with their round trips).
    \<open>ByteCodec\<close>: little-endian words and the bytes of strings, with their round trips.
  \<^item> \<open>Common\<close> (\<^verbatim>\<open>aegis-common\<close>): errors and their classes, identifiers, key ranges, the validation
    of file names and of paths under a base directory, alignment.

  \<^bold>\<open>Replication.\<close>
  \<^item> \<open>ReplicatedLog\<close> (\<^verbatim>\<open>log.rs\<close>): the record \<open>replicated_log\<close> and one definition per
    method.  \<open>log_wf\<close> says that the entries have consecutive indices after the snapshot
    boundary.  The log refines a partial function from indices to entries.  What Raft needs
    of it is the locale \<open>indexed_log\<close>, interpreted as \<open>rlog\<close>.
  \<^item> \<open>StateMachine\<close> (\<^verbatim>\<open>state.rs\<close>): commands, the key-value machine (\<open>kv_...\<close>), the machine
    backed by a database (\<open>db_...\<close>, over an arbitrary operation handler).  The trait
    \<^verbatim>\<open>StateMachineBackend\<close> is the locale \<open>state_machine_backend\<close>, interpreted for both; the
    key-value machine refines \<open>kv_spec\<close>.
  \<^item> \<open>RaftNode\<close> (\<^verbatim>\<open>raft.rs\<close>): the record \<open>raft_node\<close>, the messages, and one definition per
    method, from the node to the new node and the result.  \<open>RaftElection\<close>: a cluster as a
    step relation in which only vote responses must be genuine; election safety by
    induction over its runs.  \<open>RaftReplication\<close>: what an accepted append does to the log, and
    that applying committed entries ends.  \<open>RaftCommit\<close>: the commit rule, the transfer of
    snapshots in chunks, and four scenarios in which the code loses safety or progress.
  \<^item> \<open>Cluster\<close> (\<^verbatim>\<open>cluster.rs\<close>, \<^verbatim>\<open>node.rs\<close>): the record \<open>membership\<close> (operations \<open>cm_...\<close>), heartbeats,
    suspicion and failure; its invariant \<open>cluster_ok\<close>, and what the failure detector reports on
    any sequence of events.
  \<^item> \<open>Engine\<close> (\<^verbatim>\<open>engine.rs\<close>, \<^verbatim>\<open>transport.rs\<close>): messages, the in-memory transport, the record \<open>engine\<close>
    (operations \<open>en_...\<close>) and its message loop.  \<open>engine_in_sync\<close> ties the Raft node to the node
    table.  A network of engines is a step relation; every step is a step of the Raft cluster of
    \<open>RaftElection\<close> or leaves it as it is, so election safety carries over.
  \<^item> \<open>Shards\<close> (\<^verbatim>\<open>shard.rs\<close>, \<^verbatim>\<open>partition.rs\<close>, \<^verbatim>\<open>router.rs\<close>): partition keys and their hash, strategies,
    ranges of hashes, the shard manager with its index, the routing table, query analysis; that
    ranges split into a partition, that the index stays exact, that every key is routed.
  \<^item> \<open>TwoPhase\<close> (\<^verbatim>\<open>transaction.rs\<close>): coordinator and participant, lock isolation, the
    coordinator's invariant, and the protocol over an unreliable network with its atomicity.
  \<^item> \<open>VectorClock\<close> (\<^verbatim>\<open>vector_clock.rs\<close>): vector clocks as the strict pointwise order (locale
    \<open>causality\<close>), hybrid timestamps as a linear order, Lamport clocks, dotted version vectors.
  \<^item> \<open>Crdt\<close> (\<^verbatim>\<open>crdt.rs\<close>): every replicated type; the locale \<open>crdt_state\<close> gives convergence from
    the laws of merging and is interpreted for counters, sets, registers and maps.
  \<^item> \<open>HashRing\<close> (\<^verbatim>\<open>hash.rs\<close>): the ring and rendezvous hashing as instances of the locale
    \<open>consistent_hash\<close>: a change of membership moves only the keys it must.

  \<^bold>\<open>Storage.\<close>
  \<^item> \<open>LockManager\<close> and \<open>Mvcc\<close> (\<^verbatim>\<open>transaction.rs\<close>): shared and exclusive locks with waiters and
    timeouts; transactions, snapshots, version chains, commit, abort, garbage collection.  Steps
    of several transactions interleave in a step relation; the theorems are mutual exclusion,
    repeatable reads, one uncommitted writer per key, and what commit publishes.
  \<^item> \<open>Wal\<close> (\<^verbatim>\<open>wal.rs\<close>): the byte format of records, segments, append, rotation, flush, checkpoints,
    recovery; a crash keeps any prefix of what was not synced.
  \<^item> \<open>Page\<close> (\<^verbatim>\<open>page.rs\<close>): the page of 8192 bytes at byte level, refining a map from slots to tuples.
  \<^item> \<open>BufferPool\<close> (\<^verbatim>\<open>buffer.rs\<close>): frames, page table, free list, LRU eviction, pins and handles.
  \<^item> \<open>Block\<close> (\<^verbatim>\<open>block.rs\<close>): checksum, compression, encryption and serialisation of a block.
  \<^item> \<open>Backend\<close> (\<^verbatim>\<open>backend.rs\<close>): the trait \<^verbatim>\<open>StorageBackend\<close> as the locale \<open>storage_backend\<close>,
    interpreted as \<open>mem\<close> and \<open>loc\<close> by the memory and the local disk backend; recovery of identifiers
    and the transactions of the local backend.

  \<^bold>\<open>Queries\<close> (\<^verbatim>\<open>aegis-query\<close>).
  \<^item> \<open>Float64\<close>: the floating point numbers of the language as bit patterns, with rounding; integers
    of 53 bits are exact.  \<open>SqlValue\<close> (\<^verbatim>\<open>executor.rs\<close>): values, conversions, comparison and the
    scalar functions.  What the library prints for floats and times is in the record \<open>platform\<close>.
  \<^item> \<open>SqlIndex\<close> (\<^verbatim>\<open>index.rs\<close>): B-tree and hash indexes, instances of the locale \<open>row_index\<close>: both
    implement a relation between keys and rows.
  \<^item> \<open>SqlPlan\<close> (\<^verbatim>\<open>planner.rs\<close>): the types of plans.  \<open>SqlEval\<close>: evaluation of expressions and
    substitution of parameters.
  \<^item> \<open>SqlOps\<close> (\<^verbatim>\<open>executor.rs\<close>): the operators, states with a step that hands out a batch, an end or
    an error; \<open>SqlPipeline\<close>: the locale \<open>rows_operator\<close>, interpreted for every operator, says which
    rows an operator hands out in all.
  \<^item> \<open>SqlContext\<close>: the execution context, its tables of versioned rows, schemas, constraints, indexes and
    snapshots, and the data statements; a panic of the source is \<open>None\<close>.  \<open>SqlTables\<close>: the statements
    refine operations on lists of rows, constraints are kept, a new index is exact, transfers conserve
    money, a saved context loads; and examples of what indexes, renamed or dropped columns and refused
    statements leave behind.
  \<^item> \<open>SqlExec\<close>: the executor, from a plan to operators, from operators to a result.  Pulling an operator
    until it ends is \<open>drain\<close>, \<open>None\<close> if it never ends, as a scan with batches of size 0.
  \<^item> \<open>SqlQuery\<close>: \<open>plan_meaning\<close> gives a plan its relation and \<open>plan_supported\<close> says which plans the
    executor computes; \<open>SqlResults\<close>: when sorting sorts and the two joins agree, on the locale
    \<open>comparison\<close>, and the queries that are not computed as asked.

  \<^bold>\<open>Time series.\<close>
  \<^item> \<open>Gorilla\<close> (\<^verbatim>\<open>compression.rs\<close>): bit streams as lists of booleans, the delta-of-delta and XOR
    codes, compressor and decompressor kept in step by \<open>in_step\<close>, the columnar codec and the check
    that guards its use; that what was compressed is decoded, and how many bits it takes.

  \<^bold>\<open>Modelling choices.\<close>
  Integers keep their width; additions wrap, as in the release build of the crate.  A
  \<^verbatim>\<open>HashMap\<close> is an association list whose order stands for the unspecified iteration
  order; a \<^verbatim>\<open>HashSet\<close> is a set or a list without repetition.  Strings are byte strings.
  A method is one atomic step, except where the source releases its locks in between
  (commit and write of \<open>Mvcc\<close>, the polling of \<open>LockManager\<close>).  Readings of clocks and generated
  identifiers are arguments.  A directory is a map from file names to bytes.
  The loops that may not end, \<^verbatim>\<open>apply_committed\<close> and the pulling of an operator, are partial functions
  into \<open>option\<close>, where \<open>None\<close> means that it never returns; the transfer of a snapshot is driven by
  fuel, and \<open>length div 65536 + 1\<close> calls are enough because a chunk has 65536 bytes.
  Third-party code is a parameter: the record \<open>codec\<close> for \<^verbatim>\<open>serde_json\<close> and \<^verbatim>\<open>crc32fast\<close>, the
  record \<open>block_libs\<close> for compression, encryption, checksums and \<^verbatim>\<open>bincode\<close>, the codec of
  checkpoints; a theorem that needs it to read back what it wrote says so.

  \<^bold>\<open>Not modelled.\<close>
  Network I/O, most of the lock discipline inside methods, jump hashing (floating point), the SQL
  parser, the planner, and so far the time-series, document, columnar, streaming, vector, full-text, geo,
  object and wide-column stores, the ledger, and the services around the database (server,
  client, monitoring, updates, vault, shield).
\<close>

section \<open>Raft, its log and its state machine together\<close>

text \<open>C6: replicas agree.  Two nodes that have the same state machine state at the same applied
  position, the same commit index, and logs that agree between the two, have the same state
  machine state after applying, whatever else differs between them (snapshots, later
  entries, terms, roles).\<close>

theorem replicas_agree:
  assumes "applicable (n_log n)" "applicable (n_log m)"
    and "l_applied (n_log n) = l_applied (n_log m)" "l_commit (n_log n) = l_commit (n_log m)"
    and "\<forall>i. l_applied (n_log n) < i \<and> i \<le> l_commit (n_log n) \<longrightarrow>
      log_get (n_log n) i = log_get (n_log m) i"
    and "n_sm n = n_sm m"
  shows "\<exists>n' m' rs rs'. apply_committed cd be n = Some (n', rs) \<and>
    apply_committed cd be m = Some (m', rs') \<and> n_sm n' = n_sm m'"
proof -
  have "pending_entries (n_log n) = pending_entries (n_log m)"
  proof (cases "l_applied (n_log n) \<le> l_commit (n_log n)")
    case True
    have "log_get (n_log n) (of_nat i) = log_get (n_log m) (of_nat i)"
      if "unat (l_applied (n_log n)) < i" "i \<le> unat (l_commit (n_log n))" for i
    proof -
      have "unat (of_nat i :: u64) = i"
        using that(2) unat_lt_u64 [of "l_commit (n_log n)"] by (intro unat_of_nat_u64) linarith
      then show ?thesis using assms(5) that by (simp add: u64_order)
    qed
    then show ?thesis
      using pending_entries_eq [OF assms(1) True] pending_entries_eq [OF assms(2)] assms(3,4) True
      by (auto intro!: map_cong simp del: upt_Suc)
  next
    case False
    then show ?thesis using assms(3,4) by (simp add: pending_entries_def u64_order)
  qed
  then show ?thesis
    using apply_committed_loop_runs [OF assms(1), of cd be "[]"]
      apply_committed_loop_runs [OF assms(2), of cd be "[]"] assms(6)
    by (auto simp: apply_committed_def)
qed

theorem replicas_agree_witness:
  "\<exists>n' m' rs rs'.
     apply_committed sample_codec kv_backend
       ((sample_node ''a'' 1 Leader [])\<lparr>n_log := set_commit_index (log_of_terms [1, 1, 2]) 2\<rparr>) = Some (n', rs) \<and>
     apply_committed sample_codec kv_backend
       ((sample_node ''b'' 3 Follower [])\<lparr>n_log := set_commit_index (log_of_terms [1, 1]) 2\<rparr>) = Some (m', rs') \<and>
     n_sm n' = n_sm m'"
proof -
  let ?l = "set_commit_index (log_of_terms [1, 1, 2]) 2" and ?k = "set_commit_index (log_of_terms [1, 1]) 2"
  have ok: "applicable ?l" "applicable ?k"
    unfolding applicable_def using log_wf_of_terms [of "[1, 1, 2]"] log_wf_of_terms [of "[1, 1]"]
    by (simp_all add: log_wf_def log_eval upt_rec)
  have same: "l_applied ?l = 0" "l_applied ?k = 0" "l_commit ?l = 2" "l_commit ?k = 2"
    by (simp_all add: log_eval upt_rec)
  have agree: "log_get ?l i = log_get ?k i" if "0 < i" "i \<le> 2" for i :: u64
  proof -
    have "unat i \<in> {1, 2}" using that by (auto simp: u64_order)
    then have "i = 1 \<or> i = 2" by (auto simp: u64_eq_iff_unat)
    then show ?thesis by (auto simp: log_eval set_commit_index_def upt_rec)
  qed
  show ?thesis
    by (rule replicas_agree) (use ok same agree in \<open>simp_all add: node_eval\<close>)
qed

text \<open>C19: a proposed command takes effect.  A leader that is up to date with its own log appends a
  client command at the next index; once that index is committed, applying ends, the
  replicated map has changed exactly by the command's meaning, and the index is marked
  applied.  (The codec must read back what it wrote for this command.)\<close>

theorem proposed_command_takes_effect:
  assumes "is_leader n" "log_wf (n_log n)" "last_index (n_log n) \<noteq> - 1"
    and "l_applied (n_log n) = last_index (n_log n)" "l_commit (n_log n) = last_index (n_log n)"
    and "m_last_applied (n_sm n) \<le> last_index (n_log n)"
    and "cmd_decode cd (cmd_encode cd cmd) = Some cmd"
    and "propose cd wall n cmd = (n1, Inr index)"
  shows "\<exists>n2 rs. apply_committed cd kv_backend (n1\<lparr>n_log := set_commit_index (n_log n1) index\<rparr>) =
      Some (n2, rs) \<and> kv_get (n_sm n2) = kv_spec cmd (kv_get (n_sm n)) \<and>
      l_applied (n_log n2) = index"
proof -
  let ?e = "entry_command wall (last_index (n_log n) + 1) (current_term (n_state n)) (cmd_encode cd cmd)"
  let ?l = "fst (log_append (n_log n) ?e)" and ?i = "last_index (n_log n) + 1"
  have ei: "e_index ?e = ?i" "e_data ?e = cmd_encode cd cmd"
    by (simp_all add: entry_command_def entry_new_def)
  have n1: "n1 = n\<lparr>n_log := ?l\<rparr>" and idx: "index = ?i"
    using assms(1,8) by (auto simp: propose_def Let_def)
  have lt: "last_index (n_log n) < ?i" using assms(3) by (rule u64_lt_Suc)
  have wf: "log_wf ?l" and get: "log_get ?l = (log_get (n_log n))(?i \<mapsto> ?e)"
    and last: "last_index ?l = ?i"
    using log_wf_append [OF assms(2,3), of ?e] log_get_append [OF assms(2,3), of ?e]
      last_index_append [OF assms(2,3), of ?e] ei by simp_all
  let ?m = "n1\<lparr>n_log := set_commit_index (n_log n1) index\<rparr>"
  have com: "l_applied (n_log ?m) = last_index (n_log n)" "l_commit (n_log ?m) = ?i"
    using assms(4,5) lt by (simp_all add: n1 idx)
  have "l_snap_index (n_log n) \<le> last_index (n_log n)"
    using assms(2) by (simp add: u64_order unat_last_index)
  then have ok: "applicable (n_log ?m)"
    using wf last assms(4,5) lt by (simp add: applicable_def n1 idx)
  have "unat ?i = unat (last_index (n_log n)) + 1"
    using unat_not_max_u64 [OF assms(3)] by (simp add: unat_Suc_u64)
  then have "pending_entries (n_log ?m) = [?e]"
    using pending_entries_eq [OF ok] com lt by (simp add: n1 idx get)
  moreover have "apply_entry cd kv_backend (n_sm n) ?e = snd (kv_apply (n_sm n) cmd ?i)"
    using assms(7) ei by (simp add: apply_entry_def kv_backend_def)
  moreover have "kv_get (snd (kv_apply (n_sm n) cmd ?i)) = kv_spec cmd (kv_get (n_sm n))"
    using order_le_less_trans [OF assms(6) lt] by (simp add: kv_apply_refines)
  ultimately show ?thesis
    using apply_committed_loop_runs [OF ok, of cd kv_backend "[]"] com lt
    by (auto simp: apply_committed_def n1 idx set_last_applied_def)
qed

theorem proposed_command_takes_effect_witness:
  "\<exists>n2 rs n1. propose sample_codec 0 (sample_node ''a'' 1 Leader []) (cmd_set ''x'' []) = (n1, Inr 1) \<and>
     apply_committed sample_codec kv_backend (n1\<lparr>n_log := set_commit_index (n_log n1) 1\<rparr>) = Some (n2, rs) \<and>
     kv_get (n_sm n2) ''x'' = Some []"
proof -
  let ?n = "sample_node ''a'' 1 Leader []" and ?c = "cmd_set ''x'' []"
  obtain n1 where n1: "propose sample_codec 0 ?n ?c = (n1, Inr 1)"
    by (simp add: propose_def node_eval log_eval)
  have "is_leader ?n" "log_wf (n_log ?n)" "last_index (n_log ?n) \<noteq> - 1"
    "l_applied (n_log ?n) = last_index (n_log ?n)" "l_commit (n_log ?n) = last_index (n_log ?n)"
    "m_last_applied (n_sm ?n) \<le> last_index (n_log ?n)"
    "cmd_decode sample_codec (cmd_encode sample_codec ?c) = Some ?c"
    using log_wf_of_terms [of "[]"]
    by (simp_all add: node_eval log_eval kv_new_def sample_codec_def cmd_set_def mk_command_def)
  from proposed_command_takes_effect [OF this n1]
  obtain n2 rs where r: "apply_committed sample_codec kv_backend
      (n1\<lparr>n_log := set_commit_index (n_log n1) 1\<rparr>) = Some (n2, rs)"
    "kv_get (n_sm n2) = kv_spec ?c (kv_get (n_sm ?n))" by blast
  have "kv_spec ?c (kv_get (n_sm ?n)) ''x'' = Some []"
    by (simp add: kv_spec_def cmd_set_def mk_command_def)
  with n1 r show ?thesis by auto
qed

end
